(* ===== verification/Prelude.thy ===== *)
theory Prelude
  imports Main "HOL-Library.Code_Target_Nat" "HOL-Library.List_Lexorder" "HOL-Library.Char_ord" "HOL-Library.Multiset"
begin

text \<open>
  What every component of the development shares: the errors the application throws, the
  part of the JavaScript string and array library the sources use, and the lemmas on them
  that the component proofs rest on.

  A \<^typ>\<open>char\<close> stands for a UTF-16 code unit below 256 and a \<^typ>\<open>string\<close> for a JavaScript
  string of such units; JavaScript compares strings unit by unit, which is the
  lexicographic order on \<^typ>\<open>string\<close> of the library. Case conversion is that of ASCII.
\<close>

named_theorems js_string \<open>rewrite rules for the JavaScript string operations\<close>
named_theorems decimal \<open>printing and reading of numbers in a base\<close>

section \<open>Errors\<close>

text \<open>One constructor per error class of the sources and of the library they call, with what its
  handlers read.\<close>

datatype error =
    Error string
  | TypeError
  | ClockDriftError int
  | DecryptionError string
  | EnvelopeFormatError string
  | BackupFormatError string
  | VaultLockedError
  | NoSyncTargetError
  | SyncTransportError string bool
  | SyntaxError
  | InvalidCharacterError

type_synonym 'a result = "error + 'a"

text \<open>A call that may throw and that changes a state: the state is returned on both paths,
  because a \<open>catch\<close> further up goes on with whatever had been changed by then.\<close>

type_synonym ('s, 'a) call = "'s \<Rightarrow> 'a result \<times> 's"

definition andThen :: "('s, 'a) call \<Rightarrow> ('a \<Rightarrow> ('s, 'b) call) \<Rightarrow> ('s, 'b) call" where
  "andThen m k s = (case m s of (Inl e, s') \<Rightarrow> (Inl e, s') | (Inr a, s') \<Rightarrow> k a s')"

definition return :: "'a \<Rightarrow> ('s, 'a) call" where
  "return a s = (Inr a, s)"

definition throw :: "error \<Rightarrow> ('s, 'a) call" where
  "throw e s = (Inl e, s)"

fun forEach :: "('a \<Rightarrow> ('s, unit) call) \<Rightarrow> 'a list \<Rightarrow> ('s, unit) call" where
  "forEach f [] s = (Inr (), s)"
| "forEach f (x # xs) s = (case f x s of (Inl e, s') \<Rightarrow> (Inl e, s') | (Inr _, s') \<Rightarrow> forEach f xs s')"

lemma andThen_Inr [simp]: "m s = (Inr a, s') \<Longrightarrow> andThen m k s = k a s'"
  by (simp add: andThen_def)

lemma andThen_Inl [simp]: "m s = (Inl e, s') \<Longrightarrow> andThen m k s = (Inl e, s')"
  by (simp add: andThen_def)

lemma forEach_invariant:
  assumes "\<And>x s r s'. f x s = (r, s') \<Longrightarrow> P s \<Longrightarrow> P s'" and "P s" and "forEach f xs s = (r, s')"
  shows "P s'"
  using assms(2,3)
proof (induction xs arbitrary: s)
  case Nil
  then show ?case by simp
next
  case (Cons x xs)
  obtain q t where q: "f x s = (q, t)" by fastforce
  with Cons.prems(1) assms(1) have "P t" by blast
  with q Cons show ?case by (cases q) auto
qed

section \<open>Arrays\<close>

text \<open>\<open>[...new Set(xs)]\<close>: the distinct values in the order of their first occurrence.\<close>

definition unique :: "'a list \<Rightarrow> 'a list" where
  "unique xs = rev (remdups (rev xs))"

lemma set_unique [simp]: "set (unique xs) = set xs"
  by (simp add: unique_def)

lemma distinct_unique [simp]: "distinct (unique xs)"
  by (simp add: unique_def)

lemma unique_distinct: "distinct xs \<Longrightarrow> unique xs = xs"
  by (simp add: unique_def distinct_remdups_id)

lemma unique_Nil_iff [simp]: "unique xs = [] \<longleftrightarrow> xs = []"
  by (metis set_unique set_empty)

section \<open>Strings\<close>

definition padStart :: "nat \<Rightarrow> char \<Rightarrow> string \<Rightarrow> string" where
  "padStart w c s = replicate (w - length s) c @ s"

definition padEnd :: "nat \<Rightarrow> char \<Rightarrow> string \<Rightarrow> string" where
  "padEnd w c s = s @ replicate (w - length s) c"

definition slice :: "nat \<Rightarrow> nat \<Rightarrow> 'a list \<Rightarrow> 'a list" where
  "slice i j xs = drop i (take j xs)"

text \<open>\<open>s.split(c)\<close> for a one-character separator: never empty.\<close>

fun split_on :: "'a \<Rightarrow> 'a list \<Rightarrow> 'a list list" where
  "split_on c [] = [[]]"
| "split_on c (x # xs) =
     (if x = c then [] # split_on c xs
      else (case split_on c xs of [] \<Rightarrow> [[x]] | p # ps \<Rightarrow> (x # p) # ps))"

fun join :: "'a list \<Rightarrow> 'a list list \<Rightarrow> 'a list" where
  "join sep [] = []"
| "join sep [x] = x"
| "join sep (x # y # xs) = x @ sep @ join sep (y # xs)"

lemma split_on_not_Nil [simp]: "split_on c xs \<noteq> []"
  by (cases xs) (auto split: list.splits)

lemma split_on_no_sep [js_string]: "c \<notin> set xs \<Longrightarrow> split_on c xs = [xs]"
  by (induction xs) auto

lemma split_on_append [js_string]:
  "c \<notin> set xs \<Longrightarrow> split_on c (xs @ c # ys) = xs # split_on c ys"
  by (induction xs) auto

lemma join_split_on: "join [c] (split_on c xs) = xs"
proof (induction xs)
  case Nil
  then show ?case by simp
next
  case (Cons x xs)
  obtain p ps where p: "split_on c xs = p # ps" by (cases "split_on c xs") auto
  with Cons.IH show ?case by (cases ps) auto
qed

text \<open>The whitespace \<open>trim\<close> removes, among the code units below 256.\<close>

definition is_space :: "char \<Rightarrow> bool" where
  "is_space c \<longleftrightarrow> of_char c \<in> {9, 10, 11, 12, 13, 32, 160 :: nat}"

definition trim :: "string \<Rightarrow> string" where
  "trim s = rev (dropWhile is_space (rev (dropWhile is_space s)))"

definition upper_char :: "char \<Rightarrow> char" where
  "upper_char c = (if CHR ''a'' \<le> c \<and> c \<le> CHR ''z'' then char_of (of_char c - 32 :: nat) else c)"

definition lower_char :: "char \<Rightarrow> char" where
  "lower_char c = (if CHR ''A'' \<le> c \<and> c \<le> CHR ''Z'' then char_of (of_char c + 32 :: nat) else c)"

definition toUpperCase :: "string \<Rightarrow> string" where
  "toUpperCase = map upper_char"

definition toLowerCase :: "string \<Rightarrow> string" where
  "toLowerCase = map lower_char"

fun startsWith :: "'a list \<Rightarrow> 'a list \<Rightarrow> bool" where
  "startsWith [] s = True"
| "startsWith (p # ps) [] = False"
| "startsWith (p # ps) (c # cs) = (p = c \<and> startsWith ps cs)"

fun includes_str :: "'a list \<Rightarrow> 'a list \<Rightarrow> bool" where
  "includes_str p [] = (p = [])"
| "includes_str p (c # cs) = (startsWith p (c # cs) \<or> includes_str p cs)"

lemma startsWith_iff [js_string]: "startsWith p s \<longleftrightarrow> (\<exists>t. s = p @ t)"
  by (induction p s rule: startsWith.induct) auto

lemma startsWith_append [simp]: "startsWith p (p @ t)"
  by (simp add: startsWith_iff)

lemma append_less_append_iff: "(xs @ ys :: 'a :: linorder list) < xs @ zs \<longleftrightarrow> ys < zs"
  by (induction xs) auto

lemma append_less_mono:
  "length (xs :: 'a :: linorder list) = length ys \<Longrightarrow> xs < ys \<Longrightarrow> xs @ us < ys @ vs"
  by (induction xs ys rule: list_induct2) auto

lemma append_less_iff:
  "length (xs :: 'a :: linorder list) = length ys \<Longrightarrow>
   xs @ us < ys @ vs \<longleftrightarrow> xs < ys \<or> xs = ys \<and> us < vs"
  by (induction xs ys rule: list_induct2) auto

section \<open>Numbers in a base\<close>

text \<open>\<open>String(n)\<close> is \<open>to_base 10 n\<close> and \<open>n.toString(16)\<close> is \<open>to_base 16 n\<close>.\<close>

definition digit_char :: "nat \<Rightarrow> char" where
  "digit_char d = (if d < 10 then char_of (48 + d) else char_of (87 + d))"

definition char_digit :: "char \<Rightarrow> nat" where
  "char_digit c = (let n = of_char c in if n < 58 then n - 48 else n - 87)"

definition is_digit :: "char \<Rightarrow> bool" where
  "is_digit c \<longleftrightarrow> CHR ''0'' \<le> c \<and> c \<le> CHR ''9''"

function to_base :: "nat \<Rightarrow> nat \<Rightarrow> string" where
  "to_base b n = (if b < 2 \<or> n < b then [digit_char n] else to_base b (n div b) @ [digit_char (n mod b)])"
  by pat_completeness auto
termination
  by (relation "measure snd") (auto simp: div_less_dividend)

declare to_base.simps [simp del]

abbreviation String_of :: "nat \<Rightarrow> string" where
  "String_of n \<equiv> to_base 10 n"

fun from_base :: "nat \<Rightarrow> string \<Rightarrow> nat" where
  "from_base b s = foldl (\<lambda>acc c. acc * b + char_digit c) 0 s"

declare from_base.simps [simp del]

text \<open>The fixed-width form that padding with zeros produces.\<close>

fun fixed :: "nat \<Rightarrow> nat \<Rightarrow> nat \<Rightarrow> string" where
  "fixed b 0 n = []"
| "fixed b (Suc w) n = fixed b w (n div b) @ [digit_char (n mod b)]"

lemma length_fixed [simp]: "length (fixed b w n) = w"
  by (induction w arbitrary: n) auto

lemma of_char_digit_char [simp]: "d < 16 \<Longrightarrow> of_char (digit_char d) = (if d < 10 then 48 + d else 87 + d)"
  by (auto simp: digit_char_def)

lemma char_digit_digit_char [simp]: "d < 16 \<Longrightarrow> char_digit (digit_char d) = d"
  by (simp add: char_digit_def Let_def)

lemma digit_char_less_iff [simp]: "d < 16 \<Longrightarrow> e < 16 \<Longrightarrow> digit_char d < digit_char e \<longleftrightarrow> d < e"
  by (auto simp: less_char_def)

lemma digit_char_eq_iff [simp]: "d < 16 \<Longrightarrow> e < 16 \<Longrightarrow> digit_char d = digit_char e \<longleftrightarrow> d = e"
  by (metis char_digit_digit_char)

lemma fixed_less_iff [decimal]:
  assumes "2 \<le> b" and "b \<le> 16"
  shows "m < b ^ w \<Longrightarrow> n < b ^ w \<Longrightarrow> fixed b w m < fixed b w n \<longleftrightarrow> m < n"
proof (induction w arbitrary: m n)
  case 0
  then show ?case by simp
next
  case (Suc w)
  from Suc.prems assms have d: "m div b < b ^ w" "n div b < b ^ w"
    by (simp_all add: less_mult_imp_div_less mult.commute)
  from assms have r: "m mod b < 16" "n mod b < 16"
    using mod_less_divisor [of b m] mod_less_divisor [of b n] by linarith+
  have inj: "fixed b w (m div b) = fixed b w (n div b) \<longleftrightarrow> m div b = n div b"
    using Suc.IH [OF d] Suc.IH [OF d(2) d(1)] by (metis less_irrefl nat_neq_iff)
  have "fixed b (Suc w) m < fixed b (Suc w) n \<longleftrightarrow>
      m div b < n div b \<or> m div b = n div b \<and> m mod b < n mod b"
    using r by (simp add: append_less_iff Suc.IH [OF d] inj)
  also have "\<dots> \<longleftrightarrow> m < n"
    by (metis div_le_mono div_mult_mod_eq leD le_less linorder_less_linear nat_add_left_cancel_less)
  finally show ?case .
qed

lemma fixed_inj [decimal]:
  assumes "2 \<le> b" and "b \<le> 16" and "m < b ^ w" and "n < b ^ w"
  shows "fixed b w m = fixed b w n \<longleftrightarrow> m = n"
  using fixed_less_iff [OF assms(1,2,3,4)] fixed_less_iff [OF assms(1,2,4,3)]
  by (metis less_irrefl nat_neq_iff)

lemma digit_char_0 [simp]: "digit_char 0 = CHR ''0''"
  by code_simp

lemma fixed_0: "fixed b w 0 = replicate w CHR ''0''"
  by (induction w) (auto simp: replicate_append_same)

lemma padStart_snoc: "padStart (Suc w) c (s @ [x]) = padStart w c s @ [x]"
  by (simp add: padStart_def)

lemma padStart_to_base [decimal]:
  assumes "2 \<le> b"
  shows "0 < w \<Longrightarrow> n < b ^ w \<Longrightarrow> padStart w CHR ''0'' (to_base b n) = fixed b w n"
  using assms
proof (induction b n arbitrary: w rule: to_base.induct)
  case (1 b n)
  then obtain v where w: "w = Suc v" by (cases w) auto
  show ?case
  proof (cases "n < b")
    case True
    then show ?thesis
      by (simp add: w to_base.simps [of b n] padStart_def fixed_0)
  next
    case False
    with "1.prems" have "n div b < b ^ v"
      by (simp add: w less_mult_imp_div_less mult.commute)
    moreover from False "1.prems" have "n div b \<noteq> 0" by (simp add: div_eq_0_iff)
    ultimately have "0 < v" by (cases v) auto
    with False "1" \<open>n div b < b ^ v\<close> show ?thesis
      by (simp add: w to_base.simps [of b n] padStart_snoc)
  qed
qed

lemma from_base_Nil [simp]: "from_base b [] = 0"
  by (simp add: from_base.simps)

lemma from_base_snoc [simp]: "from_base b (s @ [c]) = from_base b s * b + char_digit c"
  by (simp add: from_base.simps)

lemma from_base_fixed [decimal]:
  assumes "2 \<le> b" and "b \<le> 16"
  shows "n < b ^ w \<Longrightarrow> from_base b (fixed b w n) = n"
proof (induction w arbitrary: n)
  case 0
  then show ?case by simp
next
  case (Suc w)
  then have "n div b < b ^ w" by (simp add: less_mult_imp_div_less mult.commute)
  moreover have "n mod b < 16" using assms mod_less_divisor [of b n] by linarith
  ultimately show ?case using Suc.IH by simp
qed

lemma from_base_to_base [decimal]:
  assumes "2 \<le> b" and "b \<le> 16"
  shows "from_base b (to_base b n) = n"
  using assms
proof (induction b n rule: to_base.induct)
  case (1 b n)
  have "n mod b < 16" using "1.prems" mod_less_divisor [of b n] by linarith
  then show ?case
  proof (cases "n < b")
    case True
    with "1.prems" have "from_base b ([] @ [digit_char n]) = n" by (simp del: append_Nil)
    with True show ?thesis by (simp add: to_base.simps [of b n])
  next
    case False
    with "1" \<open>n mod b < 16\<close> show ?thesis by (simp add: to_base.simps [of b n])
  qed
qed

lemma is_digit_digit_char [simp]: "d < 10 \<Longrightarrow> is_digit (digit_char d)"
  by (simp add: is_digit_def less_eq_char_def)

lemma is_digit_fixed [simp]: "c \<in> set (fixed 10 w n) \<Longrightarrow> is_digit c"
  by (induction w arbitrary: n) auto

lemma is_digit_String_of: "c \<in> set (String_of n) \<Longrightarrow> is_digit c"
proof (induction "10 :: nat" n rule: to_base.induct)
  case (1 n)
  then show ?case by (auto simp: to_base.simps [of 10 n] split: if_splits)
qed

lemma to_base_not_Nil [simp]: "to_base b n \<noteq> []"
  by (subst to_base.simps) simp

lemma digit_chars_of_fixed:
  assumes "2 \<le> b" and "c \<in> set (fixed b w n)"
  shows "\<exists>d < b. c = digit_char d"
proof -
  have "n mod b < b" for n using assms(1) by simp
  with assms(2) show ?thesis by (induction w arbitrary: n) auto
qed

lemma dash_not_digit [simp]: "d < 16 \<Longrightarrow> digit_char d \<noteq> CHR ''-''"
proof
  assume "d < 16" "digit_char d = CHR ''-''"
  then have "of_char (digit_char d) = (of_char (CHR ''-'') :: nat)" by simp
  with \<open>d < 16\<close> show False by (simp split: if_splits)
qed

lemma dash_notin_fixed [simp]: "2 \<le> b \<Longrightarrow> b \<le> 16 \<Longrightarrow> CHR ''-'' \<notin> set (fixed b w n)"
  using digit_chars_of_fixed [of b "CHR ''-''" w n] dash_not_digit by (metis less_le_trans)

end
