(* ===== verification/Clock.thy ===== *)
theory Clock
  imports Prelude
begin

text \<open>
  The hybrid logical clock of \<open>core/util/hlc.ts\<close>: its state, the fixed-width encoding of a
  stamp, and the two steps of the clock, \<open>tick\<close> and \<open>observe\<close>. The wall clock \<open>now()\<close> is an
  argument of each step. The lemmas show that string order on stamps is causal order and
  that no step of a clock ever hands out a stamp below one it has handed out or folded in.
\<close>

section \<open>Numbers that may be NaN\<close>

text \<open>
  The fields of a decoded stamp come from \<open>Number\<close> and \<open>parseInt\<close>, which answer NaN rather
  than throwing. \<^term>\<open>None\<close> is NaN: it fails every comparison and absorbs arithmetic.
  \<open>Number\<close> is modelled on plain digit strings (with the surrounding white space it ignores,
  and the empty string it reads as zero); its other numeric syntaxes read as NaN here.
\<close>

type_synonym jsnat = "nat option"

definition js_gt :: "jsnat \<Rightarrow> jsnat \<Rightarrow> bool" where
  "js_gt a b \<longleftrightarrow> (case (a, b) of (Some m, Some n) \<Rightarrow> m > n | _ \<Rightarrow> False)"

definition js_eq :: "jsnat \<Rightarrow> jsnat \<Rightarrow> bool" where
  "js_eq a b \<longleftrightarrow> (case (a, b) of (Some m, Some n) \<Rightarrow> m = n | _ \<Rightarrow> False)"

definition js_max :: "jsnat \<Rightarrow> jsnat \<Rightarrow> jsnat" where
  "js_max a b = (case (a, b) of (Some m, Some n) \<Rightarrow> Some (max m n) | _ \<Rightarrow> None)"

definition js_succ :: "jsnat \<Rightarrow> jsnat" where
  "js_succ a = map_option Suc a"

definition js_show :: "nat \<Rightarrow> jsnat \<Rightarrow> string" where
  "js_show b a = (case a of Some n \<Rightarrow> to_base b n | None \<Rightarrow> ''NaN'')"

definition js_Number :: "string \<Rightarrow> jsnat" where
  "js_Number s =
     (let t = trim s in if t = [] then Some 0 else if list_all is_digit t then Some (from_base 10 t) else None)"

definition is_hex :: "char \<Rightarrow> bool" where
  "is_hex c \<longleftrightarrow> is_digit c \<or> (CHR ''a'' \<le> c \<and> c \<le> CHR ''f'')"

text \<open>\<open>parseInt(s, 16)\<close>: white space, a plus sign and a \<open>0x\<close> prefix are skipped and the
  longest run of hexadecimal digits is read.\<close>

definition js_parseInt16 :: "string \<Rightarrow> jsnat" where
  "js_parseInt16 s =
     (let t = map lower_char (dropWhile is_space s);
          t = (case t of c # r \<Rightarrow> if c = CHR ''+'' then r else t | [] \<Rightarrow> t);
          t = (if startsWith ''0x'' t then drop 2 t else t);
          p = takeWhile is_hex t
      in if p = [] then None else Some (from_base 16 p))"

lemma jsnat_simps [simp]:
  "js_gt (Some m) (Some n) \<longleftrightarrow> m > n" "js_eq (Some m) (Some n) \<longleftrightarrow> m = n"
  "js_max (Some m) (Some n) = Some (max m n)" "js_succ (Some n) = Some (Suc n)"
  by (simp_all add: js_gt_def js_eq_def js_max_def js_succ_def)

section \<open>Stamps\<close>

record hlc_state =
  physical :: jsnat
  counter :: jsnat

definition PHYSICAL_WIDTH :: nat where "PHYSICAL_WIDTH = 19"
definition COUNTER_WIDTH :: nat where "COUNTER_WIDTH = 4"
definition MAX_COUNTER :: nat where "MAX_COUNTER = 0xffff"
definition MAX_DRIFT_MS :: nat where "MAX_DRIFT_MS = 60 * 60 * 1000"

lemmas clock_consts = PHYSICAL_WIDTH_def COUNTER_WIDTH_def MAX_COUNTER_def

definition encodeHlc :: "'a hlc_state_scheme \<Rightarrow> string \<Rightarrow> string" where
  "encodeHlc st dev =
     padStart PHYSICAL_WIDTH CHR ''0'' (js_show 10 (physical st)) @ ''-'' @
     padStart COUNTER_WIDTH CHR ''0'' (js_show 16 (counter st)) @ ''-'' @ dev"

record decoded_hlc = hlc_state +
  device :: string

definition malformed_stamp :: "string \<Rightarrow> error" where
  "malformed_stamp stamp = Error (''Malformed HLC stamp: '' @ stamp)"

definition decodeHlc :: "string \<Rightarrow> decoded_hlc result" where
  "decodeHlc stamp =
     (case split_on CHR ''-'' stamp of
        [p, c, d] \<Rightarrow>
          if length p \<noteq> PHYSICAL_WIDTH \<or> length c \<noteq> COUNTER_WIDTH then Inl (malformed_stamp stamp)
          else Inr \<lparr>physical = js_Number p, counter = js_parseInt16 c, device = d\<rparr>
      | _ \<Rightarrow> Inl (malformed_stamp stamp))"

definition compareHlc :: "string \<Rightarrow> string \<Rightarrow> int" where
  "compareHlc a b = (if a < b then -1 else if a > b then 1 else 0)"

lemma compareHlc_simps [simp]:
  "compareHlc a b \<le> 0 \<longleftrightarrow> a \<le> b" "compareHlc a b > 0 \<longleftrightarrow> a > b" "compareHlc a b < 0 \<longleftrightarrow> a < b"
  "compareHlc a b = 0 \<longleftrightarrow> a = b"
  by (auto simp: compareHlc_def)

section \<open>The clock\<close>

record clock =
  clk_device :: string
  clk_state :: hlc_state

definition new_clock :: "string \<Rightarrow> hlc_state option \<Rightarrow> clock" where
  "new_clock dev initial =
     \<lparr>clk_device = dev,
      clk_state = (case initial of Some st \<Rightarrow> st | None \<Rightarrow> \<lparr>physical = Some 0, counter = Some 0\<rparr>)\<rparr>"

definition snapshot :: "clock \<Rightarrow> hlc_state" where
  "snapshot clk = clk_state clk"

definition counter_overflow :: error where
  "counter_overflow = Error ''HLC counter overflow''"

definition bump :: "clock \<Rightarrow> jsnat result" where
  "bump clk =
     (let nxt = js_succ (counter (clk_state clk))
      in if js_gt nxt (Some MAX_COUNTER) then Inl counter_overflow else Inr nxt)"

definition tick :: "nat \<Rightarrow> (clock, string) call" where
  "tick wall clk =
     (if js_gt (Some wall) (physical (clk_state clk))
      then let st = \<lparr>physical = Some wall, counter = Some 0\<rparr>
           in (Inr (encodeHlc st (clk_device clk)), clk\<lparr>clk_state := st\<rparr>)
      else case bump clk of
             Inl e \<Rightarrow> (Inl e, clk)
           | Inr c \<Rightarrow> let st = \<lparr>physical = physical (clk_state clk), counter = c\<rparr>
                      in (Inr (encodeHlc st (clk_device clk)), clk\<lparr>clk_state := st\<rparr>))"

definition observe :: "nat \<Rightarrow> string \<Rightarrow> (clock, string) call" where
  "observe wall stamp clk =
     (case decodeHlc stamp of
        Inl e \<Rightarrow> (Inl e, clk)
      | Inr remote \<Rightarrow>
          if js_gt (physical remote) (Some (wall + MAX_DRIFT_MS))
          then (Inl (ClockDriftError (int (the (physical remote)) - int wall)), clk)
          else
            let st = clk_state clk;
                p = js_max (js_max (Some wall) (physical st)) (physical remote);
                c = (if js_eq p (physical st) \<and> js_eq p (physical remote)
                     then js_succ (js_max (counter st) (counter remote))
                     else if js_eq p (physical st) then js_succ (counter st)
                     else if js_eq p (physical remote) then js_succ (counter remote)
                     else Some 0)
            in if js_gt c (Some MAX_COUNTER) then (Inl counter_overflow, clk)
               else let st' = \<lparr>physical = p, counter = c\<rparr>
                    in (Inr (encodeHlc st' (clk_device clk)), clk\<lparr>clk_state := st'\<rparr>))"

section \<open>Encoding and order\<close>

definition state_ok :: "'a hlc_state_scheme \<Rightarrow> bool" where
  "state_ok st \<longleftrightarrow>
     (case (physical st, counter st) of
        (Some p, Some c) \<Rightarrow> p < 10 ^ PHYSICAL_WIDTH \<and> c \<le> MAX_COUNTER
      | _ \<Rightarrow> False)"

definition device_ok :: "string \<Rightarrow> bool" where
  "device_ok d \<longleftrightarrow> CHR ''-'' \<notin> set d"

definition clock_ok :: "clock \<Rightarrow> bool" where
  "clock_ok clk \<longleftrightarrow> state_ok (clk_state clk) \<and> device_ok (clk_device clk)"

lemma state_okE [elim?]:
  assumes "state_ok st"
  obtains p c where "physical st = Some p" "counter st = Some c" "p < 10 ^ 19" "c \<le> 0xffff"
  using assms by (auto simp: state_ok_def clock_consts split: option.splits)

lemma encodeHlc_fixed:
  assumes "physical st = Some p" "counter st = Some c" "p < 10 ^ 19" "c \<le> 0xffff"
  shows "encodeHlc st dev = fixed 10 19 p @ ''-'' @ fixed 16 4 c @ ''-'' @ dev"
proof -
  have "c < 16 ^ 4" using assms(4) by simp
  with assms(3) show ?thesis
    by (simp add: encodeHlc_def assms(1,2) js_show_def clock_consts padStart_to_base)
qed

text \<open>String order on stamps is the lexicographic order on time, counter and device.\<close>

lemma encodeHlc_less_iff:
  assumes "physical s = Some p" "counter s = Some c" "p < 10 ^ 19" "c \<le> 0xffff"
    and "physical t = Some q" "counter t = Some d" "q < 10 ^ 19" "d \<le> 0xffff"
  shows "encodeHlc s a < encodeHlc t b \<longleftrightarrow> p < q \<or> p = q \<and> (c < d \<or> c = d \<and> a < b)"
proof -
  have cd: "c < 16 ^ 4" "d < 16 ^ 4" using assms(4,8) by simp_all
  have "fixed 10 19 p < fixed 10 19 q \<longleftrightarrow> p < q" "fixed 10 19 p = fixed 10 19 q \<longleftrightarrow> p = q"
    using fixed_less_iff [OF _ _ assms(3,7)] fixed_inj [OF _ _ assms(3,7)] by simp_all
  moreover have "fixed 16 4 c < fixed 16 4 d \<longleftrightarrow> c < d" "fixed 16 4 c = fixed 16 4 d \<longleftrightarrow> c = d"
    using fixed_less_iff [OF _ _ cd] fixed_inj [OF _ _ cd] by simp_all
  ultimately show ?thesis
    by (simp add: encodeHlc_fixed [OF assms(1-4)] encodeHlc_fixed [OF assms(5-8)] append_less_iff
        del: fixed.simps)
qed

lemma dropWhile_none: "list_all (\<lambda>c. \<not> P c) s \<Longrightarrow> dropWhile P s = s"
  by (cases s) auto

lemma trim_no_space: "list_all (\<lambda>c. \<not> is_space c) s \<Longrightarrow> trim s = s"
  by (simp add: trim_def dropWhile_none list_all_iff)

lemma trim_trim [simp]: "trim (trim s) = trim s"
proof -
  let ?d = "dropWhile is_space s"
  have "\<exists>w. rev ?d = w @ rev (trim s)"
    by (rule exI [of _ "takeWhile is_space (rev ?d)"]) (simp add: trim_def)
  then obtain w where w: "?d = trim s @ rev w" by (metis rev_append rev_rev_ident)
  have "trim s = [] \<or> \<not> is_space (hd (trim s))"
    using w hd_dropWhile [of is_space s] by (metis append_is_Nil_conv hd_append2)
  then have "dropWhile is_space (trim s) = trim s" by (simp add: dropWhile_eq_self_iff)
  moreover have "dropWhile is_space (rev (trim s)) = rev (trim s)"
    by (simp add: trim_def dropWhile_idem [unfolded comp_def fun_eq_iff])
  ultimately show ?thesis by (simp add: trim_def [of "trim s"])
qed

lemma digit_not_space: "is_digit c \<Longrightarrow> \<not> is_space c"
  by (auto simp: is_digit_def is_space_def less_eq_char_def)

lemma js_Number_fixed: "n < 10 ^ Suc w \<Longrightarrow> js_Number (fixed 10 (Suc w) n) = Some n"
proof -
  assume "n < 10 ^ Suc w"
  then have "from_base 10 (fixed 10 (Suc w) n) = n" by (intro from_base_fixed) auto
  moreover have d: "list_all is_digit (fixed 10 (Suc w) n)"
    by (auto simp: list_all_iff simp del: fixed.simps)
  then have "trim (fixed 10 (Suc w) n) = fixed 10 (Suc w) n"
    by (auto simp: list_all_iff digit_not_space simp del: fixed.simps intro!: trim_no_space)
  moreover have "fixed 10 (Suc w) n \<noteq> []" by simp
  ultimately show ?thesis using d by (simp add: js_Number_def Let_def del: fixed.simps)
qed

definition hex_unit :: "char \<Rightarrow> bool" where
  "hex_unit c \<longleftrightarrow> is_hex c \<and> lower_char c = c \<and> \<not> is_space c \<and> c \<noteq> CHR ''+'' \<and> c \<noteq> CHR ''x''"

lemma hex_unit_digit_char: "d < 16 \<Longrightarrow> hex_unit (digit_char d)"
proof -
  assume "d < 16"
  moreover have "list_all (\<lambda>d. hex_unit (digit_char d)) [0..<16]" by code_simp
  ultimately show ?thesis by (simp add: list_all_iff)
qed

lemma js_parseInt16_hex:
  assumes "s \<noteq> []" and "list_all hex_unit s"
  shows "js_parseInt16 s = Some (from_base 16 s)"
proof -
  have "dropWhile is_space s = s" using assms(2)
    by (auto simp: list_all_iff hex_unit_def intro!: dropWhile_none)
  moreover have "map lower_char s = s" using assms(2)
    by (auto simp: list_all_iff hex_unit_def intro!: map_idI)
  moreover have "takeWhile is_hex s = s" using assms(2)
    by (auto simp: list_all_iff hex_unit_def)
  moreover have "\<not> startsWith ''0x'' s" using assms(2)
    by (auto simp: startsWith_iff hex_unit_def)
  moreover have "(case s of c # r \<Rightarrow> if c = CHR ''+'' then r else s | [] \<Rightarrow> s) = s" using assms(2)
    by (auto simp: hex_unit_def split: list.split)
  ultimately show ?thesis using assms(1)
    by (simp add: js_parseInt16_def Let_def del: takeWhile_eq_all_conv)
qed

lemma js_parseInt16_fixed: "n < 16 ^ Suc w \<Longrightarrow> js_parseInt16 (fixed 16 (Suc w) n) = Some n"
proof -
  assume n: "n < 16 ^ Suc w"
  have "list_all hex_unit (fixed 16 (Suc w) n)"
    unfolding list_all_iff using digit_chars_of_fixed [of 16] hex_unit_digit_char by fastforce
  moreover have "fixed 16 (Suc w) n \<noteq> []" by simp
  ultimately have "js_parseInt16 (fixed 16 (Suc w) n) = Some (from_base 16 (fixed 16 (Suc w) n))"
    by (intro js_parseInt16_hex)
  with from_base_fixed [OF _ _ n] show ?thesis by simp
qed

lemma decode_encode:
  assumes "state_ok st" and "device_ok dev"
  shows "decodeHlc (encodeHlc st dev) = Inr \<lparr>physical = physical st, counter = counter st, device = dev\<rparr>"
proof -
  from assms(1) obtain p c where pc: "physical st = Some p" "counter st = Some c" "p < 10 ^ 19" "c \<le> 0xffff"
    by (rule state_okE)
  have "js_Number (fixed 10 19 p) = Some p" using js_Number_fixed [of p 18] pc(3) by simp
  moreover have "js_parseInt16 (fixed 16 4 c) = Some c" using js_parseInt16_fixed [of c 3] pc(4) by simp
  ultimately show ?thesis using assms(2)
    by (simp add: decodeHlc_def encodeHlc_fixed [OF pc] js_string device_ok_def clock_consts pc(1,2)
        del: fixed.simps)
qed


section \<open>Steps of the clock\<close>

text \<open>The time a clock has reached, and the lemmas for its two steps.\<close>

definition reading :: "clock \<Rightarrow> string" where
  "reading clk = encodeHlc (clk_state clk) (clk_device clk)"

lemma clock_okE [elim?]:
  assumes "clock_ok clk"
  obtains p c where "physical (clk_state clk) = Some p" "counter (clk_state clk) = Some c"
    "p < 10 ^ 19" "c \<le> 0xffff" "device_ok (clk_device clk)"
  using assms by (auto simp: clock_ok_def elim: state_okE)

lemma tick_reading:
  assumes "tick wall clk = (Inr stamp, clk')"
  shows "stamp = reading clk' \<and> clk_device clk' = clk_device clk"
  using assms by (auto simp: tick_def reading_def Let_def split: if_splits sum.splits)

lemma tick_error:
  assumes "tick wall clk = (Inl e, clk')"
  shows "clk' = clk \<and> e = counter_overflow"
  using assms by (auto simp: tick_def bump_def Let_def split: if_splits sum.splits)

lemma tick_ok:
  assumes "clock_ok clk" and "wall < 10 ^ 19" and "tick wall clk = (Inr stamp, clk')"
  shows "clock_ok clk' \<and> reading clk < stamp"
proof -
  from assms(1) obtain p c where pc: "physical (clk_state clk) = Some p" "counter (clk_state clk) = Some c"
    "p < 10 ^ 19" "c \<le> 0xffff" and dev: "device_ok (clk_device clk)" by (rule clock_okE)
  consider (ahead) "p < wall" "clk_state clk' = \<lparr>physical = Some wall, counter = Some 0\<rparr>"
    | (bump) "clk_state clk' = \<lparr>physical = Some p, counter = Some (Suc c)\<rparr>" "Suc c \<le> 0xffff"
    using assms(3) pc
    by (auto simp: tick_def bump_def Let_def MAX_COUNTER_def split: if_splits sum.splits)
  then show ?thesis
  proof cases
    case ahead
    with assms(2) dev tick_reading [OF assms(3)] show ?thesis
      by (simp add: clock_ok_def state_ok_def clock_consts reading_def encodeHlc_less_iff [OF pc])
  next
    case bump
    with pc(3) dev tick_reading [OF assms(3)] show ?thesis
      by (simp add: clock_ok_def state_ok_def clock_consts reading_def encodeHlc_less_iff [OF pc])
  qed
qed

lemma tick_succeeds:
  assumes "clock_ok clk" and "\<forall>p. physical (clk_state clk) = Some p \<longrightarrow> p < wall"
  shows "\<exists>stamp clk'. tick wall clk = (Inr stamp, clk')"
  using assms by (auto simp: tick_def Let_def elim!: clock_okE)

lemma observe_reading:
  assumes "observe wall r clk = (Inr stamp, clk')"
  shows "stamp = reading clk' \<and> clk_device clk' = clk_device clk"
  using assms by (auto simp: observe_def reading_def Let_def split: if_splits sum.splits)

lemma observe_error:
  assumes "observe wall r clk = (Inl e, clk')"
  shows "clk' = clk"
  using assms by (auto simp: observe_def Let_def split: if_splits sum.splits)


lemma observe_state:
  assumes "state_ok rs" and "device_ok rd"
    and pc: "physical (clk_state clk) = Some p" "counter (clk_state clk) = Some c"
    and qd: "physical rs = Some q" "counter rs = Some d"
    and obs: "observe wall (encodeHlc rs rd) clk = (Inr stamp, clk')"
  obtains v k where "clk_state clk' = \<lparr>physical = Some v, counter = Some k\<rparr>"
    "v = max (max wall p) q" "k \<le> 0xffff"
    "k = (if v = p \<and> v = q then Suc (max c d) else if v = p then Suc c else if v = q then Suc d else 0)"
proof -
  define v where "v = max (max wall p) q"
  define k where "k = (if v = p \<and> v = q then Suc (max c d) else if v = p then Suc c else if v = q then Suc d else 0)"
  have cnt: "(if js_eq (Some v) (Some p) \<and> js_eq (Some v) (Some q) then js_succ (js_max (Some c) (Some d))
      else if js_eq (Some v) (Some p) then js_succ (Some c)
      else if js_eq (Some v) (Some q) then js_succ (Some d) else Some 0) = Some k"
    unfolding k_def by simp
  have "observe wall (encodeHlc rs rd) clk =
      (if q > wall + MAX_DRIFT_MS then (Inl (ClockDriftError (int q - int wall)), clk)
       else if k > MAX_COUNTER then (Inl counter_overflow, clk)
       else (Inr (encodeHlc \<lparr>physical = Some v, counter = Some k\<rparr> (clk_device clk)),
             clk\<lparr>clk_state := \<lparr>physical = Some v, counter = Some k\<rparr>\<rparr>))"
    unfolding observe_def decode_encode [OF assms(1,2)] Let_def sum.case hlc_state.simps pc qd
      jsnat_simps(3) [of wall p] jsnat_simps(3) [of "max wall p" q] v_def [symmetric] cnt option.sel
      jsnat_simps(1) by simp
  with obs have "k \<le> MAX_COUNTER" "clk_state clk' = \<lparr>physical = Some v, counter = Some k\<rparr>"
    by (auto split: if_splits)
  moreover from this have "k \<le> 0xffff" by (simp add: MAX_COUNTER_def)
  ultimately show thesis by (intro that [OF _ v_def _ k_def])
qed

lemma observe_ok:
  assumes "clock_ok clk" and "wall + MAX_DRIFT_MS < 10 ^ 19"
    and "state_ok rs" and "device_ok rd" and "observe wall (encodeHlc rs rd) clk = (Inr stamp, clk')"
  shows "clock_ok clk' \<and> reading clk < stamp \<and> encodeHlc rs rd < stamp"
proof -
  from assms(1) obtain p c where pc: "physical (clk_state clk) = Some p" "counter (clk_state clk) = Some c"
    "p < 10 ^ 19" "c \<le> 0xffff" and dev: "device_ok (clk_device clk)" by (rule clock_okE)
  from assms(3) obtain q d where qd: "physical rs = Some q" "counter rs = Some d" "q < 10 ^ 19" "d \<le> 0xffff"
    by (rule state_okE)
  obtain v k where st: "clk_state clk' = \<lparr>physical = Some v, counter = Some k\<rparr>"
    and v: "v = max (max wall p) q" and k: "k \<le> 0xffff"
    and cnt: "k = (if v = p \<and> v = q then Suc (max c d) else if v = p then Suc c else if v = q then Suc d else 0)"
    by (rule observe_state [OF assms(3,4) pc(1,2) qd(1,2) assms(5)]) blast
  have v19: "v < 10 ^ 19" using v pc(3) qd(3) assms(2) by auto
  have new: "physical (clk_state clk') = Some v" "counter (clk_state clk') = Some k" using st by simp_all
  have "clock_ok clk'" using dev observe_reading [OF assms(5)] k v19
    by (simp add: clock_ok_def state_ok_def clock_consts st)
  moreover have ord: "p < v \<or> p = v \<and> c < k" "q < v \<or> q = v \<and> d < k"
  proof -
    have "p \<le> v" "q \<le> v" unfolding v by simp_all
    moreover have "c < k" if "v = p" unfolding cnt using that by (simp add: less_Suc_eq_le)
    moreover have "d < k" if "v = q" unfolding cnt using that by (simp add: less_Suc_eq_le)
    ultimately show "p < v \<or> p = v \<and> c < k" "q < v \<or> q = v \<and> d < k" by force+
  qed
  moreover have "reading clk < stamp"
    using ord observe_reading [OF assms(5)] by (auto simp: reading_def encodeHlc_less_iff [OF pc new v19 k])
  moreover have "encodeHlc rs rd < stamp"
    using ord observe_reading [OF assms(5)] by (auto simp: reading_def encodeHlc_less_iff [OF qd new v19 k])
  ultimately show ?thesis by blast
qed

section \<open>Runs\<close>

text \<open>A run of one clock: local events and stamps seen from other devices, in any order.\<close>

datatype clock_event = Tick nat | Observe nat string

fun clock_step :: "clock_event \<Rightarrow> (clock, string) call" where
  "clock_step (Tick wall) clk = tick wall clk"
| "clock_step (Observe wall r) clk = observe wall r clk"

fun clock_run :: "clock_event list \<Rightarrow> clock \<Rightarrow> string list \<times> clock" where
  "clock_run [] clk = ([], clk)"
| "clock_run (e # es) clk =
     (case clock_step e clk of
        (Inl _, clk') \<Rightarrow> clock_run es clk'
      | (Inr stamp, clk') \<Rightarrow> (case clock_run es clk' of (stamps, clk'') \<Rightarrow> (stamp # stamps, clk'')))"

text \<open>An event is plausible when the wall clock fits the stamp's width and what is observed
  is a stamp some device encoded.\<close>

definition event_ok :: "clock_event \<Rightarrow> bool" where
  "event_ok e \<longleftrightarrow>
     (case e of
        Tick wall \<Rightarrow> wall < 10 ^ PHYSICAL_WIDTH
      | Observe wall r \<Rightarrow> wall + MAX_DRIFT_MS < 10 ^ PHYSICAL_WIDTH \<and>
          (\<exists>rs :: hlc_state. \<exists>rd. state_ok rs \<and> device_ok rd \<and> r = encodeHlc rs rd))"

lemma clock_step_ok:
  assumes "clock_ok clk" and "event_ok e" and "clock_step e clk = (Inr stamp, clk')"
  shows "clock_ok clk' \<and> reading clk < stamp \<and> stamp = reading clk'"
proof (cases e)
  case (Tick wall)
  then show ?thesis using assms tick_ok tick_reading by (auto simp: event_ok_def PHYSICAL_WIDTH_def)
next
  case (Observe wall r)
  with assms(2) obtain rs :: hlc_state and rd where r: "state_ok rs" "device_ok rd" "r = encodeHlc rs rd"
    and w: "wall + MAX_DRIFT_MS < 10 ^ 19"
    by (auto simp: event_ok_def PHYSICAL_WIDTH_def)
  with assms Observe observe_ok [OF assms(1) w r(1,2)] observe_reading show ?thesis by auto
qed

lemma clock_step_error: "clock_step e clk = (Inl err, clk') \<Longrightarrow> clk' = clk"
  by (cases e) (auto dest: tick_error observe_error)

lemma clock_run_sorted:
  assumes "clock_ok clk" and "list_all event_ok es" and "clock_run es clk = (stamps, clk')"
  shows "sorted_wrt (<) (reading clk # stamps) \<and> clock_ok clk'"
  using assms
proof (induction es arbitrary: clk stamps)
  case Nil
  then show ?case by simp
next
  case (Cons e es)
  obtain r mid where step: "clock_step e clk = (r, mid)" by fastforce
  show ?case
  proof (cases r)
    case (Inl err)
    with step clock_step_error have "mid = clk" by blast
    with Cons step Inl show ?thesis by auto
  next
    case (Inr stamp)
    with Cons.prems step have ok: "clock_ok mid" "reading clk < stamp" "stamp = reading mid"
      using clock_step_ok [of clk e stamp mid] by auto
    from Cons.prems(3) step Inr obtain rest where rest: "clock_run es mid = (rest, clk')"
      and stamps: "stamps = stamp # rest" by (auto split: prod.splits)
    from Cons.IH [OF ok(1) _ rest] Cons.prems(2) have "sorted_wrt (<) (stamp # rest)" "clock_ok clk'"
      using ok(3) by auto
    with stamps ok(2) show ?thesis by auto
  qed
qed

section \<open>Properties\<close>

text \<open>Stamps round-trip. Decoding the encoding of a clock state in range gives back its
  time, its counter and its device.\<close>

theorem hlc_round_trip:
  assumes "state_ok st" and "device_ok dev"
  shows "decodeHlc (encodeHlc st dev) = Inr \<lparr>physical = physical st, counter = counter st, device = dev\<rparr>"
  by (rule decode_encode [OF assms])

theorem hlc_round_trip_witness:
  "decodeHlc (encodeHlc \<lparr>physical = Some 1700000000000, counter = Some 10\<rparr> ''a1b2'') =
     Inr \<lparr>physical = Some 1700000000000, counter = Some 10, device = ''a1b2''\<rparr>"
proof -
  have "state_ok \<lparr>physical = Some 1700000000000, counter = Some 10\<rparr>" by (simp add: state_ok_def clock_consts)
  moreover have "device_ok ''a1b2''" by (simp add: device_ok_def)
  ultimately show ?thesis using hlc_round_trip [of "\<lparr>physical = Some 1700000000000, counter = Some 10\<rparr>" "''a1b2''"] by simp
qed

text \<open>The order of stamps. \<open>compareHlc\<close>, which compares the strings, orders the stamps of two
  states by time, then by counter, then by device.\<close>

theorem compareHlc_order:
  assumes "state_ok s" and "state_ok t"
  shows "compareHlc (encodeHlc s a) (encodeHlc t b) < 0 \<longleftrightarrow>
    the (physical s) < the (physical t) \<or> the (physical s) = the (physical t) \<and>
      (the (counter s) < the (counter t) \<or> the (counter s) = the (counter t) \<and> a < b)"
proof -
  obtain p c where pc: "physical s = Some p" "counter s = Some c" "p < 10 ^ 19" "c \<le> 0xffff"
    using assms(1) by (rule state_okE)
  obtain q d where qd: "physical t = Some q" "counter t = Some d" "q < 10 ^ 19" "d \<le> 0xffff"
    using assms(2) by (rule state_okE)
  show ?thesis using encodeHlc_less_iff [OF pc qd, of a b] pc(1,2) qd(1,2) by simp
qed

theorem compareHlc_order_witness:
  "compareHlc (encodeHlc \<lparr>physical = Some 999, counter = Some 255\<rparr> ''b'') (encodeHlc \<lparr>physical = Some 1000, counter = Some 0\<rparr> ''a'') < 0"
proof -
  have "state_ok \<lparr>physical = Some 999, counter = Some 255\<rparr>" "state_ok \<lparr>physical = Some 1000, counter = Some 0\<rparr>"
    by (simp_all add: state_ok_def clock_consts)
  from compareHlc_order [OF this, of "''b''" "''a''"] show ?thesis by simp
qed

text \<open>A clock never goes back. Along any sequence of local events and observed stamps, failed
  ones included and whatever the wall clock does, the stamps a clock hands out are strictly
  increasing, starting above where it was.\<close>

theorem clock_run_increasing:
  assumes "clock_ok clk" and "list_all event_ok es" and "clock_run es clk = (stamps, clk')"
  shows "sorted_wrt (<) (reading clk # stamps)"
  using clock_run_sorted [OF assms] by simp

theorem clock_run_increasing_witness:
  "sorted_wrt (<) (reading (new_clock ''a'' None) #
     fst (clock_run [Tick 1000, Tick 900, Tick 1000] (new_clock ''a'' None)))"
proof -
  have "clock_ok (new_clock ''a'' None)" by (simp add: clock_ok_def new_clock_def state_ok_def device_ok_def clock_consts)
  moreover have "list_all event_ok [Tick 1000, Tick 900, Tick 1000]" by (simp add: event_ok_def PHYSICAL_WIDTH_def)
  ultimately show ?thesis using clock_run_increasing [OF _ _ surjective_pairing] by blast
qed

text \<open>Folding in a remote stamp. A stamp more than an hour ahead of the wall clock is refused
  with a drift error that carries the distance; a refused stamp, or a counter that would overflow,
  leaves the clock as it was; otherwise the clock moves past both its own reading and the stamp.\<close>

theorem observe_spec:
  assumes "clock_ok clk" and "wall + MAX_DRIFT_MS < 10 ^ PHYSICAL_WIDTH" and "state_ok rs" and "device_ok rd"
    and "observe wall (encodeHlc rs rd) clk = (r, clk')"
  shows "(the (physical rs) > wall + MAX_DRIFT_MS \<longrightarrow> r = Inl (ClockDriftError (int (the (physical rs)) - int wall))) \<and>
    (case r of
       Inl err \<Rightarrow> clk' = clk \<and> (the (physical rs) \<le> wall + MAX_DRIFT_MS \<longrightarrow> err = counter_overflow)
     | Inr stamp \<Rightarrow> clock_ok clk' \<and> reading clk < stamp \<and> encodeHlc rs rd < stamp \<and> stamp = reading clk')"
proof -
  obtain q d where qd: "physical rs = Some q" "counter rs = Some d" using assms(3) by (auto elim: state_okE)
  have dec: "decodeHlc (encodeHlc rs rd) = Inr \<lparr>physical = Some q, counter = Some d, device = rd\<rparr>"
    using decode_encode [OF assms(3,4)] qd by simp
  have drift: "r = Inl (ClockDriftError (int q - int wall))" if "q > wall + MAX_DRIFT_MS"
    using assms(5) that by (simp add: observe_def dec)
  have overflow: "err = counter_overflow" if "r = Inl err" "q \<le> wall + MAX_DRIFT_MS" for err
    using assms(5) that by (simp add: observe_def dec Let_def not_less split: if_splits)
  show ?thesis
  proof (cases r)
    case (Inl err)
    then show ?thesis using drift overflow observe_error [of wall _ clk err clk'] assms(5) qd by auto
  next
    case (Inr stamp)
    then show ?thesis
      using drift observe_ok [OF assms(1) _ assms(3,4)] observe_reading [of wall _ clk stamp clk'] assms(2,5) qd
      by (auto simp: PHYSICAL_WIDTH_def)
  qed
qed

theorem observe_spec_witness:
  "fst (observe 1000 (encodeHlc \<lparr>physical = Some 9999999, counter = Some 0\<rparr> ''b'') (new_clock ''a'' None)) =
     Inl (ClockDriftError 9998999)"
proof -
  have "clock_ok (new_clock ''a'' None)" by (simp add: clock_ok_def new_clock_def state_ok_def device_ok_def clock_consts)
  moreover have "state_ok \<lparr>physical = Some 9999999, counter = Some 0\<rparr>" "device_ok ''b''"
    "1000 + MAX_DRIFT_MS < 10 ^ PHYSICAL_WIDTH" "9999999 > 1000 + MAX_DRIFT_MS"
    by (simp_all add: state_ok_def clock_consts device_ok_def MAX_DRIFT_MS_def)
  ultimately show ?thesis
    using observe_spec [of "new_clock ''a'' None" 1000 "\<lparr>physical = Some 9999999, counter = Some 0\<rparr>" "''b''",
        OF _ _ _ _ surjective_pairing] by auto
qed

end
