(* ===== verification/Store.thy ===== *)
theory Store
  imports Prelude
begin

text \<open>
  The tables of the local database (\<open>core/db/docket-db.ts\<close>). A Dexie table is an IndexedDB object
  store: rows under distinct string keys, which every scan returns in ascending key order. It is
  modelled as the list of its keyed rows in that order. The locale \<open>object_store\<close> is the
  interface the services rely on, and the tables are an interpretation of it.
\<close>

type_synonym 'a tbl = "(string \<times> 'a) list"

definition tget :: "'a tbl \<Rightarrow> string \<Rightarrow> 'a option" where
  "tget t k = map_of t k"

fun tput :: "string \<Rightarrow> 'a \<Rightarrow> 'a tbl \<Rightarrow> 'a tbl" where
  "tput k v [] = [(k, v)]"
| "tput k v ((k', v') # t) =
     (if k < k' then (k, v) # (k', v') # t
      else if k = k' then (k, v) # t
      else (k', v') # tput k v t)"

definition tdelete :: "string \<Rightarrow> 'a tbl \<Rightarrow> 'a tbl" where
  "tdelete k t = filter (\<lambda>p. fst p \<noteq> k) t"

text \<open>\<open>table.update(key, changes)\<close>: nothing happens when there is no such row.\<close>

definition tupdate :: "string \<Rightarrow> ('a \<Rightarrow> 'a) \<Rightarrow> 'a tbl \<Rightarrow> 'a tbl" where
  "tupdate k f t = map (\<lambda>(k', v). (k', if k' = k then f v else v)) t"

definition toArray :: "'a tbl \<Rightarrow> 'a list" where
  "toArray t = map snd t"

definition primaryKeys :: "'a tbl \<Rightarrow> string list" where
  "primaryKeys t = map fst t"

definition table_ok :: "'a tbl \<Rightarrow> bool" where
  "table_ok t \<longleftrightarrow> sorted_wrt (<) (primaryKeys t)"

section \<open>The interface of an object store\<close>

locale object_store =
  fixes get :: "'t \<Rightarrow> 'k :: linorder \<Rightarrow> 'v option"
    and put :: "'k \<Rightarrow> 'v \<Rightarrow> 't \<Rightarrow> 't"
    and del :: "'k \<Rightarrow> 't \<Rightarrow> 't"
    and keys :: "'t \<Rightarrow> 'k list"
    and ok :: "'t \<Rightarrow> bool"
  assumes get_put: "ok t \<Longrightarrow> get (put k v t) k' = (if k' = k then Some v else get t k')"
    and get_del: "ok t \<Longrightarrow> get (del k t) k' = (if k' = k then None else get t k')"
    and ok_put: "ok t \<Longrightarrow> ok (put k v t)"
    and ok_del: "ok t \<Longrightarrow> ok (del k t)"
    and keys_iff: "ok t \<Longrightarrow> k \<in> set (keys t) \<longleftrightarrow> get t k \<noteq> None"
    and keys_sorted: "ok t \<Longrightarrow> sorted_wrt (<) (keys t)"
begin

lemma set_keys_put: "ok t \<Longrightarrow> set (keys (put k v t)) = insert k (set (keys t))"
  by (auto simp: keys_iff ok_put get_put split: if_splits)

lemma set_keys_del: "ok t \<Longrightarrow> set (keys (del k t)) = set (keys t) - {k}"
  by (auto simp: keys_iff ok_del get_del split: if_splits)

lemma keys_unique:
  assumes "ok t" and "ok u" and "\<And>k. get t k = None \<longleftrightarrow> get u k = None"
  shows "keys t = keys u"
proof (rule strict_sorted_equal)
  show "set (keys t) = set (keys u)" using assms by (auto simp: keys_iff)
qed (use assms in \<open>simp_all add: keys_sorted\<close>)

text \<open>Writing a list of rows: later rows win, other keys are untouched.\<close>

lemma get_put_all:
  "ok t \<Longrightarrow> get (fold (\<lambda>(k, v). put k v) rows t) k' =
     (case map_of (rev rows) k' of Some v \<Rightarrow> Some v | None \<Rightarrow> get t k')"
proof (induction rows arbitrary: t)
  case (Cons r rows)
  obtain k v where r: "r = (k, v)" by fastforce
  have "ok (put k v t)" using Cons.prems by (rule ok_put)
  from Cons.IH [OF this] show ?case using Cons.prems
    by (auto simp: r get_put map_add_def split: option.split)
qed simp

lemma ok_put_all: "ok t \<Longrightarrow> ok (fold (\<lambda>(k, v). put k v) rows t)"
  by (induction rows arbitrary: t) (auto simp: ok_put)

end

section \<open>The tables are object stores\<close>

lemma tget_simps [simp]: "tget [] k = None" "tget ((k, v) # t) k' = (if k' = k then Some v else tget t k')"
  by (simp_all add: tget_def)

lemma tget_tput [simp]: "table_ok t \<Longrightarrow> tget (tput k v t) k' = (if k' = k then Some v else tget t k')"
proof (induction t)
  case (Cons p t)
  then show ?case by (cases p) (auto simp: table_ok_def primaryKeys_def)
qed simp

lemma set_tput: "set (map fst (tput k v t)) = insert k (set (map fst t))"
  by (induction t rule: tput.induct) auto

lemma table_ok_tput [simp]: "table_ok t \<Longrightarrow> table_ok (tput k v t)"
proof (induction t)
  case Nil
  then show ?case by (simp add: table_ok_def primaryKeys_def)
next
  case (Cons p t)
  obtain k' v' where p: "p = (k', v')" by fastforce
  with Cons have "table_ok (tput k v t)" "\<forall>x \<in> set (map fst t). k' < x"
    by (auto simp: table_ok_def primaryKeys_def)
  with Cons.prems p show ?case
    using set_tput [of k v t] by (auto simp: table_ok_def primaryKeys_def dest: less_trans)
qed

lemma tget_tdelete [simp]: "tget (tdelete k t) k' = (if k' = k then None else tget t k')"
  by (induction t) (auto simp: tget_def tdelete_def)

lemma table_ok_tdelete [simp]: "table_ok t \<Longrightarrow> table_ok (tdelete k t)"
  by (induction t) (auto simp: table_ok_def primaryKeys_def tdelete_def)

lemma table_ok_Nil [simp]: "table_ok []"
  by (simp add: table_ok_def primaryKeys_def)

lemma primaryKeys_tupdate [simp]: "primaryKeys (tupdate k f t) = primaryKeys t"
  by (simp add: primaryKeys_def tupdate_def case_prod_beta)

lemma table_ok_tupdate [simp]: "table_ok (tupdate k f t) = table_ok t"
  by (simp add: table_ok_def)

lemma tget_tupdate [simp]: "tget (tupdate k f t) k' = (if k' = k then map_option f (tget t k') else tget t k')"
  by (induction t) (auto simp: tupdate_def)

lemma tget_key: "k \<in> set (primaryKeys t) \<longleftrightarrow> tget t k \<noteq> None"
  by (auto simp: tget_def primaryKeys_def map_of_eq_None_iff)

interpretation tbl: object_store tget tput tdelete primaryKeys table_ok
  by unfold_locales (simp_all add: tget_key, simp add: table_ok_def)

lemma table_distinct: "table_ok t \<Longrightarrow> distinct (map fst t)"
  using strict_sorted_iff by (auto simp: table_ok_def primaryKeys_def)

lemma tget_mem: "table_ok t \<Longrightarrow> tget t k = Some v \<longleftrightarrow> (k, v) \<in> set t"
  by (simp add: tget_def map_of_eq_Some_iff table_distinct)

lemma mem_tput:
  assumes "table_ok t"
  shows "(k', v') \<in> set (tput k v t) \<longleftrightarrow> (if k' = k then v' = v else (k', v') \<in> set t)"
  using tget_mem [OF assms, of k' v'] tget_mem [OF table_ok_tput [OF assms], of k v k' v'] assms by auto

text \<open>A table is determined by its rows, so equal contents are equal tables.\<close>

lemma table_eqI:
  assumes "table_ok t" and "table_ok u" and "\<And>k. tget t k = tget u k"
  shows "t = u"
proof -
  have keys: "map fst t = map fst u"
    using tbl.keys_unique [OF assms(1,2)] assms(3) by (simp add: primaryKeys_def)
  have row: "map (\<lambda>k. (k, the (tget x k))) (map fst x) = x" if "table_ok x" for x :: "'a tbl"
    using tget_mem [OF that] by (auto intro!: map_idI) (metis option.sel)
  show ?thesis using row [OF assms(1)] row [OF assms(2)] assms(3) keys by simp
qed

end
