(* ===== verification/Numbers.thy ===== *)
theory Numbers
  imports Prelude Complex_Main "HOL-Library.Log_Nat"
begin

text \<open>
  The JavaScript number type where its rounding matters: the extended line of IEEE 754
  binary64 values and the rounding of an exact result to it. Amounts of money are integers in
  minor units and are modelled as \<^typ>\<open>int\<close>; exchange rates are values of this type.
  Rounding is to nearest with ties to even; a finite value is the exact rational it denotes.
  The sign of zero is not represented, which no expression of the sources observes.
\<close>

datatype number = Fin rat | PosInf | NegInf | NaN

fun isFinite :: "number \<Rightarrow> bool" where
  "isFinite (Fin _) = True"
| "isFinite _ = False"

text \<open>\<open>a < b\<close>, \<open>a <= b\<close>, \<open>a > b\<close>: every comparison with NaN is false.\<close>

fun num_less :: "number \<Rightarrow> number \<Rightarrow> bool" where
  "num_less (Fin a) (Fin b) \<longleftrightarrow> a < b"
| "num_less NegInf (Fin _) \<longleftrightarrow> True"
| "num_less NegInf PosInf \<longleftrightarrow> True"
| "num_less (Fin _) PosInf \<longleftrightarrow> True"
| "num_less _ _ \<longleftrightarrow> False"

definition num_le :: "number \<Rightarrow> number \<Rightarrow> bool" where
  "num_le a b \<longleftrightarrow> a \<noteq> NaN \<and> (num_less a b \<or> a = b)"

section \<open>Rounding to binary64\<close>

definition round_half_even :: "rat \<Rightarrow> int" where
  "round_half_even x =
     (let f = \<lfloor>x\<rfloor>; d = x - of_int f
      in if d < 1 / 2 then f else if d > 1 / 2 then f + 1 else if even f then f else f + 1)"

text \<open>The exponent \<open>e\<close> with \<open>2^e \<le> x < 2^(e+1)\<close>, for positive \<open>x\<close>.\<close>

definition binary_exponent :: "rat \<Rightarrow> int" where
  "binary_exponent x =
     (case quotient_of x of (a, b) \<Rightarrow>
        let k = int (floorlog 2 (nat a)) - int (floorlog 2 (nat b))
        in if 2 powi k \<le> x then k else k - 1)"

definition ulp_exponent :: "rat \<Rightarrow> int" where
  "ulp_exponent x = max (binary_exponent \<bar>x\<bar> - 52) (-1074)"

definition fl :: "rat \<Rightarrow> number" where
  "fl x =
     (if x = 0 then Fin 0
      else let q = ulp_exponent x; r = of_int (round_half_even (x / 2 powi q)) * 2 powi q
           in if r \<ge> 2 ^ 1024 then PosInf else if r \<le> - (2 ^ 1024) then NegInf else Fin r)"

text \<open>Multiplication and division on the cases the sources reach, with finite operands; the
  others follow the standard.\<close>

fun num_times :: "number \<Rightarrow> number \<Rightarrow> number" where
  "num_times (Fin a) (Fin b) = fl (a * b)"
| "num_times NaN _ = NaN"
| "num_times _ NaN = NaN"
| "num_times (Fin a) y = (if a = 0 then NaN else if a > 0 then y else (if y = PosInf then NegInf else PosInf))"
| "num_times x (Fin b) = (if b = 0 then NaN else if b > 0 then x else (if x = PosInf then NegInf else PosInf))"
| "num_times x y = (if x = y then PosInf else NegInf)"

section \<open>Small integers are exact\<close>

lemma round_half_even_of_int [simp]: "round_half_even (of_int n) = n"
  by (simp add: round_half_even_def)

lemma round_half_even_near: "\<bar>of_int (round_half_even x) - x\<bar> \<le> 1 / 2"
proof -
  have "0 \<le> x - of_int \<lfloor>x\<rfloor>" "x - of_int \<lfloor>x\<rfloor> < 1"
    using floor_correct [of x] by (simp_all add: algebra_simps)
  then show ?thesis unfolding round_half_even_def Let_def by (simp split: if_split)
qed

lemma fl_int:
  assumes "\<bar>n\<bar> < 2 ^ 53"
  shows "fl (of_int n) = Fin (of_int n)"
proof (cases "n = 0")
  case False
  define a where "a = nat \<bar>n\<bar>"
  have a: "0 < a" "a < 2 ^ 53" "\<bar>of_int n :: rat\<bar> = of_nat a" using False assms by (auto simp: a_def)
  have "floorlog 2 a \<le> 53" using a floorlog_le_iff [of 2 a 53] by simp
  moreover have quot: "quotient_of (of_nat a) = (int a, 1)"
    using quotient_of_int [of "int a"] by (simp add: Rat.of_int_def)
  ultimately have be: "binary_exponent (of_nat a) \<le> 52"
  proof -
    have one: "floorlog 2 (nat 1) = 1" by (simp add: floorlog_def)
    have le: "floorlog 2 a \<le> 53" by fact
    show ?thesis using le one by (simp add: binary_exponent_def quot Let_def)
  qed
  define q where "q = ulp_exponent (of_int n)"
  have q: "q \<le> 0" using be a(3) by (simp add: q_def ulp_exponent_def)
  define k where "k = nat (- q)"
  define m where "m = n * 2 ^ k"
  have pow: "(2 :: rat) powi q = 1 / 2 ^ k"
  proof -
    have "q = - int k" using q by (simp add: k_def)
    then show ?thesis by (simp only: power_int_minus power_int_of_nat divide_inverse mult_1)
  qed
  have m: "of_int n / 2 powi q = (of_int m :: rat)" by (simp add: pow m_def)
  have r: "of_int (round_half_even (of_int n / 2 powi q)) * 2 powi q = (of_int n :: rat)"
    unfolding m round_half_even_of_int by (simp add: pow m_def)
  have big: "(2 :: int) ^ 53 < 2 ^ 1024" by (rule power_strict_increasing) simp_all
  define B where "B = (2 :: int) ^ 1024"
  have "n < B" "- B < n" using assms big unfolding B_def [symmetric] by linarith+
  then have "(of_int n :: rat) < of_int B" "- of_int B < (of_int n :: rat)"
    using of_int_less_iff [of "- B" n] by simp_all
  then have "(of_int n :: rat) < 2 ^ 1024" "- (2 ^ 1024) < (of_int n :: rat)"
    unfolding B_def of_int_power of_int_numeral by blast+
  then show ?thesis using False by (simp add: fl_def Let_def q_def [symmetric] r not_le)
qed (simp add: fl_def)

section \<open>Rounding twice\<close>

lemma power_floorlog: "0 < a \<Longrightarrow> (2::rat) powi (int (floorlog 2 a) - 1) \<le> of_nat a \<and> of_nat a < (2::rat) powi int (floorlog 2 a)"
proof -
  assume a: "0 < a"
  define k where "k = floorlog 2 a"
  have k: "2 ^ (k - 1) \<le> a" "a < 2 ^ k" "0 < k" using floorlog_bounds [of a 2] a by (simp_all add: k_def) (simp add: floorlog_def)
  have "of_nat (2 ^ (k - 1)) \<le> (of_nat a :: rat)" "(of_nat a :: rat) < of_nat (2 ^ k)" using k(1,2) by (simp_all only: of_nat_le_iff of_nat_less_iff)
  moreover have "int k - 1 = int (k - 1)" using k(3) by simp
  ultimately show ?thesis unfolding k_def [symmetric] by (simp only: power_int_of_nat of_nat_power of_nat_numeral)
qed

lemma binary_exponent_bounds:
  assumes "0 < x"
  shows "2 powi binary_exponent x \<le> x" and "x < 2 powi (binary_exponent x + 1)"
proof -
  obtain a b where q: "quotient_of x = (a, b)" by fastforce
  have b: "0 < b" by (rule quotient_of_denom_pos [OF q])
  have x: "x = of_int a / of_int b" by (rule quotient_of_div [OF q])
  have a: "0 < a" using assms b x by (simp add: zero_less_divide_iff)
  define i j where "i = int (floorlog 2 (nat a))" and "j = int (floorlog 2 (nat b))"
  have A: "2 powi (i - 1) \<le> (of_int a :: rat)" "(of_int a :: rat) < 2 powi i"
    using power_floorlog [of "nat a"] a by (simp_all add: i_def)
  have B: "2 powi (j - 1) \<le> (of_int b :: rat)" "(of_int b :: rat) < 2 powi j"
    using power_floorlog [of "nat b"] b by (simp_all add: j_def)
  have bpos: "0 < (of_int b :: rat)" using b by simp
  have up: "x < 2 powi (i - j + 1)"
  proof -
    have "2 powi (i - j + 1) * (of_int b :: rat) \<ge> 2 powi (i - j + 1) * 2 powi (j - 1)" using B(1) by simp
    moreover have "2 powi (i - j + 1) * 2 powi (j - 1) = (2 powi i :: rat)" by (simp flip: power_int_add)
    ultimately show ?thesis using A(2) bpos by (simp add: x pos_divide_less_eq)
  qed
  have low: "2 powi (i - j - 1) \<le> x"
  proof -
    have "2 powi (i - j - 1) * (of_int b :: rat) \<le> 2 powi (i - j - 1) * 2 powi j" using B(2) by simp
    moreover have "2 powi (i - j - 1) * 2 powi j = (2 powi (i - 1) :: rat)" by (simp flip: power_int_add)
    ultimately show ?thesis using A(1) bpos by (simp add: x pos_le_divide_eq)
  qed
  have be: "binary_exponent x = (if 2 powi (i - j) \<le> x then i - j else i - j - 1)"
    by (simp add: binary_exponent_def q i_def j_def Let_def)
  show "2 powi binary_exponent x \<le> x" using low by (simp add: be)
  show "x < 2 powi (binary_exponent x + 1)" using up by (simp add: be)
qed

lemma binary_exponent_le:
  assumes "0 < x" and "x < 2 powi (e + 1)"
  shows "binary_exponent x \<le> e"
proof (rule ccontr)
  assume "\<not> binary_exponent x \<le> e"
  then have "e + 1 \<le> binary_exponent x" by simp
  then have "(2::rat) powi (e + 1) \<le> 2 powi binary_exponent x" by (simp add: power_int_increasing)
  then show False using binary_exponent_bounds(1) [OF assms(1)] assms(2) by simp
qed

lemma round_half_even_bound:
  assumes "\<bar>x\<bar> < of_int n"
  shows "\<bar>round_half_even x\<bar> \<le> n"
  using round_half_even_near [of x] assms by linarith

text \<open>What rounding gives is a number of the format: rounding it again changes nothing.\<close>

lemma fl_double:
  assumes "fl x = Fin r"
  shows "fl r = Fin r"
proof (cases "x = 0 \<or> r = 0")
  case True
  then show ?thesis using assms by (auto simp: fl_def)
next
  case False
  define q m where "q = ulp_exponent x" and "m = round_half_even (x / 2 powi q)"
  have r: "r = of_int m * 2 powi q" and fin: "r < 2 ^ 1024" "- (2 ^ 1024) < r"
    using assms False by (auto simp: fl_def Let_def q_def m_def split: if_splits)
  have q: "- 1074 \<le> q" "binary_exponent \<bar>x\<bar> - 52 \<le> q" by (simp_all add: q_def ulp_exponent_def)
  have m0: "m \<noteq> 0" using r False by auto
  have "\<bar>x\<bar> < 2 powi (binary_exponent \<bar>x\<bar> + 1)" using binary_exponent_bounds(2) [of "\<bar>x\<bar>"] False by simp
  also have "\<dots> \<le> 2 powi (q + 53)" using q(2) by (intro power_int_increasing) simp_all
  also have "\<dots> = 2 ^ 53 * 2 powi q" by (simp add: power_int_add)
  finally have "\<bar>x / 2 powi q\<bar> < of_int (2 ^ 53)" by (simp add: abs_divide pos_divide_less_eq)
  then have m: "\<bar>m\<bar> \<le> 2 ^ 53" unfolding m_def by (rule round_half_even_bound)
  define q' where "q' = ulp_exponent r"
  have abs_r: "\<bar>r\<bar> = of_int \<bar>m\<bar> * 2 powi q" by (simp add: r abs_mult)
  have "\<exists>k. r / 2 powi q' = of_int k"
  proof (cases "q' \<le> q")
    case True
    have "(2::rat) powi q = 2 powi (q - q') * 2 powi q'" by (simp flip: power_int_add)
    moreover have "(2::rat) powi (q - q') = 2 ^ nat (q - q')" using True by (simp add: power_int_def)
    ultimately have "r / 2 powi q' = of_int m * 2 ^ nat (q - q')" by (simp add: r)
    then have "r / 2 powi q' = of_int (m * 2 ^ nat (q - q'))" by simp
    then show ?thesis by blast
  next
    case False
    have "\<bar>r\<bar> \<ge> 2 powi (q + 53)"
    proof (rule ccontr)
      assume "\<not> 2 powi (q + 53) \<le> \<bar>r\<bar>"
      then have "binary_exponent \<bar>r\<bar> \<le> q + 52" using \<open>\<not> (x = 0 \<or> r = 0)\<close> by (intro binary_exponent_le) (auto simp: algebra_simps)
      then show False using False q(1) by (simp add: q'_def ulp_exponent_def)
    qed
    then have "2 ^ 53 \<le> \<bar>m\<bar>" by (simp add: abs_r power_int_add)
    then have "\<bar>m\<bar> = 2 ^ 53" using m by simp
    then have eq: "\<bar>r\<bar> = 2 powi (q + 53)" by (simp add: abs_r power_int_add)
    then have "binary_exponent \<bar>r\<bar> \<le> q + 53" by (intro binary_exponent_le) (auto simp: power_int_strict_increasing)
    then have q'': "q' = q + 1" using False q(1) by (simp add: q'_def ulp_exponent_def)
    have "r / 2 powi q' = of_int (m div 2)" 
    proof -
      consider "m = 2 ^ 53" | "m = - (2 ^ 53)" using \<open>\<bar>m\<bar> = 2 ^ 53\<close> by linarith
      then show ?thesis by cases (simp_all add: r q'' power_int_add)
    qed
    then show ?thesis by blast
  qed
  then obtain k where k: "r / 2 powi q' = of_int k" by blast
  then have "of_int (round_half_even (r / 2 powi q')) * 2 powi q' = r" by (metis round_half_even_of_int nonzero_divide_eq_eq power_int_eq_0_iff zero_neq_numeral)
  then show ?thesis using False fin by (simp add: fl_def Let_def q'_def [symmetric] not_le)
qed

text \<open>The sign makes no difference.\<close>

lemma round_half_even_minus: "round_half_even (- x) = - round_half_even x"
proof (cases "x = of_int \<lfloor>x\<rfloor>")
  case True
  then have "round_half_even x = \<lfloor>x\<rfloor>" by (metis round_half_even_of_int)
  moreover have "round_half_even (- x) = - \<lfloor>x\<rfloor>" using True by (metis of_int_minus round_half_even_of_int)
  ultimately show ?thesis by simp
next
  case False
  have f: "of_int \<lfloor>x\<rfloor> \<le> x" "x < of_int \<lfloor>x\<rfloor> + 1" using floor_correct [of x] by simp_all
  then have "of_int \<lfloor>x\<rfloor> < x" using False by (metis order_le_less)
  then have "\<lfloor>- x\<rfloor> = - \<lfloor>x\<rfloor> - 1" using f by (simp add: floor_eq_iff)
  then show ?thesis unfolding round_half_even_def Let_def by (auto split: if_splits)
qed

lemma fl_minus: "fl x = Fin r \<Longrightarrow> fl (- x) = Fin (- r)"
proof -
  assume a: "fl x = Fin r"
  define q k where "q = ulp_exponent x" and "k = of_int (round_half_even (x / 2 powi q)) * (2 :: rat) powi q"
  define B where "B = (2 :: rat) ^ 1024"
  have q: "ulp_exponent (- x) = q" by (simp add: q_def ulp_exponent_def)
  have k: "of_int (round_half_even (- x / 2 powi q)) * (2 :: rat) powi q = - k"
    using round_half_even_minus [of "x / 2 powi q"] by (simp add: k_def)
  show "fl (- x) = Fin (- r)"
  proof (cases "x = 0")
    case False
    then have "(if k \<ge> B then PosInf else if k \<le> - B then NegInf else Fin k) = Fin r"
      using a unfolding fl_def Let_def q_def [symmetric] k_def [symmetric] B_def [symmetric] by simp
    then have "k = r" "k < B" "- B < k" by (auto split: if_splits)
    then show ?thesis using False unfolding fl_def Let_def q k B_def [symmetric] by simp
  qed (use a in \<open>simp add: fl_def\<close>)
qed

text \<open>The numbers of the model are rationals; those a double holds are these.\<close>

definition is_double :: "number \<Rightarrow> bool" where
  "is_double x \<longleftrightarrow> (case x of Fin r \<Rightarrow> fl r = Fin r | _ \<Rightarrow> True)"

end
