(* ===== verification/Domain.thy ===== *)
theory Domain
  imports Store Numbers
begin

text \<open>
  The ledger's entities (\<open>core/models/domain.ts\<close>) and the operation log's records
  (\<open>core/models/oplog.ts\<close>). Amounts are integers in minor units; an optional or nullable
  field is an \<^verbatim>\<open>option\<close>, since no code distinguishes an absent one from null. The union
  \<open>AnyEntity\<close> is a datatype with one constructor per entity table.
\<close>

type_synonym Minor = int

datatype AccountKind = Cash | Bank | Card | Wallet | Savings | Investment

datatype AccountGroupType = Default | CreditCard | DebitCard | Loan

record AccountGroup =
  grp_id :: string
  grp_name :: string
  grp_type :: AccountGroupType
  grp_order :: int
  grp_colour :: string
  grp_icon :: string
  grp_archived :: bool
  grp_createdAt :: int
  grp_updatedAt :: string

record Account =
  acc_id :: string
  acc_name :: string
  acc_kind :: AccountKind
  acc_currency :: string
  acc_openingBalance :: Minor
  acc_archived :: bool
  acc_colour :: string
  acc_icon :: string
  acc_groupId :: "string option"
  acc_creditLimit :: "Minor option"
  acc_statementDay :: "int option"
  acc_dueDay :: "int option"
  acc_excludedFromTotals :: "bool option"
  acc_createdAt :: int
  acc_updatedAt :: string

datatype CategoryKind = IncomeCategory | ExpenseCategory

record Category =
  cat_id :: string
  cat_name :: string
  cat_kind :: CategoryKind
  cat_parentId :: "string option"
  cat_colour :: "string option"
  cat_icon :: "string option"
  cat_archived :: bool
  cat_createdAt :: int
  cat_updatedAt :: string

datatype TransactionKind = Income | Expense | Transfer

record Transaction =
  txn_id :: string
  txn_kind :: TransactionKind
  txn_amount :: Minor
  txn_currency :: string
  txn_accountId :: string
  txn_counterAccountId :: "string option"
  txn_categoryId :: "string option"
  txn_date :: string
  txn_payee :: string
  txn_note :: string
  txn_tags :: "string list"
  txn_cleared :: bool
  txn_rate :: "number option"
  txn_rateDate :: "string option"
  txn_createdAt :: int
  txn_updatedAt :: string

datatype RateSource = Manual | Fetched

record ExchangeRate =
  rate_id :: string
  rate_base :: string
  rate_quote :: string
  rate_rate :: number
  rate_date :: string
  rate_source :: RateSource
  rate_createdAt :: int
  rate_updatedAt :: string

datatype BudgetPeriod = Weekly | Monthly | Yearly

record Budget =
  bud_id :: string
  bud_name :: string
  bud_categoryIds :: "string list"
  bud_period :: BudgetPeriod
  bud_amount :: Minor
  bud_currency :: string
  bud_startDate :: string
  bud_rollover :: bool
  bud_archived :: bool
  bud_createdAt :: int
  bud_updatedAt :: string

datatype RecurrenceUnit = Day | Week | Month | Year

record RecurringRule =
  rule_id :: string
  rule_name :: string
  rule_kind :: TransactionKind
  rule_amount :: Minor
  rule_currency :: string
  rule_accountId :: string
  rule_counterAccountId :: "string option"
  rule_categoryId :: "string option"
  rule_payee :: string
  rule_note :: string
  rule_tags :: "string list"
  rule_interval :: int
  rule_unit :: RecurrenceUnit
  rule_startDate :: string
  rule_endDate :: "string option"
  rule_maxOccurrences :: "int option"
  rule_skipped :: "string list"
  rule_archived :: bool
  rule_createdAt :: int
  rule_updatedAt :: string

record VaultSettings =
  set_id :: string
  set_reportingCurrency :: string
  set_subcategories :: "bool option"
  set_createdAt :: int
  set_updatedAt :: string

section \<open>Entity names\<close>

datatype EntityName =
    AccountGroups | Accounts | Categories | Transactions
  | Budgets | RecurringRules | Rates | VaultSettingsTable

definition ENTITY_NAMES :: "EntityName list" where
  "ENTITY_NAMES = [AccountGroups, Accounts, Categories, Transactions, Budgets, RecurringRules, Rates, VaultSettingsTable]"

primrec entity_name :: "EntityName \<Rightarrow> string" where
  "entity_name AccountGroups = ''accountGroups''"
| "entity_name Accounts = ''accounts''"
| "entity_name Categories = ''categories''"
| "entity_name Transactions = ''transactions''"
| "entity_name Budgets = ''budgets''"
| "entity_name RecurringRules = ''recurringRules''"
| "entity_name Rates = ''rates''"
| "entity_name VaultSettingsTable = ''vaultSettings''"

lemma entity_name_inj: "entity_name a = entity_name b \<longleftrightarrow> a = b"
  by (cases a; cases b) simp_all

lemma all_entities: "set ENTITY_NAMES = UNIV" "distinct ENTITY_NAMES"
proof -
  have "e \<in> set ENTITY_NAMES" for e by (cases e) (simp_all add: ENTITY_NAMES_def)
  then show "set ENTITY_NAMES = UNIV" by blast
  show "distinct ENTITY_NAMES" by (simp add: ENTITY_NAMES_def)
qed

text \<open>Entity names are strings at run time; the compound index of the operation log orders
  its entries by them.\<close>

instantiation EntityName :: linorder
begin

definition less_eq_EntityName :: "EntityName \<Rightarrow> EntityName \<Rightarrow> bool" where
  "less_eq_EntityName a b \<longleftrightarrow> entity_name a \<le> entity_name b"

definition less_EntityName :: "EntityName \<Rightarrow> EntityName \<Rightarrow> bool" where
  "less_EntityName a b \<longleftrightarrow> entity_name a < entity_name b"

instance
  by standard (auto simp: less_eq_EntityName_def less_EntityName_def entity_name_inj [symmetric])

end

section \<open>Any entity\<close>

datatype AnyEntity =
    AccountGroupRow AccountGroup
  | AccountRow Account
  | CategoryRow Category
  | TransactionRow Transaction
  | BudgetRow Budget
  | RecurringRuleRow RecurringRule
  | RateRow ExchangeRate
  | VaultSettingsRow VaultSettings

primrec entity_of :: "AnyEntity \<Rightarrow> EntityName" where
  "entity_of (AccountGroupRow _) = AccountGroups"
| "entity_of (AccountRow _) = Accounts"
| "entity_of (CategoryRow _) = Categories"
| "entity_of (TransactionRow _) = Transactions"
| "entity_of (BudgetRow _) = Budgets"
| "entity_of (RecurringRuleRow _) = RecurringRules"
| "entity_of (RateRow _) = Rates"
| "entity_of (VaultSettingsRow _) = VaultSettingsTable"

primrec entity_id :: "AnyEntity \<Rightarrow> string" where
  "entity_id (AccountGroupRow r) = grp_id r"
| "entity_id (AccountRow r) = acc_id r"
| "entity_id (CategoryRow r) = cat_id r"
| "entity_id (TransactionRow r) = txn_id r"
| "entity_id (BudgetRow r) = bud_id r"
| "entity_id (RecurringRuleRow r) = rule_id r"
| "entity_id (RateRow r) = rate_id r"
| "entity_id (VaultSettingsRow r) = set_id r"

primrec updatedAt :: "AnyEntity \<Rightarrow> string" where
  "updatedAt (AccountGroupRow r) = grp_updatedAt r"
| "updatedAt (AccountRow r) = acc_updatedAt r"
| "updatedAt (CategoryRow r) = cat_updatedAt r"
| "updatedAt (TransactionRow r) = txn_updatedAt r"
| "updatedAt (BudgetRow r) = bud_updatedAt r"
| "updatedAt (RecurringRuleRow r) = rule_updatedAt r"
| "updatedAt (RateRow r) = rate_updatedAt r"
| "updatedAt (VaultSettingsRow r) = set_updatedAt r"

text \<open>\<open>{ ...value, updatedAt: stamp }\<close>\<close>

primrec with_updatedAt :: "string \<Rightarrow> AnyEntity \<Rightarrow> AnyEntity" where
  "with_updatedAt s (AccountGroupRow r) = AccountGroupRow (r\<lparr>grp_updatedAt := s\<rparr>)"
| "with_updatedAt s (AccountRow r) = AccountRow (r\<lparr>acc_updatedAt := s\<rparr>)"
| "with_updatedAt s (CategoryRow r) = CategoryRow (r\<lparr>cat_updatedAt := s\<rparr>)"
| "with_updatedAt s (TransactionRow r) = TransactionRow (r\<lparr>txn_updatedAt := s\<rparr>)"
| "with_updatedAt s (BudgetRow r) = BudgetRow (r\<lparr>bud_updatedAt := s\<rparr>)"
| "with_updatedAt s (RecurringRuleRow r) = RecurringRuleRow (r\<lparr>rule_updatedAt := s\<rparr>)"
| "with_updatedAt s (RateRow r) = RateRow (r\<lparr>rate_updatedAt := s\<rparr>)"
| "with_updatedAt s (VaultSettingsRow r) = VaultSettingsRow (r\<lparr>set_updatedAt := s\<rparr>)"

lemma with_updatedAt_simps [simp]:
  "entity_of (with_updatedAt s v) = entity_of v" "entity_id (with_updatedAt s v) = entity_id v"
  "updatedAt (with_updatedAt s v) = s"
  by (cases v; simp)+

section \<open>The operation log\<close>

datatype OpKind = Put | Delete

record Operation =
  hlc :: string
  entity :: EntityName
  entityId :: string
  op_kind :: OpKind
  op_value :: "AnyEntity option"
  op_device :: string

record LocalOperation = Operation +
  synced :: bool

definition local_op :: "bool \<Rightarrow> Operation \<Rightarrow> LocalOperation" where
  "local_op s op = Operation.extend op \<lparr>synced = s\<rparr>"

definition remote_op :: "LocalOperation \<Rightarrow> Operation" where
  "remote_op lop = Operation.truncate lop"

record LedgerSnapshot =
  snap_vaultId :: string
  snap_device :: string
  snap_watermark :: string
  snap_entities :: "EntityName \<Rightarrow> AnyEntity list"
  snap_operationCount :: nat

record OperationBatch =
  batch_vaultId :: string
  batch_device :: string
  batch_head :: string
  batch_ops :: "Operation list"

lemma local_op_simps [simp]:
  "hlc (local_op s op) = hlc op" "entity (local_op s op) = entity op"
  "entityId (local_op s op) = entityId op" "op_kind (local_op s op) = op_kind op"
  "op_value (local_op s op) = op_value op" "op_device (local_op s op) = op_device op"
  "synced (local_op s op) = s" "remote_op (local_op s op) = op"
  by (simp_all add: local_op_def remote_op_def Operation.defs LocalOperation.defs)

lemma remote_op_simps [simp]:
  "hlc (remote_op lop) = hlc lop" "entity (remote_op lop) = entity lop"
  "entityId (remote_op lop) = entityId lop" "op_kind (remote_op lop) = op_kind lop"
  "op_value (remote_op lop) = op_value lop" "op_device (remote_op lop) = op_device lop"
  "remote_op (lop\<lparr>synced := s\<rparr>) = remote_op lop"
  by (simp_all add: remote_op_def Operation.defs)

end
