(* ===== verification/Replica.thy ===== *)
theory Replica
  imports Main
begin

text \<open>
  The contract of a last-writer-wins replica. A replica folds in stamped operations one at a
  time; what it keeps of the history of one key is the operation with the greatest stamp. The
  locale states this of one application of one operation, relative to the history of
  operations ever issued, and derives what a replica promises of whole batches: the order, the
  batching and the repetition of operations do not matter, and replicas that exchange what
  they hold agree. The merge of the ledger is interpreted as such a replica.
\<close>

text \<open>The abstract specification: a register per key, written by the newer stamp.\<close>

definition lww_write :: "('op \<Rightarrow> 'k) \<Rightarrow> ('op \<Rightarrow> 't :: linorder) \<Rightarrow> 'op \<Rightarrow> ('k \<Rightarrow> 'op option) \<Rightarrow> ('k \<Rightarrow> 'op option)" where
  "lww_write key stamp op m =
     (case m (key op) of
        None \<Rightarrow> m(key op \<mapsto> op)
      | Some old \<Rightarrow> if stamp op \<le> stamp old then m else m(key op \<mapsto> op))"

text \<open>\<open>newest key stamp H k m\<close>: \<open>m\<close> is the register of \<open>k\<close> after exactly the operations \<open>H\<close>.\<close>

definition newest :: "('op \<Rightarrow> 'k) \<Rightarrow> ('op \<Rightarrow> 't :: linorder) \<Rightarrow> 'op set \<Rightarrow> 'k \<Rightarrow> 'op option \<Rightarrow> bool" where
  "newest key stamp H k m \<longleftrightarrow>
     (case m of
        None \<Rightarrow> \<forall>op \<in> H. key op \<noteq> k
      | Some op \<Rightarrow> op \<in> H \<and> key op = k \<and> (\<forall>op' \<in> H. key op' = k \<longrightarrow> stamp op' \<le> stamp op))"

lemma newest_unique:
  assumes "inj_on stamp H" and "newest key stamp H k m" and "newest key stamp H k m'"
  shows "m = m'"
  using assms by (auto simp: newest_def inj_on_def split: option.splits) (metis order_antisym)

lemma newest_write:
  assumes "newest key stamp H k (m k)"
  shows "newest key stamp (insert op H) k (lww_write key stamp op m k)"
  using assms by (auto simp: newest_def lww_write_def split: option.splits)

text \<open>Adding operations that are already dominated, or forgetting dominated ones, changes
  nothing.\<close>

lemma newest_cover:
  assumes "newest key stamp H k m" and "H \<subseteq> H'"
    and "\<And>op. op \<in> H' \<Longrightarrow> key op = k \<Longrightarrow> \<exists>op' \<in> H. key op' = k \<and> stamp op \<le> stamp op'"
  shows "newest key stamp H' k m"
proof (cases m)
  case None
  then show ?thesis using assms(1,3) unfolding newest_def by (simp, blast)
next
  case (Some top)
  have "stamp op \<le> stamp top" if "op \<in> H'" "key op = k" for op
    using assms(3) [OF that] assms(1) Some by (auto simp: newest_def intro: order_trans)
  with assms(1,2) Some show ?thesis by (auto simp: newest_def)
qed

locale replica =
  fixes key :: "'op \<Rightarrow> 'k"
    and stamp :: "'op \<Rightarrow> 't :: linorder"
    and apply_op :: "'op \<Rightarrow> 's \<Rightarrow> 's"
    and register :: "'s \<Rightarrow> 'k \<Rightarrow> 'op option"
    and ok :: "'op set \<Rightarrow> 's \<Rightarrow> bool"
  assumes ok_unique: "ok W s \<Longrightarrow> inj_on stamp W"
    and ok_known: "ok W s \<Longrightarrow> register s k = Some op \<Longrightarrow> op \<in> W \<and> key op = k"
    and ok_apply: "ok W s \<Longrightarrow> op \<in> W \<Longrightarrow> ok W (apply_op op s)"
    and apply_refines: "ok W s \<Longrightarrow> op \<in> W \<Longrightarrow> register (apply_op op s) = lww_write key stamp op (register s)"
begin

definition known :: "'s \<Rightarrow> 'op set" where
  "known s = {op. \<exists>k. register s k = Some op}"

lemma newest_known: "ok W s \<Longrightarrow> newest key stamp (known s) k (register s k)"
  by (auto simp: newest_def known_def dest: ok_known split: option.split)

lemma ok_fold: "ok W s \<Longrightarrow> set xs \<subseteq> W \<Longrightarrow> ok W (fold apply_op xs s)"
  by (induction xs arbitrary: s) (auto intro: ok_apply)

lemma fold_refines:
  "ok W s \<Longrightarrow> set xs \<subseteq> W \<Longrightarrow> register (fold apply_op xs s) = fold (lww_write key stamp) xs (register s)"
  by (induction xs arbitrary: s) (auto simp: ok_apply apply_refines)

lemma fold_newest:
  assumes "ok W s" and "set xs \<subseteq> W" and "\<And>k. newest key stamp H k (register s k)"
  shows "newest key stamp (H \<union> set xs) k (register (fold apply_op xs s) k)"
  using assms
proof (induction xs arbitrary: s H)
  case (Cons x xs)
  have "newest key stamp (insert x H) k (register (apply_op x s) k)" for k
    using Cons.prems by (simp add: apply_refines newest_write)
  from Cons.IH [OF _ _ this] Cons.prems show ?case by (simp add: ok_apply)
qed simp

lemma fold_cong_register:
  assumes "ok W s" and "ok W t" and "register s = register t" and "set xs \<subseteq> W"
  shows "register (fold apply_op xs s) = register (fold apply_op xs t)"
  using assms by (induction xs arbitrary: s t) (auto simp: ok_apply apply_refines)

text \<open>The result depends only on the set of operations folded in.\<close>

theorem fold_same_set:
  assumes "ok W s" and "set xs \<subseteq> W" and "set xs = set ys"
  shows "register (fold apply_op xs s) = register (fold apply_op ys s)"
proof
  fix k
  have sub: "known s \<subseteq> W" using assms(1) ok_known by (auto simp: known_def)
  have "newest key stamp (known s \<union> set xs) k (register (fold apply_op xs s) k)"
    "newest key stamp (known s \<union> set xs) k (register (fold apply_op ys s) k)"
    using fold_newest [OF assms(1,2) newest_known [OF assms(1)]]
      fold_newest [OF assms(1) _ newest_known [OF assms(1)], of ys k] assms(2,3) by simp_all
  moreover have "inj_on stamp (known s \<union> set xs)"
    using ok_unique [OF assms(1)] sub assms(2) by (auto intro: inj_on_subset)
  ultimately show "register (fold apply_op xs s) k = register (fold apply_op ys s) k"
    by (rule newest_unique [rotated])
qed

text \<open>Two replicas converge when what one holds is folded into the other, and back.\<close>

theorem exchange:
  assumes "ok W s" and "ok W t" and "known t \<subseteq> set xs" and "known s \<subseteq> set ys"
    and "set xs \<subseteq> W" and "set ys \<subseteq> W"
    and "\<And>op. op \<in> set xs \<Longrightarrow> \<exists>op' \<in> known t. key op' = key op \<and> stamp op \<le> stamp op'"
    and "\<And>op. op \<in> set ys \<Longrightarrow> \<exists>op' \<in> known s. key op' = key op \<and> stamp op \<le> stamp op'"
  shows "register (fold apply_op xs s) = register (fold apply_op ys t)"
proof
  fix k
  let ?H = "known s \<union> known t \<union> set xs \<union> set ys"
  have kn: "known s \<subseteq> W" "known t \<subseteq> W" using assms(1,2) ok_known by (auto simp: known_def)
  have s: "newest key stamp (known s \<union> set xs) k (register (fold apply_op xs s) k)"
    using fold_newest [OF assms(1,5) newest_known [OF assms(1)]] .
  have t: "newest key stamp (known t \<union> set ys) k (register (fold apply_op ys t) k)"
    using fold_newest [OF assms(2,6) newest_known [OF assms(2)]] .
  have "newest key stamp ?H k (register (fold apply_op xs s) k)"
    by (rule newest_cover [OF s]) (use assms(3,8) in fastforce)+
  moreover have "newest key stamp ?H k (register (fold apply_op ys t) k)"
    by (rule newest_cover [OF t]) (use assms(4,7) in fastforce)+
  moreover have "inj_on stamp ?H"
    using ok_unique [OF assms(1)] kn assms(5,6) by (auto intro: inj_on_subset)
  ultimately show "register (fold apply_op xs s) k = register (fold apply_op ys t) k"
    by (rule newest_unique [rotated])
qed

text \<open>Folding in again what is already held changes nothing.\<close>

theorem absorb:
  assumes "ok W s" and "set xs \<subseteq> W"
    and "\<And>op. op \<in> set xs \<Longrightarrow> \<exists>op' \<in> known s. key op' = key op \<and> stamp op \<le> stamp op'"
  shows "register (fold apply_op xs s) = register s"
proof
  fix k
  have kn: "known s \<subseteq> W" using assms(1) ok_known by (auto simp: known_def)
  have "newest key stamp (known s \<union> set xs) k (register s k)"
    by (rule newest_cover [OF newest_known [OF assms(1)]]) (use assms(3) in fastforce)+
  moreover have "inj_on stamp (known s \<union> set xs)"
    using ok_unique [OF assms(1)] kn assms(2) by (auto intro: inj_on_subset)
  ultimately show "register (fold apply_op xs s) k = register s k"
    using fold_newest [OF assms(1,2) newest_known [OF assms(1)]] by (metis newest_unique)
qed

end

end
