(* ===== verification/Ledger.thy ===== *)
theory Ledger
  imports Clock Domain Replica
begin

text \<open>
  The local database (\<open>core/db/docket-db.ts\<close>) and the ledger service over it
  (\<open>core/repositories/ledger.service.ts\<close>): every write stamps the row, logs an operation and
  persists the clock; operations of other devices are merged by last writer wins. The clock's
  \<open>Date.now\<close> is an argument of the operations that read it. A Dexie transaction is atomic, so
  an operation that throws returns the database it was given.
\<close>

section \<open>The database\<close>

text \<open>The values the application keeps in the \<open>meta\<close> table.\<close>

datatype meta_value = ClockState hlc_state | MetaNumber int | MetaString string

record docket_db =
  tables :: "EntityName \<Rightarrow> AnyEntity tbl"
  oplog :: "LocalOperation tbl"
  remoteObjects :: "int tbl"
  meta :: "meta_value tbl"

definition new_db :: docket_db where
  "new_db = \<lparr>tables = (\<lambda>_. []), oplog = [], remoteObjects = [], meta = []\<rparr>"

record ledger =
  led_db :: docket_db
  led_clock :: "clock option"

definition CLOCK_STATE_KEY :: string where
  "CLOCK_STATE_KEY = ''hlc.state''"

text \<open>\<open>row?.value as HlcState | undefined\<close>\<close>

definition stored_clock :: "docket_db \<Rightarrow> hlc_state option" where
  "stored_clock d = (case tget (meta d) CLOCK_STATE_KEY of Some (ClockState st) \<Rightarrow> Some st | _ \<Rightarrow> None)"

definition initialise :: "string \<Rightarrow> ledger \<Rightarrow> ledger" where
  "initialise dev l = l\<lparr>led_clock := Some (new_clock dev (stored_clock (led_db l)))\<rparr>"

definition not_initialised :: error where
  "not_initialised = Error ''LedgerService.initialise() has not been called''"

definition requireClock :: "(ledger, clock) call" where
  "requireClock l = (case led_clock l of None \<Rightarrow> (Inl not_initialised, l) | Some clk \<Rightarrow> (Inr clk, l))"

definition persistClock :: "clock \<Rightarrow> docket_db \<Rightarrow> docket_db" where
  "persistClock clk d = d\<lparr>meta := tput CLOCK_STATE_KEY (ClockState (snapshot clk)) (meta d)\<rparr>"

definition table_put :: "EntityName \<Rightarrow> AnyEntity \<Rightarrow> docket_db \<Rightarrow> docket_db" where
  "table_put e v d = d\<lparr>tables := (tables d)(e := tput (entity_id v) v (tables d e))\<rparr>"

definition table_delete :: "EntityName \<Rightarrow> string \<Rightarrow> docket_db \<Rightarrow> docket_db" where
  "table_delete e i d = d\<lparr>tables := (tables d)(e := tdelete i (tables d e))\<rparr>"

definition oplog_put :: "LocalOperation \<Rightarrow> docket_db \<Rightarrow> docket_db" where
  "oplog_put lop d = d\<lparr>oplog := tput (hlc lop) lop (oplog d)\<rparr>"

section \<open>Local writes\<close>

definition put :: "nat \<Rightarrow> EntityName \<Rightarrow> AnyEntity \<Rightarrow> (ledger, AnyEntity) call" where
  "put wall e v l =
     (case led_clock l of
        None \<Rightarrow> (Inl not_initialised, l)
      | Some clk \<Rightarrow>
          (case tick wall clk of
             (Inl err, clk') \<Rightarrow> (Inl err, l\<lparr>led_clock := Some clk'\<rparr>)
           | (Inr stamp, clk') \<Rightarrow>
               let stamped = with_updatedAt stamp v;
                   lop = \<lparr>hlc = updatedAt stamped, entity = e, entityId = entity_id stamped,
                          op_kind = Put, op_value = Some stamped, op_device = clk_device clk', synced = False\<rparr>
               in (Inr stamped,
                   l\<lparr>led_db := persistClock clk' (oplog_put lop (table_put e stamped (led_db l))),
                     led_clock := Some clk'\<rparr>)))"

definition remove :: "nat \<Rightarrow> EntityName \<Rightarrow> string \<Rightarrow> (ledger, unit) call" where
  "remove wall e i l =
     (case led_clock l of
        None \<Rightarrow> (Inl not_initialised, l)
      | Some clk \<Rightarrow>
          (case tick wall clk of
             (Inl err, clk') \<Rightarrow> (Inl err, l\<lparr>led_clock := Some clk'\<rparr>)
           | (Inr stamp, clk') \<Rightarrow>
               let lop = \<lparr>hlc = stamp, entity = e, entityId = i, op_kind = Delete, op_value = None,
                          op_device = clk_device clk', synced = False\<rparr>
               in (Inr (),
                   l\<lparr>led_db := persistClock clk' (oplog_put lop (table_delete e i (led_db l))),
                     led_clock := Some clk'\<rparr>)))"

section \<open>The log\<close>

definition stamps_for :: "docket_db \<Rightarrow> EntityName \<Rightarrow> string \<Rightarrow> string list" where
  "stamps_for d e i = map fst (filter (\<lambda>(_, lop). entity lop = e \<and> entityId lop = i) (oplog d))"

text \<open>The loop of \<open>latestStampFor\<close>; an empty stamp is falsy and never blocks a later one.\<close>

definition newer_stamp :: "string \<Rightarrow> string option \<Rightarrow> string option" where
  "newer_stamp s best =
     (case best of None \<Rightarrow> Some s | Some m \<Rightarrow> if m = [] \<or> compareHlc s m > 0 then Some s else best)"

definition latestStampFor :: "docket_db \<Rightarrow> EntityName \<Rightarrow> string \<Rightarrow> string option" where
  "latestStampFor d e i = fold newer_stamp (stamps_for d e i) None"

definition hasHistory :: "docket_db \<Rightarrow> EntityName \<Rightarrow> string \<Rightarrow> bool" where
  "hasHistory d e i \<longleftrightarrow> latestStampFor d e i \<noteq> None"

text \<open>
  The range query runs over the compound index, from \<open>[entity, prefix]\<close> to
  \<open>[entity, prefix + U+FFFF]\<close>. No identifier contains the code unit U+FFFF, which is above
  every other, so an identifier is below the upper bound exactly when it is below the prefix
  or begins with it.
\<close>

definition below_prefix_bound :: "string \<Rightarrow> string \<Rightarrow> bool" where
  "below_prefix_bound prefix i \<longleftrightarrow> i < prefix \<or> startsWith prefix i"

definition index_keys :: "docket_db \<Rightarrow> (EntityName \<times> string) list" where
  "index_keys d = sort_key fst (sort_key snd (map (\<lambda>(_, lop). (entity lop, entityId lop)) (oplog d)))"

definition greater_id :: "string \<Rightarrow> string option \<Rightarrow> string option" where
  "greater_id i best = (case best of None \<Rightarrow> Some i | Some m \<Rightarrow> if i > m then Some i else best)"

definition latestEntityIdWithPrefix :: "docket_db \<Rightarrow> EntityName \<Rightarrow> string \<Rightarrow> string option" where
  "latestEntityIdWithPrefix d e prefix =
     fold (\<lambda>k. greater_id (snd k))
       (filter (\<lambda>(e', i). e' = e \<and> prefix \<le> i \<and> below_prefix_bound prefix i) (index_keys d)) None"

definition allOperations :: "docket_db \<Rightarrow> LocalOperation list" where
  "allOperations d = toArray (oplog d)"

text \<open>The index on \<open>synced\<close> returns equal keys in primary-key order, so the limit keeps the
  oldest operations.\<close>

definition pendingOperations :: "nat \<Rightarrow> docket_db \<Rightarrow> LocalOperation list" where
  "pendingOperations limit d = sort_key hlc (take limit (filter (\<lambda>lop. \<not> synced lop) (toArray (oplog d))))"

definition PENDING_LIMIT :: nat where "PENDING_LIMIT = 5000"

definition markSynced :: "string list \<Rightarrow> docket_db \<Rightarrow> docket_db" where
  "markSynced stamps d = d\<lparr>oplog := fold (\<lambda>s. tupdate s (\<lambda>lop. lop\<lparr>synced := True\<rparr>)) stamps (oplog d)\<rparr>"

definition persistClockState :: "(ledger, unit) call" where
  "persistClockState l =
     (case led_clock l of
        None \<Rightarrow> (Inl not_initialised, l)
      | Some clk \<Rightarrow> (Inr (), l\<lparr>led_db := persistClock clk (led_db l)\<rparr>))"

text \<open>\<open>now i\<close> is the wall clock when the \<open>i\<close>-th stamp is observed. A stamp that is refused
  throws out of the loop with the earlier ones folded in.\<close>

fun observe_all :: "(nat \<Rightarrow> nat) \<Rightarrow> nat \<Rightarrow> string list \<Rightarrow> (clock, unit) call" where
  "observe_all now i [] clk = (Inr (), clk)"
| "observe_all now i (s # ss) clk =
     (case observe (now i) s clk of
        (Inl err, clk') \<Rightarrow> (Inl err, clk')
      | (Inr _, clk') \<Rightarrow> observe_all now (Suc i) ss clk')"

definition observeStamps :: "(nat \<Rightarrow> nat) \<Rightarrow> string list \<Rightarrow> (ledger, unit) call" where
  "observeStamps now stamps l =
     (case led_clock l of
        None \<Rightarrow> (Inl not_initialised, l)
      | Some clk \<Rightarrow> (case observe_all now 0 stamps clk of (r, clk') \<Rightarrow> (r, l\<lparr>led_clock := Some clk'\<rparr>)))"

section \<open>Merging\<close>

text \<open>One turn of the merge loop, and whether it applied the operation.\<close>

definition merge_op :: "Operation \<Rightarrow> docket_db \<Rightarrow> docket_db \<times> bool" where
  "merge_op op d =
     (if (case latestStampFor d (entity op) (entityId op) of
            None \<Rightarrow> False | Some latest \<Rightarrow> latest \<noteq> [] \<and> compareHlc (hlc op) latest \<le> 0)
      then (d, False)
      else if op_kind op = Delete
      then (oplog_put (local_op True op) (table_delete (entity op) (entityId op) d), True)
      else case op_value op of
             Some v \<Rightarrow> (oplog_put (local_op True op) (table_put (entity op) v d), True)
           | None \<Rightarrow> (d, False))"

fun merge_loop :: "Operation list \<Rightarrow> docket_db \<times> nat \<Rightarrow> docket_db \<times> nat" where
  "merge_loop [] s = s"
| "merge_loop (op # ops) (d, n) =
     (case merge_op op d of (d', b) \<Rightarrow> merge_loop ops (d', if b then n + 1 else n))"

definition merge :: "Operation list \<Rightarrow> (ledger, nat) call" where
  "merge ops l =
     (if ops = [] then (Inr 0, l)
      else case led_clock l of
             None \<Rightarrow> (Inl not_initialised, l)
           | Some clk \<Rightarrow>
               (case merge_loop (sort_key hlc ops) (led_db l, 0) of
                  (d, applied) \<Rightarrow> (Inr applied, l\<lparr>led_db := persistClock clk d\<rparr>)))"

section \<open>The registers of the log\<close>

definition op_key :: "'a Operation_scheme \<Rightarrow> EntityName \<times> string" where
  "op_key op = (entity op, entityId op)"

definition logged :: "docket_db \<Rightarrow> Operation set" where
  "logged d = remote_op ` snd ` set (oplog d)"

text \<open>The newest logged operation of an entity, found by its stamp.\<close>

definition register :: "docket_db \<Rightarrow> EntityName \<times> string \<Rightarrow> Operation option" where
  "register d k =
     (case latestStampFor d (fst k) (snd k) of
        None \<Rightarrow> None
      | Some s \<Rightarrow> map_option remote_op (tget (oplog d) s))"

text \<open>What an operation leaves in the table: a delete leaves nothing.\<close>

definition content :: "Operation \<Rightarrow> AnyEntity option" where
  "content op = (if op_kind op = Delete then None else op_value op)"

text \<open>The rows the log stands for.\<close>

definition rows_of :: "docket_db \<Rightarrow> EntityName \<Rightarrow> string \<Rightarrow> AnyEntity option" where
  "rows_of d e i = Option.bind (register d (e, i)) content"

definition log_ok :: "docket_db \<Rightarrow> bool" where
  "log_ok d \<longleftrightarrow> table_ok (oplog d) \<and> (\<forall>(s, lop) \<in> set (oplog d). s = hlc lop \<and> s \<noteq> [])"

lemma log_ok_mem: "log_ok d \<Longrightarrow> (s, lop) \<in> set (oplog d) \<Longrightarrow> s = hlc lop \<and> s \<noteq> [] \<and> tget (oplog d) s = Some lop"
  by (auto simp: log_ok_def tget_mem)

lemma fold_newer_stamp:
  assumes "sorted_wrt (<) (case acc of None \<Rightarrow> ss | Some a \<Rightarrow> a # ss)"
  shows "fold newer_stamp ss acc = (if ss = [] then acc else Some (last ss))"
  using assms
proof (induction ss arbitrary: acc)
  case (Cons s ss)
  have "newer_stamp s acc = Some s" using Cons.prems by (auto simp: newer_stamp_def split: option.splits)
  with Cons.IH [of "Some s"] Cons.prems show ?case by (auto split: option.splits)
qed simp

lemma strict_sorted_le_last: "sorted_wrt (<) xs \<Longrightarrow> x \<in> set xs \<Longrightarrow> x \<le> last (xs :: 'a :: linorder list)"
  by (induction xs) (auto simp: less_imp_le)

lemma sorted_stamps_for: "table_ok (oplog d) \<Longrightarrow> sorted_wrt (<) (stamps_for d e i)"
  by (simp add: stamps_for_def table_ok_def primaryKeys_def sorted_wrt_map sorted_wrt_filter)

lemma latestStampFor_last:
  "table_ok (oplog d) \<Longrightarrow>
     latestStampFor d e i = (if stamps_for d e i = [] then None else Some (last (stamps_for d e i)))"
  using fold_newer_stamp [where acc = None and ss = "stamps_for d e i"] sorted_stamps_for [of d e i]
  by (simp add: latestStampFor_def)

lemma register_newest:
  assumes "log_ok d"
  shows "newest op_key hlc (logged d) k (register d k)"
proof -
  obtain e i where k: "k = (e, i)" by fastforce
  have tab: "table_ok (oplog d)" using assms by (simp add: log_ok_def)
  have mem: "op \<in> logged d \<and> op_key op = k \<Longrightarrow> hlc op \<in> set (stamps_for d e i)" for op
    using assms by (force simp: logged_def stamps_for_def op_key_def k log_ok_def image_iff)
  show ?thesis
  proof (cases "stamps_for d e i = []")
    case True
    then show ?thesis using mem latestStampFor_last [OF tab, of e i]
      by (auto simp: newest_def register_def k)
  next
    case False
    define s where "s = last (stamps_for d e i)"
    have s: "s \<in> set (stamps_for d e i)" using False by (simp add: s_def)
    then obtain lop where lop: "(s, lop) \<in> set (oplog d)" "entity lop = e" "entityId lop = i"
      by (auto simp: stamps_for_def)
    have "t \<le> s" if "t \<in> set (stamps_for d e i)" for t
      unfolding s_def by (rule strict_sorted_le_last [OF sorted_stamps_for [OF tab] that])
    moreover have "register d k = Some (remote_op lop)"
      using False latestStampFor_last [OF tab, of e i] log_ok_mem [OF assms lop(1)]
      by (auto simp: register_def k s_def [symmetric])
    moreover have "hlc lop = s" using log_ok_mem [OF assms lop(1)] by simp
    ultimately show ?thesis using lop mem
      by (force simp: newest_def logged_def op_key_def k)
  qed
qed

lemma latest_register:
  assumes "log_ok d"
  shows "latestStampFor d (entity op) (entityId op) = map_option hlc (register d (op_key op))"
proof (cases "latestStampFor d (entity op) (entityId op)")
  case (Some s)
  have "table_ok (oplog d)" using assms by (simp add: log_ok_def)
  from latestStampFor_last [OF this, of "entity op" "entityId op"] Some
  have "s \<in> set (stamps_for d (entity op) (entityId op))" by (auto split: if_splits)
  then obtain lop where "(s, lop) \<in> set (oplog d)" by (auto simp: stamps_for_def)
  from log_ok_mem [OF assms this] Some show ?thesis by (auto simp: register_def op_key_def)
qed (simp add: register_def op_key_def)

section \<open>The invariant\<close>

text \<open>
  A history is the set of operations ever issued by the devices of a vault: every stamp is one
  that the clock of the authoring device encoded, no two operations share a stamp, and a put
  carries the row it is about.
\<close>

definition op_ok :: "Operation \<Rightarrow> bool" where
  "op_ok op \<longleftrightarrow>
     (\<exists>st :: hlc_state. state_ok st \<and> hlc op = encodeHlc st (op_device op)) \<and> device_ok (op_device op) \<and>
     (op_kind op = Put \<longrightarrow> (\<exists>v. op_value op = Some v \<and> entity_of v = entity op \<and> entity_id v = entityId op))"

definition history :: "Operation set \<Rightarrow> bool" where
  "history W \<longleftrightarrow> inj_on hlc W \<and> (\<forall>op \<in> W. op_ok op)"

text \<open>The database invariant: the log holds operations of the history under their stamps, and
  every table holds exactly the rows its log stands for.\<close>

definition db_ok :: "Operation set \<Rightarrow> docket_db \<Rightarrow> bool" where
  "db_ok W d \<longleftrightarrow>
     history W \<and> log_ok d \<and> logged d \<subseteq> W \<and> table_ok (meta d) \<and> (\<forall>e. table_ok (tables d e)) \<and>
     (\<forall>e i. tget (tables d e) i = rows_of d e i)"

lemma op_ok_stamp: "op_ok op \<Longrightarrow> hlc op \<noteq> []"
  by (auto simp: op_ok_def encodeHlc_def)

lemma db_simps [simp]:
  "oplog (table_put e v d) = oplog d" "oplog (table_delete e i d) = oplog d" "oplog (persistClock clk d) = oplog d"
  "meta (table_put e v d) = meta d" "meta (table_delete e i d) = meta d" "meta (oplog_put lop d) = meta d"
  "tables (oplog_put lop d) = tables d" "tables (persistClock clk d) = tables d"
  "oplog (oplog_put lop d) = tput (hlc lop) lop (oplog d)"
  "tables (table_put e v d) e' = (if e' = e then tput (entity_id v) v (tables d e) else tables d e')"
  "tables (table_delete e i d) e' = (if e' = e then tdelete i (tables d e) else tables d e')"
  by (auto simp: table_put_def table_delete_def persistClock_def oplog_put_def)

lemma register_cong: "oplog d = oplog d' \<Longrightarrow> register d = register d'"
  by (auto simp: fun_eq_iff register_def latestStampFor_def stamps_for_def split: option.split)

lemma rows_of_cong: "oplog d = oplog d' \<Longrightarrow> rows_of d = rows_of d'"
  using register_cong [of d d'] by (simp add: fun_eq_iff rows_of_def)

lemma log_ok_put: "log_ok d \<Longrightarrow> hlc lop \<noteq> [] \<Longrightarrow> log_ok (oplog_put lop d)"
proof -
  assume a: "log_ok d" "hlc lop \<noteq> []"
  then have "table_ok (oplog d)" by (simp add: log_ok_def)
  then show ?thesis using a by (auto simp: log_ok_def mem_tput split: if_splits)
qed

lemma logged_put:
  assumes "log_ok d" and "logged d \<subseteq> W" and "inj_on hlc W" and "remote_op lop \<in> W"
  shows "logged (oplog_put lop d) = insert (remote_op lop) (logged d)"
proof -
  have tab: "table_ok (oplog d)" "table_ok (tput (hlc lop) lop (oplog d))" using assms(1) by (simp_all add: log_ok_def)
  have mem: "op \<in> logged d' \<longleftrightarrow> (\<exists>s l. tget (oplog d') s = Some l \<and> remote_op l = op)"
    if "table_ok (oplog d')" for d' op
    using tget_mem [OF that] by (force simp: logged_def)
  have same: "remote_op l = remote_op lop" if "tget (oplog d) (hlc lop) = Some l" for l
  proof -
    have "(hlc lop, l) \<in> set (oplog d)" using that tab by (simp add: tget_mem)
    then have "hlc l = hlc lop" "remote_op l \<in> W" using log_ok_mem [OF assms(1)] assms(2) by (force simp: logged_def)+
    then show ?thesis using assms(3,4) inj_onD [OF assms(3), of "remote_op l" "remote_op lop"] by simp
  qed
  show ?thesis
  proof (intro set_eqI)
    fix op
    have "op \<in> logged (oplog_put lop d) \<longleftrightarrow>
        (\<exists>s l. (if s = hlc lop then Some lop else tget (oplog d) s) = Some l \<and> remote_op l = op)"
      using mem [of "oplog_put lop d" op] tab by simp
    also have "\<dots> \<longleftrightarrow> op = remote_op lop \<or> op \<in> logged d"
      using mem [OF tab(1), of op] same by (auto split: if_splits) (metis option.inject)+
    finally show "op \<in> logged (oplog_put lop d) \<longleftrightarrow> op \<in> insert (remote_op lop) (logged d)" by simp
  qed
qed

section \<open>The ledger is a last-writer-wins replica\<close>

lemma db_okD:
  assumes "db_ok W d"
  shows "history W" "log_ok d" "logged d \<subseteq> W" "inj_on hlc W" "op \<in> W \<Longrightarrow> op_ok op"
    "tget (tables d e) i = rows_of d e i" "table_ok (tables d e)"
  using assms by (simp_all add: db_ok_def history_def)

lemma register_mem:
  assumes "db_ok W d" and "register d k = Some op"
  shows "op \<in> W \<and> op_key op = k \<and> op \<in> logged d"
  using register_newest [OF db_okD(2) [OF assms(1)], of k] assms db_okD(3) [OF assms(1)]
  by (auto simp: newest_def)

lemma register_put:
  assumes "db_ok W d" and "remote_op lop \<in> W"
  shows "register (oplog_put lop d) = lww_write op_key hlc (remote_op lop) (register d)"
proof
  fix k
  have "log_ok (oplog_put lop d)"
    using assms db_okD(2,5) [OF assms(1)] op_ok_stamp [of "remote_op lop"] by (simp add: log_ok_put)
  then have "newest op_key hlc (insert (remote_op lop) (logged d)) k (register (oplog_put lop d) k)"
    using register_newest [of "oplog_put lop d" k] logged_put [OF db_okD(2,3,4) [OF assms(1)] assms(2)] by simp
  moreover have "newest op_key hlc (insert (remote_op lop) (logged d)) k (lww_write op_key hlc (remote_op lop) (register d) k)"
    by (intro newest_write register_newest db_okD(2) [OF assms(1)])
  moreover have "inj_on hlc (insert (remote_op lop) (logged d))"
    using db_okD(3,4) [OF assms(1)] assms(2) inj_on_subset [of hlc W] by blast
  ultimately show "register (oplog_put lop d) k = lww_write op_key hlc (remote_op lop) (register d) k"
    by (metis newest_unique)
qed

text \<open>Writing an operation newer than the register of its entity: the row and the log entry
  together keep the invariant.\<close>

definition write_row :: "Operation \<Rightarrow> docket_db \<Rightarrow> docket_db" where
  "write_row op d =
     (case content op of
        None \<Rightarrow> table_delete (entity op) (entityId op) d
      | Some v \<Rightarrow> table_put (entity op) v d)"

lemma write_row_simps [simp]: "oplog (write_row op d) = oplog d" "meta (write_row op d) = meta d"
  by (simp_all add: write_row_def split: option.split)

lemma write_row_get:
  assumes "op_ok op" and "table_ok (tables d e)"
  shows "tget (tables (write_row op d) e) i = (if (e, i) = op_key op then content op else tget (tables d e) i)"
    "table_ok (tables (write_row op d) e)"
  using assms
  by (cases "op_kind op"; auto simp: write_row_def op_key_def op_ok_def content_def split: option.split)+

definition supersedes :: "Operation \<Rightarrow> docket_db \<Rightarrow> bool" where
  "supersedes op d \<longleftrightarrow> (\<forall>old. register d (op_key op) = Some old \<longrightarrow> hlc old < hlc op)"

lemma write_ok:
  assumes "db_ok W d" and "remote_op lop \<in> W" and "supersedes (remote_op lop) d"
  defines "d' \<equiv> oplog_put lop (write_row (remote_op lop) d)"
  shows "db_ok W d'" "register d' = (register d)(op_key (remote_op lop) \<mapsto> remote_op lop)"
    "logged d' = insert (remote_op lop) (logged d)"
proof -
  let ?op = "remote_op lop"
  have op: "op_ok ?op" using db_okD(5) [OF assms(1,2)] .
  have log: "oplog d' = oplog (oplog_put lop d)" by (simp add: d'_def)
  have reg: "register d' = (register d)(op_key ?op \<mapsto> ?op)"
    using register_put [OF assms(1,2)] register_cong [OF log] assms(3)
    by (auto simp: lww_write_def supersedes_def split: option.split)
  then show "register d' = (register d)(op_key ?op \<mapsto> ?op)" .
  show lg: "logged d' = insert ?op (logged d)"
    using logged_put [OF db_okD(2,3,4) [OF assms(1)] assms(2)] log by (simp add: logged_def)
  have "log_ok d'" using log_ok_put [OF db_okD(2) [OF assms(1)]] op_ok_stamp [OF op] log by (simp add: log_ok_def)
  moreover have "tget (tables d' e) i = rows_of d' e i" "table_ok (tables d' e)" for e i
    using write_row_get [OF op db_okD(7) [OF assms(1)]] db_okD(6) [OF assms(1)] reg
    by (simp_all add: d'_def rows_of_def)
  ultimately show "db_ok W d'" using assms(1,2) lg by (simp add: db_ok_def d'_def)
qed

lemma merge_op_eq:
  assumes "db_ok W d" and "op \<in> W"
  shows "merge_op op d =
    (if supersedes op d then (oplog_put (local_op True op) (write_row op d), True) else (d, False))"
proof -
  have ne: "hlc op' \<noteq> []" if "register d k = Some op'" for op' k
    using register_mem [OF assms(1) that] db_okD(5) [OF assms(1)] op_ok_stamp by blast
  have skip: "(case latestStampFor d (entity op) (entityId op) of
            None \<Rightarrow> False | Some latest \<Rightarrow> latest \<noteq> [] \<and> compareHlc (hlc op) latest \<le> 0) \<longleftrightarrow> \<not> supersedes op d"
    unfolding latest_register [OF db_okD(2) [OF assms(1)]] supersedes_def
    by (cases "register d (op_key op)") (auto simp: ne not_le)
  show ?thesis unfolding merge_op_def skip write_row_def content_def
    using db_okD(5) [OF assms] by (cases "op_kind op") (auto simp: op_ok_def)
qed

interpretation lww: replica op_key hlc "\<lambda>op d. fst (merge_op op d)" register db_ok
proof
  fix W d op k
  assume ok: "db_ok W d"
  show "inj_on hlc W" by (rule db_okD(4) [OF ok])
  show "register d k = Some op \<Longrightarrow> op \<in> W \<and> op_key op = k" using register_mem [OF ok] by blast
  assume op: "op \<in> W"
  show "db_ok W (fst (merge_op op d))"
    using merge_op_eq [OF ok op] write_ok(1) [OF ok, of "local_op True op"] op ok by simp
  show "register (fst (merge_op op d)) = lww_write op_key hlc op (register d)"
    using merge_op_eq [OF ok op] write_ok(2) [OF ok, of "local_op True op"] op
    by (auto simp: lww_write_def supersedes_def not_less split: option.split)
qed

section \<open>Batches\<close>

abbreviation apply_op :: "Operation \<Rightarrow> docket_db \<Rightarrow> docket_db" where
  "apply_op \<equiv> \<lambda>op d. fst (merge_op op d)"

lemma merge_loop_fold: "fst (merge_loop xs (d, n)) = fold apply_op xs d"
  by (induction xs arbitrary: d n) (auto split: prod.split)

lemma persistClock_simps [simp]: "register (persistClock clk d) = register d"
  "logged (persistClock clk d) = logged d" "rows_of (persistClock clk d) = rows_of d"
  using register_cong [of "persistClock clk d" d] rows_of_cong [of "persistClock clk d" d]
  by (simp_all add: logged_def)

lemma persistClock_ok [simp]: "db_ok W d \<Longrightarrow> db_ok W (persistClock clk d)"
  by (simp add: db_ok_def log_ok_def) (simp add: persistClock_def)

lemma merge_cases:
  assumes "led_clock l = Some clk"
  obtains n where "merge xs l = (Inr n, if xs = [] then l
    else l\<lparr>led_db := persistClock clk (fold apply_op (sort_key hlc xs) (led_db l))\<rparr>)"
proof -
  obtain d n where loop: "merge_loop (sort_key hlc xs) (led_db l, 0) = (d, n)" by fastforce
  then have d: "d = fold apply_op (sort_key hlc xs) (led_db l)"
    using merge_loop_fold [of "sort_key hlc xs" "led_db l" 0] by simp
  show thesis
  proof (rule that)
    show "merge xs l = (Inr (if xs = [] then 0 else n), if xs = [] then l
      else l\<lparr>led_db := persistClock clk (fold apply_op (sort_key hlc xs) (led_db l))\<rparr>)"
      using assms loop by (simp add: merge_def d)
  qed
qed

text \<open>The registers determine the tables.\<close>

lemma tables_determined:
  assumes "db_ok W d" and "db_ok W' d'" and "register d = register d'"
  shows "tables d = tables d'"
proof
  fix e
  show "tables d e = tables d' e"
    using db_okD(6,7) [OF assms(1)] db_okD(6,7) [OF assms(2)] assms(3)
    by (intro table_eqI) (simp_all add: rows_of_def)
qed

lemma known_logged: "db_ok W d \<Longrightarrow> lww.known d \<subseteq> logged d"
  using register_mem by (auto simp: lww.known_def)

lemma logged_dominated:
  assumes "db_ok W d" and "op \<in> logged d"
  shows "\<exists>op' \<in> lww.known d. op_key op' = op_key op \<and> hlc op \<le> hlc op'"
  using register_newest [OF db_okD(2) [OF assms(1)], of "op_key op"] assms(2)
  by (auto simp: newest_def lww.known_def split: option.splits) (metis surj_pair)

text \<open>The state of a ledger after a merge, in the terms of the abstract registers.\<close>

lemma merge_result:
  assumes "db_ok W (led_db l)" and "led_clock l = Some clk" and "set xs \<subseteq> W" and "merge xs l = (r, l')"
  shows "db_ok W (led_db l')" "register (led_db l') = register (fold apply_op (sort_key hlc xs) (led_db l))"
    "led_clock l' = Some clk" "\<exists>n. r = Inr n"
proof -
  obtain n where m: "merge xs l = (Inr n, if xs = [] then l
    else l\<lparr>led_db := persistClock clk (fold apply_op (sort_key hlc xs) (led_db l))\<rparr>)"
    using merge_cases [OF assms(2)] .
  show "led_clock l' = Some clk" "\<exists>n. r = Inr n" using m assms(2,4) by auto
  have "db_ok W (fold apply_op (sort_key hlc xs) (led_db l))" using assms(1,3) by (intro lww.ok_fold) simp_all
  then show "db_ok W (led_db l')" "register (led_db l') = register (fold apply_op (sort_key hlc xs) (led_db l))"
    using m assms(4,1) by (auto split: if_splits)
qed

section \<open>The clock never falls behind the log\<close>

text \<open>A stamp that is at least every stamp the device has logged or issued.\<close>

definition covers :: "Operation set \<Rightarrow> string \<Rightarrow> docket_db \<Rightarrow> string \<Rightarrow> bool" where
  "covers W dev d r \<longleftrightarrow> (\<forall>op \<in> logged d. hlc op \<le> r) \<and> (\<forall>op \<in> W. op_device op = dev \<longrightarrow> hlc op \<le> r)"

definition clock_covers :: "Operation set \<Rightarrow> docket_db \<Rightarrow> clock \<Rightarrow> bool" where
  "clock_covers W d clk \<longleftrightarrow> clock_ok clk \<and> covers W (clk_device clk) d (reading clk)"

text \<open>The invariant of a running ledger: the running clock covers the log, and so does the clock
  that a restart would restore.\<close>

definition ledger_ok :: "Operation set \<Rightarrow> string \<Rightarrow> ledger \<Rightarrow> bool" where
  "ledger_ok W dev l \<longleftrightarrow>
     db_ok W (led_db l) \<and>
     (\<exists>clk. led_clock l = Some clk \<and> clk_device clk = dev \<and> clock_covers W (led_db l) clk) \<and>
     clock_covers W (led_db l) (new_clock dev (stored_clock (led_db l)))"

lemma restart_ok: "ledger_ok W dev l \<Longrightarrow> ledger_ok W dev (initialise dev l)"
  by (auto simp: ledger_ok_def initialise_def new_clock_def)

lemma stored_clock_persist [simp]:
  "table_ok (meta d) \<Longrightarrow> stored_clock (persistClock clk d) = Some (clk_state clk)"
  by (simp add: stored_clock_def persistClock_def snapshot_def)

lemma reading_new_clock [simp]: "reading (new_clock (clk_device clk) (Some (clk_state clk))) = reading clk"
  "clock_ok (new_clock (clk_device clk) (Some (clk_state clk))) = clock_ok clk"
  "clk_device (new_clock dev st) = dev"
  by (simp_all add: reading_def new_clock_def clock_ok_def)

lemma ledger_ok_persisted:
  assumes "db_ok W d" and "clock_covers W d clk"
  shows "ledger_ok W (clk_device clk) (l\<lparr>led_db := persistClock clk d, led_clock := Some clk\<rparr>)"
proof -
  have "table_ok (meta d)" using assms(1) by (simp add: db_ok_def)
  then show ?thesis using assms by (auto simp: ledger_ok_def clock_covers_def covers_def)
qed

lemma tick_fresh:
  assumes "db_ok W d" and "clock_covers W d clk" and "wall < 10 ^ 19" and "tick wall clk = (Inr stamp, clk')"
  shows "clock_ok clk'" "stamp = reading clk'" "clk_device clk' = clk_device clk"
    "stamp \<notin> hlc ` W" "op \<in> logged d \<Longrightarrow> hlc op < stamp"
    "op \<in> W \<Longrightarrow> op_device op = clk_device clk \<Longrightarrow> hlc op < stamp"
proof -
  have clk: "clock_ok clk'" "reading clk < stamp"
    using tick_ok [OF _ assms(3,4)] assms(2) by (auto simp: clock_covers_def)
  have rd: "stamp = reading clk'" "clk_device clk' = clk_device clk" using tick_reading [OF assms(4)] by simp_all
  show "clock_ok clk'" "stamp = reading clk'" "clk_device clk' = clk_device clk" by fact+
  show "op \<in> logged d \<Longrightarrow> hlc op < stamp"
    using assms(2) clk(2) by (force simp: clock_covers_def covers_def)
  have own: "hlc op < stamp" if "op \<in> W" "op_device op = clk_device clk" for op
    using assms(2) clk(2) that by (force simp: clock_covers_def covers_def)
  then show "op \<in> W \<Longrightarrow> op_device op = clk_device clk \<Longrightarrow> hlc op < stamp" .
  show "stamp \<notin> hlc ` W"
  proof
    assume "stamp \<in> hlc ` W"
    then obtain op where op: "op \<in> W" "hlc op = stamp" by blast
    obtain st :: hlc_state where "state_ok st" "hlc op = encodeHlc st (op_device op)" "device_ok (op_device op)"
      using db_okD(5) [OF assms(1) op(1)] by (auto simp: op_ok_def)
    then have "decodeHlc stamp = Inr \<lparr>physical = physical st, counter = counter st, device = op_device op\<rparr>"
      using decode_encode op(2) by metis
    moreover have "decodeHlc stamp = Inr \<lparr>physical = physical (clk_state clk'), counter = counter (clk_state clk'),
        device = clk_device clk'\<rparr>"
      unfolding rd(1) reading_def using clk(1) by (intro decode_encode) (simp_all add: clock_ok_def)
    ultimately have "op_device op = clk_device clk" using rd(2) by simp
    from own [OF op(1) this] op(2) show False by simp
  qed
qed

lemma db_ok_insert:
  assumes "db_ok W d" and "op_ok op" and "hlc op \<notin> hlc ` W"
  shows "db_ok (insert op W) d"
proof -
  have "history (insert op W)" using assms db_okD(1) [OF assms(1)] by (simp add: history_def) blast
  moreover have "logged d \<subseteq> insert op W" using db_okD(3) [OF assms(1)] by blast
  ultimately show ?thesis using assms(1) by (simp add: db_ok_def)
qed

text \<open>A local write, of a put or of a delete.\<close>

definition logged_write :: "clock \<Rightarrow> LocalOperation \<Rightarrow> ledger \<Rightarrow> ledger" where
  "logged_write clk lop l =
     l\<lparr>led_db := persistClock clk (oplog_put lop (write_row (remote_op lop) (led_db l))), led_clock := Some clk\<rparr>"

lemma logged_write_ok:
  assumes "ledger_ok W dev l" and "led_clock l = Some clk" and "wall < 10 ^ 19"
    and tick: "tick wall clk = (Inr (hlc lop), clk')" and dev: "op_device lop = clk_device clk'"
    and val: "op_kind lop = Put \<longrightarrow> (\<exists>v. op_value lop = Some v \<and> entity_of v = entity lop \<and> entity_id v = entityId lop)"
  defines "op \<equiv> remote_op lop" and "l' \<equiv> logged_write clk' lop l"
  shows "ledger_ok (insert op W) dev l'" "op \<notin> W"
    "register (led_db l') = (register (led_db l))(op_key op \<mapsto> op)" "logged (led_db l') = insert op (logged (led_db l))"
proof -
  have db: "db_ok W (led_db l)" "clock_covers W (led_db l) clk" "clk_device clk = dev"
    using assms(1,2) by (auto simp: ledger_ok_def)
  note t = tick_fresh [OF db(1,2) assms(3) tick]
  have "state_ok (clk_state clk')" "device_ok (clk_device clk')" using t(1) by (simp_all add: clock_ok_def)
  moreover have "hlc lop = encodeHlc (clk_state clk') (clk_device clk')" using t(2) by (simp add: reading_def)
  ultimately have op: "op_ok op" using dev val unfolding op_ok_def op_def by auto
  show "op \<notin> W" using t(4) by (force simp: op_def)
  have ext: "db_ok (insert op W) (led_db l)" using db_ok_insert [OF db(1) op] t(4) by (simp add: op_def)
  have sup: "supersedes op (led_db l)"
    using register_mem [OF db(1)] t(5) by (fastforce simp: supersedes_def op_def)
  note w = write_ok [OF ext, of lop, folded op_def, OF insertI1 sup]
  show "register (led_db l') = (register (led_db l))(op_key op \<mapsto> op)" "logged (led_db l') = insert op (logged (led_db l))"
    using w(2,3) by (simp_all add: l'_def logged_write_def op_def)
  have "clock_covers (insert op W) (oplog_put lop (write_row op (led_db l))) clk'"
    using t w(3) by (auto simp: clock_covers_def covers_def op_def less_imp_le dev)
  from ledger_ok_persisted [OF w(1) this, of l] show "ledger_ok (insert op W) dev l'"
    using t(3) db(3) by (simp add: l'_def logged_write_def op_def)
qed

lemma ledger_okE [elim?]:
  assumes "ledger_ok W dev l"
  obtains clk where "led_clock l = Some clk" "clk_device clk = dev" "db_ok W (led_db l)" "clock_covers W (led_db l) clk"
  using assms by (auto simp: ledger_ok_def)

lemma put_Inr:
  assumes "led_clock l = Some clk" and "put wall e v l = (Inr v', l')"
  obtains stamp clk' where "tick wall clk = (Inr stamp, clk')" "v' = with_updatedAt stamp v"
    "l' = logged_write clk' \<lparr>hlc = stamp, entity = e, entityId = entity_id v, op_kind = Put,
       op_value = Some v', op_device = clk_device clk', synced = False\<rparr> l"
  using assms
  by (auto simp: put_def Let_def logged_write_def write_row_def content_def split: prod.splits sum.splits)

lemma remove_Inr:
  assumes "led_clock l = Some clk" and "remove wall e i l = (Inr u, l')"
  obtains stamp clk' where "tick wall clk = (Inr stamp, clk')"
    "l' = logged_write clk' \<lparr>hlc = stamp, entity = e, entityId = i, op_kind = Delete,
       op_value = None, op_device = clk_device clk', synced = False\<rparr> l"
  using assms
  by (auto simp: remove_def Let_def logged_write_def write_row_def content_def split: prod.splits sum.splits)

section \<open>Receiving operations\<close>

lemma observe_all_ok:
  assumes "clock_ok clk" and "\<And>j. now j + MAX_DRIFT_MS < 10 ^ 19"
    and "\<And>s. s \<in> set ss \<Longrightarrow> \<exists>st :: hlc_state. \<exists>rd. state_ok st \<and> device_ok rd \<and> s = encodeHlc st rd"
    and "observe_all now i ss clk = (r, clk')"
  shows "clock_ok clk' \<and> reading clk \<le> reading clk' \<and> clk_device clk' = clk_device clk \<and>
    (r = Inr () \<longrightarrow> (\<forall>s \<in> set ss. s \<le> reading clk'))"
  using assms(1,3,4)
proof (induction ss arbitrary: i clk)
  case (Cons s ss)
  obtain q mid where q: "observe (now i) s clk = (q, mid)" by fastforce
  obtain st :: hlc_state and rd where s: "state_ok st" "device_ok rd" "s = encodeHlc st rd"
    using Cons.prems(2) [of s] by auto
  show ?case
  proof (cases q)
    case (Inl err)
    with q Cons.prems observe_error [of "now i" s clk err mid] show ?thesis by auto
  next
    case (Inr t)
    have mid: "clock_ok mid" "reading clk < t" "s < t" "t = reading mid" "clk_device mid = clk_device clk"
      using observe_ok [OF Cons.prems(1) assms(2) s(1,2)] observe_reading q Inr s(3) by blast+
    with Cons.IH [OF mid(1), of "Suc i"] Cons.prems q Inr show ?thesis by force
  qed
qed simp

lemma covers_mono: "covers W dev d r \<Longrightarrow> r \<le> r' \<Longrightarrow> covers W dev d r'"
  by (auto simp: covers_def intro: order_trans)

lemma op_ok_encoded: "op_ok op \<Longrightarrow> \<exists>st :: hlc_state. \<exists>rd. state_ok st \<and> device_ok rd \<and> hlc op = encodeHlc st rd"
  by (auto simp: op_ok_def)

lemma observeStamps_ok:
  assumes "ledger_ok W dev l" and "\<And>j. now j + MAX_DRIFT_MS < 10 ^ 19" and "ss \<subseteq> hlc ` W" and "set xs = ss"
    and "observeStamps now xs l = (r, l')"
  shows "ledger_ok W dev l' \<and> led_db l' = led_db l \<and>
    (r = Inr () \<longrightarrow> (\<forall>clk. led_clock l' = Some clk \<longrightarrow> (\<forall>s \<in> ss. s \<le> reading clk)))"
proof -
  from assms(1) obtain clk where clk: "led_clock l = Some clk" "clk_device clk = dev" "db_ok W (led_db l)"
    "clock_covers W (led_db l) clk" by (rule ledger_okE)
  obtain q clk' where q: "observe_all now 0 xs clk = (q, clk')" by fastforce
  have enc: "\<exists>st :: hlc_state. \<exists>rd. state_ok st \<and> device_ok rd \<and> s = encodeHlc st rd" if "s \<in> set xs" for s
    using that assms(3,4) db_okD(5) [OF clk(3)] op_ok_encoded by blast
  have obs: "clock_ok clk'" "reading clk \<le> reading clk'" "clk_device clk' = clk_device clk"
    "q = Inr () \<longrightarrow> (\<forall>s \<in> set xs. s \<le> reading clk')"
    using observe_all_ok [OF _ assms(2) enc q] clk(4) by (simp_all add: clock_covers_def)
  have l': "l' = l\<lparr>led_clock := Some clk'\<rparr>" "r = q" using assms(5) clk(1) q by (simp_all add: observeStamps_def)
  have "clock_covers W (led_db l) clk'" using clk(4) obs covers_mono by (auto simp: clock_covers_def)
  then have "ledger_ok W dev l'" using assms(1) clk(2) obs(3) by (auto simp: ledger_ok_def l')
  then show ?thesis using obs(4) l' assms(4) by simp
qed

lemma logged_merge_op: "db_ok W d \<Longrightarrow> op \<in> W \<Longrightarrow> logged (fst (merge_op op d)) \<subseteq> insert op (logged d)"
  using merge_op_eq [of W d op] write_ok(3) [of W d "local_op True op"] by auto

lemma logged_fold: "db_ok W d \<Longrightarrow> set xs \<subseteq> W \<Longrightarrow> logged (fold apply_op xs d) \<subseteq> logged d \<union> set xs"
proof (induction xs arbitrary: d)
  case (Cons x xs)
  with lww.ok_apply [of W d x] logged_merge_op [of W d x] show ?case by fastforce
qed simp

lemma merge_ok:
  assumes "ledger_ok W dev l" and "set xs \<subseteq> W" and "merge xs l = (r, l')"
    and "\<And>clk. led_clock l = Some clk \<Longrightarrow> \<forall>op \<in> set xs. hlc op \<le> reading clk"
  shows "ledger_ok W dev l'" "\<exists>n. r = Inr n"
proof -
  from assms(1) obtain clk where clk: "led_clock l = Some clk" "clk_device clk = dev" "db_ok W (led_db l)"
    "clock_covers W (led_db l) clk" by (rule ledger_okE)
  let ?d = "fold apply_op (sort_key hlc xs) (led_db l)"
  obtain n where m: "merge xs l = (Inr n, if xs = [] then l else l\<lparr>led_db := persistClock clk ?d\<rparr>)"
    using merge_cases [OF clk(1)] .
  then show "\<exists>n. r = Inr n" using assms(3) by simp
  have "db_ok W ?d" using clk(3) assms(2) by (intro lww.ok_fold) simp_all
  moreover have "logged ?d \<subseteq> logged (led_db l) \<union> set xs" using logged_fold [OF clk(3), of "sort_key hlc xs"] assms(2) by simp
  then have "clock_covers W ?d clk" using clk(4) assms(4) [OF clk(1)] by (auto simp: clock_covers_def covers_def)
  ultimately have "ledger_ok W dev (l\<lparr>led_db := persistClock clk ?d, led_clock := Some clk\<rparr>)"
    using ledger_ok_persisted [of W ?d clk l] clk(2) by simp
  moreover have "l\<lparr>led_db := d, led_clock := Some clk\<rparr> = l\<lparr>led_db := d\<rparr>" for d using clk(1) by (cases l) simp
  ultimately show "ledger_ok W dev l'" using m assms(1,3) by (cases "xs = []") simp_all
qed

text \<open>Marking operations as pushed changes nothing but the flag.\<close>

definition mark :: "string \<Rightarrow> docket_db \<Rightarrow> docket_db" where
  "mark s d = d\<lparr>oplog := tupdate s (\<lambda>lop. lop\<lparr>synced := True\<rparr>) (oplog d)\<rparr>"

lemma markSynced_fold: "markSynced ss d = fold mark ss d"
proof (induction ss arbitrary: d)
  case (Cons s ss)
  have "markSynced (s # ss) d = markSynced ss (mark s d)" by (simp add: markSynced_def mark_def)
  with Cons.IH show ?case by simp
qed (simp add: markSynced_def)

lemma mark_mem: "(k, lop) \<in> set (oplog (mark s d)) \<longleftrightarrow>
    (\<exists>lop'. (k, lop') \<in> set (oplog d) \<and> lop = (if k = s then lop'\<lparr>synced := True\<rparr> else lop'))"
  by (force simp: mark_def tupdate_def image_iff)

lemma mark_stamps: "stamps_for (mark s d) e i = stamps_for d e i"
proof -
  have "map fst (filter P (tupdate s f t)) = map fst (filter P t)" if "\<And>k v. P (k, f v) = P (k, v)" for P f and t :: "LocalOperation tbl"
    by (induction t) (auto simp: tupdate_def that split: if_splits)
  then show ?thesis by (simp add: stamps_for_def mark_def)
qed

lemma mark_register: "register (mark s d) k = register d k"
proof -
  have "map_option remote_op (tget (oplog (mark s d)) t) = map_option remote_op (tget (oplog d) t)" for t
    by (simp add: mark_def option.map_comp comp_def)
  then show ?thesis unfolding register_def latestStampFor_def mark_stamps by (simp cong: option.case_cong)
qed

lemma mark_logged: "logged (mark s d) = logged d"
proof -
  have "map remote_op (toArray (oplog (mark s d))) = map remote_op (toArray (oplog d))"
    by (auto simp: toArray_def mark_def tupdate_def)
  from arg_cong [OF this, of set] show ?thesis by (simp add: logged_def toArray_def image_image)
qed

lemma mark_log_ok: "log_ok d \<Longrightarrow> log_ok (mark s d)"
  unfolding log_ok_def by (auto simp: mark_mem) (auto simp: mark_def)

lemma mark_ok: "db_ok W d \<Longrightarrow> db_ok W (mark s d)"
  by (auto simp: db_ok_def mark_log_ok mark_logged rows_of_def mark_register) (auto simp: mark_def)

lemma markSynced_ok:
  assumes "db_ok W d"
  shows "db_ok W (markSynced ss d)" "tables (markSynced ss d) = tables d" "logged (markSynced ss d) = logged d"
    "meta (markSynced ss d) = meta d" "remoteObjects (markSynced ss d) = remoteObjects d"
proof -
  show "db_ok W (markSynced ss d)" unfolding markSynced_fold using assms
    by (induction ss arbitrary: d) (simp_all add: mark_ok)
  show "logged (markSynced ss d) = logged d" unfolding markSynced_fold
    by (induction ss arbitrary: d) (simp_all add: mark_logged)
qed (simp_all add: markSynced_def)

text \<open>Exactly the named operations become synced.\<close>

lemma markSynced_get:
  "tget (oplog (markSynced ss d)) k = map_option (\<lambda>lop. if k \<in> set ss then lop\<lparr>synced := True\<rparr> else lop) (tget (oplog d) k)"
proof (induction ss arbitrary: d)
  case (Cons s ss)
  then show ?case by (cases "tget (oplog d) k") (auto simp: markSynced_fold mark_def)
qed (simp add: markSynced_def option.map_ident)

lemma ledger_ok_markSynced:
  assumes "ledger_ok W dev l"
  shows "ledger_ok W dev (l\<lparr>led_db := markSynced ss (led_db l)\<rparr>)"
proof -
  have "db_ok W (led_db l)" using assms by (simp add: ledger_ok_def)
  note m = markSynced_ok [OF this, of ss]
  then show ?thesis using assms by (simp add: ledger_ok_def clock_covers_def covers_def stored_clock_def)
qed

end
