(* ===== verification/Repo.thy ===== *)
theory Repo
  imports Ledger
begin

text \<open>
  Typed access to the entity tables, as the generated \<open>Table<Account, string>\<close> properties of
  \<open>DocketDb\<close> give it: \<open>get\<close> by key and \<open>toArray\<close> in key order. A row of another entity never
  stands in a table of a ledger that satisfies its invariant.
\<close>

primrec as_group :: "AnyEntity \<Rightarrow> AccountGroup option" where
  "as_group (AccountGroupRow r) = Some r" | "as_group (AccountRow _) = None" | "as_group (CategoryRow _) = None"
| "as_group (TransactionRow _) = None" | "as_group (BudgetRow _) = None" | "as_group (RecurringRuleRow _) = None"
| "as_group (RateRow _) = None" | "as_group (VaultSettingsRow _) = None"

primrec as_account :: "AnyEntity \<Rightarrow> Account option" where
  "as_account (AccountRow r) = Some r" | "as_account (AccountGroupRow _) = None" | "as_account (CategoryRow _) = None"
| "as_account (TransactionRow _) = None" | "as_account (BudgetRow _) = None" | "as_account (RecurringRuleRow _) = None"
| "as_account (RateRow _) = None" | "as_account (VaultSettingsRow _) = None"

primrec as_category :: "AnyEntity \<Rightarrow> Category option" where
  "as_category (CategoryRow r) = Some r" | "as_category (AccountGroupRow _) = None" | "as_category (AccountRow _) = None"
| "as_category (TransactionRow _) = None" | "as_category (BudgetRow _) = None" | "as_category (RecurringRuleRow _) = None"
| "as_category (RateRow _) = None" | "as_category (VaultSettingsRow _) = None"

primrec as_transaction :: "AnyEntity \<Rightarrow> Transaction option" where
  "as_transaction (TransactionRow r) = Some r" | "as_transaction (AccountGroupRow _) = None"
| "as_transaction (AccountRow _) = None" | "as_transaction (CategoryRow _) = None" | "as_transaction (BudgetRow _) = None"
| "as_transaction (RecurringRuleRow _) = None" | "as_transaction (RateRow _) = None" | "as_transaction (VaultSettingsRow _) = None"

primrec as_budget :: "AnyEntity \<Rightarrow> Budget option" where
  "as_budget (BudgetRow r) = Some r" | "as_budget (AccountGroupRow _) = None" | "as_budget (AccountRow _) = None"
| "as_budget (CategoryRow _) = None" | "as_budget (TransactionRow _) = None" | "as_budget (RecurringRuleRow _) = None"
| "as_budget (RateRow _) = None" | "as_budget (VaultSettingsRow _) = None"

primrec as_rule :: "AnyEntity \<Rightarrow> RecurringRule option" where
  "as_rule (RecurringRuleRow r) = Some r" | "as_rule (AccountGroupRow _) = None" | "as_rule (AccountRow _) = None"
| "as_rule (CategoryRow _) = None" | "as_rule (TransactionRow _) = None" | "as_rule (BudgetRow _) = None"
| "as_rule (RateRow _) = None" | "as_rule (VaultSettingsRow _) = None"

primrec as_rate :: "AnyEntity \<Rightarrow> ExchangeRate option" where
  "as_rate (RateRow r) = Some r" | "as_rate (AccountGroupRow _) = None" | "as_rate (AccountRow _) = None"
| "as_rate (CategoryRow _) = None" | "as_rate (TransactionRow _) = None" | "as_rate (BudgetRow _) = None"
| "as_rate (RecurringRuleRow _) = None" | "as_rate (VaultSettingsRow _) = None"

primrec as_settings :: "AnyEntity \<Rightarrow> VaultSettings option" where
  "as_settings (VaultSettingsRow r) = Some r" | "as_settings (AccountGroupRow _) = None" | "as_settings (AccountRow _) = None"
| "as_settings (CategoryRow _) = None" | "as_settings (TransactionRow _) = None" | "as_settings (BudgetRow _) = None"
| "as_settings (RecurringRuleRow _) = None" | "as_settings (RateRow _) = None"

definition rows :: "(AnyEntity \<Rightarrow> 'a option) \<Rightarrow> EntityName \<Rightarrow> docket_db \<Rightarrow> 'a list" where
  "rows as e d = List.map_filter as (toArray (tables d e))"

definition row :: "(AnyEntity \<Rightarrow> 'a option) \<Rightarrow> EntityName \<Rightarrow> docket_db \<Rightarrow> string \<Rightarrow> 'a option" where
  "row as e d i = Option.bind (tget (tables d e) i) as"

abbreviation "group_rows \<equiv> rows as_group AccountGroups"
abbreviation "account_rows \<equiv> rows as_account Accounts"
abbreviation "category_rows \<equiv> rows as_category Categories"
abbreviation "transaction_rows \<equiv> rows as_transaction Transactions"
abbreviation "budget_rows \<equiv> rows as_budget Budgets"
abbreviation "rule_rows \<equiv> rows as_rule RecurringRules"
abbreviation "rate_rows \<equiv> rows as_rate Rates"

abbreviation "get_group \<equiv> row as_group AccountGroups"
abbreviation "get_account \<equiv> row as_account Accounts"
abbreviation "get_category \<equiv> row as_category Categories"
abbreviation "get_transaction \<equiv> row as_transaction Transactions"
abbreviation "get_budget \<equiv> row as_budget Budgets"
abbreviation "get_rule \<equiv> row as_rule RecurringRules"
abbreviation "get_rate \<equiv> row as_rate Rates"

definition get_settings :: "docket_db \<Rightarrow> VaultSettings option" where
  "get_settings d = row as_settings VaultSettingsTable d ''vault''"

lemma rows_cong: "tables d e = tables d' e \<Longrightarrow> rows as e d = rows as e d'"
  by (simp add: rows_def)

lemma rows_mem:
  assumes "table_ok (tables d e)"
  shows "x \<in> set (rows as e d) \<longleftrightarrow> (\<exists>i. row as e d i = Some x)"
proof -
  have "x \<in> set (rows as e d) \<longleftrightarrow> (\<exists>k v. (k, v) \<in> set (tables d e) \<and> as v = Some x)"
    by (force simp: rows_def toArray_def List.map_filter_def)
  also have "\<dots> \<longleftrightarrow> (\<exists>i. row as e d i = Some x)"
    using tget_mem [OF assms] by (auto simp: row_def bind_eq_Some_conv)
  finally show ?thesis .
qed

end
