(* ===== verification/Vault.thy ===== *)
theory Vault
  imports Ledger
begin

text \<open>
  The devices of one vault. Each runs its own ledger; they exchange operations in batches of any
  size, order and repetition. The step relation interleaves local writes, the receipt of a
  batch (\<open>observeStamps\<close> followed by \<open>merge\<close>, as the pull of \<open>core/sync/sync.service.ts\<close> does),
  the bookkeeping of pushes and restarts. The theorems are the promises of
  \<open>core/models/oplog.ts\<close> and \<open>core/repositories/ledger.service.ts\<close>: the invariant of every
  ledger, convergence, idempotence and the effect of tombstones.
\<close>

section \<open>The steps of a vault\<close>

type_synonym vault = "string \<Rightarrow> ledger"

definition receive :: "(nat \<Rightarrow> nat) \<Rightarrow> Operation list \<Rightarrow> (ledger, nat) call" where
  "receive now xs = andThen (observeStamps now (map hlc xs)) (\<lambda>_. merge xs)"

definition issued :: "string set \<Rightarrow> vault \<Rightarrow> Operation set" where
  "issued D L = (\<Union>dev \<in> D. logged (led_db (L dev)))"

definition plausible :: "nat \<Rightarrow> bool" where
  "plausible wall \<longleftrightarrow> wall + MAX_DRIFT_MS < 10 ^ PHYSICAL_WIDTH"

inductive vault_step :: "string set \<Rightarrow> vault \<Rightarrow> vault \<Rightarrow> bool" for D where
  local_put: "\<lbrakk>dev \<in> D; plausible wall; entity_of v = e; put wall e v (L dev) = (r, l')\<rbrakk>
    \<Longrightarrow> vault_step D L (L(dev := l'))"
| local_remove: "\<lbrakk>dev \<in> D; plausible wall; remove wall e i (L dev) = (r, l')\<rbrakk>
    \<Longrightarrow> vault_step D L (L(dev := l'))"
| received: "\<lbrakk>dev \<in> D; \<And>j. plausible (now j); set xs \<subseteq> issued D L; receive now xs (L dev) = (r, l')\<rbrakk>
    \<Longrightarrow> vault_step D L (L(dev := l'))"
| pushed: "dev \<in> D \<Longrightarrow> vault_step D L (L(dev := (L dev)\<lparr>led_db := markSynced ss (led_db (L dev))\<rparr>))"
| restart: "dev \<in> D \<Longrightarrow> vault_step D L (L(dev := initialise dev (L dev)))"

definition new_ledger :: "string \<Rightarrow> ledger" where
  "new_ledger dev = initialise dev \<lparr>led_db = new_db, led_clock = None\<rparr>"

inductive vault_reachable :: "string set \<Rightarrow> vault \<Rightarrow> bool" for D where
  start: "vault_reachable D new_ledger"
| step: "vault_reachable D L \<Longrightarrow> vault_step D L L' \<Longrightarrow> vault_reachable D L'"

section \<open>Every ledger keeps its invariant\<close>

definition vault_ok :: "string set \<Rightarrow> vault \<Rightarrow> bool" where
  "vault_ok D L \<longleftrightarrow> (\<forall>dev \<in> D. ledger_ok (issued D L) dev (L dev))"

lemma db_ok_extend: "db_ok W d \<Longrightarrow> W \<subseteq> W' \<Longrightarrow> history W' \<Longrightarrow> db_ok W' d"
  unfolding db_ok_def by blast

lemma ledger_ok_extend:
  assumes "ledger_ok W dev l" and "history (insert op W)" and "op_device op \<noteq> dev"
  shows "ledger_ok (insert op W) dev l"
  using assms db_ok_extend [OF _ subset_insertI, of W "led_db l" op]
  by (auto simp: ledger_ok_def clock_covers_def covers_def)

lemma put_error: "put wall e v l = (Inl err, l') \<Longrightarrow> l' = l"
  using tick_error by (cases l) (fastforce simp: put_def Let_def split: option.splits prod.splits sum.splits)

lemma remove_error: "remove wall e i l = (Inl err, l') \<Longrightarrow> l' = l"
  using tick_error by (cases l) (fastforce simp: remove_def Let_def split: option.splits prod.splits sum.splits)

lemma issued_insert:
  assumes "dev \<in> D" and "logged (led_db l') = insert op (logged (led_db (L dev)))"
  shows "issued D (L(dev := l')) = insert op (issued D L)"
  using assms by (auto simp: issued_def split: if_splits)

text \<open>A local write extends the history that every other device is measured against.\<close>

lemma vault_ok_write:
  assumes "vault_ok D L" and "dev \<in> D" and "wall < 10 ^ 19" and "led_clock (L dev) = Some clk"
    and "tick wall clk = (Inr (hlc lop), clk')" and "op_device lop = clk_device clk'"
    and "op_kind lop = Put \<longrightarrow> (\<exists>v. op_value lop = Some v \<and> entity_of v = entity lop \<and> entity_id v = entityId lop)"
  shows "vault_ok D (L(dev := logged_write clk' lop (L dev)))"
proof -
  let ?W = "issued D L" and ?op = "remote_op lop" and ?l = "logged_write clk' lop (L dev)"
  have ok: "ledger_ok ?W dev (L dev)" using assms(1,2) by (simp add: vault_ok_def)
  note w = logged_write_ok [OF ok assms(4,3,5,6,7)]
  have new: "issued D (L(dev := ?l)) = insert ?op ?W" using issued_insert [of dev D ?l ?op L] assms(2) w(4) by simp
  have hist: "history (insert ?op ?W)" using w(1) by (auto simp: ledger_ok_def db_ok_def)
  have "op_device ?op = dev"
    using ok assms(4,6) tick_reading [OF assms(5)] by (auto simp: ledger_ok_def)
  then have "ledger_ok (insert ?op ?W) dev' (L dev')" if "dev' \<in> D" "dev' \<noteq> dev" for dev'
    using ledger_ok_extend [OF _ hist] assms(1) that by (auto simp: vault_ok_def)
  then show ?thesis using w(1) by (simp add: vault_ok_def new)
qed

lemma issued_same:
  assumes "dev \<in> D" and "logged (led_db (L dev)) \<subseteq> logged (led_db l')" and "logged (led_db l') \<subseteq> issued D L"
  shows "issued D (L(dev := l')) = issued D L"
proof (rule antisym)
  show "issued D (L(dev := l')) \<subseteq> issued D L"
    using assms(3) unfolding issued_def by (fastforce split: if_splits)
  have "logged (led_db (L d)) \<subseteq> logged (led_db ((L(dev := l')) d))" for d using assms(2) by simp
  then show "issued D L \<subseteq> issued D (L(dev := l'))" unfolding issued_def by blast
qed

lemma vault_ok_update:
  assumes "vault_ok D L" and "dev \<in> D" and "ledger_ok (issued D L) dev l'" and "logged (led_db (L dev)) \<subseteq> logged (led_db l')"
  shows "vault_ok D (L(dev := l'))"
proof -
  have "logged (led_db l') \<subseteq> issued D L" using assms(3) by (simp add: ledger_ok_def db_ok_def)
  from issued_same [OF assms(2,4) this] show ?thesis using assms by (auto simp: vault_ok_def)
qed

lemma logged_merge_op_mono: "db_ok W d \<Longrightarrow> op \<in> W \<Longrightarrow> logged d \<subseteq> logged (fst (merge_op op d))"
  using merge_op_eq [of W d op] write_ok(3) [of W d "local_op True op"] by auto

lemma logged_fold_mono: "db_ok W d \<Longrightarrow> set xs \<subseteq> W \<Longrightarrow> logged d \<subseteq> logged (fold apply_op xs d)"
proof (induction xs arbitrary: d)
  case (Cons x xs)
  with lww.ok_apply [of W d x] logged_merge_op_mono [of W d x] show ?case by fastforce
qed simp

lemma merge_grows:
  assumes "ledger_ok W dev l" and "set xs \<subseteq> W" and "merge xs l = (r, l')"
  shows "logged (led_db l) \<subseteq> logged (led_db l')"
proof -
  from assms(1) obtain clk where clk: "led_clock l = Some clk" "db_ok W (led_db l)" by (rule ledger_okE)
  obtain n where "merge xs l = (Inr n, if xs = [] then l
    else l\<lparr>led_db := persistClock clk (fold apply_op (sort_key hlc xs) (led_db l))\<rparr>)"
    using merge_cases [OF clk(1)] .
  then show ?thesis using assms(2,3) logged_fold_mono [OF clk(2), of "sort_key hlc xs"] by (auto split: if_splits)
qed

text \<open>Receiving: on an error the database is untouched; otherwise everything is merged.\<close>

lemma receive_ok:
  assumes "ledger_ok W dev l" and "\<And>j. plausible (now j)" and "set xs \<subseteq> W" and "receive now xs l = (r, l')"
  shows "ledger_ok W dev l'" "logged (led_db l) \<subseteq> logged (led_db l')"
    "(\<exists>err. r = Inl err \<and> led_db l' = led_db l) \<or>
     (\<exists>n. r = Inr n \<and> register (led_db l') = register (fold apply_op (sort_key hlc xs) (led_db l)))"
proof -
  obtain q l1 where q: "observeStamps now (map hlc xs) l = (q, l1)" by fastforce
  have drift: "now j + MAX_DRIFT_MS < 10 ^ 19" for j using assms(2) [of j] by (simp add: plausible_def PHYSICAL_WIDTH_def)
  have l1: "ledger_ok W dev l1" "led_db l1 = led_db l"
    "q = Inr () \<longrightarrow> (\<forall>clk. led_clock l1 = Some clk \<longrightarrow> (\<forall>s \<in> hlc ` set xs. s \<le> reading clk))"
    using observeStamps_ok [OF assms(1) drift _ _ q, of "hlc ` set xs"] assms(3) by auto
  have "(\<exists>err. q = Inl err \<and> r = Inl err \<and> l' = l1) \<or> q = Inr () \<and> merge xs l1 = (r, l')"
    using assms(4) q by (cases q) (auto simp: receive_def andThen_def)
  then consider (err) err where "r = Inl err" "l' = l1" | (ok) "q = Inr ()" "merge xs l1 = (r, l')" by blast
  then have "ledger_ok W dev l' \<and> logged (led_db l) \<subseteq> logged (led_db l') \<and>
    ((\<exists>err. r = Inl err \<and> led_db l' = led_db l) \<or>
     (\<exists>n. r = Inr n \<and> register (led_db l') = register (fold apply_op (sort_key hlc xs) (led_db l))))"
  proof cases
    case err
    then show ?thesis using l1 by simp
  next
    case ok
    obtain clk where clk: "led_clock l1 = Some clk" "db_ok W (led_db l1)" using l1(1) by (rule ledger_okE)
    have "ledger_ok W dev l'" using merge_ok(1) [OF l1(1) assms(3) ok(2)] l1(3) ok(1) by simp
    then show ?thesis
      using merge_grows [OF l1(1) assms(3) ok(2)] merge_result(2,4) [OF clk(2,1) assms(3) ok(2)] l1(2) by simp
  qed
  then show "ledger_ok W dev l'" "logged (led_db l) \<subseteq> logged (led_db l')"
    "(\<exists>err. r = Inl err \<and> led_db l' = led_db l) \<or>
     (\<exists>n. r = Inr n \<and> register (led_db l') = register (fold apply_op (sort_key hlc xs) (led_db l)))" by blast+
qed

lemma vault_step_ok:
  assumes "vault_step D L L'" and "vault_ok D L"
  shows "vault_ok D L'"
  using assms
proof cases
  case (local_put dev wall v e r l')
  then have ok: "ledger_ok (issued D L) dev (L dev)" using assms(2) by (simp add: vault_ok_def)
  then obtain clk where clk: "led_clock (L dev) = Some clk" by (rule ledger_okE)
  have wall: "wall < 10 ^ 19" using local_put by (simp add: plausible_def PHYSICAL_WIDTH_def)
  show ?thesis
  proof (cases r)
    case (Inl err)
    with local_put put_error assms(2) show ?thesis by (metis fun_upd_triv)
  next
    case (Inr v')
    with local_put(5) have p: "put wall e v (L dev) = (Inr v', l')" by simp
    from put_Inr [OF clk p] obtain stamp clk' where t: "tick wall clk = (Inr stamp, clk')" "v' = with_updatedAt stamp v"
      "l' = logged_write clk' \<lparr>hlc = stamp, entity = e, entityId = entity_id v, op_kind = Put,
       op_value = Some v', op_device = clk_device clk', synced = False\<rparr> (L dev)" .
    show ?thesis unfolding local_put(1) t(3)
      by (rule vault_ok_write [OF assms(2) local_put(2) wall clk]) (use t(1,2) local_put(4) in simp_all)
  qed
next
  case (local_remove dev wall e i r l')
  then have ok: "ledger_ok (issued D L) dev (L dev)" using assms(2) by (simp add: vault_ok_def)
  then obtain clk where clk: "led_clock (L dev) = Some clk" by (rule ledger_okE)
  have wall: "wall < 10 ^ 19" using local_remove by (simp add: plausible_def PHYSICAL_WIDTH_def)
  show ?thesis
  proof (cases r)
    case (Inl err)
    with local_remove remove_error assms(2) show ?thesis by (metis fun_upd_triv)
  next
    case (Inr u)
    with local_remove(4) have p: "remove wall e i (L dev) = (Inr u, l')" by simp
    from remove_Inr [OF clk p] obtain stamp clk' where t: "tick wall clk = (Inr stamp, clk')"
      "l' = logged_write clk' \<lparr>hlc = stamp, entity = e, entityId = i, op_kind = Delete,
       op_value = None, op_device = clk_device clk', synced = False\<rparr> (L dev)" .
    show ?thesis unfolding local_remove(1) t(2)
      by (rule vault_ok_write [OF assms(2) local_remove(2) wall clk]) (use t(1) in simp_all)
  qed
next
  case (received dev now xs r l')
  then have ok: "ledger_ok (issued D L) dev (L dev)" using assms(2) by (simp add: vault_ok_def)
  from receive_ok(1,2) [OF ok received(3,4,5)] received(1,2) assms(2) show ?thesis
    by (simp add: vault_ok_update)
next
  case (pushed dev ss)
  then have ok: "ledger_ok (issued D L) dev (L dev)" using assms(2) by (simp add: vault_ok_def)
  then have "db_ok (issued D L) (led_db (L dev))" by (simp add: ledger_ok_def)
  from markSynced_ok(3) [OF this] ledger_ok_markSynced [OF ok] pushed assms(2) show ?thesis
    by (simp add: vault_ok_update)
next
  case (restart dev)
  then have "ledger_ok (issued D L) dev (L dev)" using assms(2) by (simp add: vault_ok_def)
  from restart_ok [OF this] restart assms(2) show ?thesis by (simp add: vault_ok_update initialise_def)
qed

lemma new_ledger_ok:
  assumes "device_ok dev"
  shows "ledger_ok {} dev (new_ledger dev)"
proof -
  have "db_ok {} new_db"
    by (auto simp: db_ok_def history_def log_ok_def logged_def new_db_def rows_of_def register_def
        latestStampFor_def stamps_for_def)
  moreover have "clock_ok (new_clock dev None)"
    using assms by (simp add: clock_ok_def new_clock_def state_ok_def clock_consts)
  ultimately show ?thesis
    by (simp add: ledger_ok_def new_ledger_def initialise_def stored_clock_def clock_covers_def covers_def
        new_db_def logged_def)
qed

lemma vault_reachable_ok:
  assumes "vault_reachable D L" and "\<forall>dev \<in> D. device_ok dev"
  shows "vault_ok D L"
  using assms(1)
proof induction
  case start
  have "issued D new_ledger = {}" by (simp add: issued_def new_ledger_def initialise_def new_db_def logged_def)
  then show ?case using assms(2) new_ledger_ok by (simp add: vault_ok_def)
next
  case (step L L')
  then show ?case by (blast intro: vault_step_ok)
qed

section \<open>Lemmas for the properties\<close>

lemma receive_converges:
  assumes "ledger_ok W a la" and "ledger_ok W b lb" and "\<And>j. plausible (nowa j)" and "\<And>j. plausible (nowb j)"
    and "receive nowa (map remote_op (allOperations (led_db lb))) la = (Inr m, la')"
    and "receive nowb (map remote_op (allOperations (led_db la))) lb = (Inr n, lb')"
  shows "tables (led_db la') = tables (led_db lb')"
proof -
  let ?da = "led_db la" and ?db = "led_db lb"
  have db: "db_ok W ?da" "db_ok W ?db" using assms(1,2) by (simp_all add: ledger_ok_def)
  have all: "set (map remote_op (allOperations d)) = logged d" for d
    by (simp add: allOperations_def toArray_def logged_def image_image)
  have sub: "set (map remote_op (allOperations ?da)) \<subseteq> W" "set (map remote_op (allOperations ?db)) \<subseteq> W"
    unfolding all using db by (simp_all add: db_ok_def)
  note ra = receive_ok [OF assms(1,3) sub(2) assms(5)] and rb = receive_ok [OF assms(2,4) sub(1) assms(6)]
  let ?xs = "sort_key hlc (map remote_op (allOperations ?db))" and ?ys = "sort_key hlc (map remote_op (allOperations ?da))"
  have sets: "set ?xs = logged ?db" "set ?ys = logged ?da" using all by simp_all
  have "register (fold apply_op ?xs ?da) = register (fold apply_op ?ys ?db)"
    by (rule lww.exchange [OF db]) (use sets sub all known_logged db logged_dominated in auto)
  then have "register (led_db la') = register (led_db lb')" using ra(3) rb(3) by simp
  then show ?thesis using ra(1) rb(1) by (intro tables_determined) (auto simp: ledger_ok_def)
qed

text \<open>Whole batches, one after the other.\<close>

fun merge_all :: "Operation list list \<Rightarrow> ledger \<Rightarrow> ledger" where
  "merge_all [] l = l"
| "merge_all (xs # xss) l = merge_all xss (snd (merge xs l))"

lemma merge_all_ok:
  assumes "db_ok W (led_db l)" and "led_clock l = Some clk" and "set (concat xss) \<subseteq> W"
  shows "db_ok W (led_db (merge_all xss l)) \<and> (\<exists>ys. set ys = set (concat xss) \<and>
    register (led_db (merge_all xss l)) = register (fold apply_op ys (led_db l)))"
  using assms
proof (induction xss arbitrary: l)
  case Nil
  then show ?case by (auto intro: exI [of _ "[]"])
next
  case (Cons xs xss)
  obtain r l1 where m: "merge xs l = (r, l1)" by fastforce
  have sub: "set xs \<subseteq> W" "set (concat xss) \<subseteq> W" using Cons.prems(3) by auto
  note l1 = merge_result [OF Cons.prems(1,2) sub(1) m]
  from Cons.IH [OF l1(1,3) sub(2)] obtain ys where ys: "set ys = set (concat xss)"
    "db_ok W (led_db (merge_all xss l1))" "register (led_db (merge_all xss l1)) = register (fold apply_op ys (led_db l1))"
    by blast
  have fold1: "db_ok W (fold apply_op (sort_key hlc xs) (led_db l))" using Cons.prems(1) sub(1) by (intro lww.ok_fold) simp_all
  have "register (fold apply_op ys (led_db l1)) = register (fold apply_op (sort_key hlc xs @ ys) (led_db l))"
    using lww.fold_cong_register [OF l1(1) fold1 l1(2)] ys(1) sub(2) by simp
  with ys m show ?case by (intro conjI exI [of _ "sort_key hlc xs @ ys"]) simp_all
qed

lemma merge_all_batching:
  assumes "db_ok W (led_db l)" and "led_clock l = Some clk" and "set (concat xss) \<subseteq> W" and "set (concat xss) = set (concat yss)"
  shows "tables (led_db (merge_all xss l)) = tables (led_db (merge_all yss l))"
proof -
  obtain xs where xs: "set xs = set (concat xss)" "db_ok W (led_db (merge_all xss l))"
    "register (led_db (merge_all xss l)) = register (fold apply_op xs (led_db l))"
    using merge_all_ok [OF assms(1-3)] by blast
  obtain ys where ys: "set ys = set (concat xss)" "db_ok W (led_db (merge_all yss l))"
    "register (led_db (merge_all yss l)) = register (fold apply_op ys (led_db l))"
    using merge_all_ok [OF assms(1,2), of yss] assms(3,4) by auto
  have "register (fold apply_op xs (led_db l)) = register (fold apply_op ys (led_db l))"
    using lww.fold_same_set [OF assms(1), of xs ys] xs(1) ys(1) assms(3) by simp
  with xs ys show ?thesis by (intro tables_determined) auto
qed

lemma merge_loop_absorb:
  assumes "db_ok W d" and "\<forall>op \<in> set xs. op \<in> W \<and> \<not> supersedes op d"
  shows "merge_loop xs (d, n) = (d, n)"
  using assms(2) by (induction xs) (auto simp: merge_op_eq [OF assms(1)])

lemma fold_not_supersedes:
  assumes "db_ok W d" and "set xs \<subseteq> W" and "op \<in> set xs"
  shows "\<not> supersedes op (fold apply_op xs d)"
proof -
  have "newest op_key hlc (lww.known d \<union> set xs) (op_key op) (register (fold apply_op xs d) (op_key op))"
    by (rule lww.fold_newest [OF assms(1,2) lww.newest_known [OF assms(1)]])
  with assms(3) show ?thesis by (auto simp: newest_def supersedes_def not_less split: option.splits)
qed

lemma tput_tput: "tput k v (tput k v t) = tput k v t"
  by (induction t) auto

lemma persistClock_twice: "persistClock clk (persistClock clk d) = persistClock clk d"
  by (simp add: persistClock_def tput_tput)

lemma merge_again:
  assumes "ledger_ok W dev l" and "set xs \<subseteq> W" and "merge xs l = (r, l')"
  shows "merge xs l' = (Inr 0, l')"
proof (cases "xs = []")
  case False
  from assms(1) obtain clk where clk: "led_clock l = Some clk" "db_ok W (led_db l)" by (rule ledger_okE)
  let ?d = "fold apply_op (sort_key hlc xs) (led_db l)"
  obtain n where "merge xs l = (Inr n, if xs = [] then l else l\<lparr>led_db := persistClock clk ?d\<rparr>)"
    using merge_cases [OF clk(1)] .
  with assms(3) False have l': "l' = l\<lparr>led_db := persistClock clk ?d\<rparr>" by simp
  have ok: "db_ok W (persistClock clk ?d)" using clk(2) assms(2) by (intro persistClock_ok lww.ok_fold) simp_all
  have "\<not> supersedes op (persistClock clk ?d)" if "op \<in> set xs" for op
    using fold_not_supersedes [OF clk(2), of "sort_key hlc xs" op] assms(2) that by (simp add: supersedes_def)
  then have "merge_loop (sort_key hlc xs) (persistClock clk ?d, 0) = (persistClock clk ?d, 0)"
    using merge_loop_absorb [OF ok, of "sort_key hlc xs"] assms(2) by auto
  then show ?thesis using False clk(1) by (simp add: merge_def l' persistClock_twice)
qed (use assms(3) in \<open>simp add: merge_def\<close>)

lemma merge_below_register:
  assumes "db_ok W (led_db l)" and "led_clock l = Some clk" and "set xs \<subseteq> W" and "merge xs l = (r, l')"
    and "register (led_db l) k = Some op" and "\<forall>x \<in> set xs. op_key x = k \<longrightarrow> hlc x \<le> hlc op"
  shows "register (led_db l') k = Some op"
proof -
  let ?ys = "sort_key hlc xs"
  have "newest op_key hlc (lww.known (led_db l) \<union> set ?ys) k (register (fold apply_op ?ys (led_db l)) k)"
    using assms(1,3) by (intro lww.fold_newest [OF assms(1) _ lww.newest_known [OF assms(1)]]) simp
  moreover have "newest op_key hlc (lww.known (led_db l) \<union> set ?ys) k (Some op)"
    using lww.newest_known [OF assms(1), of k] assms(5,6) by (auto simp: newest_def)
  moreover have "inj_on hlc (lww.known (led_db l) \<union> set ?ys)"
    using db_okD(3,4) [OF assms(1)] known_logged [OF assms(1)] assms(3)
    by (intro inj_on_subset [OF db_okD(4) [OF assms(1)]]) auto
  ultimately have "register (fold apply_op ?ys (led_db l)) k = Some op" by (metis newest_unique)
  then show ?thesis using merge_result(2) [OF assms(1-4)] by simp
qed

lemma hasHistory_register: "db_ok W d \<Longrightarrow> hasHistory d e i \<longleftrightarrow> register d (e, i) \<noteq> None"
  using latest_register [OF db_okD(2), of W d "\<lparr>hlc = [], entity = e, entityId = i, op_kind = Put, op_value = None, op_device = []\<rparr>"]
  by (auto simp: hasHistory_def op_key_def)

lemma logged_write_effect:
  assumes "db_ok W (led_db l)" and "op_ok (remote_op lop)"
  shows "tget (tables (led_db (logged_write clk lop l)) e) i =
      (if (e, i) = op_key (remote_op lop) then content (remote_op lop) else tget (tables (led_db l) e) i)"
    "tget (oplog (led_db (logged_write clk lop l))) (hlc lop) = Some lop"
  using assms write_row_get(1) [OF assms(2) db_okD(7) [OF assms(1)]]
  by (simp_all add: logged_write_def db_ok_def log_ok_def)

lemma ledger_okD: "ledger_ok W dev l \<Longrightarrow> db_ok W (led_db l)" "ledger_ok W dev l \<Longrightarrow> op \<in> W \<Longrightarrow> op_ok op"
  using db_okD(5) by (auto simp: ledger_ok_def)

lemma plausible_wall: "plausible wall \<Longrightarrow> wall < 10 ^ 19"
  by (simp add: plausible_def PHYSICAL_WIDTH_def)

lemma local_op_remote_op: "local_op (synced lop) (remote_op lop) = lop"
  by (simp add: local_op_def remote_op_def Operation.defs LocalOperation.defs)

lemma put_overflow:
  assumes "ledger_ok W dev l" and "put wall e v l = (Inl err, l')"
  shows "err = counter_overflow \<and> l' = l"
proof -
  from assms(1) obtain clk where "led_clock l = Some clk" by (rule ledger_okE)
  then show ?thesis using assms(2) put_error [OF assms(2)]
    by (auto simp: put_def Let_def dest: tick_error split: prod.splits sum.splits)
qed

lemma remove_overflow:
  assumes "ledger_ok W dev l" and "remove wall e i l = (Inl err, l')"
  shows "err = counter_overflow \<and> l' = l"
proof -
  from assms(1) obtain clk where "led_clock l = Some clk" by (rule ledger_okE)
  then show ?thesis using assms(2) remove_error [OF assms(2)]
    by (auto simp: remove_def Let_def dest: tick_error split: prod.splits sum.splits)
qed

lemma put_write:
  assumes "ledger_ok W dev l" and "plausible wall" and "entity_of v = e" and "put wall e v l = (Inr v', l')"
  obtains lop clk' where "l' = logged_write clk' lop l" "remote_op lop \<notin> W" "ledger_ok (insert (remote_op lop) W) dev l'"
    "register (led_db l') = (register (led_db l))(op_key (remote_op lop) \<mapsto> remote_op lop)"
    "v' = with_updatedAt (hlc lop) v" "content (remote_op lop) = Some v'" "op_value lop = Some v'"
    "op_key (remote_op lop) = (e, entity_id v)" "\<not> synced lop"
proof -
  from assms(1) obtain clk where clk: "led_clock l = Some clk" by (rule ledger_okE)
  from put_Inr [OF clk assms(4)] obtain stamp clk' where t: "tick wall clk = (Inr stamp, clk')" "v' = with_updatedAt stamp v"
    "l' = logged_write clk' \<lparr>hlc = stamp, entity = e, entityId = entity_id v, op_kind = Put,
       op_value = Some v', op_device = clk_device clk', synced = False\<rparr> l" .
  show thesis
    by (rule that [OF t(3)])
      (use logged_write_ok [OF assms(1) clk plausible_wall [OF assms(2)] _ _ _, of "\<lparr>hlc = stamp, entity = e,
         entityId = entity_id v, op_kind = Put, op_value = Some v', op_device = clk_device clk', synced = False\<rparr>" clk']
       t assms(3) in \<open>simp_all add: content_def op_key_def\<close>)
qed

lemma remove_write:
  assumes "ledger_ok W dev l" and "plausible wall" and "remove wall e i l = (Inr u, l')"
  obtains lop clk' where "l' = logged_write clk' lop l" "remote_op lop \<notin> W" "ledger_ok (insert (remote_op lop) W) dev l'"
    "register (led_db l') = (register (led_db l))(op_key (remote_op lop) \<mapsto> remote_op lop)"
    "content (remote_op lop) = None" "op_kind lop = Delete" "op_key (remote_op lop) = (e, i)" "\<not> synced lop"
    "hlc lop = reading clk'"
proof -
  from assms(1) obtain clk where clk: "led_clock l = Some clk" by (rule ledger_okE)
  from remove_Inr [OF clk assms(3)] obtain stamp clk' where t: "tick wall clk = (Inr stamp, clk')"
    "l' = logged_write clk' \<lparr>hlc = stamp, entity = e, entityId = i, op_kind = Delete,
       op_value = None, op_device = clk_device clk', synced = False\<rparr> l" .
  show thesis
    by (rule that [OF t(2)])
      (use logged_write_ok [OF assms(1) clk plausible_wall [OF assms(2)] _ _ _, of "\<lparr>hlc = stamp, entity = e,
         entityId = i, op_kind = Delete, op_value = None, op_device = clk_device clk', synced = False\<rparr>" clk']
       t tick_reading [OF t(1)] in \<open>simp_all add: content_def op_key_def\<close>)
qed

section \<open>Properties\<close>

text \<open>C26: local put. A successful put stores the stamped row, leaves every other row of every
  table alone, appends one fresh unsynced operation to the log and keeps the invariant; a
  put that fails does so because the counter overflowed and changes nothing.\<close>

theorem put_spec:
  assumes "ledger_ok W dev l" and "plausible wall" and "entity_of v = e" and "put wall e v l = (r, l')"
  shows "case r of
      Inl err \<Rightarrow> err = counter_overflow \<and> l' = l
    | Inr v' \<Rightarrow> \<exists>op. op \<notin> W \<and> ledger_ok (insert op W) dev l' \<and>
        v' = with_updatedAt (hlc op) v \<and> op_value op = Some v' \<and>
        tget (oplog (led_db l')) (hlc op) = Some (local_op False op) \<and>
        (\<forall>e' i. tget (tables (led_db l') e') i =
           (if e' = e \<and> i = entity_id v then Some v' else tget (tables (led_db l) e') i))"
proof (cases r)
  case (Inl err)
  with put_overflow [OF assms(1)] assms(4) show ?thesis by simp
next
  case (Inr v')
  with assms(4) have "put wall e v l = (Inr v', l')" by simp
  from put_write [OF assms(1-3) this] obtain lop clk' where w: "l' = logged_write clk' lop l" "remote_op lop \<notin> W"
    "ledger_ok (insert (remote_op lop) W) dev l'" "v' = with_updatedAt (hlc lop) v" "content (remote_op lop) = Some v'"
    "op_value lop = Some v'" "op_key (remote_op lop) = (e, entity_id v)" "\<not> synced lop" .
  note eff = logged_write_effect [OF ledger_okD(1) [OF assms(1)] ledger_okD(2) [OF w(3) insertI1], of clk']
  show ?thesis using w eff local_op_remote_op [of lop] Inr by (auto intro!: exI [of _ "remote_op lop"])
qed

text \<open>Local delete. A successful delete removes exactly that row, leaves a tombstone
  operation in the log so the entity still has history, and keeps the invariant; it fails only
  by counter overflow, changing nothing.\<close>

theorem remove_spec:
  assumes "ledger_ok W dev l" and "plausible wall" and "remove wall e i l = (r, l')"
  shows "case r of
      Inl err \<Rightarrow> err = counter_overflow \<and> l' = l
    | Inr _ \<Rightarrow> \<exists>op. op \<notin> W \<and> ledger_ok (insert op W) dev l' \<and> op_kind op = Delete \<and>
        tget (oplog (led_db l')) (hlc op) = Some (local_op False op) \<and> hasHistory (led_db l') e i \<and>
        (\<forall>e' i'. tget (tables (led_db l') e') i' =
           (if e' = e \<and> i' = i then None else tget (tables (led_db l) e') i'))"
proof (cases r)
  case (Inl err)
  with remove_overflow [OF assms(1)] assms(3) show ?thesis by simp
next
  case (Inr u)
  with assms(3) have "remove wall e i l = (Inr u, l')" by simp
  from remove_write [OF assms(1-2) this] obtain lop clk' where w: "l' = logged_write clk' lop l" "remote_op lop \<notin> W"
    "ledger_ok (insert (remote_op lop) W) dev l'"
    "register (led_db l') = (register (led_db l))(op_key (remote_op lop) \<mapsto> remote_op lop)"
    "content (remote_op lop) = None" "op_kind lop = Delete" "op_key (remote_op lop) = (e, i)" "\<not> synced lop" .
  note eff = logged_write_effect [OF ledger_okD(1) [OF assms(1)] ledger_okD(2) [OF w(3) insertI1], of clk']
  have "hasHistory (led_db l') e i" using hasHistory_register [OF ledger_okD(1) [OF w(3)]] w(4,7) by simp
  then show ?thesis using w eff local_op_remote_op [of lop] Inr by (auto intro!: exI [of _ "remote_op lop"])
qed

text \<open>C2: the invariant of a vault. However the devices interleave local writes, received batches
  (refused ones included), pushes and restarts, on every device every table holds exactly the
  rows that the newest logged operations stand for, no two operations of the vault share a stamp,
  and the running clock is at or past every logged stamp.\<close>

theorem vault_invariant:
  assumes "vault_reachable D L" and "\<forall>dev \<in> D. device_ok dev" and "a \<in> D"
  shows "(\<forall>e i. tget (tables (led_db (L a)) e) i = rows_of (led_db (L a)) e i) \<and>
    inj_on hlc (issued D L) \<and>
    (\<exists>clk. led_clock (L a) = Some clk \<and> (\<forall>op \<in> logged (led_db (L a)). hlc op \<le> reading clk))"
proof -
  have "ledger_ok (issued D L) a (L a)" using vault_reachable_ok [OF assms(1,2)] assms(3) by (simp add: vault_ok_def)
  then show ?thesis using db_okD(4,6) [of "issued D L" "led_db (L a)"]
    by (auto simp: ledger_ok_def clock_covers_def covers_def)
qed

text \<open>C1: convergence. In any reachable state of a vault, two devices that each receive the other's
  full operation log end with the same rows in every table, whatever each had done before.\<close>

theorem vault_convergence:
  assumes "vault_reachable D L" and "\<forall>dev \<in> D. device_ok dev" and "a \<in> D" and "b \<in> D"
    and "\<forall>j. plausible (nowa j) \<and> plausible (nowb j)"
    and "receive nowa (map remote_op (allOperations (led_db (L b)))) (L a) = (Inr m, la)"
    and "receive nowb (map remote_op (allOperations (led_db (L a)))) (L b) = (Inr n, lb)"
  shows "tables (led_db la) = tables (led_db lb)"
proof -
  have ok: "ledger_ok (issued D L) a (L a)" "ledger_ok (issued D L) b (L b)"
    using vault_reachable_ok [OF assms(1,2)] assms(3,4) by (simp_all add: vault_ok_def)
  show ?thesis by (rule receive_converges [OF ok _ _ assms(6,7)]) (use assms(5) in simp_all)
qed

text \<open>Batching and order. Two sequences of batches that contain the same operations, however
  they are grouped, ordered or repeated, leave the same tables.\<close>

theorem merge_order_independent:
  assumes "ledger_ok W dev l" and "set (concat xss) \<subseteq> W" and "set (concat xss) = set (concat yss)"
  shows "tables (led_db (merge_all xss l)) = tables (led_db (merge_all yss l))"
proof -
  from assms(1) obtain clk where "led_clock l = Some clk" "db_ok W (led_db l)" by (rule ledger_okE)
  with merge_all_batching assms(2,3) show ?thesis by blast
qed

text \<open>A repeated merge is a no-op. Merging a batch a second time applies nothing and leaves the
  whole ledger as it was.\<close>

theorem merge_idempotent:
  assumes "ledger_ok W dev l" and "set xs \<subseteq> W"
  shows "merge xs (snd (merge xs l)) = (Inr 0, snd (merge xs l))"
  using merge_again [OF assms] by (metis prod.collapse)

text \<open>Tombstones. Once a row is deleted here, no batch of operations stamped at or before the
  tombstone brings it back: the row stays absent and its history stays known.\<close>

theorem no_resurrection:
  assumes "ledger_ok W dev l" and "plausible wall" and "remove wall e i l = (Inr u, l')"
    and "led_clock l' = Some clk" and "set xs \<subseteq> W" and "\<forall>x \<in> set xs. hlc x \<le> reading clk"
    and "merge xs l' = (r, l'')"
  shows "tget (tables (led_db l'') e) i = None \<and> hasHistory (led_db l'') e i"
proof -
  from remove_write [OF assms(1-3)] obtain lop clk' where w: "l' = logged_write clk' lop l"
    "ledger_ok (insert (remote_op lop) W) dev l'"
    "register (led_db l') = (register (led_db l))(op_key (remote_op lop) \<mapsto> remote_op lop)"
    "content (remote_op lop) = None" "op_key (remote_op lop) = (e, i)" "hlc lop = reading clk'" .
  have sub: "set xs \<subseteq> insert (remote_op lop) W" using assms(5) by blast
  note l' = ledger_okD(1) [OF w(2)]
  have "hlc lop = reading clk" using w(1,6) assms(4) by (simp add: logged_write_def)
  with merge_below_register [OF l' assms(4) sub assms(7), of "(e, i)" "remote_op lop"] w(3,5) assms(6)
  have reg: "register (led_db l'') (e, i) = Some (remote_op lop)" by simp
  note ok = merge_result(1) [OF l' assms(4) sub assms(7)]
  show ?thesis using db_okD(6) [OF ok, of e i] hasHistory_register [OF ok] reg w(4) by (simp add: rows_of_def)
qed

text \<open>C25: refinement. The merge of the service implements the last-writer-wins registers: the newest
  operation per entity after a merge is what writing the batch, in stamp order, into the abstract
  registers gives, and the tables are the contents of those registers.\<close>

theorem merge_refines_lww:
  assumes "ledger_ok W dev l" and "set xs \<subseteq> W" and "merge xs l = (r, l')"
  shows "register (led_db l') = fold (lww_write op_key hlc) (sort_key hlc xs) (register (led_db l)) \<and>
    (\<forall>e i. tget (tables (led_db l') e) i = Option.bind (register (led_db l') (e, i)) content)"
proof -
  from assms(1) obtain clk where clk: "led_clock l = Some clk" "db_ok W (led_db l)" by (rule ledger_okE)
  note m = merge_result [OF clk(2,1) assms(2,3)]
  have "register (fold apply_op (sort_key hlc xs) (led_db l)) =
      fold (lww_write op_key hlc) (sort_key hlc xs) (register (led_db l))"
    using assms(2) by (intro lww.fold_refines [OF clk(2)]) simp
  with m(2) db_okD(6) [OF m(1)] show ?thesis by (simp add: rows_of_def)
qed

section \<open>Witnesses\<close>

text \<open>A vault of two devices in which the first has recorded its settings.\<close>

definition sample_row :: AnyEntity where
  "sample_row = VaultSettingsRow \<lparr>set_id = ''vault'', set_reportingCurrency = ''EUR'', set_subcategories = None,
     set_createdAt = 1000, set_updatedAt = []\<rparr>"

definition sample_ledger :: ledger where
  "sample_ledger = snd (put 1000 VaultSettingsTable sample_row (new_ledger ''a''))"

definition sample_vault :: vault where
  "sample_vault = new_ledger(''a'' := sample_ledger)"

definition sample_ops :: "Operation list" where
  "sample_ops = map remote_op (allOperations (led_db sample_ledger))"

lemma sample_devices: "\<forall>dev \<in> {''a'', ''b''}. device_ok dev"
  by code_simp

lemma plausible_small: "n \<le> 1000000 \<Longrightarrow> plausible n"
  by (simp add: plausible_def MAX_DRIFT_MS_def PHYSICAL_WIDTH_def)

lemma sample_reachable: "vault_reachable {''a'', ''b''} sample_vault"
  unfolding sample_vault_def sample_ledger_def
  by (rule vault_reachable.step [OF vault_reachable.start],
      rule vault_step.local_put [where wall = 1000 and v = sample_row, OF _ _ _ surjective_pairing])
    (simp_all add: plausible_small sample_row_def)

lemma sample_ok: "ledger_ok (issued {''a'', ''b''} sample_vault) ''a'' sample_ledger"
    "ledger_ok (issued {''a'', ''b''} sample_vault) ''b'' (new_ledger ''b'')"
  using vault_reachable_ok [OF sample_reachable sample_devices] by (simp_all add: vault_ok_def sample_vault_def)

lemma sample_ops_issued: "set sample_ops \<subseteq> issued {''a'', ''b''} sample_vault"
  by (auto simp: sample_ops_def issued_def sample_vault_def allOperations_def toArray_def logged_def)

theorem put_spec_witness:
  "\<exists>v'. fst (put 1000 VaultSettingsTable sample_row (new_ledger ''a'')) = Inr v' \<and>
     tget (tables (led_db sample_ledger) VaultSettingsTable) ''vault'' = Some v'"
proof -
  have "fst (put 1000 VaultSettingsTable sample_row (new_ledger ''a'')) =
      Inr (with_updatedAt ''0000000000000001000-0000-a'' sample_row)" by code_simp
  moreover have "put 1000 VaultSettingsTable sample_row (new_ledger ''a'') =
      (fst (put 1000 VaultSettingsTable sample_row (new_ledger ''a'')), sample_ledger)"
    by (simp add: sample_ledger_def)
  moreover have "ledger_ok {} ''a'' (new_ledger ''a'')" using sample_devices by (simp add: new_ledger_ok)
  moreover have "entity_of sample_row = VaultSettingsTable" "entity_id sample_row = ''vault''"
    by (simp_all add: sample_row_def)
  ultimately show ?thesis using put_spec [of "{}" "''a''" "new_ledger ''a''" 1000 sample_row] plausible_small [of 1000]
    by fastforce
qed

theorem vault_invariant_witness:
  "\<exists>clk. led_clock (sample_vault ''a'') = Some clk \<and> (\<forall>op \<in> logged (led_db (sample_vault ''a'')). hlc op \<le> reading clk)"
  using vault_invariant [OF sample_reachable sample_devices, of "''a''"] by simp

theorem remove_spec_witness:
  "hasHistory (led_db (snd (remove 2000 VaultSettingsTable ''vault'' sample_ledger))) VaultSettingsTable ''vault''"
proof -
  have "fst (remove 2000 VaultSettingsTable ''vault'' sample_ledger) = Inr ()" by code_simp
  then show ?thesis
    using remove_spec [OF sample_ok(1) plausible_small [of 2000] surjective_pairing, of VaultSettingsTable "''vault''"] by auto
qed

theorem vault_convergence_witness:
  "tables (led_db (snd (receive (\<lambda>_. 2000) [] sample_ledger))) =
   tables (led_db (snd (receive (\<lambda>_. 2000) sample_ops (new_ledger ''b''))))"
proof (rule vault_convergence [OF sample_reachable sample_devices, of "''a''" "''b''" "\<lambda>_. 2000" "\<lambda>_. 2000" 0 _ 1])
  show "receive (\<lambda>_. 2000) (map remote_op (allOperations (led_db (sample_vault ''b'')))) (sample_vault ''a'') =
      (Inr 0, snd (receive (\<lambda>_. 2000) [] sample_ledger))"
  proof -
    have "fst (receive (\<lambda>_. 2000) [] sample_ledger) = Inr 0" by code_simp
    moreover have "map remote_op (allOperations (led_db (sample_vault ''b''))) = []"
      by (simp add: sample_vault_def new_ledger_def initialise_def new_db_def allOperations_def toArray_def)
    moreover have "sample_vault ''a'' = sample_ledger" by (simp add: sample_vault_def)
    ultimately show ?thesis by (metis prod.collapse)
  qed
  show "receive (\<lambda>_. 2000) (map remote_op (allOperations (led_db (sample_vault ''a'')))) (sample_vault ''b'') =
      (Inr 1, snd (receive (\<lambda>_. 2000) sample_ops (new_ledger ''b'')))"
  proof -
    have "fst (receive (\<lambda>_. 2000) sample_ops (new_ledger ''b'')) = Inr 1" by code_simp
    moreover have "map remote_op (allOperations (led_db (sample_vault ''a''))) = sample_ops" "sample_vault ''b'' = new_ledger ''b''"
      by (simp_all add: sample_vault_def sample_ops_def)
    ultimately show ?thesis by (metis prod.collapse)
  qed
qed (simp_all add: plausible_small)

theorem merge_order_independent_witness:
  "tables (led_db (merge_all [sample_ops, [], sample_ops] (new_ledger ''b''))) =
   tables (led_db (merge_all [sample_ops] (new_ledger ''b'')))"
  by (rule merge_order_independent [OF sample_ok(2)]) (use sample_ops_issued in auto)

theorem merge_idempotent_witness:
  "merge sample_ops (snd (merge sample_ops (new_ledger ''b''))) = (Inr 0, snd (merge sample_ops (new_ledger ''b'')))"
  by (rule merge_idempotent [OF sample_ok(2) sample_ops_issued])

theorem no_resurrection_witness:
  "tget (tables (led_db (snd (merge sample_ops (snd (remove 2000 VaultSettingsTable ''vault'' sample_ledger)))))
     VaultSettingsTable) ''vault'' = None"
proof -
  let ?l = "snd (remove 2000 VaultSettingsTable ''vault'' sample_ledger)"
  have r: "remove 2000 VaultSettingsTable ''vault'' sample_ledger = (Inr (), ?l)"
    by (rule prod_eqI) (simp_all, code_simp)
  have c: "led_clock ?l = Some (the (led_clock ?l))" by code_simp
  have le: "\<forall>x \<in> set sample_ops. hlc x \<le> reading (the (led_clock ?l))" by code_simp
  show ?thesis
    using no_resurrection [OF sample_ok(1) plausible_small [of 2000] r c sample_ops_issued le surjective_pairing] by simp
qed

theorem merge_refines_lww_witness:
  "register (led_db (snd (merge sample_ops (new_ledger ''b'')))) =
   fold (lww_write op_key hlc) (sort_key hlc sample_ops) (register (led_db (new_ledger ''b'')))"
  using merge_refines_lww [OF sample_ok(2) sample_ops_issued surjective_pairing] by blast

end
