(* ===== verification/Money.thy ===== *)
theory Money
  imports Clock Domain
begin

text \<open>
  Amounts of money (\<open>core/util/money.ts\<close>), conversion between currencies
  (\<open>core/money/conversion.ts\<close>) and the currency guess (\<open>core/money/currencies.ts\<close>). Parsing and
  printing are exact; conversion is binary64 arithmetic, each operation rounded. Powers of ten are
  the nearest binary64 value.
\<close>

section \<open>Amounts\<close>

definition EXPONENTS :: "(string \<times> nat) list" where
  "EXPONENTS = [(''JPY'', 0), (''KRW'', 0), (''VND'', 0), (''CLP'', 0), (''ISK'', 0),
     (''BHD'', 3), (''KWD'', 3), (''OMR'', 3), (''TND'', 3), (''JOD'', 3)]"

definition minorUnitExponent :: "string \<Rightarrow> nat" where
  "minorUnitExponent currency = (case map_of EXPONENTS (toUpperCase currency) of Some n \<Rightarrow> n | None \<Rightarrow> 2)"

text \<open>\<open>s.replace(c, t)\<close> for a one-character pattern: the first occurrence only.\<close>

fun replace_first :: "char \<Rightarrow> string \<Rightarrow> string \<Rightarrow> string" where
  "replace_first c t [] = []"
| "replace_first c t (x # xs) = (if x = c then t @ xs else x # replace_first c t xs)"

text \<open>The pattern \<open>^-?\d*\.?\d*$\<close>.\<close>

definition amount_pattern :: "string \<Rightarrow> bool" where
  "amount_pattern s =
     (let s = (if startsWith ''-'' s then drop 1 s else s);
          s = dropWhile is_digit s;
          s = (if startsWith ''.'' s then drop 1 s else s)
      in list_all is_digit s)"

definition MAX_SAFE_INTEGER :: nat where "MAX_SAFE_INTEGER = 2 ^ 53 - 1"

definition invalid_amount :: "string \<Rightarrow> error" where
  "invalid_amount input = Error (''\"'' @ input @ ''\" is not a valid amount'')"

definition out_of_range :: "string \<Rightarrow> error" where
  "out_of_range input = Error (''\"'' @ input @ ''\" is out of range'')"

definition parseAmount :: "string \<Rightarrow> string \<Rightarrow> Minor result" where
  "parseAmount input currency =
     (let exponent = minorUnitExponent currency;
          cleaned = replace_first CHR '','' ''.'' (filter (\<lambda>c. \<not> is_space c) (trim input))
      in if cleaned = [] \<or> \<not> amount_pattern cleaned then Inl (invalid_amount input)
         else
           let negative = startsWith ''-'' cleaned;
               pieces = split_on CHR ''.'' (replace_first CHR ''-'' [] cleaned);
               whole = pieces ! 0;
               fraction = (if length pieces > 1 then pieces ! 1 else []);
               scaled = (if whole = [] then ''0'' else whole) @ slice 0 exponent (padEnd exponent CHR ''0'' fraction)
           in case js_Number scaled of
                None \<Rightarrow> Inl (out_of_range input)
              | Some value \<Rightarrow>
                  if value > MAX_SAFE_INTEGER then Inl (out_of_range input)
                  else Inr (if negative then - int value else int value))"

definition formatAmount :: "Minor \<Rightarrow> string \<Rightarrow> string" where
  "formatAmount amount currency =
     (let exponent = minorUnitExponent currency;
          digits = padStart (exponent + 1) CHR ''0'' (String_of (nat \<bar>amount\<bar>));
          whole = slice 0 (length digits - exponent) digits;
          whole = (if whole = [] then ''0'' else whole);
          fraction = (if exponent \<noteq> 0 then ''.'' @ drop (length digits - exponent) digits else [])
      in (if amount < 0 then ''-'' else []) @ whole @ fraction)"

text \<open>\<open>txn.counterAccountId === accountId\<close>, with a null counter account never equal to a string.\<close>

definition signedFor :: "string \<Rightarrow> Transaction \<Rightarrow> Minor" where
  "signedFor accountId txn =
     (if txn_kind txn = Income then if txn_accountId txn = accountId then txn_amount txn else 0
      else if txn_kind txn = Expense then if txn_accountId txn = accountId then - txn_amount txn else 0
      else if txn_accountId txn = accountId then - txn_amount txn
      else if txn_counterAccountId txn = Some accountId then txn_amount txn
      else 0)"

section \<open>Conversion\<close>

definition rateId :: "string \<Rightarrow> string \<Rightarrow> string \<Rightarrow> string" where
  "rateId base quote date = toUpperCase base @ '':'' @ toUpperCase quote @ '':'' @ date"

definition sameCurrency :: "string \<Rightarrow> string \<Rightarrow> bool" where
  "sameCurrency a b \<longleftrightarrow> toUpperCase a = toUpperCase b"

definition bad_rate :: error where
  "bad_rate = Error ''Exchange rate must be a positive number''"

text \<open>\<open>Math.round\<close>: to the nearest integer, halves upwards; infinities and NaN are kept.\<close>

fun Math_round :: "number \<Rightarrow> number" where
  "Math_round (Fin x) = Fin (of_int \<lfloor>x + 1 / 2\<rfloor>)"
| "Math_round x = x"

fun num_neg :: "number \<Rightarrow> number" where
  "num_neg (Fin x) = Fin (- x)"
| "num_neg PosInf = NegInf"
| "num_neg NegInf = PosInf"
| "num_neg NaN = NaN"

fun num_plus :: "number \<Rightarrow> number \<Rightarrow> number" where
  "num_plus (Fin a) (Fin b) = fl (a + b)"
| "num_plus NaN _ = NaN"
| "num_plus _ NaN = NaN"
| "num_plus (Fin _) y = y"
| "num_plus x (Fin _) = x"
| "num_plus x y = (if x = y then x else NaN)"

text \<open>Division by a nonzero finite number.\<close>

fun num_div :: "number \<Rightarrow> rat \<Rightarrow> number" where
  "num_div (Fin a) b = fl (a / b)"
| "num_div x b = num_times x (Fin b)"

definition PRECISION :: rat where "PRECISION = 10 ^ 9"

definition roundHalfAwayFromZero :: "number \<Rightarrow> number" where
  "roundHalfAwayFromZero v =
     (let snapped = num_div (Math_round (num_times v (Fin PRECISION))) PRECISION
      in if num_less snapped (Fin 0) then num_neg (Math_round (num_neg snapped)) else Math_round snapped)"

definition pow10 :: "int \<Rightarrow> number" where
  "pow10 k = fl (10 powi k)"

definition convert :: "number \<Rightarrow> number \<Rightarrow> string \<Rightarrow> string \<Rightarrow> number result" where
  "convert amount rate from to =
     (if \<not> isFinite rate \<or> num_le rate (Fin 0) then Inl bad_rate
      else if sameCurrency from to then Inr amount
      else let scale = pow10 (int (minorUnitExponent to) - int (minorUnitExponent from))
           in Inr (roundHalfAwayFromZero (num_times (num_times amount rate) scale)))"

abbreviation minor :: "Minor \<Rightarrow> number" where
  "minor n \<equiv> Fin (of_int n)"

text \<open>\<open>Pick<Transaction, 'amount' | 'currency' | 'rate'>\<close> is passed field by field.\<close>

definition inReporting :: "Minor \<Rightarrow> string \<Rightarrow> number option \<Rightarrow> string \<Rightarrow> number option result" where
  "inReporting amount currency rate reporting =
     (if sameCurrency currency reporting then Inr (Some (minor amount))
      else case rate of
             None \<Rightarrow> Inr None
           | Some r \<Rightarrow> map_sum id Some (convert (minor amount) r currency reporting))"

definition txn_inReporting :: "Transaction \<Rightarrow> string \<Rightarrow> number option result" where
  "txn_inReporting txn reporting = inReporting (txn_amount txn) (txn_currency txn) (txn_rate txn) reporting"

definition better_rate :: "string \<Rightarrow> string \<Rightarrow> string \<Rightarrow> ExchangeRate \<Rightarrow> ExchangeRate option \<Rightarrow> ExchangeRate option" where
  "better_rate base quote date candidate best =
     (if \<not> sameCurrency (rate_base candidate) base \<or> \<not> sameCurrency (rate_quote candidate) quote then best
      else if rate_date candidate > date then best
      else case best of
             None \<Rightarrow> Some candidate
           | Some b \<Rightarrow> if rate_date candidate > rate_date b then Some candidate else best)"

definition rateFor :: "ExchangeRate list \<Rightarrow> string \<Rightarrow> string \<Rightarrow> string \<Rightarrow> ExchangeRate option" where
  "rateFor rates base quote date =
     (if sameCurrency base quote then None else fold (better_rate base quote date) rates None)"

definition invertRate :: "number \<Rightarrow> number result" where
  "invertRate rate =
     (case rate of
        Fin r \<Rightarrow> if r \<le> 0 then Inl bad_rate else Inr (fl (1 / r))
      | _ \<Rightarrow> Inl bad_rate)"

fun sum_loop :: "string \<Rightarrow> Transaction list \<Rightarrow> number \<times> nat \<Rightarrow> (number \<times> nat) result" where
  "sum_loop reporting [] s = Inr s"
| "sum_loop reporting (txn # txns) (acc, unconverted) =
     (case txn_inReporting txn reporting of
        Inl e \<Rightarrow> Inl e
      | Inr None \<Rightarrow> sum_loop reporting txns (acc, unconverted + 1)
      | Inr (Some amount) \<Rightarrow> sum_loop reporting txns (num_plus acc amount, unconverted))"

definition sumInReporting :: "Transaction list \<Rightarrow> string \<Rightarrow> (number \<times> nat) result" where
  "sumInReporting txns reporting = sum_loop reporting txns (Fin 0, 0)"

section \<open>The currency of a locale\<close>

definition COMMON_CURRENCIES :: "string list" where
  "COMMON_CURRENCIES = [''USD'', ''EUR'', ''GBP'', ''INR'', ''BDT'', ''AUD'', ''CAD'', ''JPY'', ''SGD'', ''AED'']"

definition BY_REGION :: "(string \<times> string) list" where
  "BY_REGION = [(''BD'', ''BDT''), (''IN'', ''INR''), (''GB'', ''GBP''), (''US'', ''USD''), (''AU'', ''AUD''),
     (''CA'', ''CAD''), (''JP'', ''JPY''), (''SG'', ''SGD''), (''AE'', ''AED''),
     (''DE'', ''EUR''), (''FR'', ''EUR''), (''ES'', ''EUR''), (''IT'', ''EUR''), (''NL'', ''EUR''), (''IE'', ''EUR''),
     (''PT'', ''EUR''), (''AT'', ''EUR''), (''BE'', ''EUR''), (''FI'', ''EUR''), (''GR'', ''EUR'')]"

definition is_upper :: "char \<Rightarrow> bool" where
  "is_upper c \<longleftrightarrow> CHR ''A'' \<le> c \<and> c \<le> CHR ''Z''"

definition guessCurrency :: "string option \<Rightarrow> string" where
  "guessCurrency tag =
     (case tag of
        None \<Rightarrow> ''USD''
      | Some t \<Rightarrow>
          if t = [] then ''USD''
          else case List.find (\<lambda>part. length part = 2 \<and> list_all is_upper part) (split_on CHR ''-'' t) of
                 None \<Rightarrow> ''USD''
               | Some region \<Rightarrow> (case map_of BY_REGION region of Some c \<Rightarrow> c | None \<Rightarrow> ''USD''))"

section \<open>Printing and parsing\<close>

lemma from_base_zeros [simp]: "from_base 10 (replicate k CHR ''0'' @ s) = from_base 10 s"
proof -
  have "char_digit CHR ''0'' = 0" by code_simp
  then have "foldl (\<lambda>acc c. acc * 10 + char_digit c) 0 (replicate k CHR ''0'') = 0" by (induction k) auto
  then show ?thesis by (simp add: from_base.simps)
qed

lemma digit_special: "is_digit c \<Longrightarrow> c \<noteq> CHR ''-'' \<and> c \<noteq> CHR ''.'' \<and> c \<noteq> CHR '','' \<and> \<not> is_space c"
  using digit_not_space by (auto simp: is_digit_def less_eq_char_def)

lemma js_Number_digits: "s \<noteq> [] \<Longrightarrow> list_all is_digit s \<Longrightarrow> js_Number s = Some (from_base 10 s)"
  using trim_no_space [of s] digit_not_space by (simp add: js_Number_def Let_def list_all_iff)

lemma replace_first_none: "c \<notin> set s \<Longrightarrow> replace_first c t s = s"
  by (induction s) auto

lemma filter_digits: "list_all is_digit s \<Longrightarrow> dropWhile is_digit s = []"
  by (simp add: list_all_iff)

lemma parse_digits:
  assumes "whole \<noteq> []" and "list_all is_digit whole" and "list_all is_digit fraction"
    and "length fraction = minorUnitExponent currency" and "from_base 10 (whole @ fraction) \<le> MAX_SAFE_INTEGER"
    and "sign = [] \<or> sign = ''-''" and "tail = (if fraction = [] then [] else ''.'' @ fraction)"
  shows "parseAmount (sign @ whole @ tail) currency =
    Inr (if sign = [] then int (from_base 10 (whole @ fraction)) else - int (from_base 10 (whole @ fraction)))"
proof -
  let ?s = "sign @ whole @ tail"
  have set: "c \<in> set ?s \<Longrightarrow> is_digit c \<or> c = CHR ''-'' \<or> c = CHR ''.''" for c
    using assms(2,3,6,7) by (auto simp: list_all_iff split: if_splits)
  have sp: "\<not> is_space c" if "c \<in> set ?s" for c
    using set [OF that] digit_special [of c] by (auto simp: is_space_def)
  have comma: "CHR '','' \<notin> set ?s"
  proof
    assume "CHR '','' \<in> set ?s"
    from set [OF this] show False using digit_special [of "CHR '',''"] by auto
  qed
  have clean: "replace_first CHR '','' ''.'' (filter (\<lambda>c. \<not> is_space c) (trim ?s)) = ?s"
  proof -
    have "trim ?s = ?s" "filter (\<lambda>c. \<not> is_space c) ?s = ?s"
      using sp trim_no_space [of ?s] by (simp_all only: list_all_iff filter_id_conv) blast+
    then show ?thesis using replace_first_none [OF comma] by simp
  qed
  have start: "\<not> startsWith ''-'' (whole @ t)" for t
    using assms(1,2) digit_special by (cases whole) auto
  have pat: "amount_pattern ?s"
  proof -
    have drop: "dropWhile is_digit (whole @ tail) = tail"
      using assms(2,7) digit_special [of "CHR ''.''"] by (subst dropWhile_append2) (auto simp: list_all_iff)
    have rest: "list_all is_digit (if startsWith ''.'' tail then drop 1 tail else tail)" using assms(3,7) by auto
    have "amount_pattern (whole @ tail)"
      unfolding amount_pattern_def Let_def if_not_P [OF start] drop by (rule rest)
    moreover have "amount_pattern (''-'' @ whole @ tail)"
      using rest unfolding amount_pattern_def Let_def by (simp add: drop split: if_splits)
    ultimately show ?thesis using assms(6) by auto
  qed
  have neg: "startsWith ''-'' ?s \<longleftrightarrow> sign \<noteq> []" using assms(6) start [of tail] by auto
  have nodash: "CHR ''-'' \<notin> set (whole @ tail)"
    using assms(2,3,7) digit_special by (auto simp: list_all_iff split: if_splits)
  have strip: "replace_first CHR ''-'' [] ?s = whole @ tail" using assms(6) nodash replace_first_none by auto
  have dots: "CHR ''.'' \<notin> set whole" "CHR ''.'' \<notin> set fraction" using assms(2,3) digit_special by (auto simp: list_all_iff)
  have pieces: "split_on CHR ''.'' (whole @ tail) = (if fraction = [] then [whole] else [whole, fraction])"
    using assms(7) dots by (auto simp: split_on_no_sep split_on_append)
  have "js_Number (whole @ fraction) = Some (from_base 10 (whole @ fraction))"
    using assms(1-3) by (intro js_Number_digits) auto
  moreover have "slice 0 (minorUnitExponent currency) (padEnd (minorUnitExponent currency) CHR ''0'' fraction) = fraction"
    using assms(4) by (simp add: slice_def padEnd_def)
  ultimately show ?thesis
    unfolding parseAmount_def Let_def clean strip pieces neg using assms(1,4,5) pat by (auto simp: not_less)
qed

lemma digits_padded: "list_all is_digit (padStart w CHR ''0'' (String_of n))"
  using is_digit_String_of [of _ n] is_digit_digit_char [of 0] by (auto simp: padStart_def list_all_iff)

section \<open>Rounding and sums\<close>

lemma Math_round_integral: "Math_round x = Fin r \<Longrightarrow> r \<in> \<int>"
  by (cases x) auto

lemma roundHalfAwayFromZero_integral: "roundHalfAwayFromZero v = Fin r \<Longrightarrow> r \<in> \<int>"
proof -
  assume a: "roundHalfAwayFromZero v = Fin r"
  have "num_neg (Math_round y) = Fin r \<Longrightarrow> r \<in> \<int>" for y
    by (cases y) auto
  with a Math_round_integral show ?thesis by (auto simp: roundHalfAwayFromZero_def Let_def split: if_splits)
qed

lemma num_plus_exact: "\<bar>a + b\<bar> < 2 ^ 53 \<Longrightarrow> num_plus (minor a) (minor b) = minor (a + b)"
  using fl_int [of "a + b"] by simp

lemma sum_loop_exact:
  assumes "\<And>t. t \<in> set txns \<Longrightarrow> txn_inReporting t reporting = Inr (map_option minor (f t))"
    and "\<bar>n\<bar> + sum_list (map (\<lambda>t. case f t of None \<Rightarrow> 0 | Some m \<Rightarrow> \<bar>m\<bar>) txns) < 2 ^ 53"
  shows "sum_loop reporting txns (minor n, k) =
    Inr (minor (n + sum_list (map (\<lambda>t. case f t of None \<Rightarrow> 0 | Some m \<Rightarrow> m) txns)), k + length (filter (\<lambda>t. f t = None) txns))"
  using assms
proof (induction txns arbitrary: n k)
  case (Cons t txns)
  have rest: "0 \<le> sum_list (map (\<lambda>t. case f t of None \<Rightarrow> 0 | Some m \<Rightarrow> \<bar>m\<bar>) txns)"
    by (induction txns) (auto split: option.split)
  show ?case
  proof (cases "f t")
    case None
    with Cons.prems Cons.IH [of n "k + 1"] show ?thesis by simp
  next
    case (Some m)
    with Cons.prems(2) rest have "\<bar>n + m\<bar> < 2 ^ 53"
      "\<bar>n + m\<bar> + sum_list (map (\<lambda>t. case f t of None \<Rightarrow> 0 | Some m \<Rightarrow> \<bar>m\<bar>) txns) < 2 ^ 53" by auto
    with Cons.prems(1) [of t] Cons.IH [of "n + m" k] Cons.prems(1) Some num_plus_exact [of n m] show ?thesis
      by (simp add: add.assoc)
  qed
qed simp

definition rate_candidate :: "string \<Rightarrow> string \<Rightarrow> string \<Rightarrow> ExchangeRate \<Rightarrow> bool" where
  "rate_candidate base quote date r \<longleftrightarrow>
     sameCurrency (rate_base r) base \<and> sameCurrency (rate_quote r) quote \<and> rate_date r \<le> date"

lemma better_rate_eq:
  "better_rate base quote date r best =
     (if rate_candidate base quote date r \<and> (\<forall>b. best = Some b \<longrightarrow> rate_date b < rate_date r) then Some r else best)"
  by (auto simp: better_rate_def rate_candidate_def not_le not_less split: option.split)

definition best_of :: "(ExchangeRate \<Rightarrow> bool) \<Rightarrow> ExchangeRate set \<Rightarrow> ExchangeRate option \<Rightarrow> bool" where
  "best_of P S m \<longleftrightarrow>
     (case m of
        None \<Rightarrow> \<forall>r \<in> S. \<not> P r
      | Some b \<Rightarrow> b \<in> S \<and> P b \<and> (\<forall>r \<in> S. P r \<longrightarrow> rate_date r \<le> rate_date b))"

lemma best_of_step:
  assumes "best_of (rate_candidate base quote date) S best"
  shows "best_of (rate_candidate base quote date) (insert r S) (better_rate base quote date r best)"
  unfolding better_rate_eq
proof (cases best)
  case None
  then show "best_of (rate_candidate base quote date) (insert r S) (if rate_candidate base quote date r \<and>
      (\<forall>b. best = Some b \<longrightarrow> rate_date b < rate_date r) then Some r else best)"
    using assms by (auto simp: best_of_def)
next
  case (Some b)
  then show "best_of (rate_candidate base quote date) (insert r S) (if rate_candidate base quote date r \<and>
      (\<forall>b. best = Some b \<longrightarrow> rate_date b < rate_date r) then Some r else best)"
    using assms by (auto simp: best_of_def not_less intro: order_trans less_imp_le)
qed

lemma fold_better_rate:
  "best_of (rate_candidate base quote date) S best \<Longrightarrow>
   best_of (rate_candidate base quote date) (S \<union> set rates) (fold (better_rate base quote date) rates best)"
proof (induction rates arbitrary: S best)
  case (Cons r rates)
  from Cons.IH [OF best_of_step [OF Cons.prems]] show ?case by simp
qed simp

section \<open>Properties\<close>

lemma parse_formatAmount:
  assumes "\<bar>amount\<bar> \<le> int MAX_SAFE_INTEGER"
  shows "parseAmount (formatAmount amount currency) currency = Inr amount"
proof -
  define n where "n = nat \<bar>amount\<bar>"
  define e where "e = minorUnitExponent currency"
  define digits where "digits = padStart (e + 1) CHR ''0'' (String_of n)"
  define whole where "whole = take (length digits - e) digits"
  define fraction where "fraction = drop (length digits - e) digits"
  have len: "e + 1 \<le> length digits" by (simp add: digits_def padStart_def)
  have all: "whole @ fraction = digits" by (simp add: whole_def fraction_def)
  have dig: "list_all is_digit digits" unfolding digits_def by (rule digits_padded)
  then have parts: "list_all is_digit whole" "list_all is_digit fraction" using all by (metis list_all_append)+
  have ne: "whole \<noteq> []" using len by (auto simp: whole_def)
  have fl: "length fraction = minorUnitExponent currency" using len by (simp add: fraction_def e_def)
  have val: "from_base 10 (whole @ fraction) = n" unfolding all digits_def padStart_def by (simp add: from_base_to_base)
  have bound: "from_base 10 (whole @ fraction) \<le> MAX_SAFE_INTEGER" unfolding val n_def using assms by linarith
  have tail: "(if e \<noteq> 0 then ''.'' @ fraction else []) = (if fraction = [] then [] else ''.'' @ fraction)"
    using fl by (auto simp: e_def)
  have "formatAmount amount currency =
      (if amount < 0 then ''-'' else []) @ whole @ (if fraction = [] then [] else ''.'' @ fraction)"
    unfolding formatAmount_def Let_def e_def [symmetric] n_def [symmetric] digits_def [symmetric]
    unfolding slice_def drop_0 whole_def [symmetric] fraction_def [symmetric] tail using ne by simp
  moreover have "parseAmount ((if amount < 0 then ''-'' else []) @ whole @ (if fraction = [] then [] else ''.'' @ fraction)) currency =
      Inr (if (if amount < 0 then ''-'' else []) = [] then int n else - int n)"
    using parse_digits [OF ne parts fl bound, of "if amount < 0 then ''-'' else []"] val by simp
  ultimately show ?thesis by (auto simp: n_def)
qed

text \<open>Amounts round-trip. Printing an amount in any currency and parsing it back gives the amount,
  for every amount in the safe integer range, negative ones and amounts below one major unit included.\<close>

theorem amount_round_trip:
  assumes "\<bar>amount\<bar> \<le> int MAX_SAFE_INTEGER"
  shows "parseAmount (formatAmount amount currency) currency = Inr amount"
  by (rule parse_formatAmount [OF assms])

text \<open>Conversion. A rate that is not a positive finite number is refused; between codes of one
  currency the amount is returned unchanged; otherwise a finite result is a whole number of minor
  units.\<close>

theorem convert_spec:
  "if \<exists>r > 0. rate = Fin r
   then if sameCurrency from to then convert amount rate from to = Inr amount
        else \<exists>v. convert amount rate from to = Inr v \<and> (case v of Fin x \<Rightarrow> x \<in> \<int> | _ \<Rightarrow> True)
   else convert amount rate from to = Inl bad_rate"
proof (cases "\<exists>r > 0. rate = Fin r")
  case True
  then obtain r where r: "0 < r" "rate = Fin r" by blast
  have "case roundHalfAwayFromZero v of Fin x \<Rightarrow> x \<in> \<int> | _ \<Rightarrow> True" for v
    using roundHalfAwayFromZero_integral [of v] by (cases "roundHalfAwayFromZero v") auto
  with r show ?thesis by (auto simp: convert_def num_le_def Let_def)
next
  case False
  then show ?thesis by (cases rate) (auto simp: convert_def num_le_def not_less)
qed

text \<open>Sums over currencies. As long as the absolute converted amounts stay within the range in which
  binary64 is exact, the total is the exact sum of what could be converted, and the transactions
  without a rate are counted, not added.\<close>

theorem sumInReporting_exact:
  assumes "\<forall>t \<in> set txns. txn_inReporting t reporting = Inr (map_option minor (f t))"
    and "sum_list (map (\<lambda>t. case f t of None \<Rightarrow> 0 | Some m \<Rightarrow> \<bar>m\<bar>) txns) < 2 ^ 53"
  shows "sumInReporting txns reporting =
    Inr (minor (sum_list (map (\<lambda>t. case f t of None \<Rightarrow> 0 | Some m \<Rightarrow> m) txns)), length (filter (\<lambda>t. f t = None) txns))"
  using sum_loop_exact [of txns reporting f 0 0] assms by (simp add: sumInReporting_def)

text \<open>The rate for a day. The quote found is for the pair, is never later than the day, and no quote
  for the pair on or before the day is more recent; there is none only when the currencies are the
  same or no such quote exists.\<close>

theorem rateFor_spec:
  "case rateFor rates base quote date of
     None \<Rightarrow> sameCurrency base quote \<or> (\<forall>r \<in> set rates. \<not> rate_candidate base quote date r)
   | Some b \<Rightarrow> b \<in> set rates \<and> rate_candidate base quote date b \<and>
       (\<forall>r \<in> set rates. rate_candidate base quote date r \<longrightarrow> rate_date r \<le> rate_date b)"
  using fold_better_rate [of base quote date "{}" None rates]
  by (auto simp: rateFor_def best_of_def split: option.splits)

section \<open>Witnesses\<close>

theorem amount_round_trip_witness: "parseAmount (formatAmount (- 5) ''EUR'') ''EUR'' = Inr (- 5)"
  using amount_round_trip [of "- 5" "''EUR''"] by (simp add: MAX_SAFE_INTEGER_def)

definition sample_txn :: Transaction where
  "sample_txn =
     \<lparr>txn_id = ''t1'', txn_kind = Expense, txn_amount = 1250, txn_currency = ''EUR'', txn_accountId = ''a1'',
      txn_counterAccountId = None, txn_categoryId = Some ''food'', txn_date = ''2024-03-05'', txn_payee = ''Shop'',
      txn_note = [], txn_tags = [], txn_cleared = True, txn_rate = None, txn_rateDate = None,
      txn_createdAt = 0, txn_updatedAt = []\<rparr>"

theorem sumInReporting_exact_witness:
  "sumInReporting [sample_txn, sample_txn\<lparr>txn_currency := ''USD''\<rparr>] ''eur'' = Inr (minor 1250, 1)"
proof -
  have "sameCurrency ''EUR'' ''eur''" "\<not> sameCurrency ''USD'' ''eur''" by code_simp+
  then have "txn_inReporting sample_txn ''eur'' = Inr (Some (minor 1250))"
    "txn_inReporting (sample_txn\<lparr>txn_currency := ''USD''\<rparr>) ''eur'' = Inr None"
    by (simp_all add: txn_inReporting_def inReporting_def sample_txn_def)
  then show ?thesis
    using sumInReporting_exact [of "[sample_txn, sample_txn\<lparr>txn_currency := ''USD''\<rparr>]" "''eur''"
        "\<lambda>t. if txn_currency t = ''EUR'' then Some 1250 else None"]
    by (simp add: sample_txn_def)
qed

definition sample_rate :: "string \<Rightarrow> ExchangeRate" where
  "sample_rate date = \<lparr>rate_id = ''EUR:USD:'' @ date, rate_base = ''EUR'', rate_quote = ''USD'', rate_rate = Fin (11 / 10),
     rate_date = date, rate_source = Manual, rate_createdAt = 0, rate_updatedAt = []\<rparr>"

theorem rateFor_spec_witness:
  "\<exists>b. rateFor [sample_rate ''2024-03-01'', sample_rate ''2024-03-09''] ''EUR'' ''USD'' ''2024-03-05'' = Some b \<and>
     rate_date b \<le> ''2024-03-05''"
proof -
  let ?rates = "[sample_rate ''2024-03-01'', sample_rate ''2024-03-09'']"
  have "rate_candidate ''EUR'' ''USD'' ''2024-03-05'' (sample_rate ''2024-03-01'')" "\<not> sameCurrency ''EUR'' ''USD''"
    by code_simp+
  then show ?thesis using rateFor_spec [where rates = ?rates and base = "''EUR''" and quote = "''USD''" and date = "''2024-03-05''"]
    by (auto simp: rate_candidate_def split: option.splits)
qed

end
