(* ===== verification/Dates.thy ===== *)
theory Dates
  imports Clock
begin

text \<open>
  The calendar arithmetic of \<open>core/util/dates.ts\<close>. A ledger date is a \<open>YYYY-MM-DD\<close> string.
  The part of \<open>Date\<close> the sources use is the proleptic Gregorian calendar of the language
  specification: \<open>make_day\<close> is its MakeDay, \<open>civil\<close> the inverse, and a day number more than
  a hundred million days from 1970 is an invalid date, whose fields are NaN. A \<open>Date\<close> value
  is modelled by the day number of its local calendar date.
\<close>

section \<open>The calendar of the language\<close>

definition leap :: "int \<Rightarrow> bool" where
  "leap y \<longleftrightarrow> y mod 4 = 0 \<and> (y mod 100 \<noteq> 0 \<or> y mod 400 = 0)"

definition month_len :: "int \<Rightarrow> int \<Rightarrow> int" where
  "month_len y m = (if m = 2 then (if leap y then 29 else 28)
                    else if m = 4 \<or> m = 6 \<or> m = 9 \<or> m = 11 then 30 else 31)"

definition day_from_year :: "int \<Rightarrow> int" where
  "day_from_year y = 365 * (y - 1970) + (y - 1969) div 4 - (y - 1901) div 100 + (y - 1601) div 400"

definition day_in_year :: "int \<Rightarrow> int \<Rightarrow> int" where
  "day_in_year y m =
     (if m \<le> 1 then 0 else if m = 2 then 31
      else (if leap y then 1 else 0) +
        (if m = 3 then 59 else if m = 4 then 90 else if m = 5 then 120 else if m = 6 then 151
         else if m = 7 then 181 else if m = 8 then 212 else if m = 9 then 243
         else if m = 10 then 273 else if m = 11 then 304 else if m = 12 then 334 else 365))"

definition day_number :: "int \<Rightarrow> int \<Rightarrow> int \<Rightarrow> int" where
  "day_number y m d = day_from_year y + day_in_year y m + d - 1"

text \<open>\<open>MakeDay(year, month, date)\<close>, with a zero-based month of any size.\<close>

definition make_day :: "int \<Rightarrow> int \<Rightarrow> int \<Rightarrow> int" where
  "make_day y m d = day_number (y + m div 12) (m mod 12 + 1) d"

text \<open>The \<open>Date\<close> constructor and \<open>Date.UTC\<close> read the years 0 to 99 as 1900 to 1999.\<close>

definition full_year :: "int \<Rightarrow> int" where
  "full_year y = (if 0 \<le> y \<and> y \<le> 99 then 1900 + y else y)"

definition time_clip :: "int \<Rightarrow> int option" where
  "time_clip n = (if \<bar>n\<bar> \<le> 100000000 then Some n else None)"

definition year_of_day :: "int \<Rightarrow> int" where
  "year_of_day n =
     (let y = 1970 + (400 * n) div 146097
      in if day_from_year (y + 1) \<le> n then y + 1 else if day_from_year y \<le> n then y else y - 1)"

definition month_of_day :: "int \<Rightarrow> int \<Rightarrow> int" where
  "month_of_day y r =
     (if r < day_in_year y 2 then 1 else if r < day_in_year y 3 then 2
      else if r < day_in_year y 4 then 3 else if r < day_in_year y 5 then 4
      else if r < day_in_year y 6 then 5 else if r < day_in_year y 7 then 6
      else if r < day_in_year y 8 then 7 else if r < day_in_year y 9 then 8
      else if r < day_in_year y 10 then 9 else if r < day_in_year y 11 then 10
      else if r < day_in_year y 12 then 11 else 12)"

definition civil :: "int \<Rightarrow> int \<times> int \<times> int" where
  "civil n =
     (let y = year_of_day n; r = n - day_from_year y; m = month_of_day y r
      in (y, m, r - day_in_year y m + 1))"

text \<open>Equations for evaluation, in which every intermediate value is an argument.\<close>

definition year_near :: "int \<Rightarrow> int \<Rightarrow> int" where
  "year_near n y = (if day_from_year (y + 1) \<le> n then y + 1 else if day_from_year y \<le> n then y else y - 1)"

definition civil_at :: "int \<Rightarrow> int \<Rightarrow> int \<Rightarrow> int \<times> int \<times> int" where
  "civil_at y r m = (y, m, r - day_in_year y m + 1)"

definition civil_in :: "int \<Rightarrow> int \<Rightarrow> int \<times> int \<times> int" where
  "civil_in y r = civil_at y r (month_of_day y r)"

definition civil_of :: "int \<Rightarrow> int \<Rightarrow> int \<times> int \<times> int" where
  "civil_of n y = civil_in y (n - day_from_year y)"

lemma year_of_day_code [code]: "year_of_day n = year_near n (1970 + (400 * n) div 146097)"
  by (simp add: year_of_day_def year_near_def)

lemma civil_code [code]: "civil n = civil_of n (year_of_day n)"
  by (simp add: civil_def civil_of_def civil_in_def civil_at_def Let_def)

definition valid_ymd :: "int \<Rightarrow> int \<Rightarrow> int \<Rightarrow> bool" where
  "valid_ymd y m d \<longleftrightarrow> 1 \<le> m \<and> m \<le> 12 \<and> 1 \<le> d \<and> d \<le> month_len y m"

lemma div_Suc: "0 < k \<Longrightarrow> (x + 1 :: int) div k = x div k + (if (x + 1) mod k = 0 then 1 else 0)"
proof -
  assume k: "0 < k"
  define q r where "q = x div k" and "r = x mod k"
  then have x: "x = q * k + r" and r: "0 \<le> r" "r < k" using k by simp_all
  show ?thesis
  proof (cases "r + 1 = k")
    case True
    then have "x + 1 = (q + 1) * k" using x by (simp add: algebra_simps)
    then have "(x + 1) div k = q + 1" "(x + 1) mod k = 0" using k by simp_all
    then show ?thesis unfolding q_def by simp
  next
    case False
    then have "(q * k + (r + 1)) div k = q" "(q * k + (r + 1)) mod k = r + 1" using r k by simp_all
    moreover have "x + 1 = q * k + (r + 1)" using x by simp
    ultimately have "(x + 1) div k = q" "(x + 1) mod k = r + 1" by (simp_all only:)
    then show ?thesis using r(1) unfolding q_def by simp
  qed
qed

lemma leap_cases:
  "y mod 400 = 0 \<Longrightarrow> y mod 100 = (0 :: int)" "y mod 100 = 0 \<Longrightarrow> y mod 4 = (0 :: int)"
  by (auto simp: mod_eq_0_iff_dvd intro: dvd_trans [of _ "100"] dvd_trans [of _ "400"])

lemma mod_shift: "k dvd c \<Longrightarrow> (y - c :: int) mod k = y mod k"
  by (simp add: mod_eq_dvd_iff)

lemma day_from_year_Suc: "day_from_year (y + 1) = day_from_year y + (if leap y then 366 else 365)"
proof -
  define p q r where "p \<longleftrightarrow> y mod 4 = 0" and "q \<longleftrightarrow> y mod 100 = 0" and "r \<longleftrightarrow> y mod 400 = 0"
  have m: "(y - 1968) mod 4 = y mod 4" "(y - 1900) mod 100 = y mod 100" "(y - 1600) mod 400 = y mod 400"
    by (rule mod_shift, simp)+
  have "y - 1969 + 1 = y - 1968" "y - 1901 + 1 = y - 1900" "y - 1601 + 1 = y - 1600" by simp_all
  then have d: "(y - 1968) div 4 = (y - 1969) div 4 + (if p then 1 else 0)"
    "(y - 1900) div 100 = (y - 1901) div 100 + (if q then 1 else 0)"
    "(y - 1600) div 400 = (y - 1601) div 400 + (if r then 1 else 0)"
    using div_Suc [of 4 "y - 1969"] div_Suc [of 100 "y - 1901"] div_Suc [of 400 "y - 1601"] m
    by (simp_all only: p_def q_def r_def zero_less_numeral simp_thms)
  have e: "y + 1 - 1969 = y - 1968" "y + 1 - 1901 = y - 1900" "y + 1 - 1601 = y - 1600" by simp_all
  have "r \<Longrightarrow> q" "q \<Longrightarrow> p" unfolding p_def q_def r_def by (fact leap_cases)+
  then show ?thesis unfolding day_from_year_def e d leap_def p_def [symmetric] q_def [symmetric] r_def [symmetric]
    by (cases p; cases q; cases r) simp_all
qed

lemma day_from_year_bounds:
  "146097 * (y - 1970) - 800 \<le> 400 * day_from_year y"
  "400 * day_from_year y \<le> 146097 * (y - 1970) + 800"
proof -
  define a b c where "a = (y - 1969) div 4" and "b = (y - 1901) div 100" and "c = (y - 1601) div 400"
  have d: "day_from_year y = 365 * (y - 1970) + a - b + c"
    by (simp add: day_from_year_def a_def b_def c_def)
  have e: "x - (k - 1) \<le> k * (x div k) \<and> k * (x div k) \<le> x" if "0 < k" for x k :: int
    using that pos_mod_bound [of k x] pos_mod_sign [of k x] mult_div_mod_eq [of k x] by linarith
  have f: "y - 1972 \<le> 4 * a" "4 * a \<le> y - 1969" "y - 2000 \<le> 100 * b" "100 * b \<le> y - 1901"
    "y - 2000 \<le> 400 * c" "400 * c \<le> y - 1601"
    using e [of 4 "y - 1969", folded a_def] e [of 100 "y - 1901", folded b_def]
      e [of 400 "y - 1601", folded c_def] by simp_all
  have g: "400 * day_from_year y = 146097 * (y - 1970) - 97 * y + 191090 + 400 * a - 400 * b + 400 * c"
    unfolding d by (simp add: algebra_simps)
  show "146097 * (y - 1970) - 800 \<le> 400 * day_from_year y" using f unfolding g by linarith
  show "400 * day_from_year y \<le> 146097 * (y - 1970) + 800" using f unfolding g by linarith
qed

lemma year_of_day_bounds: "day_from_year (year_of_day n) \<le> n \<and> n < day_from_year (year_of_day n + 1)"
proof -
  define y where "y = 1970 + (400 * n) div 146097"
  define k where "k = (400 * n) div 146097"
  have "0 \<le> 400 * n mod 146097" "400 * n mod 146097 < 146097" by simp_all
  then have k: "146097 * k \<le> 400 * n" "400 * n < 146097 * k + 146097"
    using mult_div_mod_eq [of 146097 "400 * n"] unfolding k_def by linarith+
  have y: "146097 * (y - 1970) \<le> 400 * n" "400 * n < 146097 * (y - 1970) + 146097"
    using k unfolding y_def k_def [symmetric] by simp_all
  have "day_from_year (y - 1) \<le> n" using day_from_year_bounds(2) [of "y - 1"] y by simp
  moreover have "n < day_from_year (y + 2)" using day_from_year_bounds(1) [of "y + 2"] y by simp
  moreover have "year_of_day n = (if day_from_year (y + 1) \<le> n then y + 1
      else if day_from_year y \<le> n then y else y - 1)"
    unfolding year_of_day_def y_def Let_def by simp
  ultimately show ?thesis by (auto simp: add.commute)
qed

lemma month_cases:
  assumes "1 \<le> m" "m \<le> (12 :: int)"
  obtains "m = 1" | "m = 2" | "m = 3" | "m = 4" | "m = 5" | "m = 6" | "m = 7" | "m = 8" | "m = 9"
    | "m = 10" | "m = 11" | "m = 12"
proof -
  have "m = 1 \<or> m = 2 \<or> m = 3 \<or> m = 4 \<or> m = 5 \<or> m = 6 \<or> m = 7 \<or> m = 8 \<or> m = 9 \<or> m = 10 \<or> m = 11 \<or> m = 12"
    using assms by arith
  with that show thesis by blast
qed

lemma day_in_year_Suc:
  assumes "1 \<le> m" "m \<le> 12"
  shows "day_in_year y (m + 1) = day_in_year y m + month_len y m"
  using assms by (cases rule: month_cases) (simp_all add: day_in_year_def month_len_def)

lemma month_len_bounds: "28 \<le> month_len y m" "month_len y m \<le> 31"
  by (simp_all add: month_len_def)

lemma day_in_year_13: "day_in_year y 13 = (if leap y then 366 else 365)"
  by (simp add: day_in_year_def)

lemma day_in_year_mono:
  assumes "1 \<le> m" "m \<le> k" "k \<le> 13"
  shows "day_in_year y m \<le> day_in_year y k"
  using assms(2,3)
proof (induction k rule: int_ge_induct)
  case (step k)
  then show ?case using day_in_year_Suc [of k y] month_len_bounds [of y k] assms(1) by simp
qed simp

lemma month_of_day_bounds:
  assumes "0 \<le> r" "r < day_in_year y 13"
  shows "1 \<le> month_of_day y r \<and> month_of_day y r \<le> 12 \<and> day_in_year y (month_of_day y r) \<le> r
    \<and> r < day_in_year y (month_of_day y r + 1)"
  using assms by (simp add: month_of_day_def) (simp add: day_in_year_def)

lemma day_number_in_year:
  assumes "valid_ymd y m d"
  shows "day_from_year y \<le> day_number y m d" "day_number y m d < day_from_year (y + 1)"
proof -
  have "day_in_year y 1 \<le> day_in_year y m" "day_in_year y (m + 1) \<le> day_in_year y 13"
    using assms by (auto simp: valid_ymd_def intro!: day_in_year_mono)
  moreover have "day_in_year y 1 = 0" by (simp add: day_in_year_def)
  ultimately show "day_from_year y \<le> day_number y m d" "day_number y m d < day_from_year (y + 1)"
    using assms by (auto simp: valid_ymd_def day_number_def day_from_year_Suc day_in_year_13 day_in_year_Suc)
qed

lemma day_from_year_mono: "y \<le> z \<Longrightarrow> day_from_year y \<le> day_from_year z"
  by (induction z rule: int_ge_induct) (auto simp: day_from_year_Suc)

lemma day_number_mono:
  assumes "valid_ymd y m d" and "valid_ymd y' m' d'"
    and "y < y' \<or> y = y' \<and> (m < m' \<or> m = m' \<and> d < d')"
  shows "day_number y m d < day_number y' m' d'"
proof -
  consider "y < y'" | "y = y'" "m < m'" | "y = y'" "m = m'" "d < d'" using assms(3) by blast
  then show ?thesis
  proof cases
    case 1
    then have "day_from_year (y + 1) \<le> day_from_year y'" by (intro day_from_year_mono) simp
    then show ?thesis using day_number_in_year [OF assms(1)] day_number_in_year [OF assms(2)] by simp
  next
    case 2
    then have "day_in_year y (m + 1) \<le> day_in_year y m'" using assms(1,2)
      by (intro day_in_year_mono) (auto simp: valid_ymd_def)
    then show ?thesis using assms(1,2) 2 by (auto simp: valid_ymd_def day_number_def day_in_year_Suc)
  qed (simp add: day_number_def)
qed

lemma day_number_less_iff:
  assumes "valid_ymd y m d" and "valid_ymd y' m' d'"
  shows "day_number y m d < day_number y' m' d' \<longleftrightarrow> y < y' \<or> y = y' \<and> (m < m' \<or> m = m' \<and> d < d')"
  using day_number_mono [OF assms] day_number_mono [OF assms(2,1)] by (metis less_irrefl less_trans linorder_neqE)

lemma day_number_inj:
  assumes "valid_ymd y m d" and "valid_ymd y' m' d'" and "day_number y m d = day_number y' m' d'"
  shows "y = y' \<and> m = m' \<and> d = d'"
  using day_number_less_iff [OF assms(1,2)] day_number_less_iff [OF assms(2,1)] assms(3) by auto

lemma civil_day_number:
  assumes "civil n = (y, m, d)"
  shows "valid_ymd y m d \<and> day_number y m d = n"
proof -
  let ?y = "year_of_day n"
  have "0 \<le> n - day_from_year ?y" "n - day_from_year ?y < day_in_year ?y 13"
    using year_of_day_bounds [of n] by (simp_all add: day_from_year_Suc day_in_year_13)
  from month_of_day_bounds [OF this] assms show ?thesis
    by (auto simp: civil_def Let_def valid_ymd_def day_number_def day_in_year_Suc)
qed

lemma day_number_civil:
  assumes "valid_ymd y m d"
  shows "civil (day_number y m d) = (y, m, d)"
proof -
  obtain y' m' d' where c: "civil (day_number y m d) = (y', m', d')" by (metis prod_cases3)
  from civil_day_number [OF c] day_number_inj assms have "y = y' \<and> m = m' \<and> d = d'" by blast
  with c show ?thesis by simp
qed

lemma valid_civil [simp]: "case civil n of (y, m, d) \<Rightarrow> valid_ymd y m d"
  using civil_day_number by (auto split: prod.split)

section \<open>Ledger dates\<close>

text \<open>\<open>String(n)\<close> of an integer that may be NaN or negative.\<close>

definition String_of_int :: "int option \<Rightarrow> string" where
  "String_of_int a =
     (case a of None \<Rightarrow> ''NaN'' | Some n \<Rightarrow> if n < 0 then ''-'' @ String_of (nat (- n)) else String_of (nat n))"

definition format :: "int option \<Rightarrow> int option \<Rightarrow> int option \<Rightarrow> string" where
  "format year month day =
     padStart 4 CHR ''0'' (String_of_int year) @ ''-'' @ padStart 2 CHR ''0'' (String_of_int month) @ ''-'' @
     padStart 2 CHR ''0'' (String_of_int day)"

definition is_ymd :: "string \<Rightarrow> bool" where
  "is_ymd s \<longleftrightarrow>
     length s = 10 \<and> s ! 4 = CHR ''-'' \<and> s ! 7 = CHR ''-'' \<and>
     list_all is_digit (slice 0 4 s) \<and> list_all is_digit (slice 5 7 s) \<and> list_all is_digit (slice 8 10 s)"

definition parts :: "string \<Rightarrow> (int \<times> int \<times> int) result" where
  "parts date =
     (if is_ymd date
      then Inr (int (from_base 10 (slice 0 4 date)), int (from_base 10 (slice 5 7 date)),
                int (from_base 10 (slice 8 10 date)))
      else Inl (Error (''Expected a YYYY-MM-DD date, got \"'' @ date @ ''\"'')))"

record DateRange =
  range_from :: string
  range_to :: string

definition addDays :: "string \<Rightarrow> int \<Rightarrow> string result" where
  "addDays date days =
     (case parts date of
        Inl e \<Rightarrow> Inl e
      | Inr (year, month, day) \<Rightarrow>
          Inr (case time_clip (make_day (full_year year) (month - 1) (day + days)) of
                 None \<Rightarrow> format None None None
               | Some n \<Rightarrow> (case civil n of (y, m, d) \<Rightarrow> format (Some y) (Some m) (Some d))))"

text \<open>\<open>new Date(year, month, 0).getDate()\<close>: day zero is the last day of the month before.\<close>

definition daysInMonth :: "int \<Rightarrow> int \<Rightarrow> int option" where
  "daysInMonth year month =
     map_option (\<lambda>n. snd (snd (civil n))) (time_clip (make_day (full_year year) month 0))"

definition civil_day :: "int \<Rightarrow> int" where
  "civil_day n = snd (snd (civil n))"

lemma daysInMonth_code [code]:
  "daysInMonth year month = map_option civil_day (time_clip (make_day (full_year year) month 0))"
  by (simp add: daysInMonth_def civil_day_def [abs_def])

text \<open>The remainder \<open>%\<close> takes the sign of its left operand.\<close>

definition js_rem :: "int \<Rightarrow> int \<Rightarrow> int" where
  "js_rem a b = sgn a * (\<bar>a\<bar> mod \<bar>b\<bar>)"

definition addMonths :: "string \<Rightarrow> int \<Rightarrow> string result" where
  "addMonths date months =
     (case parts date of
        Inl e \<Rightarrow> Inl e
      | Inr (year, month, day) \<Rightarrow>
          let absolute = year * 12 + (month - 1) + months;
              targetYear = absolute div 12;
              targetMonth = js_rem absolute 12 + 1
          in Inr (format (Some targetYear) (Some targetMonth)
                    (map_option (min day) (daysInMonth targetYear targetMonth))))"

definition month_at :: "int \<Rightarrow> int \<Rightarrow> int \<Rightarrow> string" where
  "month_at day y m = format (Some y) (Some m) (map_option (min day) (daysInMonth y m))"

definition months_at :: "int \<Rightarrow> int \<Rightarrow> string" where
  "months_at day a = month_at day (a div 12) (js_rem a 12 + 1)"

lemma addMonths_code [code]:
  "addMonths date months =
     (case parts date of
        Inl e \<Rightarrow> Inl e
      | Inr (year, month, day) \<Rightarrow> Inr (months_at day (year * 12 + (month - 1) + months)))"
  by (simp add: addMonths_def months_at_def month_at_def Let_def split: sum.split prod.split)

definition monthKey :: "string \<Rightarrow> string" where
  "monthKey date = slice 0 7 date"

definition within :: "string \<Rightarrow> DateRange \<Rightarrow> bool" where
  "within date rng \<longleftrightarrow> date \<ge> range_from rng \<and> date \<le> range_to rng"

definition startOfMonth :: "string \<Rightarrow> string" where
  "startOfMonth monthOrDate = slice 0 7 monthOrDate @ ''-01''"

text \<open>\<open>toIsoDate\<close> of a \<open>Date\<close> given by its local day number; \<open>toISOString\<close> throws on an invalid
  date and writes a year outside 0 to 9999 with a sign and six digits.\<close>

definition invalid_time :: error where
  "invalid_time = Error ''Invalid time value''"

definition toIsoDate :: "int option \<Rightarrow> string result" where
  "toIsoDate date =
     (case date of
        None \<Rightarrow> Inl invalid_time
      | Some n \<Rightarrow> (case civil n of (y, m, d) \<Rightarrow>
          let iso = (if 0 \<le> y \<and> y \<le> 9999 then padStart 4 CHR ''0'' (String_of (nat y))
                     else (if y < 0 then ''-'' else ''+'') @ padStart 6 CHR ''0'' (String_of (nat \<bar>y\<bar>))) @
                ''-'' @ padStart 2 CHR ''0'' (String_of (nat m)) @ ''-'' @ padStart 2 CHR ''0'' (String_of (nat d)) @
                ''T00:00:00.000Z''
          in Inr (slice 0 10 iso)))"

definition new_Date :: "int \<Rightarrow> int \<Rightarrow> int \<Rightarrow> int option" where
  "new_Date y m d = time_clip (make_day (full_year y) m d)"

definition currentMonth :: "int option \<Rightarrow> DateRange result" where
  "currentMonth today =
     (case today of
        None \<Rightarrow> Inl invalid_time
      | Some n \<Rightarrow> (case civil n of (y, m, d) \<Rightarrow>
          case (toIsoDate (new_Date y (m - 1) 1), toIsoDate (new_Date y (m - 1 + 1) 0)) of
            (Inl e, _) \<Rightarrow> Inl e
          | (Inr _, Inl e) \<Rightarrow> Inl e
          | (Inr f, Inr l) \<Rightarrow> Inr \<lparr>range_from = f, range_to = l\<rparr>))"

text \<open>\<open>new Date(from + 'T00:00:00')\<close>: an ISO date with month 1 to 12 and day 1 to 31; a day the
  month does not have rolls over.\<close>

definition parse_local :: "string \<Rightarrow> int option" where
  "parse_local s =
     (case parts s of
        Inl _ \<Rightarrow> None
      | Inr (y, m, d) \<Rightarrow> if 1 \<le> m \<and> m \<le> 12 \<and> 1 \<le> d \<and> d \<le> 31 then time_clip (day_number y m d) else None)"

definition shiftMonth :: "DateRange \<Rightarrow> int \<Rightarrow> DateRange result" where
  "shiftMonth rng delta =
     (case parse_local (range_from rng) of
        None \<Rightarrow> Inl invalid_time
      | Some n \<Rightarrow> (case civil n of (y, m, d) \<Rightarrow> currentMonth (new_Date y (m - 1 + delta) 1)))"

definition endOfMonth :: "string \<Rightarrow> string result" where
  "endOfMonth monthOrDate =
     (case (js_Number (slice 0 4 monthOrDate), js_Number (slice 5 7 monthOrDate)) of
        (Some year, Some month) \<Rightarrow> toIsoDate (new_Date (int year) (int month) 0)
      | _ \<Rightarrow> Inl invalid_time)"

text \<open>The bounded loop of \<open>monthsIn\<close>: \<open>guard\<close> is the number of iterations left.\<close>

definition month_key_of :: "jsnat \<Rightarrow> jsnat \<Rightarrow> string" where
  "month_key_of year month =
     padStart 4 CHR ''0'' (js_show 10 year) @ ''-'' @ padStart 2 CHR ''0'' (js_show 10 month)"

fun months_loop :: "nat \<Rightarrow> jsnat \<Rightarrow> jsnat \<Rightarrow> string \<Rightarrow> string list" where
  "months_loop 0 year month final = []"
| "months_loop (Suc guard) year month final =
     (let key = month_key_of year month
      in key # (if key \<ge> final then []
                else if js_gt (js_succ month) (Some 12) then months_loop guard (js_succ year) (Some 1) final
                else months_loop guard year (js_succ month) final))"

definition monthsIn :: "DateRange \<Rightarrow> string list" where
  "monthsIn rng =
     (if range_to rng < range_from rng then []
      else months_loop 1200 (js_Number (slice 0 4 (range_from rng)))
             (js_Number (slice 5 7 (range_from rng))) (monthKey (range_to rng)))"

section \<open>Dates and day numbers\<close>

definition iso :: "int \<Rightarrow> int \<Rightarrow> int \<Rightarrow> string" where
  "iso y m d = fixed 10 4 (nat y) @ ''-'' @ fixed 10 2 (nat m) @ ''-'' @ fixed 10 2 (nat d)"

definition iso_bounds :: "int \<Rightarrow> int \<Rightarrow> int \<Rightarrow> bool" where
  "iso_bounds y m d \<longleftrightarrow> 0 \<le> y \<and> y \<le> 9999 \<and> 0 \<le> m \<and> m \<le> 99 \<and> 0 \<le> d \<and> d \<le> 99"

lemma format_iso: "iso_bounds y m d \<Longrightarrow> format (Some y) (Some m) (Some d) = iso y m d"
proof -
  assume b: "iso_bounds y m d"
  then have "nat y < 10 ^ 4" "nat m < 10 ^ 2" "nat d < 10 ^ 2" by (auto simp: iso_bounds_def)
  with b show ?thesis
    by (auto simp: format_def iso_def iso_bounds_def String_of_int_def padStart_to_base simp del: fixed.simps)
qed

lemma list10: "length s = 10 \<Longrightarrow>
  s = [s ! 0, s ! 1, s ! 2, s ! 3, s ! 4, s ! 5, s ! 6, s ! 7, s ! 8, s ! 9]"
  by (rule nth_equalityI) (auto simp: nth_Cons' less_Suc_eq numeral_eq_Suc)

lemma slice_iso:
  "length a = 4 \<Longrightarrow> length b = 2 \<Longrightarrow> length c = 2 \<Longrightarrow>
   slice 0 4 (a @ x # b @ y # c) = a \<and> slice 5 7 (a @ x # b @ y # c) = b \<and> slice 8 10 (a @ x # b @ y # c) = c
   \<and> (a @ x # b @ y # c) ! 4 = x \<and> (a @ x # b @ y # c) ! 7 = y"
  by (simp add: slice_def nth_append)

lemma parts_iso: "iso_bounds y m d \<Longrightarrow> parts (iso y m d) = Inr (y, m, d)"
proof -
  assume b: "iso_bounds y m d"
  have f: "from_base 10 (fixed 10 4 (nat y)) = nat y" "from_base 10 (fixed 10 2 (nat m)) = nat m"
    "from_base 10 (fixed 10 2 (nat d)) = nat d"
    using b by (auto simp: iso_bounds_def intro!: from_base_fixed)
  note sl = slice_iso [of "fixed 10 4 (nat y)" "fixed 10 2 (nat m)" "fixed 10 2 (nat d)"
      "CHR ''-''" "CHR ''-''", simplified length_fixed, simplified]
  have "list_all is_digit (fixed 10 w n)" for w n by (auto simp: list_all_iff)
  then show ?thesis using b f
    by (simp add: parts_def is_ymd_def iso_def sl iso_bounds_def del: fixed.simps)
qed


lemma is_digit_char: "is_digit c \<Longrightarrow> char_digit c < 10 \<and> digit_char (char_digit c) = c"
proof -
  assume "is_digit c"
  then have "48 \<le> (of_char c :: nat)" "of_char c \<le> (57 :: nat)" by (simp_all add: is_digit_def less_eq_char_def)
  then show ?thesis by (auto simp: char_digit_def digit_char_def Let_def)
qed

lemma fixed_from_base:
  "list_all is_digit s \<Longrightarrow> fixed 10 (length s) (from_base 10 s) = s \<and> from_base 10 s < 10 ^ length s"
proof (induction s rule: rev_induct)
  case Nil
  then show ?case by simp
next
  case (snoc c s)
  then have c: "char_digit c < 10" "digit_char (char_digit c) = c" by (simp_all add: is_digit_char)
  from snoc have IH: "fixed 10 (length s) (from_base 10 s) = s" "from_base 10 s < 10 ^ length s" by simp_all
  have "(from_base 10 s * 10 + char_digit c) div 10 = from_base 10 s"
    "(from_base 10 s * 10 + char_digit c) mod 10 = char_digit c" using c(1) by simp_all
  with IH c show ?case by simp
qed

lemma parts_Inr:
  assumes "parts s = Inr (y, m, d)"
  shows "iso_bounds y m d \<and> s = iso y m d"
proof -
  from assms have w: "is_ymd s"
    and v: "y = int (from_base 10 (slice 0 4 s))" "m = int (from_base 10 (slice 5 7 s))"
      "d = int (from_base 10 (slice 8 10 s))"
    by (auto simp: parts_def split: if_splits)
  from w have l: "length s = 10" by (simp add: is_ymd_def)
  then have len: "length (slice 0 4 s) = 4" "length (slice 5 7 s) = 2" "length (slice 8 10 s) = 2"
    by (simp_all add: slice_def)
  have "s = slice 0 4 s @ [s ! 4] @ slice 5 7 s @ [s ! 7] @ slice 8 10 s"
  proof -
    obtain a b c d' e f g h i j where "s = [a, b, c, d', e, f, g, h, i, j]" using list10 [OF l] by blast
    then show ?thesis by (simp add: slice_def)
  qed
  moreover have "fixed 10 4 (nat y) = slice 0 4 s \<and> nat y < 10 ^ 4"
    "fixed 10 2 (nat m) = slice 5 7 s \<and> nat m < 10 ^ 2"
    "fixed 10 2 (nat d) = slice 8 10 s \<and> nat d < 10 ^ 2"
    using w fixed_from_base [of "slice 0 4 s"] fixed_from_base [of "slice 5 7 s"]
      fixed_from_base [of "slice 8 10 s"]
    by (simp_all add: v len is_ymd_def del: fixed.simps)
  ultimately show ?thesis using w v by (auto simp: iso_def iso_bounds_def is_ymd_def)
qed


lemma fixed_nat:
  assumes "0 \<le> a" "0 \<le> b" "nat a < 10 ^ w" "nat b < 10 ^ w"
  shows "fixed 10 w (nat a) < fixed 10 w (nat b) \<longleftrightarrow> a < b" "fixed 10 w (nat a) = fixed 10 w (nat b) \<longleftrightarrow> a = b"
  using fixed_less_iff [of 10 "nat a" w "nat b"] fixed_inj [of 10 "nat a" w "nat b"] assms by auto

lemma iso_less_iff:
  assumes "iso_bounds y m d" and "iso_bounds y' m' d'"
  shows "iso y m d < iso y' m' d' \<longleftrightarrow> y < y' \<or> y = y' \<and> (m < m' \<or> m = m' \<and> d < d')"
proof -
  have lt: "nat y < 10 ^ 4" "nat y' < 10 ^ 4" "nat m < 10 ^ 2" "nat m' < 10 ^ 2" "nat d < 10 ^ 2" "nat d' < 10 ^ 2"
    and pos: "0 \<le> y" "0 \<le> y'" "0 \<le> m" "0 \<le> m'" "0 \<le> d" "0 \<le> d'"
    using assms by (auto simp: iso_bounds_def)
  show ?thesis
    by (simp add: iso_def append_less_iff fixed_nat [OF pos(1,2) lt(1,2)] fixed_nat [OF pos(3,4) lt(3,4)]
        fixed_nat [OF pos(5,6) lt(5,6)] del: fixed.simps)
qed

text \<open>The dates of the ledger: calendar dates from the year 100 to the year 9999. Below the
  year 100 the \<open>Date\<close> constructor answers for another century.\<close>

definition ymd :: "string \<Rightarrow> int \<times> int \<times> int" where
  "ymd s = (case parts s of Inr p \<Rightarrow> p | Inl _ \<Rightarrow> (0, 0, 0))"

definition dayno :: "string \<Rightarrow> int" where
  "dayno s = (case ymd s of (y, m, d) \<Rightarrow> day_number y m d)"

definition ledger_date :: "string \<Rightarrow> bool" where
  "ledger_date s \<longleftrightarrow> (case parts s of Inr (y, m, d) \<Rightarrow> 100 \<le> y \<and> valid_ymd y m d | Inl _ \<Rightarrow> False)"

definition in_calendar :: "int \<Rightarrow> bool" where
  "in_calendar n \<longleftrightarrow> day_number 100 1 1 \<le> n \<and> n \<le> day_number 9999 12 31"

lemma valid_bounds: "valid_ymd y m d \<Longrightarrow> 0 \<le> y \<Longrightarrow> y \<le> 9999 \<Longrightarrow> iso_bounds y m d"
  using month_len_bounds(2) [of y m] by (auto simp: valid_ymd_def iso_bounds_def)

lemma ledger_dateE:
  assumes "ledger_date s"
  obtains y m d where "parts s = Inr (y, m, d)" "s = iso y m d" "100 \<le> y" "y \<le> 9999" "valid_ymd y m d"
    "ymd s = (y, m, d)" "dayno s = day_number y m d" "iso_bounds y m d"
proof -
  from assms obtain y m d where p: "parts s = Inr (y, m, d)" "100 \<le> y" "valid_ymd y m d"
    by (auto simp: ledger_date_def split: sum.splits)
  with parts_Inr [OF p(1)] that show thesis by (auto simp: ymd_def dayno_def iso_bounds_def)
qed

lemma ledger_date_iso:
  assumes "valid_ymd y m d" "100 \<le> y" "y \<le> 9999"
  shows "ledger_date (iso y m d)" "ymd (iso y m d) = (y, m, d)" "dayno (iso y m d) = day_number y m d"
  using parts_iso [OF valid_bounds [OF assms(1)]] assms by (simp_all add: ledger_date_def ymd_def dayno_def)

lemma ledger_date_less_iff:
  assumes "ledger_date s" and "ledger_date t"
  shows "s < t \<longleftrightarrow> dayno s < dayno t"
  using assms by (auto elim!: ledger_dateE simp: iso_less_iff day_number_less_iff)

lemma ledger_date_inj:
  assumes "ledger_date s" and "ledger_date t"
  shows "s = t \<longleftrightarrow> dayno s = dayno t"
  using ledger_date_less_iff [OF assms] ledger_date_less_iff [OF assms(2,1)] by (metis less_irrefl linorder_neqE)

lemma ledger_date_le_iff:
  assumes "ledger_date s" and "ledger_date t"
  shows "s \<le> t \<longleftrightarrow> dayno s \<le> dayno t"
  using ledger_date_less_iff [OF assms(2,1)] by (simp add: not_less [symmetric])

lemma in_calendar_year:
  assumes "valid_ymd y m d"
  shows "in_calendar (day_number y m d) \<longleftrightarrow> 100 \<le> y \<and> y \<le> 9999"
proof -
  have v: "valid_ymd 100 1 1" "valid_ymd 9999 12 31" by (simp_all add: valid_ymd_def month_len_def)
  show ?thesis
    using assms month_len_bounds(2) [of y m]
    by (auto simp: in_calendar_def not_less [symmetric] day_number_less_iff [OF assms v(1)]
        day_number_less_iff [OF v(2) assms] valid_ymd_def)
qed

lemma in_calendar_dayno: "ledger_date s \<Longrightarrow> in_calendar (dayno s)"
  by (auto elim!: ledger_dateE simp: in_calendar_year)

lemma time_clip_calendar: "in_calendar n \<Longrightarrow> time_clip n = Some n"
  by (auto simp: in_calendar_def time_clip_def day_number_def day_from_year_def day_in_year_def leap_def abs_le_iff)

lemma make_day_month: "1 \<le> m \<Longrightarrow> m \<le> 12 \<Longrightarrow> make_day y (m - 1) d = day_number y m d"
  by (simp add: make_day_def)

section \<open>Shifting dates\<close>

definition date_of_day :: "int \<Rightarrow> string" where
  "date_of_day n = (case civil n of (y, m, d) \<Rightarrow> iso y m d)"

lemma date_of_day:
  assumes "in_calendar n"
  shows "ledger_date (date_of_day n)" "dayno (date_of_day n) = n"
proof -
  obtain y m d where c: "civil n = (y, m, d)" by (metis prod_cases3)
  with civil_day_number assms in_calendar_year have "valid_ymd y m d" "day_number y m d = n" "100 \<le> y" "y \<le> 9999"
    by blast+
  then show "ledger_date (date_of_day n)" "dayno (date_of_day n) = n"
    by (simp_all add: date_of_day_def c ledger_date_iso)
qed

lemma date_of_dayno [simp]: "ledger_date s \<Longrightarrow> date_of_day (dayno s) = s"
  using date_of_day [OF in_calendar_dayno] ledger_date_inj by blast

lemma addDays_day:
  assumes "ledger_date s" and "in_calendar (dayno s + k)"
  shows "addDays s k = Inr (date_of_day (dayno s + k))"
proof -
  from assms(1) obtain y m d where s: "parts s = Inr (y, m, d)" "100 \<le> y" "valid_ymd y m d"
    "dayno s = day_number y m d" by (rule ledger_dateE)
  have n: "make_day (full_year y) (m - 1) (d + k) = dayno s + k"
    using s by (simp add: full_year_def valid_ymd_def make_day_month) (simp add: day_number_def)
  obtain y' m' d' where c: "civil (dayno s + k) = (y', m', d')" by (metis prod_cases3)
  with assms(2) civil_day_number [OF c] have v: "valid_ymd y' m' d'" "100 \<le> y'" "y' \<le> 9999"
    using in_calendar_year [of y' m' d'] by auto
  then have "format (Some y') (Some m') (Some d') = iso y' m' d'" by (intro format_iso valid_bounds) auto
  with c show ?thesis by (simp add: addDays_def s(1) n time_clip_calendar [OF assms(2)] date_of_day_def)
qed

lemma day_zero: "1 \<le> m \<Longrightarrow> m \<le> 12 \<Longrightarrow> make_day y m 0 = day_number y m (month_len y m)"
proof (cases "m = 12")
  case True
  then show ?thesis
    using day_in_year_Suc [of 12 y] by (simp add: make_day_def day_number_def day_from_year_Suc day_in_year_13 day_in_year_def)
next
  case False
  assume "1 \<le> m" "m \<le> 12"
  with False have "m div 12 = 0" "m mod 12 = m" by simp_all
  then show ?thesis using \<open>1 \<le> m\<close> False \<open>m \<le> 12\<close> by (simp add: make_day_def day_number_def day_in_year_Suc)
qed

lemma daysInMonth_len:
  assumes "100 \<le> y" "y \<le> 9999" "1 \<le> m" "m \<le> 12"
  shows "daysInMonth y m = Some (month_len y m)"
proof -
  have v: "valid_ymd y m (month_len y m)" using assms month_len_bounds(1) [of y m] by (simp add: valid_ymd_def)
  have "make_day y m 0 = day_number y m (month_len y m)" using assms by (intro day_zero)
  moreover have "in_calendar (day_number y m (month_len y m))" using v assms by (simp add: in_calendar_year)
  ultimately show ?thesis using assms(1)
    by (simp add: daysInMonth_def full_year_def time_clip_calendar day_number_civil [OF v])
qed

text \<open>Month arithmetic: a date's month counted from year zero, and the day a month clamps to.\<close>

definition monthno :: "string \<Rightarrow> int" where
  "monthno s = (case ymd s of (y, m, d) \<Rightarrow> y * 12 + (m - 1))"

definition day_of_month :: "string \<Rightarrow> int" where
  "day_of_month s = snd (snd (ymd s))"

definition in_month_calendar :: "int \<Rightarrow> bool" where
  "in_month_calendar a \<longleftrightarrow> 1200 \<le> a \<and> a \<le> 119999"

definition clamped :: "int \<Rightarrow> int \<Rightarrow> string" where
  "clamped a d = iso (a div 12) (a mod 12 + 1) (min d (month_len (a div 12) (a mod 12 + 1)))"

lemma month_calendar_year: "in_month_calendar a \<Longrightarrow> 100 \<le> a div 12 \<and> a div 12 \<le> 9999"
  by (auto simp: in_month_calendar_def)

lemma clamped_date:
  assumes "in_month_calendar a" and "1 \<le> d"
  shows "ledger_date (clamped a d)" "monthno (clamped a d) = a"
    "day_of_month (clamped a d) = min d (month_len (a div 12) (a mod 12 + 1))"
proof -
  have "valid_ymd (a div 12) (a mod 12 + 1) (min d (month_len (a div 12) (a mod 12 + 1)))"
    using assms(2) month_len_bounds(1) [of "a div 12" "a mod 12 + 1"] by (auto simp: valid_ymd_def)
  from ledger_date_iso [OF this] month_calendar_year [OF assms(1)]
  show "ledger_date (clamped a d)" "monthno (clamped a d) = a"
    "day_of_month (clamped a d) = min d (month_len (a div 12) (a mod 12 + 1))"
    by (simp_all add: clamped_def monthno_def day_of_month_def)
qed

lemma addMonths_clamped:
  assumes "ledger_date s" and "in_month_calendar (monthno s + k)"
  shows "addMonths s k = Inr (clamped (monthno s + k) (day_of_month s))"
proof -
  from assms(1) obtain y m d where s: "parts s = Inr (y, m, d)" "valid_ymd y m d" "ymd s = (y, m, d)"
    by (rule ledger_dateE)
  define a where "a = monthno s + k"
  have a: "y * 12 + (m - 1) + k = a" by (simp add: a_def monthno_def s(3))
  have "0 \<le> a" using assms(2) by (simp add: in_month_calendar_def a_def)
  then have r: "js_rem a 12 = a mod 12" by (cases "a = 0") (simp_all add: js_rem_def)
  let ?d = "min d (month_len (a div 12) (a mod 12 + 1))"
  have y: "100 \<le> a div 12 \<and> a div 12 \<le> 9999" using assms(2) month_calendar_year by (simp add: a_def)
  have dim: "daysInMonth (a div 12) (a mod 12 + 1) = Some (month_len (a div 12) (a mod 12 + 1))"
    using y pos_mod_bound [of 12 a] pos_mod_sign [of 12 a] by (intro daysInMonth_len) auto
  have "valid_ymd (a div 12) (a mod 12 + 1) ?d"
    using s(2) month_len_bounds(1) [of "a div 12" "a mod 12 + 1"] by (auto simp: valid_ymd_def)
  then have "format (Some (a div 12)) (Some (a mod 12 + 1)) (Some ?d) = iso (a div 12) (a mod 12 + 1) ?d"
    using y by (intro format_iso valid_bounds) auto
  then show ?thesis
    by (simp add: addMonths_def s(1) Let_def a r dim clamped_def day_of_month_def s(3) a_def [symmetric])
qed

text \<open>Dates of different months compare as their months do.\<close>

lemma monthno_less:
  assumes "ledger_date s" and "ledger_date t" and "monthno s < monthno t"
  shows "s < t"
proof -
  from assms(1) obtain y m d where s: "s = iso y m d" "ymd s = (y, m, d)" "iso_bounds y m d" "valid_ymd y m d"
    by (rule ledger_dateE)
  from assms(2) obtain y' m' d' where t: "t = iso y' m' d'" "ymd t = (y', m', d')" "iso_bounds y' m' d'"
    "valid_ymd y' m' d'" by (rule ledger_dateE)
  have "y < y' \<or> y = y' \<and> m < m'"
    using assms(3) s(2,4) t(2,4) by (auto simp: monthno_def valid_ymd_def)
  then show ?thesis unfolding s(1) t(1) iso_less_iff [OF s(3) t(3)] by blast
qed

lemma monthno_eq_less:
  assumes "ledger_date s" and "ledger_date t" and "monthno s = monthno t"
  shows "s < t \<longleftrightarrow> day_of_month s < day_of_month t"
proof -
  from assms(1) obtain y m d where s: "s = iso y m d" "ymd s = (y, m, d)" "iso_bounds y m d" "valid_ymd y m d"
    by (rule ledger_dateE)
  from assms(2) obtain y' m' d' where t: "t = iso y' m' d'" "ymd t = (y', m', d')" "iso_bounds y' m' d'"
    "valid_ymd y' m' d'" by (rule ledger_dateE)
  have "y * 12 + m = y' * 12 + m'" "1 \<le> m" "m \<le> 12" "1 \<le> m'" "m' \<le> 12"
    using assms(3) s(2,4) t(2,4) by (auto simp: monthno_def valid_ymd_def)
  then have "y = y' \<and> m = m'" by presburger
  then show ?thesis unfolding s(1) t(1) iso_less_iff [OF s(3) t(3)] using s t by (simp add: day_of_month_def)
qed

lemma monthno_mono:
  assumes "ledger_date s" and "ledger_date t" and "s \<le> t"
  shows "monthno s \<le> monthno t"
  using monthno_less [OF assms(2,1)] assms(3) by (meson leD leI)


lemma addDays_0: "ledger_date s \<Longrightarrow> addDays s 0 = Inr s"
  using addDays_day [of s 0] in_calendar_dayno [of s] by simp

lemma monthno_calendar: "ledger_date s \<Longrightarrow> in_month_calendar (monthno s)"
  by (auto elim!: ledger_dateE simp: monthno_def in_month_calendar_def valid_ymd_def)

lemma day_of_month_bounds:
  assumes "ledger_date s"
  shows "1 \<le> day_of_month s" "day_of_month s \<le> month_len (monthno s div 12) (monthno s mod 12 + 1)"
proof -
  from assms obtain y m d where s: "ymd s = (y, m, d)" "valid_ymd y m d" by (rule ledger_dateE)
  then have "(y * 12 + (m - 1)) div 12 = y" "(y * 12 + (m - 1)) mod 12 = m - 1" by (auto simp: valid_ymd_def)
  with s show "1 \<le> day_of_month s" "day_of_month s \<le> month_len (monthno s div 12) (monthno s mod 12 + 1)"
    by (simp_all add: day_of_month_def monthno_def valid_ymd_def)
qed

lemma addMonths_0: "ledger_date s \<Longrightarrow> addMonths s 0 = Inr s"
proof -
  assume s: "ledger_date s"
  let ?c = "clamped (monthno s) (day_of_month s)"
  note c = clamped_date [OF monthno_calendar [OF s] day_of_month_bounds(1) [OF s]]
  have "day_of_month ?c = day_of_month s" using c(3) day_of_month_bounds(2) [OF s] by simp
  then have "?c = s" using monthno_eq_less [OF c(1) s c(2)] monthno_eq_less [OF s c(1) c(2) [symmetric]]
    by (metis less_irrefl linorder_neqE)
  then show ?thesis using addMonths_clamped [OF s, of 0] monthno_calendar [OF s] by simp
qed

section \<open>Months of a range\<close>

definition key_of_month :: "int \<Rightarrow> string" where
  "key_of_month a = fixed 10 4 (nat (a div 12)) @ ''-'' @ fixed 10 2 (nat (a mod 12 + 1))"

lemma monthKey_date: "ledger_date s \<Longrightarrow> monthKey s = key_of_month (monthno s)"
proof -
  assume "ledger_date s"
  then obtain y m d where s: "s = iso y m d" "ymd s = (y, m, d)" "valid_ymd y m d" by (rule ledger_dateE)
  then have "(y * 12 + (m - 1)) div 12 = y" "(y * 12 + (m - 1)) mod 12 = m - 1" by (auto simp: valid_ymd_def)
  with s show ?thesis by (simp add: monthKey_def key_of_month_def monthno_def iso_def slice_def del: fixed.simps)
qed

lemma div_mod_12:
  obtains q r where "(a :: int) = 12 * q + r" "a div 12 = q" "a mod 12 = r" "0 \<le> r" "r < 12"
  using that [of "a div 12" "a mod 12"] by simp

lemma key_of_month_less_iff:
  assumes "0 \<le> a" "a \<le> 119999" "0 \<le> b" "b \<le> 119999"
  shows "key_of_month a < key_of_month b \<longleftrightarrow> a < b"
proof -
  obtain q r where a: "a = 12 * q + r" "a div 12 = q" "a mod 12 = r" "0 \<le> r" "r < 12" by (rule div_mod_12)
  obtain q' r' where b: "b = 12 * q' + r'" "b div 12 = q'" "b mod 12 = r'" "0 \<le> r'" "r' < 12" by (rule div_mod_12)
  have q: "0 \<le> q" "q \<le> 9999" "0 \<le> q'" "q' \<le> 9999" using a b assms by linarith+
  then have lt: "nat q < 10 ^ 4" "nat q' < 10 ^ 4" "nat (r + 1) < 10 ^ 2" "nat (r' + 1) < 10 ^ 2"
    using a(4,5) b(4,5) by auto
  have "key_of_month a < key_of_month b \<longleftrightarrow> q < q' \<or> q = q' \<and> r + 1 < r' + 1"
    using q a(4) b(4) unfolding key_of_month_def a(2,3) b(2,3)
    by (simp only: append_less_iff length_fixed append_Cons append_Nil Cons_less_Cons less_irrefl simp_thms
        fixed_nat [OF q(1,3) lt(1,2)] fixed_nat [OF _ _ lt(3,4)] add_nonneg_nonneg zero_le_one)
  also have "\<dots> \<longleftrightarrow> a < b" using a b by linarith
  finally show ?thesis .
qed

lemma month_step:
  "a mod 12 = 11 \<Longrightarrow> (a + 1) div 12 = a div 12 + 1 \<and> (a + 1) mod 12 = (0 :: int)"
  "a mod 12 \<noteq> 11 \<Longrightarrow> (a + 1) div 12 = a div 12 \<and> (a + 1) mod 12 = a mod 12 + (1 :: int)"
proof -
  obtain q r where a: "a = 12 * q + r" "a div 12 = q" "a mod 12 = r" "0 \<le> r" "r < 12" by (rule div_mod_12)
  show "a mod 12 = 11 \<Longrightarrow> (a + 1) div 12 = a div 12 + 1 \<and> (a + 1) mod 12 = 0" using a by simp
  assume "a mod 12 \<noteq> 11"
  with a have "a + 1 = 12 * q + (r + 1)" "0 \<le> r + 1" "r + 1 < 12" by auto
  then have "(a + 1) div 12 = q" "(a + 1) mod 12 = r + 1" by (rule int_div_pos_eq int_mod_pos_eq)+
  with a show "(a + 1) div 12 = a div 12 \<and> (a + 1) mod 12 = a mod 12 + 1" by simp
qed

lemma month_key_of_month:
  assumes "0 \<le> a" "a \<le> 119999"
  shows "month_key_of (Some (nat (a div 12))) (Some (nat (a mod 12 + 1))) = key_of_month a"
proof -
  have lt: "nat (a div 12) < 10 ^ 4" "nat (a mod 12 + 1) < 10 ^ 2" using assms by auto
  show ?thesis using padStart_to_base [of 10 4, OF _ _ lt(1)] padStart_to_base [of 10 2, OF _ _ lt(2)]
    by (simp add: month_key_of_def key_of_month_def js_show_def del: fixed.simps)
qed

lemma months_loop_Suc:
  assumes "0 \<le> a" "a < b" "b \<le> 119999"
  shows "months_loop (Suc guard) (Some (nat (a div 12))) (Some (nat (a mod 12 + 1))) (key_of_month b) =
    key_of_month a # months_loop guard (Some (nat ((a + 1) div 12))) (Some (nat ((a + 1) mod 12 + 1))) (key_of_month b)"
proof -
  have eq: "months_loop (Suc guard) (Some (nat (a div 12))) (Some (nat (a mod 12 + 1))) (key_of_month b) =
      key_of_month a # (if key_of_month a \<ge> key_of_month b then []
        else if Suc (nat (a mod 12 + 1)) > 12 then months_loop guard (Some (Suc (nat (a div 12)))) (Some 1) (key_of_month b)
        else months_loop guard (Some (nat (a div 12))) (Some (Suc (nat (a mod 12 + 1)))) (key_of_month b))"
    using assms by (simp add: Let_def month_key_of_month)
  have "\<not> key_of_month a \<ge> key_of_month b" using key_of_month_less_iff [of a b] assms by (simp add: not_le)
  moreover have "Suc (nat (a mod 12 + 1)) > 12 \<longleftrightarrow> a mod 12 = 11"
    using pos_mod_bound [of 12 a] pos_mod_sign [of 12 a] by linarith
  moreover have "Suc (nat (a div 12)) = nat (a div 12 + 1)" "Suc (nat (a mod 12 + 1)) = nat (a mod 12 + 1 + 1)"
    using assms(1) by (simp_all add: Suc_nat_eq_nat_zadd1 add.commute)
  ultimately show ?thesis unfolding eq
    by (cases "a mod 12 = 11")
      (simp_all only: month_step if_True if_False simp_thms add_0 nat_1 not_False_eq_True One_nat_def)
qed

lemma months_loop_eq:
  assumes "0 \<le> a" "a \<le> b" "b \<le> 119999" "b - a < int guard"
  shows "months_loop guard (Some (nat (a div 12))) (Some (nat (a mod 12 + 1))) (key_of_month b)
    = map key_of_month [a..b]"
  using assms
proof (induction guard arbitrary: a)
  case 0
  then show ?case by simp
next
  case (Suc guard)
  show ?case
  proof (cases "a = b")
    case True
    with month_key_of_month [of a] Suc.prems show ?thesis by (simp add: Let_def)
  next
    case False
    with Suc.prems have "a < b" by simp
    then have "months_loop guard (Some (nat ((a + 1) div 12))) (Some (nat ((a + 1) mod 12 + 1))) (key_of_month b)
        = map key_of_month [a + 1..b]"
      using Suc.prems by (intro Suc.IH) auto
    moreover have "[a..b] = a # [a + 1..b]" using \<open>a < b\<close> by (simp add: upto_rec1)
    ultimately show ?thesis using months_loop_Suc [of a b guard] Suc.prems \<open>a < b\<close> by (simp del: months_loop.simps)
  qed
qed

lemma month_numbers:
  assumes "ledger_date s"
  shows "js_Number (slice 0 4 s) = Some (nat (monthno s div 12))" "js_Number (slice 5 7 s) = Some (nat (monthno s mod 12 + 1))"
    "slice 0 7 s = fixed 10 4 (nat (monthno s div 12)) @ ''-'' @ fixed 10 2 (nat (monthno s mod 12 + 1))"
proof -
  from assms obtain y m d where f: "s = iso y m d" "ymd s = (y, m, d)" "valid_ymd y m d" "iso_bounds y m d"
    "100 \<le> y" by (rule ledger_dateE)
  then have dm: "monthno s div 12 = y" "monthno s mod 12 + 1 = m" by (auto simp: monthno_def valid_ymd_def)
  have "slice 0 4 s = fixed 10 (Suc 3) (nat y)" "slice 5 7 s = fixed 10 (Suc 1) (nat m)"
    using f(1) slice_iso [of "fixed 10 4 (nat y)" "fixed 10 2 (nat m)" "fixed 10 2 (nat d)" "CHR ''-''" "CHR ''-''"]
    by (simp_all add: iso_def numeral_eq_Suc del: fixed.simps)
  moreover have "nat y < 10 ^ Suc 3" "nat m < 10 ^ Suc 1" using f(4) by (auto simp: iso_bounds_def)
  then have "js_Number (fixed 10 (Suc 3) (nat y)) = Some (nat y)" "js_Number (fixed 10 (Suc 1) (nat m)) = Some (nat m)"
    by (simp_all only: js_Number_fixed)
  ultimately show "js_Number (slice 0 4 s) = Some (nat (monthno s div 12))" "js_Number (slice 5 7 s) = Some (nat (monthno s mod 12 + 1))"
    by (simp_all only: dm)
  show "slice 0 7 s = fixed 10 4 (nat (monthno s div 12)) @ ''-'' @ fixed 10 2 (nat (monthno s mod 12 + 1))"
    unfolding dm using f(1) by (simp add: slice_def iso_def del: fixed.simps)
qed

lemma monthsIn_eq:
  assumes "ledger_date f" "ledger_date t" "f \<le> t" "monthno t - monthno f < 1200"
  shows "monthsIn \<lparr>range_from = f, range_to = t\<rparr> = map key_of_month [monthno f..monthno t]"
proof -
  note month_numbers(1,2) [OF assms(1)]
  moreover have "0 \<le> monthno f" "monthno f \<le> monthno t" "monthno t \<le> 119999"
    using monthno_calendar [OF assms(1)] monthno_calendar [OF assms(2)] monthno_mono [OF assms(1-3)]
    by (auto simp: in_month_calendar_def)
  ultimately show ?thesis
    using months_loop_eq [of "monthno f" "monthno t" 1200] assms(3,4)
    by (simp add: monthsIn_def monthKey_date [OF assms(2)] not_less [symmetric] del: months_loop.simps)
qed

section \<open>The bounds of a month\<close>

lemma toIsoDate_day:
  assumes "in_calendar n"
  shows "toIsoDate (Some n) = Inr (date_of_day n)"
proof -
  obtain y m d where c: "civil n = (y, m, d)" by (metis prod_cases3)
  have v: "valid_ymd y m d" "100 \<le> y" "y \<le> 9999"
    using civil_day_number [OF c] assms in_calendar_year [of y m d] by auto
  then have "iso_bounds y m d" by (intro valid_bounds) auto
  then have "padStart 4 CHR ''0'' (String_of (nat y)) @ ''-'' @ padStart 2 CHR ''0'' (String_of (nat m)) @ ''-'' @
      padStart 2 CHR ''0'' (String_of (nat d)) = iso y m d" and "length (iso y m d) = 10"
    using format_iso [of y m d] by (auto simp: format_def String_of_int_def iso_bounds_def iso_def split: if_splits)
  then have "slice 0 10 ((padStart 4 CHR ''0'' (String_of (nat y)) @ ''-'' @ padStart 2 CHR ''0'' (String_of (nat m)) @ ''-'' @
      padStart 2 CHR ''0'' (String_of (nat d))) @ t) = iso y m d" for t
    by (simp add: slice_def)
  then show ?thesis using v(2,3) by (simp add: toIsoDate_def c date_of_day_def)
qed

lemma endOfMonth_clamped:
  assumes "ledger_date s"
  shows "endOfMonth s = Inr (clamped (monthno s) 31)"
proof -
  define y where "y = monthno s div 12"
  define m where "m = monthno s mod 12 + 1"
  have y: "100 \<le> y" "y \<le> 9999" using month_calendar_year [OF monthno_calendar [OF assms]] by (simp_all add: y_def)
  have m: "1 \<le> m" "m \<le> 12"
    using pos_mod_sign [of 12 "monthno s"] pos_mod_bound [of 12 "monthno s"] by (simp_all add: m_def)
  let ?l = "month_len y m"
  have v: "valid_ymd y m ?l" using m month_len_bounds(1) [of y m] by (simp add: valid_ymd_def)
  have cal: "in_calendar (day_number y m ?l)" using v y by (simp add: in_calendar_year)
  have "new_Date (int (nat y)) (int (nat m)) 0 = Some (day_number y m ?l)"
    using y m by (simp add: new_Date_def full_year_def day_zero time_clip_calendar [OF cal])
  moreover have "date_of_day (day_number y m ?l) = iso y m ?l"
    using date_of_dayno [OF ledger_date_iso(1) [OF v y]] ledger_date_iso(3) [OF v y] by simp
  moreover have "clamped (monthno s) 31 = iso y m ?l"
    using month_len_bounds(2) [of y m] by (simp add: clamped_def y_def m_def min_absorb2)
  ultimately show ?thesis
    using month_numbers(1,2) [OF assms] toIsoDate_day [OF cal] by (simp add: endOfMonth_def y_def m_def)
qed

lemma startOfMonth_clamped:
  assumes "ledger_date s"
  shows "startOfMonth s = clamped (monthno s) 1"
proof -
  have "min 1 (month_len y m) = 1" for y m using month_len_bounds(1) [of y m] by simp
  moreover have "fixed 10 2 1 = ''01''" by code_simp
  ultimately show ?thesis
    using month_numbers(3) [OF assms] by (simp add: startOfMonth_def clamped_def iso_def del: fixed.simps)
qed

section \<open>Properties\<close>

text \<open>The calendar. Dates written \<open>YYYY-MM-DD\<close> compare as strings exactly as their days do, reading
  back a formatted date gives its fields, and the day number of a date determines it.\<close>

theorem date_strings:
  assumes "ledger_date s" and "ledger_date t"
  shows "(s < t \<longleftrightarrow> dayno s < dayno t) \<and> (s = t \<longleftrightarrow> dayno s = dayno t) \<and>
    (\<exists>y m d. parts s = Inr (y, m, d) \<and> format (Some y) (Some m) (Some d) = s \<and> civil (dayno s) = (y, m, d))"
proof -
  from assms(1) obtain y m d where s: "parts s = Inr (y, m, d)" "s = iso y m d" "valid_ymd y m d"
    "dayno s = day_number y m d" "iso_bounds y m d" by (rule ledger_dateE)
  moreover have "civil (day_number y m d) = (y, m, d)" using day_number_civil [OF s(3)] .
  ultimately show ?thesis using ledger_date_less_iff [OF assms] ledger_date_inj [OF assms] format_iso [OF s(5)] by auto
qed

theorem date_strings_witness: "(''2024-02-29'' < ''2024-03-01'' \<longleftrightarrow> dayno ''2024-02-29'' < dayno ''2024-03-01'')"
proof -
  have "ledger_date ''2024-02-29''" "ledger_date ''2024-03-01''" by code_simp+
  from date_strings [OF this] show ?thesis by blast
qed

text \<open>Shifting by days. \<open>addDays\<close> moves a date by exactly the given number of days, in either
  direction and across months and leap years, and shifts compose.\<close>

theorem addDays_spec:
  assumes "ledger_date s" and "in_calendar (dayno s + j)" and "in_calendar (dayno s + j + k)"
  shows "\<exists>t. addDays s j = Inr t \<and> ledger_date t \<and> dayno t = dayno s + j \<and> addDays t k = addDays s (j + k)"
proof -
  note t = date_of_day [OF assms(2)]
  have "addDays (date_of_day (dayno s + j)) k = addDays s (j + k)"
    using addDays_day [OF t(1), of k] addDays_day [OF assms(1), of "j + k"] assms(3) t(2) by (simp add: add.assoc)
  then show ?thesis using addDays_day [OF assms(1,2)] t by auto
qed

theorem addDays_spec_witness: "\<exists>t. addDays ''2024-02-28'' 2 = Inr t \<and> addDays t (- 1) = addDays ''2024-02-28'' 1"
proof -
  have "ledger_date ''2024-02-28''" "in_calendar (dayno ''2024-02-28'' + 2)" "in_calendar (dayno ''2024-02-28'' + 2 + - 1)"
    by code_simp+
  from addDays_spec [OF this] show ?thesis by auto
qed

text \<open>Shifting by months. \<open>addMonths\<close> lands in the month that many months away, on the same
  day of the month or on the month's last day when it is shorter, never spilling into the next.\<close>

theorem addMonths_spec:
  assumes "ledger_date s" and "in_month_calendar (monthno s + k)"
  shows "\<exists>t. addMonths s k = Inr t \<and> ledger_date t \<and> monthno t = monthno s + k \<and>
    (\<exists>n. daysInMonth (monthno t div 12) (monthno t mod 12 + 1) = Some n \<and> day_of_month t = min (day_of_month s) n)"
proof -
  let ?a = "monthno s + k"
  note c = clamped_date [OF assms(2) day_of_month_bounds(1) [OF assms(1)]]
  have "daysInMonth (?a div 12) (?a mod 12 + 1) = Some (month_len (?a div 12) (?a mod 12 + 1))"
    using month_calendar_year [OF assms(2)] pos_mod_sign [of 12 ?a] pos_mod_bound [of 12 ?a]
    by (intro daysInMonth_len) auto
  then show ?thesis using addMonths_clamped [OF assms] c by auto
qed

theorem addMonths_spec_witness:
  "\<exists>t. addMonths ''2024-01-31'' 1 = Inr t \<and> ledger_date t \<and> monthno t = monthno ''2024-01-31'' + 1"
proof -
  have "ledger_date ''2024-01-31''" "in_month_calendar (monthno ''2024-01-31'' + 1)" by code_simp+
  from addMonths_spec [OF this] show ?thesis by blast
qed

text \<open>The month of a date. The first and last day that \<open>startOfMonth\<close> and \<open>endOfMonth\<close> give
  bound exactly the dates of that month, and \<open>within\<close> that range means having the same month key.\<close>

theorem month_bounds:
  assumes "ledger_date s" and "ledger_date t"
  shows "\<exists>l. endOfMonth s = Inr l \<and>
    (within t \<lparr>range_from = startOfMonth s, range_to = l\<rparr> \<longleftrightarrow> monthno t = monthno s)"
proof -
  let ?a = "monthno s"
  note cal = monthno_calendar [OF assms(1)]
  note f = clamped_date [OF cal, of 1] and l = clamped_date [OF cal, of 31]
  have lens: "min 1 (month_len (?a div 12) (?a mod 12 + 1)) = 1"
    "min 31 (month_len (?a div 12) (?a mod 12 + 1)) = month_len (?a div 12) (?a mod 12 + 1)"
    using month_len_bounds [of "?a div 12" "?a mod 12 + 1"] by simp_all
  have "clamped ?a 1 \<le> t \<and> t \<le> clamped ?a 31 \<longleftrightarrow> monthno t = ?a"
  proof
    assume "clamped ?a 1 \<le> t \<and> t \<le> clamped ?a 31"
    then show "monthno t = ?a" using monthno_mono [OF f(1) assms(2)] monthno_mono [OF assms(2) l(1)] f(2) l(2) by simp
  next
    assume "monthno t = ?a"
    then show "clamped ?a 1 \<le> t \<and> t \<le> clamped ?a 31"
      using monthno_eq_less [OF assms(2) f(1)] monthno_eq_less [OF l(1) assms(2)] day_of_month_bounds [OF assms(2)]
        f(2,3) l(2,3) lens by (simp add: not_less [symmetric])
  qed
  then show ?thesis
    using endOfMonth_clamped [OF assms(1)] startOfMonth_clamped [OF assms(1)] by (simp add: within_def)
qed

theorem month_bounds_witness:
  "\<exists>l. endOfMonth ''2023-02-14'' = Inr l \<and> within ''2023-02-28'' \<lparr>range_from = startOfMonth ''2023-02-14'', range_to = l\<rparr>"
proof -
  have "ledger_date ''2023-02-14''" "ledger_date ''2023-02-28''" by code_simp+
  moreover have "monthno ''2023-02-28'' = monthno ''2023-02-14''" by code_simp
  ultimately show ?thesis using month_bounds [of "''2023-02-14''" "''2023-02-28''"] by blast
qed

text \<open>The months of a range. For a range of less than a century \<open>monthsIn\<close> lists every month from
  the first to the last, once, in order; the loop's guard never cuts it short.\<close>

theorem monthsIn_spec:
  assumes "ledger_date f" and "ledger_date t" and "f \<le> t" and "monthno t - monthno f < 1200"
  shows "monthsIn \<lparr>range_from = f, range_to = t\<rparr> = map key_of_month [monthno f..monthno t] \<and>
    sorted_wrt (<) (monthsIn \<lparr>range_from = f, range_to = t\<rparr>) \<and>
    (\<forall>s. ledger_date s \<longrightarrow> f \<le> s \<longrightarrow> s \<le> t \<longrightarrow> monthKey s \<in> set (monthsIn \<lparr>range_from = f, range_to = t\<rparr>))"
proof -
  have "sorted_wrt (<) (map key_of_month [a..b])" if "0 \<le> a" "b \<le> 119999" for a b
    using that by (auto simp: sorted_wrt_map key_of_month_less_iff intro!: sorted_wrt_mono_rel [OF _ sorted_wrt_upto])
  then show ?thesis
    using monthno_calendar [OF assms(1)] monthno_calendar [OF assms(2)] monthno_mono assms
    by (auto simp: monthsIn_eq in_month_calendar_def monthKey_date)
qed

theorem monthsIn_spec_witness:
  "monthsIn \<lparr>range_from = ''2023-11-15'', range_to = ''2024-02-01''\<rparr> = map key_of_month [monthno ''2023-11-15''..monthno ''2024-02-01'']"
proof -
  have "ledger_date ''2023-11-15''" "ledger_date ''2024-02-01''" "''2023-11-15'' \<le> ''2024-02-01''"
    "monthno ''2024-02-01'' - monthno ''2023-11-15'' < 1200" by code_simp+
  from monthsIn_spec [OF this] show ?thesis by blast
qed

end
