(* ===== verification/Writes.thy ===== *)
theory Writes
  imports Repo Vault Money Dates
begin

text \<open>
  What the services of \<open>core/repositories\<close> may store and how they store it. The checks a service
  makes before it writes a row (the \<open>assertValid\<close> functions and the guards of \<open>RatesService\<close>) are
  here together; a row is valid when its service would accept it. Every service changes the ledger
  by a sequence of puts and removes of it: \<open>writes K\<close> is such a sequence that touches only the keys
  in \<open>K\<close> and stores only valid rows. The locale \<open>service\<close> is the contract of a mutating operation
  towards the rest of the application; the service theories interpret it.
\<close>

section \<open>Drafts and maps\<close>

text \<open>\<open>{ field: d, ...draft }\<close>: the default of an optional field.\<close>

definition with_default :: "'a \<Rightarrow> 'a option \<Rightarrow> 'a" where
  "with_default d x = (case x of Some v \<Rightarrow> v | None \<Rightarrow> d)"

text \<open>A \<open>Map\<close> keeps its keys in the order they were first set.\<close>

fun map_update :: "'k \<Rightarrow> ('v option \<Rightarrow> 'v) \<Rightarrow> ('k \<times> 'v) list \<Rightarrow> ('k \<times> 'v) list" where
  "map_update k f [] = [(k, f None)]"
| "map_update k f ((k', v) # m) = (if k' = k then (k', f (Some v)) # m else (k', v) # map_update k f m)"

section \<open>What a service accepts\<close>

fun first_error :: "(bool \<times> string) list \<Rightarrow> unit result" where
  "first_error [] = Inr ()"
| "first_error ((bad, message) # checks) = (if bad then Inl (Error message) else first_error checks)"

lemma first_error_Inr: "first_error checks = Inr u \<longleftrightarrow> (\<forall>(bad, message) \<in> set checks. \<not> bad)"
  by (induction checks rule: first_error.induct) auto

text \<open>\<open>!id\<close> for an optional string: absent, null and empty are falsy.\<close>

definition falsy :: "string option \<Rightarrow> bool" where
  "falsy s \<longleftrightarrow> s = None \<or> s = Some []"

definition transaction_assertValid :: "Transaction \<Rightarrow> unit result" where
  "transaction_assertValid txn = first_error
     [(txn_amount txn \<le> 0, ''Amount must be greater than zero''),
      (txn_accountId txn = [], ''An account is required''),
      (\<not> is_ymd (txn_date txn), ''Date must be YYYY-MM-DD''),
      (txn_kind txn = Transfer \<and> falsy (txn_counterAccountId txn), ''A transfer needs a destination account''),
      (txn_kind txn = Transfer \<and> txn_counterAccountId txn = Some (txn_accountId txn), ''A transfer needs two different accounts'')]"

definition budget_assertValid :: "Budget \<Rightarrow> unit result" where
  "budget_assertValid budget = first_error
     [(trim (bud_name budget) = [], ''A budget needs a name''),
      (bud_amount budget \<le> 0, ''The budget amount must be greater than zero''),
      (bud_categoryIds budget = [], ''Choose at least one category''),
      (\<not> is_ymd (bud_startDate budget), ''Start date must be YYYY-MM-DD'')]"

definition rule_assertValid :: "RecurringRule \<Rightarrow> unit result" where
  "rule_assertValid rule = first_error
     [(trim (rule_name rule) = [], ''A rule needs a name''),
      (rule_amount rule \<le> 0, ''The amount must be greater than zero''),
      (rule_accountId rule = [], ''An account is required''),
      (rule_interval rule < 1, ''The interval must be at least one''),
      (\<not> is_ymd (rule_startDate rule), ''Start date must be YYYY-MM-DD''),
      (case rule_endDate rule of None \<Rightarrow> False | Some e \<Rightarrow> e < rule_startDate rule, ''The end date cannot be before the start date''),
      (case rule_maxOccurrences rule of None \<Rightarrow> False | Some n \<Rightarrow> n < 1, ''The occurrence limit must be at least one''),
      (rule_kind rule = Transfer \<and> falsy (rule_counterAccountId rule), ''A transfer needs a destination account''),
      (rule_kind rule = Transfer \<and> rule_counterAccountId rule = Some (rule_accountId rule), ''A transfer needs two different accounts'')]"

text \<open>The pattern \<open>^[A-Z]{3}$\<close>.\<close>

definition currency_code :: "string \<Rightarrow> bool" where
  "currency_code code \<longleftrightarrow> length code = 3 \<and> list_all is_upper code"

definition assertCurrency :: "string \<Rightarrow> unit result" where
  "assertCurrency code =
     (if currency_code code then Inr () else Inl (Error (''\"'' @ code @ ''\" is not a three-letter currency code'')))"

definition rate_ok :: "ExchangeRate \<Rightarrow> bool" where
  "rate_ok r \<longleftrightarrow> currency_code (rate_base r) \<and> currency_code (rate_quote r) \<and> \<not> sameCurrency (rate_base r) (rate_quote r) \<and>
     (\<exists>x > 0. rate_rate r = Fin x) \<and> is_ymd (rate_date r) \<and> rate_id r = rateId (rate_base r) (rate_quote r) (rate_date r)"

primrec entity_valid :: "AnyEntity \<Rightarrow> bool" where
  "entity_valid (AccountGroupRow _) = True"
| "entity_valid (AccountRow _) = True"
| "entity_valid (CategoryRow _) = True"
| "entity_valid (TransactionRow t) = (transaction_assertValid t = Inr ())"
| "entity_valid (BudgetRow b) = (budget_assertValid b = Inr ())"
| "entity_valid (RecurringRuleRow r) = (rule_assertValid r = Inr ())"
| "entity_valid (RateRow r) = rate_ok r"
| "entity_valid (VaultSettingsRow s) = (set_id s = ''vault'' \<and> currency_code (set_reportingCurrency s))"

lemma entity_valid_stamped [simp]: "entity_valid (with_updatedAt s v) = entity_valid v"
  by (cases v) (simp_all add: transaction_assertValid_def budget_assertValid_def rule_assertValid_def rate_ok_def split: option.splits)

definition rows_valid :: "ledger \<Rightarrow> bool" where
  "rows_valid l \<longleftrightarrow> (\<forall>e i v. tget (tables (led_db l) e) i = Some v \<longrightarrow> entity_valid v)"

section \<open>Sequences of writes\<close>

inductive write_step :: "(EntityName \<times> string) set \<Rightarrow> ledger \<Rightarrow> ledger \<Rightarrow> bool" for K where
  put_row: "put wall e v l = (r, l') \<Longrightarrow> plausible wall \<Longrightarrow> entity_of v = e \<Longrightarrow> entity_valid v \<Longrightarrow>
    (e, entity_id v) \<in> K \<Longrightarrow> write_step K l l'"
| remove_row: "remove wall e i l = (r, l') \<Longrightarrow> plausible wall \<Longrightarrow> (e, i) \<in> K \<Longrightarrow> write_step K l l'"

inductive_cases write_stepE: "write_step K l l'"

abbreviation writes :: "(EntityName \<times> string) set \<Rightarrow> ledger \<Rightarrow> ledger \<Rightarrow> bool" where
  "writes K \<equiv> (write_step K)\<^sup>*\<^sup>*"

lemma write_step_mono: "write_step K l l' \<Longrightarrow> K \<subseteq> K' \<Longrightarrow> write_step K' l l'"
  by (induction rule: write_step.induct) (auto intro: write_step.intros)

lemma writes_mono: "writes K l l' \<Longrightarrow> K \<subseteq> K' \<Longrightarrow> writes K' l l'"
  by (rule rtranclp_mono [THEN predicate2D]) (auto intro: write_step_mono)

lemma put_effect:
  assumes "ledger_ok W dev l" and "plausible wall" and "entity_of v = e" and "put wall e v l = (Inr v', l')"
  shows "(\<exists>op. ledger_ok (insert op W) dev l') \<and> (\<exists>s. v' = with_updatedAt s v) \<and>
    (\<forall>e' i. tget (tables (led_db l') e') i = (if e' = e \<and> i = entity_id v then Some v' else tget (tables (led_db l) e') i))"
proof -
  obtain lop clk' where w: "l' = logged_write clk' lop l" "remote_op lop \<notin> W" "ledger_ok (insert (remote_op lop) W) dev l'"
    "register (led_db l') = (register (led_db l))(op_key (remote_op lop) \<mapsto> remote_op lop)"
    "v' = with_updatedAt (hlc lop) v" "content (remote_op lop) = Some v'" "op_value lop = Some v'"
    "op_key (remote_op lop) = (e, entity_id v)" "\<not> synced lop" by (rule put_write [OF assms])
  note eff = logged_write_effect [OF ledger_okD(1) [OF assms(1)] ledger_okD(2) [OF w(3) insertI1], of clk']
  show ?thesis using w eff by auto
qed

lemma remove_effect:
  assumes "ledger_ok W dev l" and "plausible wall" and "remove wall e i l = (Inr u, l')"
  shows "(\<exists>op. ledger_ok (insert op W) dev l') \<and>
    (\<forall>e' i'. tget (tables (led_db l') e') i' = (if e' = e \<and> i' = i then None else tget (tables (led_db l) e') i'))"
proof -
  obtain lop clk' where w: "l' = logged_write clk' lop l" "remote_op lop \<notin> W" "ledger_ok (insert (remote_op lop) W) dev l'"
    "register (led_db l') = (register (led_db l))(op_key (remote_op lop) \<mapsto> remote_op lop)"
    "content (remote_op lop) = None" "op_kind lop = Delete" "op_key (remote_op lop) = (e, i)" "\<not> synced lop"
    "hlc lop = reading clk'" by (rule remove_write [OF assms])
  note eff = logged_write_effect [OF ledger_okD(1) [OF assms(1)] ledger_okD(2) [OF w(3) insertI1], of clk']
  show ?thesis using w eff by auto
qed

text \<open>What every step keeps.\<close>

definition keeps :: "(EntityName \<times> string) set \<Rightarrow> Operation set \<Rightarrow> string \<Rightarrow> ledger \<Rightarrow> ledger \<Rightarrow> bool" where
  "keeps K W dev l l' \<longleftrightarrow> (\<exists>W'. W \<subseteq> W' \<and> ledger_ok W' dev l') \<and> (rows_valid l \<longrightarrow> rows_valid l') \<and>
     (\<forall>e i. (e, i) \<notin> K \<longrightarrow> tget (tables (led_db l') e) i = tget (tables (led_db l) e) i)"

lemma write_step_keeps:
  assumes "write_step K l l'" and "ledger_ok W dev l"
  shows "keeps K W dev l l'"
  using assms(1)
proof (cases rule: write_step.cases)
  case (put_row wall e v r)
  show ?thesis
  proof (cases r)
    case (Inl err)
    then have "l' = l" using put_row(1) put_error by blast
    then show ?thesis using assms(2) by (auto simp: keeps_def)
  next
    case (Inr v')
    note eff = put_effect [OF assms(2) put_row(2,3), of v' l']
    show ?thesis using eff put_row Inr by (auto simp: keeps_def rows_valid_def split: if_splits)
  qed
next
  case (remove_row wall e i r)
  show ?thesis
  proof (cases r)
    case (Inl err)
    then have "l' = l" using remove_row(1) remove_error by blast
    then show ?thesis using assms(2) by (auto simp: keeps_def)
  next
    case (Inr u)
    note eff = remove_effect [OF assms(2) remove_row(2), of e i u l']
    show ?thesis using eff remove_row Inr by (auto simp: keeps_def rows_valid_def split: if_splits)
  qed
qed

lemma keeps_refl: "ledger_ok W dev l \<Longrightarrow> keeps K W dev l l"
  by (auto simp: keeps_def)

lemma writes_keeps: "writes K l l' \<Longrightarrow> ledger_ok W dev l \<Longrightarrow> keeps K W dev l l'"
proof (induction rule: rtranclp_induct)
  case base
  then show ?case by (rule keeps_refl)
next
  case (step m n)
  then obtain W' where W': "W \<subseteq> W'" "ledger_ok W' dev m" by (auto simp: keeps_def)
  have "keeps K W' dev m n" by (rule write_step_keeps [OF step.hyps(2) W'(2)])
  then obtain W'' where "W' \<subseteq> W''" "ledger_ok W'' dev n" by (auto simp: keeps_def)
  then have "\<exists>W''. W \<subseteq> W'' \<and> ledger_ok W'' dev n" using W'(1) by blast
  then show ?case using step.IH [OF step.prems] \<open>keeps K W' dev m n\<close> by (simp add: keeps_def)
qed

section \<open>The contract of a service operation\<close>

text \<open>\<open>now\<close> gives the readings of \<open>Date.now\<close> in the order the operation makes them, \<open>touched\<close> the keys
  it may write. The contract is that it only writes, with valid rows; the invariant, the validity of
  all rows and that everything else is left alone follow.\<close>

locale service =
  fixes call :: "(nat \<Rightarrow> nat) \<Rightarrow> 'arg \<Rightarrow> (ledger, 'r) call"
    and touched :: "'arg \<Rightarrow> (EntityName \<times> string) set"
  assumes only_writes: "\<forall>j. plausible (now j) \<Longrightarrow> ledger_ok W dev l \<Longrightarrow> rows_valid l \<Longrightarrow> call now arg l = (r, l') \<Longrightarrow>
    writes (touched arg) l l'"
begin

lemma only_writes_any:
  assumes "\<forall>j. plausible (now j)" and "ledger_ok W dev l" and "rows_valid l" and "call now arg l = (r, l')"
  shows "writes UNIV l l'"
  using writes_mono [OF only_writes [OF assms]] by simp

lemma service_keeps:
  assumes "\<forall>j. plausible (now j)" and "ledger_ok W dev l" and "rows_valid l" and "call now arg l = (r, l')"
  shows "keeps (touched arg) W dev l l'"
  using writes_keeps [OF only_writes [OF assms] assms(2)] .

lemma service_ok:
  assumes "\<forall>j. plausible (now j)" and "ledger_ok W dev l" and "rows_valid l" and "call now arg l = (r, l')"
  shows "(\<exists>W'. W \<subseteq> W' \<and> ledger_ok W' dev l') \<and> rows_valid l'"
  using service_keeps [OF assms] assms(3) by (auto simp: keeps_def)

lemma service_frame:
  assumes "\<forall>j. plausible (now j)" and "ledger_ok W dev l" and "rows_valid l" and "call now arg l = (r, l')" and "(e, i) \<notin> touched arg"
  shows "tget (tables (led_db l') e) i = tget (tables (led_db l) e) i"
  using service_keeps [OF assms(1-4)] assms(5) by (simp add: keeps_def)

end

text \<open>Introduction rules for the interpretations.\<close>

lemma andThen_return: "andThen m (\<lambda>_. return ()) l = (r, l') \<Longrightarrow> \<exists>q. m l = (q, l')"
  by (auto simp: andThen_def return_def split: prod.splits sum.splits)

lemma andThen_cases:
  assumes "andThen m k l = (r, l')"
  obtains e where "m l = (Inl e, l')" "r = Inl e" | a l1 where "m l = (Inr a, l1)" "k a l1 = (r, l')"
  using assms by (auto simp: andThen_def split: prod.splits sum.splits)

lemma writes_put: "put wall e v l = (r, l') \<Longrightarrow> plausible wall \<Longrightarrow> entity_of v = e \<Longrightarrow> entity_valid v \<Longrightarrow>
    (e, entity_id v) \<in> K \<Longrightarrow> writes K l l'"
  by (rule r_into_rtranclp) (rule put_row)

lemma writes_remove: "remove wall e i l = (r, l') \<Longrightarrow> plausible wall \<Longrightarrow> (e, i) \<in> K \<Longrightarrow> writes K l l'"
  by (rule r_into_rtranclp) (rule remove_row)

lemma row_table:
  assumes "ledger_ok W dev l" and "tget (tables (led_db l) e) i = Some v"
  shows "entity_of v = e" "entity_id v = i"
proof -
  have d: "db_ok W (led_db l)" by (rule ledger_okD(1) [OF assms(1)])
  then have "rows_of (led_db l) e i = Some v" using assms(2) by (simp add: db_ok_def)
  then obtain op where op: "register (led_db l) (e, i) = Some op" "content op = Some v"
    by (auto simp: rows_of_def bind_eq_Some_conv)
  have "op \<in> logged (led_db l)" "op_key op = (e, i)"
    using register_newest [OF db_okD(2) [OF d], of "(e, i)"] op(1) by (auto simp: newest_def)
  moreover have "op_ok op" using calculation(1) d db_okD(5) by (auto simp: db_ok_def history_def)
  ultimately show "entity_of v = e" "entity_id v = i" using op(2)
    by (cases "op_kind op"; auto simp: op_ok_def content_def op_key_def)+
qed

lemma row_Some: "row as e d i = Some x \<longleftrightarrow> (\<exists>v. tget (tables d e) i = Some v \<and> as v = Some x)"
  by (auto simp: row_def bind_eq_Some_conv)

lemma row_valid: "rows_valid l \<Longrightarrow> tget (tables (led_db l) e) i = Some v \<Longrightarrow> entity_valid v"
  by (auto simp: rows_valid_def)

lemma as_Some [simp]:
  "as_group v = Some g \<longleftrightarrow> v = AccountGroupRow g" "as_account v = Some a \<longleftrightarrow> v = AccountRow a"
  "as_category v = Some c \<longleftrightarrow> v = CategoryRow c" "as_transaction v = Some t \<longleftrightarrow> v = TransactionRow t"
  "as_budget v = Some b \<longleftrightarrow> v = BudgetRow b" "as_rule v = Some r \<longleftrightarrow> v = RecurringRuleRow r"
  "as_rate v = Some q \<longleftrightarrow> v = RateRow q" "as_settings v = Some s \<longleftrightarrow> v = VaultSettingsRow s"
  by (cases v; auto)+

section \<open>Loops of writes\<close>

text \<open>\<open>for (const row of rows) await ledger.put(...)\<close>, each row with the clock reading of its put, and the
  same for removes. The rows are computed before the loop.\<close>

fun put_all :: "(nat \<times> AnyEntity) list \<Rightarrow> (ledger, unit) call" where
  "put_all [] l = (Inr (), l)"
| "put_all ((wall, v) # ps) l =
     (case put wall (entity_of v) v l of (Inl e, l') \<Rightarrow> (Inl e, l') | (Inr _, l') \<Rightarrow> put_all ps l')"

fun remove_all :: "EntityName \<Rightarrow> (nat \<times> string) list \<Rightarrow> (ledger, unit) call" where
  "remove_all e [] l = (Inr (), l)"
| "remove_all e ((wall, i) # ps) l =
     (case remove wall e i l of (Inl err, l') \<Rightarrow> (Inl err, l') | (Inr _, l') \<Rightarrow> remove_all e ps l')"

text \<open>Clock readings for a loop: the \<open>j\<close>-th turn reads at position \<open>k + j\<close>.\<close>

definition timed :: "(nat \<Rightarrow> nat) \<Rightarrow> nat \<Rightarrow> 'a list \<Rightarrow> (nat \<times> 'a) list" where
  "timed now k xs = zip (map now [k..<k + length xs]) xs"

lemma timed_simps [simp]: "timed now k [] = []" "timed now k (x # xs) = (now k, x) # timed now (Suc k) xs"
  "map snd (timed now k xs) = xs" "snd ` set (timed now k xs) = set xs"
proof -
  show "timed now k [] = []" by (simp add: timed_def)
  have "[k..<k + length (x # xs)] = k # [Suc k..<Suc k + length xs]" by (simp add: upt_rec)
  then show "timed now k (x # xs) = (now k, x) # timed now (Suc k) xs" by (simp add: timed_def)
  show m: "map snd (timed now k xs) = xs" by (simp add: timed_def)
  show "snd ` set (timed now k xs) = set xs" using arg_cong [OF m, of set] by simp
qed

lemma timed_walls: "\<forall>j. plausible (now j) \<Longrightarrow> (w, x) \<in> set (timed now k xs) \<Longrightarrow> plausible w"
  by (auto simp: timed_def dest!: set_zip_leftD)

lemma timed_plausible: "\<forall>j. plausible (now j) \<Longrightarrow> \<forall>(w, x) \<in> set (timed now k xs). plausible w"
  by (auto dest: timed_walls)

lemma timed_mem: "(w, x) \<in> set (timed now k xs) \<Longrightarrow> x \<in> set xs"
  by (auto simp: timed_def dest: set_zip_rightD)

lemma writes_put_all:
  assumes "\<forall>(w, v) \<in> set ps. plausible w \<and> entity_valid v \<and> (entity_of v, entity_id v) \<in> K" and "put_all ps l = (r, l')"
  shows "writes K l l'"
  using assms
proof (induction ps arbitrary: l)
  case (Cons p ps)
  obtain w v where p: "p = (w, v)" by fastforce
  obtain q m where q: "put w (entity_of v) v l = (q, m)" by fastforce
  have step: "write_step K l m" using put_row [OF q] Cons.prems(1) p by auto
  show ?case
  proof (cases q)
    case (Inl e)
    then show ?thesis using Cons.prems(2) p q step by auto
  next
    case (Inr u)
    then have "writes K m l'" using Cons.IH [of m] Cons.prems p q by auto
    then show ?thesis using step by (rule converse_rtranclp_into_rtranclp [rotated])
  qed
qed simp

lemma writes_remove_all:
  assumes "\<forall>(w, i) \<in> set ps. plausible w \<and> (e, i) \<in> K" and "remove_all e ps l = (r, l')"
  shows "writes K l l'"
  using assms
proof (induction ps arbitrary: l)
  case (Cons p ps)
  obtain w i where p: "p = (w, i)" by fastforce
  obtain q m where q: "remove w e i l = (q, m)" by fastforce
  have step: "write_step K l m" using remove_row [OF q] Cons.prems(1) p by auto
  show ?case
  proof (cases q)
    case (Inl e)
    then show ?thesis using Cons.prems(2) p q step by auto
  next
    case (Inr u)
    then have "writes K m l'" using Cons.IH [of m] Cons.prems p q by auto
    then show ?thesis using step by (rule converse_rtranclp_into_rtranclp [rotated])
  qed
qed simp

lemma writes_timed:
  assumes "\<forall>j. plausible (now j)" and "\<forall>v \<in> set vs. entity_valid v \<and> (entity_of v, entity_id v) \<in> K"
    and "put_all (timed now k vs) l = (r, l')"
  shows "writes K l l'"
  using assms(2) timed_walls [OF assms(1)] timed_mem by (intro writes_put_all [OF _ assms(3)]) fast

lemma put_all_effect:
  assumes "ledger_ok W dev l" and "\<forall>(w, v) \<in> set ps. plausible w" and "put_all ps l = (Inr u, l')"
    and "distinct (map (\<lambda>(w, v). (entity_of v, entity_id v)) ps)"
  shows "(\<exists>W'. W \<subseteq> W' \<and> ledger_ok W' dev l') \<and>
    (\<forall>(w, v) \<in> set ps. \<exists>s. tget (tables (led_db l') (entity_of v)) (entity_id v) = Some (with_updatedAt s v)) \<and>
    (\<forall>e i. (e, i) \<notin> (\<lambda>(w, v). (entity_of v, entity_id v)) ` set ps \<longrightarrow>
       tget (tables (led_db l') e) i = tget (tables (led_db l) e) i)"
  using assms
proof (induction ps arbitrary: l W)
  case Nil
  then show ?case by auto
next
  case (Cons p ps)
  obtain w v where p: "p = (w, v)" by fastforce
  obtain v' m where m: "put w (entity_of v) v l = (Inr v', m)" and rest: "put_all ps m = (Inr u, l')"
    using Cons.prems(3) p by (auto split: prod.splits sum.splits)
  have w: "plausible w" using Cons.prems(2) p by auto
  from put_effect [OF Cons.prems(1) w refl m] obtain op s where op: "ledger_ok (insert op W) dev m" and s: "v' = with_updatedAt s v"
    and get: "\<And>e i. tget (tables (led_db m) e) i = (if e = entity_of v \<and> i = entity_id v then Some v' else tget (tables (led_db l) e) i)"
    by blast
  note ih = Cons.IH [OF op _ rest]
  have ih': "(\<exists>W'. insert op W \<subseteq> W' \<and> ledger_ok W' dev l') \<and>
    (\<forall>(w, v) \<in> set ps. \<exists>s. tget (tables (led_db l') (entity_of v)) (entity_id v) = Some (with_updatedAt s v)) \<and>
    (\<forall>e i. (e, i) \<notin> (\<lambda>(w, v). (entity_of v, entity_id v)) ` set ps \<longrightarrow>
       tget (tables (led_db l') e) i = tget (tables (led_db m) e) i)"
    using ih Cons.prems(2,4) by auto
  have "(entity_of v, entity_id v) \<notin> (\<lambda>(w, v). (entity_of v, entity_id v)) ` set ps" using Cons.prems(4) p by simp
  then have "tget (tables (led_db l') (entity_of v)) (entity_id v) = Some (with_updatedAt s v)" using ih' get s by simp
  moreover have "tget (tables (led_db l') e) i = tget (tables (led_db l) e) i"
    if "(e, i) \<notin> (\<lambda>(w, v). (entity_of v, entity_id v)) ` set (p # ps)" for e i
    using that ih' get [of e i] p by auto
  ultimately show ?case using ih' p by (auto simp del: split_paired_All)
qed

lemma timed_keys: "map (\<lambda>(w, v). (entity_of v, entity_id v)) (timed now k vs) = map (\<lambda>v. (entity_of v, entity_id v)) vs"
  by (induction vs arbitrary: k) simp_all

lemma put_timed_effect:
  assumes "ledger_ok W dev l" and "\<forall>j. plausible (now j)" and "put_all (timed now k vs) l = (Inr u, l')"
    and "distinct (map (\<lambda>v. (entity_of v, entity_id v)) vs)"
  shows "\<exists>W'. W \<subseteq> W' \<and> ledger_ok W' dev l'"
    and "v \<in> set vs \<Longrightarrow> \<exists>s. tget (tables (led_db l') (entity_of v)) (entity_id v) = Some (with_updatedAt s v)"
    and "(e, i) \<notin> (\<lambda>v. (entity_of v, entity_id v)) ` set vs \<Longrightarrow> tget (tables (led_db l') e) i = tget (tables (led_db l) e) i"
proof -
  note eff = put_all_effect [OF assms(1) timed_plausible [OF assms(2)] assms(3), unfolded timed_keys, OF assms(4)]
  have keys: "(\<lambda>(w, v). (entity_of v, entity_id v)) ` set (timed now k vs) = (\<lambda>v. (entity_of v, entity_id v)) ` set vs"
    using arg_cong [OF timed_keys, of set] by simp
  show "\<exists>s. tget (tables (led_db l') (entity_of v)) (entity_id v) = Some (with_updatedAt s v)" if "v \<in> set vs"
  proof -
    have "v \<in> snd ` set (timed now k vs)" using that by simp
    then obtain w where "(w, v) \<in> set (timed now k vs)" by (metis imageE prod.collapse)
    then show ?thesis using eff by fast
  qed
  show "\<exists>W'. W \<subseteq> W' \<and> ledger_ok W' dev l'" using eff by blast
  show "(e, i) \<notin> (\<lambda>v. (entity_of v, entity_id v)) ` set vs \<Longrightarrow> tget (tables (led_db l') e) i = tget (tables (led_db l) e) i"
    using eff unfolding keys by blast
qed

lemma remove_all_effect:
  assumes "ledger_ok W dev l" and "\<forall>(w, i) \<in> set ps. plausible w" and "remove_all e ps l = (Inr u, l')"
  shows "(\<exists>W'. W \<subseteq> W' \<and> ledger_ok W' dev l') \<and>
    (\<forall>e' i. tget (tables (led_db l') e') i = (if e' = e \<and> i \<in> snd ` set ps then None else tget (tables (led_db l) e') i))"
  using assms
proof (induction ps arbitrary: l W)
  case (Cons p ps)
  obtain w i where p: "p = (w, i)" by fastforce
  obtain m where m: "remove w e i l = (Inr (), m)" and rest: "remove_all e ps m = (Inr u, l')"
    using Cons.prems(3) p by (auto split: prod.splits sum.splits)
  have w: "plausible w" using Cons.prems(2) p by auto
  from remove_effect [OF Cons.prems(1) w m] obtain op where op: "ledger_ok (insert op W) dev m"
    and get: "\<And>e' j. tget (tables (led_db m) e') j = (if e' = e \<and> j = i then None else tget (tables (led_db l) e') j)" by blast
  have "(\<exists>W'. insert op W \<subseteq> W' \<and> ledger_ok W' dev l') \<and>
    (\<forall>e' i. tget (tables (led_db l') e') i = (if e' = e \<and> i \<in> snd ` set ps then None else tget (tables (led_db m) e') i))"
    using Cons.IH [OF op _ rest] Cons.prems(2) by auto
  then show ?case using get p by auto
qed auto

end
