(* ===== verification/Compare.thy ===== *)
theory Compare
  imports Clock
begin

text \<open>
  Sorting with a comparison function, as \<open>Array.prototype.sort\<close> does: stable, and determined by the
  comparison when it is consistent. \<open>String.prototype.localeCompare\<close> depends on the locale and is a
  parameter \<open>lc\<close> of the definitions that call it; what they rely on is that it is a consistent
  comparison, which the locale \<open>comparison\<close> states. The comparison of stamps is an instance.
\<close>

fun insert_by :: "('a \<Rightarrow> 'a \<Rightarrow> int) \<Rightarrow> 'a \<Rightarrow> 'a list \<Rightarrow> 'a list" where
  "insert_by cmp x [] = [x]"
| "insert_by cmp x (y # ys) = (if cmp x y \<le> 0 then x # y # ys else y # insert_by cmp x ys)"

definition sort_by :: "('a \<Rightarrow> 'a \<Rightarrow> int) \<Rightarrow> 'a list \<Rightarrow> 'a list" where
  "sort_by cmp xs = foldr (insert_by cmp) xs []"

text \<open>\<open>a || b\<close> on comparison results: the second decides when the first is zero.\<close>

definition or_else :: "int \<Rightarrow> int \<Rightarrow> int" where
  "or_else a b = (if a \<noteq> 0 then a else b)"

lemma mset_insert_by [simp]: "mset (insert_by cmp x ys) = add_mset x (mset ys)"
  by (induction ys) auto

lemma mset_sort_by [simp]: "mset (sort_by cmp xs) = mset xs"
  by (induction xs) (auto simp: sort_by_def)

lemma set_sort_by [simp]: "set (sort_by cmp xs) = set xs"
  using mset_sort_by [of cmp xs] by (metis set_mset_mset)

lemma length_sort_by [simp]: "length (sort_by cmp xs) = length xs"
  using mset_sort_by [of cmp xs] by (metis size_mset)

lemma sort_by_Nil [simp]: "sort_by cmp [] = []"
  by (simp add: sort_by_def)

locale comparison =
  fixes cmp :: "'a \<Rightarrow> 'a \<Rightarrow> int"
  assumes cmp_flip: "cmp a b \<le> 0 \<longleftrightarrow> 0 \<le> cmp b a"
    and cmp_trans: "cmp a b \<le> 0 \<Longrightarrow> cmp b c \<le> 0 \<Longrightarrow> cmp a c \<le> 0"
begin

lemma cmp_total: "cmp a b \<le> 0 \<or> cmp b a \<le> 0"
  using cmp_flip [of a b] by linarith

lemma insert_by_sorted: "sorted_wrt (\<lambda>a b. cmp a b \<le> 0) ys \<Longrightarrow> sorted_wrt (\<lambda>a b. cmp a b \<le> 0) (insert_by cmp x ys)"
proof (induction ys)
  case (Cons y ys)
  have "set (insert_by cmp x ys) = insert x (set ys)" using mset_insert_by [of cmp x ys] by (metis set_mset_add_mset_insert set_mset_mset)
  then show ?case using Cons cmp_total [of x y] by (auto intro: cmp_trans)
qed simp

lemma sort_by_sorted: "sorted_wrt (\<lambda>a b. cmp a b \<le> 0) (sort_by cmp xs)"
  by (induction xs) (auto simp: sort_by_def insert_by_sorted)

end

text \<open>Comparing by a key, and then by another one, is consistent again.\<close>

lemma comparison_key: "comparison cmp \<Longrightarrow> comparison (\<lambda>a b. cmp (f a) (f b))"
  unfolding comparison_def by blast

lemma comparison_or_else:
  assumes "comparison c" and "comparison d"
  shows "comparison (\<lambda>a b. or_else (c a b) (d a b))"
proof
  fix a b :: 'a
  show "or_else (c a b) (d a b) \<le> 0 \<longleftrightarrow> 0 \<le> or_else (c b a) (d b a)"
    using comparison.cmp_flip [OF assms(1), of a b] comparison.cmp_flip [OF assms(1), of b a]
      comparison.cmp_flip [OF assms(2), of a b] by (auto simp: or_else_def)
next
  fix x y z :: 'a
  assume xy: "or_else (c x y) (d x y) \<le> 0" and yz: "or_else (c y z) (d y z) \<le> 0"
  have cx: "c x y \<le> 0" "c y z \<le> 0" using xy yz by (auto simp: or_else_def split: if_splits)
  have cxz: "c x z \<le> 0" using comparison.cmp_trans [OF assms(1) cx] .
  show "or_else (c x z) (d x z) \<le> 0"
  proof (cases "c x z = 0")
    case True
    then have "c z x \<le> 0" using comparison.cmp_flip [OF assms(1), of z x] by simp
    then have "c y x \<le> 0" "c z y \<le> 0"
      using comparison.cmp_trans [OF assms(1) cx(2)] comparison.cmp_trans [OF assms(1) _ cx(1)] by blast+
    then have "c x y = 0" "c y z = 0"
      using cx comparison.cmp_flip [OF assms(1), of y x] comparison.cmp_flip [OF assms(1), of z y] by linarith+
    then show ?thesis using xy yz True comparison.cmp_trans [OF assms(2), of x y z] by (simp add: or_else_def)
  next
    case False
    then show ?thesis using cxz by (simp add: or_else_def)
  qed
qed

interpretation stamp_order: comparison compareHlc
proof
  show "compareHlc a b \<le> 0 \<longleftrightarrow> 0 \<le> compareHlc b a" for a b by (auto simp: compareHlc_def)
  show "compareHlc a b \<le> 0 \<Longrightarrow> compareHlc b c \<le> 0 \<Longrightarrow> compareHlc a c \<le> 0" for a b c
    unfolding compareHlc_simps(1) by (rule order_trans)
qed

interpretation number_order: comparison "\<lambda>a b. a - b :: int"
  by unfold_locales auto

end
