(* ===== verification/Rates_Service.thy ===== *)
theory Rates_Service
  imports Writes Compare
begin

text \<open>
  \<open>core/repositories/rates.service.ts\<close>: the exchange rates of a vault and its reporting currency. The
  day that \<open>toIsoDate()\<close> gives as the default of a date parameter is an argument.
\<close>

definition DEFAULT_REPORTING_CURRENCY :: string where
  "DEFAULT_REPORTING_CURRENCY = ''USD''"

text \<open>\<open>orderBy('date').reverse()\<close>\<close>

definition all_rates :: "docket_db \<Rightarrow> ExchangeRate list" where
  "all_rates d = rev (sort_key rate_date (rate_rows d))"

definition reportingCurrency :: "docket_db \<Rightarrow> string" where
  "reportingCurrency d = (case get_settings d of Some s \<Rightarrow> set_reportingCurrency s | None \<Rightarrow> DEFAULT_REPORTING_CURRENCY)"

record PairSummary =
  pair_base :: string
  pair_quote :: string
  pair_rate :: number
  pair_date :: string
  pair_count :: nat

definition pair_with :: "ExchangeRate \<Rightarrow> PairSummary option \<Rightarrow> PairSummary" where
  "pair_with r existing =
     (case existing of
        None \<Rightarrow> \<lparr>pair_base = rate_base r, pair_quote = rate_quote r, pair_rate = rate_rate r, pair_date = rate_date r, pair_count = 1\<rparr>
      | Some p \<Rightarrow>
          let p' = p\<lparr>pair_count := pair_count p + 1\<rparr>
          in if rate_date r > pair_date p then p'\<lparr>pair_rate := rate_rate r, pair_date := rate_date r\<rparr> else p')"

definition pairs :: "(string \<Rightarrow> string \<Rightarrow> int) \<Rightarrow> ExchangeRate list \<Rightarrow> PairSummary list" where
  "pairs lc rates =
     sort_by (\<lambda>a b. or_else (lc (pair_base a) (pair_base b)) (lc (pair_quote a) (pair_quote b)))
       (map snd (fold (\<lambda>r. map_update (rate_base r @ '':'' @ rate_quote r) (pair_with r)) rates []))"

definition lookup :: "docket_db \<Rightarrow> string \<Rightarrow> string \<Rightarrow> string \<Rightarrow> ExchangeRate option" where
  "lookup d base quote date = rateFor (all_rates d) base quote date"

definition rateToReporting :: "docket_db \<Rightarrow> string \<Rightarrow> string \<Rightarrow> number option result" where
  "rateToReporting d base date =
     (let reporting = reportingCurrency d
      in if sameCurrency base reporting then Inr (Some (Fin 1))
         else case lookup d base reporting date of
                Some direct \<Rightarrow> Inr (Some (rate_rate direct))
              | None \<Rightarrow>
                  (case lookup d reporting base date of
                     Some reverse \<Rightarrow> map_sum id Some (invertRate (rate_rate reverse))
                   | None \<Rightarrow> Inr None))"

definition setReportingCurrency :: "(nat \<Rightarrow> nat) \<Rightarrow> string \<Rightarrow> (ledger, unit) call" where
  "setReportingCurrency now currency l =
     (let code = toUpperCase (trim currency)
      in case assertCurrency code of
           Inl e \<Rightarrow> (Inl e, l)
         | Inr _ \<Rightarrow>
             let row = (case get_settings (led_db l) of
                          Some s \<Rightarrow> s\<lparr>set_id := ''vault'', set_reportingCurrency := code, set_updatedAt := []\<rparr>
                        | None \<Rightarrow> \<lparr>set_id = ''vault'', set_reportingCurrency = code, set_subcategories = None,
                                   set_createdAt = int (now 0), set_updatedAt = []\<rparr>)
             in andThen (put (now 1) VaultSettingsTable (VaultSettingsRow row)) (\<lambda>_. return ()) l)"

record RateDraft =
  rd_base :: string
  rd_quote :: string
  rd_rate :: number
  rd_date :: string
  rd_source :: "RateSource option"

definition rate_checks :: "string \<Rightarrow> string \<Rightarrow> RateDraft \<Rightarrow> unit result" where
  "rate_checks base quote draft =
     (case assertCurrency base of
        Inl e \<Rightarrow> Inl e
      | Inr _ \<Rightarrow>
          (case assertCurrency quote of
             Inl e \<Rightarrow> Inl e
           | Inr _ \<Rightarrow> first_error
               [(sameCurrency base quote, ''A currency is always worth one of itself''),
                (\<not> isFinite (rd_rate draft) \<or> num_le (rd_rate draft) (Fin 0), ''The rate must be a positive number''),
                (\<not> is_ymd (rd_date draft), ''Date must be YYYY-MM-DD'')]))"

definition rates_save :: "(nat \<Rightarrow> nat) \<Rightarrow> RateDraft \<Rightarrow> (ledger, AnyEntity) call" where
  "rates_save now draft l =
     (let base = toUpperCase (trim (rd_base draft)); quote = toUpperCase (trim (rd_quote draft))
      in case rate_checks base quote draft of
           Inl e \<Rightarrow> (Inl e, l)
         | Inr _ \<Rightarrow>
             let i = rateId base quote (rd_date draft)
             in put (now 1) Rates (RateRow \<lparr>rate_id = i, rate_base = base, rate_quote = quote, rate_rate = rd_rate draft,
                  rate_date = rd_date draft, rate_source = with_default Manual (rd_source draft),
                  rate_createdAt = (case get_rate (led_db l) i of Some r \<Rightarrow> rate_createdAt r | None \<Rightarrow> int (now 0)),
                  rate_updatedAt = []\<rparr>) l)"

definition rates_remove :: "(nat \<Rightarrow> nat) \<Rightarrow> string \<Rightarrow> (ledger, unit) call" where
  "rates_remove now i = remove (now 0) Rates i"

definition rate_history :: "docket_db \<Rightarrow> string \<Rightarrow> string \<Rightarrow> ExchangeRate list" where
  "rate_history d base quote = filter (\<lambda>r. sameCurrency (rate_base r) base \<and> sameCurrency (rate_quote r) quote) (all_rates d)"

section \<open>The contract\<close>

abbreviation draft_rate_id :: "RateDraft \<Rightarrow> string" where
  "draft_rate_id draft \<equiv> rateId (toUpperCase (trim (rd_base draft))) (toUpperCase (trim (rd_quote draft))) (rd_date draft)"

lemma assertCurrency_Inr [simp]: "assertCurrency code = Inr u \<longleftrightarrow> currency_code code"
  by (simp add: assertCurrency_def)

lemma positive_rate: "\<not> (\<not> isFinite r \<or> num_le r (Fin 0)) \<longleftrightarrow> (\<exists>x > 0. r = Fin x)"
  by (cases r) (auto simp: num_le_def)

lemma rate_checks_Inr:
  "rate_checks base quote draft = Inr u \<longleftrightarrow> currency_code base \<and> currency_code quote \<and> \<not> sameCurrency base quote \<and>
     (\<exists>x > 0. rd_rate draft = Fin x) \<and> is_ymd (rd_date draft)"
  using positive_rate [of "rd_rate draft"] by (auto simp: rate_checks_def assertCurrency_def split: sum.splits)

interpretation save_rate: service rates_save "\<lambda>draft. {(Rates, draft_rate_id draft)}"
proof
  fix now :: "nat \<Rightarrow> nat" and W dev l arg r l'
  assume "\<forall>j. plausible (now j)" "rates_save now arg l = (r, l')"
  then show "writes {(Rates, draft_rate_id arg)} l l'"
    by (auto simp: rates_save_def Let_def rate_checks_Inr rate_ok_def split: sum.splits intro!: writes_put)
qed

interpretation remove_rate: service rates_remove "\<lambda>i. {(Rates, i)}"
  by unfold_locales (auto simp: rates_remove_def intro: writes_remove)

interpretation set_currency: service setReportingCurrency "\<lambda>_. {(VaultSettingsTable, ''vault'')}"
proof
  fix now :: "nat \<Rightarrow> nat" and W dev l arg r l'
  assume "\<forall>j. plausible (now j)" "setReportingCurrency now arg l = (r, l')"
  then show "writes {(VaultSettingsTable, ''vault'')} l l'"
    by (auto simp: setReportingCurrency_def Let_def split: sum.splits option.splits intro!: writes_put dest!: andThen_return)
qed

section \<open>Saving and looking up\<close>

lemma rateFor_candidate:
  assumes "\<not> sameCurrency base quote" and "r \<in> set rates" and "rate_candidate base quote date r"
  obtains b where "rateFor rates base quote date = Some b" "b \<in> set rates" "rate_candidate base quote date b" "rate_date r \<le> rate_date b"
proof -
  have "best_of (rate_candidate base quote date) (set rates) (rateFor rates base quote date)"
    using fold_better_rate [of base quote date "{}" None rates] assms(1) by (simp add: rateFor_def best_of_def)
  then show thesis using assms(2,3) that by (auto simp: best_of_def split: option.splits)
qed

lemma rateFor_member:
  assumes "rateFor rates base quote date = Some b"
  shows "b \<in> set rates"
proof -
  have "\<not> sameCurrency base quote" using assms by (auto simp: rateFor_def split: if_splits)
  then have "best_of (rate_candidate base quote date) (set rates) (rateFor rates base quote date)"
    using fold_better_rate [of base quote date "{}" None rates] by (simp add: rateFor_def best_of_def)
  then show ?thesis using assms by (simp add: best_of_def)
qed

lemma upper_char_twice [simp]: "upper_char (upper_char c) = upper_char c"
proof (cases "CHR ''a'' \<le> c \<and> c \<le> CHR ''z''")
  case True
  then have "(of_char c :: nat) \<ge> 97" "(of_char c :: nat) \<le> 122" by (simp_all add: less_eq_char_def)
  then have "(of_char (char_of (of_char c - 32 :: nat)) :: nat) = of_char c - 32" by simp
  then show ?thesis using True \<open>(of_char c :: nat) \<le> 122\<close> by (auto simp: upper_char_def less_eq_char_def)
qed (auto simp: upper_char_def)

lemma toUpperCase_twice [simp]: "toUpperCase (toUpperCase s) = toUpperCase s"
  by (simp add: toUpperCase_def comp_def)

text \<open>A saved quote is the one found. After a rate is stored, looking the pair up on that day, in
  whatever case its codes were typed, gives exactly the stored row: an earlier entry for the same pair
  and day has been replaced and no other entry shadows it.\<close>

theorem rates_save_lookup:
  assumes ok: "ledger_ok W dev l" and valid: "rows_valid l" and now: "\<forall>j. plausible (now j)"
    and save: "rates_save now draft l = (Inr v, l')"
  shows "\<exists>r. lookup (led_db l') (trim (rd_base draft)) (trim (rd_quote draft)) (rd_date draft) = Some r \<and> v = RateRow r \<and>
    rate_rate r = rd_rate draft \<and> rate_date r = rd_date draft"
proof -
  let ?base = "toUpperCase (trim (rd_base draft))" and ?quote = "toUpperCase (trim (rd_quote draft))"
  let ?i = "draft_rate_id draft"
  obtain W' where W': "ledger_ok W' dev l'" and valid': "rows_valid l'" using save_rate.service_ok [OF now ok valid save] by blast
  have checks: "rate_checks ?base ?quote draft = Inr ()" using save by (auto simp: rates_save_def Let_def split: sum.splits)
  define q where "q = \<lparr>rate_id = ?i, rate_base = ?base, rate_quote = ?quote, rate_rate = rd_rate draft,
      rate_date = rd_date draft, rate_source = with_default Manual (rd_source draft),
      rate_createdAt = (case get_rate (led_db l) ?i of Some r \<Rightarrow> rate_createdAt r | None \<Rightarrow> int (now 0)), rate_updatedAt = []\<rparr>"
  have "put (now 1) Rates (RateRow q) l = (Inr v, l')" using save checks by (simp add: rates_save_def Let_def q_def)
  from put_effect [OF ok _ _ this] now obtain s where v: "v = RateRow (q\<lparr>rate_updatedAt := s\<rparr>)"
    and get: "tget (tables (led_db l') Rates) ?i = Some v" by (auto simp: q_def)
  define r where "r = q\<lparr>rate_updatedAt := s\<rparr>"
  have tab: "table_ok (tables (led_db l') Rates)" using ledger_okD(1) [OF W'] by (simp add: db_ok_def)
  have mem: "x \<in> set (all_rates (led_db l')) \<longleftrightarrow> (\<exists>i. tget (tables (led_db l') Rates) i = Some (RateRow x))" for x
    using rows_mem [OF tab, of x as_rate] by (simp add: all_rates_def row_Some)
  have rv: "v = RateRow r" by (simp add: v r_def)
  have r: "r \<in> set (all_rates (led_db l'))" using get rv mem by blast
  have "rate_candidate (trim (rd_base draft)) (trim (rd_quote draft)) (rd_date draft) r"
    by (simp add: rate_candidate_def r_def q_def sameCurrency_def)
  moreover have "\<not> sameCurrency (trim (rd_base draft)) (trim (rd_quote draft))"
    using checks by (simp add: rate_checks_Inr sameCurrency_def)
  ultimately obtain b where b: "lookup (led_db l') (trim (rd_base draft)) (trim (rd_quote draft)) (rd_date draft) = Some b"
      "b \<in> set (all_rates (led_db l'))" "rate_candidate (trim (rd_base draft)) (trim (rd_quote draft)) (rd_date draft) b"
      "rate_date r \<le> rate_date b"
    using r by (auto simp: lookup_def elim: rateFor_candidate)
  obtain j where j: "tget (tables (led_db l') Rates) j = Some (RateRow b)" using b(2) mem by blast
  have "rate_ok b" using row_valid [OF valid' j] by simp
  moreover have "rate_date b = rd_date draft" using b(3,4) by (simp add: rate_candidate_def r_def q_def)
  ultimately have "rate_id b = ?i" using b(3) by (simp add: rate_ok_def rate_candidate_def sameCurrency_def rateId_def)
  then have "b = r" using j get rv row_table(2) [OF W' j] by simp
  then show ?thesis using b(1) rv by (auto simp: r_def q_def)
qed

definition sample_quote :: RateDraft where
  "sample_quote = \<lparr>rd_base = '' eur '', rd_quote = ''USD'', rd_rate = Fin (5 / 4), rd_date = ''2024-03-05'', rd_source = None\<rparr>"

lemma new_ledger_rows_valid: "rows_valid (new_ledger dev)"
  by (simp add: rows_valid_def new_ledger_def initialise_def new_db_def)

theorem rates_save_lookup_witness:
  "\<exists>r. lookup (led_db (snd (rates_save (\<lambda>_. 1000) sample_quote (new_ledger ''a'')))) ''eur'' ''USD'' ''2024-03-05'' = Some r \<and>
     rate_rate r = Fin (5 / 4)"
proof -
  have "\<exists>v. rates_save (\<lambda>_. 1000) sample_quote (new_ledger ''a'') = (Inr v, snd (rates_save (\<lambda>_. 1000) sample_quote (new_ledger ''a'')))"
  proof -
    have "isl (fst (rates_save (\<lambda>_. 1000) sample_quote (new_ledger ''a''))) = False" by code_simp
    then show ?thesis by (metis prod.collapse sum.collapse(2))
  qed
  then obtain v where v: "rates_save (\<lambda>_. 1000) sample_quote (new_ledger ''a'') =
      (Inr v, snd (rates_save (\<lambda>_. 1000) sample_quote (new_ledger ''a'')))" ..
  have "ledger_ok {} ''a'' (new_ledger ''a'')" using sample_devices by (simp add: new_ledger_ok)
  moreover have "trim (rd_base sample_quote) = ''eur''" "trim (rd_quote sample_quote) = ''USD''"
    "rd_date sample_quote = ''2024-03-05''" "rd_rate sample_quote = Fin (5 / 4)" by (simp_all add: sample_quote_def trim_def is_space_def)
  ultimately show ?thesis
    using rates_save_lookup [OF _ new_ledger_rows_valid _ v, of "{}"] plausible_small [of 1000] by fastforce
qed

end
