(* ===== verification/Accounts_Service.thy ===== *)
theory Accounts_Service
  imports Rates_Service
begin

text \<open>
  \<open>core/repositories/accounts.service.ts\<close> with \<open>core/accounts/totals.ts\<close>: accounts, their balances and
  net worth. A balance is a sum of amounts in minor units and is an integer here, which the program's
  numbers hold exactly below \<open>2^53\<close>; net worth adds converted balances and is binary64 arithmetic.
\<close>

definition countsInTotals :: "Account \<Rightarrow> bool" where
  "countsInTotals account \<longleftrightarrow> acc_excludedFromTotals account \<noteq> Some True"

section \<open>Queries\<close>

definition all_accounts :: "docket_db \<Rightarrow> Account list" where
  "all_accounts d = sort_key acc_name (account_rows d)"

definition active_accounts :: "docket_db \<Rightarrow> Account list" where
  "active_accounts d = filter (\<lambda>account. \<not> acc_archived account) (all_accounts d)"

definition counted :: "docket_db \<Rightarrow> Account list" where
  "counted d = filter countsInTotals (active_accounts d)"

definition opening_balances :: "Account list \<Rightarrow> string \<Rightarrow> Minor option" where
  "opening_balances accounts = map_of (rev (map (\<lambda>account. (acc_id account, acc_openingBalance account)) accounts))"

definition add_effect :: "Transaction \<Rightarrow> string \<Rightarrow> (string \<Rightarrow> Minor option) \<Rightarrow> string \<Rightarrow> Minor option" where
  "add_effect txn i m =
     (if i = [] then m
      else case m i of None \<Rightarrow> m | Some balance \<Rightarrow> m(i \<mapsto> balance + signedFor i txn))"

definition add_transaction :: "Transaction \<Rightarrow> (string \<Rightarrow> Minor option) \<Rightarrow> string \<Rightarrow> Minor option" where
  "add_transaction txn m =
     (let m' = add_effect txn (txn_accountId txn) m
      in case txn_counterAccountId txn of None \<Rightarrow> m' | Some c \<Rightarrow> add_effect txn c m')"

definition balances_of :: "Account list \<Rightarrow> Transaction list \<Rightarrow> string \<Rightarrow> Minor option" where
  "balances_of accounts transactions = fold add_transaction transactions (opening_balances accounts)"

definition balances :: "docket_db \<Rightarrow> string \<Rightarrow> Minor option" where
  "balances d = balances_of (account_rows d) (transaction_rows d)"

definition convertBalance :: "Minor \<Rightarrow> number \<Rightarrow> string \<Rightarrow> string \<Rightarrow> number result" where
  "convertBalance amount rate from to = map_sum id (with_default (Fin 0)) (inReporting amount from (Some rate) to)"

fun net_loop :: "(string \<Rightarrow> Minor option) \<Rightarrow> (string \<Rightarrow> number option result) \<Rightarrow> string \<Rightarrow> Account list \<Rightarrow>
    number \<times> string list \<Rightarrow> (number \<times> string list) result" where
  "net_loop bal rates reporting [] s = Inr s"
| "net_loop bal rates reporting (account # accounts) (net, unconverted) =
     (let balance = with_default 0 (bal (acc_id account))
      in if sameCurrency (acc_currency account) reporting
         then net_loop bal rates reporting accounts (num_plus net (minor balance), unconverted)
         else case rates (acc_currency account) of
                Inl e \<Rightarrow> Inl e
              | Inr None \<Rightarrow> net_loop bal rates reporting accounts (net, unconverted @ [acc_currency account])
              | Inr (Some rate) \<Rightarrow>
                  (case convertBalance balance rate (acc_currency account) reporting of
                     Inl e \<Rightarrow> Inl e
                   | Inr converted \<Rightarrow> net_loop bal rates reporting accounts (num_plus net converted, unconverted)))"

record NetWorth =
  net_total :: number
  net_unconverted :: "string list"
  net_currency :: string
  net_excluded :: nat

definition netWorthDetail :: "string \<Rightarrow> docket_db \<Rightarrow> NetWorth result" where
  "netWorthDetail today d =
     (let reporting = reportingCurrency d
      in case net_loop (balances d) (\<lambda>c. rateToReporting d c today) reporting (counted d) (Fin 0, []) of
           Inl e \<Rightarrow> Inl e
         | Inr (net, unconverted) \<Rightarrow>
             Inr \<lparr>net_total = net, net_unconverted = unique unconverted, net_currency = reporting,
               net_excluded = length (active_accounts d) - length (counted d)\<rparr>)"

definition netWorth :: "string \<Rightarrow> docket_db \<Rightarrow> number result" where
  "netWorth today d = map_sum id net_total (netWorthDetail today d)"

definition account_byId :: "docket_db \<Rightarrow> string \<Rightarrow> Account option" where
  "account_byId d i = List.find (\<lambda>account. acc_id account = i) (all_accounts d)"

definition account_transactionCount :: "docket_db \<Rightarrow> string \<Rightarrow> nat" where
  "account_transactionCount d i =
     length (filter (\<lambda>t. txn_accountId t = i) (transaction_rows d)) +
     length (filter (\<lambda>t. txn_counterAccountId t = Some i) (transaction_rows d))"

section \<open>Changes\<close>

text \<open>A draft carries every field of an account but its creation time, which is defaulted; the
  callers give all fields that \<open>save\<close> does not default.\<close>

record AccountDraft =
  ad_account :: Account
  ad_createdAt :: "int option"

definition accounts_save :: "(nat \<Rightarrow> nat) \<Rightarrow> AccountDraft \<Rightarrow> (ledger, AnyEntity) call" where
  "accounts_save now draft l =
     put (now 1) Accounts (AccountRow ((ad_account draft)\<lparr>acc_createdAt := with_default (int (now 0)) (ad_createdAt draft)\<rparr>)) l"

definition setCountedInTotals :: "(nat \<Rightarrow> nat) \<Rightarrow> string \<times> bool \<Rightarrow> (ledger, unit) call" where
  "setCountedInTotals now arg l =
     (case get_account (led_db l) (fst arg) of
        None \<Rightarrow> (Inr (), l)
      | Some account \<Rightarrow>
          andThen (put (now 0) Accounts (AccountRow (account\<lparr>acc_excludedFromTotals := Some (\<not> snd arg)\<rparr>))) (\<lambda>_. return ()) l)"

definition accounts_setArchived :: "(nat \<Rightarrow> nat) \<Rightarrow> string \<times> bool \<Rightarrow> (ledger, unit) call" where
  "accounts_setArchived now arg l =
     (case get_account (led_db l) (fst arg) of
        None \<Rightarrow> (Inr (), l)
      | Some account \<Rightarrow>
          andThen (put (now 0) Accounts (AccountRow (account\<lparr>acc_archived := snd arg\<rparr>))) (\<lambda>_. return ()) l)"

definition accounts_remove :: "(nat \<Rightarrow> nat) \<Rightarrow> string \<Rightarrow> (ledger, unit) call" where
  "accounts_remove now i = remove (now 0) Accounts i"

section \<open>The contract\<close>

lemma get_account_id: "ledger_ok W dev l \<Longrightarrow> get_account (led_db l) i = Some a \<Longrightarrow> acc_id a = i"
  using row_table(2) [of W dev l Accounts i "AccountRow a"] by (auto simp: row_Some)

interpretation save_account: service accounts_save "\<lambda>draft. {(Accounts, acc_id (ad_account draft))}"
  by unfold_locales (auto simp: accounts_save_def intro!: writes_put)

interpretation count_account: service setCountedInTotals "\<lambda>arg. {(Accounts, fst arg)}"
  by unfold_locales (auto simp: setCountedInTotals_def get_account_id split: option.splits intro!: writes_put dest!: andThen_return)

interpretation archive_account: service accounts_setArchived "\<lambda>arg. {(Accounts, fst arg)}"
  by unfold_locales (auto simp: accounts_setArchived_def get_account_id split: option.splits intro!: writes_put dest!: andThen_return)

interpretation remove_account: service accounts_remove "\<lambda>i. {(Accounts, i)}"
  by unfold_locales (auto simp: accounts_remove_def intro: writes_remove)

section \<open>Balances\<close>

text \<open>A transfer from an account to itself is refused by the service, so the two identifiers the loop
  visits differ.\<close>

definition two_sided :: "Transaction \<Rightarrow> bool" where
  "two_sided t \<longleftrightarrow> txn_counterAccountId t \<noteq> Some (txn_accountId t)"

lemma signedFor_other: "i \<noteq> txn_accountId t \<Longrightarrow> txn_counterAccountId t \<noteq> Some i \<Longrightarrow> signedFor i t = 0"
  by (auto simp: signedFor_def)

lemma add_effect_get:
  "add_effect t j m i = (if i = j \<and> j \<noteq> [] then map_option (\<lambda>b. b + signedFor j t) (m i) else m i)"
  by (auto simp: add_effect_def split: option.split)

lemma add_transaction_get:
  assumes "two_sided t" and "i \<noteq> []"
  shows "add_transaction t m i = map_option (\<lambda>b. b + signedFor i t) (m i)"
proof -
  have none: "signedFor i t = 0" if "i \<noteq> txn_accountId t" "txn_counterAccountId t \<noteq> Some i"
    using signedFor_other that .
  show ?thesis
  proof (cases "txn_counterAccountId t")
    case None
    then show ?thesis using none assms(2) by (cases "i = txn_accountId t") (simp_all add: add_transaction_def add_effect_get option.map_ident)
  next
    case (Some c)
    then have "c \<noteq> txn_accountId t" using assms(1) by (auto simp: two_sided_def)
    then show ?thesis using Some none assms(2)
      by (cases "i = txn_accountId t"; cases "i = c") (simp_all add: add_transaction_def add_effect_get option.map_ident Let_def)
  qed
qed

lemma fold_add_transaction:
  assumes "\<forall>t \<in> set txns. two_sided t" and "i \<noteq> []"
  shows "fold add_transaction txns m i = map_option (\<lambda>b. b + (\<Sum>t \<leftarrow> txns. signedFor i t)) (m i)"
  using assms(1)
proof (induction txns arbitrary: m)
  case (Cons t txns)
  then show ?case using add_transaction_get [OF _ assms(2), of t m]
    by (simp add: option.map_comp comp_def algebra_simps)
qed (simp add: option.map_ident)

lemma opening_balances_get:
  assumes "distinct (map acc_id accounts)" and "a \<in> set accounts"
  shows "opening_balances accounts (acc_id a) = Some (acc_openingBalance a)"
proof -
  have "distinct (map fst (rev (map (\<lambda>a. (acc_id a, acc_openingBalance a)) accounts)))"
    using assms(1) by (simp add: rev_map [symmetric] comp_def)
  then show ?thesis using assms(2) by (auto simp: opening_balances_def intro: map_of_is_SomeI)
qed

lemma balances_of_get:
  assumes "distinct (map acc_id accounts)" and "a \<in> set accounts" and "acc_id a \<noteq> []" and "\<forall>t \<in> set txns. two_sided t"
  shows "balances_of accounts txns (acc_id a) = Some (acc_openingBalance a + (\<Sum>t \<leftarrow> txns. signedFor (acc_id a) t))"
  using fold_add_transaction [OF assms(4,3)] opening_balances_get [OF assms(1,2)] by (simp add: balances_of_def)

text \<open>The net effect of a transaction on all accounts of the vault: a transfer moves money and makes none.\<close>

definition net_effect :: "Transaction \<Rightarrow> Minor" where
  "net_effect t = (case txn_kind t of Income \<Rightarrow> txn_amount t | Expense \<Rightarrow> - txn_amount t | Transfer \<Rightarrow> 0)"

definition filed :: "Account list \<Rightarrow> Transaction \<Rightarrow> bool" where
  "filed accounts t \<longleftrightarrow> two_sided t \<and> txn_accountId t \<in> acc_id ` set accounts \<and>
     (txn_kind t = Transfer \<longrightarrow> (\<exists>c \<in> acc_id ` set accounts. txn_counterAccountId t = Some c))"

lemma signedFor_sum:
  assumes "distinct (map acc_id accounts)" and "filed accounts t"
  shows "(\<Sum>a \<leftarrow> accounts. signedFor (acc_id a) t) = net_effect t"
proof -
  let ?ids = "acc_id ` set accounts"
  have "(\<Sum>a \<leftarrow> accounts. signedFor (acc_id a) t) = (\<Sum>a \<in> set accounts. signedFor (acc_id a) t)"
    using assms(1) by (simp add: sum_list_distinct_conv_sum_set distinct_map)
  also have "\<dots> = (\<Sum>i \<in> ?ids. signedFor i t)"
    using assms(1) by (simp add: sum.reindex distinct_map)
  also have "\<dots> = (\<Sum>i \<in> ?ids. (if i = txn_accountId t then (if txn_kind t = Income then txn_amount t else - txn_amount t) else 0) +
      (if txn_kind t = Transfer \<and> txn_counterAccountId t = Some i then txn_amount t else 0))"
    using assms(2) by (intro sum.cong refl; cases "txn_kind t") (auto simp: signedFor_def filed_def two_sided_def)
  also have "\<dots> = (if txn_kind t = Income then txn_amount t else - txn_amount t) +
      (if txn_kind t = Transfer then txn_amount t else 0)"
  proof -
    have "(\<Sum>i \<in> ?ids. if txn_kind t = Transfer \<and> txn_counterAccountId t = Some i then txn_amount t else 0) =
        (if txn_kind t = Transfer then txn_amount t else 0)"
    proof (cases "txn_kind t = Transfer")
      case True
      then obtain c where "c \<in> ?ids" "txn_counterAccountId t = Some c" using assms(2) by (auto simp: filed_def)
      then show ?thesis using True by (simp add: sum.delta)
    qed simp
    then show ?thesis using assms(2) by (simp add: sum.distrib sum.delta filed_def)
  qed
  finally show ?thesis by (cases "txn_kind t") (simp_all add: net_effect_def)
qed

text \<open>Balances account for every transaction once. For a ledger whose transactions are filed against
  known accounts, each account's balance is its opening balance plus the signed amounts of its
  transactions, and the balances together are the opening balances plus all income minus all expense:
  transfers between accounts change no total.\<close>

theorem balances_conserve:
  assumes "distinct (map acc_id accounts)" and "\<forall>a \<in> set accounts. acc_id a \<noteq> []" and "\<forall>t \<in> set txns. filed accounts t"
  shows "(\<forall>a \<in> set accounts. balances_of accounts txns (acc_id a) =
      Some (acc_openingBalance a + (\<Sum>t \<leftarrow> txns. signedFor (acc_id a) t))) \<and>
    (\<Sum>a \<leftarrow> accounts. with_default 0 (balances_of accounts txns (acc_id a))) =
      (\<Sum>a \<leftarrow> accounts. acc_openingBalance a) + (\<Sum>t \<leftarrow> txns. net_effect t)"
proof -
  have each: "balances_of accounts txns (acc_id a) = Some (acc_openingBalance a + (\<Sum>t \<leftarrow> txns. signedFor (acc_id a) t))"
    if "a \<in> set accounts" for a
    using balances_of_get [OF assms(1) that] assms(2,3) that by (auto simp: filed_def)
  then have "(\<Sum>a \<leftarrow> accounts. with_default 0 (balances_of accounts txns (acc_id a))) =
      (\<Sum>a \<leftarrow> accounts. acc_openingBalance a + (\<Sum>t \<leftarrow> txns. signedFor (acc_id a) t))"
    by (intro arg_cong [of _ _ sum_list] map_cong) (simp_all add: with_default_def)
  also have "\<dots> = (\<Sum>a \<leftarrow> accounts. acc_openingBalance a) + (\<Sum>a \<leftarrow> accounts. \<Sum>t \<leftarrow> txns. signedFor (acc_id a) t)"
    by (simp add: sum_list_addf)
  also have "(\<Sum>a \<leftarrow> accounts. \<Sum>t \<leftarrow> txns. signedFor (acc_id a) t) = (\<Sum>t \<leftarrow> txns. \<Sum>a \<leftarrow> accounts. signedFor (acc_id a) t)"
    by (induction accounts) (simp_all add: sum_list_addf)
  also have "\<dots> = (\<Sum>t \<leftarrow> txns. net_effect t)"
    using signedFor_sum [OF assms(1)] assms(3) by (intro arg_cong [of _ _ sum_list] map_cong) simp_all
  finally show ?thesis using each by blast
qed

definition plain_account :: "string \<Rightarrow> Minor \<Rightarrow> Account" where
  "plain_account i opening = \<lparr>acc_id = i, acc_name = i, acc_kind = Bank, acc_currency = ''USD'', acc_openingBalance = opening,
     acc_archived = False, acc_colour = [], acc_icon = [], acc_groupId = None, acc_creditLimit = None, acc_statementDay = None,
     acc_dueDay = None, acc_excludedFromTotals = None, acc_createdAt = 0, acc_updatedAt = []\<rparr>"

definition plain_transfer :: Transaction where
  "plain_transfer = \<lparr>txn_id = ''t'', txn_kind = Transfer, txn_amount = 250, txn_currency = ''USD'', txn_accountId = ''x'',
     txn_counterAccountId = Some ''y'', txn_categoryId = None, txn_date = ''2024-03-05'', txn_payee = [], txn_note = [], txn_tags = [],
     txn_cleared = True, txn_rate = None, txn_rateDate = None, txn_createdAt = 0, txn_updatedAt = []\<rparr>"

theorem balances_conserve_witness:
  "balances_of [plain_account ''x'' 1000, plain_account ''y'' 0] [plain_transfer] ''x'' = Some 750 \<and>
   (\<Sum>a \<leftarrow> [plain_account ''x'' 1000, plain_account ''y'' 0].
      with_default 0 (balances_of [plain_account ''x'' 1000, plain_account ''y'' 0] [plain_transfer] (acc_id a))) = 1000"
  using balances_conserve [of "[plain_account ''x'' 1000, plain_account ''y'' 0]" "[plain_transfer]"]
  by (simp add: plain_account_def plain_transfer_def filed_def two_sided_def signedFor_def net_effect_def with_default_def)

end
