(* ===== verification/Groups_Service.thy ===== *)
theory Groups_Service
  imports Accounts_Service
begin

text \<open>
  \<open>core/repositories/account-groups.service.ts\<close> with \<open>core/accounts/classification.ts\<close>. The signals the
  operations read, the groups and the accounts, are arguments.
\<close>

section \<open>Classification\<close>

datatype BalanceSheetSide = Asset | Liability

definition sideOfType :: "AccountGroupType \<Rightarrow> BalanceSheetSide" where
  "sideOfType type = (if type = CreditCard \<or> type = Loan then Liability else Asset)"

definition sideOf :: "Account \<Rightarrow> AccountGroup option \<Rightarrow> BalanceSheetSide" where
  "sideOf account grp = (case grp of Some g \<Rightarrow> sideOfType (grp_type g) | None \<Rightarrow> Asset)"

definition readsAsOwed :: "AccountGroupType \<Rightarrow> bool" where
  "readsAsOwed type \<longleftrightarrow> sideOfType type = Liability"

section \<open>Queries\<close>

definition compareGroups :: "(string \<Rightarrow> string \<Rightarrow> int) \<Rightarrow> AccountGroup \<Rightarrow> AccountGroup \<Rightarrow> int" where
  "compareGroups lc a b =
     or_else (or_else (grp_order a - grp_order b) (lc (grp_name a) (grp_name b))) (lc (grp_id a) (grp_id b))"

definition ordered_groups :: "(string \<Rightarrow> string \<Rightarrow> int) \<Rightarrow> AccountGroup list \<Rightarrow> AccountGroup list" where
  "ordered_groups lc groups = sort_by (compareGroups lc) groups"

definition active_groups :: "(string \<Rightarrow> string \<Rightarrow> int) \<Rightarrow> AccountGroup list \<Rightarrow> AccountGroup list" where
  "active_groups lc groups = filter (\<lambda>g. \<not> grp_archived g) (ordered_groups lc groups)"

definition group_byId :: "AccountGroup list \<Rightarrow> string option \<Rightarrow> AccountGroup option" where
  "group_byId groups i = (if falsy i then None else List.find (\<lambda>g. Some (grp_id g) = i) groups)"

definition typeOf :: "AccountGroup list \<Rightarrow> Account \<Rightarrow> AccountGroupType" where
  "typeOf groups account = with_default Default (map_option grp_type (group_byId groups (acc_groupId account)))"

definition isCreditCard :: "AccountGroup list \<Rightarrow> Account \<Rightarrow> bool" where
  "isCreditCard groups account \<longleftrightarrow> typeOf groups account = CreditCard"

definition isLiability :: "AccountGroup list \<Rightarrow> Account \<Rightarrow> bool" where
  "isLiability groups account \<longleftrightarrow> sideOf account (group_byId groups (acc_groupId account)) = Liability"

definition accountsIn :: "Account list \<Rightarrow> string \<Rightarrow> Account list" where
  "accountsIn accounts groupId = filter (\<lambda>account. acc_groupId account = Some groupId) accounts"

definition ungrouped :: "AccountGroup list \<Rightarrow> Account list \<Rightarrow> Account list" where
  "ungrouped groups accounts =
     filter (\<lambda>a. falsy (acc_groupId a) \<or> the (acc_groupId a) \<notin> set (map grp_id groups)) accounts"

section \<open>Changes\<close>

record AccountGroupDraft =
  gd_id :: string
  gd_name :: string
  gd_type :: AccountGroupType
  gd_order :: "int option"
  gd_colour :: "string option"
  gd_icon :: "string option"
  gd_archived :: "bool option"
  gd_createdAt :: "int option"

definition nextOrder :: "AccountGroup list \<Rightarrow> int" where
  "nextOrder groups = (case map grp_order groups of [] \<Rightarrow> 0 | x # xs \<Rightarrow> fold max xs x + 1)"

definition draft_group :: "AccountGroup list \<Rightarrow> int \<Rightarrow> AccountGroupDraft \<Rightarrow> AccountGroup" where
  "draft_group groups created draft =
     \<lparr>grp_id = gd_id draft, grp_name = gd_name draft, grp_type = gd_type draft,
      grp_order = with_default (nextOrder groups) (gd_order draft),
      grp_colour = with_default ''#3880ff'' (gd_colour draft), grp_icon = with_default ''folder-outline'' (gd_icon draft),
      grp_archived = with_default False (gd_archived draft),
      grp_createdAt = with_default created (gd_createdAt draft), grp_updatedAt = []\<rparr>"

definition groups_save :: "(nat \<Rightarrow> nat) \<Rightarrow> AccountGroupDraft \<times> AccountGroup list \<Rightarrow> (ledger, AnyEntity) call" where
  "groups_save now arg l = put (now 1) AccountGroups (AccountGroupRow (draft_group (snd arg) (int (now 0)) (fst arg))) l"

definition groups_setArchived :: "(nat \<Rightarrow> nat) \<Rightarrow> string \<times> bool \<Rightarrow> (ledger, unit) call" where
  "groups_setArchived now arg l =
     (case get_group (led_db l) (fst arg) of
        None \<Rightarrow> (Inr (), l)
      | Some g \<Rightarrow> andThen (put (now 0) AccountGroups (AccountGroupRow (g\<lparr>grp_archived := snd arg\<rparr>))) (\<lambda>_. return ()) l)"

definition groups_remove :: "(nat \<Rightarrow> nat) \<Rightarrow> string \<times> Account list \<Rightarrow> (ledger, unit) call" where
  "groups_remove now arg =
     (let members = accountsIn (snd arg) (fst arg)
      in andThen (put_all (timed now 0 (map (\<lambda>account. AccountRow (account\<lparr>acc_groupId := None\<rparr>)) members)))
           (\<lambda>_. remove (now (length members)) AccountGroups (fst arg)))"

record StarterGroup =
  sg_name :: string
  sg_type :: AccountGroupType
  sg_icon :: string
  sg_accounts :: "(string \<times> AccountKind \<times> string) list"

definition STARTER_GROUPS :: "StarterGroup list" where
  "STARTER_GROUPS =
     [\<lparr>sg_name = ''Everyday'', sg_type = Default, sg_icon = ''folder-outline'',
       sg_accounts = [(''Cash'', Cash, ''cash-outline''), (''Current account'', Bank, ''business-outline'')]\<rparr>,
      \<lparr>sg_name = ''Savings'', sg_type = Default, sg_icon = ''folder-outline'',
       sg_accounts = [(''Savings'', Savings, ''save-outline'')]\<rparr>,
      \<lparr>sg_name = ''Credit cards'', sg_type = CreditCard, sg_icon = ''card-outline'',
       sg_accounts = [(''Credit card'', Card, ''card-outline'')]\<rparr>,
      \<lparr>sg_name = ''Debit cards'', sg_type = DebitCard, sg_icon = ''card-outline'',
       sg_accounts = [(''Debit card'', Card, ''card-outline'')]\<rparr>,
      \<lparr>sg_name = ''Loans'', sg_type = Loan, sg_icon = ''trending-down-outline'',
       sg_accounts = [(''Loan'', Bank, ''trending-down-outline'')]\<rparr>]"

definition starter_account :: "string \<Rightarrow> string \<Rightarrow> string \<Rightarrow> int \<Rightarrow> string \<times> AccountKind \<times> string \<Rightarrow> Account" where
  "starter_account currency i groupId created a =
     \<lparr>acc_id = i, acc_name = fst a, acc_kind = fst (snd a), acc_currency = currency, acc_openingBalance = 0, acc_archived = False,
      acc_colour = ''#3880ff'', acc_icon = snd (snd a), acc_groupId = Some groupId, acc_creditLimit = None,
      acc_statementDay = None, acc_dueDay = None, acc_excludedFromTotals = None, acc_createdAt = created, acc_updatedAt = []\<rparr>"

text \<open>The saves of one starter group and its accounts, and of all: save number \<open>n\<close> takes the \<open>n\<close>-th random
  identifier and reads the clock at \<open>2 n\<close> and \<open>2 n + 1\<close>.\<close>

fun seed_accounts :: "(nat \<Rightarrow> nat) \<Rightarrow> (nat \<Rightarrow> string) \<Rightarrow> string \<Rightarrow> string \<Rightarrow> nat \<Rightarrow> (string \<times> AccountKind \<times> string) list \<Rightarrow> (nat \<times> AnyEntity) list" where
  "seed_accounts now uuid currency groupId n [] = []"
| "seed_accounts now uuid currency groupId n (a # rest) =
     (now (2 * n + 1), AccountRow (starter_account currency (uuid n) groupId (int (now (2 * n))) a))
       # seed_accounts now uuid currency groupId (Suc n) rest"

fun seed_groups :: "(nat \<Rightarrow> nat) \<Rightarrow> (nat \<Rightarrow> string) \<Rightarrow> string \<Rightarrow> nat \<Rightarrow> nat \<Rightarrow> StarterGroup list \<Rightarrow> (nat \<times> AnyEntity) list" where
  "seed_groups now uuid currency order n [] = []"
| "seed_groups now uuid currency order n (starter # rest) =
     (now (2 * n + 1), AccountGroupRow (draft_group [] (int (now (2 * n)))
        \<lparr>gd_id = uuid n, gd_name = sg_name starter, gd_type = sg_type starter, gd_order = Some (int order), gd_colour = None,
         gd_icon = Some (sg_icon starter), gd_archived = None, gd_createdAt = None\<rparr>))
       # seed_accounts now uuid currency (uuid n) (Suc n) (sg_accounts starter)
       @ seed_groups now uuid currency (Suc order) (Suc n + length (sg_accounts starter)) rest"

definition groups_seedIfEmpty :: "(nat \<Rightarrow> nat) \<Rightarrow> (nat \<Rightarrow> string) \<Rightarrow> (ledger, unit) call" where
  "groups_seedIfEmpty now uuid l =
     (if length (tables (led_db l) AccountGroups) > 0 \<or> length (tables (led_db l) Accounts) > 0 then (Inr (), l)
      else put_all (seed_groups now uuid (reportingCurrency (led_db l)) 0 0 STARTER_GROUPS) l)"

definition moveAccount :: "(nat \<Rightarrow> nat) \<Rightarrow> string \<times> string option \<Rightarrow> (ledger, unit) call" where
  "moveAccount now arg l =
     (case get_account (led_db l) (fst arg) of
        None \<Rightarrow> (Inr (), l)
      | Some account \<Rightarrow>
          if acc_groupId account = snd arg then (Inr (), l)
          else andThen (put (now 0) Accounts (AccountRow (account\<lparr>acc_groupId := snd arg\<rparr>))) (\<lambda>_. return ()) l)"

text \<open>The groups that \<open>reorder\<close> writes: the known ones whose position changed.\<close>

definition reordered :: "string list \<Rightarrow> AccountGroup list \<Rightarrow> AccountGroup list" where
  "reordered ids groups =
     List.map_filter (\<lambda>(index, i).
        case group_byId groups (Some i) of
          None \<Rightarrow> None
        | Some g \<Rightarrow> if grp_order g = int index then None else Some (g\<lparr>grp_order := int index\<rparr>)) (enumerate 0 ids)"

definition reorder :: "(nat \<Rightarrow> nat) \<Rightarrow> string list \<times> AccountGroup list \<Rightarrow> (ledger, unit) call" where
  "reorder now arg = put_all (timed now 0 (map AccountGroupRow (reordered (fst arg) (snd arg))))"

section \<open>The contract\<close>

lemma get_group_id: "ledger_ok W dev l \<Longrightarrow> get_group (led_db l) i = Some g \<Longrightarrow> grp_id g = i"
  using row_table(2) [of W dev l AccountGroups i "AccountGroupRow g"] by (auto simp: row_Some)

interpretation save_group: service groups_save "\<lambda>arg. {(AccountGroups, gd_id (fst arg))}"
  by unfold_locales (auto simp: groups_save_def draft_group_def intro!: writes_put)

interpretation archive_group: service groups_setArchived "\<lambda>arg. {(AccountGroups, fst arg)}"
  by unfold_locales (auto simp: groups_setArchived_def get_group_id split: option.splits intro!: writes_put dest!: andThen_return)

interpretation move_account: service moveAccount "\<lambda>arg. {(Accounts, fst arg)}"
  by unfold_locales (auto simp: moveAccount_def get_account_id split: option.splits if_splits intro!: writes_put dest!: andThen_return)

interpretation reorder_groups: service reorder "\<lambda>arg. (\<lambda>g. (AccountGroups, grp_id g)) ` set (reordered (fst arg) (snd arg))"
proof
  fix now :: "nat \<Rightarrow> nat" and W dev l and arg :: "string list \<times> AccountGroup list" and r l'
  assume now: "\<forall>j. plausible (now j)" and call: "reorder now arg l = (r, l')"
  show "writes ((\<lambda>g. (AccountGroups, grp_id g)) ` set (reordered (fst arg) (snd arg))) l l'"
    by (rule writes_timed [OF now _ call [unfolded reorder_def]]) auto
qed

interpretation remove_group: service groups_remove
  "\<lambda>arg. insert (AccountGroups, fst arg) ((\<lambda>a. (Accounts, acc_id a)) ` set (accountsIn (snd arg) (fst arg)))"
proof
  fix now :: "nat \<Rightarrow> nat" and W dev l and arg :: "string \<times> Account list" and r l'
  let ?rows = "timed now 0 (map (\<lambda>account. AccountRow (account\<lparr>acc_groupId := None\<rparr>)) (accountsIn (snd arg) (fst arg)))"
  let ?K = "insert (AccountGroups, fst arg) ((\<lambda>a. (Accounts, acc_id a)) ` set (accountsIn (snd arg) (fst arg)))"
  assume now: "\<forall>j. plausible (now j)" and call: "groups_remove now arg l = (r, l')"
  have loop: "writes ?K l m" if "put_all ?rows l = (q, m)" for q m
    by (rule writes_timed [OF now _ that]) auto
  from call have "andThen (put_all ?rows) (\<lambda>_. remove (now (length (accountsIn (snd arg) (fst arg)))) AccountGroups (fst arg)) l = (r, l')"
    by (simp add: groups_remove_def Let_def)
  then show "writes ?K l l'"
  proof (cases rule: andThen_cases)
    case (2 a m)
    then show ?thesis using loop [OF 2(1)] writes_remove [OF 2(2), of ?K] now by simp
  qed (use loop in blast)
qed

lemma seed_accounts_rows: "(w, v) \<in> set (seed_accounts now uuid currency g n xs) \<Longrightarrow>
    (\<exists>j. w = now j) \<and> entity_valid v \<and> entity_of v = Accounts \<and> (\<exists>j. entity_id v = uuid j)"
  by (induction xs arbitrary: n) (auto simp: starter_account_def)

lemma seed_groups_rows: "(w, v) \<in> set (seed_groups now uuid currency order n xs) \<Longrightarrow>
    (\<exists>j. w = now j) \<and> entity_valid v \<and> (entity_of v, entity_id v) \<in> {AccountGroups, Accounts} \<times> range uuid"
  by (induction xs arbitrary: n order) (auto simp: draft_group_def dest!: seed_accounts_rows)

interpretation seed_vault_groups: service groups_seedIfEmpty "\<lambda>uuid. {AccountGroups, Accounts} \<times> range uuid"
proof
  fix now :: "nat \<Rightarrow> nat" and W dev and l :: ledger and uuid :: "nat \<Rightarrow> string" and r l'
  let ?rows = "seed_groups now uuid (reportingCurrency (led_db l)) 0 0 STARTER_GROUPS"
  assume now: "\<forall>j. plausible (now j)" and call: "groups_seedIfEmpty now uuid l = (r, l')"
  have "\<forall>(w, v) \<in> set ?rows. plausible w \<and> entity_valid v \<and> (entity_of v, entity_id v) \<in> {AccountGroups, Accounts} \<times> range uuid"
    using now seed_groups_rows by fast
  then show "writes ({AccountGroups, Accounts} \<times> range uuid) l l'"
    using call writes_put_all [of ?rows] by (auto simp: groups_seedIfEmpty_def split: if_splits)
qed

section \<open>Deleting a group\<close>

lemma accountsIn_rows:
  assumes "ledger_ok W dev l" and "set accounts = set (account_rows (led_db l))"
  shows "a \<in> set (accountsIn accounts i) \<longleftrightarrow> get_account (led_db l) (acc_id a) = Some a \<and> acc_groupId a = Some i"
proof -
  have "table_ok (tables (led_db l) Accounts)" using ledger_okD(1) [OF assms(1)] by (simp add: db_ok_def)
  from rows_mem [OF this, of a as_account] show ?thesis
    using assms(2) get_account_id [OF assms(1)] by (auto simp: accountsIn_def)
qed

text \<open>Deleting a group loses no account. When the accounts the service reads are the stored ones and
  the delete succeeds, the group is gone, every account is still there, the members are out of the
  group and otherwise unchanged but for their stamp, and nothing else in the ledger changes.\<close>

theorem groups_remove_spec:
  assumes "ledger_ok W dev l" and "\<forall>j. plausible (now j)"
    and "set accounts = set (account_rows (led_db l))" and "distinct (map acc_id accounts)"
    and "groups_remove now (i, accounts) l = (Inr u, l')"
  shows "get_group (led_db l') i = None \<and>
    (\<forall>k. case get_account (led_db l) k of
        None \<Rightarrow> get_account (led_db l') k = None
      | Some a \<Rightarrow> \<exists>s. get_account (led_db l') k = Some (if acc_groupId a = Some i then a\<lparr>acc_groupId := None, acc_updatedAt := s\<rparr> else a)) \<and>
    (\<forall>e k. e \<noteq> Accounts \<longrightarrow> (e, k) \<noteq> (AccountGroups, i) \<longrightarrow> tget (tables (led_db l') e) k = tget (tables (led_db l) e) k)"
proof -
  let ?members = "accountsIn accounts i"
  let ?vs = "map (\<lambda>account. AccountRow (account\<lparr>acc_groupId := None\<rparr>)) ?members"
  obtain m where m: "put_all (timed now 0 ?vs) l = (Inr (), m)" "remove (now (length ?members)) AccountGroups i m = (Inr u, l')"
    using assms(5) by (auto simp: groups_remove_def Let_def andThen_def split: prod.splits sum.splits)
  have "distinct (map acc_id ?members)" using assms(4) by (simp add: accountsIn_def distinct_map_filter)
  then have keys: "distinct (map (\<lambda>v. (entity_of v, entity_id v)) ?vs)" by (simp add: distinct_map inj_on_def)
  note eff = put_timed_effect [OF assms(1,2) m(1) keys]
  obtain W' where W': "ledger_ok W' dev m" using eff(1) by blast
  from remove_effect [OF W' _ m(2)] assms(2)
  have get': "\<And>e k. tget (tables (led_db l') e) k = (if e = AccountGroups \<and> k = i then None else tget (tables (led_db m) e) k)" by blast
  have member: "\<exists>s. get_account (led_db l') (acc_id a) = Some (a\<lparr>acc_groupId := None, acc_updatedAt := s\<rparr>)" if "a \<in> set ?members" for a
    using eff(2) [of "AccountRow (a\<lparr>acc_groupId := None\<rparr>)"] that get' by (auto simp: row_Some)
  have "case get_account (led_db l) k of
        None \<Rightarrow> get_account (led_db l') k = None
      | Some a \<Rightarrow> \<exists>s. get_account (led_db l') k = Some (if acc_groupId a = Some i then a\<lparr>acc_groupId := None, acc_updatedAt := s\<rparr> else a)" for k
  proof (cases "\<exists>a \<in> set ?members. acc_id a = k")
    case True
    then show ?thesis using member accountsIn_rows [OF assms(1,3)] by (auto split: option.split)
  next
    case False
    then have "get_account (led_db l') k = get_account (led_db l) k" using eff(3) [of Accounts k] get' by (force simp: row_def)
    moreover have "acc_groupId a \<noteq> Some i" if "get_account (led_db l) k = Some a" for a
      using False that accountsIn_rows [OF assms(1,3), of a i] get_account_id [OF assms(1) that] by metis
    ultimately show ?thesis by (auto split: option.split)
  qed
  moreover have "tget (tables (led_db m) e) k = tget (tables (led_db l) e) k" if "e \<noteq> Accounts" for e k
    using eff(3) [of e k] that by force
  ultimately show ?thesis using get' by (auto simp: row_def)
qed

definition filed_account :: Account where
  "filed_account = starter_account ''USD'' ''x'' ''g'' 0 (''Cash'', Cash, [])"

definition filed_rows :: "AnyEntity list" where
  "filed_rows = [AccountRow filed_account, AccountGroupRow (draft_group [] 0
     \<lparr>gd_id = ''g'', gd_name = ''Everyday'', gd_type = Default, gd_order = None, gd_colour = None, gd_icon = None, gd_archived = None, gd_createdAt = None\<rparr>)]"

definition filed_ledger :: ledger where
  "filed_ledger = snd (put_all (timed (\<lambda>_. 1000) 0 filed_rows) (new_ledger ''a''))"

lemma filed_ledger_ok: "\<exists>W. ledger_ok W ''a'' filed_ledger"
proof -
  have "fst (put_all (timed (\<lambda>_. 1000) 0 filed_rows) (new_ledger ''a'')) = Inr ()" by code_simp
  then have "put_all (timed (\<lambda>_. 1000) 0 filed_rows) (new_ledger ''a'') = (Inr (), filed_ledger)"
    by (simp add: filed_ledger_def prod_eq_iff)
  moreover have "ledger_ok {} ''a'' (new_ledger ''a'')" using sample_devices by (simp add: new_ledger_ok)
  moreover have "distinct (map (\<lambda>v. (entity_of v, entity_id v)) filed_rows)" by (simp add: filed_rows_def)
  ultimately show ?thesis 
    using put_timed_effect(1) [of "{}" "''a''" "new_ledger ''a''" "\<lambda>_. 1000" 0 filed_rows "()" filed_ledger] plausible_small [of 1000] by simp
qed

theorem groups_remove_spec_witness:
  "\<exists>l' a. groups_remove (\<lambda>_. 2000) (''g'', account_rows (led_db filed_ledger)) filed_ledger = (Inr (), l') \<and>
     get_account (led_db l') ''x'' = Some a \<and> acc_groupId a = None"
proof -
  let ?rows = "account_rows (led_db filed_ledger)"
  have "fst (groups_remove (\<lambda>_. 2000) (''g'', ?rows) filed_ledger) = Inr ()" by code_simp
  then obtain l' where l': "groups_remove (\<lambda>_. 2000) (''g'', ?rows) filed_ledger = (Inr (), l')" by (metis prod.collapse)
  obtain W where ok: "ledger_ok W ''a'' filed_ledger" using filed_ledger_ok by blast
  have "map acc_id ?rows = [''x'']" "map_option acc_groupId (get_account (led_db filed_ledger) ''x'') = Some (Some ''g'')" by code_simp+
  then obtain a where a: "get_account (led_db filed_ledger) ''x'' = Some a" "acc_groupId a = Some ''g''" and dist: "distinct (map acc_id ?rows)" by auto
  have "\<forall>j::nat. plausible 2000" using plausible_small by simp
  from spec [OF conjunct1 [OF conjunct2 [OF groups_remove_spec [OF ok this refl dist l']]], of "''x''"]
  have "\<exists>s. get_account (led_db l') ''x'' = Some (a\<lparr>acc_groupId := None, acc_updatedAt := s\<rparr>)" using a by simp
  then show ?thesis using l' by auto
qed

end
