(* ===== verification/Category_Tree.thy ===== *)
theory Category_Tree
  imports Compare Domain
begin

text \<open>
  Categories arranged into two levels and rolled up to their parents (\<open>core/categories/tree.ts\<close>). A
  JavaScript \<open>Map\<close> built from a list keeps the last value of a key; it is a map here.
\<close>

record CategoryNode =
  node_category :: Category
  node_children :: "Category list"

definition compareCategories :: "(string \<Rightarrow> string \<Rightarrow> int) \<Rightarrow> Category \<Rightarrow> Category \<Rightarrow> int" where
  "compareCategories lc a b = or_else (lc (cat_name a) (cat_name b)) (lc (cat_id a) (cat_id b))"

definition byId :: "Category list \<Rightarrow> string \<Rightarrow> Category option" where
  "byId categories = map_of (rev (map (\<lambda>c. (cat_id c, c)) categories))"

text \<open>The parent that the loop of \<open>buildTree\<close> looks up: an empty \<open>parentId\<close> is falsy.\<close>

definition parent_in :: "(string \<Rightarrow> Category option) \<Rightarrow> Category \<Rightarrow> Category option" where
  "parent_in index category =
     (case cat_parentId category of None \<Rightarrow> None | Some p \<Rightarrow> if p = [] then None else index p)"

fun tree_loop :: "(string \<Rightarrow> Category option) \<Rightarrow> Category list \<Rightarrow> Category list \<times> (string \<Rightarrow> Category list option) \<Rightarrow>
    Category list \<times> (string \<Rightarrow> Category list option)" where
  "tree_loop index [] s = s"
| "tree_loop index (category # cs) (roots, children) =
     (case parent_in index category of
        None \<Rightarrow> tree_loop index cs (roots @ [category], children)
      | Some parent \<Rightarrow>
          if cat_parentId parent \<noteq> None then tree_loop index cs (roots @ [category], children)
          else case children (cat_id parent) of
                 Some bucket \<Rightarrow> tree_loop index cs (roots, children(cat_id parent \<mapsto> bucket @ [category]))
               | None \<Rightarrow> tree_loop index cs (roots, children(cat_id parent \<mapsto> [category])))"

definition tree_scope :: "CategoryKind option \<Rightarrow> Category list \<Rightarrow> Category list" where
  "tree_scope kind categories = (case kind of Some k \<Rightarrow> filter (\<lambda>c. cat_kind c = k) categories | None \<Rightarrow> categories)"

definition buildTree :: "(string \<Rightarrow> string \<Rightarrow> int) \<Rightarrow> Category list \<Rightarrow> CategoryKind option \<Rightarrow> CategoryNode list" where
  "buildTree lc categories kind =
     (let scope = tree_scope kind categories
      in case tree_loop (byId scope) scope ([], \<lambda>_. None) of
           (roots, children) \<Rightarrow>
             map (\<lambda>category. \<lparr>node_category = category,
                   node_children = sort_by (compareCategories lc)
                     (case children (cat_id category) of Some cs \<Rightarrow> cs | None \<Rightarrow> [])\<rparr>)
               (sort_by (compareCategories lc) roots))"

definition rootIdOf :: "string option \<Rightarrow> (string \<Rightarrow> Category option) \<Rightarrow> string option" where
  "rootIdOf categoryId categories =
     (case categoryId of
        None \<Rightarrow> None
      | Some i \<Rightarrow>
          (case categories i of
             None \<Rightarrow> Some i
           | Some category \<Rightarrow>
               (case cat_parentId category of
                  None \<Rightarrow> Some i
                | Some p \<Rightarrow> if p = [] then Some i else if categories p \<noteq> None then Some p else Some i)))"

definition descendantIds :: "string \<Rightarrow> Category list \<Rightarrow> string list" where
  "descendantIds categoryId categories = map cat_id (filter (\<lambda>c. cat_parentId c = Some categoryId) categories)"

definition add_child :: "Category \<Rightarrow> string set \<Rightarrow> string set" where
  "add_child category wanted =
     (case cat_parentId category of
        None \<Rightarrow> wanted
      | Some p \<Rightarrow> if p \<noteq> [] \<and> p \<in> wanted then insert (cat_id category) wanted else wanted)"

definition withDescendants :: "string list \<Rightarrow> Category list \<Rightarrow> string set" where
  "withDescendants ids categories = fold add_child categories (set ids)"

definition rootIds :: "Category list \<Rightarrow> string \<Rightarrow> string option" where
  "rootIds categories =
     (let index = byId categories
      in fold (\<lambda>category roots. roots(cat_id category \<mapsto>
           (case rootIdOf (Some (cat_id category)) index of Some r \<Rightarrow> r | None \<Rightarrow> cat_id category))) categories (\<lambda>_. None))"

section \<open>What the tree holds\<close>

definition is_child :: "(string \<Rightarrow> Category option) \<Rightarrow> Category \<Rightarrow> bool" where
  "is_child index c \<longleftrightarrow> (\<exists>p. parent_in index c = Some p \<and> cat_parentId p = None)"

definition child_of :: "(string \<Rightarrow> Category option) \<Rightarrow> string \<Rightarrow> Category \<Rightarrow> bool" where
  "child_of index k c \<longleftrightarrow> (\<exists>p. parent_in index c = Some p \<and> cat_parentId p = None \<and> cat_id p = k)"

lemma tree_loop_spec:
  "tree_loop index cs (roots, children) =
     (roots @ filter (\<lambda>c. \<not> is_child index c) cs,
      \<lambda>k. if filter (child_of index k) cs = [] then children k
          else Some ((case children k of Some b \<Rightarrow> b | None \<Rightarrow> []) @ filter (child_of index k) cs))"
proof (induction cs arbitrary: roots children)
  case Nil
  then show ?case by simp
next
  case (Cons c cs)
  show ?case
  proof (cases "\<exists>p. parent_in index c = Some p \<and> cat_parentId p = None")
    case False
    then have "tree_loop index (c # cs) (roots, children) = tree_loop index cs (roots @ [c], children)"
      by (auto split: option.split)
    moreover have "\<not> is_child index c" "\<And>k. \<not> child_of index k c" using False unfolding is_child_def child_of_def by blast+
    moreover have "filter (child_of index k) (c # cs) = filter (child_of index k) cs" for k using calculation(3) by simp
    ultimately show ?thesis using Cons.IH by (auto simp: fun_eq_iff simp del: tree_loop.simps)
  next
    case True
    then obtain p where p: "parent_in index c = Some p" "cat_parentId p = None" by blast
    let ?ch = "children(cat_id p \<mapsto> (case children (cat_id p) of Some b \<Rightarrow> b | None \<Rightarrow> []) @ [c])"
    have "tree_loop index (c # cs) (roots, children) = tree_loop index cs (roots, ?ch)"
      using p by (simp split: option.split)
    moreover have "is_child index c" "\<And>k. child_of index k c \<longleftrightarrow> k = cat_id p"
      using p by (auto simp: is_child_def child_of_def)
    ultimately show ?thesis using Cons.IH by (auto simp: fun_eq_iff)
  qed
qed

lemma byId_distinct:
  assumes "distinct (map cat_id cs)"
  shows "byId cs i = Some c \<longleftrightarrow> c \<in> set cs \<and> cat_id c = i"
proof -
  have "distinct (map fst (rev (map (\<lambda>c. (cat_id c, c)) cs)))" using assms by (simp add: rev_map [symmetric] comp_def)
  then show ?thesis by (auto simp: byId_def map_of_eq_Some_iff)
qed

lemma count_sum_mset_image: "count (\<Sum>r \<in># M. f r) c = (\<Sum>r \<in># M. count (f r) c)"
  by (induction M) auto

text \<open>The roots and, below each, its children are the scope, each category once.\<close>

lemma tree_partition:
  assumes "distinct (map cat_id cs)"
  shows "mset (filter (\<lambda>c. \<not> is_child (byId cs) c) cs) +
      (\<Sum>r \<in># mset (filter (\<lambda>c. \<not> is_child (byId cs) c) cs). mset (filter (child_of (byId cs) (cat_id r)) cs)) = mset cs"
proof -
  let ?i = "byId cs"
  let ?roots = "filter (\<lambda>c. \<not> is_child ?i c) cs"
  have root: "\<exists>r \<in> set ?roots. \<forall>r' \<in> set cs. child_of ?i (cat_id r') c \<longleftrightarrow> r' = r" if child: "is_child ?i c" for c
  proof -
    obtain p where p: "parent_in ?i c = Some p" "cat_parentId p = None" using child unfolding is_child_def by blast
    then have mem: "p \<in> set cs" using byId_distinct [OF assms] by (auto simp: parent_in_def split: option.splits if_splits)
    have "\<not> is_child ?i p" using p(2) by (simp add: is_child_def parent_in_def)
    moreover have "r' = p" if "r' \<in> set cs" "cat_id r' = cat_id p" for r'
      using that mem assms by (metis distinct_map inj_onD)
    moreover have "child_of ?i (cat_id r') c \<longleftrightarrow> cat_id r' = cat_id p" for r' using p by (auto simp: child_of_def)
    ultimately show ?thesis using mem by (intro bexI [of _ p]) auto
  qed
  have dist: "distinct ?roots" using assms by (simp add: distinct_map)
  have none: "\<not> child_of ?i k c" if "\<not> is_child ?i c" for c k using that by (auto simp: is_child_def child_of_def)
  have count: "(\<Sum>r \<in># mset ?roots. count (mset (filter (child_of ?i (cat_id r)) cs)) c) = (if is_child ?i c then count (mset cs) c else 0)" for c
  proof (cases "is_child ?i c")
    case True
    then obtain r where r: "r \<in> set ?roots" "\<forall>r' \<in> set cs. child_of ?i (cat_id r') c \<longleftrightarrow> r' = r" using root by blast
    have "(\<Sum>r' \<in># mset ?roots. count (mset (filter (child_of ?i (cat_id r')) cs)) c) =
        (\<Sum>r' \<in> set ?roots. count (mset (filter (child_of ?i (cat_id r')) cs)) c)"
      unfolding sum_unfold_sum_mset mset_set_set [OF dist] by (rule refl)
    also have "\<dots> = (\<Sum>r' \<in> set ?roots. if r' = r then count (mset cs) c else 0)"
      using r(2) by (intro sum.cong) auto
    also have "\<dots> = count (mset cs) c" using r(1) by simp
    finally show ?thesis using True by simp
  next
    case False
    then show ?thesis using none by simp
  qed
  show ?thesis
    by (rule multiset_eqI) (simp only: count_union count_sum_mset_image count, simp)
qed

definition tree_rows :: "CategoryNode list \<Rightarrow> Category list" where
  "tree_rows nodes = concat (map (\<lambda>n. node_category n # node_children n) nodes)"

definition two_levels :: "Category list \<Rightarrow> bool" where
  "two_levels categories \<longleftrightarrow> (\<forall>c \<in> set categories. \<forall>p \<in> set categories.
     cat_parentId c = Some (cat_id p) \<longrightarrow> cat_id p \<noteq> [] \<and> cat_parentId p = None)"

lemma mset_tree_rows: "mset (tree_rows nodes) =
    mset (map node_category nodes) + (\<Sum>n \<in># mset nodes. mset (node_children n))"
  by (induction nodes) (auto simp: tree_rows_def)

lemma compareCategories_comparison: "comparison lc \<Longrightarrow> comparison (compareCategories lc)"
  unfolding compareCategories_def [abs_def]
  using comparison_or_else [OF comparison_key [of lc cat_name] comparison_key [of lc cat_id]] by simp

lemma buildTree_eq:
  "buildTree lc categories kind =
     map (\<lambda>c. \<lparr>node_category = c, node_children = sort_by (compareCategories lc)
            (filter (child_of (byId (tree_scope kind categories)) (cat_id c)) (tree_scope kind categories))\<rparr>)
       (sort_by (compareCategories lc) (filter (\<lambda>c. \<not> is_child (byId (tree_scope kind categories)) c) (tree_scope kind categories)))"
  by (simp add: buildTree_def Let_def tree_loop_spec)

lemma buildTree_rows:
  assumes "distinct (map cat_id (tree_scope kind categories))"
  shows "mset (tree_rows (buildTree lc categories kind)) = mset (tree_scope kind categories)"
  using tree_partition [OF assms]
  by (simp add: mset_tree_rows buildTree_eq comp_def image_mset.compositionality)

lemma buildTree_sorted:
  assumes "comparison lc"
  shows "sorted_wrt (\<lambda>a b. compareCategories lc a b \<le> 0) (map node_category (buildTree lc categories kind))"
  using comparison.sort_by_sorted [OF compareCategories_comparison [OF assms]] by (simp add: buildTree_eq comp_def)

lemma child_of_parent:
  assumes "distinct (map cat_id cs)" and "r \<in> set cs" and "child_of (byId cs) (cat_id r) c"
  shows "cat_parentId c = Some (cat_id r)" and "cat_parentId r = None"
proof -
  obtain p where p: "parent_in (byId cs) c = Some p" "cat_parentId p = None" "cat_id p = cat_id r"
    using assms(3) unfolding child_of_def by blast
  have "p \<in> set cs" and parent: "cat_parentId c = Some (cat_id p)"
    using p(1) byId_distinct [OF assms(1)] by (auto simp: parent_in_def split: option.splits if_splits)
  then have "p = r" using p(3) assms(1,2) by (metis distinct_map inj_onD)
  then show "cat_parentId c = Some (cat_id r)" "cat_parentId r = None" using p(2) parent by simp_all
qed

lemma buildTree_children:
  assumes "comparison lc" and "distinct (map cat_id (tree_scope kind categories))" and "n \<in> set (buildTree lc categories kind)"
  shows "sorted_wrt (\<lambda>a b. compareCategories lc a b \<le> 0) (node_children n) \<and>
    (\<forall>c \<in> set (node_children n). cat_parentId c = Some (cat_id (node_category n)) \<and> cat_parentId (node_category n) = None)"
proof -
  let ?scope = "tree_scope kind categories"
  obtain r where r: "r \<in> set ?scope" and n: "n = \<lparr>node_category = r, node_children =
      sort_by (compareCategories lc) (filter (child_of (byId ?scope) (cat_id r)) ?scope)\<rparr>"
    using assms(3) by (auto simp: buildTree_eq)
  show ?thesis
    using comparison.sort_by_sorted [OF compareCategories_comparison [OF assms(1)]] child_of_parent [OF assms(2) r]
    by (auto simp: n)
qed

text \<open>The category tree neither loses nor duplicates a category: read out parent by parent, it holds
  the categories of the scope, each once. Roots and the children of each root are in display order, a
  child hangs under the category its \<open>parentId\<close> names, and only a top-level category has children.\<close>

theorem buildTree_spec:
  assumes "comparison lc" and "distinct (map cat_id (tree_scope kind categories))"
  shows "mset (tree_rows (buildTree lc categories kind)) = mset (tree_scope kind categories) \<and>
    sorted_wrt (\<lambda>a b. compareCategories lc a b \<le> 0) (map node_category (buildTree lc categories kind)) \<and>
    (\<forall>n \<in> set (buildTree lc categories kind).
       sorted_wrt (\<lambda>a b. compareCategories lc a b \<le> 0) (node_children n) \<and>
       (\<forall>c \<in> set (node_children n). cat_parentId c = Some (cat_id (node_category n)) \<and> cat_parentId (node_category n) = None))"
  using buildTree_rows [OF assms(2)] buildTree_sorted [OF assms(1)] buildTree_children [OF assms] by blast

section \<open>Rolling up\<close>

lemma withDescendants_step:
  assumes "\<forall>c \<in> set cs. \<forall>p. cat_parentId c = Some p \<longrightarrow> p \<noteq> [] \<and> (p \<in> W \<longleftrightarrow> p \<in> R)"
    and "\<forall>c \<in> set cs. \<forall>d \<in> set cs. cat_parentId c = Some (cat_id d) \<longrightarrow> cat_parentId d = None"
  shows "fold add_child cs W = W \<union> {cat_id c |c. c \<in> set cs \<and> (\<exists>p \<in> R. cat_parentId c = Some p)}"
  using assms
proof (induction cs arbitrary: W)
  case (Cons c cs)
  have c: "p \<noteq> []" "p \<in> W \<longleftrightarrow> p \<in> R" if "cat_parentId c = Some p" for p
    using bspec [OF Cons.prems(1), of c] that by simp_all
  have W: "add_child c W = (if \<exists>p \<in> R. cat_parentId c = Some p then insert (cat_id c) W else W)"
  proof (cases "cat_parentId c")
    case (Some p)
    then show ?thesis using c [of p] by (simp add: add_child_def)
  qed (simp add: add_child_def)
  have "\<forall>c' \<in> set cs. \<forall>p. cat_parentId c' = Some p \<longrightarrow> p \<noteq> [] \<and> (p \<in> add_child c W \<longleftrightarrow> p \<in> R)"
  proof (intro ballI allI impI)
    fix c' p assume c': "c' \<in> set cs" "cat_parentId c' = Some p"
    have "p \<noteq> [] \<and> (p \<in> W \<longleftrightarrow> p \<in> R)" using bspec [OF Cons.prems(1), of c'] c' by simp
    moreover have "cat_parentId c = None" if "p = cat_id c"
      using bspec [OF bspec [OF Cons.prems(2), of c'], of c] c' that by simp
    ultimately show "p \<noteq> [] \<and> (p \<in> add_child c W \<longleftrightarrow> p \<in> R)" unfolding W by (cases "p = cat_id c") auto
  qed
  moreover have "\<forall>c \<in> set cs. \<forall>d \<in> set cs. cat_parentId c = Some (cat_id d) \<longrightarrow> cat_parentId d = None"
    using Cons.prems(2) by (meson list.set_intros(2))
  ultimately have "fold add_child cs (add_child c W) =
      add_child c W \<union> {cat_id c |c. c \<in> set cs \<and> (\<exists>p \<in> R. cat_parentId c = Some p)}" by (rule Cons.IH)
  then have "fold add_child (c # cs) W = add_child c W \<union> {cat_id c |c. c \<in> set cs \<and> (\<exists>p \<in> R. cat_parentId c = Some p)}" by simp
  also have "\<dots> = W \<union> {cat_id c' |c'. c' \<in> set (c # cs) \<and> (\<exists>p \<in> R. cat_parentId c' = Some p)}"
    unfolding W by auto
  finally show ?case .
qed simp

text \<open>The two ways the program rolls a subcategory up agree. For categories of two levels, the set a
  selection of ids expands to holds a category exactly when the selection holds the category itself or
  the top-level category it rolls up to.\<close>

theorem rollup_agrees:
  assumes "distinct (map cat_id categories)" and "two_levels categories" and "\<forall>c \<in> set categories. cat_parentId c \<noteq> Some []"
    and "c \<in> set categories" and "\<forall>p. cat_parentId c = Some p \<longrightarrow> p \<in> cat_id ` set categories"
  shows "cat_id c \<in> withDescendants ids categories \<longleftrightarrow>
      cat_id c \<in> set ids \<or> (\<exists>r \<in> set ids. rootIds categories (cat_id c) = Some r)"
proof -
  have all: "withDescendants ids categories = set ids \<union> {cat_id c |c. c \<in> set categories \<and> (\<exists>p \<in> set ids. cat_parentId c = Some p)}"
    unfolding withDescendants_def
  proof (rule withDescendants_step)
    show "\<forall>c \<in> set categories. \<forall>p. cat_parentId c = Some p \<longrightarrow> p \<noteq> [] \<and> (p \<in> set ids \<longleftrightarrow> p \<in> set ids)" using assms(3) by metis
    show "\<forall>c \<in> set categories. \<forall>d \<in> set categories. cat_parentId c = Some (cat_id d) \<longrightarrow> cat_parentId d = None"
      using assms(2) unfolding two_levels_def by blast
  qed
  have self: "byId categories (cat_id c) = Some c" using byId_distinct [OF assms(1)] assms(4) by blast
  have step: "fold (\<lambda>d roots. roots(cat_id d \<mapsto> g (cat_id d))) cs m i = (if i \<in> cat_id ` set cs then Some (g i) else m i)"
    for g :: "string \<Rightarrow> string" and cs :: "Category list" and m i
    by (induction cs arbitrary: m) auto
  have "rootIds categories (cat_id c) = Some (case rootIdOf (Some (cat_id c)) (byId categories) of Some r \<Rightarrow> r | None \<Rightarrow> cat_id c)"
    using assms(4) step [where g = "\<lambda>i. case rootIdOf (Some i) (byId categories) of Some r \<Rightarrow> r | None \<Rightarrow> i"]
    by (simp add: rootIds_def)
  also have "\<dots> = Some (case cat_parentId c of Some p \<Rightarrow> p | None \<Rightarrow> cat_id c)"
  proof (cases "cat_parentId c")
    case (Some p)
    then obtain d where "d \<in> set categories" "cat_id d = p" using assms(5) by auto
    then have "byId categories p = Some d" using byId_distinct [OF assms(1)] by blast
    then show ?thesis using self Some assms(3,4) by (auto simp: rootIdOf_def)
  qed (simp add: rootIdOf_def self)
  finally have root: "rootIds categories (cat_id c) = Some (case cat_parentId c of Some p \<Rightarrow> p | None \<Rightarrow> cat_id c)" .
  have same: "c' = c" if "c' \<in> set categories" "cat_id c = cat_id c'" for c'
    using assms(1,4) that by (metis distinct_map inj_onD)
  have "(\<exists>c'. cat_id c = cat_id c' \<and> c' \<in> set categories \<and> (\<exists>p \<in> set ids. cat_parentId c' = Some p)) \<longleftrightarrow>
      (\<exists>p \<in> set ids. cat_parentId c = Some p)"
    using same assms(4) by blast
  then show ?thesis unfolding all root by (auto split: option.splits)
qed

section \<open>A concrete vault's categories\<close>

definition sample_category :: "string \<Rightarrow> string \<Rightarrow> string option \<Rightarrow> Category" where
  "sample_category i name parent = \<lparr>cat_id = i, cat_name = name, cat_kind = ExpenseCategory, cat_parentId = parent,
     cat_colour = None, cat_icon = None, cat_archived = False, cat_createdAt = 0, cat_updatedAt = []\<rparr>"

text \<open>A comparison of strings that stands for the one of the locale: by length.\<close>

definition by_length :: "string \<Rightarrow> string \<Rightarrow> int" where
  "by_length a b = int (length a) - int (length b)"

lemma by_length_comparison: "comparison by_length"
  by unfold_locales (auto simp: by_length_def)

definition sample_categories :: "Category list" where
  "sample_categories = [sample_category ''c'' ''Lunch'' (Some ''a''), sample_category ''a'' ''Food'' None,
     sample_category ''b'' ''Rent'' None]"

theorem buildTree_spec_witness:
  "mset (tree_rows (buildTree by_length sample_categories (Some ExpenseCategory))) = mset sample_categories \<and>
   map (length \<circ> node_children) (buildTree by_length sample_categories (Some ExpenseCategory)) = [1, 0]"
proof -
  have "tree_scope (Some ExpenseCategory) sample_categories = sample_categories"
    by (simp add: tree_scope_def sample_categories_def sample_category_def)
  moreover have "distinct (map cat_id sample_categories)" by (simp add: sample_categories_def sample_category_def)
  moreover have "map (length \<circ> node_children) (buildTree by_length sample_categories (Some ExpenseCategory)) = [1, 0]"
    by code_simp
  ultimately show ?thesis
    using buildTree_spec [of by_length "Some ExpenseCategory" sample_categories] by_length_comparison by simp
qed

theorem rollup_agrees_witness:
  "''c'' \<in> withDescendants [''a''] sample_categories \<and> rootIds sample_categories ''c'' = Some ''a''"
proof -
  have root: "rootIds sample_categories ''c'' = Some ''a''" by code_simp
  have "distinct (map cat_id sample_categories)" "two_levels sample_categories"
    "\<forall>c \<in> set sample_categories. cat_parentId c \<noteq> Some []"
    by (simp_all add: two_levels_def sample_categories_def sample_category_def)
  then have "''c'' \<in> withDescendants [''a''] sample_categories"
    using rollup_agrees [of sample_categories "sample_category ''c'' ''Lunch'' (Some ''a'')" "[''a'']"] root
    by (simp add: sample_categories_def sample_category_def)
  then show ?thesis using root by simp
qed

end
