(* ===== verification/Transactions_Service.thy ===== *)
theory Transactions_Service
  imports Writes Category_Tree
begin

text \<open>
  \<open>core/repositories/transactions.service.ts\<close>: the filtered register and its summaries, and saving
  and removing transactions. Signals hold the value of their query: a derived signal is a function
  of the rows it reads.
\<close>

section \<open>The register\<close>

record TransactionFilter =
  flt_range :: DateRange
  flt_accountId :: "string option"
  flt_categoryId :: "string option"
  flt_search :: string

text \<open>\<open>where('date').between(from, to, true, true).reverse().sortBy('date')\<close>: the rows of the range by
  descending date, and by descending identifier within a day.\<close>

definition in_range :: "DateRange \<Rightarrow> docket_db \<Rightarrow> Transaction list" where
  "in_range rng d = rev (sort_key txn_date (filter (\<lambda>txn. range_from rng \<le> txn_date txn \<and> txn_date txn \<le> range_to rng) (transaction_rows d)))"

definition matches :: "TransactionFilter \<Rightarrow> Transaction \<Rightarrow> bool" where
  "matches f txn =
     (let needle = toLowerCase (trim (flt_search f))
      in if \<not> falsy (flt_accountId f) \<and> Some (txn_accountId txn) \<noteq> flt_accountId f \<and> txn_counterAccountId txn \<noteq> flt_accountId f then False
         else if \<not> falsy (flt_categoryId f) \<and> txn_categoryId txn \<noteq> flt_categoryId f then False
         else if needle \<noteq> [] \<and> \<not> includes_str
             (toLowerCase (txn_payee txn @ '' '' @ txn_note txn @ '' '' @ join '' '' (txn_tags txn))) needle then False
         else True)"

definition visible :: "TransactionFilter \<Rightarrow> docket_db \<Rightarrow> Transaction list" where
  "visible f d = filter (matches f) (in_range (flt_range f) d)"

record Totals =
  tot_income :: number
  tot_expense :: number
  tot_net :: number
  tot_unconverted :: nat
  tot_currency :: string

fun totals_loop :: "string \<Rightarrow> Transaction list \<Rightarrow> number \<times> number \<times> nat \<Rightarrow> (number \<times> number \<times> nat) result" where
  "totals_loop reporting [] s = Inr s"
| "totals_loop reporting (txn # txns) (income, expense, unconverted) =
     (if txn_kind txn = Transfer then totals_loop reporting txns (income, expense, unconverted)
      else case txn_inReporting txn reporting of
             Inl e \<Rightarrow> Inl e
           | Inr None \<Rightarrow> totals_loop reporting txns (income, expense, unconverted + 1)
           | Inr (Some amount) \<Rightarrow>
               if txn_kind txn = Income then totals_loop reporting txns (num_plus income amount, expense, unconverted)
               else totals_loop reporting txns (income, num_plus expense amount, unconverted))"

definition totals :: "string \<Rightarrow> Transaction list \<Rightarrow> Totals result" where
  "totals reporting shown =
     (case totals_loop reporting shown (Fin 0, Fin 0, 0) of
        Inl e \<Rightarrow> Inl e
      | Inr (income, expense, unconverted) \<Rightarrow>
          Inr \<lparr>tot_income = income, tot_expense = expense, tot_net = num_plus income (num_neg expense),
            tot_unconverted = unconverted, tot_currency = reporting\<rparr>)"

definition byDay :: "Transaction list \<Rightarrow> (string \<times> Transaction list) list" where
  "byDay shown = fold (\<lambda>txn. map_update (txn_date txn) (\<lambda>bucket. case bucket of Some b \<Rightarrow> b @ [txn] | None \<Rightarrow> [txn])) shown []"

fun spend_by_loop :: "(string \<Rightarrow> string option) \<Rightarrow> string \<Rightarrow> Transaction list \<Rightarrow> (string \<times> number) list \<Rightarrow> ((string \<times> number) list) result" where
  "spend_by_loop roots reporting [] m = Inr m"
| "spend_by_loop roots reporting (txn # txns) m =
     (if txn_kind txn \<noteq> Expense then spend_by_loop roots reporting txns m
      else case txn_inReporting txn reporting of
             Inl e \<Rightarrow> Inl e
           | Inr None \<Rightarrow> spend_by_loop roots reporting txns m
           | Inr (Some amount) \<Rightarrow>
               let key = (case txn_categoryId txn of
                            Some c \<Rightarrow> (case roots c of Some r \<Rightarrow> r | None \<Rightarrow> c)
                          | None \<Rightarrow> ''uncategorised'')
               in spend_by_loop roots reporting txns
                    (map_update key (\<lambda>v. num_plus (case v of Some x \<Rightarrow> x | None \<Rightarrow> Fin 0) amount) m))"

text \<open>The sign of \<open>b.amount - a.amount\<close>, which the sort reads; a NaN difference counts as equal.\<close>

definition larger_first :: "number \<Rightarrow> number \<Rightarrow> int" where
  "larger_first a b = (if num_less b a then -1 else if num_less a b then 1 else 0)"

definition spendByCategory :: "string \<Rightarrow> Category list \<Rightarrow> Transaction list \<Rightarrow> ((string \<times> number) list) result" where
  "spendByCategory reporting categories shown =
     map_sum id (sort_by (\<lambda>a b. larger_first (snd a) (snd b))) (spend_by_loop (rootIds categories) reporting shown [])"

definition setRange :: "DateRange \<Rightarrow> TransactionFilter \<Rightarrow> TransactionFilter" where
  "setRange rng f = f\<lparr>flt_range := rng\<rparr>"

text \<open>A patch gives the fields it changes; an identifier may be set to null.\<close>

record FilterPatch =
  fp_range :: "DateRange option"
  fp_accountId :: "string option option"
  fp_categoryId :: "string option option"
  fp_search :: "string option"

definition patchFilter :: "FilterPatch \<Rightarrow> TransactionFilter \<Rightarrow> TransactionFilter" where
  "patchFilter p f =
     \<lparr>flt_range = with_default (flt_range f) (fp_range p), flt_accountId = with_default (flt_accountId f) (fp_accountId p),
      flt_categoryId = with_default (flt_categoryId f) (fp_categoryId p), flt_search = with_default (flt_search f) (fp_search p)\<rparr>"

fun payees_loop :: "nat \<Rightarrow> Transaction list \<Rightarrow> string list \<Rightarrow> string list" where
  "payees_loop limit [] seen = seen"
| "payees_loop limit (r # rs) seen =
     (let seen' = (if txn_payee r \<noteq> [] \<and> txn_payee r \<notin> set seen then seen @ [txn_payee r] else seen)
      in if length seen' \<ge> limit then seen' else payees_loop limit rs seen')"

definition recentPayees :: "nat \<Rightarrow> docket_db \<Rightarrow> string list" where
  "recentPayees limit d = payees_loop limit (take 200 (rev (sort_key txn_date (transaction_rows d)))) []"

section \<open>Saving and removing\<close>

text \<open>A draft: the required fields, the payee, which \<open>save\<close> does not default and every caller
  gives, and the optional rest. A null and an absent identifier are the same.\<close>

record TransactionDraft =
  td_id :: string
  td_kind :: TransactionKind
  td_amount :: Minor
  td_currency :: string
  td_accountId :: string
  td_date :: string
  td_payee :: string
  td_counterAccountId :: "string option"
  td_categoryId :: "string option"
  td_note :: "string option"
  td_tags :: "string list option"
  td_cleared :: "bool option"
  td_rate :: "number option"
  td_rateDate :: "string option"
  td_createdAt :: "int option"

definition draft_transaction :: "int \<Rightarrow> TransactionDraft \<Rightarrow> Transaction" where
  "draft_transaction created draft =
     \<lparr>txn_id = td_id draft, txn_kind = td_kind draft, txn_amount = \<bar>td_amount draft\<bar>, txn_currency = td_currency draft,
      txn_accountId = td_accountId draft, txn_counterAccountId = td_counterAccountId draft,
      txn_categoryId = td_categoryId draft, txn_date = td_date draft, txn_payee = td_payee draft,
      txn_note = with_default [] (td_note draft), txn_tags = with_default [] (td_tags draft), txn_cleared = with_default True (td_cleared draft),
      txn_rate = td_rate draft, txn_rateDate = td_rateDate draft,
      txn_createdAt = with_default created (td_createdAt draft), txn_updatedAt = []\<rparr>"

definition transactions_save :: "(nat \<Rightarrow> nat) \<Rightarrow> TransactionDraft \<Rightarrow> (ledger, AnyEntity) call" where
  "transactions_save now draft l =
     (let transaction = draft_transaction (int (now 0)) draft
      in case transaction_assertValid transaction of
           Inl e \<Rightarrow> (Inl e, l)
         | Inr _ \<Rightarrow> put (now 1) Transactions (TransactionRow transaction) l)"

definition transactions_remove :: "(nat \<Rightarrow> nat) \<Rightarrow> string \<Rightarrow> (ledger, unit) call" where
  "transactions_remove now i = remove (now 0) Transactions i"

interpretation save_transaction: service transactions_save "\<lambda>draft. {(Transactions, td_id draft)}"
proof
  fix now :: "nat \<Rightarrow> nat" and W dev l arg r l'
  assume "\<forall>j. plausible (now j)" "transactions_save now arg l = (r, l')"
  then show "writes {(Transactions, td_id arg)} l l'"
    by (auto simp: transactions_save_def Let_def draft_transaction_def split: sum.splits intro: writes_put)
qed

interpretation remove_transaction: service transactions_remove "\<lambda>i. {(Transactions, i)}"
  by unfold_locales (auto simp: transactions_remove_def intro: writes_remove)

end
