(* ===== verification/Anchored.thy ===== *)
theory Anchored
  imports Dates
begin

text \<open>
  Series of dates measured from an anchor, the contract that the recurring schedule and the
  budget windows share: the date at an index inside the calendar is a ledger date and later
  indices are later dates. The locale derives that a date lies between at most one pair of
  neighbours and that a bounded scan of the series meets the dates in order.
\<close>

section \<open>Steps of days and of months\<close>

lemma addDays_series:
  assumes "ledger_date s" and "in_calendar (dayno s + k)"
  shows "ledger_date (projr (addDays s k))" "dayno (projr (addDays s k)) = dayno s + k" "addDays s k = Inr (projr (addDays s k))"
  using addDays_day [OF assms] date_of_day [OF assms(2)] by simp_all

lemma addMonths_series:
  assumes "ledger_date s" and "in_month_calendar (monthno s + k)"
  shows "ledger_date (projr (addMonths s k))" "monthno (projr (addMonths s k)) = monthno s + k"
    "addMonths s k = Inr (projr (addMonths s k))"
  using addMonths_clamped [OF assms] clamped_date [OF assms(2) day_of_month_bounds(1) [OF assms(1)]] by simp_all

lemma addDays_less:
  assumes "ledger_date s" and "in_calendar (dayno s + j)" and "in_calendar (dayno s + k)" and "j < k"
  shows "projr (addDays s j) < projr (addDays s k)"
  using addDays_series(1,2) [OF assms(1,2)] addDays_series(1,2) [OF assms(1,3)] assms(4) by (simp add: ledger_date_less_iff)

lemma addMonths_less:
  assumes "ledger_date s" and "in_month_calendar (monthno s + j)" and "in_month_calendar (monthno s + k)" and "j < k"
  shows "projr (addMonths s j) < projr (addMonths s k)"
  using addMonths_series(1,2) [OF assms(1,2)] addMonths_series(1,2) [OF assms(1,3)] assms(4) by (intro monthno_less) simp_all

section \<open>The contract\<close>

locale anchored_series =
  fixes at :: "'a \<Rightarrow> int \<Rightarrow> string"
    and ok :: "'a \<Rightarrow> int \<Rightarrow> bool"
  assumes at_date: "ok a i \<Longrightarrow> ledger_date (at a i)"
    and at_less: "ok a i \<Longrightarrow> ok a j \<Longrightarrow> i < j \<Longrightarrow> at a i < at a j"
begin

lemma at_less_iff: "ok a i \<Longrightarrow> ok a j \<Longrightarrow> at a i < at a j \<longleftrightarrow> i < j"
  using at_less [of a i j] at_less [of a j i] by (cases i j rule: linorder_cases) auto

lemma at_le_iff: "ok a i \<Longrightarrow> ok a j \<Longrightarrow> at a i \<le> at a j \<longleftrightarrow> i \<le> j"
  using at_less_iff [of a j i] by (simp add: not_less [symmetric])

lemma at_inj: "ok a i \<Longrightarrow> ok a j \<Longrightarrow> at a i = at a j \<longleftrightarrow> i = j"
  using at_less_iff [of a i j] at_less_iff [of a j i] by (metis less_irrefl linorder_neqE)

text \<open>A date falls into at most one interval of the series.\<close>

lemma interval_unique:
  assumes "ok a i" "ok a (i + 1)" "ok a j" "ok a (j + 1)"
    and "at a i \<le> d" "d < at a (i + 1)" "at a j \<le> d" "d < at a (j + 1)"
  shows "i = j"
proof -
  have "at a i < at a (j + 1)" "at a j < at a (i + 1)" using assms(5-8) by (auto intro: le_less_trans)
  then have "i < j + 1" "j < i + 1" using at_less_iff assms(1-4) by blast+
  then show ?thesis by simp
qed

text \<open>The dates of a scan are met in order.\<close>

lemma scan_sorted:
  assumes "\<And>i. i < N \<Longrightarrow> ok a (int i)"
  shows "sorted_wrt (<) (map (\<lambda>i. at a (int i)) [0..<N])"
  unfolding sorted_wrt_map
  by (rule sorted_wrt_mono_rel [OF _ sorted_wrt_upt]) (use assms at_less in auto)

text \<open>A bound on the dates cuts a prefix of the indices.\<close>

lemma scan_prefix:
  assumes "\<And>i. i < N \<Longrightarrow> ok a (int i)" and "i < N" and "at a (int i) \<le> d" and "j \<le> i"
  shows "at a (int j) \<le> d"
  using at_le_iff [of a "int j" "int i"] assms by (auto intro: order_trans)

end

end
