(* ===== verification/Budgets.thy ===== *)
theory Budgets
  imports Anchored Money
begin

text \<open>
  Budget periods (\<open>core/budgets/period.ts\<close>) and the spending counted against them
  (\<open>core/budgets/spend.ts\<close>). Every window is measured from the budget's start; the window of a date
  is found by an estimate and two correction loops, of which the second may not end for dates
  outside the calendar and is a partial function.
\<close>

section \<open>Windows\<close>

record BudgetWindow =
  win_from :: string
  win_to :: string
  win_index :: int

definition windowStart :: "Budget \<Rightarrow> int \<Rightarrow> string result" where
  "windowStart anchor index =
     (if bud_period anchor = Weekly then addDays (bud_startDate anchor) (index * 7)
      else addMonths (bud_startDate anchor) (if bud_period anchor = Monthly then index else index * 12))"

definition parseDate :: "string \<Rightarrow> (int \<times> int \<times> int) result" where
  "parseDate date = parts date"

text \<open>\<open>Date.UTC\<close> in whole days.\<close>

definition utc :: "int \<times> int \<times> int \<Rightarrow> int" where
  "utc = (\<lambda>(y, m, d). make_day (full_year y) (m - 1) d)"

definition estimateIndex :: "Budget \<Rightarrow> string \<Rightarrow> int result" where
  "estimateIndex anchor date =
     (case (parseDate (bud_startDate anchor), parseDate date) of
        (Inl e, _) \<Rightarrow> Inl e
      | (Inr _, Inl e) \<Rightarrow> Inl e
      | (Inr (sy, sm, sd), Inr (ty, tm, td)) \<Rightarrow>
          if bud_period anchor = Weekly then Inr ((utc (ty, tm, td) - utc (sy, sm, sd)) div 7)
          else let months = (ty - sy) * 12 + (tm - sm)
               in Inr (if bud_period anchor = Monthly then months else months div 12))"

definition dayBefore :: "string \<Rightarrow> string result" where
  "dayBefore date = addDays date (- 1)"

definition windowByIndex :: "Budget \<Rightarrow> int \<Rightarrow> BudgetWindow result" where
  "windowByIndex anchor index =
     (case (windowStart anchor index, windowStart anchor (index + 1)) of
        (Inl e, _) \<Rightarrow> Inl e
      | (Inr _, Inl e) \<Rightarrow> Inl e
      | (Inr f, Inr n) \<Rightarrow>
          (case dayBefore n of
             Inl e \<Rightarrow> Inl e
           | Inr t \<Rightarrow> Inr \<lparr>win_from = f, win_to = t, win_index = index\<rparr>))"

text \<open>\<open>while (index > 0 && windowStart(anchor, index) > date) index--\<close>\<close>

fun step_back :: "Budget \<Rightarrow> string \<Rightarrow> nat \<Rightarrow> nat result" where
  "step_back anchor date 0 = Inr 0"
| "step_back anchor date (Suc n) =
     (case windowStart anchor (int (Suc n)) of
        Inl e \<Rightarrow> Inl e
      | Inr s \<Rightarrow> if s > date then step_back anchor date n else Inr (Suc n))"

definition back_from :: "Budget \<Rightarrow> string \<Rightarrow> int \<Rightarrow> int result" where
  "back_from anchor date index = (if index > 0 then map_sum id int (step_back anchor date (nat index)) else Inr index)"

text \<open>\<open>while (windowStart(anchor, index + 1) <= date) index++\<close>, \<^term>\<open>None\<close> when it never ends.\<close>

definition begun :: "Budget \<Rightarrow> string \<Rightarrow> int \<Rightarrow> bool" where
  "begun anchor date index \<longleftrightarrow> (case windowStart anchor index of Inl _ \<Rightarrow> False | Inr s \<Rightarrow> s \<le> date)"

partial_function (option) step_on :: "Budget \<Rightarrow> string \<Rightarrow> int \<Rightarrow> int option" where
  "step_on anchor date index =
     (if begun anchor date (index + 1) then step_on anchor date (index + 1) else Some index)"

declare step_on.simps [code]

text \<open>The whole search; the outer option is non-termination, the inner one the answer null.\<close>

definition windowFor :: "Budget \<Rightarrow> string \<Rightarrow> BudgetWindow option result option" where
  "windowFor anchor date =
     (if date < bud_startDate anchor then Some (Inr None)
      else case estimateIndex anchor date of
             Inl e \<Rightarrow> Some (Inl e)
           | Inr i \<Rightarrow>
               (case back_from anchor date i of
                  Inl e \<Rightarrow> Some (Inl e)
                | Inr j \<Rightarrow> map_option (\<lambda>k. map_sum id Some (windowByIndex anchor k)) (step_on anchor date j)))"

definition periodIndexFor :: "Budget \<Rightarrow> string \<Rightarrow> int option result option" where
  "periodIndexFor anchor date = map_option (map_sum id (map_option win_index)) (windowFor anchor date)"

section \<open>The series of windows\<close>

definition window_at :: "Budget \<Rightarrow> int \<Rightarrow> string" where
  "window_at b i = projr (windowStart b i)"

definition window_ok :: "Budget \<Rightarrow> int \<Rightarrow> bool" where
  "window_ok b i \<longleftrightarrow>
     ledger_date (bud_startDate b) \<and>
     (case bud_period b of
        Weekly \<Rightarrow> in_calendar (dayno (bud_startDate b) + i * 7)
      | Monthly \<Rightarrow> in_month_calendar (monthno (bud_startDate b) + i)
      | Yearly \<Rightarrow> in_month_calendar (monthno (bud_startDate b) + i * 12))"

lemma windowStart_ok: "window_ok b i \<Longrightarrow> windowStart b i = Inr (window_at b i)"
  by (cases "bud_period b")
    (auto simp: window_ok_def window_at_def windowStart_def intro: addDays_series(3) addMonths_series(3))

interpretation win: anchored_series window_at window_ok
proof
  fix b i j
  assume i: "window_ok b i"
  then show "ledger_date (window_at b i)"
    by (cases "bud_period b") (simp_all add: window_ok_def window_at_def windowStart_def addDays_series(1) addMonths_series(1))
  assume "window_ok b j" and "i < j"
  with i show "window_at b i < window_at b j"
    by (cases "bud_period b") (simp_all add: window_ok_def window_at_def windowStart_def addDays_less addMonths_less)
qed

lemma window_at_0: "ledger_date (bud_startDate b) \<Longrightarrow> window_at b 0 = bud_startDate b"
  by (cases "bud_period b") (simp_all add: window_at_def windowStart_def addDays_0 addMonths_0)

lemma window_ok_between: "window_ok b i \<Longrightarrow> window_ok b k \<Longrightarrow> i \<le> j \<Longrightarrow> j \<le> k \<Longrightarrow> window_ok b j"
  by (cases "bud_period b") (auto simp: window_ok_def in_calendar_def in_month_calendar_def)

section \<open>The search finds the window\<close>

lemma step_back_spec:
  assumes "\<And>i. i \<le> n \<Longrightarrow> window_ok b (int i)" and "window_at b 0 \<le> date"
  shows "\<exists>j \<le> n. step_back b date n = Inr j \<and> window_at b (int j) \<le> date"
  using assms
proof (induction n)
  case (Suc n)
  have at: "windowStart b (int (Suc n)) = Inr (window_at b (int (Suc n)))"
    using windowStart_ok [OF Suc.prems(1) [OF order_refl]] .
  show ?case
  proof (cases "window_at b (int (Suc n)) > date")
    case True
    obtain j where "j \<le> n" "step_back b date n = Inr j" "window_at b (int j) \<le> date" using Suc by (metis le_SucI)
    then show ?thesis using at True by (intro exI [of _ j]) simp
  next
    case False
    then show ?thesis using at by (intro exI [of _ "Suc n"]) (auto simp: not_less)
  qed
qed simp

lemma step_on_spec:
  assumes "window_ok b K" and "window_ok b i" and "date < window_at b K" and "window_at b i \<le> date" and "i \<le> K"
  shows "\<exists>k. step_on b date i = Some k \<and> i \<le> k \<and> k < K \<and> window_at b k \<le> date \<and> date < window_at b (k + 1)"
  using assms(2,4,5)
proof (induction "nat (K - i)" arbitrary: i)
  case 0
  then have "i = K" by simp
  with 0 assms(3) show ?case by simp
next
  case (Suc n)
  then have less: "i < K" by simp
  have ok: "window_ok b (i + 1)" using window_ok_between [OF Suc.prems(1) assms(1)] less by simp
  show ?case
  proof (cases "window_at b (i + 1) \<le> date")
    case True
    have "begun b date (i + 1)" using windowStart_ok [OF ok] True by (simp add: begun_def)
    then have "step_on b date i = step_on b date (i + 1)" by (subst step_on.simps) simp
    moreover have "n = nat (K - (i + 1))" using Suc.hyps(2) by simp
    ultimately show ?thesis using Suc.hyps(1) [of "i + 1"] ok True less by auto
  next
    case False
    have "\<not> begun b date (i + 1)" using windowStart_ok [OF ok] False by (simp add: begun_def)
    then have "step_on b date i = Some i" by (subst step_on.simps) simp
    with Suc.prems less False show ?thesis by auto
  qed
qed

text \<open>The estimate is at most one period short, as long as the next window is inside the calendar.\<close>

lemma calendar_week: "ledger_date d \<Longrightarrow> monthno d + 12 \<le> 119999 \<Longrightarrow> in_calendar (dayno d + 7)"
proof -
  assume d: "ledger_date d" "monthno d + 12 \<le> 119999"
  have dec: "ledger_date ''9998-12-31''" "monthno ''9998-12-31'' = 119987" "day_of_month ''9998-12-31'' = 31"
    "dayno ''9998-12-31'' + 365 = day_number 9999 12 31" by code_simp+
  have "d \<le> ''9998-12-31''"
  proof (cases "monthno d = 119987")
    case True
    then have "\<not> ''9998-12-31'' < d" using monthno_eq_less [OF dec(1) d(1)] dec(2,3) day_of_month_bounds(2) [OF d(1)]
        month_len_bounds(2) [of "monthno d div 12" "monthno d mod 12 + 1"] by simp
    then show ?thesis by simp
  next
    case False
    then show ?thesis using monthno_less [OF d(1) dec(1)] d(2) dec(2) by simp
  qed
  then have "dayno d \<le> dayno ''9998-12-31''" using ledger_date_le_iff [OF d(1) dec(1)] by simp
  then show ?thesis using in_calendar_dayno [OF d(1)] dec(4) by (simp add: in_calendar_def)
qed

lemma utc_dayno: "ledger_date d \<Longrightarrow> parts d = Inr (y, m, dd) \<Longrightarrow> utc (y, m, dd) = dayno d"
  by (auto elim!: ledger_dateE simp: utc_def full_year_def valid_ymd_def make_day_month)

lemma estimate_spec:
  assumes "ledger_date (bud_startDate b)" and "ledger_date date" and "bud_startDate b \<le> date" and "monthno date + 12 \<le> 119999"
  shows "\<exists>i \<ge> 0. estimateIndex b date = Inr i \<and> window_ok b (i + 1) \<and> date < window_at b (i + 1)"
proof -
  let ?s = "bud_startDate b"
  from assms(1) obtain sy sm sd where s: "parts ?s = Inr (sy, sm, sd)" "ymd ?s = (sy, sm, sd)" by (rule ledger_dateE)
  from assms(2) obtain ty tm td where t: "parts date = Inr (ty, tm, td)" "ymd date = (ty, tm, td)" by (rule ledger_dateE)
  have mono: "monthno ?s \<le> monthno date" "dayno ?s \<le> dayno date"
    using monthno_mono [OF assms(1-3)] assms(3) ledger_date_le_iff [OF assms(1,2)] by simp_all
  have months: "(ty - sy) * 12 + (tm - sm) = monthno date - monthno ?s" using s t by (simp add: monthno_def algebra_simps)
  have cal: "in_month_calendar (monthno ?s)" "in_calendar (dayno ?s)"
    using monthno_calendar [OF assms(1)] in_calendar_dayno [OF assms(1)] by simp_all
  define days where "days = dayno date - dayno ?s"
  define ms where "ms = monthno date - monthno ?s"
  have later: "date < projr (addMonths ?s k)" if "in_month_calendar (monthno ?s + k)" "ms < k" for k
    using monthno_less [OF assms(2) addMonths_series(1) [OF assms(1) that(1)]] addMonths_series(2) [OF assms(1) that(1)] that(2)
    by (simp add: ms_def)
  have week: "days div 7 * 7 \<le> days" "days < (days div 7 + 1) * 7" by simp_all
  have year: "ms div 12 * 12 \<le> ms" "ms < (ms div 12 + 1) * 12" by simp_all
  have weekly: "\<exists>i \<ge> 0. estimateIndex b date = Inr i \<and> window_ok b (i + 1) \<and> date < window_at b (i + 1)" if p: "bud_period b = Weekly"
  proof -
    have cal': "in_calendar (dayno ?s + (days div 7 + 1) * 7)"
      using week(1) cal(2) mono(2) calendar_week [OF assms(2,4)] by (auto simp: in_calendar_def days_def)
    note d = addDays_series(1,2) [OF assms(1) cal']
    have "date < projr (addDays ?s ((days div 7 + 1) * 7))"
      using ledger_date_less_iff [OF assms(2) d(1)] d(2) week(2) by (simp add: days_def)
    moreover have "estimateIndex b date = Inr (days div 7)"
      using s t p utc_dayno [OF assms(1) s(1)] utc_dayno [OF assms(2) t(1)] by (simp add: estimateIndex_def parseDate_def days_def)
    moreover have "0 \<le> days div 7" using mono(2) by (simp add: days_def pos_imp_zdiv_nonneg_iff)
    ultimately show ?thesis using p assms(1) cal' by (intro exI [of _ "days div 7"]) (simp add: window_ok_def window_at_def windowStart_def)
  qed
  have monthly: "\<exists>i \<ge> 0. estimateIndex b date = Inr i \<and> window_ok b (i + 1) \<and> date < window_at b (i + 1)" if p: "bud_period b = Monthly"
  proof -
    have cal': "in_month_calendar (monthno ?s + (ms + 1))" using cal(1) mono(1) assms(4) by (simp add: in_month_calendar_def ms_def)
    then show ?thesis using s t p assms(1) later [OF cal'] mono(1) months
      by (intro exI [of _ ms]) (simp add: window_ok_def window_at_def windowStart_def estimateIndex_def parseDate_def ms_def)
  qed
  have yearly: "\<exists>i \<ge> 0. estimateIndex b date = Inr i \<and> window_ok b (i + 1) \<and> date < window_at b (i + 1)" if p: "bud_period b = Yearly"
  proof -
    have cal': "in_month_calendar (monthno ?s + (ms div 12 + 1) * 12)"
      using year(1) cal(1) mono(1) assms(4) by (auto simp: in_month_calendar_def ms_def)
    have "0 \<le> ms div 12" using mono(1) by (simp add: ms_def pos_imp_zdiv_nonneg_iff)
    then show ?thesis using s t p assms(1) later [OF cal' year(2)] cal' months
      by (intro exI [of _ "ms div 12"]) (simp add: window_ok_def window_at_def windowStart_def estimateIndex_def parseDate_def ms_def)
  qed
  show ?thesis using weekly monthly yearly by (cases "bud_period b") blast+
qed

lemma windowFor_finds:
  assumes "ledger_date (bud_startDate b)" and "ledger_date date" and "bud_startDate b \<le> date" and "monthno date + 12 \<le> 119999"
  obtains k where "0 \<le> k" "window_ok b k" "window_ok b (k + 1)" "window_at b k \<le> date" "date < window_at b (k + 1)"
    "windowFor b date = Some (map_sum id Some (windowByIndex b k))"
proof -
  obtain i where i: "0 \<le> i" "estimateIndex b date = Inr i" "window_ok b (i + 1)" "date < window_at b (i + 1)"
    using estimate_spec [OF assms] by blast
  have ok0: "window_ok b 0" using assms(1) monthno_calendar in_calendar_dayno by (cases "bud_period b") (simp_all add: window_ok_def)
  have ok: "window_ok b j" if "0 \<le> j" "j \<le> i + 1" for j using window_ok_between [OF ok0 i(3) that] .
  have start: "window_at b 0 \<le> date" using window_at_0 assms(1,3) by simp
  obtain j where j: "j \<le> nat i" "step_back b date (nat i) = Inr j" "window_at b (int j) \<le> date"
    using step_back_spec [of "nat i" b date] ok start i(1) by auto
  have "\<exists>j. back_from b date i = Inr j \<and> 0 \<le> j \<and> j \<le> i \<and> window_at b j \<le> date"
    using j i(1) start by (cases "i > 0") (auto simp: back_from_def)
  then obtain j where j: "back_from b date i = Inr j" "0 \<le> j" "j \<le> i" "window_at b j \<le> date" by blast
  obtain k where k: "step_on b date j = Some k" "j \<le> k" "k < i + 1" "window_at b k \<le> date" "date < window_at b (k + 1)"
    using step_on_spec [OF i(3) ok _ j(4)] i(4) j by auto
  show thesis
  proof (rule that [of k])
    show "windowFor b date = Some (map_sum id Some (windowByIndex b k))"
      using assms(3) i(2) j(1) k(1) by (simp add: windowFor_def not_less [symmetric])
  qed (use j k ok in auto)
qed

lemma windowByIndex_ok:
  assumes "window_ok b k" and "window_ok b (k + 1)"
  shows "\<exists>t. windowByIndex b k = Inr \<lparr>win_from = window_at b k, win_to = t, win_index = k\<rparr> \<and> ledger_date t \<and>
    dayno t = dayno (window_at b (k + 1)) - 1"
proof -
  note n = win.at_date [OF assms(2)] and f = win.at_date [OF assms(1)]
  have "dayno (window_at b k) < dayno (window_at b (k + 1))"
    using win.at_less [OF assms] ledger_date_less_iff [OF f n] by simp
  then have "in_calendar (dayno (window_at b (k + 1)) + - 1)"
    using in_calendar_dayno [OF n] in_calendar_dayno [OF f] by (simp add: in_calendar_def)
  note d = addDays_series [OF n this]
  from d(3) obtain t where t: "addDays (window_at b (k + 1)) (- 1) = Inr t" by blast
  with d(1,2) show ?thesis using windowStart_ok [OF assms(1)] windowStart_ok [OF assms(2)]
    by (intro exI [of _ t]) (simp add: windowByIndex_def dayBefore_def)
qed

section \<open>Spending\<close>

record BudgetProgress =
  prog_budget :: Budget
  prog_unconverted :: nat
  prog_window :: BudgetWindow
  prog_limit :: Minor
  prog_carried :: number
  prog_allowance :: number
  prog_spent :: number
  prog_remaining :: number
  prog_share :: number
  prog_over :: bool

text \<open>\<open>covered\<close> is the optional expanded set of categories.\<close>

definition countsTowards :: "Budget \<Rightarrow> Transaction \<Rightarrow> string set option \<Rightarrow> bool" where
  "countsTowards budget txn covered =
     (if txn_kind txn \<noteq> Expense then False
      else case txn_categoryId txn of
             None \<Rightarrow> False
           | Some c \<Rightarrow> (case covered of Some s \<Rightarrow> c \<in> s | None \<Rightarrow> c \<in> set (bud_categoryIds budget)))"

text \<open>The transactions that the loop of \<open>spendDetail\<close> does not skip.\<close>

definition in_window :: "BudgetWindow \<Rightarrow> Transaction \<Rightarrow> bool" where
  "in_window w txn \<longleftrightarrow> \<not> (txn_date txn < win_from w \<or> txn_date txn > win_to w)"

fun spend_loop :: "Budget \<Rightarrow> BudgetWindow \<Rightarrow> string set option \<Rightarrow> Transaction list \<Rightarrow> number \<times> nat \<Rightarrow> (number \<times> nat) result" where
  "spend_loop budget w covered [] s = Inr s"
| "spend_loop budget w covered (txn # txns) (spent, unconverted) =
     (if \<not> countsTowards budget txn covered then spend_loop budget w covered txns (spent, unconverted)
      else if \<not> in_window w txn then spend_loop budget w covered txns (spent, unconverted)
      else case txn_inReporting txn (bud_currency budget) of
             Inl e \<Rightarrow> Inl e
           | Inr None \<Rightarrow> spend_loop budget w covered txns (spent, unconverted + 1)
           | Inr (Some amount) \<Rightarrow> spend_loop budget w covered txns (num_plus spent amount, unconverted))"

definition spendDetail :: "Budget \<Rightarrow> BudgetWindow \<Rightarrow> Transaction list \<Rightarrow> string set option \<Rightarrow> (number \<times> nat) result" where
  "spendDetail budget w txns covered = spend_loop budget w covered txns (Fin 0, 0)"

definition spendIn :: "Budget \<Rightarrow> BudgetWindow \<Rightarrow> Transaction list \<Rightarrow> string set option \<Rightarrow> number result" where
  "spendIn budget w txns covered = map_sum id fst (spendDetail budget w txns covered)"

fun num_minus :: "number \<Rightarrow> number \<Rightarrow> number" where
  "num_minus x y = num_plus x (num_neg y)"

text \<open>The loop of \<open>carriedInto\<close>, over \<open>n\<close> periods from \<open>period\<close> on.\<close>

fun carry_loop :: "Budget \<Rightarrow> Transaction list \<Rightarrow> string set option \<Rightarrow> nat \<Rightarrow> nat \<Rightarrow> number \<Rightarrow> number result" where
  "carry_loop budget txns covered 0 period carry = Inr carry"
| "carry_loop budget txns covered (Suc n) period carry =
     (case windowByIndex budget (int period) of
        Inl e \<Rightarrow> Inl e
      | Inr w \<Rightarrow>
          (case spendIn budget w txns covered of
             Inl e \<Rightarrow> Inl e
           | Inr spent \<Rightarrow>
               carry_loop budget txns covered n (Suc period)
                 (num_plus carry (num_minus (minor (bud_amount budget)) spent))))"

definition carriedInto :: "Budget \<Rightarrow> int \<Rightarrow> Transaction list \<Rightarrow> string set option \<Rightarrow> number result" where
  "carriedInto budget index txns covered =
     (if \<not> bud_rollover budget \<or> index \<le> 0 then Inr (Fin 0)
      else carry_loop budget txns covered (nat index) 0 (Fin 0))"

text \<open>\<open>spent / allowance\<close> for a positive allowance.\<close>

fun num_ratio :: "number \<Rightarrow> number \<Rightarrow> number" where
  "num_ratio x (Fin b) = num_div x b"
| "num_ratio (Fin _) PosInf = Fin 0"
| "num_ratio _ _ = NaN"

definition num_min :: "number \<Rightarrow> number \<Rightarrow> number" where
  "num_min a b = (if a = NaN \<or> b = NaN then NaN else if num_less b a then b else a)"

definition progressFor :: "Budget \<Rightarrow> Transaction list \<Rightarrow> string \<Rightarrow> string set option \<Rightarrow> BudgetProgress option result option" where
  "progressFor budget txns asOf covered =
     (case windowFor budget asOf of
        None \<Rightarrow> None
      | Some (Inl e) \<Rightarrow> Some (Inl e)
      | Some (Inr None) \<Rightarrow> Some (Inr None)
      | Some (Inr (Some w)) \<Rightarrow> Some
          (case carriedInto budget (win_index w) txns covered of
             Inl e \<Rightarrow> Inl e
           | Inr carried \<Rightarrow>
               (let allowance = num_plus (minor (bud_amount budget)) carried
                in case spendDetail budget w txns covered of
                     Inl e \<Rightarrow> Inl e
                   | Inr (spent, unconverted) \<Rightarrow>
                       let remaining = num_minus allowance spent
                       in Inr (Some
                            \<lparr>prog_budget = budget, prog_unconverted = unconverted, prog_window = w,
                             prog_limit = bud_amount budget, prog_carried = carried, prog_allowance = allowance,
                             prog_spent = spent, prog_remaining = remaining,
                             prog_share =
                               (if num_less (Fin 0) allowance
                                then num_min (Fin 100) (Math_round (num_times (num_ratio spent allowance) (Fin 100)))
                                else Fin 100),
                             prog_over = num_less remaining (Fin 0)\<rparr>))))"

definition staleCategoryIds :: "Budget \<Rightarrow> string set \<Rightarrow> string list" where
  "staleCategoryIds budget known = filter (\<lambda>c. c \<notin> known) (bud_categoryIds budget)"

section \<open>Exact spending\<close>

lemma spend_loop_filter:
  "spend_loop b w covered txns s =
     sum_loop (bud_currency b) (filter (\<lambda>t. countsTowards b t covered \<and> in_window w t) txns) s"
proof (induction txns arbitrary: s)
  case Nil
  then show ?case by (cases s) simp
next
  case (Cons t txns)
  then show ?case by (cases s) (simp split: sum.split option.split)
qed

text \<open>What a transaction adds to the spending, when conversion is exact.\<close>

definition spending :: "(Transaction \<Rightarrow> Minor option) \<Rightarrow> Transaction list \<Rightarrow> Minor" where
  "spending f txns = sum_list (map (\<lambda>t. case f t of None \<Rightarrow> 0 | Some m \<Rightarrow> m) txns)"

definition volume :: "(Transaction \<Rightarrow> Minor option) \<Rightarrow> Transaction list \<Rightarrow> Minor" where
  "volume f txns = sum_list (map (\<lambda>t. case f t of None \<Rightarrow> 0 | Some m \<Rightarrow> \<bar>m\<bar>) txns)"

lemma volume_filter: "volume f (filter P txns) \<le> volume f txns"
  by (induction txns) (auto simp: volume_def split: option.split)

lemma spending_volume: "\<bar>spending f txns\<bar> \<le> volume f txns"
  by (induction txns) (auto simp: spending_def volume_def split: option.split)

lemma spendDetail_spending:
  assumes "\<forall>t \<in> set txns. countsTowards b t covered \<longrightarrow> txn_inReporting t (bud_currency b) = Inr (map_option minor (f t))"
    and "volume f txns < 2 ^ 53"
  shows "spendDetail b w txns covered =
    Inr (minor (spending f (filter (\<lambda>t. countsTowards b t covered \<and> in_window w t) txns)),
         length (filter (\<lambda>t. countsTowards b t covered \<and> in_window w t \<and> f t = None) txns))"
proof -
  let ?P = "\<lambda>t. countsTowards b t covered \<and> in_window w t"
  have "volume f (filter ?P txns) < 2 ^ 53" using volume_filter [of f ?P txns] assms(2) by simp
  moreover have "filter (\<lambda>t. f t = None) (filter ?P txns) = filter (\<lambda>t. countsTowards b t covered \<and> in_window w t \<and> f t = None) txns"
    by (simp add: conj_ac)
  ultimately show ?thesis
    using sum_loop_exact [of "filter ?P txns" "bud_currency b" f 0 0] assms(1)
    by (simp add: spendDetail_def spend_loop_filter spending_def volume_def)
qed

text \<open>Consecutive windows cover their span without gap or overlap.\<close>

lemma in_window_series:
  assumes "window_ok b k" and "window_ok b (k + 1)" and "windowByIndex b k = Inr w" and "ledger_date (txn_date t)"
  shows "in_window w t \<longleftrightarrow> window_at b k \<le> txn_date t \<and> txn_date t < window_at b (k + 1)"
proof -
  obtain u where u: "w = \<lparr>win_from = window_at b k, win_to = u, win_index = k\<rparr>" "ledger_date u"
    "dayno u = dayno (window_at b (k + 1)) - 1" using windowByIndex_ok [OF assms(1,2)] assms(3) by auto
  have "txn_date t \<le> u \<longleftrightarrow> txn_date t < window_at b (k + 1)"
    using ledger_date_le_iff [OF assms(4) u(2)] ledger_date_less_iff [OF assms(4) win.at_date [OF assms(2)]] u(3) by simp
  then show ?thesis using u(1) by (auto simp: in_window_def not_less)
qed

lemma spending_append_windows:
  assumes "\<And>t. t \<in> set txns \<Longrightarrow> P t \<longleftrightarrow> Q t \<or> R t" and "\<And>t. t \<in> set txns \<Longrightarrow> \<not> (Q t \<and> R t)"
  shows "spending f (filter P txns) = spending f (filter Q txns) + spending f (filter R txns)"
  using assms by (induction txns) (auto simp: spending_def split: option.split)

lemma carry_loop_exact:
  assumes "\<And>p. p < period + n \<Longrightarrow> spendIn b (the_window p) txns covered = Inr (minor (s p)) \<and> windowByIndex b (int p) = Inr (the_window p)"
    and "\<And>p. p \<le> period + n \<Longrightarrow> \<bar>c + (\<Sum>q = period..<p. bud_amount b - s q)\<bar> < 2 ^ 53" and "\<And>p. p < period + n \<Longrightarrow> \<bar>bud_amount b - s p\<bar> < 2 ^ 53"
  shows "carry_loop b txns covered n period (minor c) = Inr (minor (c + (\<Sum>q = period..<period + n. bud_amount b - s q)))"
  using assms
proof (induction n arbitrary: period c)
  case (Suc n)
  let ?d = "bud_amount b - s period"
  have d: "num_minus (minor (bud_amount b)) (minor (s period)) = minor ?d"
    using num_plus_exact [of "bud_amount b" "- s period"] Suc.prems(3) [of period] by simp
  have c: "num_plus (minor c) (minor ?d) = minor (c + ?d)"
    using Suc.prems(2) [of "Suc period"] num_plus_exact [of c ?d] by simp
  have split: "(\<Sum>q = period..<p. bud_amount b - s q) = ?d + (\<Sum>q = Suc period..<p. bud_amount b - s q)" if "period < p" for p
    using that by (simp add: sum.atLeast_Suc_lessThan)
  have "carry_loop b txns covered (Suc n) period (minor c) = carry_loop b txns covered n (Suc period) (minor (c + ?d))"
    using Suc.prems(1) [of period] c d
    by (simp del: num_minus.simps num_plus.simps of_int_diff of_int_add)
  also have "\<dots> =
      Inr (minor (c + ?d + (\<Sum>q = Suc period..<Suc period + n. bud_amount b - s q)))"
  proof (rule Suc.IH)
    show "\<bar>c + ?d + (\<Sum>q = Suc period..<p. bud_amount b - s q)\<bar> < 2 ^ 53" if "p \<le> Suc period + n" for p
      using Suc.prems(2) [of p] Suc.prems(2) [of "Suc period"] split [of p] that by (cases "period < p") (auto simp: add.assoc)
  qed (use Suc.prems(1,3) in auto)
  also have "c + ?d + (\<Sum>q = Suc period..<Suc period + n. bud_amount b - s q) = c + (\<Sum>q = period..<period + Suc n. bud_amount b - s q)"
    using split [of "period + Suc n"] by (simp only: add_Suc add_Suc_right add.assoc)
  finally show ?case .
qed simp

section \<open>Properties\<close>

text \<open>C30: the window of a date. The search ends and finds a window that contains the date; its first day is
  the start of its period, it ends the day before the next period starts, and no other period contains
  the date. Before the budget starts there is none.\<close>

theorem windowFor_spec:
  assumes "ledger_date (bud_startDate b)" and "ledger_date date" and "monthno date + 12 \<le> 119999"
  shows "if date < bud_startDate b then windowFor b date = Some (Inr None)
    else \<exists>w n. windowFor b date = Some (Inr (Some w)) \<and> win_from w \<le> date \<and> date \<le> win_to w \<and> 0 \<le> win_index w \<and>
      windowStart b (win_index w) = Inr (win_from w) \<and> windowStart b (win_index w + 1) = Inr n \<and>
      addDays n (- 1) = Inr (win_to w) \<and>
      (\<forall>j. window_ok b j \<longrightarrow> window_ok b (j + 1) \<longrightarrow> window_at b j \<le> date \<longrightarrow> date < window_at b (j + 1) \<longrightarrow> j = win_index w)"
proof (cases "date < bud_startDate b")
  case False
  then have "bud_startDate b \<le> date" by simp
  from windowFor_finds [OF assms(1,2) this assms(3)]
  obtain k where k: "0 \<le> k" "window_ok b k" "window_ok b (k + 1)" "window_at b k \<le> date" "date < window_at b (k + 1)"
    "windowFor b date = Some (map_sum id Some (windowByIndex b k))" by blast
  obtain t where t: "windowByIndex b k = Inr \<lparr>win_from = window_at b k, win_to = t, win_index = k\<rparr>" "ledger_date t"
    "dayno t = dayno (window_at b (k + 1)) - 1" using windowByIndex_ok [OF k(2,3)] by blast
  have "date \<le> t"
    using ledger_date_le_iff [OF assms(2) t(2)] ledger_date_less_iff [OF assms(2) win.at_date [OF k(3)]] k(5) t(3) by simp
  moreover have "addDays (window_at b (k + 1)) (- 1) = Inr t"
    using t(1) windowStart_ok [OF k(2)] windowStart_ok [OF k(3)] by (auto simp: windowByIndex_def dayBefore_def split: sum.splits)
  moreover have "j = k" if "window_ok b j" "window_ok b (j + 1)" "window_at b j \<le> date" "date < window_at b (j + 1)" for j
    using win.interval_unique [OF that(1,2) k(2,3) that(3,4) k(4,5)] .
  moreover have "windowFor b date = Some (Inr (Some \<lparr>win_from = window_at b k, win_to = t, win_index = k\<rparr>))"
    using k(6) t(1) by simp
  ultimately show ?thesis using False k(1,4) windowStart_ok [OF k(2)] windowStart_ok [OF k(3)]
    by (intro iffD2 [OF if_not_P] exI [of _ "\<lparr>win_from = window_at b k, win_to = t, win_index = k\<rparr>"]
        exI [of _ "window_at b (k + 1)"]) simp_all
qed (simp add: windowFor_def)

text \<open>Spending in a window. Within the exact range the spending is the exact sum of the expenses of the
  covered categories that are dated inside the window, and the ones without a rate are counted instead.\<close>

theorem spendDetail_exact:
  assumes "\<forall>t \<in> set txns. countsTowards b t covered \<longrightarrow> txn_inReporting t (bud_currency b) = Inr (map_option minor (f t))"
    and "volume f txns < 2 ^ 53"
  shows "spendDetail b w txns covered =
    Inr (minor (spending f (filter (\<lambda>t. countsTowards b t covered \<and> in_window w t) txns)),
         length (filter (\<lambda>t. countsTowards b t covered \<and> in_window w t \<and> f t = None) txns))"
  by (rule spendDetail_spending [OF assms])

text \<open>What counts from the window \<open>lo\<close> on and before the window \<open>hi\<close>.\<close>

definition between_windows :: "Budget \<Rightarrow> string set option \<Rightarrow> nat \<Rightarrow> nat \<Rightarrow> Transaction \<Rightarrow> bool" where
  "between_windows b covered lo hi t \<longleftrightarrow>
     countsTowards b t covered \<and> window_at b (int lo) \<le> txn_date t \<and> txn_date t < window_at b (int hi)"

lemma spendIn_window:
  assumes "window_ok b (int p)" and "window_ok b (int (Suc p))" and "windowByIndex b (int p) = Inr w"
    and "\<forall>t \<in> set txns. ledger_date (txn_date t) \<and>
      (countsTowards b t covered \<longrightarrow> txn_inReporting t (bud_currency b) = Inr (map_option minor (f t)))"
    and "volume f txns < 2 ^ 53"
  shows "spendIn b w txns covered = Inr (minor (spending f (filter (between_windows b covered p (Suc p)) txns)))"
proof -
  have "in_window w t \<longleftrightarrow> window_at b (int p) \<le> txn_date t \<and> txn_date t < window_at b (int (Suc p))" if "t \<in> set txns" for t
    using in_window_series [of b "int p" w t] assms that by (simp add: add.commute)
  then have "filter (\<lambda>t. countsTowards b t covered \<and> in_window w t) txns = filter (between_windows b covered p (Suc p)) txns"
    by (intro filter_cong) (auto simp: between_windows_def)
  then show ?thesis using spendDetail_spending [of txns b covered f w] assms(4,5) by (simp add: spendIn_def)
qed

lemma spending_telescopes:
  assumes "\<forall>q \<le> p. window_ok b (int q)"
  shows "(\<Sum>q = 0..<p. spending f (filter (between_windows b covered q (Suc q)) txns)) =
    spending f (filter (between_windows b covered 0 p) txns)"
  using assms
proof (induction p)
  case 0
  have none: "filter (between_windows b covered 0 0) txns = []" by (simp add: between_windows_def filter_empty_conv not_less)
  show ?case unfolding none by (simp add: spending_def)
next
  case (Suc p)
  have "window_at b (int 0) \<le> window_at b (int p)" "window_at b (int p) \<le> window_at b (int (Suc p))"
    using win.at_le_iff Suc.prems [rule_format, of 0] Suc.prems [rule_format, of p] Suc.prems [rule_format, of "Suc p"] by simp_all
  then have "spending f (filter (between_windows b covered 0 (Suc p)) txns) =
      spending f (filter (between_windows b covered 0 p) txns) + spending f (filter (between_windows b covered p (Suc p)) txns)"
    by (intro spending_append_windows) (auto simp: between_windows_def not_less intro: order_trans less_le_trans)
  then show ?case using Suc by simp
qed

text \<open>C31: what rolls over. With rollover on, what is carried into period \<open>n\<close> is \<open>n\<close> times the limit minus
  everything spent from the budget's start up to that period's first day: each expense counts once, in
  the window of its day, overspending carries as a negative, and nothing from before the start counts.\<close>

theorem carriedInto_total:
  assumes "bud_rollover b" and "\<forall>p \<le> Suc n. window_ok b (int p)"
    and "\<forall>t \<in> set txns. ledger_date (txn_date t) \<and>
      (countsTowards b t covered \<longrightarrow> txn_inReporting t (bud_currency b) = Inr (map_option minor (f t)))"
    and "0 \<le> bud_amount b" and "int (Suc n) * bud_amount b + volume f txns < 2 ^ 53"
  shows "carriedInto b (int (Suc n)) txns covered =
    Inr (minor (int (Suc n) * bud_amount b -
      spending f (filter (\<lambda>t. countsTowards b t covered \<and> window_at b 0 \<le> txn_date t \<and> txn_date t < window_at b (int (Suc n))) txns)))"
proof -
  define N where "N = Suc n"
  let ?P = "between_windows b covered"
  define s where "s p = spending f (filter (?P p (Suc p)) txns)" for p
  define w where "w p = projr (windowByIndex b (int p))" for p
  have ok: "window_ok b (int p)" if "p \<le> N" for p using assms(2) that by (simp add: N_def)
  have vol: "volume f txns < 2 ^ 53" using assms(4,5) by (smt (verit) mult_nonneg_nonneg of_nat_0_le_iff)
  have bound: "\<bar>spending f (filter Q txns)\<bar> \<le> volume f txns" for Q
    using spending_volume [of f "filter Q txns"] volume_filter [of f Q txns] by linarith
  have win: "windowByIndex b (int p) = Inr (w p)" if "p < N" for p
    using windowByIndex_ok [of b "int p"] ok [of p] ok [of "Suc p"] that by (auto simp: w_def add.commute)
  have spend: "spendIn b (w p) txns covered = Inr (minor (s p))" if "p < N" for p
    unfolding s_def by (rule spendIn_window [OF _ _ win [OF that] assms(3) vol]) (use ok [of p] ok [of "Suc p"] that in simp_all)
  have sum: "(\<Sum>q = 0..<p. bud_amount b - s q) = int p * bud_amount b - spending f (filter (?P 0 p) txns)" if "p \<le> N" for p
    using spending_telescopes [of p b f covered txns] ok that by (simp add: s_def sum_subtractf)
  have small: "\<bar>0 + (\<Sum>q = 0..<p. bud_amount b - s q)\<bar> < 2 ^ 53" if "p \<le> N" for p
  proof -
    have "int p * bud_amount b \<le> int N * bud_amount b" "0 \<le> int p * bud_amount b" using that assms(4) by (simp_all add: mult_right_mono)
    then show ?thesis using sum [OF that] bound [of "?P 0 p"] assms(5) by (simp add: N_def)
  qed
  have step: "\<bar>bud_amount b - s p\<bar> < 2 ^ 53" if "p < N" for p
  proof -
    have "bud_amount b \<le> int N * bud_amount b" using assms(4) by (simp add: N_def mult_le_cancel_right1)
    then show ?thesis using bound [of "?P p (Suc p)"] assms(4,5) by (simp add: s_def N_def)
  qed
  have "carry_loop b txns covered N 0 (minor 0) = Inr (minor (0 + (\<Sum>q = 0..<0 + N. bud_amount b - s q)))"
    by (rule carry_loop_exact [where the_window = w]) (use win spend small step in auto)
  then have "carry_loop b txns covered N 0 (Fin 0) = Inr (minor (int N * bud_amount b - spending f (filter (?P 0 N) txns)))"
    using sum [of N] by simp
  moreover have "carriedInto b (int N) txns covered = carry_loop b txns covered N 0 (Fin 0)"
  proof -
    have "\<not> int N \<le> 0" "nat (int N) = N" by (simp_all add: N_def)
    then show ?thesis using assms(1) unfolding carriedInto_def by (simp only: simp_thms if_False)
  qed
  moreover have "?P 0 N = (\<lambda>t. countsTowards b t covered \<and> window_at b 0 \<le> txn_date t \<and> txn_date t < window_at b (int (Suc n)))"
    by (simp add: between_windows_def fun_eq_iff N_def)
  ultimately show ?thesis unfolding N_def by simp
qed

section \<open>Witnesses\<close>

definition sample_budget :: Budget where
  "sample_budget =
     \<lparr>bud_id = ''b1'', bud_name = ''Food'', bud_categoryIds = [''food''], bud_period = Monthly, bud_amount = 40000,
      bud_currency = ''EUR'', bud_startDate = ''2024-02-15'', bud_rollover = True, bud_archived = False,
      bud_createdAt = 0, bud_updatedAt = []\<rparr>"

lemma sample_dates: "ledger_date ''2024-02-15''" "monthno ''2024-02-15'' = 24289" "ledger_date ''2024-03-05''"
    "monthno ''2024-03-05'' = 24290"
  by code_simp+

theorem windowFor_spec_witness: "\<exists>w. windowFor sample_budget ''2024-03-05'' = Some (Inr (Some w)) \<and> win_from w \<le> ''2024-03-05''"
proof -
  have "\<not> ''2024-03-05'' < bud_startDate sample_budget" by code_simp
  moreover have "ledger_date (bud_startDate sample_budget)" using sample_dates by (simp add: sample_budget_def)
  ultimately show ?thesis using windowFor_spec [of sample_budget "''2024-03-05''"] sample_dates by auto
qed

lemma sample_spend: "countsTowards sample_budget sample_txn None" "txn_inReporting sample_txn ''EUR'' = Inr (Some (minor 1250))"
  by (simp_all add: countsTowards_def sample_budget_def sample_txn_def txn_inReporting_def inReporting_def sameCurrency_def)

theorem spendDetail_exact_witness:
  "spendDetail sample_budget \<lparr>win_from = ''2024-02-15'', win_to = ''2024-03-14'', win_index = 0\<rparr> [sample_txn] None = Inr (minor 1250, 0)"
proof -
  let ?w = "\<lparr>win_from = ''2024-02-15'', win_to = ''2024-03-14'', win_index = 0\<rparr>"
  have "in_window ?w sample_txn" by code_simp
  then show ?thesis
    using spendDetail_exact [of "[sample_txn]" sample_budget None "\<lambda>_. Some 1250" ?w] sample_spend
    by (simp add: spending_def volume_def) (simp add: sample_budget_def)
qed

theorem carriedInto_total_witness: "carriedInto sample_budget (int (Suc 0)) [sample_txn] None = Inr (minor 38750)"
proof -
  have ok: "\<forall>p \<le> Suc 0. window_ok sample_budget (int p)"
    using sample_dates by (auto simp: window_ok_def sample_budget_def in_month_calendar_def le_Suc_eq)
  have at: "window_at sample_budget 0 = ''2024-02-15''" "window_at sample_budget 1 = ''2024-03-15''" by code_simp+
  have "''2024-02-15'' \<le> ''2024-03-05''" "''2024-03-05'' < ''2024-03-15''" by code_simp+
  then have "filter (\<lambda>t. countsTowards sample_budget t None \<and> window_at sample_budget 0 \<le> txn_date t \<and>
      txn_date t < window_at sample_budget (int (Suc 0))) [sample_txn] = [sample_txn]"
    using sample_spend(1) at by (simp add: sample_txn_def)
  then show ?thesis
    using carriedInto_total [OF _ ok, of "[sample_txn]" None "\<lambda>_. Some 1250"] sample_spend sample_dates
    by (simp add: spending_def volume_def) (simp add: sample_budget_def sample_txn_def)
qed

end
