(* ===== verification/Cards.thy ===== *)
theory Cards
  imports Groups_Service Transactions_Service Budgets
begin

text \<open>
  Credit cards (\<open>core/cards/statement.ts\<close>, \<open>card-bills.service.ts\<close> and \<open>pay-bill.service.ts\<close>): when a
  statement closes and falls due, what is owed on it, and paying it. The day \<open>toIsoDate()\<close> gives is an
  argument; balances are integers in minor units.
\<close>

section \<open>The statement cycle\<close>

definition dayOfMonth :: "int \<Rightarrow> int \<Rightarrow> int \<Rightarrow> string" where
  "dayOfMonth year month day = format (Some year) (Some month) (map_option (min (max day 1)) (daysInMonth year month))"

definition statementClose :: "int \<Rightarrow> string \<Rightarrow> string result" where
  "statementClose statementDay date = map_sum id (\<lambda>(year, month, _). dayOfMonth year month statementDay) (parts date)"

definition lastStatementDate :: "int \<Rightarrow> string \<Rightarrow> string result" where
  "lastStatementDate statementDay asOf =
     (case parts asOf of
        Inl e \<Rightarrow> Inl e
      | Inr (year, month, _) \<Rightarrow>
          let thisMonth = dayOfMonth year month statementDay
          in if thisMonth \<le> asOf then Inr thisMonth
             else case addMonths thisMonth (- 1) of Inl e \<Rightarrow> Inl e | Inr d \<Rightarrow> statementClose statementDay d)"

definition dueDateFor :: "int \<Rightarrow> string \<Rightarrow> string result" where
  "dueDateFor dueDay statementDate =
     (case parts statementDate of
        Inl e \<Rightarrow> Inl e
      | Inr (year, month, _) \<Rightarrow>
          let sameMonth = dayOfMonth year month dueDay
          in if sameMonth > statementDate then Inr sameMonth
             else case addMonths statementDate 1 of
                    Inl e \<Rightarrow> Inl e
                  | Inr nx \<Rightarrow>
                      (case parts nx of
                         Inl e \<Rightarrow> Inl e
                       | Inr (nextYear, nextMonth, _) \<Rightarrow> Inr (dayOfMonth nextYear nextMonth dueDay)))"

definition hasCycle :: "Account \<Rightarrow> bool" where
  "hasCycle account \<longleftrightarrow> acc_statementDay account \<noteq> None \<and> acc_dueDay account \<noteq> None"

definition availableCredit :: "Minor \<Rightarrow> Minor option \<Rightarrow> Minor option" where
  "availableCredit balance creditLimit = map_option (\<lambda>limit. limit + balance) creditLimit"

section \<open>What is owed\<close>

record StatementSummary =
  closedOn :: string
  dueOn :: string
  statementBalance :: Minor
  paidSince :: Minor
  remaining :: Minor
  currentBalance :: Minor

definition owed :: "Minor \<Rightarrow> Minor" where
  "owed balance = (if balance = 0 then 0 else - balance)"

definition balanceAsOf :: "Account \<Rightarrow> Transaction list \<Rightarrow> string \<Rightarrow> Minor" where
  "balanceAsOf account transactions date =
     fold (\<lambda>txn acc. if txn_date txn > date then acc else acc + signedFor (acc_id account) txn) transactions (acc_openingBalance account)"

definition paid_between :: "Account \<Rightarrow> Transaction list \<Rightarrow> string \<Rightarrow> string \<Rightarrow> Minor" where
  "paid_between account transactions closing asOf =
     fold (\<lambda>txn acc.
         if txn_date txn \<le> closing \<or> txn_date txn > asOf then acc
         else let effect = signedFor (acc_id account) txn in if effect > 0 then acc + effect else acc) transactions 0"

definition summariseStatement :: "Account \<Rightarrow> Transaction list \<Rightarrow> string \<Rightarrow> StatementSummary option result" where
  "summariseStatement account transactions asOf =
     (case (acc_statementDay account, acc_dueDay account) of
        (Some statementDay, Some dueDay) \<Rightarrow>
          (case lastStatementDate statementDay asOf of
             Inl e \<Rightarrow> Inl e
           | Inr closing \<Rightarrow>
               (case dueDateFor dueDay closing of
                  Inl e \<Rightarrow> Inl e
                | Inr due \<Rightarrow>
                    let statement = owed (balanceAsOf account transactions closing);
                        current = owed (balanceAsOf account transactions asOf);
                        paid = paid_between account transactions closing asOf
                    in Inr (Some \<lparr>closedOn = closing, dueOn = due, statementBalance = statement, paidSince = paid,
                         remaining = max (statement - paid) 0, currentBalance = current\<rparr>)))
      | _ \<Rightarrow> Inr None)"

text \<open>\<open>Number\<close> of a missing or unreadable part is NaN, and so is what is computed from it.\<close>

definition day_parts :: "string \<Rightarrow> (int \<times> int \<times> int) option" where
  "day_parts date =
     (case map js_Number (split_on CHR ''-'' date) of
        Some y # Some m # Some d # _ \<Rightarrow> Some (int y, int m, int d)
      | _ \<Rightarrow> None)"

definition daysBetween :: "string \<Rightarrow> string \<Rightarrow> int option" where
  "daysBetween from to =
     (case (day_parts from, day_parts to) of
        (Some f, Some t) \<Rightarrow> Some (utc t - utc f)
      | _ \<Rightarrow> None)"

definition isDueSoon :: "StatementSummary \<Rightarrow> int \<Rightarrow> string \<Rightarrow> bool" where
  "isDueSoon summary days asOf \<longleftrightarrow>
     (if remaining summary \<le> 0 then False
      else dueOn summary \<ge> asOf \<and> (case daysBetween asOf (dueOn summary) of None \<Rightarrow> False | Some n \<Rightarrow> n \<le> days))"

section \<open>Bills\<close>

definition DUE_SOON_DAYS :: int where "DUE_SOON_DAYS = 14"

record CardBill =
  bill_card :: Account
  bill_summary :: StatementSummary

fun bill_list :: "Transaction list \<Rightarrow> string \<Rightarrow> Account list \<Rightarrow> CardBill list result" where
  "bill_list transactions today [] = Inr []"
| "bill_list transactions today (crd # cards) =
     (case summariseStatement crd transactions today of
        Inl e \<Rightarrow> Inl e
      | Inr None \<Rightarrow> bill_list transactions today cards
      | Inr (Some s) \<Rightarrow> map_sum id ((#) \<lparr>bill_card = crd, bill_summary = s\<rparr>) (bill_list transactions today cards))"

definition bills :: "(string \<Rightarrow> string \<Rightarrow> int) \<Rightarrow> docket_db \<Rightarrow> string \<Rightarrow> CardBill list result" where
  "bills lc d today =
     map_sum id (sort_by (\<lambda>a b. lc (dueOn (bill_summary a)) (dueOn (bill_summary b))))
       (bill_list (transaction_rows d) today
         (filter (\<lambda>account. \<not> acc_archived account \<and> isCreditCard (group_rows d) account) (account_rows d)))"

definition dueSoon :: "string \<Rightarrow> CardBill list \<Rightarrow> CardBill list" where
  "dueSoon today bs = filter (\<lambda>bill. isDueSoon (bill_summary bill) DUE_SOON_DAYS today) bs"

section \<open>Paying\<close>

record PayBillRequest =
  pay_card :: Account
  pay_from :: Account
  pay_amount :: Minor
  pay_date :: "string option"
  pay_note :: "string option"

definition pay_summarise :: "docket_db \<Rightarrow> Account \<Rightarrow> string \<Rightarrow> StatementSummary option result" where
  "pay_summarise d crd asOf =
     summariseStatement crd
       (filter (\<lambda>txn. txn_accountId txn = acc_id crd \<or> txn_counterAccountId txn = Some (acc_id crd)) (transaction_rows d)) asOf"

definition pay_checks :: "PayBillRequest \<Rightarrow> unit result" where
  "pay_checks request =
     (let crd = pay_card request; payer = pay_from request
      in first_error
        [(pay_amount request \<le> 0, ''A payment has to be more than nothing''),
         (acc_id payer = acc_id crd, ''A card cannot pay its own bill''),
         (toUpperCase (acc_currency payer) \<noteq> toUpperCase (acc_currency crd),
          acc_name payer @ '' is in '' @ acc_currency payer @ '' and '' @ acc_name crd @ '' is in '' @ acc_currency crd @
          ''. Pay from an account in the same currency.'')])"

definition payment_draft :: "string \<Rightarrow> string \<Rightarrow> PayBillRequest \<Rightarrow> TransactionDraft" where
  "payment_draft uuid today request =
     \<lparr>td_id = uuid, td_kind = Transfer, td_amount = pay_amount request, td_currency = acc_currency (pay_card request),
      td_accountId = acc_id (pay_from request), td_date = with_default today (pay_date request),
      td_payee = acc_name (pay_card request), td_counterAccountId = Some (acc_id (pay_card request)), td_categoryId = None,
      td_note = Some (with_default [] (pay_note request)), td_tags = None, td_cleared = Some True, td_rate = None, td_rateDate = None,
      td_createdAt = None\<rparr>"

definition pay :: "(nat \<Rightarrow> nat) \<Rightarrow> string \<times> string \<times> PayBillRequest \<Rightarrow> (ledger, AnyEntity) call" where
  "pay now arg l =
     (case arg of (uuid, today, request) \<Rightarrow>
        (case pay_checks request of
           Inl e \<Rightarrow> (Inl e, l)
         | Inr _ \<Rightarrow> transactions_save now (payment_draft uuid today request) l))"

interpretation pay_bill: service pay "\<lambda>arg. {(Transactions, fst arg)}"
proof
  fix now :: "nat \<Rightarrow> nat" and W dev l and arg :: "string \<times> string \<times> PayBillRequest" and r l'
  assume ok: "\<forall>j. plausible (now j)" "ledger_ok W dev l" "rows_valid l" and call: "pay now arg l = (r, l')"
  obtain uuid today request where arg: "arg = (uuid, today, request)" by (cases arg)
  show "writes {(Transactions, fst arg)} l l'"
  proof (cases "pay_checks request")
    case (Inr u)
    then have "transactions_save now (payment_draft uuid today request) l = (r, l')" using call arg by (simp add: pay_def)
    from save_transaction.only_writes [OF ok this] show ?thesis by (simp add: payment_draft_def arg)
  qed (use call arg in \<open>simp add: pay_def\<close>)
qed

section \<open>Which dates a cycle has\<close>

lemma dayOfMonth_clamped:
  assumes "ledger_date s" and "parts s = Inr (y, m, d)"
  shows "dayOfMonth y m day = clamped (monthno s) (max day 1)"
proof -
  obtain y' m' d' where s: "parts s = Inr (y', m', d')" "100 \<le> y'" "y' \<le> 9999" "valid_ymd y' m' d'" "ymd s = (y', m', d')"
    using assms(1) by (rule ledger_dateE)
  have ym: "y' = y" "m' = m" using s(1) assms(2) by auto
  have m: "1 \<le> m" "m \<le> 12" using s(4) ym by (auto simp: valid_ymd_def)
  have no: "monthno s div 12 = y" "monthno s mod 12 + 1 = m" using m by (simp_all add: monthno_def s(5) ym)
  let ?d = "min (max day 1) (month_len y m)"
  have "valid_ymd y m ?d" using m month_len_bounds(1) [of y m] by (auto simp: valid_ymd_def)
  then have "format (Some y) (Some m) (Some ?d) = iso y m ?d" using s(2,3) ym by (intro format_iso valid_bounds) auto
  then show ?thesis using daysInMonth_len [of y m] s(2,3) ym m by (simp add: dayOfMonth_def clamped_def no)
qed

lemma parts_date: "ledger_date s \<Longrightarrow> \<exists>y m d. parts s = Inr (y, m, d)"
  by (erule ledger_dateE) blast

lemma clamped_mono:
  assumes "in_month_calendar a" "in_month_calendar b" "a < b" "1 \<le> d" "1 \<le> d'"
  shows "clamped a d < clamped b d'"
  using monthno_less [OF clamped_date(1) [OF assms(1,4)] clamped_date(1) [OF assms(2,5)]]
    clamped_date(2) [OF assms(1,4)] clamped_date(2) [OF assms(2,5)] assms(3) by simp

lemma lastStatementDate_spec:
  assumes "ledger_date asOf" and "in_month_calendar (monthno asOf - 1)" and "in_month_calendar (monthno asOf + 1)"
  obtains a where "lastStatementDate sd asOf = Inr (clamped a (max sd 1))" "a = monthno asOf \<or> a = monthno asOf - 1"
    "clamped a (max sd 1) \<le> asOf" "asOf < clamped (a + 1) (max sd 1)"
proof -
  obtain y m d where p: "parts asOf = Inr (y, m, d)" using parts_date [OF assms(1)] by blast
  note this_month = dayOfMonth_clamped [OF assms(1) p, of sd]
  note cal = monthno_calendar [OF assms(1)]
  let ?cur = "clamped (monthno asOf) (max sd 1)"
  have this_date: "ledger_date ?cur" "monthno ?cur = monthno asOf" using clamped_date [OF cal, of "max sd 1"] by simp_all
  show thesis
  proof (cases "?cur \<le> asOf")
    case True
    then have "asOf < clamped (monthno asOf + 1) (max sd 1)"
      using monthno_less [OF assms(1) clamped_date(1) [OF assms(3)]] clamped_date(2) [OF assms(3)] by simp
    then show ?thesis using True by (intro that [of "monthno asOf"]) (simp_all add: lastStatementDate_def p this_month)
  next
    case False
    have "addMonths ?cur (- 1) = Inr (clamped (monthno asOf - 1) (day_of_month ?cur))"
      using addMonths_clamped [OF this_date(1), of "- 1"] this_date(2) assms(2) by simp
    moreover have prev: "ledger_date (clamped (monthno asOf - 1) (day_of_month ?cur))"
        "monthno (clamped (monthno asOf - 1) (day_of_month ?cur)) = monthno asOf - 1"
      using clamped_date [OF assms(2) day_of_month_bounds(1) [OF this_date(1)]] by simp_all
    obtain y' m' d' where "parts (clamped (monthno asOf - 1) (day_of_month ?cur)) = Inr (y', m', d')" using parts_date [OF prev(1)] by blast
    with dayOfMonth_clamped [OF prev(1) this, of sd] prev(2) calculation False
    have "lastStatementDate sd asOf = Inr (clamped (monthno asOf - 1) (max sd 1))"
      by (simp add: lastStatementDate_def p this_month statementClose_def)
    moreover have "clamped (monthno asOf - 1) (max sd 1) \<le> asOf"
      using monthno_less [OF clamped_date(1) [OF assms(2)] assms(1)] clamped_date(2) [OF assms(2)] by (simp add: less_imp_le)
    ultimately show ?thesis using False by (intro that [of "monthno asOf - 1"]) simp_all
  qed
qed

lemma dueDateFor_spec:
  assumes "ledger_date closing" and "in_month_calendar (monthno closing + 1)"
  obtains b where "dueDateFor dd closing = Inr (clamped b (max dd 1))" "b = monthno closing \<or> b = monthno closing + 1"
    "closing < clamped b (max dd 1)" "b = monthno closing + 1 \<longrightarrow> clamped (b - 1) (max dd 1) \<le> closing"
proof -
  obtain y m d where p: "parts closing = Inr (y, m, d)" using parts_date [OF assms(1)] by blast
  note this_month = dayOfMonth_clamped [OF assms(1) p, of dd]
  let ?same = "clamped (monthno closing) (max dd 1)"
  show thesis
  proof (cases "closing < ?same")
    case True
    then show ?thesis by (intro that [of "monthno closing"]) (simp_all add: dueDateFor_def p this_month)
  next
    case False
    have add: "addMonths closing 1 = Inr (clamped (monthno closing + 1) (day_of_month closing))" by (rule addMonths_clamped [OF assms])
    have nx: "ledger_date (clamped (monthno closing + 1) (day_of_month closing))"
        "monthno (clamped (monthno closing + 1) (day_of_month closing)) = monthno closing + 1"
      using clamped_date [OF assms(2) day_of_month_bounds(1) [OF assms(1)]] by simp_all
    obtain y' m' d' where "parts (clamped (monthno closing + 1) (day_of_month closing)) = Inr (y', m', d')" using parts_date [OF nx(1)] by blast
    with dayOfMonth_clamped [OF nx(1) this, of dd] nx(2) add False
    have "dueDateFor dd closing = Inr (clamped (monthno closing + 1) (max dd 1))"
      by (simp add: dueDateFor_def p this_month)
    moreover have "closing < clamped (monthno closing + 1) (max dd 1)"
      using monthno_less [OF assms(1) clamped_date(1) [OF assms(2)]] clamped_date(2) [OF assms(2)] by simp
    ultimately show ?thesis using False by (intro that [of "monthno closing + 1"]) simp_all
  qed
qed

text \<open>The cycle of a card. The statement date is the latest day carrying the statement day, clamped to
  short months, on or before today; the due date is the first one carrying the due day strictly after
  it. Both are calendar dates.\<close>

theorem statement_cycle:
  assumes "ledger_date asOf" and "in_month_calendar (monthno asOf - 1)" and "in_month_calendar (monthno asOf + 1)"
  shows "\<exists>a b. lastStatementDate sd asOf = Inr (clamped a (max sd 1)) \<and>
    clamped a (max sd 1) \<le> asOf \<and> asOf < clamped (a + 1) (max sd 1) \<and>
    dueDateFor dd (clamped a (max sd 1)) = Inr (clamped b (max dd 1)) \<and>
    clamped a (max sd 1) < clamped b (max dd 1) \<and> (b = a \<or> b = a + 1 \<and> clamped a (max dd 1) \<le> clamped a (max sd 1)) \<and>
    ledger_date (clamped a (max sd 1)) \<and> ledger_date (clamped b (max dd 1))"
proof -
  obtain a where a: "lastStatementDate sd asOf = Inr (clamped a (max sd 1))" "a = monthno asOf \<or> a = monthno asOf - 1"
    "clamped a (max sd 1) \<le> asOf" "asOf < clamped (a + 1) (max sd 1)" by (rule lastStatementDate_spec [OF assms])
  have cal: "in_month_calendar a" "in_month_calendar (a + 1)" using a(2) assms monthno_calendar [OF assms(1)] by auto
  have c: "ledger_date (clamped a (max sd 1))" "monthno (clamped a (max sd 1)) = a" using clamped_date [OF cal(1)] by simp_all
  have "in_month_calendar (monthno (clamped a (max sd 1)) + 1)" using c(2) cal(2) by simp
  then obtain b where b: "dueDateFor dd (clamped a (max sd 1)) = Inr (clamped b (max dd 1))" "b = a \<or> b = a + 1"
    "clamped a (max sd 1) < clamped b (max dd 1)" "b = a + 1 \<longrightarrow> clamped (b - 1) (max dd 1) \<le> clamped a (max sd 1)"
    using dueDateFor_spec [OF c(1)] c(2) by metis
  have "ledger_date (clamped b (max dd 1))" using clamped_date(1) cal b(2) by auto
  then show ?thesis using a b c(1) by fastforce
qed

section \<open>What a payment does\<close>

lemma fold_add_if: "fold (\<lambda>x acc. if P x then acc else acc + f x) xs a = a + (\<Sum>x \<in># filter_mset (\<lambda>x. \<not> P x) (mset xs). f x)"
  for a :: int
  by (induction xs arbitrary: a) (simp_all add: algebra_simps)

lemma balanceAsOf_sum: "balanceAsOf account txns date =
    acc_openingBalance account + (\<Sum>t \<in># filter_mset (\<lambda>t. txn_date t \<le> date) (mset txns). signedFor (acc_id account) t)"
  unfolding balanceAsOf_def fold_add_if by (simp add: not_less)

lemma paid_between_sum: "paid_between account txns closing asOf =
    (\<Sum>t \<in># filter_mset (\<lambda>t. closing < txn_date t \<and> txn_date t \<le> asOf) (mset txns). max (signedFor (acc_id account) t) 0)"
proof -
  have "(\<lambda>txn acc. if txn_date txn \<le> closing \<or> txn_date txn > asOf then acc
         else let effect = signedFor (acc_id account) txn in if effect > 0 then acc + effect else acc) =
      (\<lambda>txn acc. if txn_date txn \<le> closing \<or> txn_date txn > asOf then acc else acc + max (signedFor (acc_id account) txn) 0)"
    by (auto simp: fun_eq_iff Let_def)
  then show ?thesis unfolding paid_between_def by (simp add: fold_add_if not_le not_less)
qed

lemma owed_neg [simp]: "owed b = - b"
  by (simp add: owed_def)

lemma summary_payment:
  assumes "summariseStatement crd txns asOf = Inr (Some s)" and "mset txns' = add_mset p (mset txns)"
    and "closedOn s < txn_date p" and "txn_date p \<le> asOf" and "signedFor (acc_id crd) p = amount" and "0 < amount"
  shows "summariseStatement crd txns' asOf = Inr (Some (s\<lparr>paidSince := paidSince s + amount,
    remaining := max (remaining s - amount) 0, currentBalance := currentBalance s - amount\<rparr>))"
proof -
  obtain sd dd closing due where c: "acc_statementDay crd = Some sd" "acc_dueDay crd = Some dd" "lastStatementDate sd asOf = Inr closing"
      "dueDateFor dd closing = Inr due"
    using assms(1) by (auto simp: summariseStatement_def Let_def split: option.splits sum.splits)
  have s: "s = \<lparr>closedOn = closing, dueOn = due, statementBalance = - balanceAsOf crd txns closing,
      paidSince = paid_between crd txns closing asOf,
      remaining = max (- balanceAsOf crd txns closing - paid_between crd txns closing asOf) 0,
      currentBalance = - balanceAsOf crd txns asOf\<rparr>"
    using assms(1) c by (simp add: summariseStatement_def Let_def)
  have "balanceAsOf crd txns' closing = balanceAsOf crd txns closing" "balanceAsOf crd txns' asOf = balanceAsOf crd txns asOf + amount"
    "paid_between crd txns' closing asOf = paid_between crd txns closing asOf + amount"
    using assms(2-6) s by (simp_all add: balanceAsOf_sum paid_between_sum not_le)
  then show ?thesis using c assms(6) by (auto simp: summariseStatement_def Let_def s max_def)
qed

lemma mset_tput_fresh: "table_ok t \<Longrightarrow> tget t k = None \<Longrightarrow> mset (tput k v t) = add_mset (k, v) (mset t)"
proof (induction t)
  case (Cons p t)
  then show ?case by (cases p) (auto simp: table_ok_def primaryKeys_def split: if_splits)
qed simp

lemma rows_put_fresh:
  assumes "ledger_ok W dev l" and "plausible wall" and "entity_of v = e" and "put wall e v l = (Inr v', l')"
    and "tget (tables (led_db l) e) (entity_id v) = None" and "as v' = Some x"
  shows "mset (rows as e (led_db l')) = add_mset x (mset (rows as e (led_db l)))"
proof -
  obtain op where ok': "ledger_ok (insert op W) dev l'"
    and get: "\<And>e' i. tget (tables (led_db l') e') i = (if e' = e \<and> i = entity_id v then Some v' else tget (tables (led_db l) e') i)"
    using put_effect [OF assms(1-4)] by blast
  have tab: "table_ok (tables (led_db l) e)" "table_ok (tables (led_db l') e)"
    using ledger_okD(1) [OF assms(1)] ledger_okD(1) [OF ok'] by (simp_all add: db_ok_def)
  have "tables (led_db l') e = tput (entity_id v) v' (tables (led_db l) e)"
    by (rule table_eqI [OF tab(2)]) (use tab get in simp_all)
  then have "mset (tables (led_db l') e) = add_mset (entity_id v, v') (mset (tables (led_db l) e))"
    using mset_tput_fresh [OF tab(1) assms(5)] by simp
  moreover have "mset (rows as e d) = image_mset (\<lambda>p. the (as (snd p))) (filter_mset (\<lambda>p. as (snd p) \<noteq> None) (mset (tables d e)))" for d
    by (simp add: rows_def toArray_def List.map_filter_def comp_def filter_map)
  ultimately show ?thesis using assms(6) by simp
qed

lemma pay_stores:
  assumes "pay now (uuid, today, request) l = (Inr v, l')"
  shows "put (now 1) Transactions (TransactionRow (draft_transaction (int (now 0)) (payment_draft uuid today request))) l = (Inr v, l')"
    "0 < pay_amount request" "acc_id (pay_from request) \<noteq> acc_id (pay_card request)"
  using assms by (auto simp: pay_def pay_checks_def transactions_save_def Let_def split: sum.splits if_splits)

lemma pay_adds:
  assumes "ledger_ok W dev l" and "\<forall>j. plausible (now j)" and "tget (tables (led_db l) Transactions) uuid = None"
    and "pay now (uuid, today, request) l = (Inr v, l')"
  obtains p where "txn_date p = with_default today (pay_date request)" "signedFor (acc_id (pay_card request)) p = pay_amount request"
    "mset (filter (\<lambda>txn. txn_accountId txn = acc_id (pay_card request) \<or> txn_counterAccountId txn = Some (acc_id (pay_card request)))
        (transaction_rows (led_db l'))) =
      add_mset p (mset (filter (\<lambda>txn. txn_accountId txn = acc_id (pay_card request) \<or> txn_counterAccountId txn = Some (acc_id (pay_card request)))
        (transaction_rows (led_db l))))"
proof -
  note st = pay_stores [OF assms(4)]
  let ?t = "draft_transaction (int (now 0)) (payment_draft uuid today request)" and ?i = "acc_id (pay_card request)"
  obtain stamp where v: "v = TransactionRow (?t\<lparr>txn_updatedAt := stamp\<rparr>)"
    using put_effect [OF assms(1) _ _ st(1)] assms(2) by auto
  define p where "p = ?t\<lparr>txn_updatedAt := stamp\<rparr>"
  have p: "txn_counterAccountId p = Some ?i" "txn_date p = with_default today (pay_date request)" "signedFor ?i p = pay_amount request"
    using st(2,3) by (simp_all add: p_def draft_transaction_def payment_draft_def signedFor_def)
  have "mset (transaction_rows (led_db l')) = add_mset p (mset (transaction_rows (led_db l)))"
  proof (rule rows_put_fresh [OF assms(1) _ _ st(1)])
    show "tget (tables (led_db l) Transactions) (entity_id (TransactionRow ?t)) = None"
      using assms(3) by (simp add: draft_transaction_def payment_draft_def)
  qed (use assms(2) v p_def in simp_all)
  then show ?thesis using p(1) by (intro that [OF p(2,3)]) simp
qed

text \<open>A payment settles what it pays. After a successful payment dated after the close of the statement
  and no later than today, the card's summary is the one before with the amount added to what was
  paid, taken off what is left of the bill (never below nothing) and off what is owed now; the
  statement itself and its dates are as they were.\<close>

theorem payment_settles:
  assumes "ledger_ok W dev l" and "\<forall>j. plausible (now j)" and "tget (tables (led_db l) Transactions) uuid = None"
    and "pay now (uuid, today, request) l = (Inr v, l')"
    and "pay_summarise (led_db l) (pay_card request) asOf = Inr (Some s)"
    and "closedOn s < with_default today (pay_date request)" and "with_default today (pay_date request) \<le> asOf"
  shows "pay_summarise (led_db l') (pay_card request) asOf =
    Inr (Some (s\<lparr>paidSince := paidSince s + pay_amount request, remaining := max (remaining s - pay_amount request) 0,
      currentBalance := currentBalance s - pay_amount request\<rparr>))"
proof -
  obtain p where p: "txn_date p = with_default today (pay_date request)" "signedFor (acc_id (pay_card request)) p = pay_amount request"
    "mset (filter (\<lambda>txn. txn_accountId txn = acc_id (pay_card request) \<or> txn_counterAccountId txn = Some (acc_id (pay_card request)))
        (transaction_rows (led_db l'))) =
      add_mset p (mset (filter (\<lambda>txn. txn_accountId txn = acc_id (pay_card request) \<or> txn_counterAccountId txn = Some (acc_id (pay_card request)))
        (transaction_rows (led_db l))))" by (rule pay_adds [OF assms(1-4)])
  from summary_payment [OF assms(5) [unfolded pay_summarise_def] p(3)] show ?thesis
    using p(1,2) assms(6,7) pay_stores(2) [OF assms(4)] by (simp add: pay_summarise_def)
qed

definition sample_card :: Account where
  "sample_card = (plain_account ''k'' (- 900))\<lparr>acc_statementDay := Some 31, acc_dueDay := Some 15\<rparr>"

definition sample_payment :: PayBillRequest where
  "sample_payment = \<lparr>pay_card = sample_card, pay_from = plain_account ''x'' 0, pay_amount = 250, pay_date = Some ''2024-03-05'', pay_note = None\<rparr>"

theorem statement_cycle_witness:
  "\<exists>a b. lastStatementDate 31 ''2024-03-05'' = Inr (clamped a 31) \<and> dueDateFor 15 (clamped a 31) = Inr (clamped b 15) \<and>
     clamped a 31 \<le> ''2024-03-05'' \<and> lastStatementDate 31 ''2024-03-05'' = Inr ''2024-02-29''"
proof -
  have "ledger_date ''2024-03-05''" "in_month_calendar (monthno ''2024-03-05'' - 1)" "in_month_calendar (monthno ''2024-03-05'' + 1)"
    "lastStatementDate 31 ''2024-03-05'' = Inr ''2024-02-29''" by code_simp+
  then show ?thesis using statement_cycle [of "''2024-03-05''" 31 15] by auto
qed

theorem payment_settles_witness:
  "\<exists>s. pay_summarise (led_db (snd (pay (\<lambda>_. 1000) (''p'', ''2024-03-06'', sample_payment) (new_ledger ''a'')))) sample_card ''2024-03-06'' =
     Inr (Some s) \<and> paidSince s = 250 \<and> remaining s = 650 \<and> currentBalance s = 650"
proof -
  let ?call = "pay (\<lambda>_. 1000) (''p'', ''2024-03-06'', sample_payment) (new_ledger ''a'')"
  have "\<not> isl (fst ?call)" by code_simp
  then obtain v where v: "?call = (Inr v, snd ?call)" by (metis prod.collapse sum.collapse(2))
  have before: "pay_summarise (led_db (new_ledger ''a'')) (pay_card sample_payment) ''2024-03-06'' =
      Inr (Some \<lparr>closedOn = ''2024-02-29'', dueOn = ''2024-03-15'', statementBalance = 900, paidSince = 0, remaining = 900, currentBalance = 900\<rparr>)"
    by code_simp
  have ok: "ledger_ok {} ''a'' (new_ledger ''a'')" using sample_devices by (simp add: new_ledger_ok)
  have "tget (tables (led_db (new_ledger ''a'')) Transactions) ''p'' = None" by code_simp
  moreover have "''2024-02-29'' < with_default ''2024-03-06'' (pay_date sample_payment)" "with_default ''2024-03-06'' (pay_date sample_payment) \<le> ''2024-03-06''"
    by code_simp+
  moreover have "pay_amount sample_payment = 250" "pay_card sample_payment = sample_card" by (simp_all add: sample_payment_def)
  ultimately show ?thesis using payment_settles [OF ok _ _ v before] plausible_small [of 1000] by simp
qed

end
