(* ===== verification/Categories_Service.thy ===== *)
theory Categories_Service
  imports Rates_Service Category_Tree
begin

text \<open>
  \<open>core/repositories/categories.service.ts\<close>. \<open>this.all()\<close> is a signal fed by a live query; an operation
  that reads it takes its value as an argument, and the properties assume that it shows the rows of
  the database. Random identifiers are drawn from the argument \<open>uuid\<close>.
\<close>

record StarterCategory =
  sc_name :: string
  sc_kind :: CategoryKind
  sc_icon :: string
  sc_colour :: string

definition STARTER_CATEGORIES :: "StarterCategory list" where
  "STARTER_CATEGORIES =
     [\<lparr>sc_name = ''Salary'', sc_kind = IncomeCategory, sc_icon = ''wallet-outline'', sc_colour = ''#2dd36f''\<rparr>,
      \<lparr>sc_name = ''Other income'', sc_kind = IncomeCategory, sc_icon = ''trending-up-outline'', sc_colour = ''#2dd36f''\<rparr>,
      \<lparr>sc_name = ''Groceries'', sc_kind = ExpenseCategory, sc_icon = ''basket-outline'', sc_colour = ''#ffc409''\<rparr>,
      \<lparr>sc_name = ''Eating out'', sc_kind = ExpenseCategory, sc_icon = ''restaurant-outline'', sc_colour = ''#ff6b35''\<rparr>,
      \<lparr>sc_name = ''Transport'', sc_kind = ExpenseCategory, sc_icon = ''bus-outline'', sc_colour = ''#3dc2ff''\<rparr>,
      \<lparr>sc_name = ''Housing'', sc_kind = ExpenseCategory, sc_icon = ''home-outline'', sc_colour = ''#5260ff''\<rparr>,
      \<lparr>sc_name = ''Utilities'', sc_kind = ExpenseCategory, sc_icon = ''flash-outline'', sc_colour = ''#3880ff''\<rparr>,
      \<lparr>sc_name = ''Health'', sc_kind = ExpenseCategory, sc_icon = ''medkit-outline'', sc_colour = ''#eb445a''\<rparr>,
      \<lparr>sc_name = ''Entertainment'', sc_kind = ExpenseCategory, sc_icon = ''film-outline'', sc_colour = ''#c04df9''\<rparr>,
      \<lparr>sc_name = ''Other'', sc_kind = ExpenseCategory, sc_icon = ''ellipsis-horizontal-outline'', sc_colour = ''#92949c''\<rparr>]"

section \<open>Queries\<close>

definition all_categories :: "docket_db \<Rightarrow> Category list" where
  "all_categories d = sort_key cat_name (category_rows d)"

definition active_categories :: "docket_db \<Rightarrow> Category list" where
  "active_categories d = filter (\<lambda>category. \<not> cat_archived category) (all_categories d)"

definition subcategoriesEnabled :: "docket_db \<Rightarrow> bool" where
  "subcategoriesEnabled d \<longleftrightarrow> Option.bind (get_settings d) set_subcategories \<noteq> Some False"

definition forKind :: "docket_db \<Rightarrow> CategoryKind \<Rightarrow> Category list" where
  "forKind d kind = filter (\<lambda>c. cat_kind c = kind) (active_categories d)"

definition category_tree :: "(string \<Rightarrow> string \<Rightarrow> int) \<Rightarrow> docket_db \<Rightarrow> CategoryKind \<Rightarrow> CategoryNode list" where
  "category_tree lc d kind = buildTree lc (active_categories d) (Some kind)"

definition category_parents :: "(string \<Rightarrow> string \<Rightarrow> int) \<Rightarrow> docket_db \<Rightarrow> CategoryKind \<Rightarrow> Category list" where
  "category_parents lc d kind =
     sort_by (compareCategories lc) (filter (\<lambda>c. cat_kind c = kind \<and> cat_parentId c = None) (active_categories d))"

definition childrenOf :: "(string \<Rightarrow> string \<Rightarrow> int) \<Rightarrow> docket_db \<Rightarrow> string \<Rightarrow> Category list" where
  "childrenOf lc d categoryId =
     sort_by (compareCategories lc) (filter (\<lambda>c. cat_parentId c = Some categoryId) (active_categories d))"

definition category_byId :: "Category list \<Rightarrow> string option \<Rightarrow> Category option" where
  "category_byId cats i = (if falsy i then None else List.find (\<lambda>c. Some (cat_id c) = i) cats)"

text \<open>The separator holds a character above 255 and is an argument.\<close>

definition pathOf :: "string \<Rightarrow> Category list \<Rightarrow> string option \<Rightarrow> string" where
  "pathOf separator cats i =
     (case category_byId cats i of
        None \<Rightarrow> []
      | Some category \<Rightarrow>
          (case category_byId cats (cat_parentId category) of
             Some parent \<Rightarrow> cat_name parent @ separator @ cat_name category
           | None \<Rightarrow> cat_name category))"

definition category_transactionCount :: "docket_db \<Rightarrow> Category list \<Rightarrow> string \<Rightarrow> nat" where
  "category_transactionCount d cats i =
     length (filter (\<lambda>t. case txn_categoryId t of None \<Rightarrow> False | Some c \<Rightarrow> c \<in> set (i # descendantIds i cats)) (transaction_rows d))"

section \<open>Changes\<close>

definition setSubcategoriesEnabled :: "(nat \<Rightarrow> nat) \<Rightarrow> bool \<Rightarrow> (ledger, unit) call" where
  "setSubcategoriesEnabled now enabled l =
     (let row = (case get_settings (led_db l) of
                   Some s \<Rightarrow> s\<lparr>set_id := ''vault'', set_subcategories := Some enabled, set_updatedAt := []\<rparr>
                 | None \<Rightarrow> \<lparr>set_id = ''vault'', set_reportingCurrency = DEFAULT_REPORTING_CURRENCY, set_subcategories = Some enabled,
                            set_createdAt = int (now 0), set_updatedAt = []\<rparr>)
      in andThen (put (now 1) VaultSettingsTable (VaultSettingsRow row)) (\<lambda>_. return ()) l)"

text \<open>Colour and icon have no default in \<open>save\<close>, and the import of a file gives none.\<close>

record CategoryDraft =
  cd_id :: string
  cd_name :: string
  cd_kind :: CategoryKind
  cd_colour :: "string option"
  cd_icon :: "string option"
  cd_parentId :: "string option"
  cd_archived :: "bool option"
  cd_createdAt :: "int option"

definition draft_category :: "int \<Rightarrow> CategoryDraft \<Rightarrow> Category" where
  "draft_category created draft =
     \<lparr>cat_id = cd_id draft, cat_name = cd_name draft, cat_kind = cd_kind draft, cat_parentId = cd_parentId draft,
      cat_colour = cd_colour draft, cat_icon = cd_icon draft, cat_archived = with_default False (cd_archived draft),
      cat_createdAt = with_default created (cd_createdAt draft), cat_updatedAt = []\<rparr>"

definition categories_save :: "(nat \<Rightarrow> nat) \<Rightarrow> CategoryDraft \<Rightarrow> (ledger, AnyEntity) call" where
  "categories_save now draft l = put (now 1) Categories (CategoryRow (draft_category (int (now 0)) draft)) l"

definition categories_remove :: "(nat \<Rightarrow> nat) \<Rightarrow> string \<times> Category list \<Rightarrow> (ledger, unit) call" where
  "categories_remove now arg =
     (let children = descendantIds (fst arg) (snd arg)
      in andThen (remove_all Categories (timed now 0 children)) (\<lambda>_. remove (now (length children)) Categories (fst arg)))"

text \<open>The draft of a starter category, and the row its save stores: the \<open>j\<close>-th save reads the clock at
  \<open>2 j\<close> and \<open>2 j + 1\<close>.\<close>

definition starter_draft :: "string \<Rightarrow> StarterCategory \<Rightarrow> CategoryDraft" where
  "starter_draft i starter = \<lparr>cd_id = i, cd_name = sc_name starter, cd_kind = sc_kind starter, cd_colour = Some (sc_colour starter),
     cd_icon = Some (sc_icon starter), cd_parentId = None, cd_archived = None, cd_createdAt = None\<rparr>"

definition starter_rows :: "(nat \<Rightarrow> nat) \<Rightarrow> (nat \<Rightarrow> string) \<Rightarrow> (nat \<times> AnyEntity) list" where
  "starter_rows now uuid = map (\<lambda>(j, starter). (now (2 * j + 1),
       CategoryRow (draft_category (int (now (2 * j))) (starter_draft (uuid j) starter)))) (enumerate 0 STARTER_CATEGORIES)"

definition categories_seedIfEmpty :: "(nat \<Rightarrow> nat) \<Rightarrow> (nat \<Rightarrow> string) \<Rightarrow> (ledger, unit) call" where
  "categories_seedIfEmpty now uuid l =
     (if length (tables (led_db l) Categories) > 0 then (Inr (), l) else put_all (starter_rows now uuid) l)"

section \<open>The contract\<close>

lemma settings_row: "get_settings d = Some s \<longleftrightarrow> tget (tables d VaultSettingsTable) ''vault'' = Some (VaultSettingsRow s)"
  by (auto simp: get_settings_def row_Some)

interpretation save_category: service categories_save "\<lambda>draft. {(Categories, cd_id draft)}"
  by unfold_locales (auto simp: categories_save_def draft_category_def intro!: writes_put)

interpretation set_subcategories: service setSubcategoriesEnabled "\<lambda>_. {(VaultSettingsTable, ''vault'')}"
proof
  fix now :: "nat \<Rightarrow> nat" and W dev l arg r l'
  assume now: "\<forall>j. plausible (now j)" and valid: "rows_valid l" and call: "setSubcategoriesEnabled now arg l = (r, l')"
  have "currency_code DEFAULT_REPORTING_CURRENCY" by code_simp
  then show "writes {(VaultSettingsTable, ''vault'')} l l'"
    using now call row_valid [OF valid, of VaultSettingsTable "''vault''"]
    by (auto simp: setSubcategoriesEnabled_def Let_def settings_row split: option.splits intro!: writes_put dest!: andThen_return)
qed

interpretation remove_category: service categories_remove
  "\<lambda>arg. (\<lambda>i. (Categories, i)) ` insert (fst arg) (set (descendantIds (fst arg) (snd arg)))"
proof
  fix now :: "nat \<Rightarrow> nat" and W dev l and arg :: "string \<times> Category list" and r l'
  let ?ids = "descendantIds (fst arg) (snd arg)" and ?K = "(\<lambda>i. (Categories, i)) ` insert (fst arg) (set (descendantIds (fst arg) (snd arg)))"
  assume now: "\<forall>j. plausible (now j)" and call: "categories_remove now arg l = (r, l')"
  have loop: "writes ?K l m" if "remove_all Categories (timed now 0 ?ids) l = (q, m)" for q m
    by (rule writes_remove_all [OF _ that]) (auto dest: timed_walls [OF now] timed_mem)
  from call have "andThen (remove_all Categories (timed now 0 ?ids)) (\<lambda>_. remove (now (length ?ids)) Categories (fst arg)) l = (r, l')"
    by (simp add: categories_remove_def Let_def)
  then show "writes ?K l l'"
  proof (cases rule: andThen_cases)
    case (2 a m)
    then show ?thesis using loop [OF 2(1)] writes_remove [OF 2(2), of ?K] now by simp
  qed (use loop in blast)
qed

interpretation seed_categories: service categories_seedIfEmpty "\<lambda>uuid. (\<lambda>j. (Categories, uuid j)) ` UNIV"
proof
  fix now :: "nat \<Rightarrow> nat" and W dev l and uuid :: "nat \<Rightarrow> string" and r l'
  assume now: "\<forall>j. plausible (now j)" and call: "categories_seedIfEmpty now uuid l = (r, l')"
  have "\<forall>(w, v) \<in> set (starter_rows now uuid). plausible w \<and> entity_valid v \<and> (entity_of v, entity_id v) \<in> range (\<lambda>j. (Categories, uuid j))"
    using now by (auto simp: starter_rows_def draft_category_def starter_draft_def)
  then show "writes (range (\<lambda>j. (Categories, uuid j))) l l'"
    using call writes_put_all by (auto simp: categories_seedIfEmpty_def split: if_splits)
qed

section \<open>Deleting a category\<close>

lemma descendantIds_rows:
  assumes "ledger_ok W dev l" and "set cats = set (category_rows (led_db l))"
  shows "c \<in> set (descendantIds i cats) \<longleftrightarrow> (\<exists>row. get_category (led_db l) c = Some row \<and> cat_parentId row = Some i)"
proof -
  have tab: "table_ok (tables (led_db l) Categories)" using ledger_okD(1) [OF assms(1)] by (simp add: db_ok_def)
  have "c \<in> set (descendantIds i cats) \<longleftrightarrow> (\<exists>row \<in> set (category_rows (led_db l)). cat_id row = c \<and> cat_parentId row = Some i)"
    using assms(2) by (auto simp: descendantIds_def)
  also have "\<dots> \<longleftrightarrow> (\<exists>row. get_category (led_db l) c = Some row \<and> cat_parentId row = Some i)"
    using row_table(2) [OF assms(1), of Categories] by (fastforce simp: rows_mem [OF tab] row_Some)
  finally show ?thesis .
qed

text \<open>Deleting a category takes its subcategories with it and nothing else. When the list the service
  reads is the stored one and the delete succeeds, a category is gone exactly when it is the one
  deleted or names it as its parent; every other row of every table, the transactions filed against
  the deleted ones included, is as it was.\<close>

theorem categories_remove_spec:
  assumes "ledger_ok W dev l" and "\<forall>j. plausible (now j)" and "set cats = set (category_rows (led_db l))"
    and "categories_remove now (i, cats) l = (Inr u, l')"
  shows "(\<forall>c. get_category (led_db l') c =
       (if c = i \<or> (\<exists>row. get_category (led_db l) c = Some row \<and> cat_parentId row = Some i) then None else get_category (led_db l) c)) \<and>
    (\<forall>e. e \<noteq> Categories \<longrightarrow> tables (led_db l') e = tables (led_db l) e)"
proof -
  let ?ids = "descendantIds i cats"
  obtain m where m: "remove_all Categories (timed now 0 ?ids) l = (Inr (), m)" "remove (now (length ?ids)) Categories i m = (Inr u, l')"
    using assms(4) by (auto simp: categories_remove_def Let_def andThen_def split: prod.splits sum.splits)
  from remove_all_effect [OF assms(1) timed_plausible [OF assms(2)] m(1)] obtain W' where W': "ledger_ok W' dev m"
    and get: "\<And>e j. tget (tables (led_db m) e) j = (if e = Categories \<and> j \<in> set ?ids then None else tget (tables (led_db l) e) j)" by auto
  from remove_effect [OF W' _ m(2)] assms(2) obtain W'' where W'': "ledger_ok W'' dev l'"
    and get': "\<And>e j. tget (tables (led_db l') e) j = (if e = Categories \<and> j = i then None else tget (tables (led_db m) e) j)" by blast
  have tab: "table_ok (tables (led_db l) e)" "table_ok (tables (led_db l') e)" for e
    using ledger_okD(1) [OF assms(1)] ledger_okD(1) [OF W''] by (simp_all add: db_ok_def)
  note child = descendantIds_rows [OF assms(1,3)]
  have "tables (led_db l') e = tables (led_db l) e" if "e \<noteq> Categories" for e
    by (rule table_eqI [OF tab(2) tab(1)]) (use get get' that in simp)
  then show ?thesis using get get' child by (auto simp: row_def)
qed

definition family_ledger :: ledger where
  "family_ledger = snd (put_all (timed (\<lambda>_. 1000) 0 (map CategoryRow sample_categories)) (new_ledger ''a''))"

lemma family_ledger_ok: "\<exists>W. ledger_ok W ''a'' family_ledger"
proof -
  have "fst (put_all (timed (\<lambda>_. 1000) 0 (map CategoryRow sample_categories)) (new_ledger ''a'')) = Inr ()" by code_simp
  then have "put_all (timed (\<lambda>_. 1000) 0 (map CategoryRow sample_categories)) (new_ledger ''a'') = (Inr (), family_ledger)"
    by (simp add: family_ledger_def prod_eq_iff)
  moreover have "ledger_ok {} ''a'' (new_ledger ''a'')" using sample_devices by (simp add: new_ledger_ok)
  moreover have "distinct (map (\<lambda>(w, v). (entity_of v, entity_id v)) (timed (\<lambda>_. 1000) 0 (map CategoryRow sample_categories)))"
    by (simp add: sample_categories_def sample_category_def)
  ultimately show ?thesis using put_all_effect [OF _ timed_plausible] plausible_small [of 1000] by fastforce
qed

theorem categories_remove_spec_witness:
  "\<exists>l'. categories_remove (\<lambda>_. 2000) (''a'', category_rows (led_db family_ledger)) family_ledger = (Inr (), l') \<and>
     get_category (led_db l') ''c'' = None \<and> get_category (led_db l') ''b'' \<noteq> None"
proof -
  have "fst (categories_remove (\<lambda>_. 2000) (''a'', category_rows (led_db family_ledger)) family_ledger) = Inr ()" by code_simp
  then obtain l' where l': "categories_remove (\<lambda>_. 2000) (''a'', category_rows (led_db family_ledger)) family_ledger = (Inr (), l')"
    by (metis prod.collapse)
  obtain W where ok: "ledger_ok W ''a'' family_ledger" using family_ledger_ok by blast
  have "map_option cat_parentId (get_category (led_db family_ledger) ''c'') = Some (Some ''a'')"
    "map_option cat_parentId (get_category (led_db family_ledger) ''b'') = Some None" by code_simp+
  then show ?thesis using categories_remove_spec [OF ok _ refl l'] plausible_small [of 2000] l' by auto
qed

end
