(* ===== verification/Budgets_Service.thy ===== *)
theory Budgets_Service
  imports Transactions_Service Budgets
begin

text \<open>
  \<open>core/repositories/budgets.service.ts\<close>: budgets with their progress. Working out a progress may throw
  and searches for a window, so a list of statuses is an optional result, as in \<open>Budgets\<close>.
\<close>

record BudgetStatus =
  bs_budget :: Budget
  bs_progress :: "BudgetProgress option"
  bs_stale :: "string list"

text \<open>\<open>xs.map(f)\<close> for an \<open>f\<close> that may throw or not return.\<close>

fun map_results :: "('a \<Rightarrow> 'b result option) \<Rightarrow> 'a list \<Rightarrow> 'b list result option" where
  "map_results f [] = Some (Inr [])"
| "map_results f (x # xs) =
     (case f x of
        None \<Rightarrow> None
      | Some (Inl e) \<Rightarrow> Some (Inl e)
      | Some (Inr y) \<Rightarrow> map_option (map_sum id ((#) y)) (map_results f xs))"

definition all_budgets :: "(string \<Rightarrow> string \<Rightarrow> int) \<Rightarrow> docket_db \<Rightarrow> Budget list" where
  "all_budgets lc d = sort_by (\<lambda>a b. lc (bud_name a) (bud_name b)) (budget_rows d)"

definition active_budgets :: "(string \<Rightarrow> string \<Rightarrow> int) \<Rightarrow> docket_db \<Rightarrow> Budget list" where
  "active_budgets lc d = filter (\<lambda>b. \<not> bud_archived b) (all_budgets lc d)"

definition status_of :: "docket_db \<Rightarrow> string \<Rightarrow> Budget \<Rightarrow> BudgetStatus result option" where
  "status_of d today budget =
     map_option (map_sum id (\<lambda>p. \<lparr>bs_budget = budget, bs_progress = p,
         bs_stale = staleCategoryIds budget (set (map cat_id (category_rows d)))\<rparr>))
       (progressFor budget (transaction_rows d) today (Some (withDescendants (bud_categoryIds budget) (category_rows d))))"

definition statuses :: "docket_db \<Rightarrow> string \<Rightarrow> BudgetStatus list result option" where
  "statuses d today = map_results (status_of d today) (filter (\<lambda>b. \<not> bud_archived b) (budget_rows d))"

definition share_of :: "BudgetStatus \<Rightarrow> number" where
  "share_of s = (case bs_progress s of Some p \<Rightarrow> prog_share p | None \<Rightarrow> Fin 0)"

definition byUrgency :: "BudgetStatus list \<Rightarrow> BudgetStatus list" where
  "byUrgency stats = sort_by (\<lambda>a b. larger_first (share_of a) (share_of b)) (filter (\<lambda>s. bs_progress s \<noteq> None) stats)"

definition overspent :: "BudgetStatus list \<Rightarrow> BudgetStatus list" where
  "overspent stats = filter (\<lambda>s. case bs_progress s of Some p \<Rightarrow> prog_over p | None \<Rightarrow> False) stats"

definition needingAttention :: "BudgetStatus list \<Rightarrow> BudgetStatus list" where
  "needingAttention stats = filter (\<lambda>s. length (bs_stale s) > 0) stats"

definition budget_byId :: "Budget list \<Rightarrow> string \<Rightarrow> Budget option" where
  "budget_byId budgets i = List.find (\<lambda>b. bud_id b = i) budgets"

section \<open>Changes\<close>

record BudgetDraft =
  bd_id :: string
  bd_name :: string
  bd_categoryIds :: "string list"
  bd_period :: BudgetPeriod
  bd_amount :: Minor
  bd_currency :: string
  bd_startDate :: string
  bd_rollover :: "bool option"
  bd_archived :: "bool option"
  bd_createdAt :: "int option"

definition draft_budget :: "int \<Rightarrow> BudgetDraft \<Rightarrow> Budget" where
  "draft_budget created draft =
     \<lparr>bud_id = bd_id draft, bud_name = bd_name draft, bud_categoryIds = unique (bd_categoryIds draft), bud_period = bd_period draft,
      bud_amount = bd_amount draft, bud_currency = bd_currency draft, bud_startDate = bd_startDate draft,
      bud_rollover = with_default False (bd_rollover draft), bud_archived = with_default False (bd_archived draft),
      bud_createdAt = with_default created (bd_createdAt draft), bud_updatedAt = []\<rparr>"

definition budgets_save :: "(nat \<Rightarrow> nat) \<Rightarrow> BudgetDraft \<Rightarrow> (ledger, AnyEntity) call" where
  "budgets_save now draft l =
     (let budget = draft_budget (int (now 0)) draft
      in case budget_assertValid budget of
           Inl e \<Rightarrow> (Inl e, l)
         | Inr _ \<Rightarrow> put (now 1) Budgets (BudgetRow budget) l)"

definition budgets_setArchived :: "(nat \<Rightarrow> nat) \<Rightarrow> string \<times> bool \<Rightarrow> (ledger, unit) call" where
  "budgets_setArchived now arg l =
     (case get_budget (led_db l) (fst arg) of
        None \<Rightarrow> (Inr (), l)
      | Some b \<Rightarrow> andThen (put (now 0) Budgets (BudgetRow (b\<lparr>bud_archived := snd arg\<rparr>))) (\<lambda>_. return ()) l)"

definition budgets_remove :: "(nat \<Rightarrow> nat) \<Rightarrow> string \<Rightarrow> (ledger, unit) call" where
  "budgets_remove now i = remove (now 0) Budgets i"

definition all_stale :: error where
  "all_stale = Error ''Every category this budget tracks has been deleted; edit or delete it''"

definition pruneStaleCategories :: "(nat \<Rightarrow> nat) \<Rightarrow> string \<Rightarrow> (ledger, AnyEntity option) call" where
  "pruneStaleCategories now i l =
     (case get_budget (led_db l) i of
        None \<Rightarrow> (Inr None, l)
      | Some budget \<Rightarrow>
          let known = set (map cat_id (category_rows (led_db l)));
              kept = filter (\<lambda>c. c \<in> known) (bud_categoryIds budget)
          in if length kept = length (bud_categoryIds budget) then (Inr (Some (BudgetRow budget)), l)
             else if length kept = 0 then (Inl all_stale, l)
             else andThen (put (now 0) Budgets (BudgetRow (budget\<lparr>bud_categoryIds := kept\<rparr>))) (\<lambda>v. return (Some v)) l)"

section \<open>The contract\<close>

lemma get_budget_row:
  assumes "ledger_ok W dev l" and "rows_valid l" and "get_budget (led_db l) i = Some b"
  shows "bud_id b = i" "budget_assertValid b = Inr ()"
  using row_table(2) [OF assms(1), of Budgets i "BudgetRow b"] row_valid [OF assms(2), of Budgets i "BudgetRow b"] assms(3)
  by (auto simp: row_Some)

lemma andThen_state: "andThen m (\<lambda>v. return (f v)) l = (r, l') \<Longrightarrow> \<exists>q. m l = (q, l')"
  by (auto simp: andThen_def return_def split: prod.splits sum.splits)

interpretation save_budget: service budgets_save "\<lambda>draft. {(Budgets, bd_id draft)}"
proof
  fix now :: "nat \<Rightarrow> nat" and W dev l arg r l'
  assume "\<forall>j. plausible (now j)" "budgets_save now arg l = (r, l')"
  then show "writes {(Budgets, bd_id arg)} l l'"
    by (auto simp: budgets_save_def Let_def draft_budget_def split: sum.splits intro: writes_put)
qed

interpretation archive_budget: service budgets_setArchived "\<lambda>arg. {(Budgets, fst arg)}"
proof
  fix now :: "nat \<Rightarrow> nat" and W dev l and arg :: "string \<times> bool" and r l'
  assume now: "\<forall>j. plausible (now j)" and ok: "ledger_ok W dev l" "rows_valid l" and call: "budgets_setArchived now arg l = (r, l')"
  show "writes {(Budgets, fst arg)} l l'"
  proof (cases "get_budget (led_db l) (fst arg)")
    case (Some b)
    have "budget_assertValid (b\<lparr>bud_archived := a\<rparr>) = Inr ()" for a
      using get_budget_row(2) [OF ok Some] by (simp add: budget_assertValid_def)
    then show ?thesis using call now Some get_budget_row(1) [OF ok Some]
      by (auto simp: budgets_setArchived_def intro!: writes_put dest!: andThen_return)
  qed (use call in \<open>simp add: budgets_setArchived_def\<close>)
qed

interpretation remove_budget: service budgets_remove "\<lambda>i. {(Budgets, i)}"
  by unfold_locales (auto simp: budgets_remove_def intro: writes_remove)

interpretation prune_budget: service pruneStaleCategories "\<lambda>i. {(Budgets, i)}"
proof
  fix now :: "nat \<Rightarrow> nat" and W dev l arg r l'
  assume now: "\<forall>j. plausible (now j)" and ok: "ledger_ok W dev l" "rows_valid l" and call: "pruneStaleCategories now arg l = (r, l')"
  show "writes {(Budgets, arg)} l l'"
  proof (cases "get_budget (led_db l) arg")
    case (Some b)
    have "kept \<noteq> [] \<Longrightarrow> budget_assertValid (b\<lparr>bud_categoryIds := kept\<rparr>) = Inr ()" for kept
      using get_budget_row(2) [OF ok Some] by (auto simp: budget_assertValid_def split: if_splits)
    then show ?thesis using call now Some get_budget_row(1) [OF ok Some]
      by (auto simp: pruneStaleCategories_def Let_def split: if_splits intro!: writes_put dest!: andThen_state)
  qed (use call in \<open>simp add: pruneStaleCategories_def\<close>)
qed

end
