(* ===== verification/Schedule.thy ===== *)
theory Schedule
  imports Anchored Ledger
begin

text \<open>
  When a recurring rule falls due (\<open>core/recurring/schedule.ts\<close>). An occurrence is measured from
  the start date; a run scans the occurrences in order, bounded by \<open>MAX_SCAN\<close>. A malformed start
  date throws, as the date functions do.
\<close>

definition MAX_OCCURRENCES_PER_RUN :: nat where "MAX_OCCURRENCES_PER_RUN = 500"

definition MAX_SCAN :: nat where "MAX_SCAN = 25000"

definition occurrenceAt :: "RecurringRule \<Rightarrow> int \<Rightarrow> string result" where
  "occurrenceAt schedule index =
     (let step = rule_interval schedule * index
      in case rule_unit schedule of
           Day \<Rightarrow> addDays (rule_startDate schedule) step
         | Week \<Rightarrow> addDays (rule_startDate schedule) (step * 7)
         | Month \<Rightarrow> addMonths (rule_startDate schedule) step
         | Year \<Rightarrow> addMonths (rule_startDate schedule) (step * 12))"

definition withinLimits :: "RecurringRule \<Rightarrow> int \<Rightarrow> string \<Rightarrow> bool" where
  "withinLimits schedule index date =
     (if (case rule_maxOccurrences schedule of None \<Rightarrow> False | Some m \<Rightarrow> index \<ge> m) then False
      else if (case rule_endDate schedule of None \<Rightarrow> False | Some e \<Rightarrow> date > e) then False
      else True)"

text \<open>The loop of \<open>occurrencesUpTo\<close>: \<open>n\<close> is the number of iterations left, \<open>dates\<close> what has been pushed.\<close>

fun occurrences_loop ::
  "RecurringRule \<Rightarrow> string \<Rightarrow> int \<Rightarrow> string option \<Rightarrow> nat \<Rightarrow> nat \<Rightarrow> string list \<Rightarrow> string list result" where
  "occurrences_loop schedule asOf limit after 0 index dates = Inr dates"
| "occurrences_loop schedule asOf limit after (Suc n) index dates =
     (case occurrenceAt schedule (int index) of
        Inl e \<Rightarrow> Inl e
      | Inr date \<Rightarrow>
          if date > asOf then Inr dates
          else if \<not> withinLimits schedule (int index) date then Inr dates
          else if (case after of None \<Rightarrow> False | Some a \<Rightarrow> date \<le> a)
          then occurrences_loop schedule asOf limit after n (Suc index) dates
          else if date \<in> set (rule_skipped schedule)
          then occurrences_loop schedule asOf limit after n (Suc index) dates
          else if int (length (dates @ [date])) \<ge> limit then Inr (dates @ [date])
          else occurrences_loop schedule asOf limit after n (Suc index) (dates @ [date]))"

definition occurrencesUpTo :: "RecurringRule \<Rightarrow> string \<Rightarrow> int \<Rightarrow> string option \<Rightarrow> string list result" where
  "occurrencesUpTo schedule asOf limit after =
     (if rule_interval schedule < 1 \<or> limit < 1 then Inr []
      else occurrences_loop schedule asOf limit after MAX_SCAN 0 [])"

fun next_loop :: "RecurringRule \<Rightarrow> string \<Rightarrow> nat \<Rightarrow> nat \<Rightarrow> string option result" where
  "next_loop schedule asOf 0 index = Inr None"
| "next_loop schedule asOf (Suc n) index =
     (case occurrenceAt schedule (int index) of
        Inl e \<Rightarrow> Inl e
      | Inr date \<Rightarrow>
          if \<not> withinLimits schedule (int index) date then Inr None
          else if date > asOf \<and> date \<notin> set (rule_skipped schedule) then Inr (Some date)
          else next_loop schedule asOf n (Suc index))"

definition nextOccurrence :: "RecurringRule \<Rightarrow> string \<Rightarrow> string option result" where
  "nextOccurrence schedule asOf =
     (if rule_interval schedule < 1 then Inr None else next_loop schedule asOf MAX_OCCURRENCES_PER_RUN 0)"

definition occurrenceId :: "string \<Rightarrow> string \<Rightarrow> string" where
  "occurrenceId ruleId date = ruleId @ '':'' @ date"

text \<open>The pattern \<open>^(.+):(\d{4}-\d{2}-\d{2})$\<close>: the date is the last ten characters, and the dot
  does not match a line terminator.\<close>

definition line_terminator :: "char \<Rightarrow> bool" where
  "line_terminator c \<longleftrightarrow> c = CHR 10 \<or> c = CHR 13"

definition parseOccurrenceId :: "string \<Rightarrow> (string \<times> string) option" where
  "parseOccurrenceId i =
     (let n = length i; d = drop (n - 10) i; r = take (n - 11) i
      in if n \<ge> 12 \<and> is_ymd d \<and> i ! (n - 11) = CHR '':'' \<and> list_all (\<lambda>c. \<not> line_terminator c) r
         then Some (r, d) else None)"

section \<open>The series of occurrences\<close>

definition occurrence :: "RecurringRule \<Rightarrow> int \<Rightarrow> string" where
  "occurrence s i = projr (occurrenceAt s i)"

text \<open>The rule has a proper start and interval and the occurrence stays inside the calendar.\<close>

definition occurrence_ok :: "RecurringRule \<Rightarrow> int \<Rightarrow> bool" where
  "occurrence_ok s i \<longleftrightarrow>
     ledger_date (rule_startDate s) \<and> rule_interval s \<ge> 1 \<and>
     (case rule_unit s of
        Day \<Rightarrow> in_calendar (dayno (rule_startDate s) + rule_interval s * i)
      | Week \<Rightarrow> in_calendar (dayno (rule_startDate s) + rule_interval s * i * 7)
      | Month \<Rightarrow> in_month_calendar (monthno (rule_startDate s) + rule_interval s * i)
      | Year \<Rightarrow> in_month_calendar (monthno (rule_startDate s) + rule_interval s * i * 12))"

lemma occurrenceAt_ok: "occurrence_ok s i \<Longrightarrow> occurrenceAt s i = Inr (occurrence s i)"
  by (cases "rule_unit s")
    (auto simp: occurrence_ok_def occurrence_def occurrenceAt_def intro: addDays_series(3) addMonths_series(3))

interpretation occ: anchored_series occurrence occurrence_ok
proof
  fix s i j
  assume i: "occurrence_ok s i"
  then show "ledger_date (occurrence s i)"
    by (cases "rule_unit s")
      (simp_all add: occurrence_ok_def occurrence_def occurrenceAt_def addDays_series(1) addMonths_series(1))
  assume j: "occurrence_ok s j" and "i < j"
  then have "rule_interval s * i < rule_interval s * j" using i by (simp add: occurrence_ok_def)
  with i j show "occurrence s i < occurrence s j"
    by (cases "rule_unit s")
      (simp_all add: occurrence_ok_def occurrence_def occurrenceAt_def addDays_less addMonths_less)
qed

section \<open>What the scan returns\<close>

text \<open>An index is due when the loop pushes its date.\<close>

definition reached :: "RecurringRule \<Rightarrow> string \<Rightarrow> nat \<Rightarrow> bool" where
  "reached s asOf i \<longleftrightarrow> occurrence s (int i) \<le> asOf \<and> withinLimits s (int i) (occurrence s (int i))"

definition wanted :: "RecurringRule \<Rightarrow> string option \<Rightarrow> string \<Rightarrow> bool" where
  "wanted s after d \<longleftrightarrow> (\<forall>a. after = Some a \<longrightarrow> a < d) \<and> d \<notin> set (rule_skipped s)"

text \<open>The calendar reaches past \<open>asOf\<close>, or past the rule's own limits, within the scan.\<close>

definition horizon :: "RecurringRule \<Rightarrow> string \<Rightarrow> nat \<Rightarrow> bool" where
  "horizon s asOf N \<longleftrightarrow> N < MAX_SCAN \<and> (\<forall>i \<le> N. occurrence_ok s (int i)) \<and> \<not> reached s asOf N"

lemma loop_spec:
  assumes "\<And>i. i \<le> N \<Longrightarrow> occurrence_ok s (int i)" and "\<not> reached s asOf N" and "index \<le> N" and "N < index + n"
    and "int (length dates) < limit"
  shows "occurrences_loop s asOf limit after n index dates =
    Inr (take (nat limit) (dates @ filter (wanted s after) (map (\<lambda>i. occurrence s (int i)) (takeWhile (reached s asOf) [index..<N]))))"
  using assms(3-5)
proof (induction n arbitrary: index dates)
  case (Suc n)
  note at = occurrenceAt_ok [OF assms(1) [OF Suc.prems(1)]]
  have stop: "occurrences_loop s asOf limit after (Suc n) index dates = Inr dates" if "\<not> reached s asOf index"
    using that at by (auto simp: reached_def)
  show ?case
  proof (cases "reached s asOf index")
    case False
    then have "takeWhile (reached s asOf) [index..<N] = []" by (cases "index < N") (simp_all add: upt_conv_Cons)
    with stop [OF False] Suc.prems(3) show ?thesis by simp
  next
    case True
    then have less: "index < N" using assms(2) Suc.prems(1) by (metis le_neq_implies_less)
    let ?d = "occurrence s (int index)"
    have step: "occurrences_loop s asOf limit after (Suc n) index dates =
        (if wanted s after ?d then
           if int (length (dates @ [?d])) \<ge> limit then Inr (dates @ [?d])
           else occurrences_loop s asOf limit after n (Suc index) (dates @ [?d])
         else occurrences_loop s asOf limit after n (Suc index) dates)"
      using True at by (auto simp: reached_def wanted_def split: option.splits)
    have tw: "takeWhile (reached s asOf) [index..<N] = index # takeWhile (reached s asOf) [Suc index..<N]"
      using True less by (simp add: upt_conv_Cons)
    have one: "nat limit - length dates = Suc 0" if "int (length (dates @ [?d])) \<ge> limit"
      using that Suc.prems(3) by simp
    show ?thesis
      unfolding step tw using one Suc.IH [of "Suc index" dates] Suc.IH [of "Suc index" "dates @ [?d]"] Suc.prems less by auto
  qed
qed simp

text \<open>Inside the scan the dates are increasing and the limits only get tighter, so the prefix the
  loop walks is everything that is due.\<close>

lemma reached_mono:
  assumes "\<And>i. i \<le> N \<Longrightarrow> occurrence_ok s (int i)" and "i \<le> N" and "j \<le> i" and "reached s asOf i"
  shows "reached s asOf j"
proof -
  have le: "occurrence s (int j) \<le> occurrence s (int i)"
    using occ.at_le_iff [of s "int j" "int i"] assms(1-3) by simp
  then show ?thesis using assms(3,4)
    by (auto simp: reached_def withinLimits_def split: option.splits if_splits)
qed

lemma takeWhile_upt_filter:
  assumes "\<And>i j. i < N \<Longrightarrow> j \<le> i \<Longrightarrow> P i \<Longrightarrow> P j"
  shows "takeWhile P [0..<N] = filter P [0..<N]"
proof -
  have "filter P (dropWhile P [0..<N]) = []"
  proof (rule ccontr)
    assume "filter P (dropWhile P [0..<N]) \<noteq> []"
    then obtain y where y: "y \<in> set (dropWhile P [0..<N])" "P y" by (metis filter_False)
    then have ne: "dropWhile P [0..<N] \<noteq> []" by (metis empty_iff list.set(1))
    define x where "x = hd (dropWhile P [0..<N])"
    have "\<not> P x" using hd_dropWhile [OF ne] by (simp add: x_def)
    moreover have "sorted (dropWhile P [0..<N])" by (simp add: sorted_dropWhile)
    then have "x \<le> y" using y(1) ne by (cases "dropWhile P [0..<N]") (auto simp: x_def)
    moreover have "y < N" using y(1) set_dropWhileD by fastforce
    ultimately show False using assms y(2) by blast
  qed
  moreover have "filter P (takeWhile P [0..<N]) = takeWhile P [0..<N]" by (auto simp: filter_id_conv dest: set_takeWhileD)
  ultimately show ?thesis by (metis append.right_neutral filter_append takeWhile_dropWhile_id)
qed

lemma takeWhile_reached:
  assumes "\<And>i. i \<le> N \<Longrightarrow> occurrence_ok s (int i)"
  shows "takeWhile (reached s asOf) [0..<N] = filter (reached s asOf) [0..<N]"
  by (rule takeWhile_upt_filter) (meson assms less_imp_le reached_mono)

definition due_dates :: "RecurringRule \<Rightarrow> string \<Rightarrow> string option \<Rightarrow> nat \<Rightarrow> string list" where
  "due_dates s asOf after N = filter (wanted s after) (map (\<lambda>i. occurrence s (int i)) (filter (reached s asOf) [0..<N]))"

lemma occurrencesUpTo_eq:
  assumes "horizon s asOf N" and "1 \<le> limit"
  shows "occurrencesUpTo s asOf limit after = Inr (take (nat limit) (due_dates s asOf after N))"
proof -
  have ok: "occurrence_ok s (int i)" if "i \<le> N" for i using assms(1) that by (simp add: horizon_def)
  have "\<not> rule_interval s < 1" using ok [of 0] by (simp add: occurrence_ok_def)
  moreover have "occurrences_loop s asOf limit after MAX_SCAN 0 [] =
      Inr (take (nat limit) (filter (wanted s after) (map (\<lambda>i. occurrence s (int i)) (takeWhile (reached s asOf) [0..<N]))))"
    using loop_spec [OF ok, where index = 0 and n = MAX_SCAN and dates = "[]"] assms by (simp add: horizon_def)
  ultimately show ?thesis using assms(2) takeWhile_reached [OF ok] by (simp add: occurrencesUpTo_def due_dates_def)
qed

lemma due_dates_sorted:
  assumes "\<And>i. i \<le> N \<Longrightarrow> occurrence_ok s (int i)"
  shows "sorted_wrt (<) (due_dates s asOf after N)"
proof -
  have "sorted_wrt (<) (map (\<lambda>i. occurrence s (int i)) [0..<N])" using occ.scan_sorted [of N s] assms by simp
  then show ?thesis unfolding due_dates_def by (simp add: sorted_wrt_map sorted_wrt_filter)
qed

lemma due_dates_mem:
  "d \<in> set (due_dates s asOf after N) \<longleftrightarrow> (\<exists>i < N. d = occurrence s (int i) \<and> reached s asOf i \<and> wanted s after d)"
  by (auto simp: due_dates_def)

section \<open>The next occurrence\<close>

lemma next_loop_spec:
  assumes "\<And>i. i < index + n \<Longrightarrow> occurrence_ok s (int i)"
  shows "next_loop s asOf n index =
    Inr (find (\<lambda>d. d > asOf \<and> d \<notin> set (rule_skipped s))
      (map (\<lambda>i. occurrence s (int i)) (takeWhile (\<lambda>i. withinLimits s (int i) (occurrence s (int i))) [index..<index + n])))"
  using assms
proof (induction n arbitrary: index)
  case (Suc n)
  have at: "occurrenceAt s (int index) = Inr (occurrence s (int index))" using Suc.prems by (simp add: occurrenceAt_ok)
  have "[index..<index + Suc n] = index # [Suc index..<Suc index + n]" by (simp add: upt_conv_Cons)
  with at Suc.IH [of "Suc index"] Suc.prems show ?case by simp
qed simp

section \<open>Identifiers\<close>

lemma is_ymd_iso: "iso_bounds y m d \<Longrightarrow> is_ymd (iso y m d)"
  using parts_iso [of y m d] by (auto simp: parts_def split: if_splits)

lemma ledger_date_shape:
  assumes "ledger_date d"
  shows "length d = 10" "is_ymd d"
  using assms is_ymd_iso by (auto elim!: ledger_dateE simp: iso_def simp del: fixed.simps)

lemma parse_occurrence:
  assumes "r \<noteq> []" and "list_all (\<lambda>c. \<not> line_terminator c) r" and "ledger_date d"
  shows "parseOccurrenceId (occurrenceId r d) = Some (r, d)"
proof -
  have "length r + length d + 1 - 10 = length r + 1" using ledger_date_shape(1) [OF assms(3)] by simp
  then show ?thesis using assms ledger_date_shape [OF assms(3)]
    by (auto simp: parseOccurrenceId_def occurrenceId_def Let_def nth_append neq_Nil_conv)
qed

section \<open>Properties\<close>

definition falls_due :: "RecurringRule \<Rightarrow> string \<Rightarrow> string option \<Rightarrow> string \<Rightarrow> bool" where
  "falls_due s asOf after d \<longleftrightarrow>
     (\<exists>i. occurrence_ok s (int i) \<and> d = occurrence s (int i) \<and> reached s asOf i \<and> wanted s after d)"

lemma reached_below_horizon:
  assumes "horizon s asOf N" and "occurrence_ok s (int i)" and "reached s asOf i"
  shows "i < N"
proof (rule ccontr)
  assume "\<not> i < N"
  then have "occurrence s (int N) \<le> occurrence s (int i)"
    using occ.at_le_iff [of s "int N" "int i"] assms(1,2) by (simp add: horizon_def)
  then have "reached s asOf N" using assms(3) \<open>\<not> i < N\<close>
    by (auto simp: reached_def withinLimits_def split: option.splits if_splits)
  then show False using assms(1) by (simp add: horizon_def)
qed

text \<open>C29: what falls due. For a rule whose schedule passes \<open>asOf\<close> (or its own limits) inside the scan
  and the calendar, the result lists due dates in strictly increasing order, at most \<open>limit\<close> of
  them: each is an occurrence on or before \<open>asOf\<close>, within the rule's end and count, not skipped and
  after the resume point; and when the limit is not reached every such occurrence is there.\<close>

theorem occurrencesUpTo_spec:
  assumes "horizon s asOf N" and "1 \<le> limit"
  shows "\<exists>ds. occurrencesUpTo s asOf limit after = Inr ds \<and> sorted_wrt (<) ds \<and> int (length ds) \<le> limit \<and>
    (\<forall>d \<in> set ds. falls_due s asOf after d) \<and> (int (length ds) < limit \<longrightarrow> (\<forall>d. falls_due s asOf after d \<longrightarrow> d \<in> set ds))"
proof -
  let ?ds = "take (nat limit) (due_dates s asOf after N)"
  have ok: "occurrence_ok s (int i)" if "i \<le> N" for i using assms(1) that by (simp add: horizon_def)
  have all: "d \<in> set (due_dates s asOf after N) \<longleftrightarrow> falls_due s asOf after d" for d
    unfolding due_dates_mem falls_due_def using ok reached_below_horizon [OF assms(1)] by (metis less_imp_le)
  have "sorted_wrt (<) ?ds" using due_dates_sorted [OF ok] by (simp add: sorted_wrt_take)
  moreover have "\<forall>d \<in> set ?ds. falls_due s asOf after d" using all by (auto dest: in_set_takeD)
  moreover have "falls_due s asOf after d \<longrightarrow> d \<in> set ?ds" if "int (length ?ds) < limit" for d using that all by (simp add: min_def split: if_splits)
  ultimately show ?thesis using occurrencesUpTo_eq [OF assms(1,2)] assms(2) by (intro exI [of _ ?ds]) auto
qed

text \<open>Resuming. A run cut short by its limit and resumed after its last date gives, together, what
  one longer run gives: no occurrence is lost or repeated between runs.\<close>

theorem occurrencesUpTo_resume:
  assumes "horizon s asOf N" and "1 \<le> limit" and "1 \<le> extra"
    and "occurrencesUpTo s asOf limit after = Inr ds" and "int (length ds) = limit"
  shows "\<exists>ds'. occurrencesUpTo s asOf extra (Some (last ds)) = Inr ds' \<and>
    occurrencesUpTo s asOf (limit + extra) after = Inr (ds @ ds')"
proof -
  have ok: "occurrence_ok s (int i)" if "i \<le> N" for i using assms(1) that by (simp add: horizon_def)
  let ?all = "due_dates s asOf after N"
  have ds: "ds = take (nat limit) ?all" using occurrencesUpTo_eq [OF assms(1,2)] assms(4) by simp
  then have long: "nat limit \<le> length ?all" "ds \<noteq> []" using assms(2,5) by auto
  have "after = Some a \<Longrightarrow> a < last ds" for a
    using last_in_set [OF long(2)] set_take_subset [of "nat limit" ?all] ds by (auto simp: due_dates_mem wanted_def)
  then have "wanted s (Some (last ds)) d \<longleftrightarrow> wanted s after d \<and> last ds < d" for d
    by (cases after) (auto simp: wanted_def)
  then have resumed: "due_dates s asOf (Some (last ds)) N = filter (\<lambda>d. last ds < d) ?all"
    by (simp add: due_dates_def filter_filter conj_commute) (rule filter_cong; auto)
  have split: "?all = ds @ drop (nat limit) ?all" using ds by simp
  have srt: "sorted_wrt (<) (ds @ drop (nat limit) ?all)" using due_dates_sorted [OF ok] split by simp
  have "filter (\<lambda>d. last ds < d) (ds @ drop (nat limit) ?all) = drop (nat limit) ?all"
  proof -
    have "\<not> last ds < d" if "d \<in> set ds" for d
      using strict_sorted_le_last [of ds d] srt that by (auto simp: sorted_wrt_append)
    moreover have "last ds < d" if "d \<in> set (drop (nat limit) ?all)" for d
      using srt that last_in_set [OF long(2)] by (auto simp: sorted_wrt_append)
    ultimately show ?thesis by (simp add: filter_empty_conv filter_id_conv)
  qed
  then have "due_dates s asOf (Some (last ds)) N = drop (nat limit) ?all" using resumed split by simp
  moreover have "nat (limit + extra) = nat limit + nat extra" using assms(2,3) by simp
  ultimately show ?thesis
    using occurrencesUpTo_eq [OF assms(1,3), of "Some (last ds)"] occurrencesUpTo_eq [OF assms(1), of "limit + extra" after]
      assms(2,3) ds by (simp add: take_add)
qed

definition qualifies :: "RecurringRule \<Rightarrow> string \<Rightarrow> nat \<Rightarrow> bool" where
  "qualifies s asOf i \<longleftrightarrow> occurrence s (int i) > asOf \<and> occurrence s (int i) \<notin> set (rule_skipped s) \<and>
     withinLimits s (int i) (occurrence s (int i))"

text \<open>The next occurrence. When the first 500 occurrences lie inside the calendar, \<open>nextOccurrence\<close>
  gives the earliest one after \<open>asOf\<close> that is not skipped and within the rule's limits, and none only
  when none of the 500 qualifies.\<close>

theorem nextOccurrence_spec:
  assumes "\<forall>i < MAX_OCCURRENCES_PER_RUN. occurrence_ok s (int i)"
  shows "case nextOccurrence s asOf of
      Inl _ \<Rightarrow> False
    | Inr None \<Rightarrow> \<forall>i < MAX_OCCURRENCES_PER_RUN. \<not> qualifies s asOf i
    | Inr (Some d) \<Rightarrow> \<exists>i < MAX_OCCURRENCES_PER_RUN. qualifies s asOf i \<and> d = occurrence s (int i) \<and> (\<forall>j < i. \<not> qualifies s asOf j)"
proof -
  let ?N = MAX_OCCURRENCES_PER_RUN
  let ?lim = "\<lambda>i. withinLimits s (int i) (occurrence s (int i))"
  let ?new = "\<lambda>d. d > asOf \<and> d \<notin> set (rule_skipped s)"
  have occ: "occurrence_ok s (int i)" if "i < ?N" for i using assms(1) that by blast
  have lim: "?lim j" if "i < ?N" "j \<le> i" "?lim i" for i j
    using that occ.at_le_iff [of s "int j" "int i"] occ [of i] occ [of j]
    by (auto simp: withinLimits_def split: option.splits if_splits)
  have interval: "\<not> rule_interval s < 1"
    using occ [of 0] by (simp add: occurrence_ok_def MAX_OCCURRENCES_PER_RUN_def)
  have nx: "nextOccurrence s asOf = Inr (find ?new (map (\<lambda>i. occurrence s (int i)) (filter ?lim [0..<?N])))"
    using next_loop_spec [of 0 ?N s asOf] occ takeWhile_upt_filter [of ?N ?lim, OF lim] interval
    by (simp add: nextOccurrence_def)
  show ?thesis
  proof (cases "find ?new (map (\<lambda>i. occurrence s (int i)) (filter ?lim [0..<?N]))")
    case None
    then have "\<not> qualifies s asOf i" if "i < ?N" for i using that by (auto simp: qualifies_def find_None_iff)
    then show ?thesis using nx None by simp
  next
    case (Some d)
    then obtain k where k: "k < length (filter ?lim [0..<?N])" "?new d" "d = occurrence s (int (filter ?lim [0..<?N] ! k))"
      "\<forall>j < k. \<not> ?new (occurrence s (int (filter ?lim [0..<?N] ! j)))"
      by (auto simp: find_Some_iff)
    define i where "i = filter ?lim [0..<?N] ! k"
    have i: "i \<in> set (filter ?lim [0..<?N])" unfolding i_def using k(1) by (rule nth_mem)
    have "\<not> qualifies s asOf j" if "j < i" for j
    proof
      assume j: "qualifies s asOf j"
      have "j \<in> set (filter ?lim [0..<?N])" using j i that by (simp add: qualifies_def)
      then obtain m where m: "m < length (filter ?lim [0..<?N])" "filter ?lim [0..<?N] ! m = j" by (metis in_set_conv_nth)
      have "sorted (filter ?lim [0..<?N])" by (simp add: sorted_wrt_filter)
      then have "m < k" using m k(1) that unfolding i_def by (metis leI leD sorted_nth_mono)
      with k(4) m(2) j show False by (auto simp: qualifies_def)
    qed
    then show ?thesis using nx Some i k(2,3) by (auto simp: qualifies_def i_def [symmetric])
  qed
qed

text \<open>Identifiers of occurrences. The rule and the date are recovered from the identifier, so two
  devices give one occurrence the same identifier and different occurrences different ones.\<close>

theorem occurrenceId_round_trip:
  assumes "r \<noteq> []" and "list_all (\<lambda>c. \<not> line_terminator c) r" and "ledger_date d"
  shows "parseOccurrenceId (occurrenceId r d) = Some (r, d)"
  by (rule parse_occurrence [OF assms])

text \<open>The cap on the look-ahead. For a daily rule whose first 500 days all lie on or before \<open>asOf\<close>,
  \<open>nextOccurrence\<close> answers that the rule has finished although it has no end.\<close>

theorem nextOccurrence_capped:
  assumes "\<forall>i < MAX_OCCURRENCES_PER_RUN. occurrence_ok s (int i)"
    and "occurrence s (int MAX_OCCURRENCES_PER_RUN - 1) \<le> asOf"
  shows "nextOccurrence s asOf = Inr None"
proof -
  let ?N = MAX_OCCURRENCES_PER_RUN
  have occ: "occurrence_ok s (int i)" if "i < ?N" for i using assms(1) that by blast
  have top: "int ?N - 1 = int (?N - 1)" "?N - 1 < ?N" by (simp_all add: MAX_OCCURRENCES_PER_RUN_def)
  have "occurrence s (int i) \<le> asOf" if "i < ?N" for i
  proof -
    have "int i \<le> int (?N - 1)" using that by simp
    then have "occurrence s (int i) \<le> occurrence s (int (?N - 1))"
      using occ.at_le_iff [OF occ [OF that] occ [OF top(2)]] by simp
    then show ?thesis using assms(2) unfolding top(1) by (rule order_trans)
  qed
  then have "find (\<lambda>d. d > asOf \<and> d \<notin> set (rule_skipped s)) (map (\<lambda>i. occurrence s (int i)) (takeWhile P [0..<?N])) = None" for P
    by (force simp: find_None_iff not_less dest!: set_takeWhileD)
  then show ?thesis using next_loop_spec [of 0 ?N s asOf] occ by (simp add: nextOccurrence_def)
qed

section \<open>Witnesses\<close>

lemma horizon_code:
  "horizon s asOf N \<longleftrightarrow> N < MAX_SCAN \<and> list_all (\<lambda>i. occurrence_ok s (int i)) [0..<Suc N] \<and> \<not> reached s asOf N"
  by (auto simp: horizon_def list_all_iff less_Suc_eq_le)

definition sample_rule :: RecurringRule where
  "sample_rule =
     \<lparr>rule_id = ''rent'', rule_name = ''Rent'', rule_kind = Expense, rule_amount = 90000, rule_currency = ''EUR'',
      rule_accountId = ''a1'', rule_counterAccountId = None, rule_categoryId = None, rule_payee = [], rule_note = [],
      rule_tags = [], rule_interval = 1, rule_unit = Month, rule_startDate = ''2024-01-31'', rule_endDate = None,
      rule_maxOccurrences = None, rule_skipped = [''2024-02-29''], rule_archived = False, rule_createdAt = 0,
      rule_updatedAt = []\<rparr>"

lemma sample_horizon: "horizon sample_rule ''2024-04-30'' 4"
  unfolding horizon_code by code_simp

lemma sample_due: "occurrencesUpTo sample_rule ''2024-04-30'' 2 None = Inr [''2024-01-31'', ''2024-03-31'']"
  by code_simp

theorem occurrencesUpTo_spec_witness:
  "\<exists>ds. occurrencesUpTo sample_rule ''2024-04-30'' 10 None = Inr ds \<and> sorted_wrt (<) ds"
  using occurrencesUpTo_spec [OF sample_horizon, of 10 None] by auto

theorem occurrencesUpTo_resume_witness:
  "\<exists>ds'. occurrencesUpTo sample_rule ''2024-04-30'' 5 (Some ''2024-03-31'') = Inr ds' \<and>
     occurrencesUpTo sample_rule ''2024-04-30'' 7 None = Inr ([''2024-01-31'', ''2024-03-31''] @ ds')"
  using occurrencesUpTo_resume [OF sample_horizon _ _ sample_due, of 5] by simp

lemma monthly_ok: "i < MAX_OCCURRENCES_PER_RUN \<Longrightarrow> occurrence_ok sample_rule (int i)"
proof -
  assume "i < MAX_OCCURRENCES_PER_RUN"
  moreover have "ledger_date ''2024-01-31''" "monthno ''2024-01-31'' = 24288" by code_simp+
  ultimately show ?thesis
    by (simp add: occurrence_ok_def sample_rule_def in_month_calendar_def MAX_OCCURRENCES_PER_RUN_def)
qed

theorem nextOccurrence_spec_witness: "nextOccurrence sample_rule ''2024-02-15'' \<noteq> Inr None"
proof
  assume "nextOccurrence sample_rule ''2024-02-15'' = Inr None"
  then have "\<not> qualifies sample_rule ''2024-02-15'' 2"
    using nextOccurrence_spec [of sample_rule "''2024-02-15''"] monthly_ok by (simp add: MAX_OCCURRENCES_PER_RUN_def)
  moreover have "occurrence sample_rule 2 = ''2024-03-31''" "''2024-02-15'' < ''2024-03-31''"
    "''2024-03-31'' \<notin> set (rule_skipped sample_rule)" "withinLimits sample_rule 2 ''2024-03-31''" by code_simp+
  then have "qualifies sample_rule ''2024-02-15'' 2" by (simp add: qualifies_def)
  ultimately show False by blast
qed

theorem occurrenceId_round_trip_witness:
  "parseOccurrenceId (occurrenceId ''rent:b'' ''2024-03-01'') = Some (''rent:b'', ''2024-03-01'')"
proof -
  have "list_all (\<lambda>c. \<not> line_terminator c) ''rent:b''" "ledger_date ''2024-03-01''" by code_simp+
  with occurrenceId_round_trip [of "''rent:b''" "''2024-03-01''"] show ?thesis by simp
qed

theorem nextOccurrence_capped_witness: "nextOccurrence sample_rule ''2065-12-31'' = Inr None"
proof -
  have s: "ledger_date ''2024-01-31''" "monthno ''2024-01-31'' = 24288"
    "ledger_date ''2065-12-31''" "monthno ''2065-12-31'' = 24791" by code_simp+
  have "in_month_calendar (monthno ''2024-01-31'' + 499)" by (simp add: s(2) in_month_calendar_def)
  from monthno_less [OF addMonths_series(1) [OF s(1) this] s(3)] addMonths_series(2) [OF s(1) this]
  have "occurrence sample_rule 499 < ''2065-12-31''" using s(2,4) by (simp add: occurrence_def occurrenceAt_def sample_rule_def)
  then have "occurrence sample_rule (int MAX_OCCURRENCES_PER_RUN - 1) \<le> ''2065-12-31''"
    by (simp add: MAX_OCCURRENCES_PER_RUN_def)
  with nextOccurrence_capped [of sample_rule "''2065-12-31''"] monthly_ok show ?thesis by blast
qed

end
