(* ===== verification/Materialiser.thy ===== *)
theory Materialiser
  imports Schedule Repo Vault
begin

text \<open>
  Recurring rules turned into transactions (\<open>core/recurring/materialiser.service.ts\<close>). Every read of
  \<open>Date.now\<close> during a run is a value of \<open>now\<close>: the transaction created as number \<open>n\<close> reads it at
  \<open>2 n\<close> for its creation time and at \<open>2 n + 1\<close> for its stamp.
\<close>

record MaterialisationResult =
  mat_created :: nat
  mat_incomplete :: "string list"

definition toTransaction :: "int \<Rightarrow> RecurringRule \<Rightarrow> string \<Rightarrow> string \<Rightarrow> Transaction" where
  "toTransaction created rule i date =
     \<lparr>txn_id = i, txn_kind = rule_kind rule, txn_amount = rule_amount rule, txn_currency = rule_currency rule,
      txn_accountId = rule_accountId rule, txn_counterAccountId = rule_counterAccountId rule,
      txn_categoryId = rule_categoryId rule, txn_date = date,
      txn_payee = (if trim (rule_payee rule) \<noteq> [] then trim (rule_payee rule) else rule_name rule),
      txn_note = rule_note rule, txn_tags = rule_tags rule, txn_cleared = False,
      txn_rate = None, txn_rateDate = None, txn_createdAt = created, txn_updatedAt = []\<rparr>"

text \<open>The inner loop of \<open>run\<close>, over the due dates of one rule.\<close>

fun create_due :: "(nat \<Rightarrow> nat) \<Rightarrow> RecurringRule \<Rightarrow> string list \<Rightarrow> nat \<Rightarrow> (ledger, nat) call" where
  "create_due now rule [] created l = (Inr created, l)"
| "create_due now rule (date # dates) created l =
     (let i = occurrenceId (rule_id rule) date
      in if hasHistory (led_db l) Transactions i then create_due now rule dates created l
         else case put (now (2 * created + 1)) Transactions
                     (TransactionRow (toTransaction (int (now (2 * created))) rule i date)) l of
                (Inl e, l') \<Rightarrow> (Inl e, l')
              | (Inr _, l') \<Rightarrow> create_due now rule dates (created + 1) l')"

text \<open>Where a rule resumes: the date of the furthest occurrence the log knows.\<close>

definition resume_after :: "docket_db \<Rightarrow> RecurringRule \<Rightarrow> string option" where
  "resume_after d rule =
     (case latestEntityIdWithPrefix d Transactions (rule_id rule @ '':'') of
        None \<Rightarrow> None
      | Some furthest \<Rightarrow> if furthest = [] then None else map_option snd (parseOccurrenceId furthest))"

fun run_rules :: "(nat \<Rightarrow> nat) \<Rightarrow> string \<Rightarrow> int \<Rightarrow> RecurringRule list \<Rightarrow> MaterialisationResult \<Rightarrow>
    (ledger, MaterialisationResult) call" where
  "run_rules now asOf limit [] res l = (Inr res, l)"
| "run_rules now asOf limit (rule # rules) res l =
     (case occurrencesUpTo rule asOf limit (resume_after (led_db l) rule) of
        Inl e \<Rightarrow> (Inl e, l)
      | Inr due \<Rightarrow>
          let res' = (if int (length due) = limit then res\<lparr>mat_incomplete := mat_incomplete res @ [rule_id rule]\<rparr> else res)
          in case create_due now rule due (mat_created res') l of
               (Inl e, l') \<Rightarrow> (Inl e, l')
             | (Inr created, l') \<Rightarrow> run_rules now asOf limit rules (res'\<lparr>mat_created := created\<rparr>) l')"

definition run :: "(nat \<Rightarrow> nat) \<Rightarrow> string \<Rightarrow> int \<Rightarrow> (ledger, MaterialisationResult) call" where
  "run now asOf limit l =
     run_rules now asOf limit (filter (\<lambda>rule. \<not> rule_archived rule) (rule_rows (led_db l)))
       \<lparr>mat_created = 0, mat_incomplete = []\<rparr> l"

definition skip :: "nat \<Rightarrow> nat \<Rightarrow> string \<Rightarrow> string \<Rightarrow> (ledger, unit) call" where
  "skip wall wall' ruleId date l =
     (case get_rule (led_db l) ruleId of
        None \<Rightarrow> (Inr (), l)
      | Some rule \<Rightarrow>
          if date \<in> set (rule_skipped rule) then (Inr (), l)
          else
            case put wall RecurringRules (RecurringRuleRow (rule\<lparr>rule_skipped := sort (rule_skipped rule @ [date])\<rparr>)) l of
              (Inl e, l') \<Rightarrow> (Inl e, l')
            | (Inr _, l') \<Rightarrow>
                let i = occurrenceId ruleId date
                in if get_transaction (led_db l') i \<noteq> None then remove wall' Transactions i l' else (Inr (), l'))"

section \<open>What a run may change\<close>

text \<open>Everything a run keeps: the invariant for an extended history, every table but the transactions,
  and every transaction that has history; what it adds carries an identifier of \<open>ids\<close>.\<close>

definition run_keeps :: "string set \<Rightarrow> Operation set \<Rightarrow> string \<Rightarrow> ledger \<Rightarrow> ledger \<Rightarrow> bool" where
  "run_keeps ids W dev l l' \<longleftrightarrow>
     (\<exists>W'. W \<subseteq> W' \<and> ledger_ok W' dev l') \<and> logged (led_db l) \<subseteq> logged (led_db l') \<and>
     (\<forall>e. e \<noteq> Transactions \<longrightarrow> tables (led_db l') e = tables (led_db l) e) \<and>
     (\<forall>i. i \<notin> ids \<or> hasHistory (led_db l) Transactions i \<longrightarrow>
        tget (tables (led_db l') Transactions) i = tget (tables (led_db l) Transactions) i) \<and>
     (\<forall>op \<in> logged (led_db l') - logged (led_db l). entity op = Transactions \<and> entityId op \<in> ids)"

lemma hasHistory_logged:
  assumes "db_ok W d"
  shows "hasHistory d e i \<longleftrightarrow> (\<exists>op \<in> logged d. op_key op = (e, i))"
  using register_newest [OF db_okD(2) [OF assms], of "(e, i)"] hasHistory_register [OF assms, of e i]
  by (auto simp: newest_def split: option.splits)

lemma run_keeps_refl: "ledger_ok W dev l \<Longrightarrow> run_keeps ids W dev l l"
  by (auto simp: run_keeps_def)

lemma run_keeps_mono: "run_keeps ids W dev l l' \<Longrightarrow> ids \<subseteq> ids' \<Longrightarrow> run_keeps ids' W dev l l'"
  unfolding run_keeps_def by blast

lemma run_keepsE:
  assumes "run_keeps ids W dev l l'"
  obtains W' where "W \<subseteq> W'" "ledger_ok W' dev l'" "logged (led_db l) \<subseteq> logged (led_db l')"
  using assms by (auto simp: run_keeps_def)

lemma run_keeps_trans:
  assumes "ledger_ok W dev l" and "run_keeps ids W dev l m" and "\<And>W'. ledger_ok W' dev m \<Longrightarrow> run_keeps ids W' dev m n"
  shows "run_keeps ids W dev l n"
proof -
  from assms(2) obtain W' where W': "W \<subseteq> W'" "ledger_ok W' dev m" "logged (led_db l) \<subseteq> logged (led_db m)"
    by (rule run_keepsE)
  note mn = assms(3) [OF W'(2)]
  have hist: "hasHistory (led_db l) Transactions i \<Longrightarrow> hasHistory (led_db m) Transactions i" for i
    using hasHistory_logged [OF ledger_okD(1) [OF assms(1)]] hasHistory_logged [OF ledger_okD(1) [OF W'(2)]] W'(3) by blast
  from mn obtain W'' where W'': "W' \<subseteq> W''" "ledger_ok W'' dev n" "logged (led_db m) \<subseteq> logged (led_db n)"
    by (rule run_keepsE)
  have "tget (tables (led_db n) Transactions) i = tget (tables (led_db l) Transactions) i"
    if "i \<notin> ids \<or> hasHistory (led_db l) Transactions i" for i
    using that hist assms(2) mn unfolding run_keeps_def by metis
  moreover have "tables (led_db n) e = tables (led_db l) e" if "e \<noteq> Transactions" for e
    using that assms(2) mn unfolding run_keeps_def by metis
  moreover have "entity op = Transactions \<and> entityId op \<in> ids" if "op \<in> logged (led_db n) - logged (led_db l)" for op
    using that assms(2) mn unfolding run_keeps_def by (cases "op \<in> logged (led_db m)") blast+
  moreover have "W \<subseteq> W''" "logged (led_db l) \<subseteq> logged (led_db n)" using W'(1,3) W''(1,3) by blast+
  ultimately show ?thesis using W''(2) unfolding run_keeps_def by blast
qed

lemma put_transaction_keeps:
  assumes "ledger_ok W dev l" and "plausible wall" and "\<not> hasHistory (led_db l) Transactions (txn_id t)" and "txn_id t \<in> ids"
    and "put wall Transactions (TransactionRow t) l = (r, l')"
  shows "run_keeps ids W dev l l'" "\<forall>v. r = Inr v \<longrightarrow> hasHistory (led_db l') Transactions (txn_id t)"
proof -
  have "run_keeps ids W dev l l' \<and> (\<forall>v. r = Inr v \<longrightarrow> hasHistory (led_db l') Transactions (txn_id t))"
  proof (cases r)
    case (Inl err)
    then have "l' = l" using put_overflow [OF assms(1)] assms(5) by blast
    then show ?thesis using Inl run_keeps_refl [OF assms(1)] by simp
  next
    case (Inr v')
    with assms(5) have p: "put wall Transactions (TransactionRow t) l = (Inr v', l')" by simp
    have ent: "entity_of (TransactionRow t) = Transactions" by simp
    from put_write [OF assms(1,2) ent p] obtain lop clk' where w: "l' = logged_write clk' lop l"
      "ledger_ok (insert (remote_op lop) W) dev l'"
      "register (led_db l') = (register (led_db l))(op_key (remote_op lop) \<mapsto> remote_op lop)"
      "content (remote_op lop) = Some v'" "op_key (remote_op lop) = (Transactions, txn_id t)" "remote_op lop \<notin> W"
      by (metis entity_id.simps(4))
    note db = ledger_okD(1) [OF assms(1)] and db' = ledger_okD(1) [OF w(2)]
    note eff = logged_write_effect(1) [OF db ledger_okD(2) [OF w(2) insertI1], of clk']
    have lg: "logged (led_db l') = insert (remote_op lop) (logged (led_db l))"
    proof -
      have "db_ok (insert (remote_op lop) W) (led_db l)"
        using db db' by (auto simp: db_ok_def)
      moreover have "supersedes (remote_op lop) (led_db l)"
        using assms(3) hasHistory_register [OF db] w(5) by (simp add: supersedes_def)
      ultimately show ?thesis using write_ok(3) [of _ "led_db l" lop] w(1) by (simp add: logged_write_def)
    qed
    have tabs: "tables (led_db l') e = tables (led_db l) e" if "e \<noteq> Transactions" for e
      using eff w(1,5) that db_okD(7) [OF db] db_okD(7) [OF db'] by (intro table_eqI) auto
    have "tget (tables (led_db l') Transactions) i = tget (tables (led_db l) Transactions) i"
      if "i \<notin> ids \<or> hasHistory (led_db l) Transactions i" for i
      using eff w(1,5) assms(3,4) that by auto
    moreover have "hasHistory (led_db l') Transactions (txn_id t)"
      using hasHistory_register [OF db'] w(3,5) by simp
    ultimately show ?thesis using w(2,5) lg tabs assms(4) unfolding run_keeps_def by (auto simp: op_key_def)
  qed
  then show "run_keeps ids W dev l l'" "\<forall>v. r = Inr v \<longrightarrow> hasHistory (led_db l') Transactions (txn_id t)" by blast+
qed

lemma run_keeps_history:
  assumes "run_keeps ids W dev l l'" and "ledger_ok V dev l" and "hasHistory (led_db l) e i"
  shows "hasHistory (led_db l') e i"
proof -
  from assms(1) obtain W' where "ledger_ok W' dev l'" "logged (led_db l) \<subseteq> logged (led_db l')" by (rule run_keepsE)
  then show ?thesis
    using assms(3) hasHistory_logged [OF ledger_okD(1) [OF assms(2)]] hasHistory_logged [OF ledger_okD(1)] by blast
qed

lemma create_due_keeps:
  assumes "ledger_ok W dev l" and "\<And>j. plausible (now j)" and "create_due now rule ds n l = (r, l')"
  shows "run_keeps (occurrenceId (rule_id rule) ` set ds) W dev l l' \<and>
    (\<forall>c. r = Inr c \<longrightarrow> (\<forall>d \<in> set ds. hasHistory (led_db l') Transactions (occurrenceId (rule_id rule) d)))"
  using assms(1,3)
proof (induction ds arbitrary: n l W)
  case Nil
  then show ?case by (simp add: run_keeps_refl)
next
  case (Cons d ds)
  let ?i = "occurrenceId (rule_id rule) d" and ?ids = "occurrenceId (rule_id rule) ` set (d # ds)"
  have sub: "occurrenceId (rule_id rule) ` set ds \<subseteq> ?ids" by auto
  show ?case
  proof (cases "hasHistory (led_db l) Transactions ?i")
    case True
    with Cons.prems have c: "create_due now rule ds n l = (r, l')" by (simp add: Let_def)
    note IH = Cons.IH [OF Cons.prems(1) c]
    then show ?thesis using run_keeps_mono [OF _ sub] run_keeps_history [OF _ Cons.prems(1) True] by auto
  next
    case False
    let ?t = "toTransaction (int (now (2 * n))) rule ?i d"
    obtain q m where p: "put (now (2 * n + 1)) Transactions (TransactionRow ?t) l = (q, m)" by fastforce
    have tid: "txn_id ?t = ?i" by (simp add: toTransaction_def)
    have pk: "run_keeps ?ids W dev l m" "\<forall>v. q = Inr v \<longrightarrow> hasHistory (led_db m) Transactions ?i"
      using put_transaction_keeps [OF Cons.prems(1) assms(2), of ?t ?ids _ q m] p False unfolding tid by auto
    show ?thesis
    proof (cases q)
      case (Inl e)
      then show ?thesis using Cons.prems(2) p False pk(1) by (auto simp: Let_def)
    next
      case (Inr v)
      then have c: "create_due now rule ds (n + 1) m = (r, l')" using Cons.prems(2) p False by (simp add: Let_def)
      from pk(1) obtain W' where W': "ledger_ok W' dev m" by (rule run_keepsE)
      have "run_keeps ?ids V dev m l'" if "ledger_ok V dev m" for V
        using Cons.IH [OF that c] run_keeps_mono [OF _ sub] by blast
      from run_keeps_trans [OF Cons.prems(1) pk(1) this] have "run_keeps ?ids W dev l l'" .
      moreover have "hasHistory (led_db l') Transactions ?i"
        using run_keeps_history [OF _ W', of _ W' l'] Cons.IH [OF W' c] pk(2) Inr by blast
      ultimately show ?thesis using Cons.IH [OF W' c] by auto
    qed
  qed
qed

lemma create_due_known:
  "\<forall>d \<in> set ds. hasHistory (led_db l) Transactions (occurrenceId (rule_id rule) d) \<Longrightarrow> create_due now rule ds n l = (Inr n, l)"
  by (induction ds) (simp_all add: Let_def)

definition occurrence_ids :: "RecurringRule list \<Rightarrow> string set" where
  "occurrence_ids rules = {occurrenceId (rule_id rule) d |rule d. rule \<in> set rules}"

lemma run_rules_keeps:
  assumes "ledger_ok W dev l" and "\<And>j. plausible (now j)" and "run_rules now asOf limit rules res l = (r, l')"
  shows "run_keeps (occurrence_ids rules) W dev l l'"
  using assms(1,3)
proof (induction rules arbitrary: res l W)
  case Nil
  then show ?case by (simp add: run_keeps_refl)
next
  case (Cons rule rules)
  have sub: "occurrence_ids rules \<subseteq> occurrence_ids (rule # rules)"
    "occurrenceId (rule_id rule) ` X \<subseteq> occurrence_ids (rule # rules)" for X by (auto simp: occurrence_ids_def)
  show ?case
  proof (cases "occurrencesUpTo rule asOf limit (resume_after (led_db l) rule)")
    case (Inl e)
    then show ?thesis using Cons.prems by (simp add: run_keeps_refl)
  next
    case (Inr due)
    define res' where "res' = (if int (length due) = limit then res\<lparr>mat_incomplete := mat_incomplete res @ [rule_id rule]\<rparr> else res)"
    obtain q m where c: "create_due now rule due (mat_created res') l = (q, m)" by fastforce
    have keep: "run_keeps (occurrence_ids (rule # rules)) W dev l m"
      using create_due_keeps [OF Cons.prems(1) assms(2) c] run_keeps_mono [OF _ sub(2)] by blast
    show ?thesis
    proof (cases q)
      case Inl
      then show ?thesis using Cons.prems(2) Inr c keep by (auto simp: res'_def [symmetric] Let_def)
    next
      case (Inr n)
      then have "run_rules now asOf limit rules (res'\<lparr>mat_created := n\<rparr>) m = (r, l')"
        using Cons.prems(2) \<open>occurrencesUpTo _ _ _ _ = Inr due\<close> c by (simp add: res'_def [symmetric] Let_def)
      then have "run_keeps (occurrence_ids (rule # rules)) V dev m l'" if "ledger_ok V dev m" for V
        using Cons.IH [OF that] run_keeps_mono [OF _ sub(1)] by blast
      from run_keeps_trans [OF Cons.prems(1) keep this] show ?thesis .
    qed
  qed
qed

section \<open>Resuming\<close>

lemma prefix_le: "(p :: 'a :: linorder list) \<le> p @ t"
  by (induction p) (auto simp: less_imp_le)

lemma prefix_range: "prefix \<le> i \<and> below_prefix_bound prefix i \<longleftrightarrow> startsWith prefix i"
  using prefix_le by (auto simp: below_prefix_bound_def startsWith_iff)

lemma fold_greater_id: "fold greater_id xs None = (if xs = [] then None else Some (Max (set xs)))"
proof -
  have "fold greater_id ys (Some m) = Some (fold max ys m)" for ys m
    by (induction ys arbitrary: m) (auto simp: greater_id_def max_def)
  then show ?thesis by (cases xs) (simp_all add: greater_id_def flip: Max.set_eq_fold)
qed

lemma latestEntityIdWithPrefix_Max:
  "latestEntityIdWithPrefix d e prefix =
     (let S = {entityId op |op. op \<in> logged d \<and> entity op = e \<and> startsWith prefix (entityId op)}
      in if S = {} then None else Some (Max S))"
proof -
  let ?xs = "map snd (filter (\<lambda>(e', i). e' = e \<and> prefix \<le> i \<and> below_prefix_bound prefix i) (index_keys d))"
  have run: "latestEntityIdWithPrefix d e prefix = fold greater_id ?xs None"
    by (simp add: latestEntityIdWithPrefix_def fold_map comp_def)
  have ids: "set ?xs = {entityId op |op. op \<in> logged d \<and> entity op = e \<and> startsWith prefix (entityId op)}"
    using prefix_range [of prefix] by (force simp: index_keys_def logged_def image_iff)
  show ?thesis unfolding run fold_greater_id Let_def ids [symmetric] by (simp only: set_empty)
qed

text \<open>The identifiers under a rule's prefix are those of its occurrences.\<close>

definition rule_ids_ok :: "docket_db \<Rightarrow> RecurringRule \<Rightarrow> bool" where
  "rule_ids_ok d rule \<longleftrightarrow>
     rule_id rule \<noteq> [] \<and> CHR '':'' \<notin> set (rule_id rule) \<and> list_all (\<lambda>c. \<not> line_terminator c) (rule_id rule) \<and>
     (\<forall>op \<in> logged d. entity op = Transactions \<and> startsWith (rule_id rule @ '':'') (entityId op) \<longrightarrow>
        (\<exists>dt. ledger_date dt \<and> entityId op = occurrenceId (rule_id rule) dt))"

lemma finite_logged: "finite (logged d)"
  by (simp add: logged_def)

lemma resume_after_mono:
  assumes "rule_ids_ok d' rule" and "logged d \<subseteq> logged d'" and "resume_after d rule = Some a"
  shows "\<exists>a'. resume_after d' rule = Some a' \<and> a \<le> a'"
proof -
  let ?S = "\<lambda>d. {entityId op |op. op \<in> logged d \<and> entity op = Transactions \<and> startsWith (rule_id rule @ '':'') (entityId op)}"
  have fin: "finite (?S d)" for d using finite_logged [of d] by simp
  have sub: "?S d \<subseteq> ?S d'" using assms(2) by blast
  have shape: "\<exists>dt. ledger_date dt \<and> i = occurrenceId (rule_id rule) dt" if "i \<in> ?S d'" for i
    using assms(1) that by (auto simp: rule_ids_ok_def)
  have parse: "parseOccurrenceId (occurrenceId (rule_id rule) dt) = Some (rule_id rule, dt)" if "ledger_date dt" for dt
    using parse_occurrence assms(1) that by (simp add: rule_ids_ok_def)
  have ne: "?S d \<noteq> {}" using assms(3) by (auto simp: resume_after_def latestEntityIdWithPrefix_Max Let_def split: if_splits)
  then have "Max (?S d) \<in> ?S d" "Max (?S d') \<in> ?S d'" "?S d' \<noteq> {}" using fin sub Max_in by blast+
  then obtain dt dt' where dt: "ledger_date dt" "Max (?S d) = occurrenceId (rule_id rule) dt"
    "ledger_date dt'" "Max (?S d') = occurrenceId (rule_id rule) dt'" using shape sub by (metis (no_types, lifting) subsetD)
  have "Max (?S d) \<le> Max (?S d')" using Max_mono [OF sub ne fin] .
  then have "dt \<le> dt'" unfolding dt(2,4) occurrenceId_def
    using append_less_append_iff [of "rule_id rule @ '':''" dt' dt] by (simp add: not_less [symmetric])
  moreover have "resume_after d rule = Some dt" "resume_after d' rule = Some dt'"
    using dt parse ne \<open>?S d' \<noteq> {}\<close> by (simp_all add: resume_after_def latestEntityIdWithPrefix_Max Let_def occurrenceId_def)
  ultimately show ?thesis using assms(3) by simp
qed

text \<open>A rule resumed later has nothing due that was not due before.\<close>

lemma due_later:
  assumes "horizon rule asOf N" and "1 \<le> limit"
    and "occurrencesUpTo rule asOf limit after = Inr due" and "int (length due) \<noteq> limit"
    and "\<And>a. after = Some a \<Longrightarrow> \<exists>a'. after' = Some a' \<and> a \<le> a'"
  shows "\<exists>due'. occurrencesUpTo rule asOf limit after' = Inr due' \<and> set due' \<subseteq> set due \<and> int (length due') \<noteq> limit"
proof -
  have eq: "occurrencesUpTo rule asOf limit x = Inr (take (nat limit) (due_dates rule asOf x N))" for x
    by (rule occurrencesUpTo_eq [OF assms(1,2)])
  have len: "length (due_dates rule asOf after N) < nat limit" using assms(2,3,4) eq [of after] by (auto simp: min_def split: if_splits)
  then have due: "due = due_dates rule asOf after N" using assms(3) eq [of after] by simp
  have "wanted rule after' d \<Longrightarrow> wanted rule after d" for d
    using assms(5) by (cases after) (fastforce simp: wanted_def)+
  then have "due_dates rule asOf after' N = filter (wanted rule after') (due_dates rule asOf after N)"
    by (auto simp: due_dates_def filter_filter intro!: filter_cong)
  then have "set (due_dates rule asOf after' N) \<subseteq> set due" "length (due_dates rule asOf after' N) < nat limit"
    using due len length_filter_le le_less_trans by (auto, blast)
  then show ?thesis using eq [of after'] assms(2) by auto
qed

text \<open>After a complete run every rule has been brought up to date from where it stood.\<close>

definition caught_up :: "string \<Rightarrow> int \<Rightarrow> docket_db \<Rightarrow> RecurringRule \<Rightarrow> bool" where
  "caught_up asOf limit d rule \<longleftrightarrow>
     (\<exists>m due. logged m \<subseteq> logged d \<and> occurrencesUpTo rule asOf limit (resume_after m rule) = Inr due \<and>
        int (length due) \<noteq> limit \<and> (\<forall>x \<in> set due. hasHistory d Transactions (occurrenceId (rule_id rule) x)))"

lemma run_rules_incomplete:
  "run_rules now asOf limit rules res l = (Inr res', l') \<Longrightarrow> \<exists>xs. mat_incomplete res' = mat_incomplete res @ xs"
  by (induction rules arbitrary: res l) (fastforce simp: Let_def split: sum.splits prod.splits if_splits)+

lemma run_rules_caught_up:
  assumes "ledger_ok W dev l" and "\<And>j. plausible (now j)" and "run_rules now asOf limit rules res l = (Inr res', l')"
    and "mat_incomplete res' = mat_incomplete res"
  shows "\<forall>rule \<in> set rules. caught_up asOf limit (led_db l') rule"
  using assms(1,3,4)
proof (induction rules arbitrary: res l W)
  case (Cons rule rules)
  obtain due where due: "occurrencesUpTo rule asOf limit (resume_after (led_db l) rule) = Inr due"
    using Cons.prems(2) by (auto split: sum.splits)
  define mid where "mid = (if int (length due) = limit then res\<lparr>mat_incomplete := mat_incomplete res @ [rule_id rule]\<rparr> else res)"
  obtain n m where c: "create_due now rule due (mat_created mid) l = (Inr n, m)"
    and rest: "run_rules now asOf limit rules (mid\<lparr>mat_created := n\<rparr>) m = (Inr res', l')"
    using Cons.prems(2) due by (auto simp: mid_def [symmetric] Let_def split: sum.splits prod.splits)
  have full: "int (length due) \<noteq> limit" and mid: "mid = res"
    using run_rules_incomplete [OF rest] Cons.prems(3) by (auto simp: mid_def split: if_splits)
  note keep = create_due_keeps [OF Cons.prems(1) assms(2) c]
  from keep have "run_keeps (occurrenceId (rule_id rule) ` set due) W dev l m" by blast
  then obtain W' where W': "ledger_ok W' dev m" "logged (led_db l) \<subseteq> logged (led_db m)" by (rule run_keepsE)
  note keep' = run_rules_keeps [OF W'(1) assms(2) rest]
  have "caught_up asOf limit (led_db l') rule"
    unfolding caught_up_def using due full keep run_keeps_history [OF keep' W'(1)] W'(2) keep'
    by (intro exI [of _ "led_db l"] exI [of _ due]) (auto simp: run_keeps_def)
  moreover have "\<forall>rule \<in> set rules. caught_up asOf limit (led_db l') rule"
    by (rule Cons.IH [OF W'(1) rest]) (use Cons.prems(3) mid in simp)
  ultimately show ?case by simp
qed simp

lemma run_rules_nothing:
  assumes "1 \<le> limit" and "\<And>rule. rule \<in> set rules \<Longrightarrow> caught_up asOf limit (led_db l) rule"
    and "\<And>rule. rule \<in> set rules \<Longrightarrow> rule_ids_ok (led_db l) rule" and "\<And>rule. rule \<in> set rules \<Longrightarrow> \<exists>N. horizon rule asOf N"
  shows "run_rules now asOf limit rules res l = (Inr res, l)"
  using assms(2-4)
proof (induction rules arbitrary: res)
  case (Cons rule rules)
  obtain m due where m: "logged m \<subseteq> logged (led_db l)" "occurrencesUpTo rule asOf limit (resume_after m rule) = Inr due"
    "int (length due) \<noteq> limit" "\<forall>x \<in> set due. hasHistory (led_db l) Transactions (occurrenceId (rule_id rule) x)"
    using Cons.prems(1) [of rule] by (auto simp: caught_up_def)
  obtain N where N: "horizon rule asOf N" using Cons.prems(3) [of rule] by auto
  have later: "\<exists>a'. resume_after (led_db l) rule = Some a' \<and> a \<le> a'" if "resume_after m rule = Some a" for a
    by (rule resume_after_mono [OF _ m(1) that]) (use Cons.prems(2) in simp)
  from due_later [OF N assms(1) m(2,3) later]
  obtain due' where due': "occurrencesUpTo rule asOf limit (resume_after (led_db l) rule) = Inr due'"
    "set due' \<subseteq> set due" "int (length due') \<noteq> limit" by blast
  have "create_due now rule due' n l = (Inr n, l)" for n using create_due_known m(4) due'(2) by blast
  then show ?case using due'(1,3) Cons.IH [of res] Cons.prems by (simp add: Let_def)
qed simp

section \<open>Properties\<close>


text \<open>C28: a run is idempotent. After a run that was not cut short by its limit, running again on the same
  day (at any time, here with any other clock readings) creates nothing and leaves the ledger exactly
  as it is. The rules' schedules stay inside the calendar and no other identifier starts with a
  rule's prefix.\<close>

theorem materialise_idempotent:
  assumes "ledger_ok W dev l" and "\<forall>j. plausible (now j)" and "1 \<le> limit"
    and "run now asOf limit l = (Inr res, l')" and "mat_incomplete res = []"
    and "\<forall>rule \<in> set (rule_rows (led_db l)). \<not> rule_archived rule \<longrightarrow>
      rule_ids_ok (led_db l') rule \<and> (\<exists>N. horizon rule asOf N)"
  shows "run now' asOf limit l' = (Inr \<lparr>mat_created = 0, mat_incomplete = []\<rparr>, l')"
proof -
  let ?rules = "filter (\<lambda>rule. \<not> rule_archived rule) (rule_rows (led_db l))"
  have first: "run_rules now asOf limit ?rules \<lparr>mat_created = 0, mat_incomplete = []\<rparr> l = (Inr res, l')"
    using assms(4) by (simp add: run_def)
  have "run_keeps (occurrence_ids ?rules) W dev l l'" using run_rules_keeps [OF assms(1) _ first] assms(2) by blast
  then have "rule_rows (led_db l') = rule_rows (led_db l)" by (intro rows_cong) (simp add: run_keeps_def)
  moreover have "\<forall>rule \<in> set ?rules. caught_up asOf limit (led_db l') rule"
    using run_rules_caught_up [OF assms(1) _ first] assms(2,5) by simp
  moreover have "run_rules now' asOf limit ?rules \<lparr>mat_created = 0, mat_incomplete = []\<rparr> l' =
      (Inr \<lparr>mat_created = 0, mat_incomplete = []\<rparr>, l')"
    by (rule run_rules_nothing) (use assms(3,6) calculation(2) in auto)
  ultimately show ?thesis unfolding run_def by simp
qed

section \<open>Witnesses\<close>

text \<open>A ledger with one monthly rule, and its run at the end of February.\<close>

definition rule_ledger :: ledger where
  "rule_ledger = snd (put 1000 RecurringRules (RecurringRuleRow sample_rule) (new_ledger ''a''))"

lemma rule_ledger_ok: "\<exists>W. ledger_ok W ''a'' rule_ledger"
proof -
  have ok: "ledger_ok {} ''a'' (new_ledger ''a'')" using sample_devices by (simp add: new_ledger_ok)
  have "fst (put 1000 RecurringRules (RecurringRuleRow sample_rule) (new_ledger ''a'')) =
      Inr (with_updatedAt ''0000000000000001000-0000-a'' (RecurringRuleRow sample_rule))" by code_simp
  then have "put 1000 RecurringRules (RecurringRuleRow sample_rule) (new_ledger ''a'') =
      (Inr (with_updatedAt ''0000000000000001000-0000-a'' (RecurringRuleRow sample_rule)), rule_ledger)"
    unfolding rule_ledger_def by (metis prod.collapse)
  note put = this
  have "plausible 1000" "entity_of (RecurringRuleRow sample_rule) = RecurringRules" by (simp_all add: plausible_small)
  then show ?thesis by (rule put_write [OF ok _ _ put]) blast
qed


definition stored_rule :: RecurringRule where
  "stored_rule = sample_rule\<lparr>rule_updatedAt := ''0000000000000001000-0000-a''\<rparr>"

definition run_ledger :: ledger where
  "run_ledger = snd (run (\<lambda>_. 2000) ''2024-02-15'' 10 rule_ledger)"

lemma rule_ledger_rows: "rule_rows (led_db rule_ledger) = [stored_rule]"
  by code_simp

lemma run_ledger_run:
  "run (\<lambda>_. 2000) ''2024-02-15'' 10 rule_ledger = (Inr \<lparr>mat_created = 1, mat_incomplete = []\<rparr>, run_ledger)"
proof -
  have "fst (run (\<lambda>_. 2000) ''2024-02-15'' 10 rule_ledger) = Inr \<lparr>mat_created = 1, mat_incomplete = []\<rparr>" by code_simp
  then show ?thesis unfolding run_ledger_def by (metis prod.collapse)
qed

lemma run_ledger_ids: "map (\<lambda>lop. (entity lop, entityId lop)) (toArray (oplog (led_db run_ledger))) =
    [(RecurringRules, ''rent''), (Transactions, ''rent:2024-01-31'')]"
  by code_simp

lemma stored_rule_ids: "rule_ids_ok (led_db run_ledger) stored_rule"
proof -
  have "entityId op = occurrenceId ''rent'' ''2024-01-31''" if "op \<in> logged (led_db run_ledger)" "entity op = Transactions" for op
  proof -
    have "(entity op, entityId op) \<in> set (map (\<lambda>lop. (entity lop, entityId lop)) (toArray (oplog (led_db run_ledger))))"
      using that(1) by (force simp: logged_def toArray_def)
    then show ?thesis using that(2) unfolding run_ledger_ids by (auto simp: occurrenceId_def)
  qed
  moreover have "ledger_date ''2024-01-31''" "list_all (\<lambda>c. \<not> line_terminator c) ''rent''" by code_simp+
  moreover have "rule_id stored_rule = ''rent''" by (simp add: stored_rule_def sample_rule_def)
  ultimately show ?thesis by (auto simp: rule_ids_ok_def)
qed

lemma stored_rule_horizon: "horizon stored_rule ''2024-02-15'' 1"
  unfolding horizon_code by code_simp

theorem materialise_idempotent_witness:
  "run (\<lambda>_. 3000) ''2024-02-15'' 10 run_ledger = (Inr \<lparr>mat_created = 0, mat_incomplete = []\<rparr>, run_ledger)"
proof -
  obtain W where W: "ledger_ok W ''a'' rule_ledger" using rule_ledger_ok by blast
  have "\<forall>j :: nat. plausible ((\<lambda>_. 2000) j)" by (simp add: plausible_small)
  from materialise_idempotent [OF W this _ run_ledger_run] show ?thesis
    using stored_rule_ids stored_rule_horizon by (auto simp: rule_ledger_rows)
qed

end
