(* ===== verification/Recurring_Service.thy ===== *)
theory Recurring_Service
  imports Writes Compare Materialiser
begin

text \<open>
  \<open>core/repositories/recurring.service.ts\<close>: recurring rules, what they produce next, and saving them.
\<close>

definition all_rules :: "(string \<Rightarrow> string \<Rightarrow> int) \<Rightarrow> docket_db \<Rightarrow> RecurringRule list" where
  "all_rules lc d = sort_by (\<lambda>a b. lc (rule_name a) (rule_name b)) (rule_rows d)"

definition active_rules :: "(string \<Rightarrow> string \<Rightarrow> int) \<Rightarrow> docket_db \<Rightarrow> RecurringRule list" where
  "active_rules lc d = filter (\<lambda>r. \<not> rule_archived r) (all_rules lc d)"

definition archived_rules :: "(string \<Rightarrow> string \<Rightarrow> int) \<Rightarrow> docket_db \<Rightarrow> RecurringRule list" where
  "archived_rules lc d = filter rule_archived (all_rules lc d)"

definition rule_byId :: "RecurringRule list \<Rightarrow> string \<Rightarrow> RecurringRule option" where
  "rule_byId rules i = List.find (\<lambda>r. rule_id r = i) rules"

record RuleStatus =
  rs_rule :: RecurringRule
  rs_next :: "string option"

definition compare_next :: "(string \<Rightarrow> string \<Rightarrow> int) \<Rightarrow> RuleStatus \<Rightarrow> RuleStatus \<Rightarrow> int" where
  "compare_next lc a b =
     (case rs_next a of
        None \<Rightarrow> if rs_next b = None then 0 else 1
      | Some x \<Rightarrow> (case rs_next b of None \<Rightarrow> -1 | Some y \<Rightarrow> lc x y))"

fun rule_statuses :: "string \<Rightarrow> RecurringRule list \<Rightarrow> RuleStatus list result" where
  "rule_statuses today [] = Inr []"
| "rule_statuses today (rule # rules) =
     (case nextOccurrence rule today of
        Inl e \<Rightarrow> Inl e
      | Inr n \<Rightarrow> map_sum id ((#) \<lparr>rs_rule = rule, rs_next = n\<rparr>) (rule_statuses today rules))"

definition upcoming :: "(string \<Rightarrow> string \<Rightarrow> int) \<Rightarrow> docket_db \<Rightarrow> string \<Rightarrow> RuleStatus list result" where
  "upcoming lc d today = map_sum id (sort_by (compare_next lc)) (rule_statuses today (active_rules lc d))"

fun preview :: "RecurringRule \<Rightarrow> nat \<Rightarrow> string \<Rightarrow> string list result" where
  "preview rule 0 cursor = Inr []"
| "preview rule (Suc n) cursor =
     (case nextOccurrence rule cursor of
        Inl e \<Rightarrow> Inl e
      | Inr None \<Rightarrow> Inr []
      | Inr (Some d) \<Rightarrow> map_sum id ((#) d) (preview rule n d))"

definition countSoFar :: "RecurringRule \<Rightarrow> string \<Rightarrow> nat result" where
  "countSoFar rule today = map_sum id length (occurrencesUpTo rule today 1000 None)"

section \<open>Changes\<close>

record RecurringDraft =
  rr_id :: string
  rr_name :: string
  rr_kind :: TransactionKind
  rr_amount :: Minor
  rr_currency :: string
  rr_accountId :: string
  rr_interval :: int
  rr_unit :: RecurrenceUnit
  rr_startDate :: string
  rr_counterAccountId :: "string option"
  rr_categoryId :: "string option"
  rr_payee :: "string option"
  rr_note :: "string option"
  rr_tags :: "string list option"
  rr_endDate :: "string option"
  rr_maxOccurrences :: "int option"
  rr_skipped :: "string list option"
  rr_archived :: "bool option"
  rr_createdAt :: "int option"

definition draft_rule :: "int \<Rightarrow> RecurringDraft \<Rightarrow> RecurringRule" where
  "draft_rule created draft =
     \<lparr>rule_id = rr_id draft, rule_name = rr_name draft, rule_kind = rr_kind draft, rule_amount = \<bar>rr_amount draft\<bar>,
      rule_currency = rr_currency draft, rule_accountId = rr_accountId draft, rule_counterAccountId = rr_counterAccountId draft,
      rule_categoryId = rr_categoryId draft, rule_payee = with_default [] (rr_payee draft), rule_note = with_default [] (rr_note draft),
      rule_tags = with_default [] (rr_tags draft), rule_interval = rr_interval draft, rule_unit = rr_unit draft,
      rule_startDate = rr_startDate draft, rule_endDate = rr_endDate draft, rule_maxOccurrences = rr_maxOccurrences draft,
      rule_skipped = with_default [] (rr_skipped draft), rule_archived = with_default False (rr_archived draft),
      rule_createdAt = with_default created (rr_createdAt draft), rule_updatedAt = []\<rparr>"

definition rules_save :: "(nat \<Rightarrow> nat) \<Rightarrow> RecurringDraft \<Rightarrow> (ledger, AnyEntity) call" where
  "rules_save now draft l =
     (let rule = draft_rule (int (now 0)) draft
      in case rule_assertValid rule of
           Inl e \<Rightarrow> (Inl e, l)
         | Inr _ \<Rightarrow> put (now 1) RecurringRules (RecurringRuleRow rule) l)"

definition rules_setArchived :: "(nat \<Rightarrow> nat) \<Rightarrow> string \<times> bool \<Rightarrow> (ledger, unit) call" where
  "rules_setArchived now arg l =
     (case get_rule (led_db l) (fst arg) of
        None \<Rightarrow> (Inr (), l)
      | Some rule \<Rightarrow>
          andThen (put (now 0) RecurringRules (RecurringRuleRow (rule\<lparr>rule_archived := snd arg\<rparr>))) (\<lambda>_. return ()) l)"

definition rules_remove :: "(nat \<Rightarrow> nat) \<Rightarrow> string \<Rightarrow> (ledger, unit) call" where
  "rules_remove now i = remove (now 0) RecurringRules i"

section \<open>The contract\<close>

lemma get_rule_row:
  assumes "ledger_ok W dev l" and "rows_valid l" and "get_rule (led_db l) i = Some b"
  shows "rule_id b = i" "rule_assertValid b = Inr ()"
  using row_table(2) [OF assms(1), of RecurringRules i "RecurringRuleRow b"]
    row_valid [OF assms(2), of RecurringRules i "RecurringRuleRow b"] assms(3)
  by (auto simp: row_Some)

lemma rule_assertValid_cong:
  "rule_assertValid (r\<lparr>rule_archived := a\<rparr>) = rule_assertValid r" "rule_assertValid (r\<lparr>rule_skipped := s\<rparr>) = rule_assertValid r"
  by (simp_all add: rule_assertValid_def split: option.split)

interpretation save_rule: service rules_save "\<lambda>draft. {(RecurringRules, rr_id draft)}"
proof
  fix now :: "nat \<Rightarrow> nat" and W dev l arg r l'
  assume "\<forall>j. plausible (now j)" "rules_save now arg l = (r, l')"
  then show "writes {(RecurringRules, rr_id arg)} l l'"
    by (auto simp: rules_save_def Let_def draft_rule_def split: sum.splits intro: writes_put)
qed

interpretation archive_rule: service rules_setArchived "\<lambda>arg. {(RecurringRules, fst arg)}"
proof
  fix now :: "nat \<Rightarrow> nat" and W dev l and arg :: "string \<times> bool" and r l'
  assume now: "\<forall>j. plausible (now j)" and ok: "ledger_ok W dev l" "rows_valid l" and call: "rules_setArchived now arg l = (r, l')"
  show "writes {(RecurringRules, fst arg)} l l'"
  proof (cases "get_rule (led_db l) (fst arg)")
    case (Some b)
    then show ?thesis using call now get_rule_row [OF ok Some]
      by (auto simp: rules_setArchived_def rule_assertValid_cong intro!: writes_put dest!: andThen_return)
  qed (use call in \<open>simp add: rules_setArchived_def\<close>)
qed

interpretation remove_rule: service rules_remove "\<lambda>i. {(RecurringRules, i)}"
  by unfold_locales (auto simp: rules_remove_def intro: writes_remove)

text \<open>Skipping an occurrence edits the rule and removes the transaction it had produced.\<close>

definition skip_occurrence :: "(nat \<Rightarrow> nat) \<Rightarrow> string \<times> string \<Rightarrow> (ledger, unit) call" where
  "skip_occurrence now arg = skip (now 0) (now 1) (fst arg) (snd arg)"

interpretation skip_rule: service skip_occurrence
  "\<lambda>arg. {(RecurringRules, fst arg), (Transactions, occurrenceId (fst arg) (snd arg))}"
proof
  fix now :: "nat \<Rightarrow> nat" and W dev l and arg :: "string \<times> string" and r l'
  let ?K = "{(RecurringRules, fst arg), (Transactions, occurrenceId (fst arg) (snd arg))}"
  assume now: "\<forall>j. plausible (now j)" and ok: "ledger_ok W dev l" "rows_valid l" and call: "skip_occurrence now arg l = (r, l')"
  show "writes ?K l l'"
  proof (cases "get_rule (led_db l) (fst arg)")
    case (Some rule)
    show ?thesis
    proof (cases "snd arg \<in> set (rule_skipped rule)")
      case False
      let ?v = "RecurringRuleRow (rule\<lparr>rule_skipped := sort (rule_skipped rule @ [snd arg])\<rparr>)"
      obtain q m where m: "put (now 0) RecurringRules ?v l = (q, m)" by fastforce
      have first: "writes ?K l m"
        using get_rule_row [OF ok Some] now by (intro writes_put [OF m]) (simp_all add: rule_assertValid_cong)
      show ?thesis
      proof (cases q)
        case (Inl e)
        then show ?thesis using call Some False m first by (simp add: skip_occurrence_def skip_def)
      next
        case (Inr v)
        then have "l' = m \<or> (\<exists>q'. remove (now 1) Transactions (occurrenceId (fst arg) (snd arg)) m = (q', l'))"
          using call Some False m by (auto simp: skip_occurrence_def skip_def Let_def split: if_splits)
        then show ?thesis using first writes_remove [of "now 1" Transactions _ m _ l' ?K] now by (auto intro: rtranclp_trans)
      qed
    qed (use call Some in \<open>simp add: skip_occurrence_def skip_def\<close>)
  qed (use call in \<open>simp add: skip_occurrence_def skip_def\<close>)
qed

section \<open>The preview\<close>

text \<open>The preview is increasing, starts after its cursor and lists dates the schedule produces.\<close>

lemma next_loop_after: "next_loop s asOf n i = Inr (Some d) \<Longrightarrow> asOf < d"
  by (induction n arbitrary: i) (auto split: sum.splits if_splits)

lemma preview_increasing:
  "preview rule n cursor = Inr ds \<Longrightarrow> sorted_wrt (<) (cursor # ds) \<and> length ds \<le> n"
proof (induction n arbitrary: cursor ds)
  case (Suc n)
  show ?case
  proof (cases "nextOccurrence rule cursor")
    case (Inr nx)
    show ?thesis
    proof (cases nx)
      case (Some d)
      with Suc.prems Inr obtain es where es: "preview rule n d = Inr es" "ds = d # es"
        by (cases "preview rule n d") auto
      have "cursor < d" using Inr Some by (auto simp: nextOccurrence_def split: if_splits intro: next_loop_after)
      then show ?thesis using Suc.IH [OF es(1)] es(2) by auto
    qed (use Suc.prems Inr in simp)
  qed (use Suc.prems in simp)
qed simp

end
