(* ===== verification/Sections.thy ===== *)
theory Sections
  imports Groups_Service
begin

text \<open>
  The accounts screen and the balance sheet (\<open>core/accounts/sections.ts\<close>). The rate of a currency is an
  argument that may throw, as \<open>RatesService.rateToReporting\<close> does.
\<close>

record AccountSection =
  sec_group :: "AccountGroup option"
  sec_accounts :: "Account list"
  sec_subtotal :: number
  sec_owed :: bool
  sec_side :: BalanceSheetSide
  sec_unconverted :: "string list"
  sec_excluded :: nat

record SectionInput =
  in_accounts :: "Account list"
  in_groups :: "AccountGroup list"
  in_balances :: "string \<Rightarrow> Minor option"
  in_reporting :: string
  in_rateFor :: "string \<Rightarrow> number option result"

definition displayBalance :: "number \<Rightarrow> bool \<Rightarrow> number" where
  "displayBalance balance reads_owed =
     (if \<not> reads_owed then balance else if balance = Fin 0 then Fin 0 else num_neg balance)"

text \<open>Filing the accounts: the members of each group and the ungrouped tail.\<close>

definition group_in :: "AccountGroup list \<Rightarrow> Account \<Rightarrow> AccountGroup option" where
  "group_in groups account =
     (if falsy (acc_groupId account) then None
      else map_of (rev (map (\<lambda>g. (grp_id g, g)) groups)) (the (acc_groupId account)))"

definition file_account :: "AccountGroup list \<Rightarrow> Account \<Rightarrow> (string \<Rightarrow> Account list) \<times> Account list \<Rightarrow> (string \<Rightarrow> Account list) \<times> Account list" where
  "file_account groups account s =
     (case group_in groups account of
        Some g \<Rightarrow> ((fst s)(grp_id g := fst s (grp_id g) @ [account]), snd s)
      | None \<Rightarrow> (fst s, snd s @ [account]))"

definition filed_accounts :: "AccountGroup list \<Rightarrow> Account list \<Rightarrow> (string \<Rightarrow> Account list) \<times> Account list" where
  "filed_accounts groups accounts = fold (file_account groups) accounts (\<lambda>_. [], [])"

text \<open>What one account adds to its section: none when no rate is known.\<close>

definition contribution :: "SectionInput \<Rightarrow> Account \<Rightarrow> number option result" where
  "contribution input account =
     (let balance = with_default (acc_openingBalance account) (in_balances input (acc_id account))
      in if sameCurrency (acc_currency account) (in_reporting input) then Inr (Some (minor balance))
         else case in_rateFor input (acc_currency account) of
                Inl e \<Rightarrow> Inl e
              | Inr None \<Rightarrow> Inr None
              | Inr (Some rate) \<Rightarrow> map_sum id Some (convert (minor balance) rate (acc_currency account) (in_reporting input)))"

fun section_loop :: "SectionInput \<Rightarrow> Account list \<Rightarrow> number \<times> nat \<times> string list \<Rightarrow> (number \<times> nat \<times> string list) result" where
  "section_loop input [] s = Inr s"
| "section_loop input (account # accounts) (acc, excluded, missing) =
     (if \<not> countsInTotals account then section_loop input accounts (acc, excluded + 1, missing)
      else case contribution input account of
             Inl e \<Rightarrow> Inl e
           | Inr None \<Rightarrow> section_loop input accounts (acc, excluded, missing @ [toUpperCase (acc_currency account)])
           | Inr (Some amount) \<Rightarrow> section_loop input accounts (num_plus acc amount, excluded, missing))"

definition sectionFor :: "SectionInput \<Rightarrow> AccountGroup option \<Rightarrow> Account list \<Rightarrow> BalanceSheetSide \<Rightarrow> AccountSection result" where
  "sectionFor input grp inSection side =
     (let reads_owed = (case grp of Some g \<Rightarrow> readsAsOwed (grp_type g) | None \<Rightarrow> False)
      in case section_loop input inSection (Fin 0, 0, []) of
           Inl e \<Rightarrow> Inl e
         | Inr (acc, excluded, missing) \<Rightarrow>
             Inr \<lparr>sec_group = grp, sec_accounts = inSection, sec_subtotal = displayBalance acc reads_owed, sec_owed = reads_owed,
               sec_side = side, sec_unconverted = unique missing, sec_excluded = excluded\<rparr>)"

fun group_sections :: "SectionInput \<Rightarrow> (string \<Rightarrow> Account list) \<Rightarrow> AccountGroup list \<Rightarrow> AccountSection list result" where
  "group_sections input members [] = Inr []"
| "group_sections input members (g # groups) =
     (if members (grp_id g) = [] then group_sections input members groups
      else case sectionFor input (Some g) (members (grp_id g)) (sideOfType (grp_type g)) of
             Inl e \<Rightarrow> Inl e
           | Inr s \<Rightarrow> map_sum id ((#) s) (group_sections input members groups))"

definition buildSections :: "SectionInput \<Rightarrow> AccountSection list result" where
  "buildSections input =
     (case filed_accounts (in_groups input) (in_accounts input) of
        (members, tail) \<Rightarrow>
          (case group_sections input members (in_groups input) of
             Inl e \<Rightarrow> Inl e
           | Inr sections \<Rightarrow>
               if tail = [] then Inr sections
               else map_sum id (\<lambda>s. sections @ [s]) (sectionFor input None tail Asset)))"

record BalanceSheet =
  sheet_assets :: number
  sheet_liabilities :: number
  sheet_net :: number

definition add_section :: "AccountSection \<Rightarrow> number \<times> number \<Rightarrow> number \<times> number" where
  "add_section section s =
     (if sec_side section = Liability then (fst s, num_plus (snd s) (sec_subtotal section))
      else (num_plus (fst s) (sec_subtotal section), snd s))"

definition balanceSheet :: "AccountSection list \<Rightarrow> BalanceSheet" where
  "balanceSheet sections =
     (case fold add_section sections (Fin 0, Fin 0) of
        (assets, liabilities) \<Rightarrow>
          \<lparr>sheet_assets = assets, sheet_liabilities = liabilities, sheet_net = num_plus assets (num_neg liabilities)\<rparr>)"

section \<open>Every account in one section\<close>

lemma filed_accounts_eq:
  "fold (file_account groups) accounts (members, tail) =
     (\<lambda>i. members i @ filter (\<lambda>a. \<exists>g. group_in groups a = Some g \<and> grp_id g = i) accounts,
      tail @ filter (\<lambda>a. group_in groups a = None) accounts)"
  by (induction accounts arbitrary: members tail) (auto simp: file_account_def fun_eq_iff split: option.split)

lemma group_in_mem:
  assumes "group_in groups a = Some g"
  shows "g \<in> set groups" "acc_groupId a = Some (grp_id g)"
proof -
  have m: "map_of (rev (map (\<lambda>g. (grp_id g, g)) groups)) (the (acc_groupId a)) = Some g" "\<not> falsy (acc_groupId a)"
    using assms by (auto simp: group_in_def split: if_splits)
  from map_of_SomeD [OF m(1)] show "g \<in> set groups" by auto
  from map_of_SomeD [OF m(1)] m(2) show "acc_groupId a = Some (grp_id g)" by (auto simp: falsy_def)
qed

lemma filing_partition:
  assumes "distinct (map grp_id groups)" and "filed_accounts groups accounts = (members, tail)"
  shows "mset (concat (map (\<lambda>g. members (grp_id g)) groups)) + mset tail = mset accounts"
proof -
  let ?in = "\<lambda>i a. \<exists>g. group_in groups a = Some g \<and> grp_id g = i"
  have m: "members = (\<lambda>i. filter (?in i) accounts)" "tail = filter (\<lambda>a. group_in groups a = None) accounts"
    using assms(2) by (simp_all add: filed_accounts_def filed_accounts_eq)
  have step: "mset (concat (map (\<lambda>g. filter (?in (grp_id g)) accounts) gs)) = mset (filter (\<lambda>a. \<exists>g \<in> set gs. ?in (grp_id g) a) accounts)"
    if "distinct (map grp_id gs)" for gs
    using that
  proof (induction gs)
    case (Cons h gs)
    have "filter_mset (\<lambda>a. \<exists>g \<in> set (h # gs). ?in (grp_id g) a) (mset accounts) =
        filter_mset (?in (grp_id h)) (mset accounts) + filter_mset (\<lambda>a. \<exists>g \<in> set gs. ?in (grp_id g) a) (mset accounts)"
      using Cons.prems by (intro multiset_eqI) (force simp: count_filter_mset)
    then show ?case using Cons by simp
  qed simp
  have "(\<exists>g \<in> set groups. ?in (grp_id g) a) \<longleftrightarrow> group_in groups a \<noteq> None" for a
    using group_in_mem(1) by (metis not_None_eq)
  then have "mset (concat (map (\<lambda>g. members (grp_id g)) groups)) = filter_mset (\<lambda>a. group_in groups a \<noteq> None) (mset accounts)"
    using step [OF assms(1)] by (simp add: m(1))
  then show ?thesis using multiset_partition [of "mset accounts" "\<lambda>a. group_in groups a \<noteq> None"] by (simp add: m(2))
qed

section \<open>The arithmetic\<close>

text \<open>What an account is worth, given the exact contribution \<open>f\<close> of each, and the sum over a list.\<close>

definition worth :: "(Account \<Rightarrow> Minor option) \<Rightarrow> Account \<Rightarrow> Minor" where
  "worth f a = (if countsInTotals a then with_default 0 (f a) else 0)"

definition total_worth :: "(Account \<Rightarrow> Minor option) \<Rightarrow> Account list \<Rightarrow> Minor" where
  "total_worth f accounts = (\<Sum>a \<leftarrow> accounts. worth f a)"

definition gross_worth :: "(Account \<Rightarrow> Minor option) \<Rightarrow> Account list \<Rightarrow> Minor" where
  "gross_worth f accounts = (\<Sum>a \<leftarrow> accounts. \<bar>worth f a\<bar>)"

definition exact :: "SectionInput \<Rightarrow> (Account \<Rightarrow> Minor option) \<Rightarrow> Account list \<Rightarrow> bool" where
  "exact input f accounts \<longleftrightarrow> (\<forall>a \<in> set accounts. countsInTotals a \<longrightarrow> contribution input a = Inr (map_option minor (f a)))"

definition section_ok :: "(Account \<Rightarrow> Minor option) \<Rightarrow> AccountSection \<Rightarrow> bool" where
  "section_ok f s \<longleftrightarrow> sec_subtotal s =
     minor (if sec_side s = Liability then - total_worth f (sec_accounts s) else total_worth f (sec_accounts s))"

lemma worth_simps [simp]:
  "total_worth f [] = 0" "total_worth f (a # as) = worth f a + total_worth f as" "total_worth f (as @ bs) = total_worth f as + total_worth f bs"
  "gross_worth f [] = 0" "gross_worth f (a # as) = \<bar>worth f a\<bar> + gross_worth f as" "gross_worth f (as @ bs) = gross_worth f as + gross_worth f bs"
  by (simp_all add: total_worth_def gross_worth_def)

lemma gross_bound: "\<bar>total_worth f as\<bar> \<le> gross_worth f as" "0 \<le> gross_worth f as"
  by (induction as) auto

lemma worth_mset: "mset as = mset bs \<Longrightarrow> total_worth f as = total_worth f bs" "mset as = mset bs \<Longrightarrow> gross_worth f as = gross_worth f bs"
  unfolding total_worth_def gross_worth_def by (metis mset_map sum_mset_sum_list)+

lemma section_loop_exact:
  assumes "exact input f accounts" and "\<bar>n\<bar> + gross_worth f accounts < 2 ^ 53"
  shows "\<exists>ex miss. section_loop input accounts (minor n, x, m) = Inr (minor (n + total_worth f accounts), ex, miss)"
  using assms
proof (induction accounts arbitrary: n x m)
  case (Cons a as)
  have rest: "exact input f as" using Cons.prems(1) by (simp add: exact_def)
  show ?case
  proof (cases "countsInTotals a")
    case True
    then have c: "contribution input a = Inr (map_option minor (f a))" "worth f a = with_default 0 (f a)"
      using Cons.prems(1) by (simp_all add: exact_def worth_def)
    show ?thesis
    proof (cases "f a")
      case None
      then show ?thesis using Cons.IH [OF rest, of n x "m @ [toUpperCase (acc_currency a)]"] Cons.prems(2) c True by (simp add: with_default_def)
    next
      case (Some k)
      have bound: "\<bar>n + k\<bar> + gross_worth f as < 2 ^ 53" using Cons.prems(2) c(2) Some by (simp add: with_default_def)
      then have "num_plus (minor n) (minor k) = minor (n + k)" using gross_bound(2) [of f as] by (intro num_plus_exact) linarith
      then show ?thesis using Cons.IH [OF rest bound, of x m] c True Some by (simp add: with_default_def add.assoc)
    qed
  next
    case False
    then show ?thesis using Cons.IH [OF rest, of n "x + 1" m] Cons.prems(2) by (simp add: worth_def)
  qed
qed simp

lemma sectionFor_exact:
  assumes "exact input f accounts" and "gross_worth f accounts < 2 ^ 53"
    and "side = (case grp of Some g \<Rightarrow> sideOfType (grp_type g) | None \<Rightarrow> Asset)"
  shows "\<exists>s. sectionFor input grp accounts side = Inr s \<and> sec_accounts s = accounts \<and> section_ok f s"
proof -
  obtain ex miss where loop: "section_loop input accounts (Fin 0, 0, []) = Inr (minor (total_worth f accounts), ex, miss)"
    using section_loop_exact [OF assms(1), of 0 0 "[]"] assms(2) by auto
  have "(case grp of Some g \<Rightarrow> readsAsOwed (grp_type g) | None \<Rightarrow> False) \<longleftrightarrow> side = Liability"
    by (simp add: assms(3) readsAsOwed_def split: option.split)
  then show ?thesis using loop by (auto simp: sectionFor_def Let_def section_ok_def displayBalance_def)
qed

lemma group_sections_exact:
  assumes "\<forall>g \<in> set groups. exact input f (members (grp_id g)) \<and> gross_worth f (members (grp_id g)) < 2 ^ 53"
  shows "\<exists>ss. group_sections input members groups = Inr ss \<and> concat (map sec_accounts ss) = concat (map (\<lambda>g. members (grp_id g)) groups) \<and>
    (\<forall>s \<in> set ss. section_ok f s \<and> sec_accounts s \<noteq> [])"
  using assms
proof (induction groups)
  case (Cons g groups)
  then obtain ss where ss: "group_sections input members groups = Inr ss"
      "concat (map sec_accounts ss) = concat (map (\<lambda>g. members (grp_id g)) groups)" "\<forall>s \<in> set ss. section_ok f s \<and> sec_accounts s \<noteq> []" by auto
  show ?case
  proof (cases "members (grp_id g) = []")
    case False
    obtain s where "sectionFor input (Some g) (members (grp_id g)) (sideOfType (grp_type g)) = Inr s"
        "sec_accounts s = members (grp_id g)" "section_ok f s"
      using sectionFor_exact [of input f "members (grp_id g)" "sideOfType (grp_type g)" "Some g"] Cons.prems by auto
    then show ?thesis using False ss by (intro exI [of _ "s # ss"]) auto
  qed (use ss in simp)
qed simp

lemma gross_concat_member: "xs \<in> set xss \<Longrightarrow> gross_worth f xs \<le> gross_worth f (concat xss)"
proof (induction xss)
  case (Cons ys yss)
  then show ?case using gross_bound(2) [of f ys] gross_bound(2) [of f "concat yss"] by auto
qed simp

lemma balance_fold_exact:
  assumes "\<forall>s \<in> set ss. section_ok f s" and "\<bar>x\<bar> + \<bar>y\<bar> + gross_worth f (concat (map sec_accounts ss)) < 2 ^ 53"
  shows "\<exists>x' y'. fold add_section ss (minor x, minor y) = (minor x', minor y') \<and>
    x' - y' = x - y + total_worth f (concat (map sec_accounts ss)) \<and> \<bar>x'\<bar> + \<bar>y'\<bar> < 2 ^ 53"
  using assms
proof (induction ss arbitrary: x y)
  case (Cons s ss)
  let ?w = "total_worth f (sec_accounts s)"
  note bounds = gross_bound [of f "sec_accounts s"] gross_bound(2) [of f "concat (map sec_accounts ss)"]
  show ?case
  proof (cases "sec_side s = Liability")
    case True
    have b: "\<bar>x\<bar> + \<bar>y - ?w\<bar> + gross_worth f (concat (map sec_accounts ss)) < 2 ^ 53" using Cons.prems(2) bounds by simp
    have sub: "sec_subtotal s = minor (- ?w)" using Cons.prems(1) True by (simp add: section_ok_def)
    have "num_plus (minor y) (minor (- ?w)) = minor (y + - ?w)" using b bounds by (intro num_plus_exact) linarith
    then have "add_section s (minor x, minor y) = (minor x, minor (y - ?w))" using True sub by (simp add: add_section_def)
    then show ?thesis using Cons.IH [OF _ b] Cons.prems(1) by (auto simp: algebra_simps)
  next
    case False
    have b: "\<bar>x + ?w\<bar> + \<bar>y\<bar> + gross_worth f (concat (map sec_accounts ss)) < 2 ^ 53" using Cons.prems(2) bounds by simp
    have sub: "sec_subtotal s = minor ?w" using Cons.prems(1) False by (simp add: section_ok_def)
    have "num_plus (minor x) (minor ?w) = minor (x + ?w)" using b bounds by (intro num_plus_exact) linarith
    then have "add_section s (minor x, minor y) = (minor (x + ?w), minor y)" using False sub by (simp add: add_section_def)
    then show ?thesis using Cons.IH [OF _ b] Cons.prems(1) by (auto simp: algebra_simps)
  qed
qed simp

text \<open>The accounts screen adds up. With distinct groups and balances whose total stays in the exact
  range, every account stands in exactly one section and no section is empty, and the balance sheet's
  net figure is the sum of what every counted account contributes: splitting it into groups, into what
  is held and what is owed, and showing debts as positive numbers changes nothing.\<close>

theorem sections_add_up:
  assumes "distinct (map grp_id (in_groups input))" and "exact input f (in_accounts input)"
    and "gross_worth f (in_accounts input) < 2 ^ 53"
  shows "\<exists>ss. buildSections input = Inr ss \<and> mset (concat (map sec_accounts ss)) = mset (in_accounts input) \<and>
    (\<forall>s \<in> set ss. sec_accounts s \<noteq> []) \<and> sheet_net (balanceSheet ss) = minor (total_worth f (in_accounts input))"
proof -
  obtain members tail where fa: "filed_accounts (in_groups input) (in_accounts input) = (members, tail)" by fastforce
  let ?filed = "concat (map (\<lambda>g. members (grp_id g)) (in_groups input))"
  have part: "mset (?filed @ tail) = mset (in_accounts input)" using filing_partition [OF assms(1) fa] by simp
  have gross: "gross_worth f ?filed + gross_worth f tail < 2 ^ 53" using worth_mset(2) [OF part, of f] assms(3) by simp
  have sub: "set ?filed \<subseteq> set (in_accounts input)" "set tail \<subseteq> set (in_accounts input)" using mset_eq_setD [OF part] by auto
  have "exact input f (members (grp_id g)) \<and> gross_worth f (members (grp_id g)) < 2 ^ 53" if "g \<in> set (in_groups input)" for g
  proof
    show "exact input f (members (grp_id g))" using assms(2) sub(1) that by (fastforce simp: exact_def)
    have "gross_worth f (members (grp_id g)) \<le> gross_worth f ?filed" using that by (intro gross_concat_member) auto
    then show "gross_worth f (members (grp_id g)) < 2 ^ 53" using gross gross_bound(2) [of f tail] by linarith
  qed
  then obtain ss where ss: "group_sections input members (in_groups input) = Inr ss" "concat (map sec_accounts ss) = ?filed"
      "\<forall>s \<in> set ss. section_ok f s \<and> sec_accounts s \<noteq> []"
    using group_sections_exact by blast
  have "exact input f tail" "gross_worth f tail < 2 ^ 53"
    using assms(2) sub(2) gross gross_bound(2) [of f ?filed] by (auto simp: exact_def)
  then obtain last_section where ts: "sectionFor input None tail Asset = Inr last_section" "sec_accounts last_section = tail" "section_ok f last_section"
    using sectionFor_exact [of input f tail Asset None] by auto
  define all where "all = (if tail = [] then ss else ss @ [last_section])"
  have all: "buildSections input = Inr all" "concat (map sec_accounts all) = ?filed @ tail" "\<forall>s \<in> set all. section_ok f s \<and> sec_accounts s \<noteq> []"
    using ss ts by (auto simp: buildSections_def fa all_def)
  obtain x y where xy: "fold add_section all (minor 0, minor 0) = (minor x, minor y)"
      "x - y = total_worth f (concat (map sec_accounts all))" "\<bar>x\<bar> + \<bar>y\<bar> < 2 ^ 53"
    using balance_fold_exact [of all f 0 0] all(2,3) gross by auto
  have "num_plus (minor x) (minor (- y)) = minor (x + - y)" using xy(3) by (intro num_plus_exact) linarith
  then have "sheet_net (balanceSheet all) = minor (total_worth f (in_accounts input))"
    using xy worth_mset(1) [OF part, of f] all(2) by (simp add: balanceSheet_def)
  then show ?thesis using all part by auto
qed

definition sample_sections :: SectionInput where
  "sample_sections = \<lparr>in_accounts = [plain_account ''x'' 1000, (plain_account ''k'' (- 400))\<lparr>acc_groupId := Some ''g''\<rparr>],
     in_groups = [\<lparr>grp_id = ''g'', grp_name = ''Cards'', grp_type = CreditCard, grp_order = 0, grp_colour = [], grp_icon = [],
       grp_archived = False, grp_createdAt = 0, grp_updatedAt = []\<rparr>],
     in_balances = (\<lambda>_. None), in_reporting = ''USD'', in_rateFor = (\<lambda>_. Inr None)\<rparr>"

theorem sections_add_up_witness:
  "\<exists>ss. buildSections sample_sections = Inr ss \<and> length (concat (map sec_accounts ss)) = 2 \<and> sheet_net (balanceSheet ss) = minor 600"
proof -
  let ?f = "\<lambda>a. Some (acc_openingBalance a)"
  have "distinct (map grp_id (in_groups sample_sections))" by (simp add: sample_sections_def)
  moreover have "exact sample_sections ?f (in_accounts sample_sections)"
    by (simp add: exact_def contribution_def sample_sections_def plain_account_def with_default_def sameCurrency_def)
  moreover have "gross_worth ?f (in_accounts sample_sections) = 1400" "total_worth ?f (in_accounts sample_sections) = 600"
    "length (in_accounts sample_sections) = 2"
    by (simp_all add: sample_sections_def plain_account_def worth_def with_default_def countsInTotals_def)
  ultimately obtain ss where ss: "buildSections sample_sections = Inr ss" "sheet_net (balanceSheet ss) = minor 600"
      "mset (concat (map sec_accounts ss)) = mset (in_accounts sample_sections)"
    using sections_add_up [of sample_sections ?f] by auto
  have "length (concat (map sec_accounts ss)) = 2" using mset_eq_length [OF ss(3)] by (simp add: sample_sections_def)
  then show ?thesis using ss by blast
qed

end
