(* ===== verification/Csv.thy ===== *)
theory Csv
  imports Prelude
begin

text \<open>
  Comma-separated values: the reader of files a bank exports (\<open>core/import/csv-parse.ts\<close>) and the
  writer of reports (\<open>core/reports/csv.ts\<close>). The reader is the loop of \<open>parseCsv\<close> over the remaining
  text, with its local variables as a record. Numbers that are written are whole (the reports write
  counts). The main fact is that reading back what was written gives every cell as it was written,
  where a cell that looks like a formula is written with a quote in front, and that only rows without
  content are lost.
\<close>

abbreviation quote :: char where "quote \<equiv> CHR 0x22"
abbreviation apostrophe :: char where "apostrophe \<equiv> CHR 0x27"
abbreviation comma :: char where "comma \<equiv> CHR '',''"
abbreviation carriage_return :: char where "carriage_return \<equiv> CHR 0x0D"
abbreviation line_feed :: char where "line_feed \<equiv> CHR 0x0A"

section \<open>Reading\<close>

text \<open>A file's text, which may begin with a byte-order mark; the mark is the one unit above the range of
  \<^typ>\<open>char\<close> that the reader looks at.\<close>

datatype file_text = Marked string | Plain string

record csv_state =
  cs_rows :: "string list list"
  cs_row :: "string list"
  cs_field :: string
  cs_quoted :: bool
  cs_started :: bool

definition endField :: "csv_state \<Rightarrow> csv_state" where
  "endField st = st\<lparr>cs_row := cs_row st @ [cs_field st], cs_field := [], cs_started := False\<rparr>"

definition endRow :: "csv_state \<Rightarrow> csv_state" where
  "endRow st =
     (let st = endField st; row = cs_row st
      in st\<lparr>cs_rows := (if length row > 1 \<or> row ! 0 \<noteq> [] then cs_rows st @ [row] else cs_rows st), cs_row := []\<rparr>)"

definition add_char :: "char \<Rightarrow> csv_state \<Rightarrow> csv_state" where
  "add_char c st = st\<lparr>cs_field := cs_field st @ [c]\<rparr>"

fun csv_loop :: "string \<Rightarrow> csv_state \<Rightarrow> csv_state" where
  "csv_loop [] st = st"
| "csv_loop (c # cs) st =
     (if cs_quoted st then
        if c \<noteq> quote then csv_loop cs (add_char c st)
        else (case cs of
                d # cs' \<Rightarrow> if d = quote then csv_loop cs' (add_char quote st) else csv_loop cs (st\<lparr>cs_quoted := False\<rparr>)
              | [] \<Rightarrow> csv_loop cs (st\<lparr>cs_quoted := False\<rparr>))
      else if c = quote then
        csv_loop cs ((if \<not> cs_started st \<and> cs_field st = [] then st\<lparr>cs_quoted := True\<rparr> else add_char c st)\<lparr>cs_started := True\<rparr>)
      else if c = comma then csv_loop cs (endField st)
      else if c = carriage_return then
        (case cs of
           d # cs' \<Rightarrow> if d = line_feed then csv_loop cs' (endRow st) else csv_loop cs (endRow st)
         | [] \<Rightarrow> csv_loop cs (endRow st))
      else if c = line_feed then csv_loop cs (endRow st)
      else csv_loop cs ((add_char c st)\<lparr>cs_started := True\<rparr>))"

definition csv_start :: csv_state where
  "csv_start = \<lparr>cs_rows = [], cs_row = [], cs_field = [], cs_quoted = False, cs_started = False\<rparr>"

definition parseCsv :: "file_text \<Rightarrow> string list list" where
  "parseCsv text =
     (let input = (case text of Marked s \<Rightarrow> s | Plain s \<Rightarrow> s);
          st = csv_loop input csv_start
      in cs_rows (if cs_field st \<noteq> [] \<or> length (cs_row st) > 0 then endRow st else st))"

definition is_lower_alnum :: "char \<Rightarrow> bool" where
  "is_lower_alnum c \<longleftrightarrow> CHR ''a'' \<le> c \<and> c \<le> CHR ''z'' \<or> is_digit c"

definition normaliseHeader :: "string \<Rightarrow> string" where
  "normaliseHeader h = filter is_lower_alnum (toLowerCase h)"

section \<open>Writing\<close>

datatype CsvValue = CsvText string | CsvNumber int | CsvNull | CsvUndefined

record CsvTable =
  csv_headers :: "string list"
  csv_rows :: "CsvValue list list"

definition show_int :: "int \<Rightarrow> string" where
  "show_int i = (if i < 0 then ''-'' @ String_of (nat (- i)) else String_of (nat i))"

definition formula_like :: "string \<Rightarrow> bool" where
  "formula_like text \<longleftrightarrow> text \<noteq> [] \<and> hd text \<in> {CHR ''='', CHR ''+'', CHR ''-'', CHR ''@'', CHR 0x09, carriage_return}"

definition guarded :: "string \<Rightarrow> string" where
  "guarded text = (if formula_like text then apostrophe # text else text)"

definition needs_quotes :: "string \<Rightarrow> bool" where
  "needs_quotes text \<longleftrightarrow> list_ex (\<lambda>c. c \<in> {quote, comma, carriage_return, line_feed}) text"

definition escape_text :: "string \<Rightarrow> string" where
  "escape_text text =
     (let g = guarded text
      in if \<not> needs_quotes g then g else [quote] @ join [quote, quote] (split_on quote g) @ [quote])"

definition escapeField :: "CsvValue \<Rightarrow> string" where
  "escapeField v =
     (case v of CsvNull \<Rightarrow> [] | CsvUndefined \<Rightarrow> [] | CsvText s \<Rightarrow> escape_text s | CsvNumber i \<Rightarrow> escape_text (show_int i))"

definition toCsv :: "CsvTable \<Rightarrow> string" where
  "toCsv t =
     join [carriage_return, line_feed] (map (\<lambda>row. join [comma] (map escapeField row)) (map CsvText (csv_headers t) # csv_rows t))"

text \<open>Runs of anything but lower-case letters and digits become one dash, and then a dash at either end
  goes.\<close>

fun dashed :: "bool \<Rightarrow> string \<Rightarrow> string" where
  "dashed after [] = []"
| "dashed after (c # cs) =
     (if is_lower_alnum c then c # dashed False cs else if after then dashed True cs else CHR ''-'' # dashed True cs)"

definition csvFilename :: "string \<Rightarrow> string \<Rightarrow> string \<Rightarrow> string" where
  "csvFilename prefix from_date to_date =
     (let d = dashed False (toLowerCase prefix);
          d = (if d \<noteq> [] \<and> hd d = CHR ''-'' then tl d else d);
          safe = (if d \<noteq> [] \<and> last d = CHR ''-'' then butlast d else d)
      in safe @ ''-'' @ from_date @ ''-to-'' @ to_date @ ''.csv'')"

section \<open>Reading what was written\<close>

text \<open>What a cell holds as text, before it is quoted.\<close>

definition cell_text :: "CsvValue \<Rightarrow> string" where
  "cell_text v = (case v of CsvNull \<Rightarrow> [] | CsvUndefined \<Rightarrow> [] | CsvText s \<Rightarrow> guarded s | CsvNumber i \<Rightarrow> guarded (show_int i))"

definition quoted_text :: "string \<Rightarrow> string" where
  "quoted_text s = concat (map (\<lambda>c. if c = quote then [quote, quote] else [c]) s)"

lemma join_Cons: "join sep (x # xs) = (if xs = [] then x else x @ sep @ join sep xs)"
  by (cases xs) simp_all

lemma join_hd: "join sep ((c # p) # ps) = c # join sep (p # ps)"
  by (cases ps) simp_all

lemma join_doubled: "join [quote, quote] (split_on quote s) = quoted_text s"
proof (induction s)
  case (Cons c s)
  then show ?case
    by (cases "split_on quote s") (auto simp: quoted_text_def join_hd)
qed (simp add: quoted_text_def)

definition written :: "string \<Rightarrow> string" where
  "written g = (if needs_quotes g then [quote] @ quoted_text g @ [quote] else g)"

lemma escapeField_written: "escapeField = written \<circ> cell_text"
  by (rule ext) (auto simp: escapeField_def cell_text_def escape_text_def written_def join_doubled Let_def needs_quotes_def split: CsvValue.split)

definition field_end :: "string \<Rightarrow> bool" where
  "field_end rest \<longleftrightarrow> rest = [] \<or> hd rest \<in> {comma, carriage_return}"

lemma csv_loop_plain:
  assumes "\<not> needs_quotes g" and "\<not> cs_quoted st"
  shows "\<exists>b. csv_loop (g @ rest) st = csv_loop rest (st\<lparr>cs_field := cs_field st @ g, cs_started := b\<rparr>)"
  using assms
proof (induction g arbitrary: st)
  case Nil
  then show ?case by (intro exI [of _ "cs_started st"]) simp
next
  case (Cons c g)
  let ?st = "(add_char c st)\<lparr>cs_started := True\<rparr>"
  have "csv_loop ((c # g) @ rest) st = csv_loop (g @ rest) ?st"
    using Cons.prems by (simp add: needs_quotes_def)
  moreover have "\<exists>b. csv_loop (g @ rest) ?st = csv_loop rest (?st\<lparr>cs_field := cs_field ?st @ g, cs_started := b\<rparr>)"
    using Cons by (intro Cons.IH) (simp_all add: needs_quotes_def add_char_def)
  ultimately show ?case by (simp add: add_char_def)
qed

lemma csv_loop_quoted:
  assumes "cs_quoted st" and "field_end rest"
  shows "csv_loop (quoted_text g @ quote # rest) st = csv_loop rest (st\<lparr>cs_field := cs_field st @ g, cs_quoted := False\<rparr>)"
  using assms
proof (induction g arbitrary: st)
  case Nil
  then show ?case by (cases rest) (auto simp: quoted_text_def field_end_def)
next
  case (Cons c g)
  have "csv_loop (quoted_text (c # g) @ quote # rest) st = csv_loop (quoted_text g @ quote # rest) (add_char c st)"
    using Cons.prems(1) by (auto simp: quoted_text_def)
  also have "\<dots> = csv_loop rest ((add_char c st)\<lparr>cs_field := cs_field (add_char c st) @ g, cs_quoted := False\<rparr>)"
    using Cons by (intro Cons.IH) (simp_all add: add_char_def)
  finally show ?case by (simp add: add_char_def)
qed

definition at_field :: "csv_state \<Rightarrow> bool" where
  "at_field st \<longleftrightarrow> cs_field st = [] \<and> \<not> cs_quoted st \<and> \<not> cs_started st"

lemma csv_loop_written:
  assumes "at_field st" and "field_end rest"
  shows "\<exists>b. csv_loop (written g @ rest) st = csv_loop rest (st\<lparr>cs_field := g, cs_started := b\<rparr>)"
proof (cases "needs_quotes g")
  case True
  let ?st = "st\<lparr>cs_quoted := True, cs_started := True\<rparr>"
  have "csv_loop (written g @ rest) st = csv_loop (quoted_text g @ quote # rest) ?st"
    using assms(1) True by (simp add: written_def at_field_def)
  also have "\<dots> = csv_loop rest (?st\<lparr>cs_field := cs_field ?st @ g, cs_quoted := False\<rparr>)"
    by (rule csv_loop_quoted) (use assms(2) in simp_all)
  also have "?st\<lparr>cs_field := cs_field ?st @ g, cs_quoted := False\<rparr> = st\<lparr>cs_field := g, cs_started := True\<rparr>"
    using assms(1) by (simp add: at_field_def)
  finally show ?thesis by blast
next
  case False
  then show ?thesis using csv_loop_plain [of g st rest] assms(1) by (auto simp: written_def at_field_def)
qed

text \<open>A row of cells up to the end of its line. An empty row is an empty line, like a row of one empty
  cell.\<close>

definition cells :: "string list \<Rightarrow> string list" where
  "cells row = (if row = [] then [[]] else row)"

definition line_end :: "string \<Rightarrow> bool" where
  "line_end rest \<longleftrightarrow> rest = [] \<or> (\<exists>more_text. rest = carriage_return # line_feed # more_text)"

lemma csv_loop_row:
  assumes "at_field st" and "line_end rest" and "row \<noteq> []"
  shows "\<exists>b. csv_loop (join [comma] (map written row) @ rest) st =
    csv_loop rest (st\<lparr>cs_row := cs_row st @ butlast row, cs_field := last row, cs_started := b\<rparr>)"
  using assms
proof (induction row arbitrary: st)
  case (Cons g row)
  show ?case
  proof (cases "row = []")
    case True
    then show ?thesis
      using csv_loop_written [OF Cons.prems(1), of rest g] Cons.prems(2) by (auto simp: line_end_def field_end_def)
  next
    case False
    let ?rest = "comma # join [comma] (map written row) @ rest"
    obtain b where b: "csv_loop (written g @ ?rest) st = csv_loop ?rest (st\<lparr>cs_field := g, cs_started := b\<rparr>)"
      using csv_loop_written [OF Cons.prems(1), of ?rest g] by (auto simp: field_end_def)
    let ?st = "endField (st\<lparr>cs_field := g, cs_started := b\<rparr>)"
    have "csv_loop ?rest (st\<lparr>cs_field := g, cs_started := b\<rparr>) = csv_loop (join [comma] (map written row) @ rest) ?st"
      using Cons.prems(1) by (simp add: at_field_def)
    moreover have "at_field ?st" using Cons.prems(1) by (simp add: at_field_def endField_def)
    ultimately show ?thesis using Cons.IH [of ?st] Cons.prems(2) False b
      by (auto simp: join_Cons endField_def)
  qed
qed simp

definition has_content :: "string list \<Rightarrow> bool" where
  "has_content row \<longleftrightarrow> row \<noteq> [] \<and> row \<noteq> [[]]"

lemma endRow_row:
  assumes "row \<noteq> []"
  shows "endRow (st\<lparr>cs_row := butlast row, cs_field := last row, cs_started := b\<rparr>) =
    st\<lparr>cs_rows := cs_rows st @ filter has_content [row], cs_row := [], cs_field := [], cs_started := False\<rparr>"
proof -
  have "length row > 1 \<or> row ! 0 \<noteq> [] \<longleftrightarrow> has_content row"
    using assms by (cases row rule: remdups_adj.cases) (auto simp: has_content_def)
  then show ?thesis using assms by (auto simp: endRow_def endField_def Let_def)
qed

definition at_row :: "csv_state \<Rightarrow> bool" where
  "at_row st \<longleftrightarrow> at_field st \<and> cs_row st = []"

definition finish :: "csv_state \<Rightarrow> string list list" where
  "finish st = cs_rows (if cs_field st \<noteq> [] \<or> length (cs_row st) > 0 then endRow st else st)"

lemma csv_loop_lines:
  assumes "at_row st" and "lines \<noteq> []"
  shows "finish (csv_loop (join [carriage_return, line_feed] (map (\<lambda>row. join [comma] (map written row)) lines)) st) =
    cs_rows st @ filter has_content lines"
  using assms
proof (induction lines arbitrary: st)
  case (Cons row lines)
  have line: "join [comma] (map written row) = join [comma] (map written (cells row))"
    by (simp add: cells_def written_def needs_quotes_def)
  have same: "filter has_content [cells row] = filter has_content [row]" by (simp add: cells_def has_content_def)
  have ne: "cells row \<noteq> []" by (simp add: cells_def)
  have st: "at_field st" "cs_row st = []" using Cons.prems(1) by (simp_all add: at_row_def)
  show ?case
  proof (cases "lines = []")
    case True
    obtain b where b: "csv_loop (join [comma] (map written (cells row)) @ []) st =
        csv_loop [] (st\<lparr>cs_row := cs_row st @ butlast (cells row), cs_field := last (cells row), cs_started := b\<rparr>)"
      using csv_loop_row [OF st(1) _ ne, of "[]"] by (auto simp: line_end_def)
    let ?st = "st\<lparr>cs_row := butlast (cells row), cs_field := last (cells row), cs_started := b\<rparr>"
    have "finish ?st = cs_rows (endRow ?st)"
    proof (cases "last (cells row) = [] \<and> butlast (cells row) = []")
      case True
      then have "cells row = [[]]" using ne by (metis append_butlast_last_id append_Nil)
      then show ?thesis using endRow_row [OF ne, of b st] by (simp add: finish_def has_content_def)
    qed (auto simp: finish_def simp del: length_butlast)
    then show ?thesis using b endRow_row [OF ne, of b st] True st(2) same by (simp add: line)
  next
    case False
    let ?rest = "carriage_return # line_feed # join [carriage_return, line_feed] (map (\<lambda>row. join [comma] (map written row)) lines)"
    obtain b where b: "csv_loop (join [comma] (map written (cells row)) @ ?rest) st =
        csv_loop ?rest (st\<lparr>cs_row := cs_row st @ butlast (cells row), cs_field := last (cells row), cs_started := b\<rparr>)"
      using csv_loop_row [OF st(1) _ ne, of ?rest] by (auto simp: line_end_def)
    let ?st = "st\<lparr>cs_row := butlast (cells row), cs_field := last (cells row), cs_started := b\<rparr>"
    have "csv_loop ?rest ?st = csv_loop (join [carriage_return, line_feed] (map (\<lambda>row. join [comma] (map written row)) lines)) (endRow ?st)"
      using st(1) by (simp add: at_field_def)
    moreover have "at_row (endRow ?st)" using st endRow_row [OF ne, of b st] by (simp add: at_row_def at_field_def)
    ultimately show ?thesis
      using Cons.IH [of "endRow ?st"] False b endRow_row [OF ne, of b st] st(2) same by (simp add: line join_Cons)
  qed
qed simp

lemma parseCsv_Marked: "parseCsv (Marked t) = parseCsv (Plain t)"
  by (simp add: parseCsv_def)

lemma parse_toCsv: "parseCsv (Plain (toCsv t)) = filter has_content (map (map cell_text) (map CsvText (csv_headers t) # csv_rows t))"
proof -
  let ?rows = "map (map cell_text) (map CsvText (csv_headers t) # csv_rows t)"
  have "toCsv t = join [carriage_return, line_feed] (map (\<lambda>row. join [comma] (map written row)) ?rows)"
    by (simp add: toCsv_def escapeField_written comp_def map_map [unfolded comp_def])
  then have "finish (csv_loop (toCsv t) csv_start) = cs_rows csv_start @ filter has_content ?rows"
    using csv_loop_lines [of csv_start ?rows] by (simp add: at_row_def at_field_def csv_start_def)
  then show ?thesis by (simp add: parseCsv_def finish_def Let_def csv_start_def)
qed

text \<open>C22: reading what was written. Every table that is written reads back as its header and its rows,
  cell by cell, whatever commas, quotes and line breaks the cells hold; only rows without content are
  dropped, and a byte-order mark makes no difference. A cell reads back as its own text unless that
  begins like a formula, in which case it has an apostrophe in front.\<close>

theorem csv_round_trip:
  "parseCsv (Plain (toCsv t)) = filter has_content (map (map cell_text) (map CsvText (csv_headers t) # csv_rows t)) \<and>
   parseCsv (Marked (toCsv t)) = parseCsv (Plain (toCsv t)) \<and>
   cell_text (CsvText s) = (if formula_like s then apostrophe # s else s)"
  by (simp only: parse_toCsv parseCsv_Marked) (simp add: cell_text_def guarded_def)

end
