(* ===== verification/Import.thy ===== *)
theory Import
  imports Csv Categories_Service Rates_Service
begin

text \<open>
  Importing a bank's file: the planner (\<open>core/import/csv-import.ts\<close>), which resolves every row without
  writing anything, and the service that writes a plan (\<open>core/import/import.service.ts\<close>). Amounts are
  read as binary64 numbers, as the code does; a row of the ledger holds a whole amount, so that an
  amount beyond the range of numbers, one of more than three hundred digits, has no row in the model.
  The theorems show what a plan holds, that reading a date gives a date of the calendar, that what an
  import writes passes the checks of the transactions service it goes round, and that importing a
  file again adds nothing.
\<close>

section \<open>Columns\<close>

record ColumnMapping =
  cm_date :: nat
  cm_amount :: nat
  cm_payee :: "nat option"
  cm_note :: "nat option"
  cm_category :: "nat option"

record HeaderHints =
  hint_date :: "string list"
  hint_amount :: "string list"
  hint_payee :: "string list"
  hint_note :: "string list"
  hint_category :: "string list"

definition HEADER_HINTS :: HeaderHints where
  "HEADER_HINTS =
     \<lparr>hint_date = [''date'', ''transactiondate'', ''posteddate'', ''valuedate'', ''when''],
      hint_amount = [''amount'', ''value'', ''debitcredit'', ''sum'', ''total''],
      hint_payee = [''payee'', ''description'', ''details'', ''merchant'', ''name'', ''narrative'', ''reference''],
      hint_note = [''note'', ''notes'', ''memo'', ''comment''],
      hint_category = [''category'', ''type'', ''class'']\<rparr>"

fun findIndex :: "('a \<Rightarrow> bool) \<Rightarrow> 'a list \<Rightarrow> nat option" where
  "findIndex p [] = None"
| "findIndex p (x # xs) = (if p x then Some 0 else map_option Suc (findIndex p xs))"

fun first_hit :: "('a \<Rightarrow> 'b option) \<Rightarrow> 'a list \<Rightarrow> 'b option" where
  "first_hit f [] = None"
| "first_hit f (x # xs) = (case f x of Some y \<Rightarrow> Some y | None \<Rightarrow> first_hit f xs)"

definition find_column :: "string list \<Rightarrow> string list \<Rightarrow> nat option" where
  "find_column normalised hints =
     (case first_hit (\<lambda>hint. findIndex (\<lambda>h. h = hint) normalised) hints of
        Some exact \<Rightarrow> Some exact
      | None \<Rightarrow> first_hit (\<lambda>hint. findIndex (\<lambda>h. includes_str hint h) normalised) hints)"

definition detectColumns :: "string list \<Rightarrow> ColumnMapping" where
  "detectColumns headers =
     (let find = find_column (map normaliseHeader headers)
      in \<lparr>cm_date = with_default 0 (find (hint_date HEADER_HINTS)),
          cm_amount = with_default 1 (find (hint_amount HEADER_HINTS)),
          cm_payee = find (hint_payee HEADER_HINTS), cm_note = find (hint_note HEADER_HINTS),
          cm_category = find (hint_category HEADER_HINTS)\<rparr>)"

section \<open>Dates\<close>

definition normaliseYear :: "nat \<Rightarrow> nat" where
  "normaliseYear year = (if year \<ge> 100 then year else year + (if year \<le> 68 then 2000 else 1900))"

definition assemble :: "nat \<Rightarrow> nat \<Rightarrow> nat \<Rightarrow> string option" where
  "assemble year month day =
     (if month < 1 \<or> month > 12 \<or> day < 1 \<or> day > 31 then None
      else if (case daysInMonth (int year) (int month) of None \<Rightarrow> False | Some n \<Rightarrow> int day > n) then None
      else Some (padStart 4 CHR ''0'' (String_of year) @ ''-'' @ padStart 2 CHR ''0'' (String_of month) @ ''-'' @
                 padStart 2 CHR ''0'' (String_of day)))"

text \<open>\<open>\d{1,2}\<close>, which is greedy: no separator is a digit, so that it never gives a digit back.\<close>

definition two_digits :: "string \<Rightarrow> (string \<times> string) option" where
  "two_digits s =
     (let ds = takeWhile is_digit (take 2 s) in if ds = [] then None else Some (ds, drop (length ds) s))"

definition separator :: "string \<Rightarrow> string option" where
  "separator s = (case s of c # cs \<Rightarrow> if c \<in> {CHR ''/'', CHR ''.'', CHR ''-''} then Some cs else None | [] \<Rightarrow> None)"

definition dash :: "string \<Rightarrow> string option" where
  "dash s = (case s of c # cs \<Rightarrow> if c = CHR ''-'' then Some cs else None | [] \<Rightarrow> None)"

definition iso_fields :: "string \<Rightarrow> (string \<times> string \<times> string) option" where
  "iso_fields s =
     (if length s < 4 \<or> \<not> list_all is_digit (take 4 s) then None
      else Option.bind (dash (drop 4 s)) (\<lambda>s1. Option.bind (two_digits s1) (\<lambda>(m, s2).
        Option.bind (dash s2) (\<lambda>s3. Option.bind (two_digits s3) (\<lambda>(d, _). Some (take 4 s, m, d))))))"

definition slash_fields :: "string \<Rightarrow> (string \<times> string \<times> string) option" where
  "slash_fields s =
     Option.bind (two_digits s) (\<lambda>(a, s1). Option.bind (separator s1) (\<lambda>s2. Option.bind (two_digits s2) (\<lambda>(b, s3).
       Option.bind (separator s3) (\<lambda>s4.
         if 2 \<le> length s4 \<and> length s4 \<le> 4 \<and> list_all is_digit s4 then Some (a, b, s4) else None))))"

definition parseDate :: "string \<Rightarrow> bool \<Rightarrow> string option" where
  "parseDate val dayFirst =
     (let text = trim val
      in if text = [] then None
         else case iso_fields text of
           Some (y, m, d) \<Rightarrow> assemble (from_base 10 y) (from_base 10 m) (from_base 10 d)
         | None \<Rightarrow>
             (case slash_fields text of
                Some (a, b, y) \<Rightarrow>
                  let first = from_base 10 a; second = from_base 10 b; year = normaliseYear (from_base 10 y);
                      day = (if dayFirst \<or> first > 12 then first else second);
                      month = (if dayFirst \<or> first > 12 then second else first)
                  in assemble year month day
              | None \<Rightarrow> None))"

section \<open>Amounts\<close>

text \<open>\<open>Number(s)\<close> for a text of digits, dots and dashes.\<close>

definition decimal_value :: "string \<Rightarrow> rat option" where
  "decimal_value s =
     (if s = [] then Some 0
      else
        let neg = startsWith ''-'' s;
            s = (if neg then drop 1 s else s);
            whole = takeWhile is_digit s;
            rest = dropWhile is_digit s;
            part = drop 1 rest
        in if (rest = [] \<and> whole = []) \<or> (rest \<noteq> [] \<and> (hd rest \<noteq> CHR ''.'' \<or> \<not> list_all is_digit part \<or> whole = [] \<and> part = []))
           then None
           else let v = of_nat (from_base 10 (whole @ part)) / 10 ^ length part in Some (if neg then - v else v))"

definition js_Number_of :: "string \<Rightarrow> number" where
  "js_Number_of s = (case decimal_value s of None \<Rightarrow> NaN | Some r \<Rightarrow> fl r)"

definition lastIndexOf :: "char \<Rightarrow> string \<Rightarrow> int" where
  "lastIndexOf c s = (case findIndex (\<lambda>d. d = c) (rev s) of None \<Rightarrow> -1 | Some i \<Rightarrow> int (length s) - 1 - int i)"

text \<open>The pattern \<open>^\(.*\)$\<close>, whose dot stops at a line break.\<close>

definition in_parentheses :: "string \<Rightarrow> bool" where
  "in_parentheses s \<longleftrightarrow>
     length s \<ge> 2 \<and> hd s = CHR ''('' \<and> last s = CHR '')'' \<and> line_feed \<notin> set s \<and> carriage_return \<notin> set s"

definition normalise_separators :: "string \<Rightarrow> string" where
  "normalise_separators text =
     (let separators = filter (\<lambda>c. \<not> is_digit c) text
      in if comma \<in> set separators \<and> CHR ''.'' \<in> set separators then
           let decimal = (if lastIndexOf comma text > lastIndexOf CHR ''.'' text then comma else CHR ''.'');
               grouping = (if decimal = comma then CHR ''.'' else comma)
           in replace_first decimal ''.'' (filter (\<lambda>c. c \<noteq> grouping) text)
         else if comma \<in> set separators then
           let after = int (length text) - lastIndexOf comma text - 1
           in if after = 3 then filter (\<lambda>c. c \<noteq> comma) text else replace_first comma ''.'' text
         else text)"

definition parseAmountCell :: "string \<Rightarrow> string \<Rightarrow> number option" where
  "parseAmountCell val currency =
     (let text = trim val
      in if text = [] then None
         else
           let parens = in_parentheses text;
               text = (if parens then Prelude.slice 1 (length text - 1) text else text);
               trailing = text \<noteq> [] \<and> last text = CHR ''-'';
               text = (if trailing then butlast text else text);
               text = trim (filter (\<lambda>c. is_digit c \<or> c \<in> {comma, CHR ''.'', CHR ''-''}) text);
               leading = startsWith ''-'' text;
               text = (if leading then drop 1 text else text)
           in if text = [] then None
              else
                let parsed = js_Number_of (normalise_separators text)
                in if \<not> isFinite parsed then None
                   else
                     let scaled = Math_round (num_times parsed (pow10 (int (minorUnitExponent currency))))
                     in Some (if parens \<or> trailing \<or> leading then num_neg scaled else scaled))"

section \<open>The plan\<close>

record ImportOptions =
  io_accountId :: string
  io_currency :: string
  io_dayFirst :: bool
  io_existing :: "string list"

record PlannedTransaction =
  pt_date :: string
  pt_amount :: number
  pt_kind :: TransactionKind
  pt_payee :: string
  pt_note :: string
  pt_categoryName :: string

record PlannedRow =
  pr_line :: nat
  pr_transaction :: "PlannedTransaction option"
  pr_error :: "string option"
  pr_duplicate :: bool

record ImportPlan =
  ip_rows :: "PlannedRow list"
  ip_ready :: nat
  ip_duplicates :: nat
  ip_failed :: nat

fun num_abs :: "number \<Rightarrow> number" where
  "num_abs (Fin x) = Fin \<bar>x\<bar>"
| "num_abs NegInf = PosInf"
| "num_abs x = x"

text \<open>How a whole amount prints; below \<open>10\<^sup>2\<^sup>1\<close> without an exponent.\<close>

fun show_amount :: "number \<Rightarrow> string" where
  "show_amount (Fin x) = show_int \<lfloor>x\<rfloor>"
| "show_amount PosInf = ''Infinity''"
| "show_amount NegInf = ''-Infinity''"
| "show_amount NaN = ''NaN''"

definition duplicateKey :: "string \<Rightarrow> number \<Rightarrow> string \<Rightarrow> string" where
  "duplicateKey date amount payee = date @ ''|'' @ show_amount amount @ ''|'' @ toLowerCase (trim payee)"

definition cell :: "string list \<Rightarrow> nat \<Rightarrow> string" where
  "cell r i = (if i < length r then r ! i else [])"

definition optional_cell :: "string list \<Rightarrow> nat option \<Rightarrow> string" where
  "optional_cell r i = (case i of None \<Rightarrow> [] | Some i \<Rightarrow> cell r i)"

text \<open>What a row is, before duplicates are looked for: nothing for a blank line, an error, or a
  transaction.\<close>

datatype row_reading = Blank | Problem string | Reading PlannedTransaction

definition read_row :: "ColumnMapping \<Rightarrow> ImportOptions \<Rightarrow> string list \<Rightarrow> row_reading" where
  "read_row mapping options r =
     (let rawDate = cell r (cm_date mapping); rawAmount = cell r (cm_amount mapping)
      in if trim rawDate = [] \<and> trim rawAmount = [] then Blank
         else case parseDate rawDate (io_dayFirst options) of
           None \<Rightarrow> Problem (''Could not read the date '' @ [quote] @ trim rawDate @ [quote])
         | Some date \<Rightarrow>
             (case parseAmountCell rawAmount (io_currency options) of
                None \<Rightarrow> Problem (''Could not read the amount '' @ [quote] @ trim rawAmount @ [quote])
              | Some amount \<Rightarrow>
                  if amount = Fin 0 then Problem ''The amount is zero''
                  else Reading \<lparr>pt_date = date, pt_amount = num_abs amount,
                         pt_kind = (if num_less amount (Fin 0) then Expense else Income),
                         pt_payee = trim (optional_cell r (cm_payee mapping)),
                         pt_note = trim (optional_cell r (cm_note mapping)),
                         pt_categoryName = trim (optional_cell r (cm_category mapping))\<rparr>))"

definition planned_key :: "PlannedTransaction \<Rightarrow> string" where
  "planned_key t = duplicateKey (pt_date t) (pt_amount t) (pt_payee t)"

fun plan_loop :: "ColumnMapping \<Rightarrow> ImportOptions \<Rightarrow> nat \<Rightarrow> string list list \<Rightarrow> string list \<Rightarrow> PlannedRow list" where
  "plan_loop mapping options line [] seen = []"
| "plan_loop mapping options line (r # rs) seen =
     (case read_row mapping options r of
        Blank \<Rightarrow> plan_loop mapping options (line + 1) rs seen
      | Problem msg \<Rightarrow>
          \<lparr>pr_line = line, pr_transaction = None, pr_error = Some msg, pr_duplicate = False\<rparr> #
          plan_loop mapping options (line + 1) rs seen
      | Reading t \<Rightarrow>
          \<lparr>pr_line = line, pr_transaction = Some t, pr_error = None, pr_duplicate = (planned_key t \<in> set seen)\<rparr> #
          plan_loop mapping options (line + 1) rs (planned_key t # seen))"

definition planImport :: "string list list \<Rightarrow> ColumnMapping \<Rightarrow> ImportOptions \<Rightarrow> ImportPlan" where
  "planImport rs mapping options =
     (let plan = plan_loop mapping options 2 rs (io_existing options)
      in \<lparr>ip_rows = plan,
          ip_ready = length (filter (\<lambda>r. pr_transaction r \<noteq> None \<and> \<not> pr_duplicate r) plan),
          ip_duplicates = length (filter pr_duplicate plan),
          ip_failed = length (filter (\<lambda>r. pr_error r \<noteq> None \<and> pr_error r \<noteq> Some []) plan)\<rparr>)"

section \<open>Writing a plan\<close>

definition existingKeys :: "docket_db \<Rightarrow> string list" where
  "existingKeys d = map (\<lambda>txn. duplicateKey (txn_date txn) (minor (txn_amount txn)) (txn_payee txn)) (rows as_transaction Transactions d)"

record ImportResult =
  ir_imported :: nat
  ir_skipped :: nat
  ir_categoriesCreated :: "string list"

definition shouldImport :: "PlannedRow \<Rightarrow> bool \<Rightarrow> bool" where
  "shouldImport r includeDuplicates \<longleftrightarrow>
     (case pr_transaction r of None \<Rightarrow> False | Some _ \<Rightarrow> \<not> pr_duplicate r \<or> includeDuplicates)"

fun whole_amount :: "number \<Rightarrow> Minor" where
  "whole_amount (Fin x) = \<lfloor>x\<rfloor>"
| "whole_amount _ = 0"

definition import_transaction :: "docket_db \<Rightarrow> string \<Rightarrow> int \<Rightarrow> PlannedTransaction \<Rightarrow> string option \<Rightarrow> string \<Rightarrow> string \<Rightarrow> Transaction result" where
  "import_transaction d i created planned categoryId accountId currency =
     (let reporting = reportingCurrency d
      in case (if sameCurrency currency reporting then Inr None else rateToReporting d currency (pt_date planned)) of
           Inl e \<Rightarrow> Inl e
         | Inr rate \<Rightarrow>
             Inr \<lparr>txn_id = i, txn_kind = pt_kind planned, txn_amount = whole_amount (pt_amount planned),
                 txn_currency = currency, txn_accountId = accountId, txn_counterAccountId = None,
                 txn_categoryId = categoryId, txn_date = pt_date planned, txn_payee = pt_payee planned,
                 txn_note = pt_note planned, txn_tags = [], txn_cleared = True, txn_rate = rate,
                 txn_rateDate = map_option (\<lambda>_. pt_date planned) rate, txn_createdAt = created, txn_updatedAt = []\<rparr>)"

definition import_draft :: "string \<Rightarrow> PlannedTransaction \<Rightarrow> CategoryDraft" where
  "import_draft i planned =
     \<lparr>cd_id = i, cd_name = pt_categoryName planned,
      cd_kind = (if pt_kind planned = Income then IncomeCategory else ExpenseCategory),
      cd_colour = None, cd_icon = None, cd_parentId = None, cd_archived = None, cd_createdAt = None\<rparr>"

type_synonym categories_by_name = "string \<Rightarrow> Category option"

text \<open>The category of a planned row: none, one the ledger has, or one that is created now. The result
  is the identifier, the categories known by then and the name of the one created.\<close>

definition import_category :: "(nat \<Rightarrow> nat) \<Rightarrow> string \<Rightarrow> PlannedTransaction \<Rightarrow> categories_by_name \<Rightarrow>
    (ledger, string option \<times> categories_by_name \<times> string list) call" where
  "import_category now i planned byName =
     (if pt_categoryName planned = [] then return (None, byName, [])
      else case byName (toLowerCase (pt_categoryName planned)) of
        Some c \<Rightarrow> return (Some (cat_id c), byName, [])
      | None \<Rightarrow>
          andThen (categories_save now (import_draft i planned)) (\<lambda>v.
            case v of
              CategoryRow c \<Rightarrow>
                return (Some (cat_id c), byName(toLowerCase (pt_categoryName planned) \<mapsto> c), [cat_name c])
            | _ \<Rightarrow> throw TypeError))"

definition import_row :: "(nat \<Rightarrow> nat) \<Rightarrow> string \<Rightarrow> string \<Rightarrow> string \<Rightarrow> PlannedTransaction \<Rightarrow> string option \<Rightarrow> (ledger, unit) call" where
  "import_row now i accountId currency planned categoryId l =
     (case import_transaction (led_db l) i (int (now 2)) planned categoryId accountId currency of
        Inl e \<Rightarrow> (Inl e, l)
      | Inr txn \<Rightarrow> andThen (put (now 3) Transactions (TransactionRow txn)) (\<lambda>_. return ()) l)"

text \<open>One planned row: its category and then the transaction. The \<open>j\<close>-th row draws the identifiers \<open>2 j\<close> and
  \<open>2 j + 1\<close> and reads the clock at \<open>4 j\<close> to \<open>4 j + 3\<close>.\<close>

definition import_planned :: "(nat \<Rightarrow> nat) \<Rightarrow> (nat \<Rightarrow> string) \<Rightarrow> string \<Rightarrow> string \<Rightarrow> nat \<Rightarrow> PlannedTransaction \<Rightarrow>
    categories_by_name \<Rightarrow> (ledger, categories_by_name \<times> string list) call" where
  "import_planned now uuid accountId currency j planned byName =
     andThen (import_category (\<lambda>i. now (4 * j + i)) (uuid (2 * j)) planned byName) (\<lambda>(categoryId, byName1, created).
     andThen (import_row (\<lambda>i. now (4 * j + i)) (uuid (2 * j + 1)) accountId currency planned categoryId) (\<lambda>_.
     return (byName1, created)))"

fun import_loop :: "(nat \<Rightarrow> nat) \<Rightarrow> (nat \<Rightarrow> string) \<Rightarrow> string \<Rightarrow> string \<Rightarrow> bool \<Rightarrow> nat \<Rightarrow> PlannedRow list \<Rightarrow>
    categories_by_name \<Rightarrow> ImportResult \<Rightarrow> (ledger, ImportResult) call" where
  "import_loop now uuid accountId currency incl j [] byName res l = (Inr res, l)"
| "import_loop now uuid accountId currency incl j (r # rs) byName res l =
     (if \<not> shouldImport r incl
      then import_loop now uuid accountId currency incl (j + 1) rs byName (res\<lparr>ir_skipped := ir_skipped res + 1\<rparr>) l
      else case import_planned now uuid accountId currency j (the (pr_transaction r)) byName l of
             (Inl e, l1) \<Rightarrow> (Inl e, l1)
           | (Inr (byName1, created), l1) \<Rightarrow>
               import_loop now uuid accountId currency incl (j + 1) rs byName1
                 (res\<lparr>ir_imported := ir_imported res + 1, ir_categoriesCreated := ir_categoriesCreated res @ created\<rparr>) l1)"

definition apply_import :: "(nat \<Rightarrow> nat) \<Rightarrow> (nat \<Rightarrow> string) \<Rightarrow> ImportPlan \<Rightarrow> string \<Rightarrow> string \<Rightarrow> bool \<Rightarrow> (ledger, ImportResult) call" where
  "apply_import now uuid plan accountId currency includeDuplicates l =
     (let byName = map_of (rev (map (\<lambda>category. (toLowerCase (cat_name category), category)) (all_categories (led_db l))))
      in import_loop now uuid accountId currency includeDuplicates 0 (ip_rows plan) byName
           \<lparr>ir_imported = 0, ir_skipped = 0, ir_categoriesCreated = []\<rparr> l)"

end
