(* ===== verification/Import_Safety.thy ===== *)
theory Import_Safety
  imports Import
begin

text \<open>
  What the import promises: dates that are read are dates of the calendar, a plan accounts for every
  row and never offers the same transaction twice, what is written is what the transactions service
  would accept, and a file that has been imported has nothing left to import.
\<close>

section \<open>Dates\<close>

lemma two_digits_Some:
  assumes "two_digits s = Some (ds, rest)"
  shows "list_all is_digit ds" "ds \<noteq> []" "length ds \<le> 2"
proof -
  have ds: "ds = takeWhile is_digit (take 2 s)" "ds \<noteq> []" using assms by (auto simp: two_digits_def Let_def split: if_splits)
  show "list_all is_digit ds" unfolding ds(1) by (auto simp: list_all_iff dest: set_takeWhileD)
  show "ds \<noteq> []" by (rule ds(2))
  have "length ds \<le> length (take 2 s)" unfolding ds(1) by (rule length_takeWhile_le)
  then show "length ds \<le> 2" by simp
qed

lemma digits_less: "list_all is_digit s \<Longrightarrow> length s \<le> n \<Longrightarrow> from_base 10 s < 10 ^ n"
  using fixed_from_base [of s] power_increasing [of "length s" n "10 :: nat"] by (auto intro: less_le_trans)

lemma normaliseYear_less: "y < 10 ^ 4 \<Longrightarrow> normaliseYear y < 10 ^ 4 \<and> 100 \<le> normaliseYear y"
  by (simp add: normaliseYear_def)

lemma assemble_Some:
  assumes "assemble y m d = Some s" and "y < 10 ^ 4"
  shows "s = iso (int y) (int m) (int d) \<and> 1 \<le> m \<and> m \<le> 12 \<and> 1 \<le> d \<and> d \<le> 31 \<and>
    (100 \<le> y \<longrightarrow> valid_ymd (int y) (int m) (int d))"
proof -
  have b: "1 \<le> m" "m \<le> 12" "1 \<le> d" "d \<le> 31"
    and n: "\<not> (case daysInMonth (int y) (int m) of None \<Rightarrow> False | Some n \<Rightarrow> int d > n)"
    and s: "s = padStart 4 CHR ''0'' (String_of y) @ ''-'' @ padStart 2 CHR ''0'' (String_of m) @ ''-'' @ padStart 2 CHR ''0'' (String_of d)"
    using assms(1) by (auto simp: assemble_def split: if_splits)
  have "s = iso (int y) (int m) (int d)"
    using s b assms(2) by (simp add: iso_def padStart_to_base del: fixed.simps)
  moreover have "valid_ymd (int y) (int m) (int d)" if "100 \<le> y"
    using n b that assms(2) daysInMonth_len [of "int y" "int m"] by (auto simp: valid_ymd_def)
  ultimately show ?thesis using b by blast
qed

lemma parseDate_assemble:
  assumes "parseDate s df = Some date"
  shows "\<exists>y m d. assemble y m d = Some date \<and> y < 10 ^ 4"
proof (cases "iso_fields (trim s)")
  case (Some f)
  obtain y m d where f: "f = (y, m, d)" by (cases f)
  then have "y = take 4 (trim s)" "list_all is_digit (take 4 (trim s))"
    using Some by (auto simp: iso_fields_def bind_eq_Some_conv split: if_splits)
  then have "from_base 10 y < 10 ^ 4" by (intro digits_less) simp_all
  moreover have "assemble (from_base 10 y) (from_base 10 m) (from_base 10 d) = Some date"
    using assms Some f by (simp add: parseDate_def Let_def split: if_splits)
  ultimately show ?thesis by blast
next
  case None
  then obtain a b y where f: "slash_fields (trim s) = Some (a, b, y)"
    using assms by (auto simp: parseDate_def Let_def split: if_splits option.splits)
  then have "list_all is_digit y" "length y \<le> 4" by (auto simp: slash_fields_def bind_eq_Some_conv split: if_splits)
  then have "normaliseYear (from_base 10 y) < 10 ^ 4" using digits_less normaliseYear_less by blast
  then show ?thesis using assms None f by (fastforce simp: parseDate_def Let_def split: if_splits)
qed

lemma parseDate_ymd: "parseDate s df = Some date \<Longrightarrow> is_ymd date"
proof -
  assume "parseDate s df = Some date"
  then obtain y m d where "assemble y m d = Some date" "y < 10 ^ 4" using parseDate_assemble by blast
  from assemble_Some [OF this] this(2) have "date = iso (int y) (int m) (int d)" "iso_bounds (int y) (int m) (int d)"
    by (auto simp: iso_bounds_def)
  then have "parts date = Inr (int y, int m, int d)" using parts_iso by simp
  then show ?thesis by (auto simp: parts_def split: if_splits)
qed

lemma two_digits_append:
  assumes "list_all is_digit ds" and "length ds = 2"
  shows "two_digits (ds @ s) = Some (ds, s)"
proof -
  have t: "take 2 (ds @ s) = ds" "takeWhile is_digit ds = ds"
    using assms by (simp_all add: takeWhile_eq_all_conv list_all_iff)
  show ?thesis unfolding two_digits_def t Let_def using assms by auto
qed

lemma digits_fixed: "list_all is_digit (fixed 10 w n)"
  by (auto simp: list_all_iff simp del: fixed.simps)

lemma dash_not_space: "\<not> is_space CHR ''-''"
  by (simp add: is_space_def)

lemma ledger_date_trim:
  assumes "ledger_date s"
  shows "trim s = s"
proof -
  obtain y m d where "s = iso y m d" using assms by (rule ledger_dateE)
  then have "list_all (\<lambda>c. is_digit c \<or> c = CHR ''-'') s"
    using digits_fixed by (auto simp: iso_def list_all_iff simp del: fixed.simps)
  then show ?thesis by (intro trim_no_space) (auto simp: list_all_iff digit_not_space dash_not_space)
qed

lemma iso_fields_iso:
  assumes "iso_bounds y m d"
  shows "iso_fields (iso y m d) = Some (fixed 10 4 (nat y), fixed 10 2 (nat m), fixed 10 2 (nat d))"
proof -
  have "two_digits (fixed 10 2 (nat d)) = Some (fixed 10 2 (nat d), [])"
    using two_digits_append [OF digits_fixed, of 2 "nat d" "[]"] by simp
  then show ?thesis using two_digits_append [OF digits_fixed, of 2]
    by (simp add: iso_fields_def iso_def dash_def digits_fixed del: fixed.simps)
qed

text \<open>Reading a date. Whatever text is read as a date is written as four, two and two digits and,
  from the year 100 on, is a date of the calendar: a month from 1 to 12 and a day that month has. A date
  of the ledger reads as itself under either convention.\<close>

theorem parseDate_spec:
  "(parseDate s df = Some date \<longrightarrow> is_ymd date \<and> (100 \<le> fst (ymd date) \<longrightarrow> ledger_date date)) \<and>
   (ledger_date s \<longrightarrow> parseDate s df = Some s)"
proof (intro conjI impI)
  assume p: "parseDate s df = Some date"
  then show "is_ymd date" by (rule parseDate_ymd)
  assume y: "100 \<le> fst (ymd date)"
  obtain y m d where a: "assemble y m d = Some date" "y < 10 ^ 4" using parseDate_assemble [OF p] by blast
  from assemble_Some [OF this]
  have date: "date = iso (int y) (int m) (int d)" "iso_bounds (int y) (int m) (int d)"
    "100 \<le> y \<longrightarrow> valid_ymd (int y) (int m) (int d)" using a(2) by (auto simp: iso_bounds_def)
  then have "ymd date = (int y, int m, int d)" using parts_iso by (simp add: ymd_def)
  then show "ledger_date date" using y date ledger_date_iso(1) [of "int y" "int m" "int d"] by (auto simp: iso_bounds_def)
next
  assume s: "ledger_date s"
  then obtain y m d where d: "s = iso y m d" "100 \<le> y" "y \<le> 9999" "valid_ymd y m d" "iso_bounds y m d" by (rule ledger_dateE)
  have n: "from_base 10 (fixed 10 4 (nat y)) = nat y" "from_base 10 (fixed 10 2 (nat m)) = nat m" "from_base 10 (fixed 10 2 (nat d)) = nat d"
    using d(5) by (auto simp: iso_bounds_def intro!: from_base_fixed)
  have md: "1 \<le> m" "m \<le> 12" "1 \<le> d" "d \<le> month_len y m" "month_len y m \<le> 31"
    using d(4) month_len_bounds [of y m] by (auto simp: valid_ymd_def)
  have "\<not> 12 < nat m" "\<not> 31 < nat d" using md by linarith+
  then have "assemble (nat y) (nat m) (nat d) = Some s"
    using md d(2,3) daysInMonth_len [of y m] by (simp add: assemble_def d(1) iso_def padStart_to_base del: fixed.simps)
  moreover have "s \<noteq> []" using d(1) by (simp add: iso_def)
  ultimately show "parseDate s df = Some s"
    using iso_fields_iso [OF d(5)] n ledger_date_trim [OF s] by (simp add: parseDate_def d(1) [symmetric] del: fixed.simps)
qed

theorem parseDate_spec_witness: "parseDate ''2024-02-29'' False = Some ''2024-02-29''"
proof -
  have "ledger_date ''2024-02-29''" by code_simp
  then show ?thesis using parseDate_spec [of "''2024-02-29''" False] by blast
qed

section \<open>The plan\<close>

lemma Math_round_whole: "Math_round x = Fin y \<Longrightarrow> \<exists>n :: int. y = of_int n"
  by (cases x) auto

lemma parseAmountCell_whole:
  assumes "parseAmountCell v c = Some (Fin x)"
  shows "\<exists>n :: int. x = of_int n"
proof -
  have "(\<exists>y. Math_round y = Fin x) \<or> (\<exists>y. num_neg (Math_round y) = Fin x)"
    using assms unfolding parseAmountCell_def Let_def by (simp only: split: if_splits option.splits) blast+
  then show ?thesis
  proof (elim disjE exE)
    fix y
    assume "num_neg (Math_round y) = Fin x"
    then have "Math_round y = Fin (- x)" by (cases "Math_round y") auto
    then obtain n :: int where "- x = of_int n" using Math_round_whole by blast
    then have "x = of_int (- n)" by simp
    then show ?thesis by blast
  qed (rule Math_round_whole)
qed

lemma read_row_Reading:
  assumes "read_row mapping options r = Reading t"
  shows "is_ymd (pt_date t)" "pt_kind t \<noteq> Transfer" "trim (pt_payee t) = pt_payee t"
    "isFinite (pt_amount t) \<Longrightarrow> \<exists>n > 0. pt_amount t = minor n"
proof -
  obtain amount where a: "parseAmountCell (cell r (cm_amount mapping)) (io_currency options) = Some amount" "amount \<noteq> Fin 0"
    "pt_amount t = num_abs amount" and d: "parseDate (cell r (cm_date mapping)) (io_dayFirst options) = Some (pt_date t)"
    and rest: "pt_kind t \<noteq> Transfer" "trim (pt_payee t) = pt_payee t"
    using assms by (auto simp: read_row_def Let_def split: if_splits option.splits)
  show "is_ymd (pt_date t)" using d by (rule parseDate_ymd)
  show "pt_kind t \<noteq> Transfer" "trim (pt_payee t) = pt_payee t" by (rule rest)+
  assume "isFinite (pt_amount t)"
  then obtain x where x: "amount = Fin x" "x \<noteq> 0" using a(2,3) by (cases amount) auto
  have "\<exists>n :: int. x = of_int n" using a(1) x(1) parseAmountCell_whole by blast
  then obtain n :: int where "x = of_int n" ..
  then show "\<exists>n > 0. pt_amount t = minor n" using a(3) x by (intro exI [of _ "\<bar>n\<bar>"]) auto
qed

lemma plan_loop_mem:
  assumes "p \<in> set (plan_loop mapping options line rs seen)"
  shows "(\<exists>msg. p = \<lparr>pr_line = pr_line p, pr_transaction = None, pr_error = Some msg, pr_duplicate = False\<rparr> \<and> msg \<noteq> []) \<or>
    (\<exists>t r. r \<in> set rs \<and> read_row mapping options r = Reading t \<and>
      p = \<lparr>pr_line = pr_line p, pr_transaction = Some t, pr_error = None, pr_duplicate = pr_duplicate p\<rparr>)"
  using assms
proof (induction rs arbitrary: line seen)
  case (Cons r rs)
  have msg: "read_row mapping options r = Problem m \<Longrightarrow> m \<noteq> []" for m
    by (auto simp: read_row_def Let_def split: if_splits option.splits)
  show ?case using Cons msg by (cases "read_row mapping options r") fastforce+
qed simp

lemma three_way:
  assumes "\<And>p. p \<in> set ps \<Longrightarrow>
    (\<exists>msg. p = \<lparr>pr_line = pr_line p, pr_transaction = None, pr_error = Some msg, pr_duplicate = False\<rparr> \<and> msg \<noteq> []) \<or>
    (\<exists>t r. r \<in> set rs \<and> read_row mapping options r = Reading t \<and>
      p = \<lparr>pr_line = pr_line p, pr_transaction = Some t, pr_error = None, pr_duplicate = pr_duplicate p\<rparr>)"
  shows "length (filter (\<lambda>p. pr_transaction p \<noteq> None \<and> \<not> pr_duplicate p) ps) + length (filter pr_duplicate ps) +
    length (filter (\<lambda>p. pr_error p \<noteq> None \<and> pr_error p \<noteq> Some []) ps) = length ps"
  using assms
proof (induction ps)
  case (Cons p ps)
  from Cons.prems [of p]
  have "(pr_transaction p = None \<and> \<not> pr_duplicate p \<and> pr_error p \<noteq> None \<and> pr_error p \<noteq> Some []) \<or>
    (pr_transaction p \<noteq> None \<and> pr_error p = None)"
    by (smt (verit) PlannedRow.select_convs list.set_intros(1) option.distinct(1) option.inject)
  then show ?case using Cons.IH Cons.prems by auto
qed simp

definition ready_rows :: "PlannedRow list \<Rightarrow> PlannedTransaction list" where
  "ready_rows ps = map (\<lambda>p. the (pr_transaction p)) (filter (\<lambda>p. pr_transaction p \<noteq> None \<and> \<not> pr_duplicate p) ps)"

lemma ready_keys:
  "distinct (map planned_key (ready_rows (plan_loop mapping options line rs seen))) \<and>
   set (map planned_key (ready_rows (plan_loop mapping options line rs seen))) \<inter> set seen = {}"
proof (induction rs arbitrary: line seen)
  case (Cons r rs)
  show ?case
  proof (cases "read_row mapping options r")
    case (Reading t)
    show ?thesis using Cons.IH [of "line + 1" "planned_key t # seen"] Reading by (auto simp: ready_rows_def)
  qed (use Cons.IH [of "line + 1" seen] in \<open>auto simp: ready_rows_def\<close>)
qed (simp add: ready_rows_def)

text \<open>C21: what a plan says. Each row of a plan is ready, a duplicate or a failure, and the three counts
  add up to the rows. A row that is ready stands for a line of the file, carries a valid date and, in
  the range of numbers, a positive whole amount. No two rows that are ready have the same day, amount
  and payee, and none of them is one the ledger has.\<close>

theorem plan_spec:
  assumes "planImport rs mapping options = plan"
  shows "ip_ready plan + ip_duplicates plan + ip_failed plan = length (ip_rows plan) \<and>
    length (ready_rows (ip_rows plan)) = ip_ready plan \<and>
    distinct (map planned_key (ready_rows (ip_rows plan))) \<and>
    set (map planned_key (ready_rows (ip_rows plan))) \<inter> set (io_existing options) = {} \<and>
    (\<forall>t \<in> set (ready_rows (ip_rows plan)). (\<exists>r \<in> set rs. read_row mapping options r = Reading t) \<and> is_ymd (pt_date t) \<and>
      (isFinite (pt_amount t) \<longrightarrow> (\<exists>n > 0. pt_amount t = minor n)))"
proof -
  let ?ps = "plan_loop mapping options 2 rs (io_existing options)"
  have plan: "ip_rows plan = ?ps" "ip_ready plan = length (filter (\<lambda>p. pr_transaction p \<noteq> None \<and> \<not> pr_duplicate p) ?ps)"
    "ip_duplicates plan = length (filter pr_duplicate ?ps)"
    "ip_failed plan = length (filter (\<lambda>p. pr_error p \<noteq> None \<and> pr_error p \<noteq> Some []) ?ps)"
    using assms by (auto simp: planImport_def Let_def)
  have count: "ip_ready plan + ip_duplicates plan + ip_failed plan = length ?ps"
    unfolding plan using plan_loop_mem [of _ mapping options 2 rs "io_existing options"]
    by (rule three_way)
  have "(\<exists>r \<in> set rs. read_row mapping options r = Reading t) \<and> is_ymd (pt_date t) \<and>
      (isFinite (pt_amount t) \<longrightarrow> (\<exists>n > 0. pt_amount t = minor n))" if "t \<in> set (ready_rows ?ps)" for t
  proof -
    from that obtain p where "p \<in> set ?ps" "pr_transaction p = Some t" by (auto simp: ready_rows_def)
    then obtain r where "r \<in> set rs" "read_row mapping options r = Reading t"
      using plan_loop_mem by (metis PlannedRow.select_convs(2) option.distinct(1) option.inject)
    then show ?thesis using read_row_Reading [of mapping options r t] by blast
  qed
  then show ?thesis using count plan ready_keys [of mapping options 2 rs "io_existing options"] by (simp add: ready_rows_def)
qed

section \<open>Writing a plan\<close>

definition importable :: "PlannedTransaction \<Rightarrow> bool" where
  "importable t \<longleftrightarrow> is_ymd (pt_date t) \<and> pt_kind t \<noteq> Transfer \<and> (\<exists>n > 0. pt_amount t = minor n)"

lemma import_transaction_ok:
  assumes "import_transaction d i created t categoryId accountId currency = Inr txn" and "importable t" and "accountId \<noteq> []"
  shows "transaction_assertValid txn = Inr ()" "txn_id txn = i"
    "duplicateKey (txn_date txn) (minor (txn_amount txn)) (txn_payee txn) = planned_key t"
  using assms
  by (auto simp: import_transaction_def importable_def transaction_assertValid_def planned_key_def falsy_def Let_def
      split: sum.splits if_splits)

definition row_keys :: "(nat \<Rightarrow> string) \<Rightarrow> nat \<Rightarrow> (EntityName \<times> string) set" where
  "row_keys uuid j = UNIV \<times> uuid ` {2 * j..}"

lemma row_keys_mono: "j \<le> k \<Longrightarrow> row_keys uuid k \<subseteq> row_keys uuid j"
  by (auto simp: row_keys_def)

lemma import_category_writes:
  assumes "import_category now (uuid (2 * j)) t byName l = (r, l')" and "\<forall>i. plausible (now i)"
  shows "writes (row_keys uuid j) l l'"
proof (cases "pt_categoryName t = [] \<or> byName (toLowerCase (pt_categoryName t)) \<noteq> None")
  case True
  then have "l' = l" using assms(1) by (auto simp: import_category_def return_def split: if_splits option.splits)
  then show ?thesis by simp
next
  case False
  let ?v = "CategoryRow (draft_category (int (now 0)) (import_draft (uuid (2 * j)) t))"
  obtain q m where q: "put (now 1) Categories ?v l = (q, m)" by fastforce
  have "l' = m" using assms(1) False q
    by (auto simp: import_category_def categories_save_def andThen_def return_def throw_def split: option.splits sum.splits AnyEntity.splits)
  moreover have "(Categories, entity_id ?v) \<in> row_keys uuid j" by (auto simp: row_keys_def draft_category_def import_draft_def)
  ultimately show ?thesis using q assms(2) by (auto intro!: writes_put [OF q])
qed

lemma import_row_effect:
  assumes "import_row now (uuid (2 * j + 1)) accountId currency t categoryId l = (r, l')" and "\<forall>i. plausible (now i)"
    and "importable t" and "accountId \<noteq> []"
  shows "writes (row_keys uuid j) l l'"
    "ledger_ok W dev l \<Longrightarrow> r = Inr () \<Longrightarrow> \<exists>txn. tget (tables (led_db l') Transactions) (uuid (2 * j + 1)) = Some (TransactionRow txn) \<and>
       duplicateKey (txn_date txn) (minor (txn_amount txn)) (txn_payee txn) = planned_key t"
proof -
  show "writes (row_keys uuid j) l l'"
  proof (cases "import_transaction (led_db l) (uuid (2 * j + 1)) (int (now 2)) t categoryId accountId currency")
    case (Inr txn)
    note ok = import_transaction_ok [OF Inr assms(3,4)]
    obtain q m where q: "put (now 3) Transactions (TransactionRow txn) l = (q, m)" by fastforce
    have "l' = m" using assms(1) Inr q by (cases q) (auto simp: import_row_def andThen_def return_def)
    moreover have "(Transactions, txn_id txn) \<in> row_keys uuid j" using ok(2) by (auto simp: row_keys_def)
    ultimately show ?thesis using q assms(2) ok(1) by (auto intro!: writes_put [OF q])
  qed (use assms(1) in \<open>simp add: import_row_def\<close>)
  assume W: "ledger_ok W dev l" and r: "r = Inr ()"
  obtain txn where t: "import_transaction (led_db l) (uuid (2 * j + 1)) (int (now 2)) t categoryId accountId currency = Inr txn"
    using assms(1) r by (auto simp: import_row_def split: sum.splits)
  note ok = import_transaction_ok [OF t assms(3,4)]
  obtain v where q: "put (now 3) Transactions (TransactionRow txn) l = (Inr v, l')"
    using assms(1) r t by (auto simp: import_row_def andThen_def return_def split: prod.splits sum.splits)
  from put_effect [OF W _ _ q] assms(2) obtain st where "v = with_updatedAt st (TransactionRow txn)"
    "tget (tables (led_db l') Transactions) (txn_id txn) = Some v" by auto
  then show "\<exists>txn. tget (tables (led_db l') Transactions) (uuid (2 * j + 1)) = Some (TransactionRow txn) \<and>
       duplicateKey (txn_date txn) (minor (txn_amount txn)) (txn_payee txn) = planned_key t"
    using ok(2,3) by auto
qed

lemma existingKeys_mem:
  assumes "ledger_ok W dev l"
  shows "k \<in> set (existingKeys (led_db l)) \<longleftrightarrow> (\<exists>i txn. tget (tables (led_db l) Transactions) i = Some (TransactionRow txn) \<and>
    k = duplicateKey (txn_date txn) (minor (txn_amount txn)) (txn_payee txn))"
proof -
  have "table_ok (tables (led_db l) Transactions)" using ledger_okD(1) [OF assms] by (simp add: db_ok_def)
  from rows_mem [OF this, of _ as_transaction]
  have "x \<in> set (rows as_transaction Transactions (led_db l)) \<longleftrightarrow> (\<exists>i. tget (tables (led_db l) Transactions) i = Some (TransactionRow x))" for x
    by (auto simp: row_def bind_eq_Some_conv as_Some)
  then show ?thesis unfolding existingKeys_def set_map by blast
qed

lemma import_planned_effect:
  assumes "import_planned now uuid accountId currency j t byName l = (r, l')" and "\<forall>i. plausible (now i)"
    and "accountId \<noteq> []" and "importable t" and "ledger_ok W dev l"
  shows "writes (row_keys uuid j) l l'"
    "r = Inr x \<Longrightarrow> \<exists>txn. tget (tables (led_db l') Transactions) (uuid (2 * j + 1)) = Some (TransactionRow txn) \<and>
       duplicateKey (txn_date txn) (minor (txn_amount txn)) (txn_payee txn) = planned_key t"
proof -
  have now: "\<forall>i. plausible (now (4 * j + i))" using assms(2) by blast
  obtain q1 l1 where c: "import_category (\<lambda>i. now (4 * j + i)) (uuid (2 * j)) t byName l = (q1, l1)" by fastforce
  have w1: "writes (row_keys uuid j) l l1" by (rule import_category_writes [where uuid = uuid and j = j, OF c now])
  obtain W1 where W1: "ledger_ok W1 dev l1" using writes_keeps [OF w1 assms(5)] by (auto simp: keeps_def)
  have "writes (row_keys uuid j) l l' \<and>
    (r = Inr x \<longrightarrow> (\<exists>txn. tget (tables (led_db l') Transactions) (uuid (2 * j + 1)) = Some (TransactionRow txn) \<and>
       duplicateKey (txn_date txn) (minor (txn_amount txn)) (txn_payee txn) = planned_key t))"
  proof (cases q1)
    case (Inl e)
    then show ?thesis using assms(1) c w1 by (auto simp: import_planned_def)
  next
    case (Inr y)
    obtain categoryId byName1 created where y: "y = (categoryId, byName1, created)" by (cases y)
    obtain q2 l2 where i: "import_row (\<lambda>i. now (4 * j + i)) (uuid (2 * j + 1)) accountId currency t categoryId l1 = (q2, l2)" by fastforce
    note eff = import_row_effect [where uuid = uuid and j = j, OF i now assms(4,3)]
    have "l' = l2" "r = Inr x \<Longrightarrow> q2 = Inr ()" using assms(1) c Inr y i by (cases q2; auto simp: import_planned_def andThen_def return_def)+
    then show ?thesis using w1 eff(1) eff(2) [OF W1] by (auto intro: rtranclp_trans)
  qed
  then show "writes (row_keys uuid j) l l'"
    "r = Inr x \<Longrightarrow> \<exists>txn. tget (tables (led_db l') Transactions) (uuid (2 * j + 1)) = Some (TransactionRow txn) \<and>
       duplicateKey (txn_date txn) (minor (txn_amount txn)) (txn_payee txn) = planned_key t" by blast+
qed

lemma key_kept:
  assumes "writes K l l'" and "ledger_ok W dev l" and "(Transactions, i) \<notin> K"
    and "tget (tables (led_db l) Transactions) i = Some (TransactionRow txn)"
  shows "duplicateKey (txn_date txn) (minor (txn_amount txn)) (txn_payee txn) \<in> set (existingKeys (led_db l'))"
proof -
  have k: "keeps K W dev l l'" by (rule writes_keeps [OF assms(1,2)])
  then obtain W' where W': "ledger_ok W' dev l'" by (auto simp: keeps_def)
  have "tget (tables (led_db l') Transactions) i = Some (TransactionRow txn)" using k assms(3,4) by (simp add: keeps_def)
  then show ?thesis using existingKeys_mem [OF W'] by blast
qed

lemma import_loop_effect:
  assumes "import_loop now uuid accountId currency incl j ps byName res l = (r, l')"
    and "\<forall>i. plausible (now i)" and "accountId \<noteq> []" and "inj uuid"
    and "\<forall>p \<in> set ps. \<forall>t. pr_transaction p = Some t \<longrightarrow> importable t" and "ledger_ok W dev l"
  shows "writes (row_keys uuid j) l l' \<and>
    (\<forall>res'. r = Inr res' \<longrightarrow>
      ir_imported res' = ir_imported res + length (filter (\<lambda>p. shouldImport p incl) ps) \<and>
      (\<forall>p \<in> set ps. shouldImport p incl \<longrightarrow> planned_key (the (pr_transaction p)) \<in> set (existingKeys (led_db l'))))"
  using assms(1,5,6)
proof (induction ps arbitrary: j byName res l W)
  case (Cons p ps)
  have good: "\<forall>p \<in> set ps. \<forall>t. pr_transaction p = Some t \<longrightarrow> importable t" using Cons.prems(2) by simp
  have mono: "writes (row_keys uuid (j + 1)) m l' \<Longrightarrow> writes (row_keys uuid j) m l'" for m
    by (erule writes_mono) (simp add: row_keys_mono)
  show ?case
  proof (cases "shouldImport p incl")
    case False
    then have "import_loop now uuid accountId currency incl (j + 1) ps byName (res\<lparr>ir_skipped := ir_skipped res + 1\<rparr>) l = (r, l')"
      using Cons.prems(1) by simp
    note ih = Cons.IH [OF this good Cons.prems(3)]
    from False have "filter (\<lambda>p. shouldImport p incl) (p # ps) = filter (\<lambda>p. shouldImport p incl) ps" by simp
    with mono [OF conjunct1 [OF ih]] conjunct2 [OF ih] False show ?thesis by (metis (no_types, lifting) ImportResult.select_convs(1) ImportResult.surjective ImportResult.update_convs(2) set_ConsD)
  next
    case True
    then obtain t where t: "pr_transaction p = Some t" by (auto simp: shouldImport_def split: option.splits)
    then have ok: "importable t" using Cons.prems(2) by simp
    obtain q l1 where q: "import_planned now uuid accountId currency j t byName l = (q, l1)" by fastforce
    note eff = import_planned_effect [OF q assms(2,3) ok Cons.prems(3)]
    obtain W1 where W1: "ledger_ok W1 dev l1" using writes_keeps [OF eff(1) Cons.prems(3)] by (auto simp: keeps_def)
    show ?thesis
    proof (cases q)
      case (Inl e)
      then show ?thesis using Cons.prems(1) True t q eff(1) by auto
    next
      case (Inr x)
      obtain byName1 created where x: "x = (byName1, created)" by (cases x)
      have rest: "import_loop now uuid accountId currency incl (j + 1) ps byName1
          (res\<lparr>ir_imported := ir_imported res + 1, ir_categoriesCreated := ir_categoriesCreated res @ created\<rparr>) l1 = (r, l')"
        using Cons.prems(1) True t q x Inr by simp
      note ih = Cons.IH [OF rest good W1]
      have "(Transactions, uuid (2 * j + 1)) \<notin> row_keys uuid (j + 1)" using assms(4) by (auto simp: row_keys_def dest: injD)
      then have "planned_key t \<in> set (existingKeys (led_db l'))"
        using key_kept [OF conjunct1 [OF ih] W1] eff(2) [OF Inr] by metis
      moreover have "writes (row_keys uuid j) l l'" using eff(1) mono [OF conjunct1 [OF ih]] by (rule rtranclp_trans)
      moreover from True have "length (filter (\<lambda>p. shouldImport p incl) (p # ps)) = Suc (length (filter (\<lambda>p. shouldImport p incl) ps))" by simp
      ultimately show ?thesis using conjunct2 [OF ih] t by fastforce
    qed
  qed
qed auto

lemma read_row_existing [simp]: "read_row mapping (options\<lparr>io_existing := keys\<rparr>) r = read_row mapping options r"
proof -
  have "io_dayFirst (options\<lparr>io_existing := keys\<rparr>) = io_dayFirst options" "io_currency (options\<lparr>io_existing := keys\<rparr>) = io_currency options"
    by simp_all
  then show ?thesis unfolding read_row_def by presburger
qed

lemma plan_loop_covers:
  assumes "r \<in> set rs" and "read_row mapping options r = Reading t"
  shows "planned_key t \<in> set seen \<union> planned_key ` set (ready_rows (plan_loop mapping options line rs seen))"
  using assms(1)
proof (induction rs arbitrary: line seen)
  case (Cons a rs)
  show ?case
  proof (cases "r = a")
    case True
    then show ?thesis using assms(2) by (auto simp: ready_rows_def)
  next
    case False
    then have m: "r \<in> set rs" using Cons.prems by simp
    show ?thesis
    proof (cases "read_row mapping options a")
      case (Reading u)
      show ?thesis using Cons.IH [OF m, of "planned_key u # seen" "line + 1"] Reading by (auto simp: ready_rows_def)
    qed (use Cons.IH [OF m, of seen "line + 1"] in \<open>auto simp: ready_rows_def\<close>)
  qed
qed simp

lemma plan_loop_none_ready:
  assumes "\<forall>r \<in> set rs. \<forall>t. read_row mapping options r = Reading t \<longrightarrow> planned_key t \<in> set seen"
  shows "filter (\<lambda>p. pr_transaction p \<noteq> None \<and> \<not> pr_duplicate p) (plan_loop mapping options line rs seen) = []"
  using assms
proof (induction rs arbitrary: line seen)
  case (Cons a rs)
  then show ?case by (cases "read_row mapping options a") auto
qed simp

lemma plan_importable:
  assumes "p \<in> set (ip_rows (planImport rs mapping options))" and "pr_transaction p = Some t" and "isFinite (pt_amount t)"
  shows "importable t"
proof -
  have "p \<in> set (plan_loop mapping options 2 rs (io_existing options))" using assms(1) by (simp add: planImport_def Let_def)
  then obtain r where "read_row mapping options r = Reading t"
    using plan_loop_mem assms(2) by (metis PlannedRow.select_convs(2) option.distinct(1) option.inject)
  then show ?thesis using read_row_Reading [of mapping options r t] assms(3) by (simp add: importable_def)
qed

lemma planImport_simps:
  "ip_rows (planImport rs mapping options) = plan_loop mapping options 2 rs (io_existing options)"
  "ip_ready (planImport rs mapping options) =
     length (filter (\<lambda>p. pr_transaction p \<noteq> None \<and> \<not> pr_duplicate p) (plan_loop mapping options 2 rs (io_existing options)))"
  by (simp_all add: planImport_def Let_def)

lemma plan_loop_existing [simp]: "plan_loop mapping (options\<lparr>io_existing := keys\<rparr>) line rs seen = plan_loop mapping options line rs seen"
  by (induction rs arbitrary: line seen) (simp_all split: row_reading.split)

lemma shouldImport_ready: "shouldImport p False \<longleftrightarrow> pr_transaction p \<noteq> None \<and> \<not> pr_duplicate p"
  by (auto simp: shouldImport_def split: option.split)

text \<open>Importing a file again adds nothing. Writing the plan of a file, made against what the ledger
  held, writes as many transactions as the plan called ready and touches no row that was there; the
  rows it writes pass the checks of the transactions service, which the import goes round. When the
  same file is planned again, no row is ready. The identifiers drawn are new and the amounts are in the
  range of numbers.\<close>

theorem import_again:
  assumes "ledger_ok W dev l" and "\<forall>i. plausible (now i)" and "accountId \<noteq> []" and "inj uuid"
    and "\<forall>i. tget (tables (led_db l) Transactions) (uuid i) = None"
    and "planImport rs mapping (options\<lparr>io_existing := existingKeys (led_db l)\<rparr>) = plan"
    and "\<forall>p \<in> set (ip_rows plan). \<forall>t. pr_transaction p = Some t \<longrightarrow> isFinite (pt_amount t)"
    and "apply_import now uuid plan accountId currency False l = (Inr res, l')"
  shows "ir_imported res = ip_ready plan \<and>
    ip_ready (planImport rs mapping (options\<lparr>io_existing := existingKeys (led_db l')\<rparr>)) = 0 \<and>
    (\<exists>W'. ledger_ok W' dev l') \<and> (rows_valid l \<longrightarrow> rows_valid l') \<and>
    (\<forall>e i. i \<notin> range uuid \<longrightarrow> tget (tables (led_db l') e) i = tget (tables (led_db l) e) i)"
proof -
  let ?seen = "existingKeys (led_db l)"
  have good: "\<forall>p \<in> set (ip_rows plan). \<forall>t. pr_transaction p = Some t \<longrightarrow> importable t"
    using assms(6,7) plan_importable by blast
  from import_loop_effect [OF assms(8) [unfolded apply_import_def Let_def] assms(2,3,4) good assms(1)]
  have w: "writes (row_keys uuid 0) l l'" and n: "ir_imported res = length (filter (\<lambda>p. shouldImport p False) (ip_rows plan))"
    and keys: "\<forall>p \<in> set (ip_rows plan). shouldImport p False \<longrightarrow> planned_key (the (pr_transaction p)) \<in> set (existingKeys (led_db l'))"
    by simp_all
  have k: "keeps (row_keys uuid 0) W dev l l'" by (rule writes_keeps [OF w assms(1)])
  have old: "set ?seen \<subseteq> set (existingKeys (led_db l'))"
  proof
    fix x assume "x \<in> set ?seen"
    then obtain i txn where x: "tget (tables (led_db l) Transactions) i = Some (TransactionRow txn)"
      "x = duplicateKey (txn_date txn) (minor (txn_amount txn)) (txn_payee txn)" using existingKeys_mem [OF assms(1)] by blast
    then have "(Transactions, i) \<notin> row_keys uuid 0" using assms(5) by (auto simp: row_keys_def)
    then show "x \<in> set (existingKeys (led_db l'))" using key_kept [OF w assms(1)] x by simp
  qed
  have plan: "ip_rows plan = plan_loop mapping options 2 rs ?seen" using assms(6) by (auto simp: planImport_simps)
  have new: "planned_key ` set (ready_rows (plan_loop mapping options 2 rs ?seen)) \<subseteq> set (existingKeys (led_db l'))"
    using keys by (auto simp: ready_rows_def plan shouldImport_ready)
  have "\<forall>r \<in> set rs. \<forall>t. read_row mapping options r = Reading t \<longrightarrow> planned_key t \<in> set (existingKeys (led_db l'))"
    using plan_loop_covers [of _ rs mapping options _ ?seen 2] old new by blast
  then have "ip_ready (planImport rs mapping (options\<lparr>io_existing := existingKeys (led_db l')\<rparr>)) = 0"
    using plan_loop_none_ready by (simp add: planImport_simps)
  moreover have "ir_imported res = ip_ready plan"
    using n plan assms(6) by (auto simp: planImport_simps shouldImport_ready)
  ultimately show ?thesis using k by (auto simp: keeps_def row_keys_def)
qed

section \<open>Witnesses\<close>

definition sample_file :: "string list list" where
  "sample_file = [[''2024-01-02'', ''-500'', '' Shop''], [''soon'', ''1'', []]]"

definition sample_options :: ImportOptions where
  "sample_options = \<lparr>io_accountId = ''acc'', io_currency = ''JPY'', io_dayFirst = True, io_existing = []\<rparr>"

definition sample_mapping :: ColumnMapping where
  "sample_mapping = detectColumns [''Date'', ''Amount'', ''Payee'']"

definition sample_uuid :: "nat \<Rightarrow> string" where
  "sample_uuid n = replicate n CHR ''x''"

definition sample_planned :: PlannedTransaction where
  "sample_planned = \<lparr>pt_date = ''2024-01-02'', pt_amount = minor 500, pt_kind = Expense, pt_payee = ''Shop'', pt_note = [], pt_categoryName = []\<rparr>"

abbreviation "sample_plan \<equiv> planImport sample_file sample_mapping sample_options"

lemma sample_amount: "parseAmountCell ''-500'' ''JPY'' = Some (minor (- 500))"
proof -
  have c: "normalise_separators ''500'' = ''500''" "minorUnitExponent ''JPY'' = 0" "in_parentheses ''-500'' = False"
    "trim (filter (\<lambda>c. is_digit c \<or> c \<in> {comma, CHR ''.'', CHR ''-''}) ''-500'') = ''-500''"
    "trim ''-500'' = ''-500''" "decimal_value ''500'' = Some 500" by code_simp+
  have "fl 500 = Fin 500" "fl 1 = Fin 1" "Math_round (Fin 500) = Fin 500"
    using fl_int [of 500] fl_int [of 1] by (simp_all add: floor_eq_iff)
  then show ?thesis using c by (simp add: parseAmountCell_def js_Number_of_def pow10_def)
qed

lemma sample_readings:
  "read_row sample_mapping sample_options [''2024-01-02'', ''-500'', '' Shop''] = Reading sample_planned"
  "\<exists>msg. read_row sample_mapping sample_options [''soon'', ''1'', []] = Problem msg"
proof -
  have m: "cm_date sample_mapping = 0" "cm_amount sample_mapping = 1" "cm_payee sample_mapping = Some 2"
    "cm_note sample_mapping = None" "cm_category sample_mapping = None" by code_simp+
  have t: "trim ''2024-01-02'' = ''2024-01-02''" "trim '' Shop'' = ''Shop''" "trim ''soon'' = ''soon''" "trim [] = []"
    "parseDate ''2024-01-02'' True = Some ''2024-01-02''" "parseDate ''soon'' True = None" by code_simp+
  show "read_row sample_mapping sample_options [''2024-01-02'', ''-500'', '' Shop''] = Reading sample_planned"
    by (simp add: read_row_def cell_def optional_cell_def m t sample_options_def sample_amount sample_planned_def)
  show "\<exists>msg. read_row sample_mapping sample_options [''soon'', ''1'', []] = Problem msg"
    by (simp add: read_row_def cell_def m t sample_options_def)
qed

lemma sample_plan_rows:
  "\<exists>msg. ip_rows sample_plan =
     [\<lparr>pr_line = 2, pr_transaction = Some sample_planned, pr_error = None, pr_duplicate = False\<rparr>,
      \<lparr>pr_line = 3, pr_transaction = None, pr_error = Some msg, pr_duplicate = False\<rparr>]"
  using sample_readings by (auto simp: planImport_simps sample_file_def sample_options_def)

theorem plan_spec_witness:
  "distinct (map planned_key (ready_rows (ip_rows sample_plan))) \<and> ip_ready sample_plan + ip_duplicates sample_plan + ip_failed sample_plan = 2"
proof -
  have "length (ip_rows sample_plan) = 2" using sample_plan_rows by auto
  then show ?thesis using plan_spec [OF refl, of sample_file sample_mapping sample_options] by simp
qed

theorem import_again_witness:
  "ip_ready (planImport sample_file sample_mapping (sample_options\<lparr>io_existing :=
     existingKeys (led_db (snd (apply_import (\<lambda>_. 1000) sample_uuid sample_plan ''acc'' ''JPY'' False (new_ledger ''a''))))\<rparr>)) = 0"
proof -
  let ?l = "new_ledger ''a''"
  have "isl (fst (import_planned (\<lambda>_. 1000) sample_uuid ''acc'' ''JPY'' 0 sample_planned Map.empty ?l)) = False" by code_simp
  then obtain x l1 where "import_planned (\<lambda>_. 1000) sample_uuid ''acc'' ''JPY'' 0 sample_planned Map.empty ?l = (Inr x, l1)"
    by (metis isl_def prod.collapse sum.exhaust)
  then have "\<not> isl (fst (apply_import (\<lambda>_. 1000) sample_uuid sample_plan ''acc'' ''JPY'' False ?l))"
    using sample_plan_rows
    by (cases x) (auto simp: apply_import_def all_categories_def rows_def new_ledger_def initialise_def new_db_def toArray_def shouldImport_def)
  then obtain res where res: "apply_import (\<lambda>_. 1000) sample_uuid sample_plan ''acc'' ''JPY'' False ?l =
      (Inr res, snd (apply_import (\<lambda>_. 1000) sample_uuid sample_plan ''acc'' ''JPY'' False ?l))"
    by (metis isl_def prod.collapse sum.exhaust)
  have "device_ok ''a''" by code_simp
  then have W: "ledger_ok {} ''a'' ?l" by (rule new_ledger_ok)
  have inj: "inj sample_uuid" by (auto simp: sample_uuid_def inj_def dest: arg_cong [of _ _ length])
  have plan: "planImport sample_file sample_mapping (sample_options\<lparr>io_existing := existingKeys (led_db ?l)\<rparr>) = sample_plan"
    by (simp add: sample_options_def existingKeys_def rows_def new_ledger_def initialise_def new_db_def toArray_def)
  have fin: "\<forall>p \<in> set (ip_rows sample_plan). \<forall>t. pr_transaction p = Some t \<longrightarrow> isFinite (pt_amount t)"
    using sample_plan_rows by (auto simp: sample_planned_def)
  have pre: "\<forall>i :: nat. plausible 1000" "''acc'' \<noteq> []" "\<forall>i. tget (tables (led_db ?l) Transactions) (sample_uuid i) = None"
    by (simp_all add: plausible_small new_ledger_def initialise_def new_db_def)
  show ?thesis using import_again [OF W pre(1,2) inj pre(3) plan fin res] by blast
qed

end
