(* ===== verification/Envelope.thy ===== *)
theory Envelope
  imports Prelude "HOL-Library.Word"
begin

text \<open>
  The container of everything that leaves a device (\<open>core/crypto/envelope.ts\<close>) and the service
  that seals and opens it (\<open>core/crypto/crypto.service.ts\<close>). The platform is a parameter: AES-GCM,
  PBKDF2 and the conversion of a key to and from its raw bytes are Web Crypto's, and the two
  conversions between values and bytes stand for JSON together with UTF-8. Random bytes are
  arguments. A byte is an 8-bit word and an array is written by position, as the code does. The
  lemmas show the round trips, that a header reads back exactly as it was written, every way a
  malformed envelope is refused, and that the bytes an envelope was opened from are determined by
  what was found inside.
\<close>

section \<open>Bytes\<close>

type_synonym byte = "8 word"
type_synonym bytes = "byte list"

text \<open>\<open>out.set(xs, i)\<close>, which throws a \<open>RangeError\<close> when the bytes do not fit; the callers allocate
  enough.\<close>

definition set_at :: "nat \<Rightarrow> bytes \<Rightarrow> bytes \<Rightarrow> bytes" where
  "set_at i xs out = take i out @ xs @ drop (i + length xs) out"

definition setUint16 :: "nat \<Rightarrow> nat \<Rightarrow> bytes \<Rightarrow> bytes" where
  "setUint16 i n = set_at i [word_of_nat (n div 256), word_of_nat (n mod 256)]"

definition getUint16 :: "nat \<Rightarrow> bytes \<Rightarrow> nat" where
  "getUint16 i xs = 256 * unat (xs ! i) + unat (xs ! (i + 1))"

section \<open>The envelope\<close>

definition ENVELOPE_MAGIC :: bytes where "ENVELOPE_MAGIC = [0x45, 0x44, 0x43, 0x4b]"
definition ENVELOPE_VERSION :: byte where "ENVELOPE_VERSION = 1"
definition ALG_AES_256_GCM :: byte where "ALG_AES_256_GCM = 1"
definition IV_LENGTH :: nat where "IV_LENGTH = 12"
definition HEADER_OFFSET :: nat where "HEADER_OFFSET = 20"

lemmas envelope_consts = ENVELOPE_MAGIC_def ENVELOPE_VERSION_def ALG_AES_256_GCM_def IV_LENGTH_def HEADER_OFFSET_def

record EnvelopeHeader =
  hd_v :: string
  hd_d :: string
  hd_h :: string
  hd_t :: string

record ParsedEnvelope =
  env_header :: EnvelopeHeader
  env_iv :: bytes
  env_payload :: bytes
  env_aad :: bytes

text \<open>The platform: \<open>to_json\<close> is \<open>TextEncoder\<close> after \<open>JSON.stringify\<close>, and \<open>from_json\<close> is
  \<open>JSON.parse\<close> after \<open>TextDecoder\<close>, which fails on text that is not JSON.\<close>

record 'a json =
  to_json :: "'a \<Rightarrow> bytes"
  from_json :: "bytes \<Rightarrow> 'a option"

definition serialiseEnvelope :: "EnvelopeHeader json \<Rightarrow> EnvelopeHeader \<Rightarrow> bytes \<Rightarrow> bytes \<Rightarrow> bytes result" where
  "serialiseEnvelope J header iv payload =
     (if length iv \<noteq> IV_LENGTH
      then Inl (EnvelopeFormatError (''IV must be 12 bytes, got '' @ String_of (length iv)))
      else
        let headerBytes = to_json J header
        in if length headerBytes > 0xffff then Inl (EnvelopeFormatError ''Envelope header exceeds 64 KiB'')
           else
             let out = replicate (HEADER_OFFSET + length headerBytes + length payload) 0;
                 out = set_at 0 ENVELOPE_MAGIC out;
                 out = out[4 := ENVELOPE_VERSION];
                 out = out[5 := ALG_AES_256_GCM];
                 out = setUint16 6 (length headerBytes) out;
                 out = set_at 8 iv out;
                 out = set_at HEADER_OFFSET headerBytes out
             in Inr (set_at (HEADER_OFFSET + length headerBytes) payload out))"

definition parseEnvelope :: "EnvelopeHeader json \<Rightarrow> bytes \<Rightarrow> ParsedEnvelope result" where
  "parseEnvelope J xs =
     (if length xs < HEADER_OFFSET then Inl (EnvelopeFormatError ''Envelope truncated before header'')
      else if \<exists>i \<in> set [0..<length ENVELOPE_MAGIC]. xs ! i \<noteq> ENVELOPE_MAGIC ! i
      then Inl (EnvelopeFormatError ''Not an Easy Docket envelope'')
      else if xs ! 4 \<noteq> ENVELOPE_VERSION
      then Inl (EnvelopeFormatError (''Unsupported envelope version '' @ String_of (unat (xs ! 4))))
      else if xs ! 5 \<noteq> ALG_AES_256_GCM
      then Inl (EnvelopeFormatError (''Unsupported algorithm '' @ String_of (unat (xs ! 5))))
      else
        let headerLen = getUint16 6 xs;
            payloadStart = HEADER_OFFSET + headerLen
        in if length xs < payloadStart then Inl (EnvelopeFormatError ''Envelope truncated inside header'')
           else
             let iv = Prelude.slice 8 (8 + IV_LENGTH) xs;
                 aad = Prelude.slice HEADER_OFFSET payloadStart xs
             in case from_json J aad of
                  None \<Rightarrow> Inl (EnvelopeFormatError ''Envelope header is not valid JSON'')
                | Some header \<Rightarrow>
                    Inr \<lparr>env_header = header, env_iv = iv, env_payload = drop payloadStart xs, env_aad = aad\<rparr>)"

section \<open>The layout\<close>

definition uint16 :: "nat \<Rightarrow> bytes" where
  "uint16 n = [word_of_nat (n div 256), word_of_nat (n mod 256)]"

definition layout :: "bytes \<Rightarrow> bytes \<Rightarrow> bytes \<Rightarrow> bytes" where
  "layout iv aad payload =
     ENVELOPE_MAGIC @ [ENVELOPE_VERSION, ALG_AES_256_GCM] @ uint16 (length aad) @ iv @ aad @ payload"

lemma unat_word_of_nat_8 [simp]: "n < 256 \<Longrightarrow> unat (word_of_nat n :: byte) = n"
  by (simp add: unsigned_of_nat take_bit_nat_eq_self)

lemma unat_byte_less: "unat (b :: byte) < 256"
  using unsigned_less [of b, where 'a = nat] by simp

lemma getUint16_uint16: "n \<le> 0xffff \<Longrightarrow> length xs = i \<Longrightarrow> getUint16 i (xs @ uint16 n @ ys) = n"
  by (simp add: getUint16_def uint16_def nth_append)

lemma uint16_getUint16: "[a, b] = uint16 (256 * unat a + unat b)" for a b :: byte
proof -
  show ?thesis using unat_byte_less [of a] unat_byte_less [of b] by (simp add: uint16_def)
qed

lemma magic_upt: "[0..<Suc (Suc (Suc (Suc 0)))] = [0, 1, 2, 3]"
  by (simp add: upt_rec)

lemma drop_header: "drop (20 + n) (a0 # a1 # a2 # a3 # a4 # a5 # a6 # a7 # ys) = drop (12 + n) ys"
  using drop_drop [of "12 + n" 8 "a0 # a1 # a2 # a3 # a4 # a5 # a6 # a7 # ys"] by (simp add: add.commute)

lemma take_header: "take (20 + n) (a0 # a1 # a2 # a3 # a4 # a5 # a6 # a7 # ys) = a0 # a1 # a2 # a3 # a4 # a5 # a6 # a7 # take (12 + n) ys"
  by (simp add: take_Cons')

lemma set_at_append: "length pre = i \<Longrightarrow> length mid = length xs \<Longrightarrow> set_at i xs (pre @ mid @ post) = pre @ xs @ post"
  by (simp add: set_at_def)

lemma serialise_layout:
  assumes "length iv = IV_LENGTH" and "length (to_json J header) \<le> 0xffff"
  shows "serialiseEnvelope J header iv payload = Inr (layout iv (to_json J header) payload)"
proof -
  let ?aad = "to_json J header" and ?m = "length (to_json J header)" and ?n = "length payload"
  let ?mid = "replicate 12 (0 :: byte) @ replicate ?m 0 @ replicate ?n 0"
  have z: "replicate (HEADER_OFFSET + ?m + ?n) (0 :: byte) = [] @ replicate 4 0 @ [0, 0, 0, 0] @ ?mid"
    by (simp add: HEADER_OFFSET_def replicate_add [symmetric] eval_nat_numeral)
  note step = set_at_append
  have 1: "set_at 0 ENVELOPE_MAGIC ([] @ replicate 4 0 @ [0, 0, 0, 0] @ ?mid) = ENVELOPE_MAGIC @ [0, 0, 0, 0] @ ?mid"
    by (subst step) (simp_all add: envelope_consts)
  have 2: "(ENVELOPE_MAGIC @ [0, 0, 0, 0] @ ?mid)[4 := ENVELOPE_VERSION, 5 := ALG_AES_256_GCM] =
      (ENVELOPE_MAGIC @ [ENVELOPE_VERSION, ALG_AES_256_GCM]) @ [0, 0] @ ?mid"
    by (simp add: ENVELOPE_MAGIC_def eval_nat_numeral)
  have 3: "setUint16 6 ?m ((ENVELOPE_MAGIC @ [ENVELOPE_VERSION, ALG_AES_256_GCM]) @ [0, 0] @ ?mid) =
      (ENVELOPE_MAGIC @ [ENVELOPE_VERSION, ALG_AES_256_GCM] @ uint16 ?m) @ ?mid"
    unfolding setUint16_def uint16_def by (subst step) (simp_all add: ENVELOPE_MAGIC_def)
  have 4: "set_at 8 iv ((ENVELOPE_MAGIC @ [ENVELOPE_VERSION, ALG_AES_256_GCM] @ uint16 ?m) @ ?mid) =
      (ENVELOPE_MAGIC @ [ENVELOPE_VERSION, ALG_AES_256_GCM] @ uint16 ?m @ iv) @ replicate ?m 0 @ replicate ?n 0"
    using assms(1) by (subst step) (simp_all add: ENVELOPE_MAGIC_def IV_LENGTH_def uint16_def)
  have 5: "set_at HEADER_OFFSET ?aad ((ENVELOPE_MAGIC @ [ENVELOPE_VERSION, ALG_AES_256_GCM] @ uint16 ?m @ iv) @ replicate ?m 0 @ replicate ?n 0)
      = (ENVELOPE_MAGIC @ [ENVELOPE_VERSION, ALG_AES_256_GCM] @ uint16 ?m @ iv @ ?aad) @ replicate ?n 0 @ []"
    using assms(1) by (subst step) (simp_all add: ENVELOPE_MAGIC_def IV_LENGTH_def uint16_def HEADER_OFFSET_def)
  have 6: "set_at (HEADER_OFFSET + ?m) payload ((ENVELOPE_MAGIC @ [ENVELOPE_VERSION, ALG_AES_256_GCM] @ uint16 ?m @ iv @ ?aad) @ replicate ?n 0 @ [])
      = layout iv ?aad payload"
    using assms(1) by (subst step) (simp_all add: ENVELOPE_MAGIC_def IV_LENGTH_def uint16_def HEADER_OFFSET_def layout_def)
  show ?thesis using assms unfolding serialiseEnvelope_def Let_def z 1 2 3 4 5 6 by simp
qed

lemma parse_layout:
  assumes "length iv = IV_LENGTH" and "length aad \<le> 0xffff"
  shows "parseEnvelope J (layout iv aad payload) =
    (case from_json J aad of
       None \<Rightarrow> Inl (EnvelopeFormatError ''Envelope header is not valid JSON'')
     | Some header \<Rightarrow> Inr \<lparr>env_header = header, env_iv = iv, env_payload = payload, env_aad = aad\<rparr>)"
proof -
  have "getUint16 6 (layout iv aad payload) = length aad"
    using getUint16_uint16 [OF assms(2), of "ENVELOPE_MAGIC @ [ENVELOPE_VERSION, ALG_AES_256_GCM]" 6 "iv @ aad @ payload"]
    by (simp add: layout_def envelope_consts)
  then show ?thesis using assms(1)
    by (simp add: parseEnvelope_def layout_def envelope_consts uint16_def Prelude.slice_def magic_upt drop_header
        take_header Let_def split: option.split)
qed

text \<open>Whatever parses has the layout.\<close>

lemma parse_inverse:
  assumes "parseEnvelope J xs = Inr e"
  shows "xs = layout (env_iv e) (env_aad e) (env_payload e)" "length (env_iv e) = IV_LENGTH"
    "length (env_aad e) \<le> 0xffff" "from_json J (env_aad e) = Some (env_header e)"
proof -
  have len: "\<not> length xs < 20" using assms by (auto simp: parseEnvelope_def HEADER_OFFSET_def split: if_splits)
  then obtain a0 a1 a2 a3 a4 a5 a6 a7 ys where xs: "xs = a0 # a1 # a2 # a3 # a4 # a5 # a6 # a7 # ys" "12 \<le> length ys"
    by (auto simp: not_less numeral_eq_Suc Suc_le_length_iff)
  define n where "n = 256 * unat a6 + unat a7"
  have n: "n \<le> 0xffff" using unat_byte_less [of a6] unat_byte_less [of a7] by (simp add: n_def)
  have g: "getUint16 6 xs = n" by (simp add: getUint16_def xs n_def)
  have u: "[a6, a7] = uint16 n" unfolding n_def by (rule uint16_getUint16)
  have parts: "a0 = 0x45" "a1 = 0x44" "a2 = 0x43" "a3 = 0x4b" "a4 = 1" "a5 = 1" "n \<le> length ys - 12"
    "env_iv e = take 12 ys" "env_aad e = take n (drop 12 ys)" "env_payload e = drop (12 + n) ys"
    "from_json J (env_aad e) = Some (env_header e)"
    using assms xs(2) unfolding parseEnvelope_def g
    by (auto simp: envelope_consts xs(1) magic_upt Prelude.slice_def drop_take drop_header Let_def
        split: if_splits option.splits)
  show "length (env_iv e) = IV_LENGTH" "length (env_aad e) \<le> 0xffff" "from_json J (env_aad e) = Some (env_header e)"
    using parts xs(2) n by (simp_all add: IV_LENGTH_def)
  have "ys = take 12 ys @ take n (drop 12 ys) @ drop (12 + n) ys"
    by (metis append_take_drop_id drop_drop add.commute)
  then show "xs = layout (env_iv e) (env_aad e) (env_payload e)"
    using parts u xs by (simp add: layout_def envelope_consts)
qed

section \<open>Base64\<close>

definition BASE64 :: string where
  "BASE64 = ''ABCDEFGHIJKLMNOPQRSTUVWXYZabcdefghijklmnopqrstuvwxyz0123456789+/''"

fun sextets :: "bytes \<Rightarrow> nat list" where
  "sextets [] = []"
| "sextets [a] = (let n = unat a * 16 in [n div 64, n mod 64])"
| "sextets [a, b] = (let n = (unat a * 256 + unat b) * 4 in [n div 4096, n div 64 mod 64, n mod 64])"
| "sextets (a # b # c # xs) =
     (let n = (unat a * 256 + unat b) * 256 + unat c
      in n div 262144 # n div 4096 mod 64 # n div 64 mod 64 # n mod 64 # sextets xs)"

text \<open>Bits left over at the end are dropped, as \<open>atob\<close> does.\<close>

fun octets :: "nat list \<Rightarrow> bytes" where
  "octets [] = []"
| "octets [a] = []"
| "octets [a, b] = [word_of_nat ((a * 64 + b) div 16)]"
| "octets [a, b, c] = (let n = ((a * 64 + b) * 64 + c) div 4 in [word_of_nat (n div 256), word_of_nat (n mod 256)])"
| "octets (a # b # c # d # xs) =
     (let n = ((a * 64 + b) * 64 + c) * 64 + d
      in word_of_nat (n div 65536) # word_of_nat (n div 256 mod 256) # word_of_nat (n mod 256) # octets xs)"

definition toBase64 :: "bytes \<Rightarrow> string" where
  "toBase64 xs = map ((!) BASE64) (sextets xs) @ replicate ((3 - length xs mod 3) mod 3) CHR ''=''"

definition sextet_of :: "char \<Rightarrow> nat option" where
  "sextet_of c = (let i = length (takeWhile (\<lambda>d. d \<noteq> c) BASE64) in if i < 64 then Some i else None)"

definition ascii_space :: "char \<Rightarrow> bool" where
  "ascii_space c \<longleftrightarrow> of_char c \<in> {9, 10, 12, 13, 32 :: nat}"

definition strip_padding :: "string \<Rightarrow> string" where
  "strip_padding s =
     (if length s mod 4 \<noteq> 0 \<or> s = [] \<or> last s \<noteq> CHR ''='' then s
      else let t = butlast s in if t \<noteq> [] \<and> last t = CHR ''='' then butlast t else t)"

definition fromBase64 :: "string \<Rightarrow> bytes result" where
  "fromBase64 s =
     (let t = strip_padding (filter (\<lambda>c. \<not> ascii_space c) s);
          vs = map sextet_of t
      in if length t mod 4 = 1 \<or> None \<in> set vs then Inl InvalidCharacterError
         else Inr (octets (map the vs)))"

lemma sextets_less: "d \<in> set (sextets xs) \<Longrightarrow> d < 64"
proof (induction xs rule: sextets.induct)
  case (2 a)
  then show ?case using unat_byte_less [of a] by (auto simp: Let_def)
next
  case (3 a b)
  then show ?case using unat_byte_less [of a] unat_byte_less [of b] by (auto simp: Let_def)
next
  case (4 a b c xs)
  have "((unat a * 256 + unat b) * 256 + unat c) div 262144 < 64"
    using unat_byte_less [of a] unat_byte_less [of b] unat_byte_less [of c] by simp
  with 4 show ?case by (auto simp: Let_def)
qed simp

lemma digits64:
  fixes n :: nat
  shows "(n div 4096 * 64 + n div 64 mod 64) * 64 + n mod 64 = n"
    "((n div 262144 * 64 + n div 4096 mod 64) * 64 + n div 64 mod 64) * 64 + n mod 64 = n"
proof -
  have "n div 4096 = n div 64 div 64" "n div 262144 = n div 64 div 64 div 64" by (simp_all add: div_mult2_eq [symmetric])
  then show "(n div 4096 * 64 + n div 64 mod 64) * 64 + n mod 64 = n"
    "((n div 262144 * 64 + n div 4096 mod 64) * 64 + n div 64 mod 64) * 64 + n mod 64 = n"
    by (simp_all only: div_mult_mod_eq)
qed

lemma octets_sextets: "octets (sextets xs) = xs"
proof (induction xs rule: sextets.induct)
  case (2 a)
  have "unat a * 16 div 64 * 64 + unat a * 16 mod 64 = unat a * 16" by (rule div_mult_mod_eq)
  then have "(unat a * 16 div 64 * 64 + unat a * 16 mod 64) div 16 = unat a" by simp
  then show ?case by (simp only: sextets.simps octets.simps Let_def) simp
next
  case (3 a b)
  define n where "n = unat a * 256 + unat b"
  have "((n * 4 div 4096 * 64 + n * 4 div 64 mod 64) * 64 + n * 4 mod 64) div 4 = n" unfolding digits64(1) by simp
  moreover have "n div 256 = unat a" "n mod 256 = unat b" using unat_byte_less [of b] by (simp_all add: n_def)
  ultimately show ?case by (simp only: sextets.simps octets.simps Let_def n_def [symmetric]) simp
next
  case (4 a b c xs)
  define n where "n = (unat a * 256 + unat b) * 256 + unat c"
  have c: "n div 256 = unat a * 256 + unat b" "n mod 256 = unat c"
    using unat_byte_less [of c] by (simp add: n_def, simp only: n_def mod_mult_self3 mod_less)
  have "n div 65536 = n div 256 div 256" by (simp add: div_mult2_eq [symmetric])
  then have "n div 65536 = unat a" "n div 256 mod 256 = unat b" using unat_byte_less [of b] by (simp_all add: c(1))
  with c(2) show ?case using 4 by (simp only: sextets.simps octets.simps Let_def n_def [symmetric] digits64(2)) simp
qed simp

lemma sextet_chars: "distinct BASE64" "length BASE64 = 64"
    "list_all (\<lambda>c. \<not> ascii_space c \<and> c \<noteq> CHR ''='') BASE64"
  by code_simp+

lemma takeWhile_distinct: "distinct xs \<Longrightarrow> i < length xs \<Longrightarrow> takeWhile (\<lambda>d. d \<noteq> xs ! i) xs = take i xs"
  by (rule takeWhile_eq_take_P_nth) (auto simp: nth_eq_iff_index_eq)

lemma sextet_char:
  assumes "d < 64"
  shows "sextet_of (BASE64 ! d) = Some d" "\<not> ascii_space (BASE64 ! d)" "BASE64 ! d \<noteq> CHR ''=''"
  using assms sextet_chars takeWhile_distinct [of BASE64 d] nth_mem [of d BASE64]
  by (simp_all add: sextet_of_def list_all_iff del: nth_mem)

lemma length_sextets:
  "(length (sextets xs) + (3 - length xs mod 3) mod 3) mod 4 = 0" "length (sextets xs) mod 4 \<noteq> 1"
proof (induction xs rule: sextets.induct)
  case (4 a b c xs)
  have "length (a # b # c # xs) = length xs + 3" by simp
  then have m: "length (a # b # c # xs) mod 3 = length xs mod 3" "length (sextets (a # b # c # xs)) = 4 + length (sextets xs)"
    by (simp_all only: mod_add_self2) (simp add: Let_def)
  { case 1 show ?case using 4(1) unfolding m by (simp add: add.assoc) }
  { case 2 show ?case using 4(2) unfolding m by simp }
qed (simp_all add: Let_def)

lemma strip_padding_append:
  assumes "CHR ''='' \<notin> set s" and "n \<le> 2" and "(length s + n) mod 4 = 0"
  shows "strip_padding (s @ replicate n CHR ''='') = s"
proof -
  consider "n = 0" | "n = 1" | "n = 2" using assms(2) by linarith
  then show ?thesis
    using assms(1,3) last_in_set [of s]
    by cases (auto simp: strip_padding_def Let_def butlast_append numeral_2_eq_2 simp del: last_in_set)
qed

lemma base64_inverse: "fromBase64 (toBase64 xs) = Inr xs"
proof -
  let ?s = "map ((!) BASE64) (sextets xs)" and ?n = "(3 - length xs mod 3) mod 3"
  have chars: "c \<in> set ?s \<Longrightarrow> \<not> ascii_space c \<and> c \<noteq> CHR ''=''" for c
    using sextets_less [of _ xs] sextet_char by auto
  have "filter (\<lambda>c. \<not> ascii_space c) (?s @ replicate ?n CHR ''='') = ?s @ replicate ?n CHR ''=''"
    using chars by (auto simp: filter_id_conv ascii_space_def)
  moreover have "strip_padding (?s @ replicate ?n CHR ''='') = ?s"
    by (rule strip_padding_append) (use chars length_sextets(1) [of xs] in auto)
  moreover have "map sextet_of ?s = map Some (sextets xs)" using sextets_less [of _ xs] sextet_char(1) by simp
  ultimately show ?thesis using length_sextets(2) [of xs]
    by (simp only: fromBase64_def toBase64_def Let_def) (simp add: octets_sextets comp_def image_iff)
qed

section \<open>The crypto service\<close>

text \<open>
  Web Crypto as the service uses it, for keys of type \<^typ>\<open>'k\<close>: AES-GCM with a nonce and
  additional data, the raw form of a key, and PBKDF2 from the normalised passphrase, a salt and an
  iteration count.
\<close>

record 'k web_crypto =
  encrypt :: "'k \<Rightarrow> bytes \<Rightarrow> bytes \<Rightarrow> bytes \<Rightarrow> bytes"
  decrypt :: "'k \<Rightarrow> bytes \<Rightarrow> bytes \<Rightarrow> bytes \<Rightarrow> bytes option"
  exportKey :: "'k \<Rightarrow> bytes"
  importKey :: "bytes \<Rightarrow> 'k"
  deriveKey :: "string \<Rightarrow> bytes \<Rightarrow> nat \<Rightarrow> 'k"

definition PBKDF2_ITERATIONS :: nat where "PBKDF2_ITERATIONS = 650000"
definition SALT_LENGTH :: nat where "SALT_LENGTH = 16"
definition MASTER_KEY_BITS :: nat where "MASTER_KEY_BITS = 256"

definition ascii_bytes :: "string \<Rightarrow> bytes" where
  "ascii_bytes s = map (\<lambda>c. word_of_nat (of_char c)) s"

definition WRAP_AAD :: bytes where
  "WRAP_AAD = ascii_bytes ''easy-docket/wrap/v1''"

record WrappedMasterKey =
  wk_version :: nat
  wk_kdf :: string
  wk_iterations :: nat
  wk_salt :: string
  wk_iv :: string
  wk_key :: string

definition importMasterKey :: "'k web_crypto \<Rightarrow> bytes \<Rightarrow> 'k result" where
  "importMasterKey C raw =
     (if length raw \<noteq> MASTER_KEY_BITS div 8 then Inl (Error ''Master key must be 32 bytes'')
      else Inr (importKey C raw))"

definition wrapMasterKey :: "'k web_crypto \<Rightarrow> bytes \<Rightarrow> bytes \<Rightarrow> 'k \<Rightarrow> string \<Rightarrow> nat \<Rightarrow> WrappedMasterKey" where
  "wrapMasterKey C salt iv masterKey passphrase iterations =
     (let kek = deriveKey C passphrase salt iterations;
          raw = exportKey C masterKey;
          wrapped = encrypt C kek iv WRAP_AAD raw
      in \<lparr>wk_version = 1, wk_kdf = ''PBKDF2-SHA256'', wk_iterations = iterations,
          wk_salt = toBase64 salt, wk_iv = toBase64 iv, wk_key = toBase64 wrapped\<rparr>)"

text \<open>The salt is decoded outside the \<open>try\<close>; whatever fails inside it is reported as a wrong
  passphrase.\<close>

definition unwrapMasterKey :: "'k web_crypto \<Rightarrow> WrappedMasterKey \<Rightarrow> string \<Rightarrow> 'k result" where
  "unwrapMasterKey C wrapped passphrase =
     (if wk_version wrapped \<noteq> 1 \<or> wk_kdf wrapped \<noteq> ''PBKDF2-SHA256'' then Inl (Error ''Unsupported wrapped-key format'')
      else
        case fromBase64 (wk_salt wrapped) of
          Inl e \<Rightarrow> Inl e
        | Inr salt \<Rightarrow>
            let kek = deriveKey C passphrase salt (wk_iterations wrapped)
            in case (fromBase64 (wk_iv wrapped), fromBase64 (wk_key wrapped)) of
                 (Inr iv, Inr ct) \<Rightarrow>
                   (case decrypt C kek iv WRAP_AAD ct of
                      None \<Rightarrow> Inl (DecryptionError ''Incorrect passphrase'')
                    | Some raw \<Rightarrow> importMasterKey C raw)
               | _ \<Rightarrow> Inl (DecryptionError ''Incorrect passphrase''))"

definition seal :: "'k web_crypto \<Rightarrow> EnvelopeHeader json \<Rightarrow> bytes \<Rightarrow> 'k \<Rightarrow> EnvelopeHeader \<Rightarrow> bytes \<Rightarrow> bytes result" where
  "seal C J iv key header plaintext =
     (let aad = to_json J header;
          ciphertext = encrypt C key iv aad plaintext
      in serialiseEnvelope J header iv ciphertext)"

definition sealJson ::
  "'k web_crypto \<Rightarrow> EnvelopeHeader json \<Rightarrow> 'v json \<Rightarrow> bytes \<Rightarrow> 'k \<Rightarrow> EnvelopeHeader \<Rightarrow> 'v \<Rightarrow> bytes result" where
  "sealJson C J V iv key header value = seal C J iv key header (to_json V value)"

definition wrong_key :: error where
  "wrong_key = DecryptionError ''Unable to decrypt: wrong key or corrupted data''"

definition open_envelope :: "'k web_crypto \<Rightarrow> EnvelopeHeader json \<Rightarrow> 'k \<Rightarrow> bytes \<Rightarrow> (EnvelopeHeader \<times> bytes) result" where
  "open_envelope C J key xs =
     (case parseEnvelope J xs of
        Inl e \<Rightarrow> Inl e
      | Inr envelope \<Rightarrow>
          (case decrypt C key (env_iv envelope) (env_aad envelope) (env_payload envelope) of
             None \<Rightarrow> Inl wrong_key
           | Some plaintext \<Rightarrow> Inr (env_header envelope, plaintext)))"

definition openJson :: "'k web_crypto \<Rightarrow> EnvelopeHeader json \<Rightarrow> 'v json \<Rightarrow> 'k \<Rightarrow> bytes \<Rightarrow> (EnvelopeHeader \<times> 'v) result" where
  "openJson C J V key xs =
     (case open_envelope C J key xs of
        Inl e \<Rightarrow> Inl e
      | Inr (header, plaintext) \<Rightarrow>
          (case from_json V plaintext of None \<Rightarrow> Inl SyntaxError | Some value \<Rightarrow> Inr (header, value)))"

section \<open>What the service promises\<close>

text \<open>The documented behaviour of AES-GCM: decryption inverts encryption, and it accepts nothing but
  the ciphertext and tag that encryption under the same key, nonce and additional data gives.\<close>

definition inverts :: "'k web_crypto \<Rightarrow> bool" where
  "inverts C \<longleftrightarrow> (\<forall>key iv aad p. decrypt C key iv aad (encrypt C key iv aad p) = Some p)"

definition authenticates :: "'k web_crypto \<Rightarrow> bool" where
  "authenticates C \<longleftrightarrow> (\<forall>key iv aad ct p. decrypt C key iv aad ct = Some p \<longrightarrow> ct = encrypt C key iv aad p)"

text \<open>C15: sealing a value with a twelve-byte nonce and a header that fits succeeds, and opening the
  envelope with the same key gives back the header and the value. Whatever opens under a key is the
  envelope of exactly the header bytes and the value found in it: no other bytes open to it. A nonce
  of another length and a header above 64 KiB are refused.\<close>

theorem sealed_envelope:
  assumes "inverts C" and "authenticates C"
  shows "(length iv = IV_LENGTH \<and> length (to_json J header) \<le> 0xffff \<and> from_json J (to_json J header) = Some header \<and>
      from_json V (to_json V val) = Some val \<longrightarrow>
      (\<exists>xs. sealJson C J V iv key header val = Inr xs \<and> openJson C J V key xs = Inr (header, val))) \<and>
    (openJson C J V key xs = Inr (header, val) \<longrightarrow>
      (\<exists>iv aad p. xs = layout iv aad (encrypt C key iv aad p) \<and> length iv = IV_LENGTH \<and>
        from_json J aad = Some header \<and> from_json V p = Some val)) \<and>
    (length iv \<noteq> IV_LENGTH \<or> 0xffff < length (to_json J header) \<longrightarrow>
      (\<exists>msg. sealJson C J V iv key header val = Inl (EnvelopeFormatError msg)))"
proof (intro conjI impI)
  assume "length iv = IV_LENGTH \<and> length (to_json J header) \<le> 0xffff \<and> from_json J (to_json J header) = Some header \<and>
      from_json V (to_json V val) = Some val"
  then show "\<exists>xs. sealJson C J V iv key header val = Inr xs \<and> openJson C J V key xs = Inr (header, val)"
    using assms(1)
    by (simp add: sealJson_def seal_def Let_def serialise_layout openJson_def open_envelope_def parse_layout inverts_def)
next
  assume o: "openJson C J V key xs = Inr (header, val)"
  then obtain e p where e: "parseEnvelope J xs = Inr e" "env_header e = header"
    "decrypt C key (env_iv e) (env_aad e) (env_payload e) = Some p" "from_json V p = Some val"
    by (auto simp: openJson_def open_envelope_def split: sum.splits option.splits)
  have "env_payload e = encrypt C key (env_iv e) (env_aad e) p" using assms(2) e(3) by (simp add: authenticates_def)
  with parse_inverse [OF e(1)] e(2,4) show "\<exists>iv aad p. xs = layout iv aad (encrypt C key iv aad p) \<and> length iv = IV_LENGTH \<and>
        from_json J aad = Some header \<and> from_json V p = Some val" by metis
next
  assume "length iv \<noteq> IV_LENGTH \<or> 0xffff < length (to_json J header)"
  then show "\<exists>msg. sealJson C J V iv key header val = Inl (EnvelopeFormatError msg)"
    by (auto simp: sealJson_def seal_def serialiseEnvelope_def Let_def)
qed

text \<open>Every string of bytes that is not an envelope is refused before anything is decrypted:
  what parses is exactly the documented layout, twenty bytes of magic, version, algorithm, length
  and nonce, the header and the payload, and parsing takes apart what serialising put together.\<close>

theorem envelope_layout:
  "parseEnvelope J xs = Inr e \<longleftrightarrow>
     xs = layout (env_iv e) (env_aad e) (env_payload e) \<and> length (env_iv e) = IV_LENGTH \<and>
     length (env_aad e) \<le> 0xffff \<and> from_json J (env_aad e) = Some (env_header e)"
  using parse_inverse [of J xs e] parse_layout [of "env_iv e" "env_aad e" J "env_payload e"] by auto

text \<open>A master key wrapped under a passphrase is recovered with that passphrase. With another
  one, whose derived key does not authenticate the wrapped key, the error says so and no key is
  returned; a key wrapped in another format is refused.\<close>

theorem wrapped_key:
  assumes "inverts C" and "importKey C (exportKey C masterKey) = masterKey" and "length (exportKey C masterKey) = 32"
    and "wrapMasterKey C salt iv masterKey passphrase iterations = w"
  shows "unwrapMasterKey C w passphrase = Inr masterKey \<and>
    (decrypt C (deriveKey C other salt iterations) iv WRAP_AAD
       (encrypt C (deriveKey C passphrase salt iterations) iv WRAP_AAD (exportKey C masterKey)) = None \<longrightarrow>
     unwrapMasterKey C w other = Inl (DecryptionError ''Incorrect passphrase'')) \<and>
    (version \<noteq> 1 \<longrightarrow> unwrapMasterKey C (w\<lparr>wk_version := version\<rparr>) passphrase = Inl (Error ''Unsupported wrapped-key format''))"
  using assms(1-3) unfolding assms(4) [symmetric]
  by (simp add: wrapMasterKey_def unwrapMasterKey_def Let_def base64_inverse inverts_def importMasterKey_def
      MASTER_KEY_BITS_def)

section \<open>Witnesses\<close>

text \<open>A platform that satisfies the laws: a ciphertext is the key byte, the plaintext and the
  additional data.\<close>

definition sample_crypto :: "byte web_crypto" where
  "sample_crypto =
     \<lparr>encrypt = (\<lambda>key iv aad p. key # p @ aad),
      decrypt = (\<lambda>key iv aad ct. case ct of
         [] \<Rightarrow> None
       | k # r \<Rightarrow> let p = take (length r - length aad) r in if k = key \<and> r = p @ aad then Some p else None),
      exportKey = (\<lambda>key. replicate 32 key), importKey = hd, deriveKey = (\<lambda>s salt n. word_of_nat (length s))\<rparr>"

definition sample_header :: EnvelopeHeader where
  "sample_header = \<lparr>hd_v = ''v'', hd_d = ''d'', hd_h = ''h'', hd_t = ''ops''\<rparr>"

definition header_json :: "EnvelopeHeader json" where
  "header_json = \<lparr>to_json = (\<lambda>_. ascii_bytes ''{}''), from_json = (\<lambda>_. Some sample_header)\<rparr>"

definition raw_json :: "bytes json" where
  "raw_json = \<lparr>to_json = (\<lambda>v. v), from_json = Some\<rparr>"

lemma sample_crypto_ok: "inverts sample_crypto" "authenticates sample_crypto"
  by (auto simp: inverts_def authenticates_def sample_crypto_def Let_def split: list.splits if_splits)

theorem sealed_envelope_witness:
  "(\<exists>xs. sealJson sample_crypto header_json raw_json (replicate 12 7) 9 sample_header [1, 2] = Inr xs \<and>
     openJson sample_crypto header_json raw_json 9 xs = Inr (sample_header, [1, 2])) \<and>
   (\<exists>iv aad p. layout (replicate 12 7) (ascii_bytes ''{}'') (9 # [1, 2] @ ascii_bytes ''{}'') =
       layout iv aad (encrypt sample_crypto 9 iv aad p) \<and> from_json raw_json p = Some [1, 2]) \<and>
   (\<exists>msg. sealJson sample_crypto header_json raw_json [] 9 sample_header [1, 2] = Inl (EnvelopeFormatError msg))"
proof -
  have j: "from_json header_json (to_json header_json sample_header) = Some sample_header"
    "length (to_json header_json sample_header) \<le> 0xffff" "from_json raw_json (to_json raw_json [1, 2]) = Some [1, 2]"
    by (simp_all add: header_json_def raw_json_def ascii_bytes_def)
  have "openJson sample_crypto header_json raw_json 9
      (layout (replicate 12 7) (ascii_bytes ''{}'') (9 # [1, 2] @ ascii_bytes ''{}'')) = Inr (sample_header, [1, 2])"
    by (simp add: openJson_def open_envelope_def parse_layout IV_LENGTH_def header_json_def raw_json_def sample_crypto_def
        ascii_bytes_def Let_def)
  then show ?thesis
    using sealed_envelope [OF sample_crypto_ok, where iv = "replicate 12 7" and J = header_json and V = raw_json
      and header = sample_header and val = "[1, 2]" and key = 9 and
      xs = "layout (replicate 12 7) (ascii_bytes ''{}'') (9 # [1, 2] @ ascii_bytes ''{}'')"]
    sealed_envelope [OF sample_crypto_ok, where iv = "[]" and J = header_json and V = raw_json
      and header = sample_header and val = "[1, 2]" and key = 9] j
    by (force simp: IV_LENGTH_def)
qed

theorem wrapped_key_witness:
  "unwrapMasterKey sample_crypto (wrapMasterKey sample_crypto [1, 2] (replicate 12 7) 9 ''correct horse'' 10) ''correct horse'' = Inr 9 \<and>
   unwrapMasterKey sample_crypto (wrapMasterKey sample_crypto [1, 2] (replicate 12 7) 9 ''correct horse'' 10) ''wrong''
     = Inl (DecryptionError ''Incorrect passphrase'')"
proof -
  have k: "importKey sample_crypto (exportKey sample_crypto 9) = 9" "length (exportKey sample_crypto 9) = 32"
    "decrypt sample_crypto (deriveKey sample_crypto ''wrong'' [1, 2] 10) (replicate 12 7) WRAP_AAD
       (encrypt sample_crypto (deriveKey sample_crypto ''correct horse'' [1, 2] 10) (replicate 12 7) WRAP_AAD
         (exportKey sample_crypto 9)) = None"
    by (simp_all add: sample_crypto_def)
  show ?thesis
    using wrapped_key [OF sample_crypto_ok(1) k(1,2) refl, of "[1, 2]" "replicate 12 7" "''correct horse''" 10 "''wrong''"] k(3) by simp
qed

end
