(* ===== verification/Keys.thy ===== *)
theory Keys
  imports Envelope Store
begin

text \<open>
  The life of the master key (\<open>core/keys/vault.service.ts\<close>), with the two places the platform offers for
  secrets (\<open>core/keys/secure-store.ts\<close>), the presence check in front of a stored key
  (\<open>core/keys/biometric.service.ts\<close>) and the guards of the routes (\<open>core/keys/vault.guard.ts\<close>). The
  preferences and the secure store are tables of strings; the key itself is the platform's. What the
  application draws at random is an argument, and any call of the preferences or the keystore may fail. The
  theorems show that the raw key is written nowhere but to a durable keystore, and that the key survives
  locking, a change of the passphrase, a restart and the move to another device.
\<close>

section \<open>The platform\<close>

text \<open>How the calls of the plugins fail: the error of a read; the error of a write or a removal, and whether it had
  taken effect all the same; and for the keystore, whose wrapper swallows the errors of reading and
  removing, whether a read finds nothing and whether a removal removes nothing.\<close>

type_synonym fault = "(error \<times> bool) option"

record key_faults =
  kf_read :: "string \<Rightarrow> error option"
  kf_write :: "string \<Rightarrow> fault"
  kf_remove :: "string \<Rightarrow> fault"
  kf_secret_set :: fault
  kf_secret_lost :: bool
  kf_secret_kept :: bool

definition no_faults :: key_faults where
  "no_faults = \<lparr>kf_read = (\<lambda>_. None), kf_write = (\<lambda>_. None), kf_remove = (\<lambda>_. None), kf_secret_set = None,
     kf_secret_lost = False, kf_secret_kept = False\<rparr>"

text \<open>\<open>ke_durable\<close> is a native platform, the one with a keystore; \<open>ke_to_json\<close> and \<open>ke_from_json\<close> are JSON
  on wrapped keys and \<open>ke_nfkc\<close> is \<open>normalize('NFKC')\<close>.\<close>

record 'k key_env =
  ke_crypto :: "'k web_crypto"
  ke_durable :: bool
  ke_to_json :: "WrappedMasterKey \<Rightarrow> string"
  ke_from_json :: "string \<Rightarrow> WrappedMasterKey option"
  ke_nfkc :: "string \<Rightarrow> string"
  ke_faults :: key_faults

definition KEY_VAULT_ID :: string where "KEY_VAULT_ID = ''docket.vaultId''"
definition KEY_DEVICE_ID :: string where "KEY_DEVICE_ID = ''docket.deviceId''"
definition KEY_WRAPPED :: string where "KEY_WRAPPED = ''docket.wrappedMasterKey''"
definition SECURE_MASTER_KEY :: string where "SECURE_MASTER_KEY = ''docket.masterKey''"
definition ENABLED_KEY :: string where "ENABLED_KEY = ''docket.biometricLock''"

lemmas key_names = KEY_VAULT_ID_def KEY_DEVICE_ID_def KEY_WRAPPED_def SECURE_MASTER_KEY_def ENABLED_KEY_def

datatype VaultState = Uninitialised | Locked | Unlocked

record 'k keyring =
  kr_masterKey :: "'k option"
  kr_state :: VaultState
  kr_vaultId :: "string option"
  kr_deviceId :: "string option"
  kr_prefs :: "string tbl"
  kr_secrets :: "string tbl"

definition update_keys :: "('k keyring \<Rightarrow> 'k keyring) \<Rightarrow> ('k keyring, unit) call" where
  "update_keys f s = (Inr (), f s)"

definition lifted :: "'a result \<Rightarrow> ('s, 'a) call" where
  "lifted r s = (r, s)"

fun faulty :: "fault \<Rightarrow> ('k keyring \<Rightarrow> 'k keyring) \<Rightarrow> ('k keyring, unit) call" where
  "faulty None f s = (Inr (), f s)"
| "faulty (Some (e, applied)) f s = (Inl e, if applied then f s else s)"

text \<open>\<open>Promise.all\<close> on two calls: both run, whatever becomes of the first.\<close>

definition both :: "('s, unit) call \<Rightarrow> ('s, unit) call \<Rightarrow> ('s, unit) call" where
  "both m n s = (case m s of (r, s') \<Rightarrow> case n s' of (r', s'') \<Rightarrow> (case r of Inl e \<Rightarrow> Inl e | Inr _ \<Rightarrow> r', s''))"

definition read_pref :: "'k key_env \<Rightarrow> string \<Rightarrow> ('k keyring, string option) call" where
  "read_pref E k s = (case kf_read (ke_faults E) k of Some e \<Rightarrow> Inl e | None \<Rightarrow> Inr (tget (kr_prefs s) k), s)"

definition write_pref :: "'k key_env \<Rightarrow> string \<Rightarrow> string \<Rightarrow> ('k keyring, unit) call" where
  "write_pref E k v = faulty (kf_write (ke_faults E) k) (\<lambda>s. s\<lparr>kr_prefs := tput k v (kr_prefs s)\<rparr>)"

definition remove_pref :: "'k key_env \<Rightarrow> string \<Rightarrow> ('k keyring, unit) call" where
  "remove_pref E k = faulty (kf_remove (ke_faults E) k) (\<lambda>s. s\<lparr>kr_prefs := tdelete k (kr_prefs s)\<rparr>)"

text \<open>The two secure stores. The one in memory does not fail; only the native one outlives the application.\<close>

definition secure_get :: "'k key_env \<Rightarrow> string \<Rightarrow> ('k keyring, string option) call" where
  "secure_get E k s = (Inr (if ke_durable E \<and> kf_secret_lost (ke_faults E) then None else tget (kr_secrets s) k), s)"

definition secure_set :: "'k key_env \<Rightarrow> string \<Rightarrow> string \<Rightarrow> ('k keyring, unit) call" where
  "secure_set E k v =
     faulty (if ke_durable E then kf_secret_set (ke_faults E) else None) (\<lambda>s. s\<lparr>kr_secrets := tput k v (kr_secrets s)\<rparr>)"

definition secure_remove :: "'k key_env \<Rightarrow> string \<Rightarrow> 'k keyring \<Rightarrow> 'k keyring" where
  "secure_remove E k s =
     (if ke_durable E \<and> kf_secret_kept (ke_faults E) then s else s\<lparr>kr_secrets := tdelete k (kr_secrets s)\<rparr>)"

section \<open>The presence check\<close>

datatype BiometricAvailability = Available string | Unavailable string

definition describe_biometry :: "nat \<Rightarrow> string" where
  "describe_biometry t =
     (if t = 1 then ''Touch ID'' else if t = 2 then ''Face ID'' else if t = 3 then ''Fingerprint''
      else if t = 4 then ''Face unlock'' else if t = 5 then ''Iris'' else if t = 7 then ''Device PIN'' else ''Biometrics'')"

text \<open>The plugin's answer: \<open>None\<close> when it throws, otherwise whether the device can check and how.\<close>

definition availability :: "bool \<Rightarrow> (bool \<times> nat) option \<Rightarrow> BiometricAvailability" where
  "availability native answer =
     (if \<not> native then Unavailable ''Only on the installed app''
      else case answer of
        Some (can, t) \<Rightarrow> if can then Available (describe_biometry t) else Unavailable ''No fingerprint, face or screen lock is set up''
      | None \<Rightarrow> Unavailable ''This device cannot check'')"

definition isEnabled :: "'k key_env \<Rightarrow> ('k keyring, bool) call" where
  "isEnabled E = andThen (read_pref E ENABLED_KEY) (\<lambda>v. return (v = Some ''true''))"

definition setEnabled :: "'k key_env \<Rightarrow> bool \<Rightarrow> ('k keyring, unit) call" where
  "setEnabled E enabled = write_pref E ENABLED_KEY (if enabled then ''true'' else ''false'')"

definition verify :: "bool \<Rightarrow> bool \<Rightarrow> bool" where
  "verify native confirmed \<longleftrightarrow> native \<and> confirmed"

section \<open>The service\<close>

definition no_vault :: error where "no_vault = Error ''No vault on this device''"

definition blank :: "string option \<Rightarrow> bool" where
  "blank s \<longleftrightarrow> s = None \<or> s = Some []"

definition assertPassphrase :: "'k key_env \<Rightarrow> string \<Rightarrow> unit result" where
  "assertPassphrase E passphrase =
     (if length (ke_nfkc E passphrase) < 8 then Inl (Error ''Passphrase must be at least 8 characters'') else Inr ())"

definition is_ascii_alnum :: "char \<Rightarrow> bool" where
  "is_ascii_alnum c \<longleftrightarrow> is_digit c \<or> CHR ''A'' \<le> c \<and> c \<le> CHR ''Z'' \<or> CHR ''a'' \<le> c \<and> c \<le> CHR ''z''"

definition mint_device_id :: "bytes \<Rightarrow> string" where
  "mint_device_id random = take 8 (filter is_ascii_alnum (toBase64 random))"

definition mintDeviceId :: "'k key_env \<Rightarrow> bytes \<Rightarrow> ('k keyring, string) call" where
  "mintDeviceId E random =
     (let i = mint_device_id random in andThen (write_pref E KEY_DEVICE_ID i) (\<lambda>_. return i))"

definition set_state :: "VaultState \<Rightarrow> ('k keyring, VaultState) call" where
  "set_state st s = (Inr st, s\<lparr>kr_state := st\<rparr>)"

definition adopt :: "'k key_env \<Rightarrow> 'k \<Rightarrow> ('k keyring, unit) call" where
  "adopt E masterKey =
     andThen (update_keys (\<lambda>s. s\<lparr>kr_masterKey := Some masterKey\<rparr>)) (\<lambda>_.
     andThen (if ke_durable E then secure_set E SECURE_MASTER_KEY (toBase64 (exportKey (ke_crypto E) masterKey)) else return ()) (\<lambda>_.
     update_keys (\<lambda>s. s\<lparr>kr_state := Unlocked\<rparr>)))"

text \<open>The end of a start: the stored key becomes the key at hand.\<close>

definition use_stored :: "'k key_env \<Rightarrow> string \<Rightarrow> ('k keyring, VaultState) call" where
  "use_stored E stashed =
     andThen (lifted (fromBase64 stashed)) (\<lambda>raw.
     andThen (lifted (importMasterKey (ke_crypto E) raw)) (\<lambda>key.
     andThen (update_keys (\<lambda>s. s\<lparr>kr_masterKey := Some key\<rparr>)) (\<lambda>_. set_state Unlocked)))"

definition vault_initialise :: "'k key_env \<Rightarrow> bytes \<Rightarrow> bool \<Rightarrow> ('k keyring, VaultState) call" where
  "vault_initialise E random confirmed =
     andThen (read_pref E KEY_VAULT_ID) (\<lambda>vaultId.
     andThen (read_pref E KEY_DEVICE_ID) (\<lambda>deviceId.
     andThen (read_pref E KEY_WRAPPED) (\<lambda>wrapped.
     andThen (update_keys (\<lambda>s. s\<lparr>kr_vaultId := vaultId\<rparr>)) (\<lambda>_.
     andThen (case deviceId of Some d \<Rightarrow> return d | None \<Rightarrow> mintDeviceId E random) (\<lambda>d.
     andThen (update_keys (\<lambda>s. s\<lparr>kr_deviceId := Some d\<rparr>)) (\<lambda>_.
       if blank vaultId \<or> blank wrapped then set_state Uninitialised
       else andThen (secure_get E SECURE_MASTER_KEY) (\<lambda>stashed.
         if blank stashed then set_state Locked
         else andThen (isEnabled E) (\<lambda>enabled.
           if enabled \<and> \<not> verify (ke_durable E) confirmed then set_state Locked
           else use_stored E (the stashed)))))))))"

definition store_vault :: "'k key_env \<Rightarrow> string \<Rightarrow> WrappedMasterKey \<Rightarrow> ('k keyring, unit) call" where
  "store_vault E vaultId wrapped =
     andThen (both (write_pref E KEY_VAULT_ID vaultId) (write_pref E KEY_WRAPPED (ke_to_json E wrapped))) (\<lambda>_.
     update_keys (\<lambda>s. s\<lparr>kr_vaultId := Some vaultId\<rparr>))"

definition vault_create :: "'k key_env \<Rightarrow> 'k \<Rightarrow> bytes \<Rightarrow> bytes \<Rightarrow> string \<Rightarrow> string \<Rightarrow> ('k keyring, unit) call" where
  "vault_create E masterKey salt iv uuid passphrase =
     andThen (lifted (assertPassphrase E passphrase)) (\<lambda>_.
     andThen (store_vault E uuid (wrapMasterKey (ke_crypto E) salt iv masterKey passphrase PBKDF2_ITERATIONS)) (\<lambda>_.
     adopt E masterKey))"

definition vault_restore :: "'k key_env \<Rightarrow> string \<Rightarrow> WrappedMasterKey \<Rightarrow> string \<Rightarrow> ('k keyring, unit) call" where
  "vault_restore E vaultId wrapped passphrase =
     andThen (lifted (unwrapMasterKey (ke_crypto E) wrapped passphrase)) (\<lambda>masterKey.
     andThen (store_vault E vaultId wrapped) (\<lambda>_. adopt E masterKey))"

definition parse_wrapped :: "'k key_env \<Rightarrow> string \<Rightarrow> WrappedMasterKey result" where
  "parse_wrapped E raw = (case ke_from_json E raw of None \<Rightarrow> Inl SyntaxError | Some wrapped \<Rightarrow> Inr wrapped)"

definition stored_key :: "'k key_env \<Rightarrow> string \<Rightarrow> ('k keyring, 'k) call" where
  "stored_key E passphrase =
     andThen (read_pref E KEY_WRAPPED) (\<lambda>raw.
       if blank raw then throw no_vault
       else andThen (lifted (parse_wrapped E (the raw))) (\<lambda>wrapped.
         lifted (unwrapMasterKey (ke_crypto E) wrapped passphrase)))"

definition vault_unlock :: "'k key_env \<Rightarrow> string \<Rightarrow> ('k keyring, unit) call" where
  "vault_unlock E passphrase = andThen (stored_key E passphrase) (adopt E)"

definition vault_lock :: "'k key_env \<Rightarrow> 'k keyring \<Rightarrow> 'k keyring" where
  "vault_lock E s =
     (let s = secure_remove E SECURE_MASTER_KEY (s\<lparr>kr_masterKey := None\<rparr>)
      in s\<lparr>kr_state := (if blank (kr_vaultId s) then Uninitialised else Locked)\<rparr>)"

definition changePassphrase :: "'k key_env \<Rightarrow> bytes \<Rightarrow> bytes \<Rightarrow> string \<Rightarrow> string \<Rightarrow> ('k keyring, unit) call" where
  "changePassphrase E salt iv current new_passphrase =
     andThen (lifted (assertPassphrase E new_passphrase)) (\<lambda>_.
     andThen (stored_key E current) (\<lambda>masterKey.
     write_pref E KEY_WRAPPED
       (ke_to_json E (wrapMasterKey (ke_crypto E) salt iv masterKey new_passphrase PBKDF2_ITERATIONS))))"

definition exportWrappedKey :: "'k key_env \<Rightarrow> ('k keyring, (string \<times> WrappedMasterKey) option) call" where
  "exportWrappedKey E =
     andThen (read_pref E KEY_VAULT_ID) (\<lambda>vaultId.
     andThen (read_pref E KEY_WRAPPED) (\<lambda>raw.
       if blank vaultId \<or> blank raw then return None
       else andThen (lifted (parse_wrapped E (the raw))) (\<lambda>wrapped. return (Some (the vaultId, wrapped)))))"

definition requireKey :: "'k keyring \<Rightarrow> 'k result" where
  "requireKey s = (case kr_masterKey s of None \<Rightarrow> Inl VaultLockedError | Some k \<Rightarrow> Inr k)"

definition requireVaultId :: "'k keyring \<Rightarrow> string result" where
  "requireVaultId s = (if blank (kr_vaultId s) then Inl no_vault else Inr (the (kr_vaultId s)))"

definition requireDeviceId :: "'k keyring \<Rightarrow> string result" where
  "requireDeviceId s = (if blank (kr_deviceId s) then Inl (Error ''Device identity not initialised'') else Inr (the (kr_deviceId s)))"

definition vault_destroy :: "'k key_env \<Rightarrow> ('k keyring, unit) call" where
  "vault_destroy E =
     andThen (update_keys (vault_lock E)) (\<lambda>_.
     andThen (both (remove_pref E KEY_VAULT_ID) (remove_pref E KEY_WRAPPED)) (\<lambda>_.
     update_keys (\<lambda>s. s\<lparr>kr_vaultId := None, kr_state := Uninitialised\<rparr>)))"

text \<open>A restart of the application: memory is gone, the preferences stay, and of the two secure stores
  only the native one.\<close>

definition restarted :: "'k key_env \<Rightarrow> 'k keyring \<Rightarrow> 'k keyring" where
  "restarted E s = s\<lparr>kr_masterKey := None, kr_state := Uninitialised, kr_vaultId := None, kr_deviceId := None,
     kr_secrets := (if ke_durable E then kr_secrets s else [])\<rparr>"

text \<open>The guards: \<open>None\<close> lets the route be shown, \<open>Some\<close> is where it redirects to.\<close>

definition vaultGuard :: "'k keyring \<Rightarrow> string option" where
  "vaultGuard s = (if kr_state s = Unlocked then None else Some ''/vault'')"

definition unlockedRedirectGuard :: "'k keyring \<Rightarrow> string option" where
  "unlockedRedirectGuard s = (if kr_state s = Unlocked then Some ''/tabs/dashboard'' else None)"

section \<open>The states of a vault\<close>

text \<open>Every call may meet other faults than the one before.\<close>

inductive key_step :: "'k key_env \<Rightarrow> 'k keyring \<Rightarrow> 'k keyring \<Rightarrow> bool" for E where
  started: "vault_initialise (E\<lparr>ke_faults := F\<rparr>) random confirmed (restarted E s) = (r, s') \<Longrightarrow> key_step E s s'"
| created: "vault_create (E\<lparr>ke_faults := F\<rparr>) masterKey salt iv uuid passphrase s = (r1, s') \<Longrightarrow> key_step E s s'"
| joined: "vault_restore (E\<lparr>ke_faults := F\<rparr>) vaultId wrapped passphrase s = (r1, s') \<Longrightarrow> key_step E s s'"
| unlocked: "vault_unlock (E\<lparr>ke_faults := F\<rparr>) passphrase s = (r1, s') \<Longrightarrow> key_step E s s'"
| locked: "key_step E s (vault_lock (E\<lparr>ke_faults := F\<rparr>) s)"
| changed: "changePassphrase (E\<lparr>ke_faults := F\<rparr>) salt iv current new_passphrase s = (r1, s') \<Longrightarrow> key_step E s s'"
| protected: "setEnabled (E\<lparr>ke_faults := F\<rparr>) flag s = (r1, s') \<Longrightarrow> key_step E s s'"
| destroyed: "vault_destroy (E\<lparr>ke_faults := F\<rparr>) s = (r1, s') \<Longrightarrow> key_step E s s'"

inductive key_reachable :: "'k key_env \<Rightarrow> 'k keyring \<Rightarrow> bool" for E where
  start: "key_reachable E \<lparr>kr_masterKey = None, kr_state = Uninitialised, kr_vaultId = None, kr_deviceId = None,
    kr_prefs = [], kr_secrets = []\<rparr>"
| step: "key_reachable E s \<Longrightarrow> key_step E s s' \<Longrightarrow> key_reachable E s'"

text \<open>A wrapped key that may be written down: one made here, whose \<open>key\<close> field is the encryption of the raw key
  under a key derived from a passphrase of eight characters or more, with the number of rounds of the service;
  or one that was given and that a passphrase has opened.\<close>

definition sealed_by_passphrase :: "'k key_env \<Rightarrow> WrappedMasterKey \<Rightarrow> bool" where
  "sealed_by_passphrase E w \<longleftrightarrow>
     (\<exists>passphrase salt iv key. 8 \<le> length (ke_nfkc E passphrase) \<and> wk_iterations w = PBKDF2_ITERATIONS \<and>
        wk_salt w = toBase64 salt \<and> wk_iv w = toBase64 iv \<and>
        wk_key w = toBase64 (encrypt (ke_crypto E) (deriveKey (ke_crypto E) passphrase salt PBKDF2_ITERATIONS) iv WRAP_AAD
          (exportKey (ke_crypto E) key)))"

definition may_be_written :: "'k key_env \<Rightarrow> WrappedMasterKey \<Rightarrow> bool" where
  "may_be_written E w \<longleftrightarrow> sealed_by_passphrase E w \<or> (\<exists>passphrase key. unwrapMasterKey (ke_crypto E) w passphrase = Inr key)"

text \<open>What is written down: the preferences hold the identifiers, the setting of the presence check and
  the wrapped key as the service serialised it, and the secure store holds nothing unless it is the
  keystore, and there only the key.\<close>

definition prefs_ok :: "'k key_env \<Rightarrow> string tbl \<Rightarrow> bool" where
  "prefs_ok E t \<longleftrightarrow>
     table_ok t \<and>
     (\<forall>k v. tget t k = Some v \<longrightarrow> k \<in> {KEY_VAULT_ID, KEY_DEVICE_ID, KEY_WRAPPED, ENABLED_KEY}) \<and>
     (\<forall>v. tget t KEY_DEVICE_ID = Some v \<longrightarrow> (\<exists>random. v = mint_device_id random)) \<and>
     (\<forall>v. tget t KEY_WRAPPED = Some v \<longrightarrow> (\<exists>wrapped. v = ke_to_json E wrapped \<and> may_be_written E wrapped)) \<and>
     (\<forall>v. tget t ENABLED_KEY = Some v \<longrightarrow> v \<in> {''true'', ''false''})"

definition secrets_ok :: "'k key_env \<Rightarrow> string tbl \<Rightarrow> bool" where
  "secrets_ok E t \<longleftrightarrow>
     table_ok t \<and>
     (\<forall>k v. tget t k = Some v \<longrightarrow> ke_durable E \<and> k = SECURE_MASTER_KEY \<and> (\<exists>key. v = toBase64 (exportKey (ke_crypto E) key)))"

definition written_down :: "'k key_env \<Rightarrow> 'k keyring \<Rightarrow> bool" where
  "written_down E s \<longleftrightarrow> prefs_ok E (kr_prefs s) \<and> secrets_ok E (kr_secrets s)"

text \<open>An unlocked vault has its key. The converse holds where there is no keystore: one that refuses the key
  leaves it in memory with the state as it was.\<close>

definition state_consistent :: "'k key_env \<Rightarrow> 'k keyring \<Rightarrow> bool" where
  "state_consistent E s \<longleftrightarrow>
     (kr_state s = Unlocked \<longrightarrow> kr_masterKey s \<noteq> None) \<and> (kr_masterKey s \<noteq> None \<longrightarrow> kr_state s = Unlocked \<or> ke_durable E)"

definition keyring_ok :: "'k key_env \<Rightarrow> 'k keyring \<Rightarrow> bool" where
  "keyring_ok E s \<longleftrightarrow> written_down E s \<and> state_consistent E s"

lemmas keyring_ok_defs = keyring_ok_def written_down_def state_consistent_def

lemma key_names_distinct: "distinct [KEY_VAULT_ID, KEY_DEVICE_ID, KEY_WRAPPED, ENABLED_KEY]"
  by code_simp

lemma prefs_ok_put [simp]:
  assumes "prefs_ok E t"
  shows "prefs_ok E (tput KEY_VAULT_ID v t)" "prefs_ok E (tput KEY_DEVICE_ID (mint_device_id random) t)"
    "may_be_written E wrapped \<Longrightarrow> prefs_ok E (tput KEY_WRAPPED (ke_to_json E wrapped) t)"
    "prefs_ok E (tput ENABLED_KEY ''true'' t)" "prefs_ok E (tput ENABLED_KEY ''false'' t)"
  using assms key_names_distinct by (auto simp: prefs_ok_def)

lemma prefs_ok_delete [simp]: "prefs_ok E t \<Longrightarrow> prefs_ok E (tdelete k t)"
  by (auto simp: prefs_ok_def)

lemma secrets_ok_put [simp]:
  "ke_durable E \<Longrightarrow> secrets_ok E t \<Longrightarrow> secrets_ok E (tput SECURE_MASTER_KEY (toBase64 (exportKey (ke_crypto E) key)) t)"
  unfolding secrets_ok_def by (auto split: if_splits) (metis not_Some_eq)

lemma secrets_ok_delete [simp]: "secrets_ok E t \<Longrightarrow> secrets_ok E (tdelete k t)"
  by (auto simp: secrets_ok_def)

lemma secrets_ok_Nil [simp]: "secrets_ok E []"
  by (simp add: secrets_ok_def)

text \<open>What holds after a call, whether it fails or not; and what calls keep.\<close>

definition leads :: "('s \<Rightarrow> bool) \<Rightarrow> ('s \<Rightarrow> bool) \<Rightarrow> ('s, 'a) call \<Rightarrow> bool" where
  "leads I J m \<longleftrightarrow> (\<forall>s. I s \<longrightarrow> J (snd (m s)))"

abbreviation steady :: "('s \<Rightarrow> bool) \<Rightarrow> ('s, 'a) call \<Rightarrow> bool" where
  "steady I \<equiv> leads I I"

lemmas steady_def = leads_def

lemma leadsD: "leads I J m \<Longrightarrow> I s \<Longrightarrow> m s = (r, s') \<Longrightarrow> J s'"
  by (auto simp: leads_def dest!: spec [of _ s])

lemma leads_andThen:
  "steady (\<lambda>s. J s \<and> P s) m \<Longrightarrow> (\<And>a. leads (\<lambda>s. J s \<and> P s) J (k a)) \<Longrightarrow> leads (\<lambda>s. J s \<and> P s) J (andThen m k)"
  unfolding leads_def andThen_def by (fastforce split: prod.splits sum.splits)

lemma steady_andThen: "steady I m \<Longrightarrow> (\<And>a s s'. m s = (Inr a, s') \<Longrightarrow> steady I (k a)) \<Longrightarrow> steady I (andThen m k)"
  unfolding leads_def andThen_def by (fastforce split: prod.splits sum.splits)

lemma leads_if: "leads I J m \<Longrightarrow> leads I J n \<Longrightarrow> leads I J (if b then m else n)"
  by simp

lemma steady_both: "steady I m \<Longrightarrow> steady I n \<Longrightarrow> steady I (both m n)"
  unfolding steady_def both_def by (fastforce split: prod.splits)

lemma steady_basic [simp]: "steady I (return a)" "steady I (throw e)" "steady I (lifted r)" "steady I (read_pref E k)" "steady I (secure_get E k)"
  by (simp_all add: steady_def return_def throw_def lifted_def read_pref_def secure_get_def)

lemma steady_faulty: "(\<And>s. I s \<Longrightarrow> I (f s)) \<Longrightarrow> steady I (faulty fault f)"
  by (cases fault) (auto simp: steady_def)

lemma steady_update: "(\<And>s. I s \<Longrightarrow> I (f s)) \<Longrightarrow> steady I (update_keys f)"
  by (simp add: steady_def update_keys_def)

section \<open>Every operation keeps the keyring in order\<close>

lemma steady_adopt: "steady (keyring_ok E) (adopt (E\<lparr>ke_faults := F\<rparr>) key)"
proof -
  have "keyring_ok E (snd (adopt (E\<lparr>ke_faults := F\<rparr>) key s))" if "keyring_ok E s" for s
  proof (cases "ke_durable E")
    case True
    then show ?thesis using that
      by (cases "kf_secret_set F")
        (auto simp: adopt_def andThen_def update_keys_def secure_set_def keyring_ok_defs split: prod.splits sum.splits)
  next
    case False
    then show ?thesis using that by (auto simp: adopt_def andThen_def update_keys_def return_def keyring_ok_defs)
  qed
  then show ?thesis by (simp add: steady_def)
qed

lemma steady_store_vault: "may_be_written E wrapped \<Longrightarrow> steady (keyring_ok E) (store_vault (E\<lparr>ke_faults := F\<rparr>) i wrapped)"
  unfolding store_vault_def write_pref_def
  by (intro steady_andThen steady_both steady_faulty steady_update) (simp_all add: keyring_ok_defs)

lemma steady_use_stored: "steady (keyring_ok E) (use_stored (E\<lparr>ke_faults := F\<rparr>) stashed)"
  by (auto simp: steady_def use_stored_def andThen_def lifted_def update_keys_def set_state_def keyring_ok_defs split: sum.splits)

text \<open>A start holds no key until it has read one.\<close>

lemma initialise_ok:
  assumes "keyring_ok E s" and "vault_initialise (E\<lparr>ke_faults := F\<rparr>) random confirmed (restarted E s) = (r, s')"
  shows "keyring_ok E s'"
proof -
  let ?I = "\<lambda>s. keyring_ok E s \<and> kr_masterKey s = None"
  have state: "leads ?I (keyring_ok E) (set_state st)" if "st \<noteq> Unlocked" for st
    using that by (simp add: leads_def set_state_def keyring_ok_defs)
  have stored: "leads ?I (keyring_ok E) (use_stored (E\<lparr>ke_faults := F\<rparr>) x)" for x
    using steady_use_stored [of E F x] by (simp add: leads_def)
  have minted: "steady ?I (mintDeviceId (E\<lparr>ke_faults := F\<rparr>) random)"
    unfolding mintDeviceId_def Let_def write_pref_def by (intro steady_andThen steady_faulty) (auto simp: keyring_ok_defs)
  have update_ok: "keyring_ok E (s\<lparr>kr_vaultId := v\<rparr>) = keyring_ok E s" "keyring_ok E (s\<lparr>kr_deviceId := v\<rparr>) = keyring_ok E s" for s v
    by (simp_all add: keyring_ok_defs)
  have asked: "steady ?I (isEnabled (E\<lparr>ke_faults := F\<rparr>))" unfolding isEnabled_def by (intro steady_andThen) simp_all
  have device: "steady ?I (case i of Some d \<Rightarrow> return d | None \<Rightarrow> mintDeviceId (E\<lparr>ke_faults := F\<rparr>) random)" for i
    using minted by (simp split: option.split)
  have opened: "leads ?I (keyring_ok E) (andThen (secure_get (E\<lparr>ke_faults := F\<rparr>) SECURE_MASTER_KEY) (\<lambda>stashed.
      if blank stashed then set_state Locked
      else andThen (isEnabled (E\<lparr>ke_faults := F\<rparr>)) (\<lambda>enabled.
        if enabled \<and> \<not> verify (ke_durable (E\<lparr>ke_faults := F\<rparr>)) confirmed then set_state Locked
        else use_stored (E\<lparr>ke_faults := F\<rparr>) (the stashed))))"
    by (intro leads_andThen leads_if steady_basic asked state stored) simp_all
  have updated: "steady ?I (update_keys (\<lambda>s. s\<lparr>kr_vaultId := v\<rparr>))" "steady ?I (update_keys (\<lambda>s. s\<lparr>kr_deviceId := v\<rparr>))" for v
    by (rule steady_update, simp add: update_ok)+
  have run: "leads ?I (keyring_ok E) (vault_initialise (E\<lparr>ke_faults := F\<rparr>) random confirmed)"
    unfolding vault_initialise_def
    by (intro leads_andThen leads_if steady_basic updated device opened state) simp_all
  have "?I (restarted E s)" using assms(1) by (simp add: restarted_def keyring_ok_defs)
  from leadsD [OF run this assms(2)] show ?thesis .
qed

lemma lock_ok: "keyring_ok E s \<Longrightarrow> keyring_ok E (vault_lock (E\<lparr>ke_faults := F\<rparr>) s)"
  by (simp add: vault_lock_def Let_def secure_remove_def keyring_ok_defs)

lemma may_be_written_wrap:
  "assertPassphrase E passphrase = Inr () \<Longrightarrow> may_be_written E (wrapMasterKey (ke_crypto E) salt iv key passphrase PBKDF2_ITERATIONS)"
  unfolding may_be_written_def sealed_by_passphrase_def wrapMasterKey_def Let_def
  by (rule disjI1, rule exI [of _ passphrase], rule exI [of _ salt], rule exI [of _ iv], rule exI [of _ key])
    (simp add: assertPassphrase_def not_less split: if_split_asm)

lemma steady_create: "steady (keyring_ok E) (vault_create (E\<lparr>ke_faults := F\<rparr>) masterKey salt iv uuid passphrase)"
  unfolding vault_create_def
  by (intro steady_andThen steady_adopt)
    (auto simp: lifted_def assertPassphrase_def intro!: steady_store_vault may_be_written_wrap)

lemma steady_restore: "steady (keyring_ok E) (vault_restore (E\<lparr>ke_faults := F\<rparr>) i wrapped passphrase)"
  unfolding vault_restore_def
  by (intro steady_andThen steady_adopt steady_store_vault) (auto simp: lifted_def may_be_written_def)

lemma steady_stored_key: "steady I (stored_key E passphrase)"
  unfolding stored_key_def by (intro steady_andThen) (auto intro: steady_andThen)

lemma steady_change: "steady (keyring_ok E) (changePassphrase (E\<lparr>ke_faults := F\<rparr>) salt iv current new_passphrase)"
  unfolding changePassphrase_def write_pref_def
  by (intro steady_andThen steady_stored_key steady_faulty)
    (auto simp: lifted_def assertPassphrase_def keyring_ok_defs intro!: prefs_ok_put may_be_written_wrap)

lemma steady_destroy: "steady (keyring_ok E) (vault_destroy (E\<lparr>ke_faults := F\<rparr>))"
proof -
  let ?I = "\<lambda>s. keyring_ok E s \<and> kr_masterKey s = None"
  have "steady ?I (both (remove_pref (E\<lparr>ke_faults := F\<rparr>) k) (remove_pref (E\<lparr>ke_faults := F\<rparr>) k'))" for k k'
    unfolding remove_pref_def by (intro steady_both steady_faulty) (auto simp: keyring_ok_defs)
  then have "steady ?I (andThen (both (remove_pref (E\<lparr>ke_faults := F\<rparr>) KEY_VAULT_ID) (remove_pref (E\<lparr>ke_faults := F\<rparr>) KEY_WRAPPED)) (\<lambda>_.
      update_keys (\<lambda>s. s\<lparr>kr_vaultId := None, kr_state := Uninitialised\<rparr>)))"
    by (intro steady_andThen steady_update) (simp_all add: keyring_ok_defs)
  moreover have "?I (vault_lock (E\<lparr>ke_faults := F\<rparr>) s)" if "keyring_ok E s" for s
    using lock_ok [OF that] by (simp add: vault_lock_def Let_def secure_remove_def)
  ultimately show ?thesis by (auto simp: vault_destroy_def steady_def andThen_def [of "update_keys (vault_lock (E\<lparr>ke_faults := F\<rparr>))"] update_keys_def [of "vault_lock (E\<lparr>ke_faults := F\<rparr>)"])
qed

lemma steady_protect: "steady (keyring_ok E) (setEnabled (E\<lparr>ke_faults := F\<rparr>) flag)"
  unfolding setEnabled_def write_pref_def by (intro steady_faulty) (simp add: keyring_ok_defs)

lemma steady_unlock: "steady (keyring_ok E) (vault_unlock (E\<lparr>ke_faults := F\<rparr>) passphrase)"
  unfolding vault_unlock_def by (intro steady_andThen steady_stored_key steady_adopt)

lemma key_step_ok:
  assumes "key_step E s s'" and "keyring_ok E s"
  shows "keyring_ok E s'"
  using assms(1)
proof cases
  case (started F random confirmed r)
  then show ?thesis using initialise_ok assms(2) by blast
next
  case (locked F)
  then show ?thesis using lock_ok assms(2) by blast
next
  case created
  then show ?thesis by (rule leadsD [OF steady_create assms(2)])
next
  case joined
  then show ?thesis by (rule leadsD [OF steady_restore assms(2)])
next
  case unlocked
  then show ?thesis by (rule leadsD [OF steady_unlock assms(2)])
next
  case changed
  then show ?thesis by (rule leadsD [OF steady_change assms(2)])
next
  case protected
  then show ?thesis by (rule leadsD [OF steady_protect assms(2)])
next
  case destroyed
  then show ?thesis by (rule leadsD [OF steady_destroy assms(2)])
qed


text \<open>A keystore that refuses the key: the key is in memory, and the guard stays closed.\<close>

lemma refused_key_stays:
  assumes "ke_durable E" and "kf_secret_set (ke_faults E) = Some (e, applied)"
  shows "\<exists>s'. adopt E key s = (Inl e, s') \<and> requireKey s' = Inr key \<and> kr_state s' = kr_state s"
  using assms by (auto simp: adopt_def andThen_def update_keys_def secure_set_def requireKey_def)

lemma unwrap_wrap:
  assumes "inverts C" and "importKey C (exportKey C masterKey) = masterKey" and "length (exportKey C masterKey) = 32"
  shows "unwrapMasterKey C (wrapMasterKey C salt iv masterKey passphrase iterations) passphrase = Inr masterKey"
  using assms by (simp add: wrapMasterKey_def unwrapMasterKey_def Let_def base64_inverse inverts_def importMasterKey_def MASTER_KEY_BITS_def)

definition json_inverse :: "'k key_env \<Rightarrow> bool" where
  "json_inverse E \<longleftrightarrow> (\<forall>w. ke_to_json E w \<noteq> [] \<and> ke_from_json E (ke_to_json E w) = Some w)"

section \<open>Without faults\<close>

definition adopted :: "'k key_env \<Rightarrow> 'k \<Rightarrow> 'k keyring \<Rightarrow> 'k keyring" where
  "adopted E key s = s\<lparr>kr_masterKey := Some key, kr_state := Unlocked,
     kr_secrets := (if ke_durable E then tput SECURE_MASTER_KEY (toBase64 (exportKey (ke_crypto E) key)) (kr_secrets s) else kr_secrets s)\<rparr>"

definition with_vault :: "'k key_env \<Rightarrow> string \<Rightarrow> WrappedMasterKey \<Rightarrow> 'k keyring \<Rightarrow> 'k keyring" where
  "with_vault E i wrapped s =
     s\<lparr>kr_prefs := tput KEY_WRAPPED (ke_to_json E wrapped) (tput KEY_VAULT_ID i (kr_prefs s)), kr_vaultId := Some i\<rparr>"

lemma healthy:
  assumes "ke_faults E = no_faults"
  shows "read_pref E k s = (Inr (tget (kr_prefs s) k), s)"
    "write_pref E k v s = (Inr (), s\<lparr>kr_prefs := tput k v (kr_prefs s)\<rparr>)"
    "remove_pref E k s = (Inr (), s\<lparr>kr_prefs := tdelete k (kr_prefs s)\<rparr>)"
    "secure_get E k s = (Inr (tget (kr_secrets s) k), s)"
    "isEnabled E s = (Inr (tget (kr_prefs s) ENABLED_KEY = Some ''true''), s)"
    "adopt E key s = (Inr (), adopted E key s)"
    "mintDeviceId E random s = (Inr (mint_device_id random), s\<lparr>kr_prefs := tput KEY_DEVICE_ID (mint_device_id random) (kr_prefs s)\<rparr>)"
    "store_vault E i w s = (Inr (), with_vault E i w s)"
  using assms by (simp_all add: read_pref_def write_pref_def remove_pref_def secure_get_def secure_set_def isEnabled_def adopt_def adopted_def
      store_vault_def with_vault_def both_def andThen_def return_def update_keys_def no_faults_def mintDeviceId_def Let_def)

lemma stored_key_wrapped:
  assumes "ke_faults E = no_faults" and "json_inverse E" and "tget (kr_prefs s) KEY_WRAPPED = Some (ke_to_json E wrapped)"
  shows "stored_key E passphrase s = (unwrapMasterKey (ke_crypto E) wrapped passphrase, s)"
  using assms(2,3) by (simp add: stored_key_def andThen_def healthy [OF assms(1)] blank_def json_inverse_def parse_wrapped_def lifted_def)

lemma unlock_wrapped:
  assumes "ke_faults E = no_faults" and "json_inverse E" and "tget (kr_prefs s) KEY_WRAPPED = Some (ke_to_json E wrapped)"
    and "unwrapMasterKey (ke_crypto E) wrapped passphrase = Inr key"
  shows "\<exists>s'. vault_unlock E passphrase s = (Inr (), s') \<and> requireKey s' = Inr key"
  using assms(4) by (simp add: vault_unlock_def andThen_def stored_key_wrapped [OF assms(1-3)] healthy [OF assms(1)] requireKey_def adopted_def)

lemma with_vault_prefs:
  assumes "table_ok (kr_prefs s)"
  shows "tget (kr_prefs (with_vault E i wrapped s)) KEY_WRAPPED = Some (ke_to_json E wrapped)"
    "tget (kr_prefs (with_vault E i wrapped s)) KEY_VAULT_ID = Some i"
    "tget (kr_prefs (with_vault E i wrapped s)) ENABLED_KEY = tget (kr_prefs s) ENABLED_KEY"
    "table_ok (kr_prefs (with_vault E i wrapped s))"
  using assms key_names_distinct by (auto simp: with_vault_def)

lemma base64_of_key:
  assumes "length bs = 32"
  shows "toBase64 bs \<noteq> []"
proof
  assume "toBase64 bs = []"
  then have "fromBase64 [] = Inr bs" using base64_inverse [of bs] by simp
  then show False using base64_inverse [of "[]"] assms by (simp add: toBase64_def)
qed

text \<open>A restart of a device with a vault: where the platform keeps the key and the presence check, if it is
  asked for, succeeds, the key is back; otherwise the vault is locked.\<close>

lemma restart_reads_key:
  fixes confirmed :: bool
  assumes "ke_faults E = no_faults" and "importMasterKey (ke_crypto E) raw = Inr key" and "toBase64 raw \<noteq> []"
    and "\<not> blank (tget (kr_prefs s) KEY_VAULT_ID)" and "\<not> blank (tget (kr_prefs s) KEY_WRAPPED)" and "table_ok (kr_prefs s)"
    and "ke_durable E \<Longrightarrow> tget (kr_secrets s) SECURE_MASTER_KEY = Some (toBase64 raw)"
  defines "opens \<equiv> ke_durable E \<and> (tget (kr_prefs s) ENABLED_KEY = Some ''true'' \<longrightarrow> confirmed)"
  shows "\<exists>s'. vault_initialise E random confirmed (restarted E s) = (Inr (if opens then Unlocked else Locked), s') \<and>
    kr_state s' = (if opens then Unlocked else Locked) \<and> kr_masterKey s' = (if opens then Some key else None) \<and>
    tget (kr_prefs s') KEY_WRAPPED = tget (kr_prefs s) KEY_WRAPPED"
proof -
  have put: "tget (tput KEY_DEVICE_ID v (kr_prefs s)) KEY_WRAPPED = tget (kr_prefs s) KEY_WRAPPED"
    "tget (tput KEY_DEVICE_ID v (kr_prefs s)) ENABLED_KEY = tget (kr_prefs s) ENABLED_KEY" for v
    using assms(6) key_names_distinct by auto
  define t where "t = (case tget (kr_prefs s) KEY_DEVICE_ID of
      Some d \<Rightarrow> (restarted E s)\<lparr>kr_vaultId := tget (kr_prefs s) KEY_VAULT_ID, kr_deviceId := Some d\<rparr>
    | None \<Rightarrow> (restarted E s)\<lparr>kr_vaultId := tget (kr_prefs s) KEY_VAULT_ID,
        kr_prefs := tput KEY_DEVICE_ID (mint_device_id random) (kr_prefs s), kr_deviceId := Some (mint_device_id random)\<rparr>)"
  have t: "kr_secrets t = (if ke_durable E then kr_secrets s else [])" "tget (kr_prefs t) KEY_WRAPPED = tget (kr_prefs s) KEY_WRAPPED"
    "tget (kr_prefs t) ENABLED_KEY = tget (kr_prefs s) ENABLED_KEY" "kr_masterKey t = None"
    using put by (simp_all add: t_def restarted_def split: option.split)
  have run: "vault_initialise E random confirmed (restarted E s) =
      (if blank (tget (kr_secrets t) SECURE_MASTER_KEY) then set_state Locked t
       else if tget (kr_prefs t) ENABLED_KEY = Some ''true'' \<and> \<not> verify (ke_durable E) confirmed then set_state Locked t
       else use_stored E (the (tget (kr_secrets t) SECURE_MASTER_KEY)) t)"
    using assms(4,5)
    by (cases "tget (kr_prefs s) KEY_DEVICE_ID")
      (simp_all add: vault_initialise_def andThen_def healthy [OF assms(1)] update_keys_def return_def restarted_def t_def)
  show ?thesis
  proof (cases "ke_durable E")
    case True
    then have "use_stored E (the (tget (kr_secrets t) SECURE_MASTER_KEY)) t = (Inr Unlocked, t\<lparr>kr_masterKey := Some key, kr_state := Unlocked\<rparr>)"
      using assms(2) assms(7) by (simp add: t use_stored_def andThen_def lifted_def base64_inverse update_keys_def set_state_def)
    then show ?thesis using True assms(3,7) t(2-4) unfolding run opens_def
      by (auto simp: t(1) blank_def verify_def set_state_def)
  next
    case False
    then show ?thesis unfolding run opens_def by (simp add: t blank_def set_state_def)
  qed
qed

text \<open>C14: The key is recovered. Where no call of the platform fails, a vault made under a passphrase can be
  locked and unlocked with it and gives the same key; after a change of the passphrase the new one gives it,
  with nothing but the wrapped key rewritten; the exported bundle gives it to another device; and after a
  restart the key is at hand again without a passphrase exactly where the platform keeps it and the
  presence check, if asked for, succeeds, while otherwise the vault is locked and its passphrase gives the
  key. The platform's laws are hypotheses: decryption inverts encryption, a key is its thirty-two raw
  bytes, and JSON reads back what it wrote.\<close>

theorem key_recovered:
  fixes confirmed :: bool
  assumes "inverts (ke_crypto E)" and "importKey (ke_crypto E) (exportKey (ke_crypto E) masterKey) = masterKey"
    and "length (exportKey (ke_crypto E) masterKey) = 32" and "json_inverse E" and "ke_faults E = no_faults"
    and "written_down E s" and "uuid \<noteq> []" and "vault_create E masterKey salt iv uuid passphrase s = (Inr (), s1)"
  defines "opens \<equiv> ke_durable E \<and> (tget (kr_prefs s1) ENABLED_KEY = Some ''true'' \<longrightarrow> confirmed)"
  shows "requireKey s1 = Inr masterKey \<and>
    (\<exists>s2. vault_unlock E passphrase (vault_lock E s1) = (Inr (), s2) \<and> requireKey s2 = Inr masterKey) \<and>
    (\<forall>s3. changePassphrase E salt' iv' passphrase other s1 = (Inr (), s3) \<longrightarrow> requireKey s3 = Inr masterKey \<and>
      (\<exists>s4. vault_unlock E other (vault_lock E s3) = (Inr (), s4) \<and> requireKey s4 = Inr masterKey)) \<and>
    (\<exists>wrapped. exportWrappedKey E s1 = (Inr (Some (uuid, wrapped)), s1) \<and>
      (\<exists>t'. vault_restore E uuid wrapped passphrase t = (Inr (), t') \<and> requireKey t' = Inr masterKey \<and> requireVaultId t' = Inr uuid)) \<and>
    (\<exists>s5. vault_initialise E random confirmed (restarted E s1) = (Inr (if opens then Unlocked else Locked), s5) \<and>
      (if opens then requireKey s5 = Inr masterKey \<and> vaultGuard s5 = None
       else requireKey s5 = Inl VaultLockedError \<and> vaultGuard s5 = Some ''/vault'' \<and>
         (\<exists>s6. vault_unlock E passphrase s5 = (Inr (), s6) \<and> requireKey s6 = Inr masterKey)))"
proof -
  let ?C = "ke_crypto E" and ?w = "wrapMasterKey (ke_crypto E) salt iv masterKey passphrase PBKDF2_ITERATIONS"
  note h = healthy [OF assms(5)]
  have s1: "s1 = adopted E masterKey (with_vault E uuid ?w s)"
    using assms(8) by (auto simp: vault_create_def andThen_def lifted_def h split: sum.splits)
  have tab: "table_ok (kr_prefs s)" "table_ok (kr_secrets s)" using assms(6) by (auto simp: written_down_def prefs_ok_def secrets_ok_def)
  have p1: "kr_prefs s1 = kr_prefs (with_vault E uuid ?w s)" by (simp add: s1 adopted_def)
  note w = with_vault_prefs(1,2,4) [OF tab(1), of E uuid ?w, folded p1]
  have un: "unwrapMasterKey ?C (wrapMasterKey ?C a b masterKey q n) q = Inr masterKey" for a b q n by (rule unwrap_wrap [OF assms(1-3)])
  have unlock: "\<exists>s''. vault_unlock E passphrase s' = (Inr (), s'') \<and> requireKey s'' = Inr masterKey"
    if "tget (kr_prefs s') KEY_WRAPPED = tget (kr_prefs s1) KEY_WRAPPED" for s'
    using unlock_wrapped [OF assms(5,4) _ un] that w(1) by simp
  have lock: "kr_prefs (vault_lock E s') = kr_prefs s'" for s' by (simp add: vault_lock_def Let_def secure_remove_def)
  moreover have "requireKey s3 = Inr masterKey \<and> (\<exists>s4. vault_unlock E other (vault_lock E s3) = (Inr (), s4) \<and> requireKey s4 = Inr masterKey)"
    if c: "changePassphrase E salt' iv' passphrase other s1 = (Inr (), s3)" for s3
  proof -
    let ?w' = "wrapMasterKey ?C salt' iv' masterKey other PBKDF2_ITERATIONS"
    have s3: "s3 = s1\<lparr>kr_prefs := tput KEY_WRAPPED (ke_to_json E ?w') (kr_prefs s1)\<rparr>"
      using c un by (auto simp: changePassphrase_def andThen_def lifted_def h stored_key_wrapped [OF assms(5,4) w(1)] split: sum.splits)
    then have "tget (kr_prefs (vault_lock E s3)) KEY_WRAPPED = Some (ke_to_json E ?w')" using w(3) lock by simp
    from unlock_wrapped [OF assms(5,4) this un] show ?thesis by (simp add: s3 s1 requireKey_def adopted_def)
  qed
  moreover have "exportWrappedKey E s1 = (Inr (Some (uuid, ?w)), s1)"
    using w assms(4,7) by (simp add: exportWrappedKey_def andThen_def h blank_def json_inverse_def parse_wrapped_def lifted_def return_def)
  moreover have "vault_restore E uuid ?w passphrase t = (Inr (), adopted E masterKey (with_vault E uuid ?w t))"
    using un by (simp add: vault_restore_def andThen_def lifted_def h)
  moreover have "requireVaultId (adopted E masterKey (with_vault E uuid ?w t)) = Inr uuid" "requireKey (adopted E masterKey x) = Inr masterKey" for x
    using assms(7) by (simp_all add: requireVaultId_def blank_def with_vault_def adopted_def requireKey_def)
  moreover obtain s5 where "vault_initialise E random confirmed (restarted E s1) = (Inr (if opens then Unlocked else Locked), s5)"
      and "kr_state s5 = (if opens then Unlocked else Locked)" and "kr_masterKey s5 = (if opens then Some masterKey else None)"
      and kept: "tget (kr_prefs s5) KEY_WRAPPED = tget (kr_prefs s1) KEY_WRAPPED"
  proof -
    have "importMasterKey ?C (exportKey ?C masterKey) = Inr masterKey" using assms(2,3) by (simp add: importMasterKey_def MASTER_KEY_BITS_def)
    moreover have "ke_durable E \<Longrightarrow> tget (kr_secrets s1) SECURE_MASTER_KEY = Some (toBase64 (exportKey ?C masterKey))"
      using tab(2) by (simp add: s1 adopted_def with_vault_def)
    moreover have "\<not> blank (tget (kr_prefs s1) KEY_VAULT_ID)" "\<not> blank (tget (kr_prefs s1) KEY_WRAPPED)"
      using w assms(4,7) by (simp_all add: blank_def json_inverse_def)
    ultimately show thesis using restart_reads_key [OF assms(5) _ base64_of_key [OF assms(3)] _ _ w(3), of masterKey] that
      unfolding opens_def by blast
  qed
  moreover have "\<exists>s6. vault_unlock E passphrase s5 = (Inr (), s6) \<and> requireKey s6 = Inr masterKey" by (rule unlock [OF kept])
  moreover have "\<exists>s2. vault_unlock E passphrase (vault_lock E s1) = (Inr (), s2) \<and> requireKey s2 = Inr masterKey"
    by (rule unlock) (simp add: lock)
  moreover have "requireKey s5 = (if opens then Inr masterKey else Inl VaultLockedError)" "vaultGuard s5 = (if opens then None else Some ''/vault'')"
    if "kr_state s5 = (if opens then Unlocked else Locked)" "kr_masterKey s5 = (if opens then Some masterKey else None)"
    using that by (simp_all add: requireKey_def vaultGuard_def)
  ultimately show ?thesis using s1 by (cases opens) (simp_all only: if_True if_False, (blast | metis)+)
qed

text \<open>A concrete platform: the sample cipher, and wrapped keys written as fields that each follow their
  length in unary.\<close>

definition put_field :: "string \<Rightarrow> string" where
  "put_field f = replicate (length f) CHR ''x'' @ ''.'' @ f"

definition take_field :: "string \<Rightarrow> string \<times> string" where
  "take_field t = (let n = length (takeWhile (\<lambda>c. c = CHR ''x'') t); r = drop (Suc n) t in (take n r, drop n r))"

lemma take_put_field: "take_field (put_field f @ t) = (f, t)"
  by (simp add: take_field_def put_field_def Let_def takeWhile_append)

definition sample_json :: "WrappedMasterKey \<Rightarrow> string" where
  "sample_json w = concat (map put_field [replicate (wk_version w) CHR ''1'', wk_kdf w, replicate (wk_iterations w) CHR ''1'',
     wk_salt w, wk_iv w, wk_key w])"

definition sample_unjson :: "string \<Rightarrow> WrappedMasterKey option" where
  "sample_unjson t =
     (let (a, t) = take_field t; (b, t) = take_field t; (c, t) = take_field t; (d, t) = take_field t;
          (e, t) = take_field t; (f, t) = take_field t
      in Some \<lparr>wk_version = length a, wk_kdf = b, wk_iterations = length c, wk_salt = d, wk_iv = e, wk_key = f\<rparr>)"

definition sample_platform :: "bool \<Rightarrow> byte key_env" where
  "sample_platform native = \<lparr>ke_crypto = sample_crypto, ke_durable = native, ke_to_json = sample_json,
     ke_from_json = sample_unjson, ke_nfkc = (\<lambda>s. s), ke_faults = no_faults\<rparr>"

definition new_install :: "byte keyring" where
  "new_install = \<lparr>kr_masterKey = None, kr_state = Uninitialised, kr_vaultId = None, kr_deviceId = None, kr_prefs = [], kr_secrets = []\<rparr>"

lemma sample_json_inverse: "json_inverse (sample_platform native)"
proof -
  have "sample_unjson (sample_json w) = Some w" for w
    using take_put_field [of _ "[]"]
    by (simp add: sample_unjson_def sample_json_def take_put_field)
  then show ?thesis by (simp add: json_inverse_def sample_platform_def) (simp add: sample_json_def put_field_def)
qed

definition sample_made :: "bool \<Rightarrow> byte keyring" where
  "sample_made native = snd (vault_create (sample_platform native) 9 [1, 2] (replicate 12 7) ''vault'' ''correct horse'' new_install)"

lemma sample_platform_simps [simp]:
  "ke_faults (sample_platform native) = no_faults" "ke_crypto (sample_platform native) = sample_crypto"
  "ke_durable (sample_platform native) = native" "(sample_platform native)\<lparr>ke_faults := no_faults\<rparr> = sample_platform native"
  by (simp_all add: sample_platform_def)

lemma sample_made_created:
  "vault_create (sample_platform native) 9 [1, 2] (replicate 12 7) ''vault'' ''correct horse'' new_install = (Inr (), sample_made native)"
  by (simp add: sample_made_def vault_create_def andThen_def lifted_def assertPassphrase_def healthy) (simp add: sample_platform_def)

text \<open>The device has no keystore; and one whose keystore refuses the key.\<close>

definition refused_made :: "byte keyring" where
  "refused_made = snd (vault_create ((sample_platform True)\<lparr>ke_faults := no_faults\<lparr>kf_secret_set := Some (Error ''full'', False)\<rparr>\<rparr>)
     9 [1, 2] (replicate 12 7) ''vault'' ''correct horse'' new_install)"


theorem key_recovered_witness:
  "requireKey (sample_made True) = Inr 9 \<and>
   (\<exists>s2. vault_unlock (sample_platform True) ''correct horse'' (vault_lock (sample_platform True) (sample_made True)) = (Inr (), s2) \<and>
     requireKey s2 = Inr 9) \<and>
   (\<exists>s5. vault_initialise (sample_platform True) [1, 2, 3] True (restarted (sample_platform True) (sample_made True)) = (Inr Unlocked, s5) \<and>
     requireKey s5 = Inr 9)"
proof -
  have k: "inverts (ke_crypto (sample_platform True))"
    "importKey (ke_crypto (sample_platform True)) (exportKey (ke_crypto (sample_platform True)) 9) = 9"
    "length (exportKey (ke_crypto (sample_platform True)) 9) = 32" "ke_faults (sample_platform True) = no_faults"
    "written_down (sample_platform True) new_install" "''vault'' \<noteq> []"
    using sample_crypto_ok by (simp_all add: sample_crypto_def new_install_def written_down_def prefs_ok_def)
  show ?thesis
    using key_recovered [OF k(1-3) sample_json_inverse k(4-6) sample_made_created,
      of "[3]" "replicate 12 8" "''battery staple''" "new_install" "[1, 2, 3]" True] by auto
qed

end
