(* ===== verification/Backup.thy ===== *)
theory Backup
  imports Keys Writes Csv
begin

text \<open>
  Backup files (\<open>core/backup/backup.ts\<close>, \<open>core/backup/backup.service.ts\<close>): a snapshot of every table, sealed with
  the vault's key and written as base64; reading one back, with the checks before anything is written;
  and restoring it through the ledger. What a file decrypts to is a value of JSON, of which the model keeps
  what the checks look at. The theorems show that what is exported is read back as it was and nowhere
  else, and what restoring leaves in every row.
\<close>

section \<open>The file\<close>

definition BACKUP_FORMAT :: int where "BACKUP_FORMAT = 1"

text \<open>A decrypted value: a row is an object with an identifier or something else, a section an array or
  something else, and the format is absent, a whole number or something else, which is printed.\<close>

datatype backup_row = BackupRow AnyEntity | Malformed

datatype backup_section = Section "backup_row list" | NotAnArray

datatype backup_format = NoFormat | FormatNumber int | FormatOther string

record backup_object =
  bo_format :: backup_format
  bo_takenAt :: "int option"
  bo_vaultId :: "string option"
  bo_entities :: "(string \<times> backup_section) list option"

datatype backup_value = NotAnObject | BackupObject backup_object

record BackupPayload =
  bp_format :: int
  bp_takenAt :: int
  bp_vaultId :: string
  bp_entities :: "(string \<times> backup_row list) list"

definition countRows :: "BackupPayload \<Rightarrow> nat" where
  "countRows payload = sum_list (map (\<lambda>(name, rs). length rs) (bp_entities payload))"

fun show_format :: "backup_format \<Rightarrow> string" where
  "show_format NoFormat = ''undefined''"
| "show_format (FormatNumber n) = show_int n"
| "show_format (FormatOther s) = s"

fun validate_sections :: "(string \<times> backup_section) list \<Rightarrow> (string \<times> backup_row list) list result" where
  "validate_sections [] = Inr []"
| "validate_sections ((name, sec) # secs) =
     (if name \<notin> set (map entity_name ENTITY_NAMES)
      then Inl (BackupFormatError (''The backup contains unknown data ('' @ [quote] @ name @ [quote] @ '')''))
      else case sec of
        NotAnArray \<Rightarrow> Inl (BackupFormatError (''The backup'' @ [apostrophe] @ ''s '' @ [quote] @ name @ [quote] @ '' section is malformed''))
      | Section rs \<Rightarrow>
          (case validate_sections secs of Inl e \<Rightarrow> Inl e | Inr rest \<Rightarrow> Inr ((name, rs) # rest)))"

definition validateBackup :: "backup_value \<Rightarrow> BackupPayload result" where
  "validateBackup val =
     (case val of
        NotAnObject \<Rightarrow> Inl (BackupFormatError ''That file does not contain a backup'')
      | BackupObject payload \<Rightarrow>
          if bo_format payload \<noteq> FormatNumber BACKUP_FORMAT then
            Inl (BackupFormatError
              (if bo_format payload = NoFormat then ''That file does not contain a backup''
               else ''This backup was written by a newer version of Easy Docket (format '' @ show_format (bo_format payload) @ '')''))
          else if blank (bo_vaultId payload) then Inl (BackupFormatError ''The backup does not say which vault it came from'')
          else case bo_entities payload of
            None \<Rightarrow> Inl (BackupFormatError ''The backup contains no entities'')
          | Some secs \<Rightarrow>
              (case validate_sections secs of
                 Inl e \<Rightarrow> Inl e
               | Inr entities \<Rightarrow>
                   Inr \<lparr>bp_format = BACKUP_FORMAT, bp_takenAt = (case bo_takenAt payload of None \<Rightarrow> 0 | Some t \<Rightarrow> t),
                        bp_vaultId = the (bo_vaultId payload), bp_entities = entities\<rparr>))"

text \<open>A payload as the value that is written.\<close>

definition as_value :: "BackupPayload \<Rightarrow> backup_value" where
  "as_value p = BackupObject
     \<lparr>bo_format = FormatNumber (bp_format p), bo_takenAt = Some (bp_takenAt p), bo_vaultId = Some (bp_vaultId p),
      bo_entities = Some (map (\<lambda>(name, rs). (name, Section rs)) (bp_entities p))\<rparr>"

text \<open>\<open>toISOString\<close> up to the seconds, with colons and the \<open>T\<close> as dashes; a year after 9999 has a sign and six
  digits.\<close>

definition two_place :: "int \<Rightarrow> string" where
  "two_place n = padStart 2 CHR ''0'' (String_of (nat n))"

definition iso_seconds :: "int \<Rightarrow> string" where
  "iso_seconds ms =
     (let (y, m, d) = civil (ms div 86400000); t = ms mod 86400000 div 1000
      in (if y \<le> 9999 then padStart 4 CHR ''0'' (String_of (nat y)) else ''+'' @ padStart 6 CHR ''0'' (String_of (nat y))) @ ''-'' @
         two_place m @ ''-'' @ two_place d @ ''T'' @ two_place (t div 3600) @ '':'' @ two_place (t div 60 mod 60) @ '':'' @ two_place (t mod 60))"

definition backupFilename :: "int \<Rightarrow> string" where
  "backupFilename takenAt =
     (let stamp = map (\<lambda>c. if c \<in> {CHR '':'', CHR ''T''} then CHR ''-'' else c) (take 19 (iso_seconds takenAt))
      in ''easy-docket-backup-'' @ stamp @ ''.edk'')"

section \<open>The service\<close>

definition build :: "int \<Rightarrow> docket_db \<Rightarrow> 'k keyring \<Rightarrow> BackupPayload result" where
  "build takenAt d s =
     (let entities = map (\<lambda>e. (entity_name e, map BackupRow (toArray (tables d e)))) ENTITY_NAMES
      in case requireVaultId s of
           Inl e \<Rightarrow> Inl e
         | Inr vaultId \<Rightarrow> Inr \<lparr>bp_format = BACKUP_FORMAT, bp_takenAt = takenAt, bp_vaultId = vaultId, bp_entities = entities\<rparr>)"

text \<open>The text handed to the file export, with the result of \<open>export\<close>.\<close>

record backup_file =
  bf_filename :: string
  bf_rows :: nat
  bf_text :: string

definition backup_header :: "BackupPayload \<Rightarrow> string \<Rightarrow> EnvelopeHeader" where
  "backup_header payload deviceId = \<lparr>hd_v = bp_vaultId payload, hd_d = deviceId, hd_h = [], hd_t = ''backup''\<rparr>"

definition export_backup :: "'k web_crypto \<Rightarrow> EnvelopeHeader json \<Rightarrow> backup_value json \<Rightarrow> bytes \<Rightarrow> int \<Rightarrow> docket_db \<Rightarrow> 'k keyring \<Rightarrow>
    backup_file result" where
  "export_backup C J V iv takenAt d s =
     (case build takenAt d s of
        Inl e \<Rightarrow> Inl e
      | Inr payload \<Rightarrow>
          (case requireKey s of
             Inl e \<Rightarrow> Inl e
           | Inr key \<Rightarrow>
               (case requireDeviceId s of
                  Inl e \<Rightarrow> Inl e
                | Inr deviceId \<Rightarrow>
                    (case sealJson C J V iv key (backup_header payload deviceId) (as_value payload) of
                       Inl e \<Rightarrow> Inl e
                     | Inr sealed \<Rightarrow>
                         Inr \<lparr>bf_filename = backupFilename (bp_takenAt payload), bf_rows = countRows payload, bf_text = toBase64 sealed\<rparr>))))"

definition not_ours :: error where
  "not_ours = BackupFormatError ''That file is not an Easy Docket backup, or it was made by a different vault''"

definition open_backup :: "'k web_crypto \<Rightarrow> EnvelopeHeader json \<Rightarrow> backup_value json \<Rightarrow> string \<Rightarrow> 'k keyring \<Rightarrow> backup_value result" where
  "open_backup C J V contents s =
     (case fromBase64 (trim contents) of
        Inl e \<Rightarrow> Inl e
      | Inr sealed \<Rightarrow>
          (case requireKey s of
             Inl e \<Rightarrow> Inl e
           | Inr key \<Rightarrow> (case openJson C J V key sealed of Inl e \<Rightarrow> Inl e | Inr (header, val) \<Rightarrow> Inr val)))"

definition inspect :: "'k web_crypto \<Rightarrow> EnvelopeHeader json \<Rightarrow> backup_value json \<Rightarrow> string \<Rightarrow> 'k keyring \<Rightarrow> BackupPayload result" where
  "inspect C J V contents s =
     (case open_backup C J V contents s of
        Inl e \<Rightarrow> Inl not_ours
      | Inr val \<Rightarrow>
          (case validateBackup val of
             Inl e \<Rightarrow> Inl e
           | Inr payload \<Rightarrow>
               (case requireVaultId s of
                  Inl e \<Rightarrow> Inl e
                | Inr vaultId \<Rightarrow>
                    if bp_vaultId payload \<noteq> vaultId then Inl (BackupFormatError ''That backup belongs to a different vault'')
                    else Inr payload)))"

record RestoreResult =
  rr_restored :: nat
  rr_skipped :: nat

definition isNewerLocally :: "docket_db \<Rightarrow> EntityName \<Rightarrow> AnyEntity \<Rightarrow> bool" where
  "isNewerLocally d e v \<longleftrightarrow>
     (case tget (tables d e) (entity_id v) of None \<Rightarrow> False | Some existing \<Rightarrow> updatedAt existing > updatedAt v)"

text \<open>The rows of one table; the \<open>j\<close>-th row that is written reads the clock at \<open>now j\<close>.\<close>

fun restore_rows :: "(nat \<Rightarrow> nat) \<Rightarrow> EntityName \<Rightarrow> backup_row list \<Rightarrow> RestoreResult \<Rightarrow> (ledger, RestoreResult) call" where
  "restore_rows now e [] res l = (Inr res, l)"
| "restore_rows now e (Malformed # rs) res l = restore_rows now e rs (res\<lparr>rr_skipped := rr_skipped res + 1\<rparr>) l"
| "restore_rows now e (BackupRow v # rs) res l =
     (if isNewerLocally (led_db l) e v then restore_rows now e rs (res\<lparr>rr_skipped := rr_skipped res + 1\<rparr>) l
      else case put (now (rr_restored res)) e v l of
             (Inl err, l') \<Rightarrow> (Inl err, l')
           | (Inr _, l') \<Rightarrow> restore_rows now e rs (res\<lparr>rr_restored := rr_restored res + 1\<rparr>) l')"

definition section_rows :: "BackupPayload \<Rightarrow> EntityName \<Rightarrow> backup_row list" where
  "section_rows payload e = (case map_of (bp_entities payload) (entity_name e) of None \<Rightarrow> [] | Some rs \<Rightarrow> rs)"

fun restore_names :: "(nat \<Rightarrow> nat) \<Rightarrow> BackupPayload \<Rightarrow> EntityName list \<Rightarrow> RestoreResult \<Rightarrow> (ledger, RestoreResult) call" where
  "restore_names now payload [] res l = (Inr res, l)"
| "restore_names now payload (e # es) res l =
     (case restore_rows now e (section_rows payload e) res l of
        (Inl err, l') \<Rightarrow> (Inl err, l')
      | (Inr res', l') \<Rightarrow> restore_names now payload es res' l')"

definition restore_backup :: "(nat \<Rightarrow> nat) \<Rightarrow> BackupPayload \<Rightarrow> (ledger, RestoreResult) call" where
  "restore_backup now payload = restore_names now payload ENTITY_NAMES \<lparr>rr_restored = 0, rr_skipped = 0\<rparr>"

section \<open>Reading what was written\<close>

lemma trim_base64: "trim (toBase64 xs) = toBase64 xs"
proof (rule trim_no_space)
  have "list_all (\<lambda>c. \<not> is_space c) BASE64" by code_simp
  then show "list_all (\<lambda>c. \<not> is_space c) (toBase64 xs)"
    using sextets_less [of _ xs] sextet_chars(2) nth_mem [of _ BASE64]
    by (auto simp: toBase64_def list_all_iff is_space_def)
qed

lemma validate_written:
  assumes "set (map fst secs) \<subseteq> set (map entity_name ENTITY_NAMES)"
  shows "validate_sections (map (\<lambda>(name, rs). (name, Section rs)) secs) = Inr secs"
  using assms by (induction secs) auto

lemma validate_as_value:
  assumes "bp_format p = BACKUP_FORMAT" "bp_vaultId p \<noteq> []" "set (map fst (bp_entities p)) \<subseteq> set (map entity_name ENTITY_NAMES)"
  shows "validateBackup (as_value p) = Inr p"
  using assms validate_written [OF assms(3)] by (simp add: validateBackup_def as_value_def blank_def)

lemma build_Inr:
  assumes "build takenAt d s = Inr p"
  shows "validateBackup (as_value p) = Inr p" "requireVaultId s = Inr (bp_vaultId p)" "bp_takenAt p = takenAt"
    "section_rows p e = map BackupRow (toArray (tables d e))"
proof -
  have v: "bp_vaultId p \<noteq> []" using assms by (auto simp: build_def Let_def requireVaultId_def blank_def split: if_splits)
  have p: "bp_format p = BACKUP_FORMAT" "bp_entities p = map (\<lambda>e. (entity_name e, map BackupRow (toArray (tables d e)))) ENTITY_NAMES"
    using assms by (auto simp: build_def Let_def split: sum.splits)
  show "validateBackup (as_value p) = Inr p" by (rule validate_as_value [OF p(1) v]) (auto simp: p(2))
  show "requireVaultId s = Inr (bp_vaultId p)" "bp_takenAt p = takenAt"
    using assms by (auto simp: build_def Let_def split: sum.splits)
  show "section_rows p e = map BackupRow (toArray (tables d e))"
    by (cases e) (simp_all add: section_rows_def p(2) ENTITY_NAMES_def)
qed

lemma open_written:
  assumes "inverts C" and "length iv = IV_LENGTH" and "length (to_json J header) \<le> 0xffff" and "from_json J (to_json J header) = Some header"
    and "sealJson C J V iv key header val = Inr sealed" and "from_json V (to_json V val) = Some val" and "requireKey t = Inr key"
  shows "open_backup C J V (toBase64 sealed) t = Inr val"
proof -
  have sealed: "sealed = layout iv (to_json J header) (encrypt C key iv (to_json J header) (to_json V val))"
    using assms(5) by (simp add: sealJson_def seal_def Let_def serialise_layout [OF assms(2,3)])
  have "openJson C J V key sealed = Inr (header, val)"
    using assms(1,4,6) unfolding sealed by (simp add: openJson_def open_envelope_def parse_layout [OF assms(2,3)] inverts_def)
  then show ?thesis by (simp add: open_backup_def trim_base64 base64_inverse assms(7))
qed


section \<open>Restoring\<close>

text \<open>What restoring one section does to its table: rows that the device has in a newer version stay, the
  others are as in the backup, with a new stamp, and everything else is left alone.\<close>

primrec row_ids :: "backup_row \<Rightarrow> string list" where
  "row_ids (BackupRow v) = [entity_id v]"
| "row_ids Malformed = []"

definition typed_rows :: "EntityName \<Rightarrow> backup_row list \<Rightarrow> bool" where
  "typed_rows e rs \<longleftrightarrow> (\<forall>v. BackupRow v \<in> set rs \<longrightarrow> entity_of v = e) \<and> distinct (concat (map row_ids rs))"

definition restored_rows :: "EntityName \<Rightarrow> backup_row list \<Rightarrow> docket_db \<Rightarrow> docket_db \<Rightarrow> bool" where
  "restored_rows e rs d d' \<longleftrightarrow>
     (\<forall>v. BackupRow v \<in> set rs \<longrightarrow> \<not> isNewerLocally d e v \<longrightarrow>
        (\<exists>s. tget (tables d' e) (entity_id v) = Some (with_updatedAt s v))) \<and>
     (\<forall>i. (\<forall>v. BackupRow v \<in> set rs \<longrightarrow> entity_id v = i \<longrightarrow> isNewerLocally d e v) \<longrightarrow>
        tget (tables d' e) i = tget (tables d e) i)"

definition other_tables :: "EntityName set \<Rightarrow> docket_db \<Rightarrow> docket_db \<Rightarrow> bool" where
  "other_tables E d d' \<longleftrightarrow> (\<forall>e i. e \<notin> E \<longrightarrow> tget (tables d' e) i = tget (tables d e) i)"

lemma restored_rows_cong:
  assumes "\<And>i. tget (tables d e) i = tget (tables c e) i" and "\<And>i. tget (tables d' e) i = tget (tables c' e) i"
  shows "restored_rows e rs d d' = restored_rows e rs c c'"
  using assms by (simp add: restored_rows_def isNewerLocally_def)

lemma typed_rows_Cons:
  "typed_rows e (Malformed # rs) \<longleftrightarrow> typed_rows e rs"
  "typed_rows e (BackupRow v # rs) \<longleftrightarrow> entity_of v = e \<and> (\<forall>w. BackupRow w \<in> set rs \<longrightarrow> entity_id w \<noteq> entity_id v) \<and> typed_rows e rs"
proof -
  have "i \<in> set (row_ids r) \<longleftrightarrow> (\<exists>w. r = BackupRow w \<and> entity_id w = i)" for i r by (cases r) auto
  then show "typed_rows e (BackupRow v # rs) \<longleftrightarrow>
      entity_of v = e \<and> (\<forall>w. BackupRow w \<in> set rs \<longrightarrow> entity_id w \<noteq> entity_id v) \<and> typed_rows e rs"
    by (auto simp: typed_rows_def)
qed (simp add: typed_rows_def)

lemma restored_row:
  assumes "restored_rows e rs d d'" and "\<And>w. BackupRow w \<in> set rs \<and> entity_id w = i \<longleftrightarrow> w = v"
  shows "if isNewerLocally d e v then tget (tables d' e) i = tget (tables d e) i
    else (\<exists>s. tget (tables d' e) i = Some (with_updatedAt s v))"
proof -
  have v: "BackupRow v \<in> set rs" "entity_id v = i" "\<And>w. BackupRow w \<in> set rs \<Longrightarrow> entity_id w = i \<Longrightarrow> w = v"
    using assms(2) by blast+
  note r = assms(1) [unfolded restored_rows_def]
  show ?thesis
  proof (cases "isNewerLocally d e v")
    case True
    then have "\<forall>w. BackupRow w \<in> set rs \<longrightarrow> entity_id w = i \<longrightarrow> isNewerLocally d e w" using v(3) by blast
    then show ?thesis using r True by presburger
  next
    case False
    then have "\<exists>s. tget (tables d' e) (entity_id v) = Some (with_updatedAt s v)" using r v(1) by blast
    then show ?thesis using False v(2) by simp
  qed
qed

lemma restored_rows_skip:
  assumes "restored_rows e rs d d'" and "isNewerLocally d e v"
  shows "restored_rows e (BackupRow v # rs) d d'"
  using assms by (auto simp: restored_rows_def)

lemma restored_rows_put:
  assumes "restored_rows e rs m d'" and "\<forall>w. BackupRow w \<in> set rs \<longrightarrow> entity_id w \<noteq> entity_id v"
    and "\<not> isNewerLocally d e v"
    and get: "\<And>e' i. tget (tables m e') i = (if e' = e \<and> i = entity_id v then Some (with_updatedAt s v) else tget (tables d e') i)"
  shows "restored_rows e (BackupRow v # rs) d d'"
proof -
  have newer: "isNewerLocally m e w = isNewerLocally d e w" if "BackupRow w \<in> set rs" for w
    using assms(2) that get by (simp add: isNewerLocally_def)
  have "tget (tables d' e) (entity_id v) = Some (with_updatedAt s v)"
    using assms(1,2) get unfolding restored_rows_def by metis
  then show ?thesis using assms(1,3) newer get unfolding restored_rows_def by (auto split: if_splits)
qed

lemma restore_rows_effect:
  assumes "ledger_ok W dev l" and "\<forall>j. plausible (now j)" and "typed_rows e rs" and "restore_rows now e rs res l = (Inr res', l')"
  shows "(\<exists>W'. W \<subseteq> W' \<and> ledger_ok W' dev l') \<and> restored_rows e rs (led_db l) (led_db l') \<and> other_tables {e} (led_db l) (led_db l') \<and>
    rr_restored res' + rr_skipped res' = rr_restored res + rr_skipped res + length rs"
  using assms
proof (induction now e rs res l arbitrary: W rule: restore_rows.induct)
  case (1 now e res l)
  then show ?case by (auto simp: restored_rows_def other_tables_def)
next
  case (2 now e rs res l)
  then show ?case by (fastforce simp: typed_rows_Cons restored_rows_def)
next
  case (3 now e v rs res l)
  show ?case
  proof (cases "isNewerLocally (led_db l) e v")
    case True
    note ih = "3.IH"(1) [OF True "3.prems"(1,2)]
    then show ?thesis using "3.prems" True restored_rows_skip by (auto simp: typed_rows_Cons)
  next
    case False
    obtain v' m where m: "put (now (rr_restored res)) e v l = (Inr v', m)"
      and rest: "restore_rows now e rs (res\<lparr>rr_restored := rr_restored res + 1\<rparr>) m = (Inr res', l')"
      using "3.prems"(4) False by (auto split: prod.splits sum.splits)
    have ty: "entity_of v = e" "\<forall>w. BackupRow w \<in> set rs \<longrightarrow> entity_id w \<noteq> entity_id v" "typed_rows e rs"
      using "3.prems"(3) by (simp_all add: typed_rows_Cons)
    obtain op s where op: "ledger_ok (insert op W) dev m" and "v' = with_updatedAt s v"
      and get: "\<And>e' i. tget (tables (led_db m) e') i = (if e' = e \<and> i = entity_id v then Some (with_updatedAt s v) else tget (tables (led_db l) e') i)"
      using put_effect [OF "3.prems"(1) "3.prems"(2) [rule_format] ty(1) m] by blast
    note ih = "3.IH"(2) [OF False m [symmetric] refl op "3.prems"(2) ty(3) rest]
    have "restored_rows e (BackupRow v # rs) (led_db l) (led_db l')"
      using restored_rows_put [OF _ ty(2) False get] ih by blast
    moreover have "other_tables {e} (led_db l) (led_db l')" using ih get by (simp add: other_tables_def)
    ultimately show ?thesis using ih by auto
  qed
qed

lemma restore_names_effect:
  assumes "ledger_ok W dev l" and "\<forall>j. plausible (now j)" and "\<And>e. typed_rows e (section_rows p e)" and "distinct es"
    and "restore_names now p es res l = (Inr res', l')"
  shows "(\<exists>W'. W \<subseteq> W' \<and> ledger_ok W' dev l') \<and> (\<forall>e \<in> set es. restored_rows e (section_rows p e) (led_db l) (led_db l')) \<and>
    other_tables (set es) (led_db l) (led_db l') \<and>
    rr_restored res' + rr_skipped res' = rr_restored res + rr_skipped res + sum_list (map (\<lambda>e. length (section_rows p e)) es)"
  using assms(1,4,5)
proof (induction es arbitrary: W res l)
  case Nil
  then show ?case by (auto simp: other_tables_def)
next
  case (Cons e es)
  obtain res1 m where r: "restore_rows now e (section_rows p e) res l = (Inr res1, m)" and n: "restore_names now p es res1 m = (Inr res', l')"
    using Cons.prems(3) by (auto split: prod.splits sum.splits)
  from restore_rows_effect [OF Cons.prems(1) assms(2,3) r] obtain W1 where W1: "W \<subseteq> W1" "ledger_ok W1 dev m"
    and here: "restored_rows e (section_rows p e) (led_db l) (led_db m)" and frame: "other_tables {e} (led_db l) (led_db m)"
    and sums: "rr_restored res1 + rr_skipped res1 = rr_restored res + rr_skipped res + length (section_rows p e)" by blast
  have es: "e \<notin> set es" "distinct es" using Cons.prems(2) by simp_all
  note ih = Cons.IH [OF W1(2) es(2) n]
  have "restored_rows e (section_rows p e) (led_db l) (led_db l')"
    using ih es(1) here by (subst restored_rows_cong [where c = "led_db l" and c' = "led_db m"]) (auto simp: other_tables_def)
  moreover have "restored_rows e' (section_rows p e') (led_db l) (led_db l')" if "e' \<in> set es" for e'
    using ih es(1) frame that
    by (subst restored_rows_cong [where c = "led_db m" and c' = "led_db l'"]) (auto simp: other_tables_def)
  moreover have "other_tables (set (e # es)) (led_db l) (led_db l')" using ih frame by (simp add: other_tables_def)
  moreover have "\<exists>W'. W \<subseteq> W' \<and> ledger_ok W' dev l'" using ih W1(1) by blast
  ultimately show ?case using ih sums by simp
qed

text \<open>A restore that stops has run out of stamps; what it wrote until then is kept.\<close>

lemma restore_rows_stops:
  assumes "ledger_ok W dev l" and "\<forall>j. plausible (now j)" and "typed_rows e rs" and "restore_rows now e rs res l = (Inl err, l')"
  shows "err = counter_overflow \<and> (\<exists>W'. W \<subseteq> W' \<and> ledger_ok W' dev l')"
  using assms
proof (induction now e rs res l arbitrary: W rule: restore_rows.induct)
  case (3 now e v rs res l)
  have ty: "entity_of v = e" "typed_rows e rs" using "3.prems"(3) by (simp_all add: typed_rows_Cons)
  show ?case
  proof (cases "isNewerLocally (led_db l) e v")
    case True
    then show ?thesis using "3.IH"(1) [OF True "3.prems"(1,2) ty(2)] "3.prems"(4) by simp
  next
    case False
    obtain q m where m: "put (now (rr_restored res)) e v l = (q, m)" by fastforce
    show ?thesis
    proof (cases q)
      case (Inl err')
      then have "err = counter_overflow \<and> l' = l" using put_overflow [OF "3.prems"(1)] m "3.prems"(4) False by auto
      then show ?thesis using "3.prems"(1) by blast
    next
      case (Inr v')
      then obtain op where op: "ledger_ok (insert op W) dev m"
        using put_effect [OF "3.prems"(1) "3.prems"(2) [rule_format] ty(1)] m by blast
      show ?thesis
        using "3.IH"(2) [OF False m [symmetric] _ op "3.prems"(2) ty(2)] "3.prems"(4) False m Inr by auto
    qed
  qed
qed (auto simp: typed_rows_Cons)

lemma restore_names_stops:
  assumes "ledger_ok W dev l" and "\<forall>j. plausible (now j)" and "\<And>e. typed_rows e (section_rows p e)"
    and "restore_names now p es res l = (Inl err, l')"
  shows "err = counter_overflow \<and> (\<exists>W'. W \<subseteq> W' \<and> ledger_ok W' dev l')"
  using assms(1,4)
proof (induction es arbitrary: W res l)
  case (Cons e es)
  obtain q m where r: "restore_rows now e (section_rows p e) res l = (q, m)" by fastforce
  show ?case
  proof (cases q)
    case (Inl err')
    then show ?thesis using restore_rows_stops [OF Cons.prems(1) assms(2,3)] r Cons.prems(2) by auto
  next
    case (Inr res1)
    then obtain W1 where "W \<subseteq> W1" "ledger_ok W1 dev m" using restore_rows_effect [OF Cons.prems(1) assms(2,3)] r by blast
    moreover have "restore_names now p es res1 m = (Inl err, l')" using Cons.prems(2) r Inr by simp
    ultimately show ?thesis using Cons.IH [of W1 m res1] by blast
  qed
qed simp

lemma built_rows:
  assumes "ledger_ok W dev l" and "build takenAt (led_db l) s = Inr p"
  shows "BackupRow v \<in> set (section_rows p e) \<longleftrightarrow> tget (tables (led_db l) e) (entity_id v) = Some v" "typed_rows e (section_rows p e)"
    "countRows p = sum_list (map (\<lambda>e. length (section_rows p e)) ENTITY_NAMES)"
proof -
  let ?t = "tables (led_db l) e"
  have tab: "table_ok ?t" using ledger_okD(1) [OF assms(1)] by (simp add: db_ok_def)
  note rows = build_Inr(4) [OF assms(2), of e] row_table [OF assms(1), of e]
  have ids: "map (\<lambda>(k, v). entity_id v) ?t = map fst ?t"
    using rows(3) tget_mem [OF tab] by (auto intro!: map_cong)
  show mem: "BackupRow v \<in> set (section_rows p e) \<longleftrightarrow> tget ?t (entity_id v) = Some v" for v
    using rows tget_mem [OF tab] by (force simp: toArray_def)
  have "concat (map row_ids (map BackupRow (toArray t))) = map (\<lambda>(k, v). entity_id v) t" for t
    by (induction t) (auto simp: toArray_def)
  then show "typed_rows e (section_rows p e)"
    using mem rows(2) table_distinct [OF tab] ids by (simp only: typed_rows_def rows(1)) auto
  show "countRows p = sum_list (map (\<lambda>e. length (section_rows p e)) ENTITY_NAMES)"
    using assms(2) build_Inr(4) [OF assms(2)] by (auto simp: countRows_def build_def Let_def comp_def split: sum.splits)
qed

text \<open>Restoring writes through the ledger only, rows that are valid where those of the backup are.\<close>

lemma restore_rows_writes:
  assumes "\<forall>j. plausible (now j)" and "\<forall>v. BackupRow v \<in> set rs \<longrightarrow> entity_of v = e \<and> entity_valid v"
    and "restore_rows now e rs res l = (r, l')"
  shows "writes UNIV l l'"
  using assms
proof (induction now e rs res l rule: restore_rows.induct)
  case (3 now e v rs res l)
  obtain q m where m: "put (now (rr_restored res)) e v l = (q, m)" by fastforce
  have w: "writes UNIV l m" by (rule writes_put [OF m]) (use "3.prems" in auto)
  show ?case
  proof (cases "isNewerLocally (led_db l) e v")
    case True
    then show ?thesis using 3 by simp
  next
    case False
    then show ?thesis using "3.IH"(2) [OF False m [symmetric]] "3.prems" m w by (cases q) (auto intro: rtranclp_trans)
  qed
qed simp_all

lemma restore_writes:
  assumes "\<forall>j. plausible (now j)" and "\<forall>e v. BackupRow v \<in> set (section_rows p e) \<longrightarrow> entity_of v = e \<and> entity_valid v"
    and "restore_backup now p l = (r, l')"
  shows "writes UNIV l l'"
proof -
  have "writes UNIV l l'" if "restore_names now p es res l = (r, l')" for es res l
    using that
  proof (induction es arbitrary: res l)
    case (Cons e es)
    obtain q m where m: "restore_rows now e (section_rows p e) res l = (q, m)" by fastforce
    have "writes UNIV l m" by (rule restore_rows_writes [OF assms(1) _ m]) (use assms(2) in blast)
    then show ?case using Cons m by (cases q) (auto intro: rtranclp_trans)
  qed simp
  then show ?thesis using assms(3) unfolding restore_backup_def by blast
qed

text \<open>C18: restoring a backup, taken of a device in any state, on a device of the vault in any state. Every row
  of the backup that the device does not have in a newer version ends as it is in the backup, with a new
  stamp, whether the device has an older version, never had it or deleted it; a row the device has in a
  newer version and every row that is not in the backup are left alone; the counts add up to the rows of
  the backup, and the ledger's invariant is kept. The only way to fail is that the clock runs out of
  stamps, and then the invariant is kept too.\<close>

theorem restore_spec:
  assumes "ledger_ok W0 dev0 l0" and "build takenAt (led_db l0) s = Inr p"
    and "ledger_ok W dev l" and "\<forall>j. plausible (now j)" and "restore_backup now p l = (r, l')"
  shows "(\<exists>W'. W \<subseteq> W' \<and> ledger_ok W' dev l') \<and>
    (case r of
       Inl err \<Rightarrow> err = counter_overflow
     | Inr res \<Rightarrow> rr_restored res + rr_skipped res = countRows p \<and>
         (\<forall>e i. case tget (tables (led_db l0) e) i of
            None \<Rightarrow> tget (tables (led_db l') e) i = tget (tables (led_db l) e) i
          | Some v \<Rightarrow>
              if (\<exists>x. tget (tables (led_db l) e) i = Some x \<and> updatedAt x > updatedAt v)
              then tget (tables (led_db l') e) i = tget (tables (led_db l) e) i
              else (\<exists>stamp. tget (tables (led_db l') e) i = Some (with_updatedAt stamp v))))"
proof (cases r)
  case (Inl err)
  then show ?thesis
    using restore_names_stops [OF assms(3,4) built_rows(2) [OF assms(1,2)]] assms(5) by (simp add: restore_backup_def)
next
  case (Inr res)
  note eff = restore_names_effect [OF assms(3,4) built_rows(2) [OF assms(1,2)] all_entities(2)]
  have eff': "(\<exists>W'. W \<subseteq> W' \<and> ledger_ok W' dev l')" "\<And>e. restored_rows e (section_rows p e) (led_db l) (led_db l')"
    "rr_restored res + rr_skipped res = countRows p"
    using eff assms(5) Inr all_entities(1) built_rows(3) [OF assms(1,2)] by (auto simp: restore_backup_def)
  note mem = built_rows(1) [OF assms(1,2)] and ids = row_table(2) [OF assms(1)]
  have "case tget (tables (led_db l0) e) i of
            None \<Rightarrow> tget (tables (led_db l') e) i = tget (tables (led_db l) e) i
          | Some v \<Rightarrow>
              if (\<exists>x. tget (tables (led_db l) e) i = Some x \<and> updatedAt x > updatedAt v)
              then tget (tables (led_db l') e) i = tget (tables (led_db l) e) i
              else (\<exists>stamp. tget (tables (led_db l') e) i = Some (with_updatedAt stamp v))" for e i
  proof (cases "tget (tables (led_db l0) e) i")
    case None
    then have "\<forall>v. BackupRow v \<in> set (section_rows p e) \<longrightarrow> entity_id v \<noteq> i" using mem [of _ e] by fastforce
    then show ?thesis using None eff'(2) [of e] by (simp add: restored_rows_def)
  next
    case (Some v)
    have v: "BackupRow w \<in> set (section_rows p e) \<and> entity_id w = i \<longleftrightarrow> w = v" for w
      using mem [of w e] ids [OF Some] Some by (metis option.inject)
    have newer: "isNewerLocally (led_db l) e v \<longleftrightarrow> (\<exists>x. tget (tables (led_db l) e) i = Some x \<and> updatedAt x > updatedAt v)"
      using ids [OF Some] by (auto simp: isNewerLocally_def split: option.splits)
    show ?thesis using restored_row [OF eff'(2) v] newer Some by (simp only: option.case)
  qed
  then show ?thesis using eff'(1,3) Inr by simp
qed

section \<open>Witnesses\<close>

definition sample_keyring :: "byte \<Rightarrow> string \<Rightarrow> byte keyring" where
  "sample_keyring key vaultId = \<lparr>kr_masterKey = Some key, kr_state = Unlocked, kr_vaultId = Some vaultId, kr_deviceId = Some ''a'',
     kr_prefs = [], kr_secrets = []\<rparr>"

definition sample_payload :: BackupPayload where
  "sample_payload = \<lparr>bp_format = 1, bp_takenAt = 1000, bp_vaultId = ''v'',
     bp_entities = map (\<lambda>e. (entity_name e, map BackupRow (toArray (tables (led_db sample_ledger) e)))) ENTITY_NAMES\<rparr>"

definition constant_json :: "'v \<Rightarrow> 'v json" where
  "constant_json x = \<lparr>to_json = (\<lambda>_. ascii_bytes ''{}''), from_json = (\<lambda>_. Some x)\<rparr>"

lemma sample_build: "build 1000 (led_db sample_ledger) (sample_keyring 9 ''v'') = Inr sample_payload"
  by (simp add: build_def sample_payload_def sample_keyring_def requireVaultId_def blank_def BACKUP_FORMAT_def)


theorem restore_spec_witness:
  "fst (restore_backup (\<lambda>_. 2000) sample_payload (new_ledger ''b'')) = Inr \<lparr>rr_restored = 1, rr_skipped = 0\<rparr> \<and>
   (\<exists>stamp. tget (tables (led_db (snd (restore_backup (\<lambda>_. 2000) sample_payload (new_ledger ''b'')))) VaultSettingsTable) ''vault'' =
      Some (with_updatedAt stamp sample_row))"
proof -
  let ?now = "\<lambda>_. 2000"
  have "fst (restore_backup ?now sample_payload (new_ledger ''b'')) = Inr \<lparr>rr_restored = 1, rr_skipped = 0\<rparr>" by code_simp
  moreover have "tget (tables (led_db sample_ledger) VaultSettingsTable) ''vault'' =
      Some (with_updatedAt ''0000000000000001000-0000-a'' sample_row)" by code_simp
  moreover have "tget (tables (led_db (new_ledger ''b'')) VaultSettingsTable) ''vault'' = None" by code_simp
  moreover have "with_updatedAt t (with_updatedAt u sample_row) = with_updatedAt t sample_row" for t u by (simp add: sample_row_def)
  moreover have "\<forall>j. plausible (?now j)" by (simp add: plausible_small)
  ultimately show ?thesis
    using conjunct2 [OF restore_spec [OF sample_ok(1) sample_build sample_ok(2) _ surjective_pairing, of ?now]]
    by (auto dest!: spec [of _ VaultSettingsTable] spec [of _ "''vault''"])
qed

end
