(* ===== verification/Application.thy ===== *)
theory Application
  imports Cards Categories_Service Budgets_Service Recurring_Service Sections Import_Safety Backup
begin

text \<open>
  The services together on one device: every operation a screen can call that writes to the ledger, as one
  step relation, with the materialiser, the import of a file and the restoring of a backup. Its reachable
  states satisfy the ledger's invariant and hold only rows the services accept.
\<close>

section \<open>Materialised transactions are valid\<close>

lemma ledger_date_ymd: "ledger_date s \<Longrightarrow> is_ymd s"
  by (erule ledger_dateE) (auto simp: parts_def split: if_splits)

lemma toTransaction_valid:
  assumes "rule_assertValid rule = Inr ()" and "is_ymd date"
  shows "transaction_assertValid (toTransaction created rule i date) = Inr ()"
  using assms by (auto simp: transaction_assertValid_def rule_assertValid_def toTransaction_def split: if_splits)

abbreviation "any_transaction \<equiv> {Transactions} \<times> (UNIV :: string set)"

lemma create_due_writes:
  assumes "\<forall>j. plausible (now j)" and "rule_assertValid rule = Inr ()" and "\<forall>d \<in> set dates. is_ymd d"
    and "create_due now rule dates n l = (r, l')"
  shows "writes any_transaction l l'"
  using assms(3,4)
proof (induction dates arbitrary: n l)
  case (Cons d dates)
  let ?v = "TransactionRow (toTransaction (int (now (2 * n))) rule (occurrenceId (rule_id rule) d) d)"
  show ?case
  proof (cases "hasHistory (led_db l) Transactions (occurrenceId (rule_id rule) d)")
    case False
    obtain q m where q: "put (now (2 * n + 1)) Transactions ?v l = (q, m)" by fastforce
    have first: "writes any_transaction l m"
      using toTransaction_valid [OF assms(2)] Cons.prems(1) assms(1) by (intro writes_put [OF q]) simp_all
    show ?thesis
    proof (cases q)
      case (Inr v)
      then have "create_due now rule dates (n + 1) m = (r, l')" using Cons.prems(2) False q by (simp add: Let_def)
      then show ?thesis using Cons.IH Cons.prems(1) first by (meson list.set_intros(2) rtranclp_trans)
    qed (use Cons.prems(2) False q first in \<open>simp add: Let_def\<close>)
  qed (use Cons in \<open>simp add: Let_def\<close>)
qed simp

lemma due_ymd:
  assumes "horizon rule asOf N" and "occurrencesUpTo rule asOf limit after = Inr due" and "d \<in> set due"
  shows "is_ymd d"
proof (cases "1 \<le> limit")
  case True
  then have "d \<in> set (due_dates rule asOf after N)"
    using occurrencesUpTo_eq [OF assms(1)] assms(2,3) by (metis in_set_takeD sum.inject(2))
  then obtain i where "i < N" "d = occurrence rule (int i)" by (auto simp: due_dates_mem)
  then show ?thesis using assms(1) occ.at_date [of rule "int i"] by (auto simp: horizon_def intro: ledger_date_ymd)
next
  case False
  then show ?thesis using assms(2,3) by (auto simp: occurrencesUpTo_def)
qed

lemma run_rules_writes:
  assumes "\<forall>j. plausible (now j)" and "\<forall>rule \<in> set rules. rule_assertValid rule = Inr () \<and> (\<exists>N. horizon rule asOf N)"
    and "run_rules now asOf limit rules res l = (r, l')"
  shows "writes any_transaction l l'"
  using assms(2,3)
proof (induction rules arbitrary: res l)
  case (Cons rule rules)
  show ?case
  proof (cases "occurrencesUpTo rule asOf limit (resume_after (led_db l) rule)")
    case (Inr due)
    let ?res = "if int (length due) = limit then res\<lparr>mat_incomplete := mat_incomplete res @ [rule_id rule]\<rparr> else res"
    obtain q m where q: "create_due now rule due (mat_created ?res) l = (q, m)" by fastforce
    have "\<forall>d \<in> set due. is_ymd d" using due_ymd Inr Cons.prems(1) by (metis list.set_intros(1))
    then have first: "writes any_transaction l m" using create_due_writes [OF assms(1) _ _ q] Cons.prems(1) by simp
    show ?thesis
    proof (cases q)
      case (Inl e)
      then show ?thesis using Cons.prems(2) Inr q first by (simp add: Let_def)
    next
      case (Inr n)
      then have "run_rules now asOf limit rules (?res\<lparr>mat_created := n\<rparr>) m = (r, l')"
        using Cons.prems(2) \<open>occurrencesUpTo _ _ _ _ = Inr due\<close> q by (simp add: Let_def)
      then show ?thesis using Cons.IH Cons.prems(1) first by (meson list.set_intros(2) rtranclp_trans)
    qed
  qed (use Cons.prems(2) in simp)
qed simp

lemma run_writes:
  assumes "\<forall>j. plausible (now j)" and "ledger_ok W dev l" and "rows_valid l"
    and "\<forall>rule \<in> set (rule_rows (led_db l)). \<not> rule_archived rule \<longrightarrow> (\<exists>N. horizon rule asOf N)"
    and "run now asOf limit l = (r, l')"
  shows "writes any_transaction l l'"
proof -
  have tab: "table_ok (tables (led_db l) RecurringRules)" using ledger_okD(1) [OF assms(2)] by (simp add: db_ok_def)
  have "rule_assertValid rule = Inr ()" if "rule \<in> set (rule_rows (led_db l))" for rule
    using that rows_mem [OF tab, of rule as_rule] get_rule_row(2) [OF assms(2,3)] by blast
  then show ?thesis using run_rules_writes [OF assms(1) _ assms(5) [unfolded run_def]] assms(4) by simp
qed

lemma built_valid:
  assumes "ledger_ok W dev l" and "rows_valid l" and "build takenAt (led_db l) s = Inr p"
  shows "\<forall>e v. BackupRow v \<in> set (section_rows p e) \<longrightarrow> entity_of v = e \<and> entity_valid v"
  using built_rows(1) [OF assms(1,3)] row_table(1) [OF assms(1)] row_valid [OF assms(2)] by blast

section \<open>The application on one device\<close>

text \<open>One rule per operation of the services; a step may fail, leaving whatever had been written. The
  amounts of an imported file are in the range of numbers, and a backup that is restored holds rows the
  services accept, as one taken of such a ledger does.\<close>

inductive app_step :: "ledger \<Rightarrow> ledger \<Rightarrow> bool" where
  transaction_saved: "transactions_save now draft l = (r, l') \<Longrightarrow> \<forall>j. plausible (now j) \<Longrightarrow> app_step l l'"
| transaction_removed: "transactions_remove now i l = (r1, l') \<Longrightarrow> \<forall>j. plausible (now j) \<Longrightarrow> app_step l l'"
| bill_paid: "pay now pay_args l = (r, l') \<Longrightarrow> \<forall>j. plausible (now j) \<Longrightarrow> app_step l l'"
| account_saved: "accounts_save now acc_draft l = (r, l') \<Longrightarrow> \<forall>j. plausible (now j) \<Longrightarrow> app_step l l'"
| account_counted: "setCountedInTotals now flag l = (r1, l') \<Longrightarrow> \<forall>j. plausible (now j) \<Longrightarrow> app_step l l'"
| account_archived: "accounts_setArchived now flag l = (r1, l') \<Longrightarrow> \<forall>j. plausible (now j) \<Longrightarrow> app_step l l'"
| account_removed: "accounts_remove now i l = (r1, l') \<Longrightarrow> \<forall>j. plausible (now j) \<Longrightarrow> app_step l l'"
| account_moved: "moveAccount now target l = (r1, l') \<Longrightarrow> \<forall>j. plausible (now j) \<Longrightarrow> app_step l l'"
| group_saved: "groups_save now grp_draft l = (r, l') \<Longrightarrow> \<forall>j. plausible (now j) \<Longrightarrow> app_step l l'"
| group_archived: "groups_setArchived now flag l = (r1, l') \<Longrightarrow> \<forall>j. plausible (now j) \<Longrightarrow> app_step l l'"
| group_removed: "groups_remove now grp_args l = (r1, l') \<Longrightarrow> \<forall>j. plausible (now j) \<Longrightarrow> app_step l l'"
| groups_reordered: "reorder now order_args l = (r1, l') \<Longrightarrow> \<forall>j. plausible (now j) \<Longrightarrow> app_step l l'"
| groups_seeded: "groups_seedIfEmpty now uuid l = (r1, l') \<Longrightarrow> \<forall>j. plausible (now j) \<Longrightarrow> app_step l l'"
| category_saved: "categories_save now cat_draft l = (r, l') \<Longrightarrow> \<forall>j. plausible (now j) \<Longrightarrow> app_step l l'"
| category_removed: "categories_remove now cat_args l = (r1, l') \<Longrightarrow> \<forall>j. plausible (now j) \<Longrightarrow> app_step l l'"
| subcategories_set: "setSubcategoriesEnabled now enabled l = (r1, l') \<Longrightarrow> \<forall>j. plausible (now j) \<Longrightarrow> app_step l l'"
| categories_seeded: "categories_seedIfEmpty now uuid l = (r1, l') \<Longrightarrow> \<forall>j. plausible (now j) \<Longrightarrow> app_step l l'"
| budget_saved: "budgets_save now bud_draft l = (r, l') \<Longrightarrow> \<forall>j. plausible (now j) \<Longrightarrow> app_step l l'"
| budget_archived: "budgets_setArchived now flag l = (r1, l') \<Longrightarrow> \<forall>j. plausible (now j) \<Longrightarrow> app_step l l'"
| budget_removed: "budgets_remove now i l = (r1, l') \<Longrightarrow> \<forall>j. plausible (now j) \<Longrightarrow> app_step l l'"
| budget_pruned: "pruneStaleCategories now i l = (r2, l') \<Longrightarrow> \<forall>j. plausible (now j) \<Longrightarrow> app_step l l'"
| rule_saved: "rules_save now rule_draft l = (r, l') \<Longrightarrow> \<forall>j. plausible (now j) \<Longrightarrow> app_step l l'"
| rule_archived: "rules_setArchived now flag l = (r1, l') \<Longrightarrow> \<forall>j. plausible (now j) \<Longrightarrow> app_step l l'"
| rule_removed: "rules_remove now i l = (r1, l') \<Longrightarrow> \<forall>j. plausible (now j) \<Longrightarrow> app_step l l'"
| occurrence_skipped: "skip_occurrence now skip_args l = (r1, l') \<Longrightarrow> \<forall>j. plausible (now j) \<Longrightarrow> app_step l l'"
| rules_run: "run now asOf limit l = (r3, l') \<Longrightarrow> \<forall>j. plausible (now j) \<Longrightarrow>
    \<forall>rule \<in> set (rule_rows (led_db l)). \<not> RecurringRule.rule_archived rule \<longrightarrow> (\<exists>N. horizon rule asOf N) \<Longrightarrow> app_step l l'"
| currency_set: "setReportingCurrency now currency l = (r1, l') \<Longrightarrow> \<forall>j. plausible (now j) \<Longrightarrow> app_step l l'"
| rate_saved: "rates_save now rate_draft l = (r, l') \<Longrightarrow> \<forall>j. plausible (now j) \<Longrightarrow> app_step l l'"
| rate_removed: "rates_remove now i l = (r1, l') \<Longrightarrow> \<forall>j. plausible (now j) \<Longrightarrow> app_step l l'"
| file_imported: "apply_import now uuid (planImport rs mapping options) accountId currency incl l = (r4, l') \<Longrightarrow>
    \<forall>j. plausible (now j) \<Longrightarrow> accountId \<noteq> [] \<Longrightarrow> inj uuid \<Longrightarrow>
    \<forall>p \<in> set (ip_rows (planImport rs mapping options)). \<forall>t. pr_transaction p = Some t \<longrightarrow> isFinite (pt_amount t) \<Longrightarrow> app_step l l'"
| backup_restored: "restore_backup now p l = (r5, l') \<Longrightarrow> \<forall>j. plausible (now j) \<Longrightarrow>
    \<forall>e v. BackupRow v \<in> set (section_rows p e) \<longrightarrow> entity_of v = e \<and> entity_valid v \<Longrightarrow> app_step l l'"

lemmas service_writes =
  save_transaction.only_writes_any remove_transaction.only_writes_any pay_bill.only_writes_any save_account.only_writes_any count_account.only_writes_any
  archive_account.only_writes_any remove_account.only_writes_any move_account.only_writes_any save_group.only_writes_any archive_group.only_writes_any
  remove_group.only_writes_any reorder_groups.only_writes_any seed_vault_groups.only_writes_any save_category.only_writes_any remove_category.only_writes_any
  set_subcategories.only_writes_any seed_categories.only_writes_any save_budget.only_writes_any archive_budget.only_writes_any remove_budget.only_writes_any
  prune_budget.only_writes_any save_rule.only_writes_any archive_rule.only_writes_any remove_rule.only_writes_any skip_rule.only_writes_any
  set_currency.only_writes_any save_rate.only_writes_any remove_rate.only_writes_any

lemma app_step_writes:
  assumes "app_step l l'" and "ledger_ok W dev l" and "rows_valid l"
  shows "writes UNIV l l'"
  using assms(1)
proof (cases rule: app_step.cases)
  case (rules_run now asOf limit r3)
  then show ?thesis using run_writes [OF _ assms(2,3)] writes_mono by blast
next
  case (file_imported now uuid rs mapping options accountId currency incl r4)
  have good: "\<forall>p \<in> set (ip_rows (planImport rs mapping options)). \<forall>t. pr_transaction p = Some t \<longrightarrow> importable t"
    using file_imported(5) plan_importable by blast
  show ?thesis
    using import_loop_effect [OF file_imported(1) [unfolded apply_import_def Let_def] file_imported(2-4) good assms(2)] writes_mono by blast
next
  case (backup_restored now p r5)
  then show ?thesis using restore_writes by blast
qed (rule service_writes [OF _ assms(2,3)], assumption, assumption)+

lemma app_step_keeps: "app_step l l' \<Longrightarrow> ledger_ok W dev l \<Longrightarrow> rows_valid l \<Longrightarrow> (\<exists>W'. W \<subseteq> W' \<and> ledger_ok W' dev l') \<and> rows_valid l'"
  using writes_keeps [OF app_step_writes] by (auto simp: keeps_def)



end
