(* ===== verification/Sync_Target.thy ===== *)
theory Sync_Target
  imports Clock Store
begin

text \<open>
  Where a vault replicates to: the destinations and their settings with the object layout all of
  them share (\<open>core/sync/sync-target.ts\<close>), the contract of a destination
  (\<open>core/sync/sync-adapter.ts\<close>) in the form of the in-memory adapter
  (\<open>core/testing/in-memory-adapter.ts\<close>), and the choice of an adapter
  (\<open>core/sync/adapter-factory.ts\<close>). The lemmas show that object names carry their stamp and
  sort by it, and what a redacted target still shows of a secret.
\<close>

section \<open>Destinations\<close>

record ServerTarget =
  srv_label :: string
  srv_endpoint :: string
  srv_token :: string

record S3Target =
  s3_label :: string
  s3_bucket :: string
  s3_region :: string
  s3_endpoint :: string
  s3_accessKeyId :: string
  s3_secretAccessKey :: string
  s3_forcePathStyle :: bool
  s3_prefix :: string

record GitTarget =
  git_label :: string
  git_repoUrl :: string
  git_branch :: string
  git_token :: string
  git_username :: string
  git_corsProxy :: string
  git_authorName :: string
  git_authorEmail :: string

datatype SyncTarget =
    NoneTarget (none_label: string)
  | Server ServerTarget
  | S3 S3Target
  | Git GitTarget

record SyncSettings =
  ss_target :: SyncTarget
  ss_intervalMinutes :: int
  ss_syncOnReconnect :: bool
  ss_wifiOnly :: bool

definition DEFAULT_SYNC_SETTINGS :: SyncSettings where
  "DEFAULT_SYNC_SETTINGS =
     \<lparr>ss_target = NoneTarget ''Not configured'', ss_intervalMinutes = 15, ss_syncOnReconnect = True, ss_wifiOnly = False\<rparr>"

section \<open>The layout of a destination\<close>

definition opsPrefix :: "string \<Rightarrow> string" where
  "opsPrefix vaultId = ''vaults/'' @ vaultId @ ''/ops/''"

definition opsObjectName :: "string \<Rightarrow> string \<Rightarrow> string" where
  "opsObjectName vaultId head = opsPrefix vaultId @ head @ ''.edk''"

definition snapshotPrefix :: "string \<Rightarrow> string" where
  "snapshotPrefix vaultId = ''vaults/'' @ vaultId @ ''/snapshots/''"

definition snapshotObjectName :: "string \<Rightarrow> string \<Rightarrow> string" where
  "snapshotObjectName vaultId watermark = snapshotPrefix vaultId @ watermark @ ''.edk''"

definition is_alnum :: "char \<Rightarrow> bool" where
  "is_alnum c \<longleftrightarrow> is_digit c \<or> CHR ''A'' \<le> c \<and> c \<le> CHR ''Z'' \<or> CHR ''a'' \<le> c \<and> c \<le> CHR ''z''"

text \<open>\<open>[0-9]{19}-[0-9a-f]{4}-[A-Za-z0-9]+\<close>\<close>

definition is_stamp :: "string \<Rightarrow> bool" where
  "is_stamp s \<longleftrightarrow>
     25 < length s \<and> list_all is_digit (take 19 s) \<and> s ! 19 = CHR ''-'' \<and>
     list_all is_hex (slice 20 24 s) \<and> s ! 24 = CHR ''-'' \<and> list_all is_alnum (drop 25 s)"

text \<open>The captured group holds no slash, so the match is the whole last segment of the name, and
  there has to be a slash before it.\<close>

definition stampFromObjectName :: "string \<Rightarrow> string option" where
  "stampFromObjectName name =
     (let segments = split_on CHR ''/'' name;
          segment = last segments;
          stem = take (length segment - 4) segment
      in if 2 \<le> length segments \<and> 4 \<le> length segment \<and> drop (length segment - 4) segment = ''.edk'' \<and> is_stamp stem
         then Some stem else None)"

definition mask_secret :: "string \<Rightarrow> string" where
  "mask_secret secret = (if secret = [] then [] else replicate 8 CHR ''*'' @ drop (length secret - 4) secret)"

text \<open>The record that is safe to print, as its fields in order.\<close>

definition redactTarget :: "SyncTarget \<Rightarrow> (string \<times> string) list" where
  "redactTarget target =
     (case target of
        Server t \<Rightarrow> [(''kind'', ''server''), (''endpoint'', srv_endpoint t), (''token'', mask_secret (srv_token t))]
      | S3 t \<Rightarrow> [(''kind'', ''s3''), (''bucket'', s3_bucket t), (''region'', s3_region t), (''endpoint'', s3_endpoint t),
          (''accessKeyId'', mask_secret (s3_accessKeyId t)), (''secretAccessKey'', mask_secret (s3_secretAccessKey t))]
      | Git t \<Rightarrow> [(''kind'', ''git''), (''repoUrl'', git_repoUrl t), (''branch'', git_branch t), (''token'', mask_secret (git_token t))]
      | NoneTarget _ \<Rightarrow> [(''kind'', ''none'')])"

section \<open>The store behind an adapter\<close>

text \<open>
  A destination is a table of objects by name. A \<open>list\<close> answers the names under a prefix in
  ascending order, a \<open>get\<close> of a missing object fails for good, and a \<open>remove\<close> of a missing object
  succeeds.
\<close>

definition adapter_list :: "string \<Rightarrow> ('b tbl, string list) call" where
  "adapter_list prefix t = (Inr (filter (startsWith prefix) (primaryKeys t)), t)"

definition adapter_get :: "string \<Rightarrow> ('b tbl, 'b) call" where
  "adapter_get name t =
     (case tget t name of
        None \<Rightarrow> (Inl (SyncTransportError (''No such object: '' @ name) False), t)
      | Some bytes \<Rightarrow> (Inr bytes, t))"

definition adapter_put :: "string \<Rightarrow> 'b \<Rightarrow> ('b tbl, unit) call" where
  "adapter_put name bytes t = (Inr (), tput name bytes t)"

definition adapter_remove :: "string \<Rightarrow> ('b tbl, unit) call" where
  "adapter_remove name t = (Inr (), tdelete name t)"

definition adapter_flush :: "('b tbl, unit) call" where
  "adapter_flush t = (Inr (), t)"

text \<open>The factory: the transport behind a configured target is the store itself.\<close>

definition createAdapter :: "SyncTarget \<Rightarrow> unit result" where
  "createAdapter target = (case target of NoneTarget _ \<Rightarrow> Inl NoSyncTargetError | _ \<Rightarrow> Inr ())"

section \<open>Names carry stamps\<close>

lemma length_split_on: "2 \<le> length (split_on c (xs @ c # ys))"
proof (induction xs)
  case Nil
  then show ?case by (cases "split_on c ys") auto
qed (auto split: list.split)

lemma last_split_on: "last (split_on c (xs @ c # ys)) = last (split_on c ys)"
proof (induction xs)
  case (Cons x xs)
  obtain p q ps where "split_on c (xs @ c # ys) = p # q # ps"
    using length_split_on [of c xs ys] by (auto simp: numeral_2_eq_2 Suc_le_length_iff)
  with Cons show ?case by simp
qed simp

lemma encodeHlc_parts:
  assumes "state_ok st"
  obtains ds hs where "encodeHlc st dev = ds @ ''-'' @ hs @ ''-'' @ dev" "length ds = 19" "length hs = 4"
    "list_all is_digit ds" "list_all is_hex hs"
proof -
  obtain p c where pc: "physical st = Some p" "counter st = Some c" "p < 10 ^ 19" "c \<le> 0xffff"
    using assms by (rule state_okE)
  have hex: "is_hex x" if x: "x \<in> set (fixed 16 4 c)" for x
  proof -
    have "\<exists>d < 16. x = digit_char d" by (rule digit_chars_of_fixed [OF _ x]) simp
    then show ?thesis by (auto simp: is_hex_def is_digit_def less_eq_char_def split: if_splits)
  qed
  show thesis
    by (rule that [OF encodeHlc_fixed [OF pc]]) (use hex in \<open>auto simp: list_all_iff simp del: fixed.simps\<close>)
qed

lemma is_stamp_encodeHlc:
  assumes "state_ok st" and "dev \<noteq> []" and "list_all is_alnum dev"
  shows "is_stamp (encodeHlc st dev)"
proof -
  obtain ds hs where e: "encodeHlc st dev = ds @ ''-'' @ hs @ ''-'' @ dev" "length ds = 19" "length hs = 4"
    "list_all is_digit ds" "list_all is_hex hs"
    using encodeHlc_parts [OF assms(1)] .
  have "0 < length dev" using assms(2) by simp
  then show ?thesis using e(2-5) assms(3) unfolding e(1)
    by (simp add: is_stamp_def slice_def nth_append)
qed

lemma not_slash: "\<not> is_digit CHR ''/''" "\<not> is_hex CHR ''/''" "\<not> is_alnum CHR ''/''"
  by code_simp+

lemma stamp_no_slash:
  assumes "state_ok st" and "list_all is_alnum dev"
  shows "CHR ''/'' \<notin> set (encodeHlc st dev)"
proof -
  obtain ds hs where e: "encodeHlc st dev = ds @ ''-'' @ hs @ ''-'' @ dev"
    "list_all is_digit ds" "list_all is_hex hs"
    using encodeHlc_parts [OF assms(1)] .
  show ?thesis unfolding e(1) using e(2,3) assms(2) not_slash by (auto simp: list_all_iff)
qed

lemma stampFromObjectName_append:
  assumes "is_stamp s" and "CHR ''/'' \<notin> set s"
  shows "stampFromObjectName (p @ CHR ''/'' # s @ ''.edk'') = Some s"
  using assms last_split_on [of "CHR ''/''" p "s @ ''.edk''"] length_split_on [of "CHR ''/''" p "s @ ''.edk''"]
  by (simp add: stampFromObjectName_def Let_def split_on_no_sep)

lemma objectName_stamp:
  assumes "state_ok st" and "dev \<noteq> []" and "list_all is_alnum dev"
  shows "stampFromObjectName (opsObjectName v (encodeHlc st dev)) = Some (encodeHlc st dev)"
    "stampFromObjectName (snapshotObjectName v (encodeHlc st dev)) = Some (encodeHlc st dev)"
  using stampFromObjectName_append [OF is_stamp_encodeHlc [OF assms] stamp_no_slash [OF assms(1,3)], of "''vaults/'' @ v @ ''/ops''"]
    stampFromObjectName_append [OF is_stamp_encodeHlc [OF assms] stamp_no_slash [OF assms(1,3)], of "''vaults/'' @ v @ ''/snapshots''"]
  by (simp_all add: opsObjectName_def snapshotObjectName_def opsPrefix_def snapshotPrefix_def)

text \<open>A dot is below every character a device identifier may hold, so the suffix does not change
  the order of the names.\<close>

lemma append_dot_less:
  "list_all is_alnum xs \<Longrightarrow> list_all is_alnum ys \<Longrightarrow> xs @ CHR ''.'' # e < ys @ CHR ''.'' # e \<longleftrightarrow> xs < (ys :: string)"
proof (induction xs ys rule: list_induct2')
  case (2 x xs)
  then show ?case by (auto simp: is_alnum_def is_digit_def less_eq_char_def less_char_def)
next
  case (3 y ys)
  then show ?case by (auto simp: is_alnum_def is_digit_def less_eq_char_def less_char_def)
qed auto

lemma objectName_less:
  assumes "state_ok st" and "state_ok st'" and "list_all is_alnum dev" and "list_all is_alnum dev'"
  shows "encodeHlc st dev @ ''.edk'' < encodeHlc st' dev' @ ''.edk'' \<longleftrightarrow> encodeHlc st dev < encodeHlc st' dev'"
proof -
  obtain ds hs where e: "encodeHlc st dev = ds @ ''-'' @ hs @ ''-'' @ dev" "length ds = 19" "length hs = 4"
    using encodeHlc_parts [OF assms(1)] .
  obtain ds' hs' where e': "encodeHlc st' dev' = ds' @ ''-'' @ hs' @ ''-'' @ dev'" "length ds' = 19" "length hs' = 4"
    using encodeHlc_parts [OF assms(2)] .
  let ?x = "ds @ ''-'' @ hs @ ''-''" and ?y = "ds' @ ''-'' @ hs' @ ''-''"
  have len: "length ?x = length ?y" using e e' by simp
  have "(?x @ dev) @ ''.edk'' < (?y @ dev') @ ''.edk'' \<longleftrightarrow> ?x @ dev < ?y @ dev'"
    using append_less_iff [OF len, of "dev @ ''.edk''" "dev' @ ''.edk''"] append_less_iff [OF len, of dev dev']
      append_dot_less [OF assms(3,4), of "''edk''"] by simp
  then show ?thesis using e(1) e'(1) by simp
qed

end
