(* ===== verification/Sync.thy ===== *)
theory Sync
  imports Vault Sync_Target Envelope
begin

text \<open>
  The sync engine (\<open>core/sync/sync.service.ts\<close>): a cycle pulls what the destination holds and this
  device has not applied, pushes what it has not sent, and now and then writes a snapshot and removes
  what the snapshot covers.

  The engine runs against a destination that other devices use at the same time and that fails at
  will. Calls of the adapter are numbered; before the \<open>n\<close>-th the destination is whatever the other
  devices have made of it (\<open>se_others\<close>), and \<open>se_fault\<close> says whether the call fails, with which error,
  and whether it had reached the destination when it did. Sealing and opening are
  \<open>CryptoService.sealJson\<close> and \<open>openJson\<close> under the vault's key, the \<open>n\<close>-th sealing with a nonce of its
  own; they are parameters here and modelled in \<open>Envelope\<close>.
\<close>

section \<open>The world of a cycle\<close>

text \<open>What an opened envelope holds: reading \<open>ops\<close> or \<open>entities\<close> of anything else is a \<open>TypeError\<close>.\<close>

datatype payload = BatchPayload OperationBatch | SnapshotPayload LedgerSnapshot | OtherPayload

record 'b sync_env =
  se_seal :: "nat \<Rightarrow> EnvelopeHeader \<Rightarrow> payload \<Rightarrow> 'b result"
  se_open :: "'b \<Rightarrow> (EnvelopeHeader \<times> payload) result"
  se_vaultId :: string
  se_device :: string
  se_now :: "nat \<Rightarrow> nat"
  se_fault :: "nat \<Rightarrow> (error \<times> bool) option"
  se_others :: "nat \<Rightarrow> 'b tbl \<Rightarrow> 'b tbl"
  se_message :: "error \<Rightarrow> string"

record 'b world =
  w_ledger :: ledger
  w_remote :: "'b tbl"
  w_calls :: nat

abbreviation w_db :: "'b world \<Rightarrow> docket_db" where
  "w_db w \<equiv> led_db (w_ledger w)"

definition on_remote :: "'b sync_env \<Rightarrow> ('b tbl, 'a) call \<Rightarrow> ('b world, 'a) call" where
  "on_remote E f w =
     (let n = w_calls w;
          t = se_others E n (w_remote w);
          w1 = w\<lparr>w_remote := t, w_calls := Suc n\<rparr>
      in case se_fault E n of
           None \<Rightarrow> (case f t of (r, t') \<Rightarrow> (r, w1\<lparr>w_remote := t'\<rparr>))
         | Some (err, reached) \<Rightarrow> (Inl err, if reached then w1\<lparr>w_remote := snd (f t)\<rparr> else w1))"

definition on_ledger :: "(ledger, 'a) call \<Rightarrow> ('b world, 'a) call" where
  "on_ledger f w = (case f (w_ledger w) of (r, l) \<Rightarrow> (r, w\<lparr>w_ledger := l\<rparr>))"

definition on_db :: "(docket_db \<Rightarrow> docket_db) \<Rightarrow> ('b world, unit) call" where
  "on_db f w = (Inr (), w\<lparr>w_ledger := (w_ledger w)\<lparr>led_db := f (w_db w)\<rparr>\<rparr>)"

text \<open>\<open>remoteObjects.bulkPut\<close> and \<open>meta.put\<close>\<close>

definition record_objects :: "nat \<Rightarrow> string list \<Rightarrow> docket_db \<Rightarrow> docket_db" where
  "record_objects appliedAt names d =
     d\<lparr>remoteObjects := fold (\<lambda>name. tput name (int appliedAt)) names (remoteObjects d)\<rparr>"

definition forget_object :: "string \<Rightarrow> docket_db \<Rightarrow> docket_db" where
  "forget_object name d = d\<lparr>remoteObjects := tdelete name (remoteObjects d)\<rparr>"

definition set_meta :: "string \<Rightarrow> meta_value \<Rightarrow> docket_db \<Rightarrow> docket_db" where
  "set_meta k v d = d\<lparr>meta := tput k v (meta d)\<rparr>"

text \<open>The wall clock from the current call on.\<close>

definition clock_from :: "'b sync_env \<Rightarrow> 'b world \<Rightarrow> nat \<Rightarrow> nat" where
  "clock_from E w i = se_now E (w_calls w + i)"

definition with_now :: "'b sync_env \<Rightarrow> ((nat \<Rightarrow> nat) \<Rightarrow> ('b world, 'a) call) \<Rightarrow> ('b world, 'a) call" where
  "with_now E f w = f (clock_from E w) w"

section \<open>Constants and status\<close>

definition MAX_OPS_PER_BATCH :: nat where "MAX_OPS_PER_BATCH = 500"
definition LAST_SYNC_KEY :: string where "LAST_SYNC_KEY = ''sync.lastSyncAt''"
definition LAST_SNAPSHOT_KEY :: string where "LAST_SNAPSHOT_KEY = ''sync.lastSnapshot''"
definition SNAPSHOT_AFTER_OPERATIONS :: nat where "SNAPSHOT_AFTER_OPERATIONS = 200"

datatype SyncState = Idle | Syncing | ErrorState

record SyncStatus =
  st_state :: SyncState
  st_lastSyncAt :: "int option"
  st_lastError :: "string option"
  st_retryable :: bool
  st_pending :: nat
  st_pulled :: nat
  st_pushed :: nat

definition INITIAL_STATUS :: SyncStatus where
  "INITIAL_STATUS = \<lparr>st_state = Idle, st_lastSyncAt = None, st_lastError = None, st_retryable = False,
     st_pending = 0, st_pulled = 0, st_pushed = 0\<rparr>"

definition coveredBy :: "string \<Rightarrow> string \<Rightarrow> bool" where
  "coveredBy name watermark \<longleftrightarrow> (case stampFromObjectName name of None \<Rightarrow> False | Some stamp \<Rightarrow> stamp \<le> watermark)"

definition countPending :: "docket_db \<Rightarrow> nat" where
  "countPending d = length (filter (\<lambda>lop. \<not> synced lop) (toArray (oplog d)))"

definition sync_initialise :: "docket_db \<Rightarrow> SyncStatus \<Rightarrow> SyncStatus" where
  "sync_initialise d status =
     status\<lparr>st_lastSyncAt := (case tget (meta d) LAST_SYNC_KEY of Some (MetaNumber t) \<Rightarrow> Some t | _ \<Rightarrow> None),
       st_pending := countPending d\<rparr>"

section \<open>Pull\<close>

text \<open>The rows of a snapshot as operations that carry each row's own stamp.\<close>

definition snapshot_ops :: "LedgerSnapshot \<Rightarrow> Operation list" where
  "snapshot_ops v =
     concat (map (\<lambda>name. map (\<lambda>row. \<lparr>hlc = updatedAt row, entity = name, entityId = entity_id row, op_kind = Put,
       op_value = Some row, op_device = snap_device v\<rparr>) (snap_entities v name)) ENTITY_NAMES)"

text \<open>Merging an opened snapshot, and remembering that it was.\<close>

definition use_snapshot :: "'b sync_env \<Rightarrow> string list \<Rightarrow> string \<Rightarrow> LedgerSnapshot \<Rightarrow>
    ('b world, string option \<times> string list) call" where
  "use_snapshot E seen name v =
     andThen (with_now E (\<lambda>now. on_ledger (observeStamps now [snap_watermark v]))) (\<lambda>_.
     andThen (on_ledger (merge (snapshot_ops v))) (\<lambda>_.
     andThen (with_now E (\<lambda>now. on_db (record_objects (now 0) [name]))) (\<lambda>_.
     andThen (on_db (set_meta LAST_SNAPSHOT_KEY (MetaString (snap_watermark v)))) (\<lambda>_.
     return (Some (snap_watermark v), name # seen)))))"

text \<open>What opening the downloaded object gives decides what happens next.\<close>

definition open_snapshot :: "'b sync_env \<Rightarrow> string list \<Rightarrow> string \<Rightarrow> 'b \<Rightarrow>
    ('b world, string option \<times> string list) call" where
  "open_snapshot E seen name bytes =
     (case se_open E bytes of
        Inl err \<Rightarrow> throw err
      | Inr (header, value) \<Rightarrow>
          if hd_v header \<noteq> se_vaultId E then return (None, seen)
          else case value of SnapshotPayload v \<Rightarrow> use_snapshot E seen name v | _ \<Rightarrow> throw TypeError)"

text \<open>The snapshot that was applied, if one was, and the objects now known.\<close>

definition applySnapshot :: "'b sync_env \<Rightarrow> string list \<Rightarrow> ('b world, string option \<times> string list) call" where
  "applySnapshot E seen =
     andThen (on_remote E (adapter_list (snapshotPrefix (se_vaultId E)))) (\<lambda>snapshots.
       if snapshots = [] \<or> last snapshots \<in> set seen then return (None, seen)
       else andThen (on_remote E (adapter_get (last snapshots))) (open_snapshot E seen (last snapshots)))"

text \<open>The operations of the downloaded batches, the objects they came in and the batches' newest stamps.\<close>

fun download :: "'b sync_env \<Rightarrow> string list \<Rightarrow> Operation list \<times> string list \<times> string list \<Rightarrow>
    ('b world, Operation list \<times> string list \<times> string list) call" where
  "download E [] acc w = (Inr acc, w)"
| "download E (name # names) (ops, applied, heads) w =
     (case on_remote E (adapter_get name) w of
        (Inl err, w') \<Rightarrow> (Inl err, w')
      | (Inr bytes, w') \<Rightarrow>
          (case se_open E bytes of
             Inl err \<Rightarrow> (Inl err, w')
           | Inr (header, value) \<Rightarrow>
               if hd_v header \<noteq> se_vaultId E then download E names (ops, applied, heads) w'
               else if hd_d header = se_device E then download E names (ops, applied @ [name], heads) w'
               else case value of
                 BatchPayload batch \<Rightarrow> download E names (ops @ batch_ops batch, applied @ [name], heads @ [hd_h header]) w'
               | _ \<Rightarrow> (Inl TypeError, w')))"

definition is_covered :: "string option \<Rightarrow> string \<Rightarrow> bool" where
  "is_covered watermark name \<longleftrightarrow> (case watermark of None \<Rightarrow> False | Some wm \<Rightarrow> coveredBy name wm)"

text \<open>The clock first, so that a local edit after the sync sorts above what was learned.\<close>

definition apply_batches :: "'b sync_env \<Rightarrow> Operation list \<times> string list \<times> string list \<Rightarrow> ('b world, nat) call" where
  "apply_batches E = (\<lambda>(ops, applied, heads).
     andThen (with_now E (\<lambda>now. on_ledger (observeStamps now heads))) (\<lambda>_.
     andThen (on_ledger (merge ops)) (\<lambda>applied_count.
     andThen (with_now E (\<lambda>now. on_db (record_objects (now 0) applied))) (\<lambda>_.
     return applied_count))))"

definition pull_objects :: "'b sync_env \<Rightarrow> string option \<times> string list \<Rightarrow> ('b world, nat) call" where
  "pull_objects E = (\<lambda>(watermark, seen).
     andThen (on_remote E (adapter_list (opsPrefix (se_vaultId E)))) (\<lambda>remote.
       let unseen = filter (\<lambda>name. name \<notin> set seen) remote;
           covered = filter (is_covered watermark) unseen;
           fresh = filter (\<lambda>name. \<not> is_covered watermark name) unseen
       in andThen (with_now E (\<lambda>now. on_db (record_objects (now 0) covered))) (\<lambda>_.
          if fresh = [] then return 0
          else andThen (download E fresh ([], [], [])) (apply_batches E))))"

definition pull :: "'b sync_env \<Rightarrow> ('b world, nat) call" where
  "pull E w = andThen (applySnapshot E (primaryKeys (remoteObjects (w_db w)))) (pull_objects E) w"

section \<open>Push\<close>

text \<open>Sealing numbers its nonces by the calls made so far.\<close>

definition seal_now :: "'b sync_env \<Rightarrow> EnvelopeHeader \<Rightarrow> payload \<Rightarrow> ('b world, 'b) call" where
  "seal_now E header value w = (se_seal E (w_calls w) header value, w)"

definition push_slice :: "'b sync_env \<Rightarrow> LocalOperation list \<Rightarrow> ('b world, unit) call" where
  "push_slice E part =
     (let ops = map remote_op part;
          head = hlc (last part);
          header = \<lparr>hd_v = se_vaultId E, hd_d = se_device E, hd_h = head, hd_t = ''ops''\<rparr>;
          batch = \<lparr>batch_vaultId = se_vaultId E, batch_device = se_device E, batch_head = head, batch_ops = ops\<rparr>;
          name = opsObjectName (se_vaultId E) head
      in andThen (seal_now E header (BatchPayload batch)) (\<lambda>sealed.
         andThen (on_remote E (adapter_put name sealed)) (\<lambda>_.
         andThen (with_now E (\<lambda>now. on_db (record_objects (now 0) [name]))) (\<lambda>_.
         on_db (markSynced (map hlc part))))))"

function push_loop :: "'b sync_env \<Rightarrow> LocalOperation list \<Rightarrow> nat \<Rightarrow> ('b world, nat) call" where
  "push_loop E pending pushed w =
     (if pending = [] then (Inr pushed, w)
      else case push_slice E (take MAX_OPS_PER_BATCH pending) w of
             (Inl err, w') \<Rightarrow> (Inl err, w')
           | (Inr _, w') \<Rightarrow>
               push_loop E (drop MAX_OPS_PER_BATCH pending) (pushed + length (take MAX_OPS_PER_BATCH pending)) w')"
  by pat_completeness auto
termination
  by (relation "measure (\<lambda>(E, pending, pushed, w). length pending)") (auto simp: MAX_OPS_PER_BATCH_def)

declare push_loop.simps [simp del]

definition push :: "'b sync_env \<Rightarrow> ('b world, nat) call" where
  "push E w = push_loop E (pendingOperations PENDING_LIMIT (w_db w)) 0 w"

section \<open>Snapshots\<close>

definition last_snapshot :: "docket_db \<Rightarrow> string" where
  "last_snapshot d = (case tget (meta d) LAST_SNAPSHOT_KEY of Some (MetaString s) \<Rightarrow> s | _ \<Rightarrow> [])"

text \<open>Both listings are requested before either is looked at; every failure is swallowed.\<close>

definition prune :: "'b sync_env \<Rightarrow> string \<Rightarrow> ('b world, unit) call" where
  "prune E watermark w =
     (case on_remote E (adapter_list (opsPrefix (se_vaultId E))) w of
        (r, w1) \<Rightarrow>
          (case on_remote E (adapter_list (snapshotPrefix (se_vaultId E))) w1 of
             (r', w2) \<Rightarrow>
               (case (r, r') of
                  (Inr ops, Inr snapshots) \<Rightarrow>
                    let superseded = filter (\<lambda>name. coveredBy name watermark) ops @
                          filter (\<lambda>name. case stampFromObjectName name of None \<Rightarrow> False | Some s \<Rightarrow> s < watermark) snapshots
                    in (Inr (), snd (forEach (\<lambda>name. andThen (on_remote E (adapter_remove name))
                                       (\<lambda>_. on_db (forget_object name))) superseded w2))
                | _ \<Rightarrow> (Inr (), w2))))"

definition take_snapshot :: "'b sync_env \<Rightarrow> docket_db \<Rightarrow> string \<Rightarrow> LedgerSnapshot" where
  "take_snapshot E d watermark =
     \<lparr>snap_vaultId = se_vaultId E, snap_device = se_device E, snap_watermark = watermark,
      snap_entities = (\<lambda>name. toArray (tables d name)), snap_operationCount = length (oplog d)\<rparr>"

definition maybeSnapshot :: "'b sync_env \<Rightarrow> ('b world, unit) call" where
  "maybeSnapshot E w =
     (let d = w_db w;
          since = length (filter (\<lambda>lop. hlc lop > last_snapshot d) (toArray (oplog d)))
      in if since < SNAPSHOT_AFTER_OPERATIONS then (Inr (), w)
         else
           let operations = toArray (oplog d)
           in if operations = [] \<or> hlc (last operations) = [] then (Inr (), w)
              else
                let watermark = hlc (last operations);
                    header = \<lparr>hd_v = se_vaultId E, hd_d = se_device E, hd_h = watermark, hd_t = ''snapshot''\<rparr>;
                    name = snapshotObjectName (se_vaultId E) watermark
                in andThen (seal_now E header (SnapshotPayload (take_snapshot E d watermark))) (\<lambda>sealed.
                   andThen (on_remote E (adapter_put name sealed)) (\<lambda>_.
                   andThen (with_now E (\<lambda>now. on_db (record_objects (now 0) [name]))) (\<lambda>_.
                   andThen (on_db (set_meta LAST_SNAPSHOT_KEY (MetaString watermark))) (\<lambda>_.
                   prune E watermark)))) w)"

section \<open>The cycle\<close>

definition error_message :: "'b sync_env \<Rightarrow> error \<Rightarrow> string" where
  "error_message E err =
     (case err of
        Error m \<Rightarrow> m
      | DecryptionError m \<Rightarrow> m
      | EnvelopeFormatError m \<Rightarrow> m
      | BackupFormatError m \<Rightarrow> m
      | SyncTransportError m _ \<Rightarrow> m
      | VaultLockedError \<Rightarrow> ''The vault is locked''
      | NoSyncTargetError \<Rightarrow> ''No sync destination is configured''
      | _ \<Rightarrow> se_message E err)"

definition is_retryable :: "error \<Rightarrow> bool" where
  "is_retryable err = (case err of SyncTransportError _ retryable \<Rightarrow> retryable | _ \<Rightarrow> False)"

text \<open>What the \<open>try\<close> block does: the numbers pulled and pushed, and the time it finished.\<close>

definition cycle :: "'b sync_env \<Rightarrow> SyncTarget option \<Rightarrow> ('b world, nat \<times> nat \<times> nat) call" where
  "cycle E target w =
     (case (case target of None \<Rightarrow> Inr () | Some t \<Rightarrow> createAdapter t) of
        Inl err \<Rightarrow> (Inl err, w)
      | Inr _ \<Rightarrow>
          andThen (pull E) (\<lambda>pulled.
          andThen (push E) (\<lambda>pushed.
          andThen (maybeSnapshot E) (\<lambda>_.
          andThen (on_remote E adapter_flush) (\<lambda>_.
          with_now E (\<lambda>now. andThen (on_db (set_meta LAST_SYNC_KEY (MetaNumber (int (now 0))))) (\<lambda>_.
            return (pulled, pushed, now 0))))))) w)"

text \<open>\<open>target\<close> is \<open>None\<close> when the caller passes an adapter of its own.\<close>

definition runCycle :: "'b sync_env \<Rightarrow> bool \<Rightarrow> SyncTarget option \<Rightarrow> SyncStatus \<Rightarrow> 'b world \<Rightarrow> SyncStatus \<times> 'b world" where
  "runCycle E unlocked target status w =
     (if \<not> unlocked then (status\<lparr>st_state := Idle, st_lastError := None\<rparr>, w)
      else
        let status = status\<lparr>st_state := Syncing, st_lastError := None, st_pulled := 0, st_pushed := 0\<rparr>
        in case cycle E target w of
             (Inr (pulled, pushed, now), w') \<Rightarrow>
               (status\<lparr>st_state := Idle, st_lastSyncAt := Some (int now), st_lastError := None, st_retryable := False,
                  st_pulled := pulled, st_pushed := pushed, st_pending := countPending (w_db w')\<rparr>, w')
           | (Inl err, w') \<Rightarrow>
               if err = NoSyncTargetError then (status\<lparr>st_state := Idle, st_lastError := None\<rparr>, w')
               else (status\<lparr>st_state := ErrorState, st_lastError := Some (error_message E err),
                       st_retryable := is_retryable err, st_pending := countPending (w_db w')\<rparr>, w'))"

end
