(* ===== verification/Sync_Safety.thy ===== *)
theory Sync_Safety
  imports Sync
begin

text \<open>
  What a sync cycle keeps, whatever the destination does. The invariant \<open>sync_ok\<close> relates a device to
  the destination it shares with the rest of its vault: the ledger's own invariant, what the objects
  there may contain, that everything marked as sent is there, that nothing recorded as applied is
  missing here, and what is left of an upload that failed half-way. It holds for every schedule of
  faults and every interleaving with other devices that respects the same layout, as long as no
  snapshot is written. A small Hoare logic carries it through the calls of a cycle.
\<close>

section \<open>Triples\<close>

text \<open>\<open>triple I P m Q\<close>: from a state with \<open>I\<close> and \<open>P\<close>, the call keeps \<open>I\<close> on both paths and ends in \<open>Q\<close>
  when it does not throw.\<close>

definition triple :: "('s \<Rightarrow> bool) \<Rightarrow> ('s \<Rightarrow> bool) \<Rightarrow> ('s, 'a) call \<Rightarrow> ('a \<Rightarrow> 's \<Rightarrow> bool) \<Rightarrow> bool" where
  "triple I P m Q \<longleftrightarrow> (\<forall>s r s'. I s \<and> P s \<and> m s = (r, s') \<longrightarrow> I s' \<and> (\<forall>x. r = Inr x \<longrightarrow> Q x s'))"

lemma tripleI: "(\<And>s r s'. I s \<Longrightarrow> P s \<Longrightarrow> m s = (r, s') \<Longrightarrow> I s' \<and> (\<forall>x. r = Inr x \<longrightarrow> Q x s')) \<Longrightarrow> triple I P m Q"
  unfolding triple_def by blast

lemma tripleD: "triple I P m Q \<Longrightarrow> I s \<Longrightarrow> P s \<Longrightarrow> m s = (r, s') \<Longrightarrow> I s' \<and> (\<forall>x. r = Inr x \<longrightarrow> Q x s')"
  by (auto simp: triple_def)

lemma triple_andThen:
  assumes "triple I P m Q" and "\<And>x. triple I (Q x) (k x) R"
  shows "triple I P (andThen m k) R"
proof (rule tripleI)
  fix s r s'
  assume s: "I s" "P s" and r: "andThen m k s = (r, s')"
  obtain q t where q: "m s = (q, t)" by fastforce
  from tripleD [OF assms(1) s q] have t: "I t" "\<forall>x. q = Inr x \<longrightarrow> Q x t" by auto
  show "I s' \<and> (\<forall>x. r = Inr x \<longrightarrow> R x s')"
  proof (cases q)
    case (Inl e)
    then show ?thesis using r q t by (auto simp: andThen_def)
  next
    case (Inr x)
    with t r q tripleD [OF assms(2) [of x], of t] show ?thesis by (simp add: andThen_def)
  qed
qed

lemma triple_return [intro]: "(\<And>s. I s \<Longrightarrow> P s \<Longrightarrow> Q x s) \<Longrightarrow> triple I P (return x) Q"
  by (auto simp: triple_def return_def)

lemma triple_throw [intro]: "triple I P (throw e) Q"
  by (auto simp: triple_def throw_def)

lemma triple_with_now:
  assumes "\<And>now. (\<And>j. plausible (now j)) \<Longrightarrow> triple I P (f now) Q" and "\<And>j. plausible (se_now E j)"
  shows "triple I P (with_now E f) Q"
proof (rule tripleI)
  fix s r s'
  assume s: "I s" "P s" "with_now E f s = (r, s')"
  have "triple I P (f (clock_from E s)) Q" using assms(2) by (intro assms(1)) (simp add: clock_from_def)
  from tripleD [OF this s(1,2)] s(3) show "I s' \<and> (\<forall>x. r = Inr x \<longrightarrow> Q x s')" by (simp add: with_now_def)
qed

lemma triple_weaken:
  assumes "triple I P m Q" and "\<And>s. I s \<Longrightarrow> P' s \<Longrightarrow> P s" and "\<And>x s. I s \<Longrightarrow> Q x s \<Longrightarrow> Q' x s"
  shows "triple I P' m Q'"
  using tripleD [OF assms(1)] assms(2,3) by (intro tripleI) blast

lemma triple_pure:
  assumes "\<And>s. I s \<Longrightarrow> P s \<Longrightarrow> A" and "A \<Longrightarrow> triple I P m Q"
  shows "triple I P m Q"
  using assms unfolding triple_def by blast

section \<open>What the destination holds\<close>

definition batch_ok :: "Operation set \<Rightarrow> string \<Rightarrow> string \<Rightarrow> string \<Rightarrow> string \<Rightarrow> Operation set \<Rightarrow> bool" where
  "batch_ok W V name author head ops \<longleftrightarrow>
     name = opsObjectName V head \<and> ops \<subseteq> W \<and> (\<forall>op \<in> ops. op_device op = author \<and> hlc op \<le> head) \<and> head \<in> hlc ` ops"

text \<open>In the vault's place the destination holds batches of the vault's history under the stamps of
  their newest operations, and no snapshot.\<close>

definition remote_ok :: "'b sync_env \<Rightarrow> Operation set \<Rightarrow> 'b tbl \<Rightarrow> bool" where
  "remote_ok E W t \<longleftrightarrow>
     table_ok t \<and>
     (\<forall>name b. tget t name = Some b \<longrightarrow>
        \<not> startsWith (snapshotPrefix (se_vaultId E)) name \<and>
        (startsWith (opsPrefix (se_vaultId E)) name \<longrightarrow>
           (\<exists>h batch. se_open E b = Inr (h, BatchPayload batch) \<and> hd_v h = se_vaultId E \<and>
              batch_ok W (se_vaultId E) name (hd_d h) (hd_h h) (set (batch_ops batch)))))"

text \<open>What a batch of this vault says: its author, its newest stamp and its operations.\<close>

definition object_at :: "'b sync_env \<Rightarrow> 'b tbl \<Rightarrow> string \<Rightarrow> string \<Rightarrow> string \<Rightarrow> Operation set \<Rightarrow> bool" where
  "object_at E t name author head ops \<longleftrightarrow>
     startsWith (opsPrefix (se_vaultId E)) name \<and>
     (\<exists>b h batch. tget t name = Some b \<and> se_open E b = Inr (h, BatchPayload batch) \<and> hd_v h = se_vaultId E \<and>
        author = hd_d h \<and> head = hd_h h \<and> ops = set (batch_ops batch))"

definition held :: "'b sync_env \<Rightarrow> 'b tbl \<Rightarrow> Operation set" where
  "held E t = {op. \<exists>name author head ops. object_at E t name author head ops \<and> op \<in> ops}"

lemma object_at_ok: "remote_ok E W t \<Longrightarrow> object_at E t name a s ops \<Longrightarrow> batch_ok W (se_vaultId E) name a s ops"
  unfolding remote_ok_def object_at_def by fastforce

lemma object_at_unique: "object_at E t name a s ops \<Longrightarrow> object_at E t name a' s' ops' \<Longrightarrow> a' = a \<and> s' = s \<and> ops' = ops"
  by (auto simp: object_at_def)

lemma held_subset: "remote_ok E W t \<Longrightarrow> held E t \<subseteq> W"
  using object_at_ok by (fastforce simp: held_def batch_ok_def)

lemma object_at_exists:
  "remote_ok E W t \<Longrightarrow> tget t name \<noteq> None \<Longrightarrow> startsWith (opsPrefix (se_vaultId E)) name \<Longrightarrow> \<exists>a s ops. object_at E t name a s ops"
  unfolding remote_ok_def object_at_def by fastforce

text \<open>No object disappears or changes what it says, though its bytes may be written anew.\<close>

definition keeps_objects :: "'b sync_env \<Rightarrow> 'b tbl \<Rightarrow> 'b tbl \<Rightarrow> bool" where
  "keeps_objects E t t' \<longleftrightarrow>
     (\<forall>name. tget t name \<noteq> None \<longrightarrow>
        tget t' name \<noteq> None \<and> (\<forall>a s ops. object_at E t' name a s ops \<longleftrightarrow> object_at E t name a s ops))"

lemma keeps_objects_refl: "keeps_objects E t t"
  by (simp add: keeps_objects_def)

lemma keeps_objects_trans: "keeps_objects E t t' \<Longrightarrow> keeps_objects E t' t'' \<Longrightarrow> keeps_objects E t t''"
  unfolding keeps_objects_def by blast

lemma object_at_present: "object_at E t name a s ops \<Longrightarrow> tget t name \<noteq> None"
  by (auto simp: object_at_def)

lemma keeps_object: "keeps_objects E t t' \<Longrightarrow> object_at E t name a s ops \<Longrightarrow> object_at E t' name a s ops"
  using object_at_present unfolding keeps_objects_def by blast

lemma keeps_held: "keeps_objects E t t' \<Longrightarrow> held E t \<subseteq> held E t'"
  using keeps_object unfolding held_def by blast

text \<open>What other devices may do: they keep the layout and every object, and write none as this
  device.\<close>

definition none_of_mine :: "'b sync_env \<Rightarrow> 'b tbl \<Rightarrow> 'b tbl \<Rightarrow> bool" where
  "none_of_mine E t t' \<longleftrightarrow> (\<forall>name s ops. object_at E t' name (se_device E) s ops \<longrightarrow> tget t name \<noteq> None)"

definition others_ok :: "'b sync_env \<Rightarrow> Operation set \<Rightarrow> bool" where
  "others_ok E W \<longleftrightarrow>
     (\<forall>n t. remote_ok E W t \<longrightarrow>
        remote_ok E W (se_others E n t) \<and> keeps_objects E t (se_others E n t) \<and> none_of_mine E t (se_others E n t))"

text \<open>No other device is at work.\<close>

definition alone :: "'b sync_env \<Rightarrow> bool" where
  "alone E \<longleftrightarrow> (\<forall>n t. se_others E n t = t)"

lemma alone_others_ok: "alone E \<Longrightarrow> others_ok E W"
  by (auto simp: alone_def others_ok_def keeps_objects_refl none_of_mine_def dest: object_at_present)

section \<open>The log of a device\<close>

definition entries :: "docket_db \<Rightarrow> LocalOperation set" where
  "entries d = snd ` set (oplog d)"

definition unsent :: "docket_db \<Rightarrow> LocalOperation set" where
  "unsent d = {lop \<in> entries d. \<not> synced lop}"

definition dominated :: "docket_db \<Rightarrow> Operation \<Rightarrow> bool" where
  "dominated d op \<longleftrightarrow> (\<exists>op' \<in> logged d. op_key op' = op_key op \<and> hlc op \<le> hlc op')"

lemma logged_entries: "logged d = remote_op ` entries d"
  by (simp add: logged_def entries_def)

lemma dominated_mono: "dominated d op \<Longrightarrow> logged d \<subseteq> logged d' \<Longrightarrow> dominated d' op"
  by (auto simp: dominated_def)

lemma logged_dominated_self: "op \<in> logged d \<Longrightarrow> dominated d op"
  by (auto simp: dominated_def)

lemma entries_tget: "log_ok d \<Longrightarrow> lop \<in> entries d \<longleftrightarrow> tget (oplog d) (hlc lop) = Some lop"
  by (auto simp: entries_def log_ok_def tget_mem) force

lemma entry_unique: "log_ok d \<Longrightarrow> lop \<in> entries d \<Longrightarrow> lop' \<in> entries d \<Longrightarrow> hlc lop = hlc lop' \<Longrightarrow> lop = lop'"
  using entries_tget by (metis option.inject)

lemma remote_op_inj: "log_ok d \<Longrightarrow> inj_on remote_op (entries d)"
  by (rule inj_onI) (metis entry_unique remote_op_simps(1))

section \<open>The invariant\<close>

text \<open>What an upload of this device that was never confirmed says: while its newest operation is
  unsent it holds exactly the unsent operations up to it, and no more than a batch.\<close>

definition retry_ok :: "docket_db \<Rightarrow> string \<Rightarrow> Operation set \<Rightarrow> bool" where
  "retry_ok d head ops \<longleftrightarrow>
     ((\<exists>lop \<in> unsent d. hlc lop = head) \<longrightarrow>
        ops = remote_op ` {lop \<in> unsent d. hlc lop \<le> head} \<and> card ops \<le> MAX_OPS_PER_BATCH)"

definition log_synced :: "'b sync_env \<Rightarrow> Operation set \<Rightarrow> docket_db \<Rightarrow> 'b tbl \<Rightarrow> bool" where
  "log_synced E W d t \<longleftrightarrow>
     (\<forall>op \<in> W. op_device op = se_device E \<longrightarrow> op \<in> logged d) \<and>
     (\<forall>lop \<in> entries d. if synced lop then remote_op lop \<in> held E t else op_device lop = se_device E)"

definition applied_ok :: "'b sync_env \<Rightarrow> docket_db \<Rightarrow> 'b tbl \<Rightarrow> bool" where
  "applied_ok E d t \<longleftrightarrow>
     table_ok (remoteObjects d) \<and>
     (\<forall>name \<in> set (primaryKeys (remoteObjects d)). tget t name \<noteq> None \<and>
        (\<forall>a s ops. object_at E t name a s ops \<longrightarrow> (\<forall>op \<in> ops. dominated d op)))"

definition uploads_ok :: "'b sync_env \<Rightarrow> docket_db \<Rightarrow> 'b tbl \<Rightarrow> bool" where
  "uploads_ok E d t \<longleftrightarrow> (\<forall>name s ops. object_at E t name (se_device E) s ops \<longrightarrow> retry_ok d s ops)"

definition sync_ok :: "'b sync_env \<Rightarrow> Operation set \<Rightarrow> 'b world \<Rightarrow> bool" where
  "sync_ok E W w \<longleftrightarrow>
     ledger_ok W (se_device E) (w_ledger w) \<and> remote_ok E W (w_remote w) \<and> log_synced E W (w_db w) (w_remote w) \<and>
     applied_ok E (w_db w) (w_remote w) \<and> uploads_ok E (w_db w) (w_remote w)"

lemma uploads_ok_cong: "unsent d = unsent d' \<Longrightarrow> uploads_ok E d t \<Longrightarrow> uploads_ok E d' t"
  by (simp only: uploads_ok_def retry_ok_def)

lemma sync_okD:
  assumes "sync_ok E W w"
  shows "ledger_ok W (se_device E) (w_ledger w)" "remote_ok E W (w_remote w)" "log_synced E W (w_db w) (w_remote w)"
    "applied_ok E (w_db w) (w_remote w)" "uploads_ok E (w_db w) (w_remote w)" "db_ok W (w_db w)" "log_ok (w_db w)"
  using assms by (simp_all add: sync_ok_def ledger_ok_def db_ok_def)

text \<open>The invariant together with what a cycle never takes away.\<close>

definition since :: "'b sync_env \<Rightarrow> Operation set \<Rightarrow> 'b world \<Rightarrow> 'b world \<Rightarrow> bool" where
  "since E W w0 w \<longleftrightarrow>
     sync_ok E W w \<and> keeps_objects E (w_remote w0) (w_remote w) \<and> logged (w_db w0) \<subseteq> logged (w_db w) \<and>
     (alone E \<longrightarrow> (\<forall>name a s ops. object_at E (w_remote w) name a s ops \<and> tget (w_remote w0) name = None \<longrightarrow> a = se_device E))"

lemma since_held: "since E W w0 w \<Longrightarrow> held E (w_remote w0) \<subseteq> held E (w_remote w)"
  by (auto simp: since_def dest: keeps_held)

lemma since_start: "sync_ok E W w \<Longrightarrow> since E W w w"
  by (auto simp: since_def keeps_objects_refl dest: object_at_present)

lemma since_trans:
  assumes "since E W w0 w" and "sync_ok E W w'" and "keeps_objects E (w_remote w) (w_remote w')"
    and "logged (w_db w) \<subseteq> logged (w_db w')"
    and "alone E \<Longrightarrow> (\<And>name a s ops. object_at E (w_remote w') name a s ops \<Longrightarrow> tget (w_remote w) name = None \<Longrightarrow> a = se_device E)"
  shows "since E W w0 w'"
proof -
  have "a = se_device E" if "alone E" "object_at E (w_remote w') name a s ops" "tget (w_remote w0) name = None" for name a s ops
  proof (cases "tget (w_remote w) name = None")
    case True
    then show ?thesis using assms(5) that by blast
  next
    case False
    then have "object_at E (w_remote w) name a s ops" using assms(3) that(2) unfolding keeps_objects_def by blast
    then show ?thesis using assms(1) that unfolding since_def by blast
  qed
  then show ?thesis using assms(1-4) keeps_objects_trans unfolding since_def by blast
qed

section \<open>The destination changes\<close>

text \<open>A destination that keeps every object and gains none of this device's.\<close>

lemma sync_ok_remote:
  assumes "sync_ok E W w" and "remote_ok E W t" and "keeps_objects E (w_remote w) t" and "none_of_mine E (w_remote w) t"
  shows "sync_ok E W (w\<lparr>w_remote := t, w_calls := n\<rparr>)"
proof -
  note d = sync_okD [OF assms(1)]
  have "log_synced E W (w_db w) t" using d(3) keeps_held [OF assms(3)] by (auto simp: log_synced_def split: if_splits)
  moreover have "applied_ok E (w_db w) t"
    using d(4) assms(3) unfolding applied_ok_def keeps_objects_def by blast
  moreover have "uploads_ok E (w_db w) t"
    using d(5) assms(3,4) unfolding uploads_ok_def none_of_mine_def keeps_objects_def by blast
  ultimately show "sync_ok E W (w\<lparr>w_remote := t, w_calls := n\<rparr>)" using d(1) assms(2) by (simp add: sync_ok_def)
qed

lemma since_others:
  assumes "since E W w0 w" and "others_ok E W"
  shows "since E W w0 (w\<lparr>w_remote := se_others E k (w_remote w), w_calls := n\<rparr>)"
proof -
  have s: "sync_ok E W w" using assms(1) by (simp add: since_def)
  note o = assms(2) [unfolded others_ok_def, rule_format, OF sync_okD(2) [OF s], of k]
  have "sync_ok E W (w\<lparr>w_remote := se_others E k (w_remote w), w_calls := n\<rparr>)"
    using sync_ok_remote [OF s] o by blast
  from since_trans [OF assms(1) this] o show ?thesis by (auto simp: alone_def dest: object_at_present)
qed

text \<open>A call that only reads.\<close>

lemma triple_read:
  assumes "others_ok E W" and "\<And>t. snd (f t) = t"
    and "\<And>w t x. since E W w0 (w\<lparr>w_remote := t\<rparr>) \<Longrightarrow> P w \<Longrightarrow> fst (f t) = Inr x \<Longrightarrow> keeps_objects E (w_remote w) t \<Longrightarrow>
      Q x (w\<lparr>w_remote := t, w_calls := Suc (w_calls w)\<rparr>)"
  shows "triple (since E W w0) P (on_remote E f) Q"
proof (rule tripleI)
  fix w r w'
  assume w: "since E W w0 w" "P w" and r: "on_remote E f w = (r, w')"
  let ?t = "se_others E (w_calls w) (w_remote w)"
  let ?w = "w\<lparr>w_remote := ?t, w_calls := Suc (w_calls w)\<rparr>"
  have s: "since E W w0 ?w" using since_others [OF w(1) assms(1)] .
  then have s': "since E W w0 (w\<lparr>w_remote := ?t\<rparr>)" by (simp add: since_def sync_ok_def)
  have keep: "keeps_objects E (w_remote w) ?t"
    using w(1) assms(1) unfolding since_def sync_ok_def others_ok_def by blast
  have "w' = ?w \<and> (\<forall>x. r = Inr x \<longrightarrow> fst (f ?t) = Inr x)"
    using r assms(2) [of ?t]
    by (cases "f ?t") (auto simp: on_remote_def Let_def split: option.splits if_splits)
  with s assms(3) [OF s' w(2) _ keep] show "since E W w0 w' \<and> (\<forall>x. r = Inr x \<longrightarrow> Q x w')" by blast
qed

section \<open>The ledger changes\<close>

lemma sync_ok_ledger:
  assumes "sync_ok E W w" and "ledger_ok W (se_device E) l" and "logged (w_db w) \<subseteq> logged (led_db l)"
    and "\<And>lop. lop \<in> entries (led_db l) \<Longrightarrow> lop \<in> entries (w_db w) \<or> synced lop \<and> remote_op lop \<in> held E (w_remote w)"
    and "unsent (led_db l) = unsent (w_db w)" and "remoteObjects (led_db l) = remoteObjects (w_db w)"
  shows "sync_ok E W (w\<lparr>w_ledger := l\<rparr>)"
proof -
  note d = sync_okD [OF assms(1)]
  have "log_synced E W (led_db l) (w_remote w)"
    using d(3) assms(3,4) unfolding log_synced_def by (metis subsetD)
  moreover have "applied_ok E (led_db l) (w_remote w)"
    using d(4) assms(3,6) dominated_mono unfolding applied_ok_def by metis
  moreover have "uploads_ok E (led_db l) (w_remote w)"
    by (rule uploads_ok_cong [OF assms(5) [symmetric] d(5)])
  ultimately show ?thesis using assms(2) d(2) by (simp add: sync_ok_def)
qed

lemma since_ledger:
  assumes "since E W w0 w" and "ledger_ok W (se_device E) l" and "logged (w_db w) \<subseteq> logged (led_db l)"
    and "\<And>lop. lop \<in> entries (led_db l) \<Longrightarrow> lop \<in> entries (w_db w) \<or> synced lop \<and> remote_op lop \<in> held E (w_remote w)"
    and "unsent (led_db l) = unsent (w_db w)" and "remoteObjects (led_db l) = remoteObjects (w_db w)"
  shows "since E W w0 (w\<lparr>w_ledger := l\<rparr>)"
proof -
  have "sync_ok E W (w\<lparr>w_ledger := l\<rparr>)"
    by (rule sync_ok_ledger) (use assms in \<open>auto simp: since_def\<close>)
  from since_trans [OF assms(1) this] assms(3) show ?thesis by (auto simp: keeps_objects_refl dest: object_at_present)
qed

lemma triple_observe:
  assumes "\<And>j. plausible (now j)" and "set heads \<subseteq> hlc ` W"
  shows "triple (since E W w0) (\<lambda>w. R (w_remote w) (w_db w)) (on_ledger (observeStamps now heads))
    (\<lambda>_ w. (\<forall>clk. led_clock (w_ledger w) = Some clk \<longrightarrow> (\<forall>s \<in> set heads. s \<le> reading clk)) \<and> R (w_remote w) (w_db w))"
proof (rule tripleI)
  fix w r w'
  assume w: "since E W w0 w" and p: "R (w_remote w) (w_db w)" and r: "on_ledger (observeStamps now heads) w = (r, w')"
  obtain l where l: "observeStamps now heads (w_ledger w) = (r, l)" "w' = w\<lparr>w_ledger := l\<rparr>"
    using r by (auto simp: on_ledger_def split: prod.splits)
  have drift: "now j + MAX_DRIFT_MS < 10 ^ 19" for j using assms(1) [of j] by (simp add: plausible_def PHYSICAL_WIDTH_def)
  have "ledger_ok W (se_device E) (w_ledger w)" using w by (simp add: since_def sync_ok_def)
  from observeStamps_ok [OF this drift assms(2) refl l(1)]
  show "since E W w0 w' \<and> (\<forall>x. r = Inr x \<longrightarrow> (\<forall>clk. led_clock (w_ledger w') = Some clk \<longrightarrow> (\<forall>s \<in> set heads. s \<le> reading clk)) \<and> R (w_remote w') (w_db w'))"
    unfolding l(2) using since_ledger [OF w, of l] p by simp
qed

lemma entries_put_new:
  assumes "log_ok d" and "tget (oplog d) (hlc lop) = None"
  shows "entries (oplog_put lop d) = insert lop (entries d)"
proof -
  have tab: "table_ok (oplog d)" using assms(1) by (simp add: log_ok_def)
  have "set (tput (hlc lop) lop (oplog d)) = insert (hlc lop, lop) (set (oplog d))"
    using mem_tput [OF tab, of _ _ "hlc lop" lop] tget_mem [OF tab, of "hlc lop"] assms(2) by (auto split: if_splits)
  then show ?thesis by (simp add: entries_def)
qed

lemma entries_cong: "oplog d = oplog d' \<Longrightarrow> entries d = entries d'"
  by (simp add: entries_def)

lemma apply_op_entries:
  assumes "db_ok W d" and "op \<in> W"
  shows "entries (apply_op op d) = entries d \<or> entries (apply_op op d) = insert (local_op True op) (entries d)"
    "remoteObjects (apply_op op d) = remoteObjects d"
proof -
  have new: "tget (oplog d) (hlc op) = None" if sup: "supersedes op d"
  proof (rule ccontr)
    assume "tget (oplog d) (hlc op) \<noteq> None"
    then obtain lop where lop: "tget (oplog d) (hlc op) = Some lop" by blast
    then have mem: "(hlc op, lop) \<in> set (oplog d)" using db_okD(2) [OF assms(1)] by (simp add: log_ok_def tget_mem)
    then have "remote_op lop \<in> logged d" "hlc lop = hlc op"
      using log_ok_mem [OF db_okD(2) [OF assms(1)]] by (force simp: logged_def)+
    then have "op \<in> logged d"
      using inj_onD [OF db_okD(4) [OF assms(1)], of "remote_op lop" op] db_okD(3) [OF assms(1)] assms(2) by auto
    from logged_dominated [OF assms(1) this] obtain op' where "op' \<in> lww.known d" "op_key op' = op_key op" "hlc op \<le> hlc op'"
      by blast
    with sup show False using register_mem [OF assms(1)] by (fastforce simp: lww.known_def supersedes_def)
  qed
  have "entries (oplog_put (local_op True op) (write_row op d)) = insert (local_op True op) (entries d)" if "supersedes op d"
    using entries_put_new [of d "local_op True op"] new [OF that] db_okD(2) [OF assms(1)]
      entries_cong [of "oplog_put (local_op True op) (write_row op d)" "oplog_put (local_op True op) d"] by simp
  then show "entries (apply_op op d) = entries d \<or> entries (apply_op op d) = insert (local_op True op) (entries d)"
    using merge_op_eq [OF assms] by simp
  show "remoteObjects (apply_op op d) = remoteObjects d"
    using merge_op_eq [OF assms] by (simp add: oplog_put_def write_row_def table_put_def table_delete_def split: option.split)
qed

lemma fold_entries:
  assumes "db_ok W d" and "set xs \<subseteq> W"
  shows "entries d \<subseteq> entries (fold apply_op xs d)" "entries (fold apply_op xs d) \<subseteq> entries d \<union> local_op True ` set xs"
    "remoteObjects (fold apply_op xs d) = remoteObjects d"
proof -
  have "entries d \<subseteq> entries (fold apply_op xs d) \<and> entries (fold apply_op xs d) \<subseteq> entries d \<union> local_op True ` set xs \<and>
    remoteObjects (fold apply_op xs d) = remoteObjects d"
    using assms
  proof (induction xs arbitrary: d)
    case (Cons x xs)
    have x: "db_ok W (apply_op x d)" "x \<in> W" using Cons.prems lww.ok_apply by auto
    note e = apply_op_entries [OF Cons.prems(1) x(2)]
    from Cons.IH [OF x(1)] Cons.prems(2)
    have "entries (apply_op x d) \<subseteq> entries (fold apply_op (x # xs) d)"
      "entries (fold apply_op (x # xs) d) \<subseteq> entries (apply_op x d) \<union> local_op True ` set xs"
      "remoteObjects (fold apply_op (x # xs) d) = remoteObjects (apply_op x d)" by simp_all
    with e show ?case by auto
  qed simp
  then show "entries d \<subseteq> entries (fold apply_op xs d)" "entries (fold apply_op xs d) \<subseteq> entries d \<union> local_op True ` set xs"
    "remoteObjects (fold apply_op xs d) = remoteObjects d" by blast+
qed

text \<open>Merging what the destination holds.\<close>

lemma merge_entries:
  assumes "ledger_ok W dev l" and "set ops \<subseteq> W" and "merge ops l = (r, l')"
  shows "entries (led_db l) \<subseteq> entries (led_db l')" "entries (led_db l') \<subseteq> entries (led_db l) \<union> local_op True ` set ops"
    "unsent (led_db l') = unsent (led_db l)" "remoteObjects (led_db l') = remoteObjects (led_db l)"
    "op \<in> set ops \<Longrightarrow> dominated (led_db l') op"
proof -
  from assms(1) obtain clk where clk: "led_clock l = Some clk" "db_ok W (led_db l)" by (rule ledger_okE)
  let ?d = "fold apply_op (sort_key hlc ops) (led_db l)"
  obtain n where m: "merge ops l = (Inr n, if ops = [] then l else l\<lparr>led_db := persistClock clk ?d\<rparr>)"
    using merge_cases [OF clk(1)] .
  have l': "oplog (led_db l') = oplog ?d" "remoteObjects (led_db l') = remoteObjects ?d"
    using m assms(3) by (auto simp: persistClock_def)
  note f = fold_entries [OF clk(2), of "sort_key hlc ops"]
  show e: "entries (led_db l) \<subseteq> entries (led_db l')" "entries (led_db l') \<subseteq> entries (led_db l) \<union> local_op True ` set ops"
    "remoteObjects (led_db l') = remoteObjects (led_db l)"
    using f assms(2) entries_cong [OF l'(1)] l'(2) by simp_all
  have "lop \<in> entries (led_db l)" if "lop \<in> entries (led_db l')" "\<not> synced lop" for lop
    using e(2) that by auto
  then show "unsent (led_db l') = unsent (led_db l)" using e(1) by (auto simp: unsent_def)
  assume op: "op \<in> set ops"
  have ok: "db_ok W ?d" using lww.ok_fold [OF clk(2)] assms(2) by simp
  have "\<not> supersedes op ?d" using fold_not_supersedes [OF clk(2), of "sort_key hlc ops" op] assms(2) op by simp
  then obtain old where old: "register ?d (op_key op) = Some old" "\<not> hlc old < hlc op" by (auto simp: supersedes_def)
  from register_mem [OF ok old(1)] old(2) have "dominated ?d op" by (auto simp: dominated_def)
  then show "dominated (led_db l') op" using l'(1) by (simp add: dominated_def logged_def)
qed

lemma triple_merge:
  assumes "set ops \<subseteq> W"
  shows "triple (since E W w0)
    (\<lambda>w. set ops \<subseteq> held E (w_remote w) \<and> (\<forall>clk. led_clock (w_ledger w) = Some clk \<longrightarrow> (\<forall>op \<in> set ops. hlc op \<le> reading clk)) \<and> R (w_remote w) (remoteObjects (w_db w)))
    (on_ledger (merge ops)) (\<lambda>_ w. (\<forall>op \<in> set ops. dominated (w_db w) op) \<and> R (w_remote w) (remoteObjects (w_db w)))"
proof (rule tripleI)
  fix w r w'
  assume w: "since E W w0 w" and p: "set ops \<subseteq> held E (w_remote w) \<and>
      (\<forall>clk. led_clock (w_ledger w) = Some clk \<longrightarrow> (\<forall>op \<in> set ops. hlc op \<le> reading clk)) \<and> R (w_remote w) (remoteObjects (w_db w))"
    and r: "on_ledger (merge ops) w = (r, w')"
  obtain l where l: "merge ops (w_ledger w) = (r, l)" "w' = w\<lparr>w_ledger := l\<rparr>"
    using r by (auto simp: on_ledger_def split: prod.splits)
  have ok: "ledger_ok W (se_device E) (w_ledger w)" using w by (simp add: since_def sync_ok_def)
  note m = merge_entries [OF ok assms l(1)]
  have "ledger_ok W (se_device E) l" using merge_ok(1) [OF ok assms l(1)] p by blast
  moreover have "logged (w_db w) \<subseteq> logged (led_db l)" using m(1) by (auto simp: logged_entries)
  moreover have "lop \<in> entries (w_db w) \<or> synced lop \<and> remote_op lop \<in> held E (w_remote w)" if "lop \<in> entries (led_db l)" for lop
  proof -
    from m(2) that consider "lop \<in> entries (w_db w)" | op where "op \<in> set ops" "lop = local_op True op" by blast
    then show ?thesis by cases (use p in auto)
  qed
  ultimately have "since E W w0 w'" unfolding l(2) using since_ledger [OF w, of l] m(3,4) by blast
  then show "since E W w0 w' \<and> (\<forall>x. r = Inr x \<longrightarrow> (\<forall>op \<in> set ops. dominated (w_db w') op) \<and> R (w_remote w') (remoteObjects (w_db w')))"
    using m(4,5) p by (simp add: l(2))
qed

section \<open>The bookkeeping of objects\<close>

lemma ledger_ok_cong:
  assumes "ledger_ok W dev l" and "oplog d = oplog (led_db l)" and "tables d = tables (led_db l)" and "table_ok (meta d)"
    and "tget (meta d) CLOCK_STATE_KEY = tget (meta (led_db l)) CLOCK_STATE_KEY"
  shows "ledger_ok W dev (l\<lparr>led_db := d\<rparr>)"
proof -
  have "logged d = logged (led_db l)" "log_ok d = log_ok (led_db l)" "rows_of d = rows_of (led_db l)"
    "stored_clock d = stored_clock (led_db l)"
    using assms(2,5) rows_of_cong [of d "led_db l"] by (simp_all add: logged_def log_ok_def stored_clock_def)
  then show ?thesis using assms(1,3,4)
    by (simp add: ledger_ok_def db_ok_def clock_covers_def covers_def)
qed

lemma record_objects_simps [simp]:
  "oplog (record_objects a names d) = oplog d" "tables (record_objects a names d) = tables d"
  "meta (record_objects a names d) = meta d" "oplog (set_meta k v d) = oplog d" "tables (set_meta k v d) = tables d"
  "remoteObjects (set_meta k v d) = remoteObjects d"
  by (simp_all add: record_objects_def set_meta_def)

lemma record_objects_keys:
  "table_ok (remoteObjects d) \<Longrightarrow> table_ok (remoteObjects (record_objects a names d)) \<and>
     set (primaryKeys (remoteObjects (record_objects a names d))) = set names \<union> set (primaryKeys (remoteObjects d))"
proof (induction names arbitrary: d)
  case (Cons name names)
  have "record_objects a (name # names) d = record_objects a names (d\<lparr>remoteObjects := tput name (int a) (remoteObjects d)\<rparr>)"
    by (simp add: record_objects_def)
  with Cons.IH [of "d\<lparr>remoteObjects := tput name (int a) (remoteObjects d)\<rparr>"] Cons.prems show ?case
    by (simp add: tbl.set_keys_put)
qed (simp add: record_objects_def)

definition known_here :: "'b sync_env \<Rightarrow> 'b world \<Rightarrow> string \<Rightarrow> bool" where
  "known_here E w name \<longleftrightarrow> tget (w_remote w) name \<noteq> None \<and>
     (\<forall>a s ops. object_at E (w_remote w) name a s ops \<longrightarrow> (\<forall>op \<in> ops. dominated (w_db w) op))"

lemma triple_record:
  "triple (since E W w0) (\<lambda>w. (\<forall>name \<in> set names. known_here E w name) \<and> K \<subseteq> set (primaryKeys (remoteObjects (w_db w))) \<and> R (w_remote w) (oplog (w_db w)))
     (on_db (record_objects a names))
     (\<lambda>_ w. set names \<union> K \<subseteq> set (primaryKeys (remoteObjects (w_db w))) \<and> R (w_remote w) (oplog (w_db w)))"
proof (rule tripleI)
  fix w r w'
  assume w: "since E W w0 w" and p: "(\<forall>name \<in> set names. known_here E w name) \<and> K \<subseteq> set (primaryKeys (remoteObjects (w_db w))) \<and> R (w_remote w) (oplog (w_db w))"
    and r: "on_db (record_objects a names) w = (r, w')"
  let ?d = "record_objects a names (w_db w)"
  have w': "w' = w\<lparr>w_ledger := (w_ledger w)\<lparr>led_db := ?d\<rparr>\<rparr>" using r by (simp add: on_db_def)
  have s: "sync_ok E W w" using w by (simp add: since_def)
  note d = sync_okD [OF s]
  have keys: "table_ok (remoteObjects ?d)" "set (primaryKeys (remoteObjects ?d)) = set names \<union> set (primaryKeys (remoteObjects (w_db w)))"
    using record_objects_keys [of "w_db w"] d(4) by (simp_all add: applied_ok_def)
  have log: "entries ?d = entries (w_db w)" "unsent ?d = unsent (w_db w)" "logged ?d = logged (w_db w)"
    by (simp_all add: entries_def unsent_def logged_def)
  have "ledger_ok W (se_device E) (w_ledger w')"
    unfolding w' by (simp, rule ledger_ok_cong [OF d(1)]) (use d(6) in \<open>simp_all add: db_ok_def\<close>)
  moreover have "applied_ok E ?d (w_remote w)"
    using d(4) p keys log(3) unfolding applied_ok_def dominated_def known_here_def by auto
  ultimately have "sync_ok E W w'"
    using d(2,3) uploads_ok_cong [OF log(2) [symmetric] d(5)] log by (simp add: sync_ok_def w' log_synced_def)
  then show "since E W w0 w' \<and> (\<forall>x. r = Inr x \<longrightarrow> set names \<union> K \<subseteq> set (primaryKeys (remoteObjects (w_db w'))) \<and> R (w_remote w') (oplog (w_db w')))"
    using w p keys(2) log(3) by (auto simp: since_def w')
qed

lemma triple_set_meta:
  assumes "k \<noteq> CLOCK_STATE_KEY"
  shows "triple (since E W w0) (\<lambda>w. R (w_remote w) (oplog (w_db w)) (remoteObjects (w_db w))) (on_db (set_meta k v))
    (\<lambda>_ w. R (w_remote w) (oplog (w_db w)) (remoteObjects (w_db w)))"
proof (rule tripleI)
  fix w r w'
  assume w: "since E W w0 w" and p: "R (w_remote w) (oplog (w_db w)) (remoteObjects (w_db w))"
    and r: "on_db (set_meta k v) w = (r, w')"
  let ?d = "set_meta k v (w_db w)"
  have w': "w' = w\<lparr>w_ledger := (w_ledger w)\<lparr>led_db := ?d\<rparr>\<rparr>" using r by (simp add: on_db_def)
  have s: "sync_ok E W w" using w by (simp add: since_def)
  have m: "table_ok (meta (w_db w))" using sync_okD(6) [OF s] by (simp add: db_ok_def)
  have "ledger_ok W (se_device E) ((w_ledger w)\<lparr>led_db := ?d\<rparr>)"
    by (rule ledger_ok_cong [OF sync_okD(1) [OF s]]) (use m assms in \<open>simp_all add: set_meta_def\<close>)
  then have "since E W w0 w'" unfolding w'
    by (intro since_ledger [OF w]) (auto simp: entries_def unsent_def logged_def)
  then show "since E W w0 w' \<and> (\<forall>x. r = Inr x \<longrightarrow> R (w_remote w') (oplog (w_db w')) (remoteObjects (w_db w')))"
    using p by (simp add: w')
qed

section \<open>Downloading\<close>

text \<open>What the loop has gathered so far.\<close>

definition gathered :: "'b sync_env \<Rightarrow> Operation set \<Rightarrow> 'b tbl \<Rightarrow> Operation list \<times> string list \<times> string list \<Rightarrow> bool" where
  "gathered E W t = (\<lambda>(ops, applied, heads).
     set ops \<subseteq> held E t \<and> set heads \<subseteq> hlc ` W \<and> (\<forall>op \<in> set ops. \<exists>s \<in> set heads. hlc op \<le> s) \<and>
     (\<forall>name \<in> set applied. tget t name \<noteq> None \<and>
        (\<forall>a s S. object_at E t name a s S \<longrightarrow> a = se_device E \<or> S \<subseteq> set ops)))"

definition visited :: "'b sync_env \<Rightarrow> 'b tbl \<Rightarrow> string set \<Rightarrow> Operation list \<times> string list \<times> string list \<Rightarrow> bool" where
  "visited E t N = (\<lambda>(ops, applied, heads). \<forall>name \<in> N. tget t name \<noteq> None \<and> (\<forall>a s S. object_at E t name a s S \<longrightarrow> name \<in> set applied))"

lemma gathered_mono: "keeps_objects E t t' \<Longrightarrow> gathered E W t acc \<Longrightarrow> gathered E W t' acc"
  using keeps_held [of E t t'] unfolding gathered_def keeps_objects_def by (cases acc) (auto; blast)

lemma visited_mono: "keeps_objects E t t' \<Longrightarrow> visited E t N acc \<Longrightarrow> visited E t' N acc"
  unfolding visited_def keeps_objects_def by (cases acc) (auto; blast)

lemma download_Cons:
  "download E (name # names) (ops, applied, heads) =
     andThen (on_remote E (adapter_get name)) (\<lambda>bytes.
       case se_open E bytes of
         Inl err \<Rightarrow> throw err
       | Inr (header, value) \<Rightarrow>
           if hd_v header \<noteq> se_vaultId E then download E names (ops, applied, heads)
           else if hd_d header = se_device E then download E names (ops, applied @ [name], heads)
           else case value of
             BatchPayload batch \<Rightarrow> download E names (ops @ batch_ops batch, applied @ [name], heads @ [hd_h header])
           | _ \<Rightarrow> throw TypeError)"
  by (rule ext) (auto simp: andThen_def throw_def split: sum.splits prod.splits payload.splits)

lemma triple_get:
  assumes "others_ok E W" and "\<And>t t' l. keeps_objects E t t' \<Longrightarrow> R t l \<Longrightarrow> R t' l"
  shows "triple (since E W w0) (\<lambda>w. R (w_remote w) (w_ledger w)) (on_remote E (adapter_get name))
    (\<lambda>bytes w. tget (w_remote w) name = Some bytes \<and> R (w_remote w) (w_ledger w))"
proof (rule triple_read [OF assms(1)])
  show "snd (adapter_get name t) = t" for t :: "'a tbl" by (simp add: adapter_get_def split: option.split)
  fix w :: "'a world" and t bytes
  assume a: "R (w_remote w) (w_ledger w)" "fst (adapter_get name t) = Inr bytes"
    and keep: "keeps_objects E (w_remote w) t"
  have "R t (w_ledger w)" by (rule assms(2) [OF keep a(1)])
  with a(2) show "tget (w_remote (w\<lparr>w_remote := t, w_calls := Suc (w_calls w)\<rparr>)) name = Some bytes \<and>
      R (w_remote (w\<lparr>w_remote := t, w_calls := Suc (w_calls w)\<rparr>)) (w_ledger (w\<lparr>w_remote := t, w_calls := Suc (w_calls w)\<rparr>))"
    by (auto simp: adapter_get_def split: option.splits)
qed

lemma triple_download:
  assumes "others_ok E W" and "\<forall>name \<in> set names. startsWith (opsPrefix (se_vaultId E)) name"
    and "\<And>t t' l. keeps_objects E t t' \<Longrightarrow> F t l \<Longrightarrow> F t' l"
  shows "triple (since E W w0)
    (\<lambda>w. gathered E W (w_remote w) acc \<and> visited E (w_remote w) N acc \<and> F (w_remote w) (w_ledger w))
    (download E names acc)
    (\<lambda>acc' w. gathered E W (w_remote w) acc' \<and> visited E (w_remote w) (N \<union> set names) acc' \<and> F (w_remote w) (w_ledger w))"
  using assms(2)
proof (induction names arbitrary: acc N)
  case Nil
  then show ?case by (auto simp: triple_def)
next
  case (Cons name names)
  obtain ops applied heads where acc: "acc = (ops, applied, heads)" by (cases acc)
  let ?Q = "\<lambda>acc' w. gathered E W (w_remote w) acc' \<and> visited E (w_remote w) (N \<union> set (name # names)) acc' \<and> F (w_remote w) (w_ledger w)"
  have pre: "startsWith (opsPrefix (se_vaultId E)) name" using Cons.prems by simp
  have ih: "triple (since E W w0) (\<lambda>w. gathered E W (w_remote w) acc' \<and> visited E (w_remote w) (insert name N) acc' \<and> F (w_remote w) (w_ledger w))
      (download E names acc') ?Q" for acc'
    using Cons.IH [of acc' "insert name N"] Cons.prems by simp
  show ?case unfolding acc download_Cons
  proof (rule triple_andThen)
    show "triple (since E W w0) (\<lambda>w. gathered E W (w_remote w) (ops, applied, heads) \<and> visited E (w_remote w) N (ops, applied, heads) \<and> F (w_remote w) (w_ledger w))
      (on_remote E (adapter_get name))
      (\<lambda>bytes w. tget (w_remote w) name = Some bytes \<and> gathered E W (w_remote w) (ops, applied, heads) \<and> visited E (w_remote w) N (ops, applied, heads) \<and> F (w_remote w) (w_ledger w))"
      by (rule triple_get [OF assms(1)]) (blast intro: gathered_mono visited_mono assms(3))
  next
    fix bytes
    let ?P = "\<lambda>w. tget (w_remote w) name = Some bytes \<and> gathered E W (w_remote w) (ops, applied, heads) \<and> visited E (w_remote w) N (ops, applied, heads) \<and> F (w_remote w) (w_ledger w)"
    show "triple (since E W w0) ?P
      (case se_open E bytes of Inl err \<Rightarrow> throw err | Inr (header, value) \<Rightarrow>
           if hd_v header \<noteq> se_vaultId E then download E names (ops, applied, heads)
           else if hd_d header = se_device E then download E names (ops, applied @ [name], heads)
           else case value of
             BatchPayload batch \<Rightarrow> download E names (ops @ batch_ops batch, applied @ [name], heads @ [hd_h header])
           | _ \<Rightarrow> throw TypeError) ?Q"
    proof (cases "se_open E bytes")
      case (Inr hp)
      obtain h p where hp: "hp = (h, p)" by fastforce
      note o = Inr [unfolded hp]
      have other: "\<not> object_at E t name a s S" if "hd_v h \<noteq> se_vaultId E" "tget t name = Some bytes" for t a s S
        using that o by (auto simp: object_at_def)
      have here: "object_at E t name a s S \<longleftrightarrow> (\<exists>batch. p = BatchPayload batch \<and> a = hd_d h \<and> s = hd_h h \<and> S = set (batch_ops batch))"
        if "hd_v h = se_vaultId E" "tget t name = Some bytes" for t a s S
        using that o pre by (auto simp: object_at_def)
      have ok: "batch_ok W (se_vaultId E) name (hd_d h) (hd_h h) (set (batch_ops batch))"
        if "since E W w0 w" "hd_v h = se_vaultId E" "tget (w_remote w) name = Some bytes" "p = BatchPayload batch" for w batch
        using that object_at_ok [of E W "w_remote w" name "hd_d h" "hd_h h" "set (batch_ops batch)"] here [OF that(2,3)]
        by (auto simp: since_def sync_ok_def)
      consider (foreign) "hd_v h \<noteq> se_vaultId E" | (own) "hd_v h = se_vaultId E" "hd_d h = se_device E"
        | (batch) batch where "hd_v h = se_vaultId E" "hd_d h \<noteq> se_device E" "p = BatchPayload batch"
        | (junk) "hd_v h = se_vaultId E" "hd_d h \<noteq> se_device E" "\<And>batch. p \<noteq> BatchPayload batch"
        by blast
      then show ?thesis
      proof cases
        case foreign
        with o show ?thesis using other [OF foreign]
          by (simp, intro triple_weaken [OF ih [of "(ops, applied, heads)"]]) (auto simp: visited_def)
      next
        case own
        with o show ?thesis using here [OF own(1)]
          by (simp, intro triple_weaken [OF ih [of "(ops, applied @ [name], heads)"]]) (auto simp: visited_def gathered_def)
      next
        case batch
        have new: "gathered E W (w_remote w) (ops @ batch_ops batch, applied @ [name], heads @ [hd_h h])"
          if "since E W w0 w" "?P w" for w
        proof -
          let ?t = "w_remote w"
          have obj: "object_at E ?t name a s S \<longleftrightarrow> a = hd_d h \<and> s = hd_h h \<and> S = set (batch_ops batch)" for a s S
            using here [OF batch(1)] that(2) batch(3) by simp
          then have held: "set (batch_ops batch) \<subseteq> held E ?t" unfolding held_def by blast
          have bo: "batch_ok W (se_vaultId E) name (hd_d h) (hd_h h) (set (batch_ops batch))"
            using ok [OF that(1) batch(1) _ batch(3)] that(2) by blast
          then have "hd_h h \<in> hlc ` W" "\<forall>op \<in> set (batch_ops batch). hlc op \<le> hd_h h" by (auto simp: batch_ok_def)
          then show ?thesis using that(2) held obj unfolding gathered_def by (auto; blast)
        qed
        show ?thesis using o batch here [OF batch(1)] new
          by (simp, intro triple_weaken [OF ih [of "(ops @ batch_ops batch, applied @ [name], heads @ [hd_h h])"]])
            (auto simp: visited_def)
      next
        case junk
        with o show ?thesis by (auto split: payload.splits)
      qed
    qed auto
  qed
qed

section \<open>Pulling\<close>

lemma triple_list:
  assumes "others_ok E W" and "\<And>t t' l. keeps_objects E t t' \<Longrightarrow> R t l \<Longrightarrow> R t' l"
  shows "triple (since E W w0) (\<lambda>w. R (w_remote w) (w_ledger w)) (on_remote E (adapter_list prefix))
    (\<lambda>names w. names = filter (startsWith prefix) (primaryKeys (w_remote w)) \<and> R (w_remote w) (w_ledger w))"
proof (rule triple_read [OF assms(1)])
  show "snd (adapter_list prefix t) = t" for t :: "'a tbl" by (simp add: adapter_list_def)
  fix w :: "'a world" and t names
  assume a: "R (w_remote w) (w_ledger w)" "fst (adapter_list prefix t) = Inr names"
    and keep: "keeps_objects E (w_remote w) t"
  have "R t (w_ledger w)" by (rule assms(2) [OF keep a(1)])
  with a(2) show "names = filter (startsWith prefix) (primaryKeys (w_remote (w\<lparr>w_remote := t, w_calls := Suc (w_calls w)\<rparr>))) \<and>
      R (w_remote (w\<lparr>w_remote := t, w_calls := Suc (w_calls w)\<rparr>)) (w_ledger (w\<lparr>w_remote := t, w_calls := Suc (w_calls w)\<rparr>))"
    by (simp add: adapter_list_def)
qed

lemma no_snapshots: "remote_ok E W t \<Longrightarrow> filter (startsWith (snapshotPrefix (se_vaultId E))) (primaryKeys t) = []"
  by (auto simp: filter_empty_conv remote_ok_def tget_key)

lemma triple_applySnapshot:
  assumes "others_ok E W"
  shows "triple (since E W w0) (\<lambda>w. R (w_ledger w)) (applySnapshot E seen) (\<lambda>res w. res = (None, seen) \<and> R (w_ledger w))"
proof -
  have "triple (since E W w0) (\<lambda>w. R (w_ledger w)) (on_remote E (adapter_list (snapshotPrefix (se_vaultId E))))
      (\<lambda>names w. names = [] \<and> R (w_ledger w))"
    by (rule triple_weaken [OF triple_list [OF assms, where R = "\<lambda>t l. R l" and prefix = "snapshotPrefix (se_vaultId E)"]])
      (auto simp: since_def sync_ok_def no_snapshots)
  then show ?thesis unfolding applySnapshot_def
    by (rule triple_andThen) (auto simp: triple_def return_def)
qed

definition listed :: "'b sync_env \<Rightarrow> 'b world \<Rightarrow> string list \<Rightarrow> 'b tbl \<Rightarrow> bool" where
  "listed E w0 names t \<longleftrightarrow>
     (\<forall>name \<in> set names. tget t name \<noteq> None \<and> startsWith (opsPrefix (se_vaultId E)) name) \<and>
     (\<forall>op \<in> held E (w_remote w0). \<exists>name \<in> set names. \<exists>a s S. object_at E t name a s S \<and> op \<in> S)"

lemma listed_mono: "keeps_objects E t t' \<Longrightarrow> listed E w0 names t \<Longrightarrow> listed E w0 names t'"
  unfolding listed_def keeps_objects_def by blast

lemma listed_all:
  assumes "since E W w0 w"
  shows "listed E w0 (filter (startsWith (opsPrefix (se_vaultId E))) (primaryKeys (w_remote w))) (w_remote w)"
proof -
  have "\<exists>name \<in> set (filter (startsWith (opsPrefix (se_vaultId E))) (primaryKeys (w_remote w))).
      \<exists>a s S. object_at E (w_remote w) name a s S \<and> op \<in> S" if "op \<in> held E (w_remote w0)" for op
  proof -
    have "op \<in> held E (w_remote w)" using since_held [OF assms] that by blast
    then obtain name a s S where o: "object_at E (w_remote w) name a s S" "op \<in> S"
      unfolding held_def by blast
    then have "name \<in> set (filter (startsWith (opsPrefix (se_vaultId E))) (primaryKeys (w_remote w)))"
      by (auto simp: object_at_def tget_key)
    with o show ?thesis by blast
  qed
  then show ?thesis by (auto simp: listed_def tget_key)
qed

text \<open>Everything the destination held is accounted for.\<close>

definition caught_up :: "'b sync_env \<Rightarrow> 'b world \<Rightarrow> 'b world \<Rightarrow> bool" where
  "caught_up E w0 w \<longleftrightarrow> (\<forall>op \<in> held E (w_remote w0). dominated (w_db w) op)"

lemma caught_upI:
  assumes "since E W w0 w" and "listed E w0 names (w_remote w)"
    and "\<And>name a s S. name \<in> set names \<Longrightarrow> object_at E (w_remote w) name a s S \<Longrightarrow> name \<in> set (primaryKeys (remoteObjects (w_db w)))"
  shows "caught_up E w0 w"
  unfolding caught_up_def
proof
  fix op
  assume "op \<in> held E (w_remote w0)"
  then obtain name a s S where o: "name \<in> set names" "object_at E (w_remote w) name a s S" "op \<in> S"
    using assms(2) unfolding listed_def by blast
  have "applied_ok E (w_db w) (w_remote w)" using assms(1) by (simp add: since_def sync_ok_def)
  with o assms(3) [OF o(1,2)] show "dominated (w_db w) op" unfolding applied_ok_def by blast
qed

lemma own_logged:
  assumes "sync_ok E W w" and "object_at E (w_remote w) name (se_device E) s S" and "op \<in> S"
  shows "op \<in> logged (w_db w)"
  using object_at_ok [OF sync_okD(2) [OF assms(1)] assms(2)] sync_okD(3) [OF assms(1)] assms(3)
  by (auto simp: batch_ok_def log_synced_def)

lemma gathered_known:
  assumes "sync_ok E W w" and "gathered E W (w_remote w) (ops, applied, heads)" and "\<forall>op \<in> set ops. dominated (w_db w) op"
    and "name \<in> set applied"
  shows "known_here E w name"
  using assms(2-4) own_logged [OF assms(1)] logged_dominated_self unfolding known_here_def gathered_def by blast

text \<open>What a pull has in hand after the downloads: the batches, and the listing they came from.\<close>

definition in_hand :: "'b sync_env \<Rightarrow> Operation set \<Rightarrow> 'b world \<Rightarrow> string list \<Rightarrow> string list \<Rightarrow>
    Operation list \<times> string list \<times> string list \<Rightarrow> 'b tbl \<Rightarrow> int tbl \<Rightarrow> bool" where
  "in_hand E W w0 names seen acc t ro \<longleftrightarrow>
     gathered E W t acc \<and> visited E t (set names - set seen) acc \<and> listed E w0 names t \<and> set seen \<subseteq> set (primaryKeys ro)"

lemma triple_apply:
  assumes "others_ok E W" and "\<And>j. plausible (se_now E j)"
  shows "triple (since E W w0) (\<lambda>w. in_hand E W w0 names seen (ops, applied, heads) (w_remote w) (remoteObjects (w_db w)))
    (apply_batches E (ops, applied, heads))
    (\<lambda>_. caught_up E w0)"
proof (rule triple_pure)
  let ?B = "\<lambda>t ro. in_hand E W w0 names seen (ops, applied, heads) t ro"
  show "since E W w0 w \<Longrightarrow> ?B (w_remote w) (remoteObjects (w_db w)) \<Longrightarrow> set heads \<subseteq> hlc ` W \<and> set ops \<subseteq> W" for w
    by (auto simp: in_hand_def gathered_def since_def sync_ok_def dest: held_subset)
  assume pure: "set heads \<subseteq> hlc ` W \<and> set ops \<subseteq> W"
  have 1: "triple (since E W w0) (\<lambda>w. ?B (w_remote w) (remoteObjects (w_db w)))
      (with_now E (\<lambda>now. on_ledger (observeStamps now heads)))
      (\<lambda>_ w. (\<forall>clk. led_clock (w_ledger w) = Some clk \<longrightarrow> (\<forall>s \<in> set heads. s \<le> reading clk)) \<and> ?B (w_remote w) (remoteObjects (w_db w)))"
    by (intro triple_with_now triple_observe [where R = "\<lambda>t d. ?B t (remoteObjects d)"]) (use pure assms(2) in auto)
  have 2: "triple (since E W w0)
      (\<lambda>w. (\<forall>clk. led_clock (w_ledger w) = Some clk \<longrightarrow> (\<forall>s \<in> set heads. s \<le> reading clk)) \<and> ?B (w_remote w) (remoteObjects (w_db w)))
      (on_ledger (merge ops))
      (\<lambda>_ w. (\<forall>op \<in> set ops. dominated (w_db w) op) \<and> ?B (w_remote w) (remoteObjects (w_db w)))"
    by (rule triple_weaken [OF triple_merge [where R = ?B]])
      (use pure in \<open>auto simp: in_hand_def gathered_def\<close>, meson order_trans)
  have 3: "triple (since E W w0) (\<lambda>w. (\<forall>op \<in> set ops. dominated (w_db w) op) \<and> ?B (w_remote w) (remoteObjects (w_db w)))
      (with_now E (\<lambda>now. on_db (record_objects (now 0) applied))) (\<lambda>_. caught_up E w0)"
  proof (rule triple_with_now [OF _ assms(2)])
    fix now :: "nat \<Rightarrow> nat"
    let ?F = "\<lambda>t. visited E t (set names - set seen) (ops, applied, heads) \<and> listed E w0 names t"
    show "triple (since E W w0) (\<lambda>w. (\<forall>op \<in> set ops. dominated (w_db w) op) \<and> ?B (w_remote w) (remoteObjects (w_db w)))
      (on_db (record_objects (now 0) applied)) (\<lambda>_. caught_up E w0)"
    proof (rule triple_weaken [OF triple_record [where K = "set seen" and R = "\<lambda>t _. ?F t"]])
      fix w
      assume w: "since E W w0 w" "(\<forall>op \<in> set ops. dominated (w_db w) op) \<and> ?B (w_remote w) (remoteObjects (w_db w))"
      then have "sync_ok E W w" "gathered E W (w_remote w) (ops, applied, heads)" by (auto simp: since_def in_hand_def)
      from gathered_known [OF this] w(2)
      show "(\<forall>name \<in> set applied. known_here E w name) \<and> set seen \<subseteq> set (primaryKeys (remoteObjects (w_db w))) \<and> ?F (w_remote w)"
        by (auto simp: in_hand_def)
    next
      fix w
      assume w: "since E W w0 w" "set applied \<union> set seen \<subseteq> set (primaryKeys (remoteObjects (w_db w))) \<and> ?F (w_remote w)"
      show "caught_up E w0 w"
      proof (rule caught_upI [OF w(1), of names])
        show "listed E w0 names (w_remote w)" using w(2) by blast
        fix name a s S
        assume "name \<in> set names" "object_at E (w_remote w) name a s S"
        then show "name \<in> set (primaryKeys (remoteObjects (w_db w)))"
          using w(2) unfolding visited_def by (cases "name \<in> set seen") blast+
      qed
    qed
  qed
  show "triple (since E W w0) (\<lambda>w. ?B (w_remote w) (remoteObjects (w_db w)))
    (apply_batches E (ops, applied, heads))
    (\<lambda>_. caught_up E w0)"
    unfolding apply_batches_def prod.case
    by (intro triple_andThen [OF 1] triple_andThen [OF 2] triple_andThen [OF 3] triple_return)
qed

lemma nothing_covered:
  "filter (is_covered None) names = []" "filter (\<lambda>name. \<not> is_covered None name) names = names"
  by (simp_all add: is_covered_def)

lemma triple_pull:
  assumes "others_ok E W" and "\<And>j. plausible (se_now E j)"
  shows "triple (since E W w0) (\<lambda>_. True) (pull E) (\<lambda>_. caught_up E w0)"
proof (rule tripleI)
  fix w r w'
  assume w: "since E W w0 w" and r: "pull E w = (r, w')"
  define seen where "seen = primaryKeys (remoteObjects (w_db w))"
  let ?K = "\<lambda>l. set seen \<subseteq> set (primaryKeys (remoteObjects (led_db l)))"
  let ?L = "\<lambda>names t l. listed E w0 names t \<and> ?K l"
  have mono: "keeps_objects E t t' \<Longrightarrow> ?L names t l \<Longrightarrow> ?L names t' l" for names t t' l using listed_mono by blast
  have down: "triple (since E W w0) (\<lambda>w. ?L names (w_remote w) (w_ledger w)) (download E (filter (\<lambda>name. name \<notin> set seen) names) ([], [], []))
      (\<lambda>acc w. in_hand E W w0 names seen acc (w_remote w) (remoteObjects (w_db w)))" for names
  proof (rule triple_pure)
    assume pre: "\<forall>name \<in> set (filter (\<lambda>name. name \<notin> set seen) names). startsWith (opsPrefix (se_vaultId E)) name"
    show "triple (since E W w0) (\<lambda>w. ?L names (w_remote w) (w_ledger w)) (download E (filter (\<lambda>name. name \<notin> set seen) names) ([], [], []))
      (\<lambda>acc w. in_hand E W w0 names seen acc (w_remote w) (remoteObjects (w_db w)))"
      by (rule triple_weaken [OF triple_download [OF assms(1) pre, where F = "?L names" and N = "{}" and acc = "([], [], [])", OF mono]])
        (auto simp: gathered_def visited_def in_hand_def)
  qed (auto simp: listed_def)
  have listing: "triple (since E W w0) (\<lambda>w. ?K (w_ledger w)) (on_remote E (adapter_list (opsPrefix (se_vaultId E))))
      (\<lambda>names w. ?L names (w_remote w) (w_ledger w))"
    by (rule triple_weaken [OF triple_list [OF assms(1), where R = "\<lambda>t l. ?K l"]]) (auto intro: listed_all)
  have rest: "triple (since E W w0) (\<lambda>w. ?L names (w_remote w) (w_ledger w))
      (andThen (with_now E (\<lambda>now. on_db (record_objects (now 0) []))) (\<lambda>_.
         if filter (\<lambda>name. name \<notin> set seen) names = [] then return 0
         else andThen (download E (filter (\<lambda>name. name \<notin> set seen) names) ([], [], [])) (apply_batches E)))
      (\<lambda>_. caught_up E w0)" for names
  proof (rule triple_andThen)
    show "triple (since E W w0) (\<lambda>w. ?L names (w_remote w) (w_ledger w)) (with_now E (\<lambda>now. on_db (record_objects (now 0) [])))
      (\<lambda>_ w. ?L names (w_remote w) (w_ledger w))"
      by (rule triple_with_now [OF _ assms(2)],
          rule triple_weaken [OF triple_record [where K = "set seen" and R = "\<lambda>t _. listed E w0 names t"]]) auto
    have "caught_up E w0 w" if "since E W w0 w" "?L names (w_remote w) (w_ledger w)" "filter (\<lambda>name. name \<notin> set seen) names = []" for w
      by (rule caught_upI [OF that(1), of names]) (use that(2,3) in \<open>auto simp: filter_empty_conv\<close>)
    moreover have "triple (since E W w0) (\<lambda>w. in_hand E W w0 names seen acc (w_remote w) (remoteObjects (w_db w))) (apply_batches E acc)
        (\<lambda>_. caught_up E w0)" for acc
      using triple_apply [OF assms] by (cases acc) simp
    ultimately show "triple (since E W w0) (\<lambda>w. ?L names (w_remote w) (w_ledger w))
       (if filter (\<lambda>name. name \<notin> set seen) names = [] then return 0
         else andThen (download E (filter (\<lambda>name. name \<notin> set seen) names) ([], [], [])) (apply_batches E))
       (\<lambda>_. caught_up E w0)"
      by (cases "filter (\<lambda>name. name \<notin> set seen) names = []") (auto intro!: triple_andThen [OF down])
  qed
  have objects: "triple (since E W w0) (\<lambda>w. res = (None, seen) \<and> ?K (w_ledger w)) (pull_objects E res) (\<lambda>_. caught_up E w0)" for res
  proof (rule triple_pure)
    assume "res = (None, seen)"
    then show "triple (since E W w0) (\<lambda>w. res = (None, seen) \<and> ?K (w_ledger w)) (pull_objects E res) (\<lambda>_. caught_up E w0)"
      using triple_andThen [OF listing rest] by (simp only: pull_objects_def prod.case Let_def nothing_covered simp_thms)
  qed simp
  note all = triple_andThen [OF triple_applySnapshot [OF assms(1), where R = ?K and seen = seen] objects]
  show "since E W w0 w' \<and> (\<forall>x. r = Inr x \<longrightarrow> caught_up E w0 w')"
    using tripleD [OF all w, of r w'] r by (simp add: pull_def seen_def)
qed

end
