(* ===== verification/Sync_Push.thy ===== *)
theory Sync_Push
  imports Sync_Safety
begin

text \<open>
  Uploading. Pending operations go out oldest first in batches; an operation is marked as sent only
  after the object that holds it was accepted. An upload that fails may have reached the destination
  all the same, and the batch that replaces it under the same name holds the same operations, so
  nothing that was once uploaded is ever lost. The whole cycle is put together at the end.
\<close>

section \<open>The oldest unsent operations\<close>

definition oldest_first :: "docket_db \<Rightarrow> LocalOperation list \<Rightarrow> bool" where
  "oldest_first d pending \<longleftrightarrow>
     sorted_wrt (<) (map hlc pending) \<and> set pending \<subseteq> unsent d \<and>
     (\<forall>x \<in> unsent d - set pending. \<forall>y \<in> set pending. hlc y < hlc x)"

text \<open>The limit on pending operations is a whole number of batches, so only the last batch of all
  that is unsent may be short.\<close>

definition full_batches :: "docket_db \<Rightarrow> LocalOperation list \<Rightarrow> bool" where
  "full_batches d pending \<longleftrightarrow> unsent d = set pending \<or> MAX_OPS_PER_BATCH dvd length pending"

lemma pending_oldest:
  assumes "log_ok d" and "P = pendingOperations PENDING_LIMIT d"
  shows "oldest_first d P" "full_batches d P" "card (unsent d) \<le> PENDING_LIMIT \<Longrightarrow> set P = unsent d"
proof -
  define xs where "xs = filter (\<lambda>lop. \<not> synced lop) (toArray (oplog d))"
  have "map hlc (toArray (oplog d)) = primaryKeys (oplog d)"
    using assms(1) by (auto simp: toArray_def primaryKeys_def log_ok_def)
  then have "sorted_wrt (<) (map hlc (toArray (oplog d)))" using assms(1) by (simp add: log_ok_def table_ok_def)
  then have sorted: "sorted_wrt (<) (map hlc xs)" unfolding xs_def by (simp add: sorted_wrt_map sorted_wrt_filter)
  have xs: "set xs = unsent d" by (auto simp: xs_def unsent_def entries_def toArray_def)
  have take: "sorted_wrt (<) (map hlc (take n xs))" for n
    using sorted_wrt_take [OF sorted, of n] by (simp add: take_map)
  then have P: "P = take PENDING_LIMIT xs"
    unfolding assms(2) pendingOperations_def xs_def [symmetric]
    by (intro sort_key_id_if_sorted) (simp add: strict_sorted_imp_sorted)
  have "hlc y < hlc x" if "x \<in> set xs - set P" "y \<in> set P" for x y
  proof -
    have split: "xs = take PENDING_LIMIT xs @ drop PENDING_LIMIT xs" by simp
    then have "x \<in> set (drop PENDING_LIMIT xs)" using that(1) P by (metis Diff_iff Un_iff set_append)
    moreover have "sorted_wrt (<) (map hlc (take PENDING_LIMIT xs) @ map hlc (drop PENDING_LIMIT xs))"
      using sorted split by (metis map_append)
    ultimately show ?thesis using that(2) P by (simp add: sorted_wrt_append)
  qed
  moreover have "set P \<subseteq> set xs" using P set_take_subset by metis
  ultimately show "oldest_first d P" using take P xs by (auto simp: oldest_first_def)
  show "full_batches d P"
    using P xs by (cases "length xs \<le> PENDING_LIMIT") (auto simp: full_batches_def PENDING_LIMIT_def MAX_OPS_PER_BATCH_def)
  have "distinct (map hlc xs)" using sorted by (simp add: strict_sorted_iff)
  then have "length xs = card (unsent d)" using xs distinct_card [of xs] by (simp add: distinct_map)
  then show "card (unsent d) \<le> PENDING_LIMIT \<Longrightarrow> set P = unsent d" using P xs by simp
qed

text \<open>A batch is everything unsent up to its newest operation.\<close>

lemma oldest_batch:
  assumes "oldest_first d pending" and "pending \<noteq> []" and "part = take MAX_OPS_PER_BATCH pending"
  shows "part \<noteq> []" "set part \<subseteq> unsent d" "\<And>y. y \<in> set part \<Longrightarrow> hlc y \<le> hlc (last part)"
    "{lop \<in> unsent d. hlc lop \<le> hlc (last part)} = set part" "\<And>x y. x \<in> unsent d - set part \<Longrightarrow> y \<in> set part \<Longrightarrow> hlc y < hlc x"
    "card (set part) \<le> MAX_OPS_PER_BATCH" "full_batches d pending \<Longrightarrow> x \<in> unsent d - set part \<Longrightarrow> card (set part) = MAX_OPS_PER_BATCH"
proof -
  have s: "sorted_wrt (<) (map hlc pending)" "set pending \<subseteq> unsent d"
    "\<And>x y. x \<in> unsent d - set pending \<Longrightarrow> y \<in> set pending \<Longrightarrow> hlc y < hlc x"
    using assms(1) by (auto simp: oldest_first_def)
  show ne: "part \<noteq> []" using assms(2,3) by (simp add: MAX_OPS_PER_BATCH_def)
  have sub: "set part \<subseteq> set pending" using assms(3) set_take_subset by metis
  then show "set part \<subseteq> unsent d" using s(2) by blast
  have sp: "sorted_wrt (<) (map hlc part)" using sorted_wrt_take [OF s(1), of MAX_OPS_PER_BATCH] by (simp add: assms(3) take_map)
  show le: "hlc y \<le> hlc (last part)" if "y \<in> set part" for y
    using strict_sorted_le_last [OF sp, of "hlc y"] that ne by (simp add: last_map)
  have beyond: "hlc y < hlc x" if "x \<in> unsent d - set part" "y \<in> set part" for x y
  proof (cases "x \<in> set pending")
    case True
    have "pending = part @ drop MAX_OPS_PER_BATCH pending" by (simp add: assms(3))
    then have "x \<in> set (drop MAX_OPS_PER_BATCH pending)" "sorted_wrt (<) (map hlc part @ map hlc (drop MAX_OPS_PER_BATCH pending))"
      using True that(1) s(1) by (metis Diff_iff Un_iff set_append, metis map_append)
    then show ?thesis using that(2) by (simp add: sorted_wrt_append)
  next
    case False
    then show ?thesis using s(3) [of x y] that sub by blast
  qed
  then show "\<And>x y. x \<in> unsent d - set part \<Longrightarrow> y \<in> set part \<Longrightarrow> hlc y < hlc x" .
  have "x \<in> set part" if "x \<in> unsent d" "hlc x \<le> hlc (last part)" for x
    using beyond [of x "last part"] that last_in_set [OF ne] by force
  then show "{lop \<in> unsent d. hlc lop \<le> hlc (last part)} = set part" using le \<open>set part \<subseteq> unsent d\<close> by blast
  have "distinct part" using sp by (simp add: strict_sorted_iff distinct_map)
  then have card: "card (set part) = length part" by (rule distinct_card)
  then show "card (set part) \<le> MAX_OPS_PER_BATCH" by (simp add: assms(3))
  assume f: "full_batches d pending" and x: "x \<in> unsent d - set part"
  have "MAX_OPS_PER_BATCH \<le> length pending"
  proof (rule ccontr)
    assume short: "\<not> MAX_OPS_PER_BATCH \<le> length pending"
    then have "part = pending" by (simp add: assms(3))
    with f x have "MAX_OPS_PER_BATCH dvd length pending" by (auto simp: full_batches_def)
    with short assms(2) show False by (auto dest: dvd_imp_le)
  qed
  then show "card (set part) = MAX_OPS_PER_BATCH" using card by (simp add: assms(3))
qed

section \<open>Uploading a batch\<close>

definition batch_header :: "'b sync_env \<Rightarrow> string \<Rightarrow> EnvelopeHeader" where
  "batch_header E head = \<lparr>hd_v = se_vaultId E, hd_d = se_device E, hd_h = head, hd_t = ''ops''\<rparr>"

definition batch_of :: "'b sync_env \<Rightarrow> LocalOperation list \<Rightarrow> OperationBatch" where
  "batch_of E part = \<lparr>batch_vaultId = se_vaultId E, batch_device = se_device E, batch_head = hlc (last part),
     batch_ops = map remote_op part\<rparr>"

lemma opsObjectName_prefix:
  "startsWith (opsPrefix v) (opsObjectName v s)" "\<not> startsWith (snapshotPrefix v) (opsObjectName v s)"
  "opsObjectName v s = opsObjectName v s' \<longleftrightarrow> s = s'"
  by (simp_all add: opsObjectName_def startsWith_iff) (auto simp: opsPrefix_def snapshotPrefix_def)

lemma unsent_entries: "lop \<in> unsent d \<Longrightarrow> remote_op lop \<in> logged d" "lop \<in> unsent d \<Longrightarrow> lop \<in> entries d"
  by (auto simp: unsent_def logged_entries)

lemma sync_ok_upload:
  assumes "sync_ok E W w" and "oldest_first (w_db w) pending" and "pending \<noteq> []" and "part = take MAX_OPS_PER_BATCH pending"
    and "se_open E b = Inr (batch_header E (hlc (last part)), BatchPayload (batch_of E part))"
  defines "name \<equiv> opsObjectName (se_vaultId E) (hlc (last part))" and "t \<equiv> w_remote w"
  shows "sync_ok E W (w\<lparr>w_remote := tput name b t\<rparr>)" "keeps_objects E t (tput name b t)"
    "object_at E (tput name b t) name (se_device E) (hlc (last part)) (remote_op ` set part)"
    "\<And>n a s S. object_at E (tput name b t) n a s S \<Longrightarrow> tget t n = None \<Longrightarrow> a = se_device E"
proof -
  note d = sync_okD [OF assms(1)] and o = oldest_batch [OF assms(2-4)]
  let ?head = "hlc (last part)" and ?t = "tput name b t" and ?ops = "remote_op ` set part"
  have tab: "table_ok t" using d(2) by (simp add: remote_ok_def t_def)
  have get: "tget ?t n = (if n = name then Some b else tget t n)" for n using tab by simp
  have mine: "op_device lop = se_device E" "remote_op lop \<in> W" if "lop \<in> set part" for lop
  proof -
    have "lop \<in> unsent (w_db w)" using o(2) that by blast
    then have "lop \<in> entries (w_db w)" "\<not> synced lop" "remote_op lop \<in> logged (w_db w)"
      using unsent_entries [of lop "w_db w"] by (simp_all add: unsent_def)
    then show "op_device lop = se_device E" "remote_op lop \<in> W"
      using d(3) db_okD(3) [OF d(6)] unfolding log_synced_def by (meson, blast)
  qed
  have last: "last part \<in> set part" using o(1) by simp
  have new_ok: "batch_ok W (se_vaultId E) name (se_device E) ?head ?ops"
    using mine o(3) last image_eqI [of "hlc (last part)" "\<lambda>x. hlc (remote_op x)" "last part" "set part"]
    by (auto simp: batch_ok_def name_def image_image)
  have pre: "startsWith (opsPrefix (se_vaultId E)) name" by (simp add: name_def opsObjectName_prefix)
  have at: "object_at E ?t n a s S \<longleftrightarrow> (if n = name then a = se_device E \<and> s = ?head \<and> S = ?ops else object_at E t n a s S)" for n a s S
    using pre assms(5) by (auto simp: object_at_def get batch_header_def batch_of_def)
  then show "object_at E ?t name (se_device E) ?head ?ops" by simp
  show "object_at E ?t n a s S \<Longrightarrow> tget t n = None \<Longrightarrow> a = se_device E" for n a s S
    using at [of n a s S] object_at_present [of E t n] by (auto split: if_splits)
  have remote: "remote_ok E W ?t"
    using d(2) tab new_ok assms(5) opsObjectName_prefix(2) [of "se_vaultId E" "hlc (last part)"]
    by (auto simp: remote_ok_def t_def [symmetric] name_def [symmetric] batch_header_def batch_of_def split: if_splits)
  have old: "a = se_device E \<and> s = ?head \<and> S = ?ops" if old: "object_at E t name a s S" for a s S
  proof -
    have bo: "batch_ok W (se_vaultId E) name a s S" using object_at_ok [OF d(2)] old by (simp add: t_def)
    then have head: "s = ?head" by (simp add: batch_ok_def name_def opsObjectName_prefix(3))
    with bo obtain op where op: "op \<in> S" "hlc op = ?head" "op_device op = a" "op \<in> W"
      by (auto simp: batch_ok_def)
    have "op = remote_op (last part)"
      using inj_onD [OF db_okD(4) [OF d(6)], of op "remote_op (last part)"] op(2,4) mine(2) [OF last] by simp
    then have a: "a = se_device E" using op(3) mine(1) [OF last] by simp
    with old d(5) have "retry_ok (w_db w) s S" by (auto simp: uploads_ok_def t_def)
    then have "S = remote_op ` {lop \<in> unsent (w_db w). hlc lop \<le> ?head}"
      using last o(2) by (auto simp: retry_ok_def head)
    then show ?thesis using o(4) a head by simp
  qed
  show keeps: "keeps_objects E t ?t"
    unfolding keeps_objects_def
  proof (intro allI impI conjI)
    fix n
    assume n: "tget t n \<noteq> None"
    then show "tget ?t n \<noteq> None" by (simp add: get)
    fix a s S
    show "object_at E ?t n a s S \<longleftrightarrow> object_at E t n a s S"
    proof (cases "n = name")
      case True
      with n obtain a' s' S' where "object_at E t n a' s' S'"
        using object_at_exists [OF d(2), of name] pre by (auto simp: t_def)
      then show ?thesis using old at True by metis
    qed (simp add: at)
  qed
  have "log_synced E W (w_db w) ?t" using d(3) keeps_held [OF keeps] by (auto simp: log_synced_def t_def split: if_splits)
  moreover have "applied_ok E (w_db w) ?t"
    using d(4) o(2) unsent_entries(1) logged_dominated_self
    by (auto simp: applied_ok_def at get t_def [symmetric] split: if_splits)
  moreover have "uploads_ok E (w_db w) ?t"
    unfolding uploads_ok_def
  proof (intro allI impI)
    fix n s S
    assume a: "object_at E ?t n (se_device E) s S"
    have c: "card ?ops \<le> MAX_OPS_PER_BATCH" using o(6) card_image_le [of "set part" remote_op] by simp
    show "retry_ok (w_db w) s S"
    proof (cases "n = name")
      case True
      with a at have "s = ?head" "S = ?ops" by simp_all
      then show ?thesis using c o(4) by (simp add: retry_ok_def)
    next
      case False
      with a at d(5) show ?thesis by (auto simp: uploads_ok_def t_def)
    qed
  qed
  ultimately show "sync_ok E W (w\<lparr>w_remote := ?t\<rparr>)" using d(1) remote by (simp add: sync_ok_def)
qed

section \<open>Marking what was sent\<close>

lemma markSynced_entries:
  assumes "log_ok d"
  shows "entries (markSynced ss d) = (\<lambda>lop. if hlc lop \<in> set ss then lop\<lparr>synced := True\<rparr> else lop) ` entries d" (is "?E = ?f ` _")
    "unsent (markSynced ss d) = {lop \<in> unsent d. hlc lop \<notin> set ss}"
proof -
  have "table_ok (fold (\<lambda>s. tupdate s (\<lambda>lop. lop\<lparr>synced := True\<rparr>)) ss t) = table_ok t" for t :: "LocalOperation tbl"
    by (induction ss arbitrary: t) auto
  then have tab: "table_ok (oplog (markSynced ss d))" "table_ok (oplog d)"
    using assms by (simp_all add: markSynced_def log_ok_def)
  have mem: "(k, x) \<in> set (oplog (markSynced ss d)) \<longleftrightarrow> (\<exists>lop. (k, lop) \<in> set (oplog d) \<and> x = ?f lop)" for k x
  proof -
    have "(k, x) \<in> set (oplog (markSynced ss d)) \<longleftrightarrow>
        (\<exists>lop. (k, lop) \<in> set (oplog d) \<and> x = (if k \<in> set ss then lop\<lparr>synced := True\<rparr> else lop))"
      unfolding tget_mem [OF tab(1), symmetric] tget_mem [OF tab(2), symmetric] markSynced_get by auto
    then show ?thesis using log_ok_mem [OF assms, of k] by (metis (no_types, lifting))
  qed
  have iff: "x \<in> entries d' \<longleftrightarrow> (\<exists>k. (k, x) \<in> set (oplog d'))" for x d' by (force simp: entries_def)
  show E: "?E = ?f ` entries d"
  proof (intro set_eqI)
    fix x
    have "x \<in> ?E \<longleftrightarrow> (\<exists>lop. (\<exists>k. (k, lop) \<in> set (oplog d)) \<and> x = ?f lop)" unfolding iff mem by blast
    then show "x \<in> ?E \<longleftrightarrow> x \<in> ?f ` entries d" unfolding iff [symmetric] by blast
  qed
  show "unsent (markSynced ss d) = {lop \<in> unsent d. hlc lop \<notin> set ss}"
    unfolding unsent_def E by (auto split: if_splits)
qed

lemma sync_ok_mark:
  assumes "sync_ok E W w" and "oldest_first (w_db w) pending" and "full_batches (w_db w) pending" and "pending \<noteq> []"
    and "part = take MAX_OPS_PER_BATCH pending" and "remote_op ` set part \<subseteq> held E (w_remote w)"
  defines "l \<equiv> (w_ledger w)\<lparr>led_db := markSynced (map hlc part) (w_db w)\<rparr>"
  shows "sync_ok E W (w\<lparr>w_ledger := l\<rparr>)" "unsent (led_db l) = unsent (w_db w) - set part" "logged (led_db l) = logged (w_db w)"
proof -
  note d = sync_okD [OF assms(1)] and o = oldest_batch [OF assms(2,4,5)]
  note m = markSynced_ok [OF d(6), of "map hlc part"] and e = markSynced_entries [OF d(7), of "map hlc part"]
  have same: "hlc lop \<in> hlc ` set part \<longleftrightarrow> lop \<in> set part" if "lop \<in> unsent (w_db w)" for lop
    using entry_unique [OF d(7), of lop] o(2) that unsent_entries(2) by blast
  show unsent: "unsent (led_db l) = unsent (w_db w) - set part" using e(2) same by (auto simp: l_def)
  show log: "logged (led_db l) = logged (w_db w)" using m(3) by (simp add: l_def)
  have "log_synced E W (led_db l) (w_remote w)"
  proof -
    have "if synced x then remote_op x \<in> held E (w_remote w) else op_device x = se_device E" if x: "x \<in> entries (led_db l)" for x
    proof -
      obtain lop where lop: "lop \<in> entries (w_db w)" "x = (if hlc lop \<in> set (map hlc part) then lop\<lparr>synced := True\<rparr> else lop)"
        using x e(1) by (auto simp: l_def)
      have old: "if synced lop then remote_op lop \<in> held E (w_remote w) else op_device lop = se_device E"
        using d(3) lop(1) unfolding log_synced_def by blast
      have "remote_op lop \<in> held E (w_remote w)" if in_part: "hlc lop \<in> hlc ` set part"
      proof -
        obtain y where "y \<in> set part" "hlc lop = hlc y" using in_part by blast
        then have "lop = y" using entry_unique [OF d(7) lop(1)] o(2) unsent_entries(2) by blast
        then show ?thesis using \<open>y \<in> set part\<close> assms(6) by blast
      qed
      then show ?thesis using old lop(2) by auto
    qed
    moreover have "\<forall>op \<in> W. op_device op = se_device E \<longrightarrow> op \<in> logged (led_db l)" using d(3) log by (simp add: log_synced_def)
    ultimately show ?thesis unfolding log_synced_def by blast
  qed
  moreover have "applied_ok E (led_db l) (w_remote w)"
    using d(4) m(5) log by (simp add: applied_ok_def dominated_def l_def)
  moreover have "uploads_ok E (led_db l) (w_remote w)"
    unfolding uploads_ok_def
  proof (intro allI impI)
    fix n s S
    assume a: "object_at E (w_remote w) n (se_device E) s S"
    then have old: "retry_ok (w_db w) s S" using d(5) by (auto simp: uploads_ok_def)
    have False if lop: "lop \<in> unsent (led_db l)" "hlc lop = s" for lop
    proof -
      let ?X = "{lop \<in> unsent (w_db w). hlc lop \<le> s}"
      have l: "lop \<in> unsent (w_db w) - set part" using lop(1) unsent by simp
      have X: "S = remote_op ` ?X" "card (S) \<le> MAX_OPS_PER_BATCH"
        using old l lop(2) by (auto simp: retry_ok_def)
      have inj: "inj_on remote_op ?X" using remote_op_inj [OF d(7)] by (rule inj_on_subset) (auto simp: unsent_def)
      have "hlc x \<le> s" if "x \<in> set part" for x using o(5) [OF l that] lop(2) by simp
      then have "insert lop (set part) \<subseteq> ?X" using o(2) l lop(2) by auto
      moreover have "finite ?X" by (simp add: unsent_def entries_def)
      ultimately have "card (insert lop (set part)) \<le> card ?X" by (intro card_mono)
      moreover have "card ?X \<le> MAX_OPS_PER_BATCH" using X card_image [OF inj] by simp
      moreover have "card (set part) = MAX_OPS_PER_BATCH" using o(7) [OF assms(3) l] .
      ultimately show False using l by simp
    qed
    then show "retry_ok (led_db l) s S" by (auto simp: retry_ok_def)
  qed
  moreover have "ledger_ok W (se_device E) l" using ledger_ok_markSynced [OF d(1)] by (simp add: l_def)
  ultimately show "sync_ok E W (w\<lparr>w_ledger := l\<rparr>)" using d(2) by (simp add: sync_ok_def)
qed

section \<open>Pushing\<close>

definition sealing_ok :: "'b sync_env \<Rightarrow> bool" where
  "sealing_ok E \<longleftrightarrow> (\<forall>n h p b. se_seal E n h p = Inr b \<longrightarrow> se_open E b = Inr (h, p))"

text \<open>An upload keeps the invariant whether it succeeds, fails, or fails after it arrived.\<close>

lemma triple_upload:
  assumes "others_ok E W" and "pending \<noteq> []" and "part = take MAX_OPS_PER_BATCH pending"
    and "se_open E b = Inr (batch_header E (hlc (last part)), BatchPayload (batch_of E part))"
  defines "name \<equiv> opsObjectName (se_vaultId E) (hlc (last part))"
  shows "triple (since E W w0) (\<lambda>w. oldest_first (w_db w) pending \<and> R (w_ledger w))
    (on_remote E (adapter_put name b))
    (\<lambda>_ w. object_at E (w_remote w) name (se_device E) (hlc (last part)) (remote_op ` set part) \<and>
       oldest_first (w_db w) pending \<and> R (w_ledger w))"
proof (rule tripleI)
  fix w r w'
  assume w: "since E W w0 w" and p: "oldest_first (w_db w) pending \<and> R (w_ledger w)"
    and r: "on_remote E (adapter_put name b) w = (r, w')"
  define v where "v = w\<lparr>w_remote := se_others E (w_calls w) (w_remote w), w_calls := Suc (w_calls w)\<rparr>"
  have v: "since E W w0 v" unfolding v_def by (rule since_others [OF w assms(1)])
  have old: "oldest_first (w_db v) pending" using p by (simp add: v_def)
  have "sync_ok E W v" using v by (simp add: since_def)
  note u = sync_ok_upload [OF this old assms(2-4), folded name_def]
  have up: "since E W w0 (v\<lparr>w_remote := tput name b (w_remote v)\<rparr>)"
    using since_trans [OF v u(1)] u(2,4) by simp
  consider "r = Inr ()" "w' = v\<lparr>w_remote := tput name b (w_remote v)\<rparr>"
    | err where "r = Inl err" "w' = v\<lparr>w_remote := tput name b (w_remote v)\<rparr>" | err where "r = Inl err" "w' = v"
    using r by (auto simp: on_remote_def Let_def adapter_put_def v_def split: option.splits if_splits)
  then show "since E W w0 w' \<and> (\<forall>x. r = Inr x \<longrightarrow>
      object_at E (w_remote w') name (se_device E) (hlc (last part)) (remote_op ` set part) \<and> oldest_first (w_db w') pending \<and> R (w_ledger w'))"
    by cases (use up v u(3) p in \<open>simp_all add: since_def v_def\<close>)
qed

lemma triple_push_slice:
  assumes "others_ok E W" and "sealing_ok E" and "\<And>j. plausible (se_now E j)" and "pending \<noteq> []" and "part = take MAX_OPS_PER_BATCH pending"
  shows "triple (since E W w0)
    (\<lambda>w. oldest_first (w_db w) pending \<and> full_batches (w_db w) pending \<and> unsent (w_db w) = U \<and> logged (w_db w) = Lg)
    (push_slice E part) (\<lambda>_ w. unsent (w_db w) = U - set part \<and> logged (w_db w) = Lg)"
proof -
  let ?h = "batch_header E (hlc (last part))" and ?b = "batch_of E part" and ?name = "opsObjectName (se_vaultId E) (hlc (last part))"
  let ?R = "\<lambda>d. oldest_first d pending \<and> full_batches d pending \<and> unsent d = U \<and> logged d = Lg"
  have seal: "triple (since E W w0) (\<lambda>w. ?R (w_db w)) (seal_now E ?h (BatchPayload ?b))
      (\<lambda>b w. se_open E b = Inr (?h, BatchPayload ?b) \<and> ?R (w_db w))"
    using assms(2) by (auto simp: triple_def seal_now_def sealing_ok_def)
  have cong: "oplog d = oplog d' \<Longrightarrow> ?R d = ?R d'" for d d'
    by (simp add: oldest_first_def full_batches_def unsent_def entries_def logged_def)
  have known: "known_here E w ?name" if "object_at E (w_remote w) ?name (se_device E) (hlc (last part)) (remote_op ` set part)" "?R (w_db w)" for w
  proof -
    have "dominated (w_db w) op" if "op \<in> remote_op ` set part" for op
      using oldest_batch(2) [OF _ assms(4,5)] \<open>?R (w_db w)\<close> that unsent_entries(1) logged_dominated_self by fastforce
    moreover have "tget (w_remote w) ?name \<noteq> None" using that(1) by (auto simp: object_at_def)
    ultimately show ?thesis using object_at_unique [OF that(1)] unfolding known_here_def by blast
  qed
  have recorded: "triple (since E W w0) (\<lambda>w. object_at E (w_remote w) ?name (se_device E) (hlc (last part)) (remote_op ` set part) \<and> ?R (w_db w))
      (with_now E (\<lambda>now. on_db (record_objects (now 0) [?name]))) (\<lambda>_ w. object_at E (w_remote w) ?name (se_device E) (hlc (last part)) (remote_op ` set part) \<and> ?R (w_db w))"
  proof (rule triple_with_now [OF _ assms(3)])
    fix now :: "nat \<Rightarrow> nat"
    define F where "F log \<longleftrightarrow> ?R (new_db\<lparr>oplog := log\<rparr>)" for log
    have F: "F (oplog d) \<longleftrightarrow> ?R d" for d
      using cong [of "new_db\<lparr>oplog := oplog d\<rparr>" d] by (simp add: F_def)
    show "triple (since E W w0) (\<lambda>w. object_at E (w_remote w) ?name (se_device E) (hlc (last part)) (remote_op ` set part) \<and> ?R (w_db w))
      (on_db (record_objects (now 0) [?name])) (\<lambda>_ w. object_at E (w_remote w) ?name (se_device E) (hlc (last part)) (remote_op ` set part) \<and> ?R (w_db w))"
      by (rule triple_weaken [OF triple_record [where K = "{}" and R = "\<lambda>t log. object_at E t ?name (se_device E) (hlc (last part)) (remote_op ` set part) \<and> F log"]])
        (use known in \<open>simp_all add: F\<close>)
  qed
  have mark: "triple (since E W w0) (\<lambda>w. object_at E (w_remote w) ?name (se_device E) (hlc (last part)) (remote_op ` set part) \<and> ?R (w_db w))
      (on_db (markSynced (map hlc part))) (\<lambda>_ w. unsent (w_db w) = U - set part \<and> logged (w_db w) = Lg)"
  proof (rule tripleI)
    fix w r w'
    assume w: "since E W w0 w" and p: "object_at E (w_remote w) ?name (se_device E) (hlc (last part)) (remote_op ` set part) \<and> ?R (w_db w)"
      and r: "on_db (markSynced (map hlc part)) w = (r, w')"
    have "remote_op ` set part \<subseteq> held E (w_remote w)" using p unfolding held_def by blast
    moreover have "sync_ok E W w" using w by (simp add: since_def)
    moreover have "w' = w\<lparr>w_ledger := (w_ledger w)\<lparr>led_db := markSynced (map hlc part) (w_db w)\<rparr>\<rparr>" using r by (simp add: on_db_def)
    ultimately have m: "sync_ok E W w'" "unsent (w_db w') = unsent (w_db w) - set part" "logged (w_db w') = logged (w_db w)"
      using sync_ok_mark [of E W w pending part] p assms(4,5) by simp_all
    moreover have "w_remote w' = w_remote w" using r by (auto simp: on_db_def)
    ultimately show "since E W w0 w' \<and> (\<forall>x. r = Inr x \<longrightarrow> unsent (w_db w') = U - set part \<and> logged (w_db w') = Lg)"
      using since_trans [OF w m(1)] p by (auto simp: keeps_objects_refl dest: object_at_present)
  qed
  have up: "triple (since E W w0) (\<lambda>w. se_open E b = Inr (?h, BatchPayload ?b) \<and> ?R (w_db w)) (on_remote E (adapter_put ?name b))
      (\<lambda>_ w. object_at E (w_remote w) ?name (se_device E) (hlc (last part)) (remote_op ` set part) \<and> ?R (w_db w))" for b
  proof (rule triple_pure)
    assume o: "se_open E b = Inr (?h, BatchPayload ?b)"
    show "triple (since E W w0) (\<lambda>w. se_open E b = Inr (?h, BatchPayload ?b) \<and> ?R (w_db w)) (on_remote E (adapter_put ?name b))
      (\<lambda>_ w. object_at E (w_remote w) ?name (se_device E) (hlc (last part)) (remote_op ` set part) \<and> ?R (w_db w))"
      by (rule triple_weaken [OF triple_upload [OF assms(1,4,5) o, where R = "\<lambda>l. ?R (led_db l)"]]) auto
  qed simp
  show ?thesis unfolding push_slice_def Let_def batch_header_def [symmetric] batch_of_def [symmetric]
    by (intro triple_andThen [OF seal] triple_andThen [OF up] triple_andThen [OF recorded] mark)
qed

lemma triple_push_loop:
  assumes "others_ok E W" and "sealing_ok E" and "\<And>j. plausible (se_now E j)"
  shows "triple (since E W w0)
    (\<lambda>w. oldest_first (w_db w) pending \<and> full_batches (w_db w) pending \<and> unsent (w_db w) = U \<and> logged (w_db w) = Lg)
    (push_loop E pending n) (\<lambda>_ w. unsent (w_db w) = U - set pending \<and> logged (w_db w) = Lg)"
proof (induction "length pending" arbitrary: pending n U rule: less_induct)
  case less
  let ?part = "take MAX_OPS_PER_BATCH pending" and ?rest = "drop MAX_OPS_PER_BATCH pending"
  show ?case
  proof (cases "pending = []")
    case True
    then show ?thesis by (auto simp: triple_def push_loop.simps)
  next
    case False
    have rest: "oldest_first d ?rest" "full_batches d ?rest"
      if p: "oldest_first d' pending" "full_batches d' pending" "unsent d = unsent d' - set ?part" for d d'
    proof -
      have s: "sorted_wrt (<) (map hlc ?part @ map hlc ?rest)" using p(1) by (metis append_take_drop_id map_append oldest_first_def)
      then have disj: "x \<notin> set ?part" if "x \<in> set ?rest" for x using that by (fastforce simp: sorted_wrt_append)
      have sets: "set pending = set ?part \<union> set ?rest" by (metis append_take_drop_id set_append)
      show "oldest_first d ?rest"
        using p(1,3) s sets disj unfolding oldest_first_def sorted_wrt_append by blast
      have "MAX_OPS_PER_BATCH dvd length pending \<Longrightarrow> MAX_OPS_PER_BATCH dvd length ?rest" by (simp add: dvd_diff_nat)
      then show "full_batches d ?rest" using p(2,3) sets disj unfolding full_batches_def by blast
    qed
    have loop: "push_loop E pending n = andThen (push_slice E ?part) (\<lambda>_. push_loop E ?rest (n + length ?part))"
      using False by (intro ext) (simp add: push_loop.simps [of E pending n] andThen_def split: prod.split sum.split)
    have part: "triple (since E W w0)
        (\<lambda>w. oldest_first (w_db w) pending \<and> full_batches (w_db w) pending \<and> unsent (w_db w) = U \<and> logged (w_db w) = Lg)
        (push_slice E ?part) (\<lambda>_ w. oldest_first (w_db w) ?rest \<and> full_batches (w_db w) ?rest \<and> unsent (w_db w) = U - set ?part \<and> logged (w_db w) = Lg)"
    proof (rule tripleI)
      fix w r w'
      assume w: "since E W w0 w" and p: "oldest_first (w_db w) pending \<and> full_batches (w_db w) pending \<and> unsent (w_db w) = U \<and> logged (w_db w) = Lg"
        and r: "push_slice E ?part w = (r, w')"
      from tripleD [OF triple_push_slice [OF assms False refl] w p r] rest [of "w_db w" "w_db w'"] p
      show "since E W w0 w' \<and> (\<forall>x. r = Inr x \<longrightarrow> oldest_first (w_db w') ?rest \<and> full_batches (w_db w') ?rest \<and>
          unsent (w_db w') = U - set ?part \<and> logged (w_db w') = Lg)" by simp
    qed
    have "set pending = set ?part \<union> set ?rest" by (metis append_take_drop_id set_append)
    then have "U - set ?part - set ?rest = U - set pending" by blast
    then show ?thesis unfolding loop using less [of ?rest "U - set ?part"] False
      by (intro triple_andThen [OF part]) (simp add: MAX_OPS_PER_BATCH_def)
  qed
qed

section \<open>The cycle\<close>

text \<open>A vault with a history too short for a snapshot.\<close>

definition short_history :: "Operation set \<Rightarrow> bool" where
  "short_history W \<longleftrightarrow> finite W \<and> card W < SNAPSHOT_AFTER_OPERATIONS"

lemma short_log:
  assumes "db_ok W d" and "short_history W"
  shows "length (oplog d) < SNAPSHOT_AFTER_OPERATIONS" "card (unsent d) \<le> PENDING_LIMIT"
proof -
  have "distinct (oplog d)" using db_okD(2) [OF assms(1)] table_distinct distinct_map by (auto simp: log_ok_def)
  moreover have "inj_on snd (set (oplog d))" using log_ok_mem [OF db_okD(2) [OF assms(1)]] by (intro inj_onI) (metis prod.collapse)
  ultimately have "length (oplog d) = card (entries d)" by (simp add: entries_def card_image distinct_card)
  also have "\<dots> = card (logged d)" using remote_op_inj [OF db_okD(2) [OF assms(1)]] by (simp add: logged_entries card_image)
  also have "\<dots> \<le> card W" using db_okD(3) [OF assms(1)] assms(2) by (intro card_mono) (simp_all add: short_history_def)
  finally show short: "length (oplog d) < SNAPSHOT_AFTER_OPERATIONS" using assms(2) by (simp add: short_history_def)
  have "card (unsent d) \<le> card (entries d)" by (intro card_mono) (auto simp: unsent_def entries_def)
  then show "card (unsent d) \<le> PENDING_LIMIT"
    using short \<open>length (oplog d) = card (entries d)\<close> by (simp add: PENDING_LIMIT_def SNAPSHOT_AFTER_OPERATIONS_def)
qed

lemma no_snapshot_due:
  assumes "db_ok W (w_db w)" and "short_history W"
  shows "maybeSnapshot E w = (Inr (), w)"
proof -
  have "length (filter P (toArray (oplog (w_db w)))) < SNAPSHOT_AFTER_OPERATIONS" for P
  proof -
    have "length (filter P (toArray (oplog (w_db w)))) \<le> length (oplog (w_db w))"
      using length_filter_le [of P "toArray (oplog (w_db w))"] unfolding toArray_def length_map .
    then show ?thesis using short_log(1) [OF assms] by simp
  qed
  then show ?thesis by (simp add: maybeSnapshot_def Let_def)
qed

lemma triple_push:
  assumes "others_ok E W" and "sealing_ok E" and "\<And>j. plausible (se_now E j)" and "short_history W"
  shows "triple (since E W w0) (\<lambda>w. logged (w_db w) = Lg) (push E) (\<lambda>_ w. unsent (w_db w) = {} \<and> logged (w_db w) = Lg)"
proof (rule tripleI)
  fix w r w'
  assume w: "since E W w0 w" and p: "logged (w_db w) = Lg" and r: "push E w = (r, w')"
  have ok: "db_ok W (w_db w)" "log_ok (w_db w)" using w by (auto simp: since_def dest: sync_okD)
  define P where "P = pendingOperations PENDING_LIMIT (w_db w)"
  note o = pending_oldest [OF ok(2) P_def]
  have all: "set P = unsent (w_db w)" using o(3) short_log(2) [OF ok(1) assms(4)] .
  from tripleD [OF triple_push_loop [OF assms(1-3)] w, of P "unsent (w_db w)" Lg 0 r w'] o(1,2) p r all
  show "since E W w0 w' \<and> (\<forall>x. r = Inr x \<longrightarrow> unsent (w_db w') = {} \<and> logged (w_db w') = Lg)"
    by (simp add: push_def P_def)
qed

lemma triple_cycle:
  assumes "others_ok E W" and "sealing_ok E" and "\<And>j. plausible (se_now E j)" and "short_history W"
  shows "triple (since E W w0) (\<lambda>_. True) (cycle E target) (\<lambda>_ w. caught_up E w0 w \<and> unsent (w_db w) = {})"
proof -
  let ?D = "\<lambda>w. caught_up E w0 w \<and> unsent (w_db w) = {}"
  have cong: "?D w = ?D w'" if "oplog (w_db w) = oplog (w_db w')" for w w' :: "'a world"
    using that by (simp add: caught_up_def dominated_def logged_def unsent_def entries_def)
  have pushed: "triple (since E W w0) (caught_up E w0) (push E) (\<lambda>_. ?D)"
  proof (rule tripleI)
    fix w r w'
    assume w: "since E W w0 w" "caught_up E w0 w" "push E w = (r, w')"
    from tripleD [OF triple_push [OF assms] w(1) refl w(3)] w(2)
    show "since E W w0 w' \<and> (\<forall>x. r = Inr x \<longrightarrow> ?D w')" by (auto simp: caught_up_def dominated_def)
  qed
  have snapshot: "triple (since E W w0) ?D (maybeSnapshot E) (\<lambda>_. ?D)"
  proof (rule tripleI)
    fix w r w'
    assume w: "since E W w0 w" "?D w" "maybeSnapshot E w = (r, w')"
    have "db_ok W (w_db w)" using w(1) by (auto simp: since_def dest: sync_okD)
    with w show "since E W w0 w' \<and> (\<forall>x. r = Inr x \<longrightarrow> ?D w')" using no_snapshot_due [OF _ assms(4), of w E] by simp
  qed
  have flushed: "triple (since E W w0) ?D (on_remote E adapter_flush) (\<lambda>_. ?D)"
    by (rule triple_read [OF assms(1)]) (simp_all add: adapter_flush_def caught_up_def)
  have stamped: "triple (since E W w0) ?D (with_now E (\<lambda>now. andThen (on_db (set_meta LAST_SYNC_KEY (MetaNumber (int (now 0)))))
      (\<lambda>_. return (a, b, now 0)))) (\<lambda>_. ?D)" for a b :: nat
  proof (rule triple_with_now [OF _ assms(3)], rule triple_andThen)
    fix now :: "nat \<Rightarrow> nat"
    define F where "F log \<longleftrightarrow> ?D \<lparr>w_ledger = \<lparr>led_db = new_db\<lparr>oplog := log\<rparr>, led_clock = None\<rparr>, w_remote = [] :: 'a tbl, w_calls = 0\<rparr>" for log
    have F: "F (oplog (w_db w)) \<longleftrightarrow> ?D w" for w :: "'a world" unfolding F_def by (rule cong) simp
    show "triple (since E W w0) ?D (on_db (set_meta LAST_SYNC_KEY (MetaNumber (int (now 0))))) (\<lambda>_. ?D)"
      by (rule triple_weaken [OF triple_set_meta [where R = "\<lambda>_ log _. F log"]])
        (simp_all add: F, simp add: LAST_SYNC_KEY_def CLOCK_STATE_KEY_def)
    show "triple (since E W w0) ?D (return (a, b, now 0)) (\<lambda>_. ?D)" by blast
  qed
  have body: "triple (since E W w0) (\<lambda>_. True)
      (andThen (pull E) (\<lambda>pulled. andThen (push E) (\<lambda>pushed. andThen (maybeSnapshot E) (\<lambda>_.
       andThen (on_remote E adapter_flush) (\<lambda>_. with_now E (\<lambda>now. andThen (on_db (set_meta LAST_SYNC_KEY (MetaNumber (int (now 0)))))
         (\<lambda>_. return (pulled, pushed, now 0)))))))) (\<lambda>_. ?D)"
    by (intro triple_andThen [OF triple_pull [OF assms(1,3)]] triple_andThen [OF pushed] triple_andThen [OF snapshot]
        triple_andThen [OF flushed] stamped)
  show ?thesis
  proof (cases "case target of None \<Rightarrow> Inr () | Some t \<Rightarrow> createAdapter t")
    case (Inl err)
    then show ?thesis by (auto simp: triple_def cycle_def)
  next
    case (Inr u)
    then have "cycle E target = (andThen (pull E) (\<lambda>pulled. andThen (push E) (\<lambda>pushed. andThen (maybeSnapshot E) (\<lambda>_.
       andThen (on_remote E adapter_flush) (\<lambda>_. with_now E (\<lambda>now. andThen (on_db (set_meta LAST_SYNC_KEY (MetaNumber (int (now 0)))))
         (\<lambda>_. return (pulled, pushed, now 0))))))))"
      by (intro ext) (simp add: cycle_def)
    then show ?thesis using body by simp
  qed
qed

end
