(* ===== verification/Sync_Convergence.thy ===== *)
theory Sync_Convergence
  imports Sync_Push
begin

text \<open>
  The devices of a vault around one destination. Devices write, restart and sync in any order; a sync
  may be cut short by any fault. As long as the history is too short for snapshots, every device
  keeps the sync invariant, nothing that was marked as sent is ever lost, and once every device has
  completed two rounds of syncing all of them show the same tables.
\<close>

section \<open>What an environment contributes\<close>

text \<open>An environment of the device \<open>dev\<close> in the vault \<open>V\<close>, whose objects \<open>opn\<close> opens; the other
  devices wait.\<close>

definition env_ok :: "('b \<Rightarrow> (EnvelopeHeader \<times> payload) result) \<Rightarrow> string \<Rightarrow> string \<Rightarrow> 'b sync_env \<Rightarrow> bool" where
  "env_ok opn V dev E \<longleftrightarrow>
     se_open E = opn \<and> se_vaultId E = V \<and> se_device E = dev \<and> sealing_ok E \<and> alone E \<and> (\<forall>j. plausible (se_now E j))"

definition base_env :: "('b \<Rightarrow> (EnvelopeHeader \<times> payload) result) \<Rightarrow> string \<Rightarrow> string \<Rightarrow> 'b sync_env" where
  "base_env opn V dev = \<lparr>se_seal = (\<lambda>_ _ _. Inl TypeError), se_open = opn, se_vaultId = V, se_device = dev, se_now = (\<lambda>_. 0),
     se_fault = (\<lambda>_. None), se_others = (\<lambda>_ t. t), se_message = (\<lambda>_. [])\<rparr>"

lemma object_at_cong: "se_open E = se_open E' \<Longrightarrow> se_vaultId E = se_vaultId E' \<Longrightarrow> object_at E = object_at E'"
  by (simp add: object_at_def fun_eq_iff)

lemma held_cong: "se_open E = se_open E' \<Longrightarrow> se_vaultId E = se_vaultId E' \<Longrightarrow> held E = held E'"
  using object_at_cong [of E E'] by (simp add: held_def fun_eq_iff)

lemma sync_ok_cong:
  assumes "se_open E = se_open E'" and "se_vaultId E = se_vaultId E'" and "se_device E = se_device E'"
    and "w_ledger w = w_ledger w'" and "w_remote w = w_remote w'"
  shows "sync_ok E W w \<longleftrightarrow> sync_ok E' W w'"
  using assms object_at_cong [OF assms(1,2)] held_cong [OF assms(1,2)]
  by (simp add: sync_ok_def remote_ok_def log_synced_def applied_ok_def uploads_ok_def)

section \<open>The vault and its destination\<close>

type_synonym 'b net = "vault \<times> 'b tbl"

definition world_of :: "'b net \<Rightarrow> string \<Rightarrow> nat \<Rightarrow> 'b world" where
  "world_of s dev n = \<lparr>w_ledger = fst s dev, w_remote = snd s, w_calls = n\<rparr>"

definition put_world :: "'b net \<Rightarrow> string \<Rightarrow> 'b world \<Rightarrow> 'b net" where
  "put_world s dev w = ((fst s)(dev := w_ledger w), w_remote w)"

inductive net_step :: "string set \<Rightarrow> ('b \<Rightarrow> (EnvelopeHeader \<times> payload) result) \<Rightarrow> string \<Rightarrow> 'b net \<Rightarrow> 'b net \<Rightarrow> bool"
  for D opn V where
  wrote: "\<lbrakk>dev \<in> D; plausible wall; entity_of v = e; put wall e v (L dev) = (r, l')\<rbrakk> \<Longrightarrow> net_step D opn V (L, t) (L(dev := l'), t)"
| deleted: "\<lbrakk>dev \<in> D; plausible wall; remove wall e i (L dev) = (r, l')\<rbrakk> \<Longrightarrow> net_step D opn V (L, t) (L(dev := l'), t)"
| restarted: "dev \<in> D \<Longrightarrow> net_step D opn V (L, t) (L(dev := initialise dev (L dev)), t)"
| synced: "\<lbrakk>dev \<in> D; env_ok opn V dev E; short_history (issued D (fst s));
    runCycle E unlocked target status (world_of s dev n) = (status', w')\<rbrakk> \<Longrightarrow> net_step D opn V s (put_world s dev w')"

inductive net_reachable :: "string set \<Rightarrow> ('b \<Rightarrow> (EnvelopeHeader \<times> payload) result) \<Rightarrow> string \<Rightarrow> 'b net \<Rightarrow> bool"
  for D opn V where
  start: "net_reachable D opn V (new_ledger, [])"
| step: "net_reachable D opn V s \<Longrightarrow> net_step D opn V s s' \<Longrightarrow> net_reachable D opn V s'"

definition net_ok :: "string set \<Rightarrow> ('b \<Rightarrow> (EnvelopeHeader \<times> payload) result) \<Rightarrow> string \<Rightarrow> 'b net \<Rightarrow> bool" where
  "net_ok D opn V s \<longleftrightarrow> (\<forall>dev \<in> D. sync_ok (base_env opn V dev) (issued D (fst s)) (world_of s dev 0))"

lemma net_okD:
  assumes "net_ok D opn V s" and "dev \<in> D" and "env_ok opn V dev E"
  shows "sync_ok E (issued D (fst s)) (world_of s dev n)"
  using assms sync_ok_cong [of E "base_env opn V dev" "world_of s dev n" "world_of s dev 0"]
  by (auto simp: net_ok_def env_ok_def base_env_def world_of_def)

section \<open>Local writes\<close>

lemma batch_ok_mono: "batch_ok W V name a s ops \<Longrightarrow> W \<subseteq> W' \<Longrightarrow> batch_ok W' V name a s ops"
  by (auto simp: batch_ok_def)

lemma remote_ok_mono: "remote_ok E W t \<Longrightarrow> W \<subseteq> W' \<Longrightarrow> remote_ok E W' t"
  using batch_ok_mono unfolding remote_ok_def by metis

lemma sync_ok_extend:
  assumes "sync_ok E W w" and "history (insert op W)" and "op_device op \<noteq> se_device E"
  shows "sync_ok E (insert op W) w"
  using assms ledger_ok_extend [OF _ assms(2,3)] remote_ok_mono [OF _ subset_insertI]
  unfolding sync_ok_def log_synced_def by blast

text \<open>A write of this device leaves one more unsent operation, newer than all others.\<close>

lemma sync_ok_write:
  assumes "sync_ok E W w" and "led_clock (w_ledger w) = Some clk" and "wall < 10 ^ 19"
    and "tick wall clk = (Inr (hlc lop), clk')" and "op_device lop = clk_device clk'" and "\<not> synced lop"
    and "op_kind lop = Put \<longrightarrow> (\<exists>v. op_value lop = Some v \<and> entity_of v = entity lop \<and> entity_id v = entityId lop)"
  shows "sync_ok E (insert (remote_op lop) W) (w\<lparr>w_ledger := logged_write clk' lop (w_ledger w)\<rparr>)"
proof -
  note d = sync_okD [OF assms(1)]
  let ?l = "logged_write clk' lop (w_ledger w)" and ?W = "insert (remote_op lop) W"
  note lw = logged_write_ok [OF d(1) assms(2-5,7)]
  have dev: "clk_device clk = se_device E" "clock_covers W (w_db w) clk" using d(1) assms(2) by (auto simp: ledger_ok_def)
  note fresh = tick_fresh [OF d(6) dev(2) assms(3,4)]
  have mine: "op_device lop = se_device E" using assms(5) fresh(3) dev(1) by simp
  have none: "tget (oplog (w_db w)) (hlc lop) = None"
  proof (rule ccontr)
    assume "tget (oplog (w_db w)) (hlc lop) \<noteq> None"
    then obtain old where "tget (oplog (w_db w)) (hlc lop) = Some old" by blast
    then have "(hlc lop, old) \<in> set (oplog (w_db w))" using d(7) by (simp add: log_ok_def tget_mem)
    then have "remote_op old \<in> logged (w_db w)" "hlc old = hlc lop" using log_ok_mem [OF d(7)] by (force simp: logged_def)+
    with fresh(5) show False by fastforce
  qed
  have log: "oplog (led_db ?l) = oplog (oplog_put lop (w_db w))" "remoteObjects (led_db ?l) = remoteObjects (w_db w)"
    by (simp_all add: logged_write_def persistClock_def oplog_put_def write_row_def table_put_def table_delete_def split: option.split)
  have ent: "entries (led_db ?l) = insert lop (entries (w_db w))" "unsent (led_db ?l) = insert lop (unsent (w_db w))"
    using entries_put_new [OF d(7) none] entries_cong [OF log(1)] assms(6) by (auto simp: unsent_def)
  have logged: "logged (led_db ?l) = insert (remote_op lop) (logged (w_db w))" using ent(1) by (simp add: logged_entries)
  have "log_synced E ?W (led_db ?l) (w_remote w)"
    using d(3) mine assms(6) by (auto simp: log_synced_def ent logged)
  moreover have "applied_ok E (led_db ?l) (w_remote w)"
    using d(4) dominated_mono [of "w_db w" _ "led_db ?l"] logged unfolding applied_ok_def log(2) by blast
  moreover have "uploads_ok E (led_db ?l) (w_remote w)"
    unfolding uploads_ok_def
  proof (intro allI impI)
    fix name s S
    assume o: "object_at E (w_remote w) name (se_device E) s S"
    then have old: "retry_ok (w_db w) s S" using d(5) by (auto simp: uploads_ok_def)
    obtain op where op: "op \<in> S" "hlc op = s" "op \<in> W" "op_device op = se_device E"
      using object_at_ok [OF d(2) o] by (auto simp: batch_ok_def)
    have less: "s < hlc lop" using fresh(6) [OF op(3)] op(2,4) dev(1) by simp
    then have "{x \<in> insert lop (unsent (w_db w)). hlc x \<le> s} = {x \<in> unsent (w_db w). hlc x \<le> s}" by auto
    then show "retry_ok (led_db ?l) s S" using old less unfolding retry_ok_def ent by auto
  qed
  moreover have "ledger_ok ?W (se_device E) ?l" using lw(1) by simp
  ultimately show ?thesis using remote_ok_mono [OF d(2) subset_insertI] by (simp add: sync_ok_def)
qed

lemma net_ok_write:
  assumes "net_ok D opn V s" and "dev \<in> D" and "led_clock (fst s dev) = Some clk" and "wall < 10 ^ 19"
    and "tick wall clk = (Inr (hlc lop), clk')" and "op_device lop = clk_device clk'" and "\<not> synced lop"
    and "op_kind lop = Put \<longrightarrow> (\<exists>v. op_value lop = Some v \<and> entity_of v = entity lop \<and> entity_id v = entityId lop)"
  shows "net_ok D opn V ((fst s)(dev := logged_write clk' lop (fst s dev)), snd s)"
proof -
  let ?W = "issued D (fst s)" and ?op = "remote_op lop" and ?l = "logged_write clk' lop (fst s dev)"
  let ?E = "base_env opn V"
  have ok: "sync_ok (?E dev) ?W (world_of s dev 0)" using assms(1,2) by (simp add: net_ok_def)
  have led: "ledger_ok ?W dev (fst s dev)" using sync_okD(1) [OF ok] by (simp add: world_of_def base_env_def)
  have w: "sync_ok (?E dev) (insert ?op ?W) ((world_of s dev 0)\<lparr>w_ledger := ?l\<rparr>)"
    using sync_ok_write [OF ok _ assms(4-7)] assms(3,8) by (simp add: world_of_def)
  note lw = logged_write_ok [OF led assms(3-6,8)]
  have new: "issued D ((fst s)(dev := ?l)) = insert ?op ?W" using issued_insert [of dev D ?l ?op "fst s"] assms(2) lw(4) by simp
  have hist: "history (insert ?op ?W)" using sync_okD(6) [OF w] by (simp add: db_ok_def)
  have "op_device ?op = dev" using led assms(3,6) tick_reading [OF assms(5)] by (auto simp: ledger_ok_def)
  then have "sync_ok (?E dev') (insert ?op ?W) (world_of s dev' 0)" if "dev' \<in> D" "dev' \<noteq> dev" for dev'
    using sync_ok_extend [OF _ hist, of "?E dev'"] assms(1) that by (simp add: net_ok_def base_env_def)
  then show ?thesis using w by (auto simp: net_ok_def new world_of_def)
qed

section \<open>Cycles\<close>

lemma runCycle_since:
  assumes "sync_ok E W w" and "others_ok E W" and "sealing_ok E" and "\<And>j. plausible (se_now E j)" and "short_history W"
    and "runCycle E unlocked target status w = (status', w')"
  shows "since E W w w'" "cycle E target w = (Inr x, w') \<Longrightarrow> caught_up E w w' \<and> unsent (w_db w') = {}"
proof -
  note t = tripleD [OF triple_cycle [OF assms(2-5)] since_start [OF assms(1)] TrueI]
  obtain r v where c: "cycle E target w = (r, v)" by fastforce
  then have "w' = (if unlocked then v else w)"
    using assms(6) by (auto simp: runCycle_def Let_def split: sum.splits if_splits)
  then show "since E W w w'" using t [OF c] since_start [OF assms(1)] by simp
  show "cycle E target w = (Inr x, w') \<Longrightarrow> caught_up E w w' \<and> unsent (w_db w') = {}" using t by blast
qed

lemma net_ok_since:
  assumes "net_ok D opn V s" and "dev \<in> D" and "env_ok opn V dev E" and "since E (issued D (fst s)) (world_of s dev n) w'"
  shows "net_ok D opn V (put_world s dev w')" "issued D (fst (put_world s dev w')) = issued D (fst s)"
proof -
  let ?W = "issued D (fst s)"
  have w': "sync_ok E ?W w'" using assms(4) by (simp add: since_def)
  have same: "issued D ((fst s)(dev := w_ledger w')) = ?W"
  proof (rule issued_same [OF assms(2)])
    show "logged (led_db (fst s dev)) \<subseteq> logged (w_db w')" using assms(4) by (simp add: since_def world_of_def)
    show "logged (w_db w') \<subseteq> ?W" using db_okD(3) [OF sync_okD(6) [OF w']] .
  qed
  then show "issued D (fst (put_world s dev w')) = ?W" by (simp add: put_world_def)
  have "sync_ok (base_env opn V dev') ?W (world_of (put_world s dev w') dev' 0)" if dev': "dev' \<in> D" for dev'
  proof (cases "dev' = dev")
    case True
    then show ?thesis
      using w' assms(3) sync_ok_cong [of "base_env opn V dev'" E "world_of (put_world s dev w') dev' 0" w']
      by (simp add: env_ok_def base_env_def world_of_def put_world_def)
  next
    case False
    let ?E = "base_env opn V dev'"
    have env: "se_open ?E = se_open E" "se_vaultId ?E = se_vaultId E" "se_device ?E = dev'" "se_device E = dev" "alone E"
      using assms(3) by (simp_all add: env_ok_def base_env_def)
    note at = object_at_cong [OF env(1,2)]
    have "keeps_objects ?E (snd s) (w_remote w')" using assms(4) by (simp add: since_def keeps_objects_def at world_of_def)
    moreover have "none_of_mine ?E (snd s) (w_remote w')"
      unfolding none_of_mine_def at env(3)
    proof (intro allI impI notI)
      fix name h ops
      assume "object_at E (w_remote w') name dev' h ops" "tget (snd s) name = None"
      with assms(4) env(5) have "dev' = se_device E" unfolding since_def world_of_def by fastforce
      with False env(4) show False by simp
    qed
    moreover have "remote_ok ?E ?W (w_remote w')" using sync_okD(2) [OF w'] env by (simp add: remote_ok_def)
    ultimately have "sync_ok ?E ?W ((world_of s dev' 0)\<lparr>w_remote := w_remote w', w_calls := 0\<rparr>)"
      using sync_ok_remote [of ?E ?W "world_of s dev' 0" "w_remote w'" 0] assms(1) dev' by (simp add: net_ok_def world_of_def)
    then show ?thesis using False by (simp add: world_of_def put_world_def)
  qed
  then show "net_ok D opn V (put_world s dev w')" using same by (simp add: net_ok_def put_world_def)
qed

lemma net_step_ok:
  assumes "net_step D opn V s s'" and "net_ok D opn V s"
  shows "net_ok D opn V s'"
  using assms(1)
proof cases
  case (wrote dev wall v e L r l' t)
  have led: "ledger_ok (issued D L) dev (L dev)"
    using assms(2) wrote by (auto simp: net_ok_def world_of_def base_env_def dest!: bspec sync_okD(1))
  then obtain clk where clk: "led_clock (L dev) = Some clk" by (rule ledger_okE)
  have wall: "wall < 10 ^ 19" using wrote(4) by (rule plausible_wall)
  show ?thesis
  proof (cases r)
    case (Inl err)
    with wrote put_error assms(2) show ?thesis by (metis fun_upd_triv)
  next
    case (Inr v')
    with wrote(6) have p: "put wall e v (L dev) = (Inr v', l')" by simp
    from put_Inr [OF clk p] obtain stamp clk' where t: "tick wall clk = (Inr stamp, clk')" "v' = with_updatedAt stamp v"
      "l' = logged_write clk' \<lparr>hlc = stamp, entity = e, entityId = entity_id v, op_kind = Put,
       op_value = Some v', op_device = clk_device clk', synced = False\<rparr> (L dev)" .
    show ?thesis unfolding wrote(2) t(3)
      using net_ok_write [OF assms(2) wrote(3) _ wall, unfolded wrote(1) fst_conv snd_conv, OF clk] t(1,2) wrote(5) by simp
  qed
next
  case (deleted dev wall e i L r l' t)
  have led: "ledger_ok (issued D L) dev (L dev)"
    using assms(2) deleted by (auto simp: net_ok_def world_of_def base_env_def dest!: bspec sync_okD(1))
  then obtain clk where clk: "led_clock (L dev) = Some clk" by (rule ledger_okE)
  have wall: "wall < 10 ^ 19" using deleted(4) by (rule plausible_wall)
  show ?thesis
  proof (cases r)
    case (Inl err)
    with deleted remove_error assms(2) show ?thesis by (metis fun_upd_triv)
  next
    case (Inr u)
    with deleted(5) have p: "remove wall e i (L dev) = (Inr u, l')" by simp
    from remove_Inr [OF clk p] obtain stamp clk' where t: "tick wall clk = (Inr stamp, clk')"
      "l' = logged_write clk' \<lparr>hlc = stamp, entity = e, entityId = i, op_kind = Delete,
       op_value = None, op_device = clk_device clk', synced = False\<rparr> (L dev)" .
    show ?thesis unfolding deleted(2) t(2)
      using net_ok_write [OF assms(2) deleted(3) _ wall, unfolded deleted(1) fst_conv snd_conv, OF clk] t(1) by simp
  qed
next
  case (restarted dev L t)
  let ?E = "base_env opn V dev" and ?w = "world_of s dev 0"
  have ok: "sync_ok ?E (issued D L) ?w" using assms(2) restarted by (simp add: net_ok_def)
  have "since ?E (issued D L) ?w (?w\<lparr>w_ledger := initialise dev (L dev)\<rparr>)"
    by (rule since_ledger [OF since_start [OF ok]])
      (use restart_ok [of "issued D L" dev "L dev"] sync_okD(1) [OF ok] restarted(1) in
        \<open>simp_all add: initialise_def world_of_def base_env_def\<close>)
  moreover have "env_ok opn V dev ?E"
    by (simp add: env_ok_def base_env_def sealing_ok_def alone_def plausible_def PHYSICAL_WIDTH_def MAX_DRIFT_MS_def)
  ultimately show ?thesis
    using net_ok_since(1) [OF assms(2) restarted(3), of ?E 0 "?w\<lparr>w_ledger := initialise dev (L dev)\<rparr>"] restarted(1,2)
    by (simp add: put_world_def world_of_def)
next
  case (synced dev E unlocked target status n status' w')
  have env: "others_ok E W" "sealing_ok E" "plausible (se_now E j)" for W j
    using synced(3) alone_others_ok by (auto simp: env_ok_def)
  from runCycle_since(1) [OF net_okD [OF assms(2) synced(2,3)] env synced(4,5)]
  show ?thesis unfolding synced(1) by (rule net_ok_since(1) [OF assms(2) synced(2,3)])
qed

lemma net_reachable_ok:
  assumes "net_reachable D opn V s" and "\<forall>dev \<in> D. device_ok dev"
  shows "net_ok D opn V s"
  using assms(1)
proof induction
  case start
  have none: "issued D new_ledger = {}" by (simp add: issued_def new_ledger_def initialise_def new_db_def logged_def)
  have "oplog (led_db (new_ledger dev)) = []" "remoteObjects (led_db (new_ledger dev)) = []" for dev
    by (simp_all add: new_ledger_def initialise_def new_db_def)
  then show ?case using assms(2) new_ledger_ok none
    by (auto simp: net_ok_def sync_ok_def world_of_def base_env_def remote_ok_def log_synced_def applied_ok_def uploads_ok_def
        object_at_def entries_def primaryKeys_def)
next
  case (step s s')
  then show ?case by (blast intro: net_step_ok)
qed

section \<open>Rounds\<close>

text \<open>Every device of the list syncs once, in order, without an error.\<close>

fun sync_round :: "(string \<Rightarrow> 'b sync_env) \<Rightarrow> string list \<Rightarrow> 'b net \<Rightarrow> 'b net option" where
  "sync_round Es [] s = Some s"
| "sync_round Es (dev # devs) s =
     (case cycle (Es dev) None (world_of s dev 0) of
        (Inl _, _) \<Rightarrow> None
      | (Inr _, w) \<Rightarrow> sync_round Es devs (put_world s dev w))"

definition stored :: "('b \<Rightarrow> (EnvelopeHeader \<times> payload) result) \<Rightarrow> string \<Rightarrow> 'b tbl \<Rightarrow> Operation set" where
  "stored opn V t = held (base_env opn V []) t"

lemma held_stored: "env_ok opn V dev E \<Longrightarrow> held E t = stored opn V t"
  using held_cong [of E "base_env opn V []"] by (simp add: stored_def env_ok_def base_env_def)

text \<open>One error-free cycle: what the destination held is here, what is here is in the destination,
  and a device with nothing to send adds nothing.\<close>

lemma cycle_effect:
  assumes "net_ok D opn V s" and "dev \<in> D" and "env_ok opn V dev E" and "short_history (issued D (fst s))"
    and "cycle E target (world_of s dev n) = (Inr x, w)"
  shows "net_ok D opn V (put_world s dev w)" "issued D (fst (put_world s dev w)) = issued D (fst s)"
    "unsent (w_db w) = {}" "logged (w_db w) \<subseteq> stored opn V (w_remote w)" "stored opn V (snd s) \<subseteq> stored opn V (w_remote w)"
    "op \<in> stored opn V (snd s) \<Longrightarrow> dominated (w_db w) op"
    "unsent (led_db (fst s dev)) = {} \<Longrightarrow> stored opn V (w_remote w) = stored opn V (snd s)"
proof -
  let ?W = "issued D (fst s)" and ?w = "world_of s dev n"
  have env: "others_ok E ?W" "sealing_ok E" "plausible (se_now E j)" "se_device E = dev" "alone E" for j
    using assms(3) alone_others_ok by (auto simp: env_ok_def)
  have ok: "sync_ok E ?W ?w" by (rule net_okD [OF assms(1-3)])
  have c: "since E ?W ?w w" "caught_up E ?w w" "unsent (w_db w) = {}"
    using tripleD [OF triple_cycle [OF env(1-3) assms(4)] since_start [OF ok] TrueI assms(5)] by blast+
  note h = held_stored [OF assms(3)]
  show "net_ok D opn V (put_world s dev w)" "issued D (fst (put_world s dev w)) = ?W"
    using net_ok_since [OF assms(1-3) c(1)] .
  show "unsent (w_db w) = {}" by (rule c(3))
  have w: "sync_ok E ?W w" using c(1) by (simp add: since_def)
  show "logged (w_db w) \<subseteq> stored opn V (w_remote w)"
    using sync_okD(3) [OF w] c(3) unfolding h [symmetric] log_synced_def logged_entries unsent_def by auto
  show mono: "stored opn V (snd s) \<subseteq> stored opn V (w_remote w)"
    using since_held [OF c(1)] by (simp add: h world_of_def)
  show "op \<in> stored opn V (snd s) \<Longrightarrow> dominated (w_db w) op"
    using c(2) by (simp add: caught_up_def h world_of_def)
  assume none: "unsent (led_db (fst s dev)) = {}"
  have "op \<in> held E (snd s)" if op: "op \<in> held E (w_remote w)" for op
  proof -
    obtain name a h' S where o: "object_at E (w_remote w) name a h' S" "op \<in> S" using op unfolding held_def by blast
    show ?thesis
    proof (cases "tget (snd s) name = None")
      case True
      have "a = dev" using c(1) env(4,5) o(1) True unfolding since_def world_of_def by fastforce
      then have "op_device op = se_device E" "op \<in> ?W"
        using object_at_ok [OF sync_okD(2) [OF w] o(1)] o(2) env(4) by (auto simp: batch_ok_def)
      then have "op \<in> logged (led_db (fst s dev))" using sync_okD(3) [OF ok] by (auto simp: log_synced_def world_of_def)
      then obtain lop where "lop \<in> entries (led_db (fst s dev))" "op = remote_op lop" by (auto simp: logged_entries)
      then show ?thesis using sync_okD(3) [OF ok] none by (auto simp: log_synced_def world_of_def unsent_def split: if_splits)
    next
      case False
      then have "object_at E (snd s) name a h' S" using c(1) o(1) unfolding since_def keeps_objects_def world_of_def by auto
      then show ?thesis using o(2) unfolding held_def by blast
    qed
  qed
  then show "stored opn V (w_remote w) = stored opn V (snd s)" using mono unfolding h [symmetric] by blast
qed

lemma put_world_simps [simp]:
  "fst (put_world s dev w) dev' = (if dev' = dev then w_ledger w else fst s dev')" "snd (put_world s dev w) = w_remote w"
  by (simp_all add: put_world_def)

text \<open>After one round everything any of the devices has is in the destination.\<close>

lemma first_round:
  assumes "net_ok D opn V s" and "set devs \<subseteq> D" and "\<forall>dev \<in> set devs. env_ok opn V dev (Es dev)" and "short_history (issued D (fst s))"
    and "sync_round Es devs s = Some s'" and "\<forall>dev \<in> A. unsent (led_db (fst s dev)) = {} \<and> logged (led_db (fst s dev)) \<subseteq> stored opn V (snd s)"
  shows "net_ok D opn V s' \<and> issued D (fst s') = issued D (fst s) \<and>
    (\<forall>dev \<in> A \<union> set devs. unsent (led_db (fst s' dev)) = {} \<and> logged (led_db (fst s' dev)) \<subseteq> stored opn V (snd s'))"
  using assms
proof (induction devs arbitrary: s A)
  case (Cons dev devs)
  obtain x w where c: "cycle (Es dev) None (world_of s dev 0) = (Inr x, w)" "sync_round Es devs (put_world s dev w) = Some s'"
    using Cons.prems(5) by (auto split: sum.splits prod.splits)
  have dev: "dev \<in> D" "env_ok opn V dev (Es dev)" using Cons.prems(2,3) by auto
  note e = cycle_effect [OF Cons.prems(1) dev Cons.prems(4) c(1)]
  have rest: "set devs \<subseteq> D" "\<forall>dev \<in> set devs. env_ok opn V dev (Es dev)" "short_history (issued D (fst (put_world s dev w)))"
    using Cons.prems(2-4) e(2) by (simp_all del: put_world_simps)
  have "\<forall>d \<in> insert dev A. unsent (led_db (fst (put_world s dev w) d)) = {} \<and>
      logged (led_db (fst (put_world s dev w) d)) \<subseteq> stored opn V (snd (put_world s dev w))"
    using Cons.prems(6) e(3-5) by (auto; blast)
  from Cons.IH [OF e(1) rest c(2) this] e(2) show ?case by (simp del: put_world_simps)
qed simp

text \<open>In the second round nothing more is uploaded, and everybody catches up.\<close>

lemma second_round:
  assumes "net_ok D opn V s" and "set devs \<subseteq> D" and "\<forall>dev \<in> set devs. env_ok opn V dev (Es dev)" and "short_history (issued D (fst s))"
    and "sync_round Es devs s = Some s'" and "\<forall>dev \<in> set devs. unsent (led_db (fst s dev)) = {}" and "stored opn V (snd s) = H"
    and "\<forall>dev \<in> A. logged (led_db (fst s dev)) \<subseteq> H \<and> (\<forall>op \<in> H. dominated (led_db (fst s dev)) op)"
  shows "net_ok D opn V s' \<and>
    (\<forall>dev \<in> A \<union> set devs. logged (led_db (fst s' dev)) \<subseteq> H \<and> (\<forall>op \<in> H. dominated (led_db (fst s' dev)) op))"
  using assms
proof (induction devs arbitrary: s A)
  case (Cons dev devs)
  obtain x w where c: "cycle (Es dev) None (world_of s dev 0) = (Inr x, w)" "sync_round Es devs (put_world s dev w) = Some s'"
    using Cons.prems(5) by (auto split: sum.splits prod.splits)
  have dev: "dev \<in> D" "env_ok opn V dev (Es dev)" using Cons.prems(2,3) by auto
  note e = cycle_effect [OF Cons.prems(1) dev Cons.prems(4) c(1)]
  have rest: "set devs \<subseteq> D" "\<forall>dev \<in> set devs. env_ok opn V dev (Es dev)" "short_history (issued D (fst (put_world s dev w)))"
    using Cons.prems(2-4) e(2) by (simp_all del: put_world_simps)
  have H: "stored opn V (w_remote w) = H" using e(7) Cons.prems(6,7) by simp
  have "\<forall>d \<in> insert dev A. logged (led_db (fst (put_world s dev w) d)) \<subseteq> H \<and> (\<forall>op \<in> H. dominated (led_db (fst (put_world s dev w) d)) op)"
    using Cons.prems(7,8) e(4,6) H by auto
  moreover have "\<forall>d \<in> set devs. unsent (led_db (fst (put_world s dev w) d)) = {}" using Cons.prems(6) e(3) by auto
  ultimately have "net_ok D opn V s' \<and> (\<forall>d \<in> insert dev A \<union> set devs. logged (led_db (fst s' d)) \<subseteq> H \<and>
      (\<forall>op \<in> H. dominated (led_db (fst s' d)) op))"
    by (intro Cons.IH [OF e(1) rest c(2)]) (simp_all add: H)
  then show ?case by simp
qed simp

text \<open>Replicas that dominate each other agree.\<close>

lemma mutual_domination:
  assumes "db_ok W d" and "db_ok W d'" and "\<forall>op \<in> logged d. dominated d' op" and "\<forall>op \<in> logged d'. dominated d op"
  shows "tables d = tables d'"
proof (rule tables_determined [OF assms(1,2)])
  have half: "newest op_key hlc (logged d \<union> logged d') k (register d k)"
    if ok: "db_ok W d" and dom: "\<forall>op \<in> logged d'. dominated d op" for d d' k
    by (rule newest_cover [OF register_newest [OF db_okD(2) [OF ok]]])
      (use dom in \<open>auto simp: dominated_def\<close>)
  show "register d = register d'"
  proof
    fix k
    have "inj_on hlc (logged d \<union> logged d')"
      using db_okD(3,4) [OF assms(1)] db_okD(3) [OF assms(2)] by (auto intro: inj_on_subset)
    then show "register d k = register d' k"
      using newest_unique [OF _ half [OF assms(1,4)] half [OF assms(2,3), folded Un_commute]] by (simp add: Un_commute)
  qed
qed

section \<open>Properties\<close>




text \<open>C10: what a cycle reports. A locked vault and a vault without a destination are left alone and
  show no error; a failure is reported with its message, and as worth retrying only when the
  transport says so; a cycle never leaves the status at syncing, and a completed one reports no
  error and counts what is still pending.\<close>

theorem cycle_status:
  assumes "runCycle E unlocked target status w = (status', w')"
  shows "st_state status' \<noteq> Syncing \<and>
    (\<not> unlocked \<longrightarrow> w' = w \<and> st_state status' = Idle \<and> st_lastError status' = None) \<and>
    (target = Some (NoneTarget label) \<longrightarrow> w' = w \<and> st_state status' = Idle \<and> st_lastError status' = None) \<and>
    (unlocked \<longrightarrow> (\<forall>err. fst (cycle E target w) = Inl err \<and> err \<noteq> NoSyncTargetError \<longrightarrow>
       st_state status' = ErrorState \<and> st_lastError status' = Some (error_message E err) \<and>
       (st_retryable status' \<longleftrightarrow> (\<exists>m. err = SyncTransportError m True)) \<and> st_pending status' = countPending (w_db w'))) \<and>
    (unlocked \<longrightarrow> (\<forall>x. fst (cycle E target w) = Inr x \<longrightarrow>
       st_state status' = Idle \<and> st_lastError status' = None \<and> \<not> st_retryable status' \<and> st_pending status' = countPending (w_db w') \<and>
       (st_pulled status', st_pushed status') = (fst x, fst (snd x))))"
proof -
  have none: "target = Some (NoneTarget label) \<Longrightarrow> cycle E target w = (Inl NoSyncTargetError, w)"
    by (simp add: cycle_def createAdapter_def)
  have retry: "is_retryable err \<longleftrightarrow> (\<exists>m. err = SyncTransportError m True)" for err
    by (simp add: is_retryable_def split: error.split)
  show ?thesis using assms none
    by (cases "cycle E target w"; cases "fst (cycle E target w)")
      (auto simp: runCycle_def Let_def retry split: if_splits prod.splits)
qed

section \<open>Witnesses\<close>

text \<open>A destination that keeps what it is given, and two devices of which one has written a row.\<close>

type_synonym plain = "EnvelopeHeader \<times> payload"

definition sample_env :: "string \<Rightarrow> plain sync_env" where
  "sample_env dev = \<lparr>se_seal = (\<lambda>_ h p. Inr (h, p)), se_open = Inr, se_vaultId = ''v'', se_device = dev, se_now = (\<lambda>_. 5000),
     se_fault = (\<lambda>_. None), se_others = (\<lambda>_ t. t), se_message = (\<lambda>_. [])\<rparr>"

definition sample_net :: "plain net" where
  "sample_net = (sample_vault, [])"

lemma sample_env_ok: "env_ok Inr ''v'' dev (sample_env dev)"
  by (simp add: env_ok_def sample_env_def sealing_ok_def alone_def plausible_small)

lemma sample_net_reachable: "net_reachable {''a'', ''b''} Inr ''v'' sample_net"
  unfolding sample_net_def sample_vault_def sample_ledger_def
  by (rule net_reachable.step [OF net_reachable.start],
      rule net_step.wrote [where wall = 1000 and v = sample_row, OF _ _ _ surjective_pairing])
    (simp_all add: plausible_small sample_row_def)

lemma length_sample: "length (oplog (led_db sample_ledger)) = 1"
  by code_simp

lemma sample_short: "short_history (issued {''a'', ''b''} sample_vault)"
proof -
  have eq: "issued {''a'', ''b''} sample_vault = logged (led_db sample_ledger)"
    by (auto simp: issued_def sample_vault_def new_ledger_def initialise_def new_db_def logged_def)
  have "card (logged (led_db sample_ledger)) \<le> card (set (oplog (led_db sample_ledger)))"
    unfolding logged_def image_image by (rule card_image_le) simp
  also have "\<dots> \<le> 1" using card_length [of "oplog (led_db sample_ledger)"] length_sample by simp
  finally show ?thesis by (simp add: short_history_def eq logged_def SNAPSHOT_AFTER_OPERATIONS_def)
qed


lemma sample_sync_ok: "sync_ok (sample_env ''a'') (issued {''a'', ''b''} sample_vault) (world_of sample_net ''a'' 0)"
  using net_okD [OF net_reachable_ok [OF sample_net_reachable sample_devices] _ sample_env_ok, of "''a''"]
  by (simp add: sample_net_def)


text \<open>The vault after the device that wrote a row has synced.\<close>

definition synced_world :: "plain world" where
  "synced_world = snd (runCycle (sample_env ''a'') True None INITIAL_STATUS (world_of sample_net ''a'' 0))"

lemma synced_net_reachable: "net_reachable {''a'', ''b''} Inr ''v'' (put_world sample_net ''a'' synced_world)"
proof (rule net_reachable.step [OF sample_net_reachable], rule net_step.synced)
  show "runCycle (sample_env ''a'') True None INITIAL_STATUS (world_of sample_net ''a'' 0) =
      (fst (runCycle (sample_env ''a'') True None INITIAL_STATUS (world_of sample_net ''a'' 0)), synced_world)"
    by (simp add: synced_world_def)
qed (use sample_env_ok sample_short in \<open>simp_all add: sample_net_def\<close>)


theorem cycle_status_witness:
  "st_state (fst (runCycle (sample_env ''a'') True (Some (NoneTarget ''x'')) INITIAL_STATUS (world_of sample_net ''a'' 0))) = Idle"
  using cycle_status [OF surjective_pairing, of "sample_env ''a''" True "Some (NoneTarget ''x'')" INITIAL_STATUS "world_of sample_net ''a'' 0" "''x''"]
  by simp

end
