(* ===== verification/Sync_Snapshot.thy ===== *)
theory Sync_Snapshot
  imports Sync_Convergence
begin

text \<open>
  Snapshots. What a device that writes one leaves in the destination, and what a device that applies
  one learns from it. A snapshot lists the rows that exist; it says nothing of rows that were
  deleted, and the operations that would have said so are removed with it.
\<close>

lemma andThen_success: "andThen m k s = (Inr y, s'') \<longleftrightarrow> (\<exists>x s'. m s = (Inr x, s') \<and> k x s' = (Inr y, s''))"
  by (auto simp: andThen_def split: prod.splits sum.splits)

lemma on_remote_success:
  assumes "alone E" and "on_remote E f w = (Inr x, w')"
  shows "f (w_remote w) = (Inr x, w_remote w')" "w_ledger w' = w_ledger w"
  using assms by (auto simp: on_remote_def alone_def Let_def split: option.splits if_splits prod.splits)

definition reliable :: "'b sync_env \<Rightarrow> bool" where
  "reliable E \<longleftrightarrow> alone E \<and> (\<forall>n. se_fault E n = None)"

lemma on_remote_reliable:
  "reliable E \<Longrightarrow> on_remote E f w = (case f (w_remote w) of (r, t) \<Rightarrow> (r, w\<lparr>w_remote := t, w_calls := Suc (w_calls w)\<rparr>))"
  by (simp add: reliable_def alone_def on_remote_def Let_def split: prod.split)

section \<open>Merging rows never removes one\<close>

definition rows_kept :: "docket_db \<Rightarrow> docket_db \<Rightarrow> bool" where
  "rows_kept d d' \<longleftrightarrow> (\<forall>e. table_ok (tables d' e)) \<and> (\<forall>e i. tget (tables d e) i \<noteq> None \<longrightarrow> tget (tables d' e) i \<noteq> None)"

lemma merge_loop_rows:
  assumes "\<forall>op \<in> set ops. op_kind op = Put" and "\<forall>e. table_ok (tables d e)"
  shows "rows_kept d (fst (merge_loop ops (d, n)))"
  using assms
proof (induction ops arbitrary: d n)
  case (Cons op ops)
  obtain d1 b where m: "merge_op op d = (d1, b)" by fastforce
  have d1: "rows_kept d d1" using m Cons.prems
    by (auto simp: merge_op_def rows_kept_def split: if_splits option.splits)
  then have "rows_kept d1 (fst (merge_loop ops (d1, if b then n + 1 else n)))" using Cons by (auto simp: rows_kept_def)
  then show ?case using d1 m by (simp add: rows_kept_def)
qed (simp add: rows_kept_def)

lemma snapshot_ops_puts: "op \<in> set (snapshot_ops v) \<Longrightarrow> op_kind op = Put"
  by (auto simp: snapshot_ops_def)

lemma merge_snapshot_rows:
  assumes "merge (snapshot_ops v) l = (Inr n, l')" and "\<forall>e. table_ok (tables (led_db l) e)"
  shows "rows_kept (led_db l) (led_db l')"
proof -
  have "rows_kept (led_db l) (fst (merge_loop (sort_key hlc (snapshot_ops v)) (led_db l, 0)))"
    by (rule merge_loop_rows) (use assms(2) snapshot_ops_puts in auto)
  then show ?thesis using assms
    by (auto simp: merge_def rows_kept_def split: if_splits option.splits prod.splits)
qed

lemma merge_loop_objects: "remoteObjects (fst (merge_loop ops (d, n))) = remoteObjects d"
proof (induction ops arbitrary: d n)
  case (Cons op ops)
  obtain d1 b where m: "merge_op op d = (d1, b)" by fastforce
  then have "remoteObjects d1 = remoteObjects d" by (auto simp: merge_op_def oplog_put_def table_put_def table_delete_def split: if_splits option.splits)
  with Cons m show ?case by simp
qed simp

lemma merge_keeps_objects: "merge ops l = (r, l') \<Longrightarrow> remoteObjects (led_db l') = remoteObjects (led_db l)"
  by (auto simp: merge_def merge_loop_objects persistClock_def dest: arg_cong [where f = "\<lambda>x. remoteObjects (fst x)"]
      split: if_splits option.splits prod.splits)

text \<open>The tables of \<open>d'\<close> are those of \<open>d\<close> with the snapshot merged into them.\<close>

definition merged_snapshot :: "LedgerSnapshot \<Rightarrow> docket_db \<Rightarrow> docket_db \<Rightarrow> bool" where
  "merged_snapshot v d d' \<longleftrightarrow>
     (\<exists>l l' k. led_db l = d \<and> merge (snapshot_ops v) l = (Inr k, l') \<and> tables d' = tables (led_db l'))"

lemma use_snapshot_spec:
  assumes "use_snapshot E seen name v w = (Inr res, w')"
  shows "res = (Some (snap_watermark v), name # seen) \<and> w_remote w' = w_remote w \<and> merged_snapshot v (w_db w) (w_db w') \<and>
    remoteObjects (w_db w') = tput name (int (clock_from E w' 0)) (remoteObjects (w_db w))"
proof -
  from assms obtain w1 w2 n where
    o: "on_ledger (observeStamps (clock_from E w) [snap_watermark v]) w = (Inr (), w1)"
    and m: "on_ledger (merge (snapshot_ops v)) w1 = (Inr n, w2)"
    and r: "w' = snd (on_db (set_meta LAST_SNAPSHOT_KEY (MetaString (snap_watermark v)))
        (snd (on_db (record_objects (clock_from E w2 0) [name]) w2)))" "res = (Some (snap_watermark v), name # seen)"
    unfolding use_snapshot_def andThen_success by (auto simp: with_now_def on_db_def return_def)
  have w1: "w_db w1 = w_db w" "w_remote w1 = w_remote w" "w_calls w1 = w_calls w"
    using o by (auto simp: on_ledger_def observeStamps_def split: prod.splits option.splits)
  have w2: "w_remote w2 = w_remote w1" "w_calls w2 = w_calls w1" "merge (snapshot_ops v) (w_ledger w1) = (Inr n, w_ledger w2)"
    using m by (auto simp: on_ledger_def split: prod.splits)
  have w': "tables (w_db w') = tables (w_db w2)" "w_remote w' = w_remote w2"
    "remoteObjects (w_db w') = tput name (int (clock_from E w' 0)) (remoteObjects (w_db w2))"
    using r by (simp_all add: on_db_def record_objects_def set_meta_def clock_from_def)
  have "merged_snapshot v (w_db w) (w_db w')" unfolding merged_snapshot_def using w1(1) w2(3) w'(1) by blast
  then show ?thesis using r(2) w' w1 w2 merge_keeps_objects [OF w2(3)] by simp
qed

lemma applySnapshot_latest:
  assumes "alone E"
    and "filter (startsWith (snapshotPrefix (se_vaultId E))) (primaryKeys (w_remote w)) = older @ [latest]"
    and "tget (w_remote w) latest = Some b" and "se_open E b = Inr (h, SnapshotPayload v)" and "hd_v h = se_vaultId E"
    and "latest \<notin> set seen" and "applySnapshot E seen w = (Inr res, w')"
  shows "res = (Some (snap_watermark v), latest # seen) \<and> w_remote w' = w_remote w \<and> merged_snapshot v (w_db w) (w_db w') \<and>
    remoteObjects (w_db w') = tput latest (int (clock_from E w' 0)) (remoteObjects (w_db w))"
proof -
  obtain snaps w1 where l: "on_remote E (adapter_list (snapshotPrefix (se_vaultId E))) w = (Inr snaps, w1)"
    and k: "(if snaps = [] \<or> last snaps \<in> set seen then return (None, seen)
       else andThen (on_remote E (adapter_get (last snaps))) (open_snapshot E seen (last snaps))) w1 = (Inr res, w')"
    using assms(7) unfolding applySnapshot_def andThen_success by blast
  note L = on_remote_success [OF assms(1) l]
  have w1: "snaps = older @ [latest]" "w_remote w1 = w_remote w" "w_ledger w1 = w_ledger w"
    using L assms(2) by (simp_all add: adapter_list_def)
  from k assms(6) obtain bytes w2 where g: "on_remote E (adapter_get latest) w1 = (Inr bytes, w2)"
    and k2: "open_snapshot E seen latest bytes w2 = (Inr res, w')"
    by (auto simp: w1(1) andThen_success)
  note G = on_remote_success [OF assms(1) g]
  have w2: "bytes = b" "w_remote w2 = w_remote w" "w_ledger w2 = w_ledger w"
    using G assms(3) w1 by (simp_all add: adapter_get_def)
  have "use_snapshot E seen latest v w2 = (Inr res, w')" using k2 assms(4,5) by (simp add: open_snapshot_def w2(1))
  then show ?thesis using use_snapshot_spec [of _ _ _ _ w2] w2 by simp
qed

text \<open>Pulling through a snapshot that covers every batch not seen yet.\<close>

lemma pull_through_snapshot:
  assumes "alone E" and "table_ok (remoteObjects (w_db w))"
    and "filter (startsWith (snapshotPrefix (se_vaultId E))) (primaryKeys (w_remote w)) = older @ [latest]"
    and "tget (w_remote w) latest = Some b" and "se_open E b = Inr (h, SnapshotPayload v)" and "hd_v h = se_vaultId E"
    and "tget (remoteObjects (w_db w)) latest = None"
    and "\<forall>name. tget (w_remote w) name \<noteq> None \<and> startsWith (opsPrefix (se_vaultId E)) name \<longrightarrow> coveredBy name (snap_watermark v)"
    and "pull E w = (Inr n, w')"
  shows "n = 0 \<and> merged_snapshot v (w_db w) (w_db w') \<and>
    (\<forall>name. tget (w_remote w) name \<noteq> None \<and> startsWith (opsPrefix (se_vaultId E)) name \<longrightarrow> tget (remoteObjects (w_db w')) name \<noteq> None)"
proof -
  let ?seen = "primaryKeys (remoteObjects (w_db w))" and ?wm = "snap_watermark v"
  from assms(9) obtain res w1 where a: "applySnapshot E ?seen w = (Inr res, w1)" "pull_objects E res w1 = (Inr n, w')"
    unfolding pull_def andThen_success by blast
  have "latest \<notin> set ?seen" using assms(7) by (simp add: tget_key)
  from applySnapshot_latest [OF assms(1,3,4,5,6) this a(1)]
  have s: "res = (Some ?wm, latest # ?seen)" "w_remote w1 = w_remote w" "merged_snapshot v (w_db w) (w_db w1)"
    "remoteObjects (w_db w1) = tput latest (int (clock_from E w1 0)) (remoteObjects (w_db w))" by simp_all
  obtain names w2 where l: "on_remote E (adapter_list (opsPrefix (se_vaultId E))) w1 = (Inr names, w2)"
    and k: "(let unseen = filter (\<lambda>name. name \<notin> set (latest # ?seen)) names;
           covered = filter (is_covered (Some ?wm)) unseen;
           fresh = filter (\<lambda>name. \<not> is_covered (Some ?wm) name) unseen
       in andThen (with_now E (\<lambda>now. on_db (record_objects (now 0) covered))) (\<lambda>_.
          if fresh = [] then return 0
          else andThen (download E fresh ([], [], [])) (apply_batches E))) w2 = (Inr n, w')"
    using a(2) unfolding s(1) pull_objects_def prod.case andThen_success by blast
  note L = on_remote_success [OF assms(1) l]
  have w2: "names = filter (startsWith (opsPrefix (se_vaultId E))) (primaryKeys (w_remote w))" "w_db w2 = w_db w1"
    using L s(2) by (auto simp: adapter_list_def)
  define unseen where "unseen = filter (\<lambda>name. name \<notin> set (latest # ?seen)) names"
  have "is_covered (Some ?wm) name" if "name \<in> set unseen" for name
    using that assms(8) by (auto simp: unseen_def w2(1) is_covered_def tget_key)
  then have f: "filter (is_covered (Some ?wm)) unseen = unseen" "filter (\<lambda>name. \<not> is_covered (Some ?wm) name) unseen = []"
    by (auto simp: filter_id_conv filter_empty_conv)
  have "andThen (with_now E (\<lambda>now. on_db (record_objects (now 0) unseen))) (\<lambda>_. return 0) w2 = (Inr n, w')"
    using k unfolding unseen_def [symmetric] Let_def f by simp
  then have w': "n = 0" "w_db w' = record_objects (clock_from E w2 0) unseen (w_db w1)"
    using w2(2) by (auto simp: andThen_success with_now_def on_db_def return_def)
  have "table_ok (remoteObjects (w_db w1))" using s(4) assms(2) by simp
  then have "set (primaryKeys (remoteObjects (w_db w'))) = set unseen \<union> set (primaryKeys (remoteObjects (w_db w1)))"
    using record_objects_keys w'(2) by simp
  moreover have "set names \<subseteq> set unseen \<union> set (primaryKeys (remoteObjects (w_db w1)))"
    using s(4) assms(2) by (auto simp: unseen_def tget_key split: if_splits)
  ultimately have known: "set names \<subseteq> set (primaryKeys (remoteObjects (w_db w')))" by simp
  have "tget (remoteObjects (w_db w')) name \<noteq> None"
    if "tget (w_remote w) name \<noteq> None" "startsWith (opsPrefix (se_vaultId E)) name" for name
  proof -
    have "name \<in> set names" using that by (simp add: w2(1) tget_key)
    then have "name \<in> set (primaryKeys (remoteObjects (w_db w')))" using known by blast
    then show ?thesis by (simp add: tget_key)
  qed
  then show ?thesis using w' s(3) by (auto simp: merged_snapshot_def)
qed

text \<open>C12: a snapshot carries no deletions. A device that catches up through a snapshot whose watermark
  covers every batch it has not seen merges none of those batches, records them as applied, and
  keeps every row it had, including the rows the covered batches delete.\<close>

theorem snapshot_omits_deletions:
  assumes "alone E" and "table_ok (remoteObjects (w_db w))"
    and "filter (startsWith (snapshotPrefix (se_vaultId E))) (primaryKeys (w_remote w)) = older @ [latest]"
    and "tget (w_remote w) latest = Some b" and "se_open E b = Inr (h, SnapshotPayload v)" and "hd_v h = se_vaultId E"
    and "tget (remoteObjects (w_db w)) latest = None"
    and "\<forall>name. tget (w_remote w) name \<noteq> None \<and> startsWith (opsPrefix (se_vaultId E)) name \<longrightarrow> coveredBy name (snap_watermark v)"
    and "pull E w = (Inr n, w')"
    and "\<forall>e. table_ok (tables (w_db w) e)"
  shows "n = 0 \<and> (\<forall>e i. tget (tables (w_db w) e) i \<noteq> None \<longrightarrow> tget (tables (w_db w') e) i \<noteq> None) \<and>
    (\<forall>name. tget (w_remote w) name \<noteq> None \<and> startsWith (opsPrefix (se_vaultId E)) name \<longrightarrow> tget (remoteObjects (w_db w')) name \<noteq> None)"
  using pull_through_snapshot [OF assms(1-9)] merge_snapshot_rows assms(10)
  unfolding merged_snapshot_def rows_kept_def by metis

section \<open>Joining a vault through a snapshot\<close>

lemma merge_op_new:
  assumes "\<forall>lop \<in> entries d. op_key lop \<noteq> op_key op" and "op_kind op = Put" and "op_value op = Some row"
  shows "merge_op op d = (oplog_put (local_op True op) (table_put (entity op) row d), True)"
proof -
  have "stamps_for d (entity op) (entityId op) = []"
    using assms(1) by (auto simp: stamps_for_def filter_empty_conv entries_def op_key_def)
  then show ?thesis using assms by (simp add: merge_op_def latestStampFor_def)
qed

definition new_puts :: "docket_db \<Rightarrow> Operation list \<Rightarrow> bool" where
  "new_puts d ops \<longleftrightarrow>
     distinct (map op_key ops) \<and> (\<forall>lop \<in> entries d. op_key lop \<notin> op_key ` set ops) \<and> table_ok (oplog d) \<and>
     (\<forall>e. table_ok (tables d e)) \<and>
     (\<forall>op \<in> set ops. op_kind op = Put \<and> (\<exists>row. op_value op = Some row \<and> entity_id row = entityId op))"

lemma merge_loop_new:
  assumes "new_puts d ops" and "d' = fst (merge_loop ops (d, n))"
  shows "(\<forall>e. table_ok (tables d' e)) \<and> (\<forall>op \<in> set ops. tget (tables d' (entity op)) (entityId op) = op_value op) \<and>
    (\<forall>e i. (e, i) \<notin> op_key ` set ops \<longrightarrow> tget (tables d' e) i = tget (tables d e) i)"
  using assms
proof (induction ops arbitrary: d n)
  case (Cons op ops)
  from Cons.prems(1) obtain row where row: "op_kind op = Put" "op_value op = Some row" "entity_id row = entityId op"
    by (auto simp: new_puts_def)
  let ?d = "oplog_put (local_op True op) (table_put (entity op) row d)"
  have m: "merge_op op d = (?d, True)"
    by (rule merge_op_new) (use row Cons.prems(1) in \<open>auto simp: new_puts_def\<close>)
  have "entries ?d \<subseteq> insert (local_op True op) (entries d)"
    using Cons.prems(1) by (auto simp: entries_def new_puts_def mem_tput split: if_splits)
  moreover have "op_key (local_op True op) = op_key op" by (cases op) (simp add: op_key_def local_op_def Operation.defs)
  ultimately have "\<forall>lop \<in> entries ?d. op_key lop = op_key op \<or> lop \<in> entries d" by auto
  then have "new_puts ?d ops" using Cons.prems(1) by (fastforce simp: new_puts_def)
  from Cons.IH [OF this, of "n + 1"] Cons.prems(2)
  have ih: "\<forall>e. table_ok (tables d' e)" "\<forall>op \<in> set ops. tget (tables d' (entity op)) (entityId op) = op_value op"
    "\<forall>e i. (e, i) \<notin> op_key ` set ops \<longrightarrow> tget (tables d' e) i = tget (tables ?d e) i" by (simp_all add: m)
  have "op_key op \<notin> op_key ` set ops" using Cons.prems(1) by (auto simp: new_puts_def)
  then have "tget (tables d' (entity op)) (entityId op) = op_value op"
    using ih(3) row Cons.prems(1) by (simp add: op_key_def new_puts_def)
  moreover have "tget (tables d' e) i = tget (tables d e) i" if "(e, i) \<notin> op_key ` set (op # ops)" for e i
    using ih(3) that row Cons.prems(1) by (auto simp: op_key_def new_puts_def)
  ultimately show ?case using ih by simp
qed (simp add: new_puts_def)

lemma snapshot_ops_mem:
  "op \<in> set (snapshot_ops v) \<longleftrightarrow> (\<exists>e. \<exists>row \<in> set (snap_entities v e).
     op = \<lparr>hlc = updatedAt row, entity = e, entityId = entity_id row, op_kind = Put, op_value = Some row, op_device = snap_device v\<rparr>)"
  by (auto simp: snapshot_ops_def all_entities)

lemma distinct_snapshot_keys:
  assumes "\<And>e. distinct (map entity_id (snap_entities v e))"
  shows "distinct (map op_key (snapshot_ops v))"
proof -
  have "distinct (concat (map (\<lambda>e. map (\<lambda>row. (e, entity_id row)) (snap_entities v e)) es))" if "distinct es" for es
    using that
  proof (induction es)
    case (Cons e es)
    have "distinct (map (\<lambda>row. (e, entity_id row)) (snap_entities v e))"
      using assms [of e] by (simp add: distinct_map inj_on_def)
    with Cons show ?case by auto
  qed simp
  then show ?thesis
    using all_entities(2) by (simp add: snapshot_ops_def map_concat comp_def op_key_def)
qed

text \<open>Rows stand under their own identifier.\<close>

lemma row_key:
  assumes "db_ok W d" and "tget (tables d e) i = Some row"
  shows "entity_id row = i"
proof -
  from assms obtain op where op: "register d (e, i) = Some op" "content op = Some row"
    using db_okD(6) [OF assms(1), of e i] by (auto simp: rows_of_def bind_eq_Some_conv)
  then have "op_key op = (e, i)" "op_ok op" using register_mem [OF assms(1) op(1)] db_okD(5) [OF assms(1)] by auto
  then show ?thesis using op(2) by (cases "op_kind op") (auto simp: op_ok_def op_key_def content_def)
qed

lemma db_ids: "db_ok W d \<Longrightarrow> map entity_id (toArray (tables d e)) = primaryKeys (tables d e)"
  using row_key tget_mem [OF db_okD(7)] by (fastforce simp: toArray_def primaryKeys_def)

lemma take_snapshot_rows:
  assumes "db_ok W d" and "oplog d0 = []" and "\<forall>e. tables d0 e = []"
  shows "tables (fst (merge_loop (sort_key hlc (snapshot_ops (take_snapshot E d wm))) (d0, n))) = tables d"
proof -
  let ?v = "take_snapshot E d wm"
  define ops where "ops = sort_key hlc (snapshot_ops ?v)"
  have ids: "distinct (map entity_id (snap_entities ?v e))" for e
    using db_ids [OF assms(1), of e] db_okD(7) [OF assms(1), of e] table_distinct by (auto simp: take_snapshot_def primaryKeys_def)
  have perm: "mset (map op_key ops) = mset (map op_key (snapshot_ops ?v))" by (simp add: ops_def)
  have set_ops: "set ops = set (snapshot_ops ?v)" by (simp add: ops_def)
  have "distinct (map op_key ops)" using distinct_snapshot_keys [OF ids] perm by (metis mset_eq_imp_distinct_iff)
  then have "new_puts d0 ops" using assms(2,3) by (auto simp: new_puts_def entries_def set_ops snapshot_ops_mem table_ok_def primaryKeys_def)
  from merge_loop_new [OF this refl, of n]
  have m: "\<forall>e. table_ok (tables (fst (merge_loop ops (d0, n))) e)"
    "\<forall>op \<in> set ops. tget (tables (fst (merge_loop ops (d0, n))) (entity op)) (entityId op) = op_value op"
    "\<forall>e i. (e, i) \<notin> op_key ` set ops \<longrightarrow> tget (tables (fst (merge_loop ops (d0, n))) e) i = None"
    using assms(3) by simp_all
  have "tget (tables (fst (merge_loop ops (d0, n))) e) i = tget (tables d e) i" for e i
  proof (cases "tget (tables d e) i")
    case None
    have "(e, i) \<notin> op_key ` set ops"
    proof
      assume "(e, i) \<in> op_key ` set ops"
      then obtain row where "row \<in> set (toArray (tables d e))" "entity_id row = i"
        by (auto simp: set_ops snapshot_ops_mem op_key_def take_snapshot_def)
      then have "i \<in> set (primaryKeys (tables d e))" by (metis db_ids [OF assms(1)] image_eqI set_map)
      with None show False by (simp add: tget_key)
    qed
    with m(3) None show ?thesis by simp
  next
    case (Some row)
    let ?op = "\<lparr>hlc = updatedAt row, entity = e, entityId = i, op_kind = Put, op_value = Some row, op_device = se_device E\<rparr>"
    have "row \<in> set (toArray (tables d e))" using Some tget_mem [OF db_okD(7) [OF assms(1)], of e] by (force simp: toArray_def)
    then have "?op \<in> set ops" using row_key [OF assms(1) Some] by (auto simp: set_ops snapshot_ops_mem take_snapshot_def)
    with m(2) Some show ?thesis by fastforce
  qed
  then show ?thesis unfolding ops_def [symmetric] using m(1) db_okD(7) [OF assms(1)] by (intro ext table_eqI) simp_all
qed

text \<open>C11: joining a vault through a snapshot. A device with an empty ledger that pulls from a destination
  whose newest snapshot was taken of a ledger \<open>d\<close> and covers every batch there ends with exactly the
  rows of \<open>d\<close>, in every table, and with every batch marked as applied.\<close>

theorem snapshot_bootstrap:
  assumes "alone E" and "table_ok (remoteObjects (w_db w))"
    and "filter (startsWith (snapshotPrefix (se_vaultId E))) (primaryKeys (w_remote w)) = older @ [latest]"
    and "tget (w_remote w) latest = Some b" and "se_open E b = Inr (h, SnapshotPayload (take_snapshot A d wm))" and "hd_v h = se_vaultId E"
    and "tget (remoteObjects (w_db w)) latest = None"
    and "\<forall>name. tget (w_remote w) name \<noteq> None \<and> startsWith (opsPrefix (se_vaultId E)) name \<longrightarrow> coveredBy name wm"
    and "pull E w = (Inr n, w')"
    and "db_ok W d" and "oplog (w_db w) = []" and "\<forall>e. tables (w_db w) e = []"
  shows "tables (w_db w') = tables d \<and>
    (\<forall>name. tget (w_remote w) name \<noteq> None \<and> startsWith (opsPrefix (se_vaultId E)) name \<longrightarrow> tget (remoteObjects (w_db w')) name \<noteq> None)"
proof -
  have "snap_watermark (take_snapshot A d wm) = wm" by (simp add: take_snapshot_def)
  with pull_through_snapshot [OF assms(1-7) _ assms(9)] assms(8)
  have p: "merged_snapshot (take_snapshot A d wm) (w_db w) (w_db w')"
    "\<forall>name. tget (w_remote w) name \<noteq> None \<and> startsWith (opsPrefix (se_vaultId E)) name \<longrightarrow> tget (remoteObjects (w_db w')) name \<noteq> None"
    by simp_all
  then obtain l l' k where l: "led_db l = w_db w" "merge (snapshot_ops (take_snapshot A d wm)) l = (Inr k, l')"
    "tables (w_db w') = tables (led_db l')" by (auto simp: merged_snapshot_def)
  have "tables (led_db l') = tables (fst (merge_loop (sort_key hlc (snapshot_ops (take_snapshot A d wm))) (w_db w, 0)))"
    using l by (auto simp: merge_def split: if_splits option.splits prod.splits)
  with take_snapshot_rows [OF assms(10,11,12)] l(3) p(2) show ?thesis by simp
qed


text \<open>Device \<open>a\<close> keeps a row that device \<open>b\<close> deleted before it wrote a snapshot.\<close>

definition late_stamp :: string where
  "late_stamp = encodeHlc \<lparr>physical = Some 3000, counter = Some 0\<rparr> ''b''"

definition deletion_batch :: OperationBatch where
  "deletion_batch = \<lparr>batch_vaultId = ''v'', batch_device = ''b'', batch_head = late_stamp,
     batch_ops = [\<lparr>hlc = late_stamp, entity = VaultSettingsTable, entityId = ''vault'', op_kind = Delete, op_value = None, op_device = ''b''\<rparr>]\<rparr>"

definition late_snapshot :: LedgerSnapshot where
  "late_snapshot = \<lparr>snap_vaultId = ''v'', snap_device = ''b'', snap_watermark = late_stamp, snap_entities = (\<lambda>_. []), snap_operationCount = 2\<rparr>"

definition late_world :: "plain world" where
  "late_world = \<lparr>w_ledger = sample_ledger,
     w_remote = [(opsObjectName ''v'' late_stamp, \<lparr>hd_v = ''v'', hd_d = ''b'', hd_h = late_stamp, hd_t = ''ops''\<rparr>, BatchPayload deletion_batch),
       (snapshotObjectName ''v'' late_stamp, \<lparr>hd_v = ''v'', hd_d = ''b'', hd_h = late_stamp, hd_t = ''snapshot''\<rparr>, SnapshotPayload late_snapshot)],
     w_calls = 0\<rparr>"

lemma sample_tables:
  "table_ok (tables (led_db sample_ledger) e)" "remoteObjects (led_db sample_ledger) = []"
  "tget (tables (led_db sample_ledger) VaultSettingsTable) ''vault'' \<noteq> None"
proof -
  have "list_all (\<lambda>e. table_ok (tables (led_db sample_ledger) e)) ENTITY_NAMES" by code_simp
  then show "table_ok (tables (led_db sample_ledger) e)" by (cases e) (simp_all add: ENTITY_NAMES_def)
  show "remoteObjects (led_db sample_ledger) = []" by code_simp
  have "\<not> Option.is_none (tget (tables (led_db sample_ledger) VaultSettingsTable) ''vault'')" by code_simp
  then show "tget (tables (led_db sample_ledger) VaultSettingsTable) ''vault'' \<noteq> None" by (simp add: Option.is_none_def)
qed

theorem snapshot_omits_deletions_witness:
  "tget (tables (w_db (snd (pull (sample_env ''a'') late_world))) VaultSettingsTable) ''vault'' \<noteq> None \<and>
   tget (remoteObjects (w_db (snd (pull (sample_env ''a'') late_world)))) (opsObjectName ''v'' late_stamp) \<noteq> None"
proof -
  let ?E = "sample_env ''a''" and ?s = "snapshotObjectName ''v'' late_stamp"
  have "\<not> isl (fst (pull ?E late_world))" by code_simp
  then obtain n where p: "pull ?E late_world = (Inr n, snd (pull ?E late_world))"
    by (metis isl_def prod.collapse sum.exhaust)
  have db: "\<forall>e. table_ok (tables (w_db late_world) e)" "table_ok (remoteObjects (w_db late_world))" "tget (remoteObjects (w_db late_world)) ?s = None" "tget (tables (w_db late_world) VaultSettingsTable) ''vault'' \<noteq> None"
    using sample_tables by (simp_all add: late_world_def)
  have names: "filter (startsWith (snapshotPrefix (se_vaultId ?E))) (primaryKeys (w_remote late_world)) = [] @ [?s]"
    by code_simp
  have cov: "coveredBy name (snap_watermark late_snapshot)"
    if "tget (w_remote late_world) name \<noteq> None" "startsWith (opsPrefix (se_vaultId ?E)) name" for name
  proof -
    have "name \<in> set (primaryKeys (w_remote late_world))" using that(1) by (simp add: tget_key)
    moreover have "list_all (\<lambda>x. startsWith (opsPrefix (se_vaultId ?E)) x \<longrightarrow> coveredBy x (snap_watermark late_snapshot)) (primaryKeys (w_remote late_world))"
      by code_simp
    ultimately show ?thesis using that(2) by (simp add: list_all_iff)
  qed
  have E: "alone ?E" "se_open ?E = Inr" "se_vaultId ?E = ''v''" using sample_env_ok [of "''a''"] by (simp_all add: env_ok_def sample_env_def)
  have o: "tget (w_remote late_world) (opsObjectName ''v'' late_stamp) \<noteq> None" "startsWith (opsPrefix (se_vaultId ?E)) (opsObjectName ''v'' late_stamp)"
    by (simp add: late_world_def) code_simp
  have "tget (w_remote late_world) ?s = Some (\<lparr>hd_v = ''v'', hd_d = ''b'', hd_h = late_stamp, hd_t = ''snapshot''\<rparr>, SnapshotPayload late_snapshot)"
    by (simp add: late_world_def opsObjectName_def snapshotObjectName_def opsPrefix_def snapshotPrefix_def)
  from snapshot_omits_deletions [OF E(1) db(2) names this _ _ db(3) _ p db(1)] cov db(4) o show ?thesis
    by (simp add: E)
qed

lemma fresh_ledger:
  "remoteObjects (led_db (new_ledger dev)) = []" "oplog (led_db (new_ledger dev)) = []" "tables (led_db (new_ledger dev)) e = []"
  by (simp_all add: new_ledger_def initialise_def new_db_def persistClock_def Let_def split: option.split)

definition joining_world :: "plain world" where
  "joining_world = \<lparr>w_ledger = new_ledger ''b'',
     w_remote = [(snapshotObjectName ''v'' late_stamp, \<lparr>hd_v = ''v'', hd_d = ''a'', hd_h = late_stamp, hd_t = ''snapshot''\<rparr>,
       SnapshotPayload (take_snapshot (sample_env ''a'') (led_db sample_ledger) late_stamp))],
     w_calls = 0\<rparr>"

theorem snapshot_bootstrap_witness:
  "tables (w_db (snd (pull (sample_env ''b'') joining_world))) = tables (led_db sample_ledger)"
proof -
  let ?E = "sample_env ''b''" and ?s = "snapshotObjectName ''v'' late_stamp"
  have "\<not> isl (fst (pull ?E joining_world))" by code_simp
  then obtain n where p: "pull ?E joining_world = (Inr n, snd (pull ?E joining_world))"
    by (metis isl_def prod.collapse sum.exhaust)
  have E: "alone ?E" "se_open ?E = Inr" "se_vaultId ?E = ''v''" using sample_env_ok [of "''b''"] by (simp_all add: env_ok_def sample_env_def)
  have names: "filter (startsWith (snapshotPrefix (se_vaultId ?E))) (primaryKeys (w_remote joining_world)) = [] @ [?s]"
    by code_simp
  have no_ops: "\<not> startsWith (opsPrefix (se_vaultId ?E)) ?s" by code_simp
  have ok: "db_ok (issued {''a'', ''b''} sample_vault) (led_db sample_ledger)"
    using vault_reachable_ok [OF sample_reachable sample_devices] by (auto simp: vault_ok_def ledger_ok_def sample_vault_def)
  have cov: "\<forall>name. tget (w_remote joining_world) name \<noteq> None \<and> startsWith (opsPrefix (se_vaultId ?E)) name \<longrightarrow> coveredBy name late_stamp"
    using no_ops by (auto simp: joining_world_def split: if_splits)
  have new: "table_ok (remoteObjects (w_db joining_world))" "tget (remoteObjects (w_db joining_world)) ?s = None"
    "oplog (w_db joining_world) = []" "\<forall>e. tables (w_db joining_world) e = []"
    by (simp_all add: joining_world_def fresh_ledger)
  have obj: "tget (w_remote joining_world) ?s = Some (\<lparr>hd_v = ''v'', hd_d = ''a'', hd_h = late_stamp, hd_t = ''snapshot''\<rparr>,
      SnapshotPayload (take_snapshot (sample_env ''a'') (led_db sample_ledger) late_stamp))" (is "_ = Some (?h, _)")
    by (simp add: joining_world_def)
  show ?thesis
    by (rule snapshot_bootstrap [where h = ?h, OF E(1) new(1) names obj _ _ new(2) cov p ok new(3,4), THEN conjunct1])
      (simp_all add: E)
qed

end
