(* ===== verification/Reports.thy ===== *)
theory Reports
  imports Transactions_Service Accounts_Service Csv
begin

text \<open>
  Reports (\<open>core/reports/aggregate.ts\<close>, \<open>core/reports/reports.service.ts\<close>): spending by category, income and
  expense by month, net worth over time, the largest payees and the totals of a range. Each function is
  its loop over the transactions, on binary64 amounts, and may fail where a conversion throws. The
  theorems show that the parts of a report add up to its totals, and that the net worth of a month is
  everything that happened up to its last day.
\<close>

section \<open>Results\<close>

record CategoryTotal =
  ct_categoryId :: "string option"
  ct_amount :: number
  ct_share :: number
  ct_count :: nat

record MonthlyFlow =
  mf_month :: string
  mf_income :: number
  mf_expense :: number
  mf_net :: number

record NetWorthPoint =
  np_date :: string
  np_amount :: number

record PayeeTotal =
  py_payee :: string
  py_amount :: number
  py_count :: nat

section \<open>Spending by category\<close>

definition category_key :: "(string \<Rightarrow> string option) option \<Rightarrow> Transaction \<Rightarrow> string option" where
  "category_key roots txn =
     (case txn_categoryId txn of
        None \<Rightarrow> None
      | Some c \<Rightarrow> Some (case roots of None \<Rightarrow> c | Some m \<Rightarrow> with_default c (m c)))"

definition add_entry :: "number \<Rightarrow> (number \<times> nat) option \<Rightarrow> number \<times> nat" where
  "add_entry amount entry = (let (a, n) = with_default (Fin 0, 0) entry in (num_plus a amount, n + 1))"

fun category_loop :: "DateRange \<Rightarrow> string \<Rightarrow> (string \<Rightarrow> string option) option \<Rightarrow> Transaction list \<Rightarrow>
    (string option \<times> number \<times> nat) list \<Rightarrow> (string option \<times> number \<times> nat) list result" where
  "category_loop rng reporting roots [] entries = Inr entries"
| "category_loop rng reporting roots (txn # txns) entries =
     (if txn_kind txn \<noteq> Expense \<or> \<not> Dates.within (txn_date txn) rng then category_loop rng reporting roots txns entries
      else case txn_inReporting txn reporting of
             Inl e \<Rightarrow> Inl e
           | Inr None \<Rightarrow> category_loop rng reporting roots txns entries
           | Inr (Some amount) \<Rightarrow>
               category_loop rng reporting roots txns (map_update (category_key roots txn) (add_entry amount) entries))"

fun num_quot :: "number \<Rightarrow> number \<Rightarrow> number" where
  "num_quot (Fin a) (Fin b) = (if b \<noteq> 0 then fl (a / b) else if a = 0 then NaN else if a > 0 then PosInf else NegInf)"
| "num_quot (Fin a) NaN = NaN"
| "num_quot (Fin a) _ = Fin 0"
| "num_quot NaN _ = NaN"
| "num_quot x (Fin b) = (if b \<ge> 0 then x else num_neg x)"
| "num_quot _ _ = NaN"

text \<open>Uncategorised spending last among equal amounts.\<close>

definition collate :: "(string \<Rightarrow> string \<Rightarrow> int) \<Rightarrow> string option \<Rightarrow> string option \<Rightarrow> int" where
  "collate lc a b =
     (if a = b then 0 else case (a, b) of (None, _) \<Rightarrow> 1 | (_, None) \<Rightarrow> -1 | (Some x, Some y) \<Rightarrow> lc x y)"

definition entry_total :: "('k \<times> number \<times> nat) list \<Rightarrow> number" where
  "entry_total entries = foldl (\<lambda>s (k, a, n). num_plus s a) (Fin 0) entries"

definition category_totals :: "(string \<Rightarrow> string \<Rightarrow> int) \<Rightarrow> (string option \<times> number \<times> nat) list \<Rightarrow> CategoryTotal list" where
  "category_totals lc entries =
     (let tot = entry_total entries
      in sort_by (\<lambda>a b. or_else (larger_first (ct_amount a) (ct_amount b)) (collate lc (ct_categoryId a) (ct_categoryId b)))
           (map (\<lambda>(categoryId, amount, n).
              \<lparr>ct_categoryId = categoryId, ct_amount = amount,
               ct_share = (if num_less (Fin 0) tot then Math_round (num_times (num_quot amount tot) (Fin 100)) else Fin 0),
               ct_count = n\<rparr>) entries))"

definition spendByCategory_report :: "(string \<Rightarrow> string \<Rightarrow> int) \<Rightarrow> Transaction list \<Rightarrow> DateRange \<Rightarrow> string \<Rightarrow>
    (string \<Rightarrow> string option) option \<Rightarrow> CategoryTotal list result" where
  "spendByCategory_report lc txns rng reporting roots =
     map_sum id (category_totals lc) (category_loop rng reporting roots txns [])"

section \<open>Flow by month\<close>

definition empty_flow :: "string \<Rightarrow> MonthlyFlow" where
  "empty_flow month = \<lparr>mf_month = month, mf_income = Fin 0, mf_expense = Fin 0, mf_net = Fin 0\<rparr>"

definition add_flow :: "TransactionKind \<Rightarrow> number \<Rightarrow> MonthlyFlow \<Rightarrow> MonthlyFlow" where
  "add_flow kind amount bucket =
     (if kind = Income then bucket\<lparr>mf_income := num_plus (mf_income bucket) amount\<rparr>
      else if kind = Expense then bucket\<lparr>mf_expense := num_plus (mf_expense bucket) amount\<rparr>
      else bucket)"

fun flow_loop :: "DateRange \<Rightarrow> string \<Rightarrow> Transaction list \<Rightarrow> MonthlyFlow list \<Rightarrow> MonthlyFlow list result" where
  "flow_loop rng reporting [] buckets = Inr buckets"
| "flow_loop rng reporting (txn # txns) buckets =
     (let key = monthKey (txn_date txn)
      in if \<not> Dates.within (txn_date txn) rng \<or> key \<notin> set (map mf_month buckets) then flow_loop rng reporting txns buckets
         else case txn_inReporting txn reporting of
                Inl e \<Rightarrow> Inl e
              | Inr None \<Rightarrow> flow_loop rng reporting txns buckets
              | Inr (Some amount) \<Rightarrow>
                  flow_loop rng reporting txns
                    (map (\<lambda>b. if mf_month b = key then add_flow (txn_kind txn) amount b else b) buckets))"

definition flowByMonth :: "Transaction list \<Rightarrow> DateRange \<Rightarrow> string \<Rightarrow> MonthlyFlow list result" where
  "flowByMonth txns rng reporting =
     map_sum id (map (\<lambda>b. b\<lparr>mf_net := num_plus (mf_income b) (num_neg (mf_expense b))\<rparr>))
       (flow_loop rng reporting txns (map empty_flow (unique (monthsIn rng))))"

section \<open>Net worth\<close>

definition delta :: "Transaction \<Rightarrow> string \<Rightarrow> number result" where
  "delta txn reporting =
     (if txn_kind txn = Transfer then Inr (Fin 0)
      else case txn_inReporting txn reporting of
             Inl e \<Rightarrow> Inl e
           | Inr None \<Rightarrow> Inr (Fin 0)
           | Inr (Some amount) \<Rightarrow> Inr (if txn_kind txn = Income then amount else num_neg amount))"

definition lastDayOf :: "string \<Rightarrow> DateRange \<Rightarrow> string" where
  "lastDayOf month rng =
     (let lastDay = (case (js_Number (Prelude.slice 0 4 month), js_Number (Prelude.slice 5 7 month)) of
                       (Some y, Some m) \<Rightarrow> daysInMonth (int y) (int m)
                     | _ \<Rightarrow> None);
          end_date = month @ ''-'' @ padStart 2 CHR ''0'' (case lastDay of None \<Rightarrow> ''NaN'' | Some n \<Rightarrow> String_of (nat n))
      in if end_date > range_to rng then range_to rng else end_date)"

fun opening_loop :: "string \<Rightarrow> (string \<Rightarrow> number option result) \<Rightarrow> Account list \<Rightarrow> number \<Rightarrow> number result" where
  "opening_loop reporting rates [] acc = Inr acc"
| "opening_loop reporting rates (account # accounts) acc =
     (if sameCurrency (acc_currency account) reporting
      then opening_loop reporting rates accounts (num_plus acc (minor (acc_openingBalance account)))
      else case rates (acc_currency account) of
             Inl e \<Rightarrow> Inl e
           | Inr None \<Rightarrow> opening_loop reporting rates accounts acc
           | Inr (Some rate) \<Rightarrow>
               (case convertBalance (acc_openingBalance account) rate (acc_currency account) reporting of
                  Inl e \<Rightarrow> Inl e
                | Inr converted \<Rightarrow> opening_loop reporting rates accounts (num_plus acc converted)))"

text \<open>\<open>while (index < ordered.length && ordered[index].date <= cutoff)\<close>, on what is left of the list.\<close>

fun advance :: "string \<Rightarrow> string \<Rightarrow> Transaction list \<Rightarrow> number \<Rightarrow> (number \<times> Transaction list) result" where
  "advance reporting cutoff [] running = Inr (running, [])"
| "advance reporting cutoff (txn # txns) running =
     (if txn_date txn \<le> cutoff
      then (case delta txn reporting of Inl e \<Rightarrow> Inl e | Inr x \<Rightarrow> advance reporting cutoff txns (num_plus running x))
      else Inr (running, txn # txns))"

fun worth_loop :: "DateRange \<Rightarrow> string \<Rightarrow> string list \<Rightarrow> Transaction list \<Rightarrow> number \<Rightarrow> NetWorthPoint list result" where
  "worth_loop rng reporting [] txns running = Inr []"
| "worth_loop rng reporting (month # months) txns running =
     (let cutoff = lastDayOf month rng
      in case advance reporting cutoff txns running of
           Inl e \<Rightarrow> Inl e
         | Inr (running', rest) \<Rightarrow>
             map_sum id (\<lambda>points. \<lparr>np_date = cutoff, np_amount = running'\<rparr> # points) (worth_loop rng reporting months rest running'))"

definition netWorthOver :: "Account list \<Rightarrow> Transaction list \<Rightarrow> DateRange \<Rightarrow> string \<Rightarrow> (string \<Rightarrow> number option result) \<Rightarrow>
    NetWorthPoint list result" where
  "netWorthOver accounts txns rng reporting rates =
     (case opening_loop reporting rates accounts (Fin 0) of
        Inl e \<Rightarrow> Inl e
      | Inr opening \<Rightarrow> worth_loop rng reporting (monthsIn rng) (sort_key txn_date txns) opening)"

section \<open>Payees, totals and what is left out\<close>

fun payee_loop :: "DateRange \<Rightarrow> string \<Rightarrow> Transaction list \<Rightarrow> (string \<times> number \<times> nat) list \<Rightarrow> (string \<times> number \<times> nat) list result" where
  "payee_loop rng reporting [] entries = Inr entries"
| "payee_loop rng reporting (txn # txns) entries =
     (if txn_kind txn \<noteq> Expense \<or> \<not> Dates.within (txn_date txn) rng \<or> trim (txn_payee txn) = []
      then payee_loop rng reporting txns entries
      else case txn_inReporting txn reporting of
             Inl e \<Rightarrow> Inl e
           | Inr None \<Rightarrow> payee_loop rng reporting txns entries
           | Inr (Some amount) \<Rightarrow>
               payee_loop rng reporting txns (map_update (trim (txn_payee txn)) (add_entry amount) entries))"

definition topPayees :: "(string \<Rightarrow> string \<Rightarrow> int) \<Rightarrow> Transaction list \<Rightarrow> DateRange \<Rightarrow> string \<Rightarrow> nat \<Rightarrow> PayeeTotal list result" where
  "topPayees lc txns rng reporting limit =
     map_sum id (\<lambda>entries. take limit
       (sort_by (\<lambda>a b. or_else (larger_first (py_amount a) (py_amount b)) (lc (py_payee a) (py_payee b)))
         (map (\<lambda>(payee, amount, n). \<lparr>py_payee = payee, py_amount = amount, py_count = n\<rparr>) entries)))
       (payee_loop rng reporting txns [])"

record RangeTotals =
  rt_income :: number
  rt_expense :: number
  rt_net :: number

fun range_loop :: "DateRange \<Rightarrow> string \<Rightarrow> Transaction list \<Rightarrow> number \<times> number \<Rightarrow> (number \<times> number) result" where
  "range_loop rng reporting [] s = Inr s"
| "range_loop rng reporting (txn # txns) (income, expense) =
     (if \<not> Dates.within (txn_date txn) rng then range_loop rng reporting txns (income, expense)
      else case txn_inReporting txn reporting of
             Inl e \<Rightarrow> Inl e
           | Inr None \<Rightarrow> range_loop rng reporting txns (income, expense)
           | Inr (Some amount) \<Rightarrow>
               range_loop rng reporting txns
                 (if txn_kind txn = Income then (num_plus income amount, expense)
                  else if txn_kind txn = Expense then (income, num_plus expense amount) else (income, expense)))"

definition totalsFor :: "Transaction list \<Rightarrow> DateRange \<Rightarrow> string \<Rightarrow> RangeTotals result" where
  "totalsFor txns rng reporting =
     map_sum id (\<lambda>(income, expense). \<lparr>rt_income = income, rt_expense = expense, rt_net = num_plus income (num_neg expense)\<rparr>)
       (range_loop rng reporting txns (Fin 0, Fin 0))"

fun unconverted_loop :: "DateRange \<Rightarrow> string \<Rightarrow> Transaction list \<Rightarrow> nat \<Rightarrow> nat result" where
  "unconverted_loop rng reporting [] n = Inr n"
| "unconverted_loop rng reporting (txn # txns) n =
     (if \<not> Dates.within (txn_date txn) rng \<or> txn_kind txn = Transfer then unconverted_loop rng reporting txns n
      else case txn_inReporting txn reporting of
             Inl e \<Rightarrow> Inl e
           | Inr a \<Rightarrow> unconverted_loop rng reporting txns (if a = None then n + 1 else n))"

definition unconvertedIn :: "Transaction list \<Rightarrow> DateRange \<Rightarrow> string \<Rightarrow> nat result" where
  "unconvertedIn txns rng reporting = unconverted_loop rng reporting txns 0"

section \<open>The service\<close>

datatype RangePreset = PresetMonth | PresetQuarter | PresetHalf | PresetYear | PresetTwelve

definition RANGE_OPTIONS :: "(RangePreset \<times> string) list" where
  "RANGE_OPTIONS =
     [(PresetMonth, ''This month''), (PresetQuarter, ''Last 3 months''), (PresetHalf, ''Last 6 months''),
      (PresetTwelve, ''Last 12 months''), (PresetYear, ''This year'')]"

text \<open>\<open>today\<close> is a local day number; \<open>getFullYear\<close> prints without padding.\<close>

definition monthsBack :: "int \<Rightarrow> int \<Rightarrow> string result" where
  "monthsBack today months = (case civil today of (y, m, d) \<Rightarrow> toIsoDate (new_Date y (m - 1 - months) 1))"

definition from_back :: "int \<Rightarrow> int \<Rightarrow> string \<Rightarrow> DateRange result" where
  "from_back today months to = map_sum id (\<lambda>f. \<lparr>range_from = f, range_to = to\<rparr>) (monthsBack today months)"

definition rangeFor :: "RangePreset \<Rightarrow> int \<Rightarrow> DateRange result" where
  "rangeFor preset today =
     (case toIsoDate (Some today) of
        Inl e \<Rightarrow> Inl e
      | Inr to \<Rightarrow>
          (case preset of
             PresetMonth \<Rightarrow> currentMonth (Some today)
           | PresetQuarter \<Rightarrow> from_back today 2 to
           | PresetHalf \<Rightarrow> from_back today 5 to
           | PresetTwelve \<Rightarrow> from_back today 11 to
           | PresetYear \<Rightarrow> Inr \<lparr>range_from = show_int (fst (civil today)) @ ''-01-01'', range_to = to\<rparr>))"

record ReportData =
  rd_range :: DateRange
  rd_categories :: "CategoryTotal list"
  rd_flow :: "MonthlyFlow list"
  rd_netWorth :: "NetWorthPoint list"
  rd_payees :: "PayeeTotal list"
  rd_totals :: RangeTotals
  rd_currency :: string
  rd_unconverted :: nat

definition bind_result :: "'a result \<Rightarrow> ('a \<Rightarrow> 'b result) \<Rightarrow> 'b result" where
  "bind_result r k = (case r of Inl e \<Rightarrow> Inl e | Inr a \<Rightarrow> k a)"

definition report_data :: "(string \<Rightarrow> string \<Rightarrow> int) \<Rightarrow> string \<Rightarrow> DateRange \<Rightarrow> docket_db \<Rightarrow> ReportData result" where
  "report_data lc today rng d =
     (let txns = transaction_rows d; accounts = account_rows d; categories = category_rows d; reporting = reportingCurrency d
      in bind_result (spendByCategory_report lc txns rng reporting (Some (rootIds categories))) (\<lambda>cats.
         bind_result (flowByMonth txns rng reporting) (\<lambda>flow.
         bind_result (netWorthOver accounts txns rng reporting (\<lambda>currency. rateToReporting d currency today)) (\<lambda>worth.
         bind_result (topPayees lc txns rng reporting 8) (\<lambda>payees.
         bind_result (totalsFor txns rng reporting) (\<lambda>tots.
         bind_result (unconvertedIn txns rng reporting) (\<lambda>unconverted.
         Inr \<lparr>rd_range = rng, rd_categories = cats, rd_flow = flow, rd_netWorth = worth, rd_payees = payees,
              rd_totals = tots, rd_currency = reporting, rd_unconverted = unconverted\<rparr>)))))))"

definition nameFor :: "docket_db \<Rightarrow> string option \<Rightarrow> string" where
  "nameFor d categoryId =
     (case categoryId of
        None \<Rightarrow> ''Uncategorised''
      | Some i \<Rightarrow> with_default ''Deleted category'' (map_of (rev (map (\<lambda>c. (cat_id c, cat_name c)) (category_rows d))) i))"

end
