(* ===== verification/Reports_Exact.thy ===== *)
theory Reports_Exact
  imports Reports
begin

text \<open>
  What reports promise, where the amounts are within the range in which binary64 is exact: the months, the
  categories and the totals of a range are sums of the same amounts, and the points of the net worth are
  the balance up to their dates.
\<close>

section \<open>Sums of groups\<close>

text \<open>\<open>f\<close> gives the converted amount of each transaction, \<open>None\<close> where there is no rate.\<close>

definition converts :: "(Transaction \<Rightarrow> int option) \<Rightarrow> string \<Rightarrow> Transaction list \<Rightarrow> bool" where
  "converts f reporting txns \<longleftrightarrow>
     (\<forall>t \<in> set txns. txn_inReporting t reporting = Inr (map_option minor (f t))) \<and>
     sum_list (map (\<lambda>t. \<bar>with_default 0 (f t)\<bar>) txns) < 2 ^ 53"

definition sum_where :: "(Transaction \<Rightarrow> int option) \<Rightarrow> (Transaction \<Rightarrow> bool) \<Rightarrow> Transaction list \<Rightarrow> int" where
  "sum_where f P txns = sum_list (map (\<lambda>t. with_default 0 (f t)) (filter P txns))"

lemma sum_where_simps [simp]:
  "sum_where f P [] = 0"
  "sum_where f P (t # ts) = (if P t then with_default 0 (f t) else 0) + sum_where f P ts"
  "sum_where f P (ts @ us) = sum_where f P ts + sum_where f P us"
  by (simp_all add: sum_where_def)

lemma sum_where_bound: "\<bar>sum_where f P txns\<bar> \<le> sum_list (map (\<lambda>t. \<bar>with_default 0 (f t)\<bar>) txns)"
  by (induction txns) auto

lemma sum_where_cong: "(\<And>t. t \<in> set txns \<Longrightarrow> P t = Q t) \<Longrightarrow> sum_where f P txns = sum_where f Q txns"
  by (induction txns) auto

lemma sum_list_pick:
  fixes g :: "'k \<Rightarrow> int"
  assumes "distinct ks" and "x \<in> set ks"
  shows "sum_list (map (\<lambda>k. (if k = x then v else 0) + g k) ks) = v + sum_list (map g ks)"
  using assms
proof (induction ks)
  case (Cons k ks)
  have none: "sum_list (map (\<lambda>k. (if k = x then v else 0) + g k) ks) = sum_list (map g ks)" if "x \<notin> set ks"
    using that by (intro arg_cong [where f = sum_list] map_cong) auto
  show ?case
  proof (cases "k = x")
    case True
    then have "x \<notin> set ks" using Cons.prems(1) by simp
    then show ?thesis using none True by simp
  qed (use Cons in simp)
qed simp

text \<open>Summing a list by groups is summing it.\<close>

lemma sum_groups:
  assumes "distinct ks" and "\<And>t. t \<in> set txns \<Longrightarrow> P t \<Longrightarrow> key t \<in> set ks"
  shows "sum_list (map (\<lambda>k. sum_where f (\<lambda>t. P t \<and> key t = k) txns) ks) = sum_where f P txns"
  using assms(2)
proof (induction txns)
  case (Cons t txns)
  have ih: "sum_list (map (\<lambda>k. sum_where f (\<lambda>t. P t \<and> key t = k) txns) ks) = sum_where f P txns" using Cons by simp
  show ?case
  proof (cases "P t")
    case True
    then have "sum_list (map (\<lambda>k. (if k = key t then with_default 0 (f t) else 0) + sum_where f (\<lambda>t. P t \<and> key t = k) txns) ks)
        = with_default 0 (f t) + sum_where f P txns"
      using sum_list_pick [OF assms(1)] Cons.prems [of t] ih by simp
    moreover have "(if P t \<and> key t = k then with_default 0 (f t) else 0) = (if k = key t then with_default 0 (f t) else 0)" for k
      using True by auto
    ultimately show ?thesis using True by simp
  qed (use ih in simp)
qed simp

section \<open>Totals\<close>

abbreviation in_report :: "DateRange \<Rightarrow> TransactionKind \<Rightarrow> Transaction \<Rightarrow> bool" where
  "in_report rng kind t \<equiv> txn_kind t = kind \<and> Dates.within (txn_date t) rng"

lemma range_loop_exact:
  assumes "\<forall>t \<in> set txns. txn_inReporting t reporting = Inr (map_option minor (f t))"
    and "\<bar>i\<bar> + \<bar>x\<bar> + sum_list (map (\<lambda>t. \<bar>with_default 0 (f t)\<bar>) txns) < 2 ^ 53"
  shows "range_loop rng reporting txns (minor i, minor x) =
    Inr (minor (i + sum_where f (in_report rng Income) txns), minor (x + sum_where f (in_report rng Expense) txns))"
  using assms
proof (induction txns arbitrary: i x)
  case (Cons t txns)
  have nn: "0 \<le> sum_list (map (\<lambda>t. \<bar>with_default 0 (f t)\<bar>) txns)" by (induction txns) auto
  show ?case
  proof (cases "f t")
    case None
    then show ?thesis using Cons by (simp add: with_default_def)
  next
    case (Some m)
    have "\<bar>i + m\<bar> < 2 ^ 53" "\<bar>x + m\<bar> < 2 ^ 53" using Cons.prems(2) nn Some by (auto simp: with_default_def)
    then show ?thesis
      using Cons.prems Some Cons.IH [of "i + m" x] Cons.IH [of i "x + m"] Cons.IH [of i x] num_plus_exact [of i m] num_plus_exact [of x m] nn
      by (auto simp: with_default_def add.assoc)
  qed
qed simp

section \<open>Months\<close>

definition bucket :: "(string \<Rightarrow> int) \<Rightarrow> (string \<Rightarrow> int) \<Rightarrow> string \<Rightarrow> MonthlyFlow" where
  "bucket inc spent m = \<lparr>mf_month = m, mf_income = minor (inc m), mf_expense = minor (spent m), mf_net = Fin 0\<rparr>"

abbreviation in_bucket :: "DateRange \<Rightarrow> TransactionKind \<Rightarrow> string \<Rightarrow> Transaction \<Rightarrow> bool" where
  "in_bucket rng kind m t \<equiv> in_report rng kind t \<and> monthKey (txn_date t) = m"

lemma flow_loop_exact:
  assumes "\<forall>t \<in> set txns. txn_inReporting t reporting = Inr (map_option minor (f t))"
    and "\<forall>m. \<bar>inc m\<bar> + \<bar>spent m\<bar> + sum_list (map (\<lambda>t. \<bar>with_default 0 (f t)\<bar>) txns) < 2 ^ 53"
  shows "flow_loop rng reporting txns (map (bucket inc spent) ms) =
    Inr (map (bucket (\<lambda>m. inc m + sum_where f (in_bucket rng Income m) txns) (\<lambda>m. spent m + sum_where f (in_bucket rng Expense m) txns)) ms)"
  using assms
proof (induction txns arbitrary: inc spent)
  case (Cons t txns)
  let ?k = "monthKey (txn_date t)" and ?v = "with_default 0 (f t)"
  let ?i = "inc(?k := inc ?k + (if in_report rng Income t then ?v else 0))" and ?s = "spent(?k := spent ?k + (if in_report rng Expense t then ?v else 0))"
  have nn: "0 \<le> sum_list (map (\<lambda>t. \<bar>with_default 0 (f t)\<bar>) txns)" by (induction txns) auto
  have names: "map mf_month (map (bucket inc spent) ms) = ms" by (simp add: bucket_def comp_def)
  have bound: "\<bar>?i m\<bar> + \<bar>?s m\<bar> + sum_list (map (\<lambda>t. \<bar>with_default 0 (f t)\<bar>) txns) < 2 ^ 53" for m
    using Cons.prems(2) [rule_format, of m] by (auto split: if_splits)
  have ih: "flow_loop rng reporting txns (map (bucket ?i ?s) ms) =
    Inr (map (bucket (\<lambda>m. ?i m + sum_where f (in_bucket rng Income m) txns) (\<lambda>m. ?s m + sum_where f (in_bucket rng Expense m) txns)) ms)"
    using Cons.IH Cons.prems(1) bound by simp
  have ex: "\<bar>inc ?k + m\<bar> < 2 ^ 53" "\<bar>spent ?k + m\<bar> < 2 ^ 53" if "f t = Some m" for m
    using Cons.prems(2) [rule_format, of ?k] nn that by (auto simp: with_default_def)
  have step: "flow_loop rng reporting (t # txns) (map (bucket inc spent) ms) = flow_loop rng reporting txns (map (bucket ?i ?s) ms)"
  proof (cases "Dates.within (txn_date t) rng \<and> ?k \<in> set ms")
    case False
    then have "map (bucket ?i ?s) ms = map (bucket inc spent) ms" by (intro map_cong) (auto simp: bucket_def)
    moreover have "flow_loop rng reporting (t # txns) (map (bucket inc spent) ms) = flow_loop rng reporting txns (map (bucket inc spent) ms)"
      using False names by (simp add: Let_def del: map_map)
    ultimately show ?thesis by presburger
  next
    case True
    have "map (\<lambda>b. if mf_month b = ?k then add_flow (txn_kind t) (minor m) b else b) (map (bucket inc spent) ms) = map (bucket ?i ?s) ms"
      if "f t = Some m" for m
      using True ex [OF that] that num_plus_exact
      by (cases "txn_kind t") (auto simp: bucket_def add_flow_def with_default_def)
    moreover have "map (bucket ?i ?s) ms = map (bucket inc spent) ms" if "f t = None" using that by (simp add: with_default_def)
    ultimately show ?thesis using True names Cons.prems(1) by (cases "f t") (simp_all add: Let_def with_default_def del: map_map)
  qed
  have "map (bucket (\<lambda>m. ?i m + sum_where f (in_bucket rng Income m) txns) (\<lambda>m. ?s m + sum_where f (in_bucket rng Expense m) txns)) ms =
      map (bucket (\<lambda>m. inc m + sum_where f (in_bucket rng Income m) (t # txns)) (\<lambda>m. spent m + sum_where f (in_bucket rng Expense m) (t # txns))) ms"
    by (intro map_cong) (auto simp: bucket_def)
  then show ?case using step ih by presburger
qed (simp add: bucket_def)

section \<open>Groups\<close>

text \<open>The entries a loop over \<open>txns\<close> collects under a key, in the order the keys appear.\<close>

definition grouped :: "(Transaction \<Rightarrow> int option) \<Rightarrow> (Transaction \<Rightarrow> 'k) \<Rightarrow> Transaction list \<Rightarrow> ('k \<times> number \<times> nat) list" where
  "grouped f key txns =
     map (\<lambda>k. (k, minor (sum_where f (\<lambda>t. key t = k) txns), length (filter (\<lambda>t. key t = k) txns))) (unique (map key txns))"

lemma unique_snoc: "unique (xs @ [x]) = (if x \<in> set xs then unique xs else unique xs @ [x])"
  by (simp add: unique_def)

lemma map_update_absent: "k \<notin> fst ` set m \<Longrightarrow> map_update k g m = m @ [(k, g None)]"
  by (induction m) auto

lemma map_update_present:
  "distinct ks \<Longrightarrow> k \<in> set ks \<Longrightarrow> map_update k g (map (\<lambda>k. (k, h k)) ks) = map (\<lambda>k'. (k', if k' = k then g (Some (h k)) else h k')) ks"
  by (induction ks) (auto intro!: map_cong)

lemma grouped_snoc:
  assumes "f t = Some m" and "sum_list (map (\<lambda>t. \<bar>with_default 0 (f t)\<bar>) (txns @ [t])) < 2 ^ 53"
  shows "map_update (key t) (add_entry (minor m)) (grouped f key txns) = grouped f key (txns @ [t])"
proof -
  have "\<bar>sum_where f (\<lambda>u. key u = key t) txns\<bar> + \<bar>m\<bar> < 2 ^ 53"
    using sum_where_bound [of f "\<lambda>u. key u = key t" txns] assms by (simp add: with_default_def)
  then have plus: "num_plus (minor (sum_where f (\<lambda>u. key u = key t) txns)) (minor m) = minor (sum_where f (\<lambda>u. key u = key t) txns + m)"
    by (intro num_plus_exact) linarith
  have m: "\<bar>m\<bar> < 2 ^ 53" using \<open>\<bar>sum_where f (\<lambda>u. key u = key t) txns\<bar> + \<bar>m\<bar> < 2 ^ 53\<close> by linarith
  show ?thesis
  proof (cases "key t \<in> set (map key txns)")
    case True
    then show ?thesis
      using plus assms(1) unfolding grouped_def
      by (subst map_update_present) (auto simp: unique_snoc add_entry_def with_default_def)
  next
    case False
    have none: "filter (\<lambda>u. key u = key t) txns = []" "sum_where f (\<lambda>u. key u = key t) txns = 0"
    proof -
      show "filter (\<lambda>u. key u = key t) txns = []" using False by (induction txns) auto
      then show "sum_where f (\<lambda>u. key u = key t) txns = 0" by (simp add: sum_where_def)
    qed
    have old: "(sum_where f (\<lambda>u. key u = k) (txns @ [t]), filter (\<lambda>u. key u = k) (txns @ [t])) =
        (sum_where f (\<lambda>u. key u = k) txns, filter (\<lambda>u. key u = k) txns)" if "k \<in> key ` set txns" for k
      using False that by auto
    have "map_update (key t) (add_entry (minor m)) (grouped f key txns) = grouped f key txns @ [(key t, add_entry (minor m) None)]"
      by (rule map_update_absent) (use False in \<open>auto simp: grouped_def\<close>)
    also have "add_entry (minor m) None = (minor m, 1)"
      using num_plus_exact [of 0 m] m by (simp add: add_entry_def with_default_def)
    also have "grouped f key txns @ [(key t, minor m, 1)] = grouped f key (txns @ [t])"
      using False none old assms(1) by (auto simp: grouped_def unique_snoc with_default_def)
    finally show ?thesis .
  qed
qed

lemma grouped_Nil [simp]: "grouped f key [] = []"
  by (simp add: grouped_def unique_def)

lemma abs_sum_filter: "sum_list (map (\<lambda>t. \<bar>with_default 0 (f t)\<bar> :: int) (filter P ts)) \<le> sum_list (map (\<lambda>t. \<bar>with_default 0 (f t)\<bar>) ts)"
  by (induction ts) auto

text \<open>The transactions a loop counts.\<close>

definition counted_in :: "(Transaction \<Rightarrow> int option) \<Rightarrow> (Transaction \<Rightarrow> bool) \<Rightarrow> Transaction list \<Rightarrow> Transaction list" where
  "counted_in f P txns = filter (\<lambda>t. P t \<and> f t \<noteq> None) txns"

lemma category_loop_exact:
  assumes "\<forall>t \<in> set txns. txn_inReporting t reporting = Inr (map_option minor (f t))"
    and "sum_list (map (\<lambda>t. \<bar>with_default 0 (f t)\<bar>) (ps @ txns)) < 2 ^ 53"
  shows "category_loop rng reporting roots txns (grouped f (category_key roots) ps) =
    Inr (grouped f (category_key roots) (ps @ counted_in f (in_report rng Expense) txns))"
  using assms
proof (induction txns arbitrary: ps)
  case (Cons t txns)
  have nn: "0 \<le> sum_list (map (\<lambda>t. \<bar>with_default 0 (f t)\<bar>) txns)" for txns by (induction txns) auto
  show ?case
  proof (cases "in_report rng Expense t \<and> f t \<noteq> None")
    case False
    then show ?thesis using Cons.IH [of ps] Cons.prems by (auto simp: counted_in_def)
  next
    case True
    then obtain m where m: "f t = Some m" by auto
    have "map_update (category_key roots t) (add_entry (minor m)) (grouped f (category_key roots) ps) = grouped f (category_key roots) (ps @ [t])"
      by (rule grouped_snoc [where f = f and t = t and m = m, OF m]) (use Cons.prems(2) nn [of txns] in simp)
    then show ?thesis using Cons.IH [of "ps @ [t]"] Cons.prems True m by (simp add: counted_in_def)
  qed
qed (simp add: counted_in_def)

lemma unconverted_loop_exact:
  assumes "\<forall>t \<in> set txns. txn_inReporting t reporting = Inr (map_option minor (f t))"
  shows "unconverted_loop rng reporting txns n =
    Inr (n + length (filter (\<lambda>t. Dates.within (txn_date t) rng \<and> txn_kind t \<noteq> Transfer \<and> f t = None) txns))"
  using assms by (induction txns arbitrary: n) auto

section \<open>The months of a range\<close>

definition report_range :: "DateRange \<Rightarrow> bool" where
  "report_range rng \<longleftrightarrow> ledger_date (range_from rng) \<and> ledger_date (range_to rng) \<and> range_from rng \<le> range_to rng \<and>
     monthno (range_to rng) - monthno (range_from rng) < 1200"

lemma report_months:
  assumes "report_range rng"
  shows "monthsIn rng = map key_of_month [monthno (range_from rng)..monthno (range_to rng)]"
    "0 \<le> monthno (range_from rng)" "monthno (range_to rng) \<le> 119999"
    "ledger_date s \<Longrightarrow> Dates.within s rng \<Longrightarrow> monthKey s \<in> set (monthsIn rng)"
proof -
  note r = assms [unfolded report_range_def]
  show eq: "monthsIn rng = map key_of_month [monthno (range_from rng)..monthno (range_to rng)]"
    using monthsIn_eq [of "range_from rng" "range_to rng"] r by (cases rng) simp
  show "0 \<le> monthno (range_from rng)" "monthno (range_to rng) \<le> 119999"
    using monthno_calendar [of "range_from rng"] monthno_calendar [of "range_to rng"] r by (auto simp: in_month_calendar_def)
  show "monthKey s \<in> set (monthsIn rng)" if "ledger_date s" "Dates.within s rng"
    using that r monthno_mono [of "range_from rng" s] monthno_mono [of s "range_to rng"]
    by (auto simp: eq monthKey_date Dates.within_def)
qed

lemma distinct_months:
  assumes "report_range rng"
  shows "distinct (monthsIn rng)"
proof -
  let ?a = "monthno (range_from rng)" and ?b = "monthno (range_to rng)"
  have "x = y" if "x \<in> {?a..?b}" "y \<in> {?a..?b}" "key_of_month x = key_of_month y" for x y
    using that key_of_month_less_iff [of x y] key_of_month_less_iff [of y x] report_months(2,3) [OF assms] by auto
  then have "inj_on key_of_month {?a..?b}" by (auto simp: inj_on_def)
  then show ?thesis by (simp add: report_months(1) [OF assms] distinct_map)
qed

section \<open>A report adds up\<close>

fun units :: "number \<Rightarrow> int" where
  "units (Fin x) = \<lfloor>x\<rfloor>"
| "units _ = 0"

lemma sum_where_apart:
  assumes "\<And>t. \<not> (P t \<and> Q t)"
  shows "\<bar>sum_where f P txns - sum_where f Q txns\<bar> \<le> sum_list (map (\<lambda>t. \<bar>with_default 0 (f t)\<bar>) txns)"
proof (induction txns)
  case (Cons t txns)
  then show ?case using assms [of t] by auto
qed simp

lemma minus_exact: "\<bar>a - b\<bar> < 2 ^ 53 \<Longrightarrow> fl (rat_of_int a - rat_of_int b) = Fin (rat_of_int a - rat_of_int b)"
  using num_plus_exact [of a "- b"] by simp

lemma totalsFor_exact:
  assumes "converts f reporting txns"
  shows "totalsFor txns rng reporting = Inr \<lparr>rt_income = minor (sum_where f (in_report rng Income) txns),
    rt_expense = minor (sum_where f (in_report rng Expense) txns),
    rt_net = minor (sum_where f (in_report rng Income) txns - sum_where f (in_report rng Expense) txns)\<rparr>"
proof -
  have "\<bar>sum_where f (in_report rng Income) txns - sum_where f (in_report rng Expense) txns\<bar> < 2 ^ 53"
    using sum_where_apart [of "in_report rng Income" "in_report rng Expense" f txns] assms by (auto simp: converts_def)
  then show ?thesis
    using range_loop_exact [of txns reporting f 0 0 rng] assms by (simp add: totalsFor_def converts_def minus_exact)
qed

definition month_flow :: "(Transaction \<Rightarrow> int option) \<Rightarrow> DateRange \<Rightarrow> Transaction list \<Rightarrow> string \<Rightarrow> MonthlyFlow" where
  "month_flow f rng txns m =
     \<lparr>mf_month = m, mf_income = minor (sum_where f (in_bucket rng Income m) txns),
      mf_expense = minor (sum_where f (in_bucket rng Expense m) txns),
      mf_net = minor (sum_where f (in_bucket rng Income m) txns - sum_where f (in_bucket rng Expense m) txns)\<rparr>"

lemma flowByMonth_exact:
  assumes "converts f reporting txns" and "report_range rng"
  shows "flowByMonth txns rng reporting = Inr (map (month_flow f rng txns) (monthsIn rng))"
proof -
  have "\<bar>sum_where f (in_bucket rng Income m) txns - sum_where f (in_bucket rng Expense m) txns\<bar> < 2 ^ 53" for m
    using sum_where_apart [of "in_bucket rng Income m" "in_bucket rng Expense m" f txns] assms by (auto simp: converts_def)
  moreover have "empty_flow = bucket (\<lambda>_. 0) (\<lambda>_. 0)" by (auto simp: empty_flow_def bucket_def)
  moreover have "flow_loop rng reporting txns (map (bucket (\<lambda>_. 0) (\<lambda>_. 0)) (monthsIn rng)) = Inr (map (bucket
      (\<lambda>m. sum_where f (in_bucket rng Income m) txns) (\<lambda>m. sum_where f (in_bucket rng Expense m) txns)) (monthsIn rng))"
    using flow_loop_exact [of txns reporting f "\<lambda>_. 0" "\<lambda>_. 0" rng "monthsIn rng"] assms(1) by (simp add: converts_def)
  ultimately show ?thesis
    using distinct_months [OF assms(2)] by (simp add: flowByMonth_def unique_distinct bucket_def month_flow_def minus_exact)
qed

lemma category_rows_exact:
  assumes "converts f reporting txns" and "spendByCategory_report lc txns rng reporting roots = r"
  shows "\<exists>cats. r = Inr cats \<and> mset (map (\<lambda>c. (ct_categoryId c, ct_amount c, ct_count c)) cats) =
    mset (grouped f (category_key roots) (counted_in f (in_report rng Expense) txns))"
proof -
  let ?g = "grouped f (category_key roots) (counted_in f (in_report rng Expense) txns)"
  have "r = Inr (category_totals lc ?g)"
    using category_loop_exact [of txns reporting f "[]" rng roots] assms by (simp add: converts_def spendByCategory_report_def)
  moreover have "image_mset (\<lambda>c. (ct_categoryId c, ct_amount c, ct_count c)) (mset (category_totals lc ?g)) = mset ?g"
    by (simp add: category_totals_def Let_def image_mset.compositionality comp_def case_prod_beta)
  ultimately show ?thesis by simp
qed

lemma sum_where_counted: "sum_where f (\<lambda>t. Q t) (counted_in f P txns) = sum_where f (\<lambda>t. P t \<and> Q t) txns"
  by (induction txns) (auto simp: counted_in_def with_default_def split: option.splits)

lemma grouped_sums:
  "sum_list (map (\<lambda>(k, a, n). units a) (grouped f key ps)) = sum_where f (\<lambda>_. True) ps"
  "distinct (map fst (grouped f key ps))"
  using sum_groups [where ks = "unique (map key ps)" and txns = ps and P = "\<lambda>_. True" and key = key and f = f]
  by (simp_all add: grouped_def comp_def)

lemma sum_list_mset_cong: "mset xs = mset ys \<Longrightarrow> sum_list (map h xs) = (sum_list (map h ys) :: int)"
  by (metis mset_map sum_mset_sum_list)

text \<open>C23: a report adds up. For amounts within the exact range, and dates of the calendar: the totals are the
  sums of the income and of the expenses of the range; every month of the range, also one without a
  transaction, has its own flow, which is the sum over that month, and the months together give the
  totals; every category stands once, with the sum over its transactions, and the categories together
  give the expenses; and the transactions left out for want of a rate are counted. No transfer counts
  anywhere.\<close>

theorem report_adds_up:
  assumes "converts f reporting txns" and "report_range rng" and "\<forall>t \<in> set txns. ledger_date (txn_date t)"
  shows "\<exists>tot cats. totalsFor txns rng reporting = Inr tot \<and> spendByCategory_report lc txns rng reporting roots = Inr cats \<and>
    flowByMonth txns rng reporting = Inr (map (month_flow f rng txns) (monthsIn rng)) \<and>
    rt_income tot = minor (sum_where f (in_report rng Income) txns) \<and>
    rt_expense tot = minor (sum_where f (in_report rng Expense) txns) \<and>
    rt_net tot = minor (sum_where f (in_report rng Income) txns - sum_where f (in_report rng Expense) txns) \<and>
    sum_list (map (\<lambda>m. units (mf_income (month_flow f rng txns m))) (monthsIn rng)) = units (rt_income tot) \<and>
    sum_list (map (\<lambda>m. units (mf_expense (month_flow f rng txns m))) (monthsIn rng)) = units (rt_expense tot) \<and>
    sum_list (map (\<lambda>c. units (ct_amount c)) cats) = units (rt_expense tot) \<and> distinct (map ct_categoryId cats) \<and>
    set cats \<subseteq> {c. ct_amount c = minor (sum_where f (\<lambda>t. in_report rng Expense t \<and> category_key roots t = ct_categoryId c) txns)} \<and>
    unconvertedIn txns rng reporting =
      Inr (length (filter (\<lambda>t. Dates.within (txn_date t) rng \<and> txn_kind t \<noteq> Transfer \<and> f t = None) txns))"
proof -
  let ?g = "grouped f (category_key roots) (counted_in f (in_report rng Expense) txns)"
  obtain cats where cats: "spendByCategory_report lc txns rng reporting roots = Inr cats"
    and same: "mset (map (\<lambda>c. (ct_categoryId c, ct_amount c, ct_count c)) cats) = mset ?g"
    using category_rows_exact [OF assms(1) refl] by blast
  have months: "sum_list (map (\<lambda>m. sum_where f (in_bucket rng kind m) txns) (monthsIn rng)) = sum_where f (in_report rng kind) txns" for kind
    using sum_groups [OF distinct_months [OF assms(2)], where P = "in_report rng kind" and key = "\<lambda>t. monthKey (txn_date t)" and txns = txns and f = f]
      report_months(4) [OF assms(2)] assms(3) by auto
  have "sum_list (map (\<lambda>c. units (ct_amount c)) cats) = sum_list (map (\<lambda>(k, a, n). units a) ?g)"
    using sum_list_mset_cong [OF same, of "\<lambda>(k, a, n). units a"] by (simp add: comp_def)
  then have spent: "sum_list (map (\<lambda>c. units (ct_amount c)) cats) = sum_where f (in_report rng Expense) txns"
    using sum_where_counted [of f "\<lambda>_. True"] by (simp add: grouped_sums)
  have "mset (map ct_categoryId cats) = mset (map fst ?g)"
    using arg_cong [OF same, of "image_mset fst"] by (simp add: image_mset.compositionality comp_def)
  then have dist: "distinct (map ct_categoryId cats)" using grouped_sums(2) mset_eq_imp_distinct_iff by blast
  have "(ct_categoryId c, ct_amount c, ct_count c) \<in> set ?g" if "c \<in> set cats" for c
    using that mset_eq_setD [OF same] by auto
  then have each: "ct_amount c = minor (sum_where f (\<lambda>t. in_report rng Expense t \<and> category_key roots t = ct_categoryId c) txns)"
    if "c \<in> set cats" for c
    using that by (fastforce simp: grouped_def sum_where_counted)
  show ?thesis
    using totalsFor_exact [OF assms(1), of rng] flowByMonth_exact [OF assms(1,2)] cats months spent dist each
      unconverted_loop_exact [of txns reporting f rng 0] assms(1)
    by (auto simp: month_flow_def unconvertedIn_def converts_def)
qed

section \<open>Net worth\<close>

definition signed :: "(Transaction \<Rightarrow> int option) \<Rightarrow> Transaction \<Rightarrow> int" where
  "signed f t = (case txn_kind t of Transfer \<Rightarrow> 0 | Income \<Rightarrow> with_default 0 (f t) | Expense \<Rightarrow> - with_default 0 (f t))"

definition moved_by :: "(Transaction \<Rightarrow> int option) \<Rightarrow> string \<Rightarrow> Transaction list \<Rightarrow> int" where
  "moved_by f date txns = sum_list (map (signed f) (filter (\<lambda>t. txn_date t \<le> date) txns))"

lemma delta_exact: "txn_inReporting t reporting = Inr (map_option minor (f t)) \<Longrightarrow> delta t reporting = Inr (minor (signed f t))"
  by (cases "txn_kind t"; cases "f t") (auto simp: delta_def signed_def with_default_def)

lemma signed_bound: "\<bar>signed f t\<bar> \<le> \<bar>with_default 0 (f t)\<bar>"
  by (cases "txn_kind t") (auto simp: signed_def)

lemma advance_exact:
  assumes "\<forall>t \<in> set txns. txn_inReporting t reporting = Inr (map_option minor (f t))"
    and "\<bar>r\<bar> + sum_list (map (\<lambda>t. \<bar>with_default 0 (f t)\<bar>) txns) < 2 ^ 53" and "sorted (map txn_date txns)"
  shows "advance reporting c txns (minor r) = Inr (minor (r + moved_by f c txns), filter (\<lambda>t. \<not> txn_date t \<le> c) txns)"
  using assms
proof (induction txns arbitrary: r)
  case (Cons t txns)
  have nn: "0 \<le> sum_list (map (\<lambda>t. \<bar>with_default 0 (f t)\<bar>) txns)" by (induction txns) auto
  show ?case
  proof (cases "txn_date t \<le> c")
    case True
    have "\<bar>r + signed f t\<bar> + sum_list (map (\<lambda>t. \<bar>with_default 0 (f t)\<bar>) txns) < 2 ^ 53"
      using Cons.prems(2) signed_bound [of f t] by simp
    then show ?thesis
      using True Cons.IH [of "r + signed f t"] Cons.prems num_plus_exact [of r "signed f t"] delta_exact [of t reporting f] nn
      by (simp add: moved_by_def add.assoc)
  next
    case False
    then have "\<forall>u \<in> set txns. \<not> txn_date u \<le> c" using Cons.prems(3) by auto
    then show ?thesis using False by (simp add: moved_by_def)
  qed
qed (simp add: moved_by_def)

lemma moved_split:
  assumes "c \<le> c'"
  shows "moved_by f c txns + moved_by f c' (filter (\<lambda>t. \<not> txn_date t \<le> c) txns) = moved_by f c' txns"
  using assms by (induction txns) (auto simp: moved_by_def)

lemma moved_bound:
  "\<bar>moved_by f c txns\<bar> + sum_list (map (\<lambda>t. \<bar>with_default 0 (f t)\<bar>) (filter (\<lambda>t. \<not> txn_date t \<le> c) txns))
     \<le> sum_list (map (\<lambda>t. \<bar>with_default 0 (f t)\<bar>) txns)"
proof (induction txns)
  case (Cons t txns)
  then show ?case using signed_bound [of f t] by (auto simp: moved_by_def)
qed (simp add: moved_by_def)

lemma worth_loop_exact:
  assumes "\<forall>t \<in> set txns. txn_inReporting t reporting = Inr (map_option minor (f t))"
    and "\<bar>r\<bar> + sum_list (map (\<lambda>t. \<bar>with_default 0 (f t)\<bar>) txns) < 2 ^ 53" and "sorted (map txn_date txns)"
    and "sorted (map (\<lambda>m. lastDayOf m rng) months)"
  shows "worth_loop rng reporting months txns (minor r) =
    Inr (map (\<lambda>m. \<lparr>np_date = lastDayOf m rng, np_amount = minor (r + moved_by f (lastDayOf m rng) txns)\<rparr>) months)"
  using assms
proof (induction months arbitrary: r txns)
  case (Cons m months)
  let ?c = "lastDayOf m rng" and ?rest = "filter (\<lambda>t. \<not> txn_date t \<le> lastDayOf m rng) txns"
  have adv: "advance reporting ?c txns (minor r) = Inr (minor (r + moved_by f ?c txns), ?rest)"
    by (rule advance_exact [OF Cons.prems(1-3)])
  have "worth_loop rng reporting months ?rest (minor (r + moved_by f ?c txns)) =
      Inr (map (\<lambda>m. \<lparr>np_date = lastDayOf m rng, np_amount = minor (r + moved_by f ?c txns + moved_by f (lastDayOf m rng) ?rest)\<rparr>) months)"
    using Cons.prems moved_bound [of f ?c txns] by (intro Cons.IH) (auto simp: sorted_filter)
  moreover have "moved_by f ?c txns + moved_by f (lastDayOf m' rng) ?rest = moved_by f (lastDayOf m' rng) txns" if "m' \<in> set months" for m'
    using Cons.prems(4) that by (intro moved_split) auto
  ultimately show ?case using adv by (auto simp: Let_def add.assoc simp flip: of_int_add)
qed simp

lemma lastDayOf_sorted:
  assumes "report_range rng"
  shows "sorted (map (\<lambda>m. lastDayOf m rng) (monthsIn rng))"
proof -
  let ?e = "\<lambda>m. m @ ''-'' @ padStart 2 CHR ''0'' (case (case (js_Number (Prelude.slice 0 4 m), js_Number (Prelude.slice 5 7 m)) of
      (Some y, Some n) \<Rightarrow> daysInMonth (int y) (int n) | _ \<Rightarrow> None) of None \<Rightarrow> ''NaN'' | Some n \<Rightarrow> String_of (nat n))"
  have "(if x > y then y else x) = min y x" for x y :: string by (auto simp: min_def)
  then have e: "lastDayOf m rng = min (range_to rng) (?e m)" for m unfolding lastDayOf_def Let_def by blast
  have len: "length (key_of_month k) = 7" for k by (simp add: key_of_month_def)
  have "lastDayOf (key_of_month k) rng \<le> lastDayOf (key_of_month k') rng"
    if "k \<le> k'" "k \<in> {monthno (range_from rng)..monthno (range_to rng)}" "k' \<in> {monthno (range_from rng)..monthno (range_to rng)}" for k k'
  proof (cases "k = k'")
    case False
    then have "key_of_month k < key_of_month k'" using that key_of_month_less_iff [of k k'] report_months(2,3) [OF assms] by auto
    then have "?e (key_of_month k) < ?e (key_of_month k')" by (intro append_less_mono) (simp_all only: len)
    then show ?thesis unfolding e by (intro min.mono) (simp_all only: order_refl less_imp_le)
  qed simp
  then have "sorted_wrt (\<lambda>k k'. lastDayOf (key_of_month k) rng \<le> lastDayOf (key_of_month k') rng) [monthno (range_from rng)..monthno (range_to rng)]"
    by (intro sorted_wrt_mono_rel [OF _ sorted_upto]) auto
  then show ?thesis by (simp add: report_months(1) [OF assms] sorted_map sorted_wrt_map)
qed

lemma lastDayOf_end:
  assumes "ledger_date s" and "range_to rng = s"
  shows "lastDayOf (key_of_month (monthno s)) rng = s"
proof -
  from assms(1) obtain y m d where s: "s = iso y m d" "100 \<le> y" "y \<le> 9999" "valid_ymd y m d" "ymd s = (y, m, d)" "iso_bounds y m d"
    by (rule ledger_dateE)
  have ym: "monthno s div 12 = y" "monthno s mod 12 + 1 = m" using s(4,5) by (auto simp: monthno_def valid_ymd_def)
  have m: "1 \<le> m" "m \<le> 12" "d \<le> month_len y m" using s(4) by (auto simp: valid_ymd_def)
  have "Prelude.slice 0 4 (Prelude.slice 0 7 s) = Prelude.slice 0 4 s" "Prelude.slice 5 7 (Prelude.slice 0 7 s) = Prelude.slice 5 7 s"
    by (simp_all add: slice_def take_drop min_def)
  then have "js_Number (Prelude.slice 0 4 (key_of_month (monthno s))) = Some (nat y)" "js_Number (Prelude.slice 5 7 (key_of_month (monthno s))) = Some (nat m)"
    using month_numbers(1,2) [OF assms(1)] monthKey_date [OF assms(1)] ym by (simp_all add: monthKey_def)
  moreover have "daysInMonth (int (nat y)) (int (nat m)) = Some (month_len y m)" using daysInMonth_len [of y m] s(2,3) m by simp
  moreover have "key_of_month (monthno s) @ ''-'' @ padStart 2 CHR ''0'' (String_of (nat (month_len y m))) = iso y m (month_len y m)"
    using month_len_bounds(2) [of y m] unfolding key_of_month_def ym by (simp add: iso_def padStart_to_base del: fixed.simps)
  moreover have "\<not> iso y m (month_len y m) < iso y m d"
    using iso_less_iff [OF valid_bounds s(6)] s(2,3) m month_len_bounds(1) [of y m] by (auto simp: valid_ymd_def)
  ultimately show ?thesis using assms(2) s(1) by (auto simp: lastDayOf_def Let_def)
qed

text \<open>C24: the net worth of a report. Each month of the range has one point, at its last day or at the end of
  the range, whose amount is the opening balances plus everything earned minus everything spent up to
  that day, before the range too; transfers change nothing, and the last point is the end of the range.
  The single pass over the sorted transactions thus gives what scanning the ledger for every month
  would.\<close>

theorem net_worth_over:
  assumes "converts f reporting txns" and "report_range rng" and "opening_loop reporting rates accounts (Fin 0) = Inr (minor initial)"
    and "\<bar>initial\<bar> + sum_list (map (\<lambda>t. \<bar>with_default 0 (f t)\<bar>) txns) < 2 ^ 53"
  shows "netWorthOver accounts txns rng reporting rates =
      Inr (map (\<lambda>m. \<lparr>np_date = lastDayOf m rng, np_amount = minor (initial + moved_by f (lastDayOf m rng) txns)\<rparr>) (monthsIn rng)) \<and>
    monthsIn rng \<noteq> [] \<and> lastDayOf (last (monthsIn rng)) rng = range_to rng"
proof -
  let ?s = "sort_key txn_date txns"
  have "sum_list (map (\<lambda>t. \<bar>with_default 0 (f t)\<bar>) ?s) = sum_list (map (\<lambda>t. \<bar>with_default 0 (f t)\<bar>) txns)"
    by (rule sum_list_mset_cong) simp
  moreover have "moved_by f c ?s = moved_by f c txns" for c
    unfolding moved_by_def by (rule sum_list_mset_cong) simp
  ultimately have "netWorthOver accounts txns rng reporting rates =
      Inr (map (\<lambda>m. \<lparr>np_date = lastDayOf m rng, np_amount = minor (initial + moved_by f (lastDayOf m rng) txns)\<rparr>) (monthsIn rng))"
    using worth_loop_exact [of ?s reporting f initial rng "monthsIn rng"] assms lastDayOf_sorted [OF assms(2)]
    by (simp add: netWorthOver_def converts_def)
  moreover have "monthno (range_from rng) \<le> monthno (range_to rng)"
    using assms(2) monthno_mono by (auto simp: report_range_def)
  moreover have "last [a..b] = b" if "a \<le> b" for a b :: int using that by (simp add: upto_rec2)
  ultimately show ?thesis
    using lastDayOf_end [of "range_to rng" rng] assms(2) by (simp add: report_months(1) last_map report_range_def)
qed

section \<open>Witnesses\<close>

definition sample_range :: DateRange where
  "sample_range = \<lparr>range_from = ''2023-12-01'', range_to = ''2024-04-15''\<rparr>"

lemma sample_report:
  "converts (\<lambda>t. Some 1250) ''EUR'' [sample_txn]" "report_range sample_range" "\<forall>t \<in> set [sample_txn]. ledger_date (txn_date t)"
proof -
  have "ledger_date ''2023-12-01''" "ledger_date ''2024-04-15''" "monthno ''2024-04-15'' - monthno ''2023-12-01'' < 1200" by code_simp+
  then show "report_range sample_range" by (simp add: report_range_def sample_range_def)
  show "converts (\<lambda>t. Some 1250) ''EUR'' [sample_txn]"
    by (simp add: converts_def with_default_def sample_txn_def txn_inReporting_def inReporting_def sameCurrency_def)
  have "ledger_date (txn_date sample_txn)" by code_simp
  then show "\<forall>t \<in> set [sample_txn]. ledger_date (txn_date t)" by simp
qed

theorem report_adds_up_witness:
  "\<exists>tot cats. totalsFor [sample_txn] sample_range ''EUR'' = Inr tot \<and>
     spendByCategory_report (\<lambda>_ _. 0) [sample_txn] sample_range ''EUR'' None = Inr cats \<and>
     rt_expense tot = minor 1250 \<and> sum_list (map (\<lambda>c. units (ct_amount c)) cats) = 1250"
proof -
  have "in_report sample_range Expense sample_txn" by (simp add: sample_txn_def sample_range_def Dates.within_def)
  then show ?thesis using report_adds_up [OF sample_report, of "\<lambda>_ _. 0" None] by (auto simp: with_default_def)
qed

theorem net_worth_over_witness:
  "\<exists>points. netWorthOver [] [sample_txn] sample_range ''EUR'' (\<lambda>_. Inr None) = Inr points \<and> length points = 5 \<and>
     np_amount (last points) = minor (- 1250)"
proof -
  have "monthsIn sample_range = [''2023-12'', ''2024-01'', ''2024-02'', ''2024-03'', ''2024-04'']" by code_simp
  moreover have "moved_by (\<lambda>t. Some 1250) (range_to sample_range) [sample_txn] = - 1250"
    by (simp add: moved_by_def sample_txn_def sample_range_def signed_def with_default_def)
  ultimately show ?thesis
    using net_worth_over [OF sample_report(1,2), where rates = "\<lambda>_. Inr None" and accounts = "[]" and initial = 0]
    by (simp add: with_default_def)
qed

end
