(* ===== verification/Settings.thy ===== *)
theory Settings
  imports Keys Sync Csv
begin

text \<open>
  The sync settings, credentials included, as they are kept on the device
  (\<open>core/sync/sync-settings.service.ts\<close>), and when a cycle is started
  (\<open>core/sync/sync-scheduler.service.ts\<close>). Settings are sealed under the vault's key and written as base64 to
  the \<open>meta\<close> table. The scheduler is a state with a timer, and its triggers answer whether a cycle runs.
  The theorem shows that what is saved is read back, and by nobody without the key.
\<close>

section \<open>Settings\<close>

definition SETTINGS_KEY :: string where "SETTINGS_KEY = ''sync.settings''"

text \<open>What is read may have been written by an older build, and then lacks fields.\<close>

record SettingsBlob =
  sb_target :: "SyncTarget option"
  sb_intervalMinutes :: "int option"
  sb_syncOnReconnect :: "bool option"
  sb_wifiOnly :: "bool option"

definition blob_of :: "SyncSettings \<Rightarrow> SettingsBlob" where
  "blob_of s = \<lparr>sb_target = Some (ss_target s), sb_intervalMinutes = Some (ss_intervalMinutes s),
     sb_syncOnReconnect = Some (ss_syncOnReconnect s), sb_wifiOnly = Some (ss_wifiOnly s)\<rparr>"

definition or_default :: "'a \<Rightarrow> 'a option \<Rightarrow> 'a" where
  "or_default x v = (case v of None \<Rightarrow> x | Some y \<Rightarrow> y)"

definition merge_settings :: "SettingsBlob \<Rightarrow> SyncSettings" where
  "merge_settings b =
     \<lparr>ss_target = or_default (ss_target DEFAULT_SYNC_SETTINGS) (sb_target b),
      ss_intervalMinutes = or_default (ss_intervalMinutes DEFAULT_SYNC_SETTINGS) (sb_intervalMinutes b),
      ss_syncOnReconnect = or_default (ss_syncOnReconnect DEFAULT_SYNC_SETTINGS) (sb_syncOnReconnect b),
      ss_wifiOnly = or_default (ss_wifiOnly DEFAULT_SYNC_SETTINGS) (sb_wifiOnly b)\<rparr>"

record settings_state =
  sst_db :: docket_db
  sst_current :: SyncSettings

text \<open>\<open>row.value as string\<close>, as \<open>atob\<close> reads it.\<close>

fun meta_text :: "meta_value \<Rightarrow> string" where
  "meta_text (MetaString s) = s"
| "meta_text (MetaNumber n) = show_int n"
| "meta_text (ClockState _) = ''[object Object]''"

definition open_settings :: "'k web_crypto \<Rightarrow> EnvelopeHeader json \<Rightarrow> SettingsBlob json \<Rightarrow> 'k keyring \<Rightarrow> string \<Rightarrow> SettingsBlob result" where
  "open_settings C J V keys text =
     (case requireKey keys of
        Inl e \<Rightarrow> Inl e
      | Inr key \<Rightarrow>
          (case fromBase64 text of
             Inl e \<Rightarrow> Inl e
           | Inr sealed \<Rightarrow> (case openJson C J V key sealed of Inl e \<Rightarrow> Inl e | Inr (header, blob) \<Rightarrow> Inr blob)))"

definition settings_load :: "'k web_crypto \<Rightarrow> EnvelopeHeader json \<Rightarrow> SettingsBlob json \<Rightarrow> 'k keyring \<Rightarrow> (settings_state, SyncSettings) call" where
  "settings_load C J V keys st =
     (case tget (meta (sst_db st)) SETTINGS_KEY of
        None \<Rightarrow> (Inr DEFAULT_SYNC_SETTINGS, st\<lparr>sst_current := DEFAULT_SYNC_SETTINGS\<rparr>)
      | Some v \<Rightarrow>
          (case open_settings C J V keys (meta_text v) of
             Inl e \<Rightarrow> (Inl e, st)
           | Inr blob \<Rightarrow> (Inr (merge_settings blob), st\<lparr>sst_current := merge_settings blob\<rparr>)))"

definition settings_header :: "string \<Rightarrow> string \<Rightarrow> EnvelopeHeader" where
  "settings_header vaultId deviceId = \<lparr>hd_v = vaultId, hd_d = deviceId, hd_h = [], hd_t = ''settings''\<rparr>"

definition settings_save :: "'k web_crypto \<Rightarrow> EnvelopeHeader json \<Rightarrow> SettingsBlob json \<Rightarrow> bytes \<Rightarrow> 'k keyring \<Rightarrow> SyncSettings \<Rightarrow>
    (settings_state, unit) call" where
  "settings_save C J V iv keys settings st =
     (case (requireKey keys, requireVaultId keys, requireDeviceId keys) of
        (Inl e, _, _) \<Rightarrow> (Inl e, st)
      | (Inr _, Inl e, _) \<Rightarrow> (Inl e, st)
      | (Inr _, Inr _, Inl e) \<Rightarrow> (Inl e, st)
      | (Inr key, Inr vaultId, Inr deviceId) \<Rightarrow>
          (case sealJson C J V iv key (settings_header vaultId deviceId) (blob_of settings) of
             Inl e \<Rightarrow> (Inl e, st)
           | Inr sealed \<Rightarrow>
               (Inr (), st\<lparr>sst_db := (sst_db st)\<lparr>meta := tput SETTINGS_KEY (MetaString (toBase64 sealed)) (meta (sst_db st))\<rparr>,
                  sst_current := settings\<rparr>)))"

definition settings_clear :: "settings_state \<Rightarrow> settings_state" where
  "settings_clear st = st\<lparr>sst_db := (sst_db st)\<lparr>meta := tdelete SETTINGS_KEY (meta (sst_db st))\<rparr>, sst_current := DEFAULT_SYNC_SETTINGS\<rparr>"

section \<open>The scheduler\<close>

record scheduler =
  sch_timer :: "int option"
  sch_started :: bool

datatype trigger = TimerFired | NetworkChanged bool string | Resumed

definition disarm :: "scheduler \<Rightarrow> scheduler" where
  "disarm s = (case sch_timer s of Some _ \<Rightarrow> s\<lparr>sch_timer := None\<rparr> | None \<Rightarrow> s)"

definition arm :: "int \<Rightarrow> scheduler \<Rightarrow> scheduler" where
  "arm intervalMinutes s =
     (let s = disarm s in if intervalMinutes \<le> 0 then s else s\<lparr>sch_timer := Some (intervalMinutes * 60000)\<rparr>)"

text \<open>The effect of the constructor, which runs whenever the settings or the state of the vault change.\<close>

definition rearm :: "SyncSettings \<Rightarrow> 'k keyring \<Rightarrow> scheduler \<Rightarrow> scheduler" where
  "rearm settings keys = arm (if kr_state keys = Unlocked then ss_intervalMinutes settings else 0)"

definition scheduler_start :: "scheduler \<Rightarrow> scheduler" where
  "scheduler_start s = (if sch_started s then s else s\<lparr>sch_started := True\<rparr>)"

definition runIfUnlocked :: "SyncSettings \<Rightarrow> 'k keyring \<Rightarrow> string \<Rightarrow> bool" where
  "runIfUnlocked settings keys connection \<longleftrightarrow>
     kr_state keys = Unlocked \<and> (ss_wifiOnly settings \<longrightarrow> connection = ''wifi'')"

text \<open>Whether a trigger starts a cycle; \<open>connection\<close> is what \<open>Network.getStatus\<close> answers. The timer fires only
  while it is armed, and the listeners exist once the scheduler has started.\<close>

definition triggers :: "SyncSettings \<Rightarrow> 'k keyring \<Rightarrow> string \<Rightarrow> scheduler \<Rightarrow> trigger \<Rightarrow> bool" where
  "triggers settings keys connection s t \<longleftrightarrow>
     (case t of
        TimerFired \<Rightarrow> sch_timer s \<noteq> None \<and> runIfUnlocked settings keys connection
      | NetworkChanged online kind \<Rightarrow>
          sch_started s \<and> online \<and> ss_syncOnReconnect settings \<and> (ss_wifiOnly settings \<longrightarrow> kind = ''wifi'') \<and>
          runIfUnlocked settings keys connection
      | Resumed \<Rightarrow> sch_started s \<and> runIfUnlocked settings keys connection)"

section \<open>What is promised\<close>

lemma merge_blob_of [simp]: "merge_settings (blob_of s) = s"
  by (simp add: merge_settings_def blob_of_def or_default_def)

lemma triggers_policy:
  assumes "triggers settings keys connection s t"
  shows "kr_state keys = Unlocked" "ss_wifiOnly settings \<Longrightarrow> connection = ''wifi''"
  using assms by (auto simp: triggers_def runIfUnlocked_def split: trigger.splits)

lemma rearm_timer:
  "sch_timer (rearm settings keys s) =
     (if kr_state keys = Unlocked \<and> ss_intervalMinutes settings > 0 then Some (ss_intervalMinutes settings * 60000) else None)"
  by (simp add: rearm_def arm_def disarm_def Let_def split: option.split)

lemma settings_save_Inr:
  assumes "settings_save C J V iv keys settings st = (Inr (), st')"
  obtains key vaultId deviceId sealed where "requireKey keys = Inr key" "requireVaultId keys = Inr vaultId" "requireDeviceId keys = Inr deviceId"
    "sealJson C J V iv key (settings_header vaultId deviceId) (blob_of settings) = Inr sealed"
    "st' = st\<lparr>sst_db := (sst_db st)\<lparr>meta := tput SETTINGS_KEY (MetaString (toBase64 sealed)) (meta (sst_db st))\<rparr>, sst_current := settings\<rparr>"
  using assms by (auto simp: settings_save_def split: sum.splits)

text \<open>What one key has encrypted no other key decrypts.\<close>

definition rejects_other_keys :: "'k web_crypto \<Rightarrow> bool" where
  "rejects_other_keys C \<longleftrightarrow> (\<forall>key key' iv aad p. key' \<noteq> key \<longrightarrow> decrypt C key' iv aad (encrypt C key iv aad p) = None)"

text \<open>C16: Saved settings are read back by a holder of the key and by nobody else, and are at rest only as ciphertext.
  After a save, a device that holds the key loads exactly the settings that were saved; one that holds
  another key fails with the error of a wrong key, and one whose vault is locked with that error, and both
  keep what they had. What was written is the base64 of an envelope whose payload is the encryption of the
  settings, under one name of the \<open>meta\<close> table, with everything else in the database as it was; and a cycle
  that a trigger then starts runs on an unlocked vault only, and only over Wi-Fi where the settings ask
  for it. The platform's laws are hypotheses: decryption inverts encryption and refuses what another key has
  encrypted, and JSON reads back what it wrote.\<close>

theorem settings_sealed:
  assumes "inverts C" and "rejects_other_keys C" and "length iv = IV_LENGTH" and "table_ok (meta (sst_db st))"
    and "settings_save C J V iv keys settings st = (Inr (), st')"
    and "\<And>v d. requireVaultId keys = Inr v \<Longrightarrow> requireDeviceId keys = Inr d \<Longrightarrow>
      length (to_json J (settings_header v d)) \<le> 0xffff \<and> from_json J (to_json J (settings_header v d)) = Some (settings_header v d)"
    and "from_json V (to_json V (blob_of settings)) = Some (blob_of settings)"
  shows "(requireKey other = requireKey keys \<longrightarrow> settings_load C J V other st' = (Inr settings, st')) \<and>
    (\<forall>key key'. requireKey keys = Inr key \<longrightarrow> requireKey other = Inr key' \<longrightarrow> key' \<noteq> key \<longrightarrow>
      settings_load C J V other st' = (Inl wrong_key, st')) \<and>
    (kr_masterKey other = None \<longrightarrow> settings_load C J V other st' = (Inl VaultLockedError, st')) \<and>
    (\<exists>key aad. requireKey keys = Inr key \<and> tget (meta (sst_db st')) SETTINGS_KEY =
      Some (MetaString (toBase64 (layout iv aad (encrypt C key iv aad (to_json V (blob_of settings))))))) \<and>
    (\<forall>k. k \<noteq> SETTINGS_KEY \<longrightarrow> tget (meta (sst_db st')) k = tget (meta (sst_db st)) k) \<and>
    tables (sst_db st') = tables (sst_db st) \<and> oplog (sst_db st') = oplog (sst_db st) \<and>
    (triggers (sst_current st') other connection s t \<longrightarrow> kr_state other = Unlocked \<and> (ss_wifiOnly settings \<longrightarrow> connection = ''wifi''))"
proof -
  obtain key vaultId deviceId sealed where k: "requireKey keys = Inr key" "requireVaultId keys = Inr vaultId" "requireDeviceId keys = Inr deviceId"
    and sealed: "sealJson C J V iv key (settings_header vaultId deviceId) (blob_of settings) = Inr sealed"
    and st': "st' = st\<lparr>sst_db := (sst_db st)\<lparr>meta := tput SETTINGS_KEY (MetaString (toBase64 sealed)) (meta (sst_db st))\<rparr>, sst_current := settings\<rparr>"
    by (rule settings_save_Inr [OF assms(5)])
  let ?aad = "to_json J (settings_header vaultId deviceId)"
  have h: "length ?aad \<le> 0xffff" "from_json J ?aad = Some (settings_header vaultId deviceId)" using assms(6) [OF k(2,3)] by simp_all
  have lay: "sealed = layout iv ?aad (encrypt C key iv ?aad (to_json V (blob_of settings)))"
    using sealed by (simp add: sealJson_def seal_def Let_def serialise_layout [OF assms(3) h(1)])
  have "openJson C J V key sealed = Inr (settings_header vaultId deviceId, blob_of settings)"
    using assms(1,7) h(2) unfolding lay by (simp add: openJson_def open_envelope_def parse_layout [OF assms(3) h(1)] inverts_def)
  then have "open_settings C J V other (toBase64 sealed) = Inr (blob_of settings)" if "requireKey other = requireKey keys"
    using that k(1) by (simp add: open_settings_def base64_inverse)
  moreover have "open_settings C J V other (toBase64 sealed) = Inl wrong_key" if "requireKey other = Inr key'" "key' \<noteq> key" for key'
    using that assms(2) h(2) unfolding lay
    by (simp add: open_settings_def base64_inverse openJson_def open_envelope_def parse_layout [OF assms(3) h(1)] rejects_other_keys_def)
  moreover have "open_settings C J V other (toBase64 sealed) = Inl VaultLockedError" if "kr_masterKey other = None"
    using that by (simp add: open_settings_def requireKey_def)
  moreover have "tget (meta (sst_db st')) k = (if k = SETTINGS_KEY then Some (MetaString (toBase64 sealed)) else tget (meta (sst_db st)) k)" for k
    using assms(4) st' by simp
  ultimately show ?thesis
    using k(1) lay st' triggers_policy [of settings other connection s t] by (auto simp: settings_load_def)
qed

definition sample_settings :: SyncSettings where
  "sample_settings = DEFAULT_SYNC_SETTINGS\<lparr>ss_intervalMinutes := 30\<rparr>"

definition sample_keys :: "byte \<Rightarrow> byte keyring" where
  "sample_keys k = \<lparr>kr_masterKey = Some k, kr_state = Unlocked, kr_vaultId = Some ''v'', kr_deviceId = Some ''a'', kr_prefs = [], kr_secrets = []\<rparr>"

theorem settings_sealed_witness:
  "\<exists>st'. settings_save sample_crypto \<lparr>to_json = (\<lambda>_. [1]), from_json = (\<lambda>_. Some (settings_header ''v'' ''a''))\<rparr>
       \<lparr>to_json = (\<lambda>_. [2]), from_json = (\<lambda>_. Some (blob_of sample_settings))\<rparr> (replicate 12 7) (sample_keys 9)
       sample_settings \<lparr>sst_db = new_db, sst_current = DEFAULT_SYNC_SETTINGS\<rparr> = (Inr (), st') \<and>
     settings_load sample_crypto \<lparr>to_json = (\<lambda>_. [1]), from_json = (\<lambda>_. Some (settings_header ''v'' ''a''))\<rparr>
       \<lparr>to_json = (\<lambda>_. [2]), from_json = (\<lambda>_. Some (blob_of sample_settings))\<rparr> (sample_keys 9) st' = (Inr sample_settings, st') \<and>
     settings_load sample_crypto \<lparr>to_json = (\<lambda>_. [1]), from_json = (\<lambda>_. Some (settings_header ''v'' ''a''))\<rparr>
       \<lparr>to_json = (\<lambda>_. [2]), from_json = (\<lambda>_. Some (blob_of sample_settings))\<rparr> (sample_keys 8) st' = (Inl wrong_key, st')"
proof -
  let ?J = "\<lparr>to_json = (\<lambda>_. [1]), from_json = (\<lambda>_. Some (settings_header ''v'' ''a''))\<rparr>"
    and ?V = "\<lparr>to_json = (\<lambda>_. [2]), from_json = (\<lambda>_. Some (blob_of sample_settings))\<rparr>"
    and ?st = "\<lparr>sst_db = new_db, sst_current = DEFAULT_SYNC_SETTINGS\<rparr>"
  have k: "requireKey (sample_keys k) = Inr k" "requireVaultId (sample_keys k) = Inr ''v''" "requireDeviceId (sample_keys k) = Inr ''a''" for k
    by (simp_all add: sample_keys_def requireKey_def requireVaultId_def requireDeviceId_def blank_def)
  have iv: "length (replicate 12 (7 :: byte)) = IV_LENGTH" by (simp add: IV_LENGTH_def)
  obtain st' where st': "settings_save sample_crypto ?J ?V (replicate 12 7) (sample_keys 9) sample_settings ?st = (Inr (), st')"
    by (simp add: settings_save_def k sealJson_def seal_def Let_def serialise_layout [OF iv])
  have tab: "table_ok (meta (sst_db ?st))" by (simp add: new_db_def)
  have h: "length (to_json ?J (settings_header v d)) \<le> 0xffff \<and> from_json ?J (to_json ?J (settings_header v d)) = Some (settings_header v d)"
    if "requireVaultId (sample_keys 9) = Inr v" "requireDeviceId (sample_keys 9) = Inr d" for v d
    using that k(2,3) [of 9] by simp
  have b: "from_json ?V (to_json ?V (blob_of sample_settings)) = Some (blob_of sample_settings)" by simp
  have rejects: "rejects_other_keys sample_crypto" by (auto simp: rejects_other_keys_def sample_crypto_def)
  note sealed = settings_sealed [OF sample_crypto_ok(1) rejects iv tab st' h b]
  have "settings_load sample_crypto ?J ?V (sample_keys 9) st' = (Inr sample_settings, st')"
    by (rule mp [OF conjunct1 [OF sealed [where other = "sample_keys 9"]]]) (assumption | rule refl)+
  moreover have "settings_load sample_crypto ?J ?V (sample_keys 8) st' = (Inl wrong_key, st')"
    using sealed [where other = "sample_keys 8"] k(1) [of 8] k(1) [of 9] by force
  ultimately show ?thesis using st' by blast
qed

end
