(* ===== verification/Namespaces.thy ===== *)
theory Namespaces
  imports Store
begin

text \<open>
  Tables inside tables: the rows below a common prefix of their keys are a table of their own. An
  account's directory on the sync server and the prefix an S3 bucket may be shared by are such tables,
  and the lemmas say that what is done below one prefix is done to that table and to no other.
\<close>

definition subtable :: "string \<Rightarrow> 'a tbl \<Rightarrow> 'a tbl" where
  "subtable p t = map (\<lambda>r. (drop (length p) (fst r), snd r)) (filter (\<lambda>r. startsWith p (fst r)) t)"

definition visible :: "(string \<Rightarrow> bool) \<Rightarrow> 'a tbl \<Rightarrow> 'a tbl" where
  "visible P t = filter (\<lambda>r. P (fst r)) t"

definition tmap :: "('a \<Rightarrow> 'b) \<Rightarrow> 'a tbl \<Rightarrow> 'b tbl" where
  "tmap f t = map (\<lambda>r. (fst r, f (snd r))) t"

named_theorems namespace \<open>what is done below a prefix\<close>

lemma subtable_Nil [simp]: "subtable p [] = []" and visible_Nil [simp]: "visible P [] = []" and tmap_Nil [simp]: "tmap f [] = []"
  by (simp_all add: subtable_def visible_def tmap_def)

lemma startsWith_drop: "startsWith p k \<Longrightarrow> p @ drop (length p) k = k"
  by (auto simp: startsWith_iff)

lemma sorted_wrt_below:
  assumes "sorted_wrt (<) (map fst t)"
  shows "sorted_wrt (<) (map fst (subtable p t))"
  using assms
proof (induction t)
  case (Cons r t)
  have "drop (length p) (fst r) < drop (length p) k" if "startsWith p (fst r)" "startsWith p k" "fst r < k" for k
    using that append_less_append_iff [of p "drop (length p) (fst r)" "drop (length p) k"] by (simp add: startsWith_drop)
  with Cons show ?case by (auto simp: subtable_def)
qed simp

lemma table_ok_subtable [simp]: "table_ok t \<Longrightarrow> table_ok (subtable p t)"
  by (simp add: table_ok_def primaryKeys_def sorted_wrt_below)

lemma table_ok_visible [simp]: "table_ok t \<Longrightarrow> table_ok (visible P t)"
  by (simp add: table_ok_def primaryKeys_def visible_def sorted_wrt_map sorted_wrt_filter)

lemma primaryKeys_tmap [simp]: "primaryKeys (tmap f t) = primaryKeys t"
  by (simp add: primaryKeys_def tmap_def)

lemma table_ok_tmap [simp]: "table_ok (tmap f t) = table_ok t"
  by (simp add: table_ok_def)

lemma tget_subtable [simp]: "tget (subtable p t) k = tget t (p @ k)"
proof (induction t)
  case (Cons r t)
  show ?case
  proof (cases "startsWith p (fst r)")
    case True
    then obtain q where "fst r = p @ q" by (auto simp: startsWith_iff)
    with Cons show ?thesis by (cases r) (simp add: subtable_def)
  next
    case False
    then have "fst r \<noteq> p @ k" by auto
    with False Cons show ?thesis by (cases r) (simp add: subtable_def)
  qed
qed simp

lemma tget_visible [simp]: "tget (visible P t) k = (if P k then tget t k else None)"
  by (induction t) (auto simp: visible_def tget_def)

lemma tget_tmap [simp]: "tget (tmap f t) k = map_option f (tget t k)"
  by (induction t) (auto simp: tmap_def tget_def)

lemma subtable_tput [namespace]: "table_ok t \<Longrightarrow> subtable p (tput (p @ k) v t) = tput k v (subtable p t)"
  by (rule table_eqI) auto

lemma subtable_tdelete [namespace]: "table_ok t \<Longrightarrow> subtable p (tdelete (p @ k) t) = tdelete k (subtable p t)"
  by (rule table_eqI) auto

lemma subtable_other [namespace]:
  assumes "table_ok t" and "\<not> startsWith p q"
  shows "subtable p (tput q v t) = subtable p t" "subtable p (tdelete q t) = subtable p t"
proof -
  have "p @ k \<noteq> q" for k using assms(2) by auto
  then show "subtable p (tput q v t) = subtable p t" "subtable p (tdelete q t) = subtable p t"
    using assms(1) by (auto intro!: table_eqI)
qed

lemma visible_tput [namespace]: "table_ok t \<Longrightarrow> P k \<Longrightarrow> visible P (tput k v t) = tput k v (visible P t)"
  by (rule table_eqI) auto

lemma visible_tdelete [namespace]: "table_ok t \<Longrightarrow> visible P (tdelete k t) = tdelete k (visible P t)"
  by (rule table_eqI) auto

lemma tmap_tput [namespace]: "table_ok t \<Longrightarrow> tmap f (tput k v t) = tput k (f v) (tmap f t)"
  by (rule table_eqI) auto

lemma tmap_tdelete [namespace]: "table_ok t \<Longrightarrow> tmap f (tdelete k t) = tdelete k (tmap f t)"
  by (rule table_eqI) auto

lemma primaryKeys_subtable: "primaryKeys (subtable p t) = map (drop (length p)) (filter (startsWith p) (primaryKeys t))"
  by (induction t) (auto simp: subtable_def primaryKeys_def)

lemma primaryKeys_visible: "primaryKeys (visible P t) = filter P (primaryKeys t)"
  by (induction t) (auto simp: visible_def primaryKeys_def)

lemma tput_same: "table_ok t \<Longrightarrow> tget t k = Some v \<Longrightarrow> tput k v t = t"
  by (rule table_eqI) auto

lemma tdelete_absent: "table_ok t \<Longrightarrow> tget t k = None \<Longrightarrow> tdelete k t = t"
  by (rule table_eqI) auto

end
