(* ===== verification/Server_Store.thy ===== *)
theory Server_Store
  imports Sync_Target Namespaces
begin

text \<open>
  The object store of the bundled sync server (\<open>server/internal/storage/storage.go\<close> and \<open>fsstore.go\<close>):
  one file per object below a directory of the account, with immutable names, a quota and listings in
  pages. The file system is a table of files by absolute path; what may go wrong with it is an argument
  of every operation, as is a request that is given up. Go strings are byte strings, ASCII here. The
  lemmas show that what an account sees is a table of its own, that the operations are those of
  that table, and that no name leads out of it.
\<close>

section \<open>Names\<close>

datatype name_error = TooLong | PathTraversal | NotAnObjectName | PrefixTooLong | InvalidCharacter char | BadAccount | EscapesRoot

datatype store_error = ErrNotFound | ErrAlreadyExists | ErrQuotaExceeded | ErrInvalidName name_error | ErrContext | ErrStorage string

text \<open>\<open>vaults/[A-Za-z0-9-]{1,64}/ops/[0-9]{19}-[0-9a-f]{4}-[A-Za-z0-9]{1,32}\.edk\<close>\<close>

definition objectNamePattern :: "string \<Rightarrow> bool" where
  "objectNamePattern name =
     (case split_on CHR ''/'' name of
        [first, vault, dir, leaf] \<Rightarrow>
          let stem = take (length leaf - 4) leaf
          in first = ''vaults'' \<and> dir = ''ops'' \<and>
             1 \<le> length vault \<and> length vault \<le> 64 \<and> list_all (\<lambda>c. is_alnum c \<or> c = CHR ''-'') vault \<and>
             4 \<le> length leaf \<and> drop (length leaf - 4) leaf = ''.edk'' \<and> is_stamp stem \<and> length stem \<le> 25 + 32
      | _ \<Rightarrow> False)"

definition validateName :: "string \<Rightarrow> store_error + unit" where
  "validateName name =
     (if 256 < length name then Inl (ErrInvalidName TooLong)
      else if includes_str ''..'' name \<or> startsWith ''/'' name then Inl (ErrInvalidName PathTraversal)
      else if \<not> objectNamePattern name then Inl (ErrInvalidName NotAnObjectName)
      else Inr ())"

fun validate_chars :: "string \<Rightarrow> store_error + unit" where
  "validate_chars [] = Inr ()"
| "validate_chars (c # cs) =
     (if is_alnum c \<or> c \<in> {CHR ''-'', CHR ''_'', CHR ''/'', CHR ''.''} then validate_chars cs
      else Inl (ErrInvalidName (InvalidCharacter c)))"

definition validatePrefix :: "string \<Rightarrow> store_error + unit" where
  "validatePrefix prefix =
     (if 256 < length prefix then Inl (ErrInvalidName PrefixTooLong)
      else if includes_str ''..'' prefix \<or> startsWith ''/'' prefix then Inl (ErrInvalidName PathTraversal)
      else validate_chars prefix)"

section \<open>Paths\<close>

text \<open>\<open>filepath.Clean\<close> and \<open>filepath.Join\<close> of an absolute path on a Unix system.\<close>

fun clean_step :: "string list \<Rightarrow> string \<Rightarrow> string list" where
  "clean_step acc part = (if part = [] \<or> part = ''.'' then acc else if part = ''..'' then tl acc else part # acc)"

definition clean_path :: "string \<Rightarrow> string" where
  "clean_path p = ''/'' @ join ''/'' (rev (foldl clean_step [] (split_on CHR ''/'' p)))"

definition join_path :: "string \<Rightarrow> string \<Rightarrow> string" where
  "join_path p name = clean_path (p @ ''/'' @ name)"

section \<open>The store\<close>

record 'b StoredFile =
  so_data :: "'b list"
  so_modifiedAt :: int

record 'b FSStore =
  fs_root :: string
  fs_quota :: int
  fs_usages :: "string \<Rightarrow> int option"
  fs_files :: "'b StoredFile tbl"

record Object =
  ob_name :: string
  ob_size :: int
  ob_modifiedAt :: int

record Listing =
  ls_objects :: "Object list"
  ls_nextCursor :: string

text \<open>What happens around one call: whether the request is given up, which step of the file system fails,
  and the time. A walk of the directory ends early when either happens on the way.\<close>

datatype walk_fault = GivenUp | WalkFailed string

fun walk_error :: "walk_fault \<Rightarrow> store_error" where
  "walk_error GivenUp = ErrContext"
| "walk_error (WalkFailed step) = ErrStorage step"

record io =
  io_cancelled :: bool
  io_read_fails :: bool
  io_walk_fails :: "walk_fault option"
  io_write_fails :: "string option"
  io_now :: int

definition fs_path :: "'b FSStore \<Rightarrow> string \<Rightarrow> string \<Rightarrow> store_error + string" where
  "fs_path s account name =
     (if account = [] \<or> list_ex (\<lambda>c. c \<in> {CHR ''/'', CHR 0x5C, CHR ''.''}) account then Inl (ErrInvalidName BadAccount)
      else
        let accountRoot = join_path (fs_root s) account;
            full = join_path accountRoot name
        in if full \<noteq> accountRoot \<and> \<not> startsWith (accountRoot @ ''/'') full then Inl (ErrInvalidName EscapesRoot)
           else Inr full)"

text \<open>\<open>filepath.Abs\<close> joins a relative directory to the working directory.\<close>

definition newFSStore :: "string \<Rightarrow> string \<Rightarrow> bool \<Rightarrow> int \<Rightarrow> 'b StoredFile tbl \<Rightarrow> store_error + 'b FSStore" where
  "newFSStore cwd dir mkdir_fails quota files =
     (if dir = [] then Inl (ErrStorage ''data directory must not be empty'')
      else if mkdir_fails then Inl (ErrStorage ''create data dir'')
      else Inr \<lparr>fs_root = (if startsWith ''/'' dir then clean_path dir else join_path cwd dir), fs_quota = quota,
                fs_usages = (\<lambda>_. None), fs_files = files\<rparr>)"

text \<open>The files a walk of the account's directory meets.\<close>

definition walked :: "string \<Rightarrow> 'b FSStore \<Rightarrow> (string \<times> 'b StoredFile) list" where
  "walked base s = filter (\<lambda>p. startsWith (base @ ''/'') (fst p)) (fs_files s)"

definition sizes :: "string \<Rightarrow> 'b FSStore \<Rightarrow> int" where
  "sizes base s = (\<Sum>p \<leftarrow> walked base s. int (length (so_data (snd p))))"

text \<open>This walk does not look at whether the request was given up.\<close>

definition usage :: "io \<Rightarrow> string \<Rightarrow> 'b FSStore \<Rightarrow> (store_error + int) \<times> 'b FSStore" where
  "usage io account s =
     (case fs_usages s account of
        Some cached \<Rightarrow> (Inr cached, s)
      | None \<Rightarrow>
          (case fs_path s account [] of
             Inl err \<Rightarrow> (Inl err, s)
           | Inr base \<Rightarrow>
               (case io_walk_fails io of
                  Some (WalkFailed step) \<Rightarrow> (Inl (ErrStorage step), s)
                | _ \<Rightarrow> (Inr (sizes base s), s\<lparr>fs_usages := (fs_usages s)(account \<mapsto> sizes base s)\<rparr>))))"

definition check_quota :: "io \<Rightarrow> string \<Rightarrow> 'b list \<Rightarrow> 'b FSStore \<Rightarrow> (store_error + unit) \<times> 'b FSStore" where
  "check_quota io account data s =
     (if fs_quota s \<le> 0 then (Inr (), s)
      else case usage io account s of
             (Inl err, s') \<Rightarrow> (Inl err, s')
           | (Inr used, s') \<Rightarrow> (if used + int (length data) > fs_quota s' then Inl ErrQuotaExceeded else Inr (), s'))"

text \<open>A temporary file is written, synced and renamed into place; the step that fails leaves nothing behind.\<close>

definition write_file :: "io \<Rightarrow> string \<Rightarrow> string \<Rightarrow> 'b list \<Rightarrow> 'b FSStore \<Rightarrow> (store_error + unit) \<times> 'b FSStore" where
  "write_file io account path data s =
     (case io_write_fails io of
        Some step \<Rightarrow> (Inl (ErrStorage step), s)
      | None \<Rightarrow> (Inr (), s\<lparr>fs_files := tput path \<lparr>so_data = data, so_modifiedAt = io_now io\<rparr> (fs_files s),
                          fs_usages := (fs_usages s)(account := None)\<rparr>))"

definition fs_put :: "io \<Rightarrow> string \<Rightarrow> string \<Rightarrow> 'b list \<Rightarrow> 'b FSStore \<Rightarrow> (store_error + unit) \<times> 'b FSStore" where
  "fs_put io account name data s =
     (case validateName name of
        Inl err \<Rightarrow> (Inl err, s)
      | Inr _ \<Rightarrow>
          (case fs_path s account name of
             Inl err \<Rightarrow> (Inl err, s)
           | Inr path \<Rightarrow>
               if io_cancelled io then (Inl ErrContext, s)
               else if io_read_fails io then (Inl (ErrStorage ''read existing''), s)
               else case tget (fs_files s) path of
                 Some existing \<Rightarrow> (if so_data existing = data then Inr () else Inl ErrAlreadyExists, s)
               | None \<Rightarrow>
                   (case check_quota io account data s of
                      (Inl err, s') \<Rightarrow> (Inl err, s')
                    | (Inr _, s') \<Rightarrow> write_file io account path data s')))"

definition fs_get :: "io \<Rightarrow> string \<Rightarrow> string \<Rightarrow> 'b FSStore \<Rightarrow> store_error + 'b list" where
  "fs_get io account name s =
     (case validateName name of
        Inl err \<Rightarrow> Inl err
      | Inr _ \<Rightarrow>
          if io_cancelled io then Inl ErrContext
          else case fs_path s account name of
            Inl err \<Rightarrow> Inl err
          | Inr path \<Rightarrow>
              if io_read_fails io then Inl (ErrStorage ''read'')
              else case tget (fs_files s) path of None \<Rightarrow> Inl ErrNotFound | Some stored \<Rightarrow> Inr (so_data stored))"

definition fs_delete :: "io \<Rightarrow> string \<Rightarrow> string \<Rightarrow> 'b FSStore \<Rightarrow> (store_error + unit) \<times> 'b FSStore" where
  "fs_delete io account name s =
     (case validateName name of
        Inl err \<Rightarrow> (Inl err, s)
      | Inr _ \<Rightarrow>
          if io_cancelled io then (Inl ErrContext, s)
          else case fs_path s account name of
            Inl err \<Rightarrow> (Inl err, s)
          | Inr path \<Rightarrow>
              (case io_write_fails io of
                 Some step \<Rightarrow> (Inl (ErrStorage step), s)
               | None \<Rightarrow> (Inr (), s\<lparr>fs_files := tdelete path (fs_files s), fs_usages := (fs_usages s)(account := None)\<rparr>)))"

definition is_temporary :: "string \<Rightarrow> bool" where
  "is_temporary path = startsWith ''.tmp-'' (last (split_on CHR ''/'' path))"

definition object_of :: "string \<Rightarrow> string \<times> 'b StoredFile \<Rightarrow> Object" where
  "object_of base p =
     \<lparr>ob_name = drop (length base + 1) (fst p), ob_size = int (length (so_data (snd p))), ob_modifiedAt = so_modifiedAt (snd p)\<rparr>"

definition fs_list :: "io \<Rightarrow> string \<Rightarrow> string \<Rightarrow> string \<Rightarrow> int \<Rightarrow> 'b FSStore \<Rightarrow> store_error + Listing" where
  "fs_list io account prefix cursor limit s =
     (case validatePrefix prefix of
        Inl err \<Rightarrow> Inl err
      | Inr _ \<Rightarrow>
          let limit = nat (if limit \<le> 0 then 1000 else limit)
          in case fs_path s account [] of
               Inl err \<Rightarrow> Inl err
             | Inr base \<Rightarrow>
                 (case io_walk_fails io of
                    Some fault \<Rightarrow> Inl (walk_error fault)
                  | None \<Rightarrow>
                      let objects = sort_key ob_name
                            (filter (\<lambda>ob. startsWith prefix (ob_name ob) \<and> cursor < ob_name ob)
                              (map (object_of base) (filter (\<lambda>p. \<not> is_temporary (fst p)) (walked base s))))
                      in Inr (if limit < length objects
                              then \<lparr>ls_objects = take limit objects, ls_nextCursor = ob_name (objects ! (limit - 1))\<rparr>
                              else \<lparr>ls_objects = objects, ls_nextCursor = []\<rparr>)))"

section \<open>Names lead to one file each\<close>

definition proper :: "string \<Rightarrow> bool" where
  "proper part \<longleftrightarrow> part \<noteq> [] \<and> part \<noteq> ''.'' \<and> part \<noteq> ''..'' \<and> CHR ''/'' \<notin> set part"

definition abs_path :: "string list \<Rightarrow> string" where
  "abs_path parts = ''/'' @ join ''/'' parts"

lemma split_on_join: "list_all proper parts \<Longrightarrow> parts \<noteq> [] \<Longrightarrow> split_on CHR ''/'' (join ''/'' parts) = parts"
proof (induction "''/''" parts rule: join.induct)
  case (3 x y xs)
  then show ?case by (simp add: split_on_append proper_def)
qed (auto simp: split_on_no_sep proper_def)

lemma foldl_clean_proper: "list_all proper parts \<Longrightarrow> foldl clean_step acc parts = rev parts @ acc"
  by (induction parts arbitrary: acc) (auto simp: proper_def)

lemma split_on_sep: "split_on c (xs @ c # ys) = split_on c xs @ split_on c ys"
  by (induction xs) (auto split: list.split)

lemma split_on_no_slash: "part \<in> set (split_on c xs) \<Longrightarrow> c \<notin> set part"
  by (induction xs arbitrary: part) (auto split: if_splits list.splits)

lemma split_abs_path:
  assumes "list_all proper parts"
  shows "foldl clean_step [] (split_on CHR ''/'' (abs_path parts)) = rev parts"
proof (cases "parts = []")
  case False
  then show ?thesis using assms by (simp add: abs_path_def split_on_join foldl_clean_proper)
qed (simp add: abs_path_def)

lemma join_path_abs:
  assumes "list_all proper parts" and "list_all proper (split_on CHR ''/'' name)"
  shows "join_path (abs_path parts) name = abs_path (parts @ split_on CHR ''/'' name)"
  using split_abs_path [OF assms(1)] foldl_clean_proper [OF assms(2)]
  by (simp add: join_path_def clean_path_def split_on_sep abs_path_def)

lemma join_path_abs_Nil: "list_all proper parts \<Longrightarrow> join_path (abs_path parts) [] = abs_path parts"
  using split_abs_path [of parts] by (simp add: join_path_def clean_path_def split_on_sep abs_path_def)

lemma clean_proper:
  assumes "\<And>part. part \<in> set parts \<Longrightarrow> CHR ''/'' \<notin> set part" and "list_all proper acc"
  shows "list_all proper (foldl clean_step acc parts)"
  using assms
proof (induction parts arbitrary: acc)
  case (Cons part parts)
  have "list_all proper (clean_step acc part)"
    using Cons.prems by (cases acc) (auto simp: list_all_iff proper_def)
  with Cons show ?case by simp
qed simp

text \<open>Whatever a store is opened with, its root is an absolute path without detours.\<close>

lemma clean_path_abs: "\<exists>parts. list_all proper parts \<and> clean_path p = abs_path parts"
proof (intro exI conjI)
  let ?parts = "foldl clean_step [] (split_on CHR ''/'' p)"
  have "list_all proper ?parts"
    by (rule clean_proper, erule split_on_no_slash, simp)
  then show "list_all proper (rev ?parts)" by (simp add: list_all_iff)
  show "clean_path p = abs_path (rev ?parts)" by (simp only: clean_path_def abs_path_def)
qed

definition account_ok :: "string \<Rightarrow> bool" where
  "account_ok account \<longleftrightarrow> account \<noteq> [] \<and> \<not> list_ex (\<lambda>c. c \<in> {CHR ''/'', CHR 0x5C, CHR ''.''}) account"

lemma account_chars: "account_ok account \<Longrightarrow> CHR ''/'' \<notin> set account \<and> CHR ''.'' \<notin> set account"
  unfolding account_ok_def list_ex_iff by blast

lemma account_proper: "account_ok account \<Longrightarrow> proper account"
  using account_chars [of account] by (auto simp: account_ok_def proper_def)

definition directory :: "'b FSStore \<Rightarrow> string \<Rightarrow> string" where
  "directory s account = join_path (fs_root s) account"

definition root_ok :: "string \<Rightarrow> bool" where
  "root_ok root \<longleftrightarrow> (\<exists>parts. list_all proper parts \<and> root = abs_path parts)"

lemma newFSStore_root: "newFSStore cwd dir fails quota files = Inr s \<Longrightarrow> root_ok (fs_root s)"
  using clean_path_abs by (auto simp: newFSStore_def root_ok_def join_path_def split: if_splits)

lemma abs_path_append: "parts \<noteq> [] \<Longrightarrow> abs_path (parts @ [x]) = abs_path parts @ ''/'' @ x"
proof -
  have "ps \<noteq> [] \<Longrightarrow> join ''/'' (ps @ [x]) = join ''/'' ps @ ''/'' @ x" for ps
    by (induction "''/''" ps rule: join.induct) auto
  then show "parts \<noteq> [] \<Longrightarrow> ?thesis" by (simp add: abs_path_def)
qed

lemma join_append: "xs \<noteq> [] \<Longrightarrow> ys \<noteq> [] \<Longrightarrow> join sep (xs @ ys) = join sep xs @ sep @ join sep ys"
proof (induction sep xs rule: join.induct)
  case (2 sep x)
  then show ?case by (cases ys) auto
qed auto

text \<open>Where the directory of an account is, and that a proper name leads to one file in it.\<close>

definition base_of :: "string \<Rightarrow> string" where
  "base_of root = (if root = ''/'' then ''/'' else root @ ''/'')"

lemma directory_eq:
  assumes "root_ok (fs_root s)" and "account_ok account"
  shows "directory s account = base_of (fs_root s) @ account"
proof -
  obtain parts where p: "list_all proper parts" "fs_root s = abs_path parts"
    using assms(1) by (auto simp: root_ok_def)
  have a: "split_on CHR ''/'' account = [account]" "proper account"
    using account_proper [OF assms(2)] by (simp_all add: split_on_no_sep proper_def)
  have root: "abs_path parts = ''/'' \<longleftrightarrow> parts = []"
    using p(1) by (cases parts rule: remdups_adj.cases) (auto simp: abs_path_def proper_def)
  have "directory s account = abs_path (parts @ [account])"
    using join_path_abs [OF p(1), of account] a by (simp add: directory_def p(2))
  then show ?thesis using abs_path_append [of parts account] root p(2)
    by (cases "parts = []") (simp_all add: base_of_def, simp add: abs_path_def)
qed

lemma object_path:
  assumes "root_ok (fs_root s)" and "account_ok account" and "list_all proper (split_on CHR ''/'' name)"
  shows "fs_path s account name = Inr (directory s account @ ''/'' @ name)"
proof -
  obtain parts where p: "list_all proper parts" "fs_root s = abs_path parts"
    using assms(1) by (auto simp: root_ok_def)
  have a: "split_on CHR ''/'' account = [account]" "proper account"
    using account_proper [OF assms(2)] by (simp_all add: split_on_no_sep proper_def)
  have d: "directory s account = abs_path (parts @ [account])"
    using join_path_abs [OF p(1), of account] a by (simp add: directory_def p(2))
  have "join_path (directory s account) name = abs_path ((parts @ [account]) @ split_on CHR ''/'' name)"
    using join_path_abs [of "parts @ [account]" name] p(1) a(2) assms(3) by (simp add: d)
  also have "\<dots> = directory s account @ ''/'' @ name"
    unfolding d abs_path_def by (subst join_append) (simp_all add: join_split_on)
  finally show ?thesis using assms(2) startsWith_append [of "directory s account @ ''/''" name]
    by (simp add: fs_path_def account_ok_def directory_def Let_def)
qed

lemma base_path: "root_ok (fs_root s) \<Longrightarrow> account_ok account \<Longrightarrow> fs_path s account [] = Inr (directory s account)"
proof -
  assume a: "root_ok (fs_root s)" "account_ok account"
  obtain parts where p: "list_all proper parts" "fs_root s = abs_path parts"
    using a(1) by (auto simp: root_ok_def)
  have "directory s account = abs_path (parts @ [account])"
    using join_path_abs [OF p(1), of account] account_proper [OF a(2)]
    by (simp add: directory_def p(2) split_on_no_sep proper_def)
  then have "join_path (directory s account) [] = directory s account"
    using join_path_abs_Nil [of "parts @ [account]"] p(1) account_proper [OF a(2)] by simp
  then show ?thesis using a(2) by (simp add: fs_path_def account_ok_def directory_def Let_def)
qed

lemma validateName_proper:
  assumes "validateName name = Inr ()"
  shows "list_all proper (split_on CHR ''/'' name)" and "\<not> startsWith ''.tmp-'' (last (split_on CHR ''/'' name))"
proof -
  have "objectNamePattern name" using assms by (auto simp: validateName_def split: if_splits)
  then obtain vault leaf where s: "split_on CHR ''/'' name = [''vaults'', vault, ''ops'', leaf]" "1 \<le> length vault"
    "list_all (\<lambda>c. is_alnum c \<or> c = CHR ''-'') vault" "is_stamp (take (length leaf - 4) leaf)"
    by (auto simp: objectNamePattern_def Let_def split: list.splits)
  have no_dot: "\<not> is_alnum CHR ''.''" "\<not> is_digit CHR ''.''" by code_simp+
  have "vault \<noteq> []" using s(2) by auto
  moreover have "vault \<noteq> ''.''" "vault \<noteq> ''..''" using s(3) no_dot by auto
  moreover obtain c cs where leaf: "leaf = c # cs" "is_digit c" "26 \<le> length leaf"
    using s(4) by (cases leaf) (auto simp: is_stamp_def split: if_splits)
  moreover have "leaf \<noteq> ''.''" "leaf \<noteq> ''..''" using leaf no_dot by auto
  moreover have "CHR ''/'' \<notin> set vault" "CHR ''/'' \<notin> set leaf"
    using split_on_no_slash [of _ "CHR ''/''" name] s(1) by auto
  ultimately show "list_all proper (split_on CHR ''/'' name)"
    and "\<not> startsWith ''.tmp-'' (last (split_on CHR ''/'' name))"
    using s(1) no_dot by (auto simp: proper_def)
qed

section \<open>What an account sees\<close>

definition is_temp_name :: "string \<Rightarrow> bool" where
  "is_temp_name name = startsWith ''.tmp-'' (last (split_on CHR ''/'' name))"

definition fs_view :: "'b FSStore \<Rightarrow> string \<Rightarrow> 'b list tbl" where
  "fs_view s account = tmap so_data (visible (\<lambda>k. \<not> is_temp_name k) (subtable (directory s account @ ''/'') (fs_files s)))"

definition store_ok :: "'b FSStore \<Rightarrow> bool" where
  "store_ok s \<longleftrightarrow> table_ok (fs_files s) \<and> root_ok (fs_root s) \<and>
     (\<forall>account n. account_ok account \<longrightarrow> fs_usages s account = Some n \<longrightarrow> n = sizes (directory s account) s)"

lemma directory_cong [simp]: "directory (fs_files_update f s) = directory s" "directory (fs_usages_update g s) = directory s"
  by (auto simp: directory_def fun_eq_iff)

lemma table_ok_view: "store_ok s \<Longrightarrow> table_ok (fs_view s account)"
  by (simp add: store_ok_def fs_view_def)

text \<open>Directories of different accounts do not overlap.\<close>

lemma slash_split: "CHR ''/'' \<notin> set xs \<Longrightarrow> CHR ''/'' \<notin> set ys \<Longrightarrow> xs @ CHR ''/'' # us = ys @ CHR ''/'' # vs \<Longrightarrow> xs = ys"
  by (metis split_on_append list.inject)

lemma directories_apart:
  assumes "root_ok (fs_root s)" and "account_ok a" and "account_ok b" and "a \<noteq> b"
  shows "\<not> startsWith (directory s b @ ''/'') (directory s a @ ''/'' @ name)"
proof
  assume "startsWith (directory s b @ ''/'') (directory s a @ ''/'' @ name)"
  then obtain t where "directory s a @ ''/'' @ name = (directory s b @ ''/'') @ t" by (auto simp: startsWith_iff)
  then have "a @ CHR ''/'' # name = b @ CHR ''/'' # t" using assms(1-3) by (simp add: directory_eq)
  then show False using slash_split account_chars assms(2-4) by blast
qed

lemma tget_view:
  "\<not> is_temp_name name \<Longrightarrow> tget (fs_view s account) name = map_option so_data (tget (fs_files s) (directory s account @ ''/'' @ name))"
  by (simp add: fs_view_def)

text \<open>What a change of one file does to what the accounts see.\<close>

lemma view_tput:
  assumes "store_ok s" and "\<not> is_temp_name name"
  shows "fs_view (s\<lparr>fs_files := tput (directory s account @ ''/'' @ name) f (fs_files s), fs_usages := u\<rparr>) account =
    tput name (so_data f) (fs_view s account)"
  using assms subtable_tput [of "fs_files s" "directory s account @ ''/''" name f]
  by (simp add: fs_view_def store_ok_def visible_tput tmap_tput)

lemma view_tdelete:
  assumes "store_ok s"
  shows "fs_view (s\<lparr>fs_files := tdelete (directory s account @ ''/'' @ name) (fs_files s), fs_usages := u\<rparr>) account =
    tdelete name (fs_view s account)"
  using assms subtable_tdelete [of "fs_files s" "directory s account @ ''/''" name]
  by (simp add: fs_view_def store_ok_def visible_tdelete tmap_tdelete)

lemma view_other:
  assumes "store_ok s" and "account_ok a" and "account_ok b" and "a \<noteq> b"
  shows "fs_view (s\<lparr>fs_files := tput (directory s a @ ''/'' @ name) f (fs_files s), fs_usages := u\<rparr>) b = fs_view s b"
    and "fs_view (s\<lparr>fs_files := tdelete (directory s a @ ''/'' @ name) (fs_files s), fs_usages := u\<rparr>) b = fs_view s b"
  using assms subtable_other [of "fs_files s", OF _ directories_apart [OF _ assms(2-4), of s name]]
  by (simp_all add: fs_view_def store_ok_def)

section \<open>The size of an account\<close>

lemma sizes_subtable: "sizes (directory s account) s = (\<Sum>r \<leftarrow> subtable (directory s account @ ''/'') (fs_files s). int (length (so_data (snd r))))"
  by (simp add: sizes_def walked_def subtable_def comp_def)

lemma sum_tput:
  "table_ok t \<Longrightarrow> (\<Sum>r \<leftarrow> tput k v t. g (snd r)) = (\<Sum>r \<leftarrow> t. g (snd r)) - (case tget t k of None \<Rightarrow> 0 | Some w \<Rightarrow> g w) + (g v :: int)"
proof (induction t)
  case (Cons r t)
  obtain k' v' where r: "r = (k', v')" by fastforce
  have ok: "table_ok t" and less: "\<forall>x \<in> set (map fst t). k' < x"
    using Cons.prems by (auto simp: r table_ok_def primaryKeys_def)
  have "k < k' \<Longrightarrow> tget t k = None" using less by (auto simp: tget_def map_of_eq_None_iff)
  with Cons.IH [OF ok] show ?case by (auto simp: r)
qed simp

lemma sum_tdelete_le: "(\<And>v. 0 \<le> g v) \<Longrightarrow> (\<Sum>r \<leftarrow> tdelete k t. g (snd r)) \<le> (\<Sum>r \<leftarrow> t. (g (snd r) :: int))"
  by (induction t) (auto simp: tdelete_def add_increasing)

lemma sizes_cong [simp]: "sizes base (fs_usages_update u s) = sizes base s"
  by (simp add: sizes_def walked_def)

lemma sizes_other:
  assumes "store_ok s" and "account_ok a" and "account_ok b" and "a \<noteq> b"
  shows "sizes (directory s b) (s\<lparr>fs_files := tput (directory s a @ ''/'' @ name) f (fs_files s)\<rparr>) = sizes (directory s b) s"
    and "sizes (directory s b) (s\<lparr>fs_files := tdelete (directory s a @ ''/'' @ name) (fs_files s)\<rparr>) = sizes (directory s b) s"
  using assms subtable_other [of "fs_files s", OF _ directories_apart [OF _ assms(2-4), of s name]]
    sizes_subtable [of s b] sizes_subtable [of "s\<lparr>fs_files := tput (directory s a @ ''/'' @ name) f (fs_files s)\<rparr>" b]
    sizes_subtable [of "s\<lparr>fs_files := tdelete (directory s a @ ''/'' @ name) (fs_files s)\<rparr>" b]
  by (simp_all add: store_ok_def)

lemma store_ok_change:
  assumes "store_ok s" and "account_ok a"
  shows "store_ok (s\<lparr>fs_files := tput (directory s a @ ''/'' @ name) f (fs_files s), fs_usages := (fs_usages s)(a := None)\<rparr>)"
    and "store_ok (s\<lparr>fs_files := tdelete (directory s a @ ''/'' @ name) (fs_files s), fs_usages := (fs_usages s)(a := None)\<rparr>)"
  using assms sizes_other [OF assms] by (auto simp: store_ok_def)

lemma usage_spec:
  assumes "store_ok s" and "account_ok account" and "usage io account s = (r, s')"
  shows "store_ok s' \<and> fs_files s' = fs_files s \<and> fs_root s' = fs_root s \<and> fs_quota s' = fs_quota s \<and>
    (\<forall>used. r = Inr used \<longrightarrow> used = sizes (directory s account) s) \<and> (\<forall>err. r = Inl err \<longrightarrow> io_walk_fails io \<noteq> None) \<and> (\<forall>b. b \<noteq> account \<longrightarrow> fs_usages s' b = fs_usages s b)"
  using assms base_path [of s account]
  by (auto simp: usage_def store_ok_def split: option.splits walk_fault.splits if_splits)

lemma view_cong: "fs_files s' = fs_files s \<Longrightarrow> fs_root s' = fs_root s \<Longrightarrow> fs_view s' = fs_view s"
  by (simp add: fs_view_def directory_def fun_eq_iff)

lemma check_quota_spec:
  assumes "store_ok s" and "account_ok account" and "check_quota io account data s = (r, s')"
  shows "store_ok s' \<and> fs_files s' = fs_files s \<and> fs_root s' = fs_root s \<and> fs_quota s' = fs_quota s \<and>
    (r = Inr () \<longrightarrow> fs_quota s \<le> 0 \<or> sizes (directory s account) s + int (length data) \<le> fs_quota s) \<and>
    (io_walk_fails io = None \<longrightarrow> (fs_quota s \<le> 0 \<or> sizes (directory s account) s + int (length data) \<le> fs_quota s) \<longrightarrow> r = Inr ()) \<and>
    (\<forall>b. b \<noteq> account \<longrightarrow> fs_usages s' b = fs_usages s b)"
  using assms usage_spec [OF assms(1,2), of io]
  by (auto simp: check_quota_def split: if_splits prod.splits sum.splits)

section \<open>The operations of the store\<close>

lemma valid_path:
  assumes "store_ok s" and "account_ok account" and "validateName name = Inr ()"
  shows "fs_path s account name = Inr (directory s account @ ''/'' @ name)"
    and "tget (fs_view s account) name = map_option so_data (tget (fs_files s) (directory s account @ ''/'' @ name))"
  using assms object_path [of s account name] tget_view [of name s account] validateName_proper [of name]
  by (simp_all add: store_ok_def is_temp_name_def)

text \<open>A put stores the bytes under the name, or changes nothing; a name that is taken keeps its bytes.\<close>

lemma fs_put_cases:
  assumes "store_ok s" and "account_ok account"
  obtains err s' where "fs_put io account name data s = (Inl err, s')" "store_ok s'" "fs_files s' = fs_files s"
      "fs_root s' = fs_root s" "fs_quota s' = fs_quota s" "\<forall>b. b \<noteq> account \<longrightarrow> fs_usages s' b = fs_usages s b"
  | "fs_put io account name data s = (Inr (), s)" "validateName name = Inr ()" "tget (fs_view s account) name = Some data"
  | s' f where "fs_put io account name data s =
        (Inr (), s'\<lparr>fs_files := tput (directory s' account @ ''/'' @ name) f (fs_files s'), fs_usages := (fs_usages s')(account := None)\<rparr>)"
      "validateName name = Inr ()" "tget (fs_view s account) name = None" "so_data f = data" "store_ok s'" "fs_files s' = fs_files s"
      "fs_root s' = fs_root s" "fs_quota s' = fs_quota s"
      "fs_quota s \<le> 0 \<or> sizes (directory s account) s + int (length data) \<le> fs_quota s"
      "\<forall>b. b \<noteq> account \<longrightarrow> fs_usages s' b = fs_usages s b"
proof (cases "validateName name")
  case (Inl err)
  then have "fs_put io account name data s = (Inl err, s)" by (simp add: fs_put_def)
  then show thesis using that(1) assms(1) by blast
next
  case (Inr u)
  then have valid: "validateName name = Inr ()" by simp
  let ?path = "directory s account @ ''/'' @ name"
  note path = valid_path(1) [OF assms valid] and view = valid_path(2) [OF assms valid]
  obtain r t where q: "check_quota io account data s = (r, t)" by fastforce
  note quota = check_quota_spec [OF assms q]
  note eq = fs_put_def [of io account name data s, unfolded valid path sum.case]
  consider "io_cancelled io" | "\<not> io_cancelled io" "io_read_fails io"
    | f where "\<not> io_cancelled io" "\<not> io_read_fails io" "tget (fs_files s) ?path = Some f"
    | "\<not> io_cancelled io" "\<not> io_read_fails io" "tget (fs_files s) ?path = None" by fastforce
  then show thesis
  proof cases
    case 1
    then have "fs_put io account name data s = (Inl ErrContext, s)" by (simp add: eq)
    then show thesis using that(1) assms(1) by blast
  next
    case 2
    then have "fs_put io account name data s = (Inl (ErrStorage ''read existing''), s)" by (simp add: eq)
    then show thesis using that(1) assms(1) by blast
  next
    case 3
    show thesis
    proof (cases "so_data f = data")
      case True
      with 3 have "fs_put io account name data s = (Inr (), s)" by (simp add: eq)
      then show thesis using that(2) valid view 3(3) True by simp
    next
      case False
      with 3 have "fs_put io account name data s = (Inl ErrAlreadyExists, s)" by (simp add: eq)
      then show thesis using that(1) assms(1) by blast
    qed
  next
    case 4
    show thesis
    proof (cases r)
      case (Inl err)
      with 4 q have "fs_put io account name data s = (Inl err, t)" by (simp add: eq)
      then show thesis using that(1) quota by blast
    next
      case (Inr u)
      with 4 q have w: "fs_put io account name data s = write_file io account ?path data t" by (simp add: eq)
      show thesis
      proof (cases "io_write_fails io")
        case None
        then show thesis using that(3) w valid view 4(3) quota Inr by (simp add: write_file_def directory_def)
      next
        case (Some err)
        then have "fs_put io account name data s = (Inl (ErrStorage err), t)" by (simp add: w write_file_def)
        then show thesis using that(1) quota by blast
      qed
    qed
  qed
qed

lemma fs_delete_cases:
  assumes "store_ok s" and "account_ok account"
  obtains err where "fs_delete io account name s = (Inl err, s)"
  | "fs_delete io account name s = (Inr (),
        s\<lparr>fs_files := tdelete (directory s account @ ''/'' @ name) (fs_files s), fs_usages := (fs_usages s)(account := None)\<rparr>)"
      "validateName name = Inr ()"
proof (cases "validateName name")
  case (Inr u)
  then have valid: "validateName name = Inr ()" by simp
  note path = valid_path(1) [OF assms valid]
  show thesis
    using that valid path
    by (cases "io_cancelled io"; cases "io_write_fails io") (simp_all add: fs_delete_def)
qed (use that in \<open>simp add: fs_delete_def\<close>)

lemma fs_get_spec:
  assumes "store_ok s" and "account_ok account"
  shows "fs_get io account name s = Inr d \<Longrightarrow> tget (fs_view s account) name = Some d"
    and "fs_get io account name s = Inl ErrNotFound \<Longrightarrow> tget (fs_view s account) name = None"
    and "validateName name = Inr () \<Longrightarrow> \<not> io_cancelled io \<Longrightarrow> \<not> io_read_fails io \<Longrightarrow>
      fs_get io account name s = (case tget (fs_view s account) name of None \<Rightarrow> Inl ErrNotFound | Some d \<Rightarrow> Inr d)"
proof -
  note * = valid_path [OF assms, of name]
  have bad: "validateName name \<noteq> Inl ErrNotFound" by (simp add: validateName_def)
  show "fs_get io account name s = Inr d \<Longrightarrow> tget (fs_view s account) name = Some d"
    and "fs_get io account name s = Inl ErrNotFound \<Longrightarrow> tget (fs_view s account) name = None"
    and "validateName name = Inr () \<Longrightarrow> \<not> io_cancelled io \<Longrightarrow> \<not> io_read_fails io \<Longrightarrow>
      fs_get io account name s = (case tget (fs_view s account) name of None \<Rightarrow> Inl ErrNotFound | Some d \<Rightarrow> Inr d)"
    using * bad by (cases "validateName name"; auto simp: fs_get_def split: if_splits option.splits)+
qed

lemma fs_list_spec:
  assumes "store_ok s" and "account_ok account" and "fs_list io account prefix cursor limit s = Inr listing"
  defines "names \<equiv> filter (\<lambda>n. startsWith prefix n \<and> cursor < n) (primaryKeys (fs_view s account))"
    and "l \<equiv> nat (if limit \<le> 0 then 1000 else limit)"
  shows "map ob_name (ls_objects listing) = take l names \<and>
    ls_nextCursor listing = (if l < length names then names ! (l - 1) else [])"
proof -
  let ?base = "directory s account"
  let ?objects = "filter (\<lambda>ob. startsWith prefix (ob_name ob) \<and> cursor < ob_name ob)
    (map (object_of ?base) (filter (\<lambda>p. \<not> is_temporary (fst p)) (walked ?base s)))"
  have temp: "is_temporary (?base @ ''/'' @ k) = is_temp_name k" for k
    using last_split_on [of "CHR ''/''" ?base k] by (simp add: is_temporary_def is_temp_name_def)
  have "\<not> is_temporary (fst r) \<longleftrightarrow> \<not> is_temp_name (drop (length ?base + 1) (fst r))" if "startsWith (?base @ ''/'') (fst r)" for r
    using startsWith_drop [OF that] temp [of "drop (length (?base @ ''/'')) (fst r)"] by simp
  then have "map (ob_name \<circ> object_of ?base) (filter (\<lambda>p. \<not> is_temporary (fst p)) (walked ?base s)) =
      filter (\<lambda>k. \<not> is_temp_name k) (map (drop (length ?base + 1) \<circ> fst) (walked ?base s))"
    by (simp add: filter_map comp_def walked_def object_of_def) (rule arg_cong [where f = "map _"], rule filter_cong, auto)
  also have "\<dots> = primaryKeys (fs_view s account)"
    by (simp add: fs_view_def primaryKeys_visible primaryKeys_subtable walked_def comp_def)
      (simp add: primaryKeys_def filter_map comp_def)
  finally have all: "primaryKeys (fs_view s account) =
      map (ob_name \<circ> object_of ?base) (filter (\<lambda>p. \<not> is_temporary (fst p)) (walked ?base s))" by (rule sym)
  have keys: "map ob_name ?objects = names"
    unfolding names_def all by (simp add: filter_map comp_def)
  have "sorted_wrt (<) (primaryKeys (fs_view s account))"
    using table_ok_view [OF assms(1)] by (simp add: table_ok_def)
  then have "sorted names" by (simp add: names_def sorted_wrt_filter strict_sorted_imp_sorted)
  then have id: "sort_key ob_name ?objects = ?objects"
    by (intro sort_key_id_if_sorted) (simp only: keys)
  have len: "length ?objects = length names" by (simp flip: keys)
  have nth: "l < length names \<Longrightarrow> ob_name (?objects ! (l - 1)) = names ! (l - 1)"
    using keys nth_map [of "l - 1" ?objects ob_name] len by (simp del: nth_map)
  have base: "fs_path s account [] = Inr ?base"
    using base_path assms(1,2) by (auto simp: store_ok_def)
  have "listing = (if l < length ?objects
      then \<lparr>ls_objects = take l ?objects, ls_nextCursor = ob_name (?objects ! (l - 1))\<rparr>
      else \<lparr>ls_objects = ?objects, ls_nextCursor = []\<rparr>)"
    using assms(3) id unfolding fs_list_def base sum.case Let_def l_def
    by (auto split: sum.splits option.splits)
  then show ?thesis using keys len nth by (auto simp: take_map [symmetric])
qed

text \<open>Without a fault, and within the quota, the operations succeed.\<close>

definition io_fine :: "io \<Rightarrow> bool" where
  "io_fine io \<longleftrightarrow> \<not> io_cancelled io \<and> \<not> io_read_fails io \<and> io_walk_fails io = None \<and> io_write_fails io = None"

definition fits :: "string \<Rightarrow> 'b list \<Rightarrow> 'b FSStore \<Rightarrow> bool" where
  "fits account data s \<longleftrightarrow> fs_quota s \<le> 0 \<or> sizes (directory s account) s + int (length data) \<le> fs_quota s"

lemma fs_put_succeeds:
  assumes "store_ok s" and "account_ok account" and "io_fine io" and "validateName name = Inr ()"
    and "tget (fs_view s account) name = None \<and> fits account data s \<or> tget (fs_view s account) name = Some data"
  shows "fst (fs_put io account name data s) = Inr ()"
proof -
  note path = valid_path [OF assms(1,2,4)]
  obtain r t where q: "check_quota io account data s = (r, t)" by fastforce
  show ?thesis using assms(3-5) path check_quota_spec [OF assms(1,2) q] q
    by (auto simp: fs_put_def io_fine_def fits_def write_file_def split: option.splits sum.splits)
qed

lemma fs_put_conflict:
  assumes "store_ok s" and "account_ok account" and "io_fine io" and "validateName name = Inr ()"
    and "tget (fs_view s account) name = Some old" and "old \<noteq> data"
  shows "fs_put io account name data s = (Inl ErrAlreadyExists, s)"
  using assms(3-6) valid_path [OF assms(1,2,4)] by (auto simp: fs_put_def io_fine_def)

lemma fs_delete_succeeds:
  assumes "store_ok s" and "account_ok account" and "io_fine io" and "validateName name = Inr ()"
  shows "fst (fs_delete io account name s) = Inr ()"
  using assms(3,4) valid_path [OF assms(1,2,4)] by (simp add: fs_delete_def io_fine_def)

lemma fs_list_succeeds:
  assumes "store_ok s" and "account_ok account" and "io_fine io" and "validatePrefix prefix = Inr ()"
  obtains listing where "fs_list io account prefix cursor limit s = Inr listing"
  using assms(3,4) base_path [of s account] assms(1,2) by (fastforce simp: fs_list_def store_ok_def io_fine_def Let_def)

section \<open>The contract of a store\<close>

text \<open>What the handlers rely on (Go's interface \<open>Store\<close>): every account has a table of its own; a put
  adds to it or changes nothing, and an object that is there keeps its bytes until it is deleted.\<close>

locale blob_store =
  fixes ok :: "'s \<Rightarrow> bool"
    and view :: "'s \<Rightarrow> string \<Rightarrow> 'd tbl"
    and account_id :: "string \<Rightarrow> bool"
    and put :: "'e \<Rightarrow> string \<Rightarrow> string \<Rightarrow> 'd \<Rightarrow> 's \<Rightarrow> (store_error + unit) \<times> 's"
    and delete :: "'e \<Rightarrow> string \<Rightarrow> string \<Rightarrow> 's \<Rightarrow> (store_error + unit) \<times> 's"
  assumes put_ok: "ok s \<Longrightarrow> account_id a \<Longrightarrow> ok (snd (put e a n d s))"
    and delete_ok: "ok s \<Longrightarrow> account_id a \<Longrightarrow> ok (snd (delete e a n s))"
    and view_ok: "ok s \<Longrightarrow> table_ok (view s a)"
    and put_view: "ok s \<Longrightarrow> account_id a \<Longrightarrow> put e a n d s = (r, s') \<Longrightarrow>
      (case r of Inl _ \<Rightarrow> view s' a = view s a | Inr _ \<Rightarrow> view s' a = tput n d (view s a) \<and> tget (view s a) n \<in> {None, Some d})"
    and delete_view: "ok s \<Longrightarrow> account_id a \<Longrightarrow> delete e a n s = (r, s') \<Longrightarrow>
      (case r of Inl _ \<Rightarrow> view s' a = view s a | Inr _ \<Rightarrow> view s' a = tdelete n (view s a))"
    and put_other: "ok s \<Longrightarrow> account_id a \<Longrightarrow> account_id b \<Longrightarrow> b \<noteq> a \<Longrightarrow> view (snd (put e a n d s)) b = view s b"
    and delete_other: "ok s \<Longrightarrow> account_id a \<Longrightarrow> account_id b \<Longrightarrow> b \<noteq> a \<Longrightarrow> view (snd (delete e a n s)) b = view s b"
begin

lemma put_keeps:
  assumes "ok s" and "account_id a" and "account_id b" and "tget (view s b) m = Some x"
  shows "tget (view (snd (put e a n d s)) b) m = Some x"
proof (cases "a = b")
  case True
  obtain r s' where p: "put e a n d s = (r, s')" by fastforce
  show ?thesis using put_view [OF assms(1,2) p] assms(4) view_ok [OF assms(1)] True p by (cases r) auto
next
  case False
  then show ?thesis using put_other [OF assms(1,2,3)] assms(4) by simp
qed

lemma delete_keeps:
  assumes "ok s" and "account_id a" and "account_id b" and "tget (view s b) m = Some x" and "(a, n) \<noteq> (b, m)"
  shows "tget (view (snd (delete e a n s)) b) m = Some x"
proof (cases "a = b")
  case True
  obtain r s' where p: "delete e a n s = (r, s')" by fastforce
  show ?thesis using delete_view [OF assms(1,2) p] assms(4,5) True p by (cases r) auto
next
  case False
  then show ?thesis using delete_other [OF assms(1,2,3)] assms(4) by simp
qed

end

lemma same_files:
  assumes "fs_files s' = fs_files s" and "fs_root s' = fs_root s"
  shows "fs_view s' = fs_view s" and "directory s' = directory s" and "sizes base s' = sizes base s"
  using assms by (simp_all add: fs_view_def directory_def sizes_def walked_def fun_eq_iff)

lemma fs_put_spec:
  assumes "store_ok s" and "account_ok a" and "fs_put io a n d s = (r, s')"
  shows "store_ok s'" and "fs_root s' = fs_root s \<and> fs_quota s' = fs_quota s"
    and "case r of Inl _ \<Rightarrow> fs_view s' a = fs_view s a | Inr _ \<Rightarrow> fs_view s' a = tput n d (fs_view s a) \<and> tget (fs_view s a) n \<in> {None, Some d}"
    and "account_ok b \<Longrightarrow> b \<noteq> a \<Longrightarrow> fs_view s' b = fs_view s b"
    and "account_ok b \<Longrightarrow> 0 < fs_quota s \<Longrightarrow> sizes (directory s b) s \<le> fs_quota s \<Longrightarrow> sizes (directory s b) s' \<le> fs_quota s"
proof -
  have "store_ok s' \<and> fs_root s' = fs_root s \<and> fs_quota s' = fs_quota s \<and>
    (case r of Inl _ \<Rightarrow> fs_view s' a = fs_view s a | Inr _ \<Rightarrow> fs_view s' a = tput n d (fs_view s a) \<and> tget (fs_view s a) n \<in> {None, Some d}) \<and>
    (\<forall>b. account_ok b \<longrightarrow> b \<noteq> a \<longrightarrow> fs_view s' b = fs_view s b) \<and>
    (\<forall>b. account_ok b \<longrightarrow> 0 < fs_quota s \<longrightarrow> sizes (directory s b) s \<le> fs_quota s \<longrightarrow> sizes (directory s b) s' \<le> fs_quota s)"
    using assms(1,2)
  proof (cases rule: fs_put_cases [where io = io and name = n and data = d])
    case (1 err t)
    then have "r = Inl err" "s' = t" using assms(3) by auto
    then show ?thesis using 1 same_files [OF 1(3,4)] by simp
  next
    case 2
    then have "r = Inr ()" "s' = s" using assms(3) by auto
    then show ?thesis using 2 assms(1) tput_same [OF table_ok_view [OF assms(1)]] by simp
  next
    case (3 t f)
    let ?u = "t\<lparr>fs_files := tput (directory t a @ ''/'' @ n) f (fs_files t), fs_usages := (fs_usages t)(a := None)\<rparr>"
    have eq: "r = Inr ()" "s' = ?u" using 3(1) assms(3) by auto
    note same = same_files [OF 3(6,7)]
    have temp: "\<not> is_temp_name n" using validateName_proper(2) [OF 3(2)] by (simp add: is_temp_name_def)
    have size: "sizes (directory s b) ?u \<le> fs_quota s"
      if b: "account_ok b" "0 < fs_quota s" "sizes (directory s b) s \<le> fs_quota s" for b
    proof (cases "b = a")
      case True
      have "sizes (directory t a) ?u = sizes (directory t a) t - (case tget (subtable (directory t a @ ''/'') (fs_files t)) n of
          None \<Rightarrow> 0 | Some w \<Rightarrow> int (length (so_data w))) + int (length d)"
        using sizes_subtable [of ?u a] sizes_subtable [of t a] 3(4,5) subtable_tput [of "fs_files t" "directory t a @ ''/''" n f]
          sum_tput [of "subtable (directory t a @ ''/'') (fs_files t)" "\<lambda>v. int (length (so_data v))" n f]
        by (simp add: store_ok_def)
      also have "\<dots> \<le> sizes (directory t a) t + int (length d)" by (simp split: option.split)
      finally show ?thesis using 3(9) b(2) True same by simp
    next
      case False
      then have "sizes (directory t b) ?u = sizes (directory t b) t"
        using sizes_other(1) [OF 3(5) assms(2) b(1), of n f] by simp
      then show ?thesis using b(3) same by simp
    qed
    show ?thesis unfolding eq using 3(3,4,7,8) same size store_ok_change(1) [OF 3(5) assms(2), of n f]
        view_tput [OF 3(5) temp] view_other(1) [OF 3(5) assms(2)]
      by simp
  qed
  then show "store_ok s'" and "fs_root s' = fs_root s \<and> fs_quota s' = fs_quota s"
    and "case r of Inl _ \<Rightarrow> fs_view s' a = fs_view s a | Inr _ \<Rightarrow> fs_view s' a = tput n d (fs_view s a) \<and> tget (fs_view s a) n \<in> {None, Some d}"
    and "account_ok b \<Longrightarrow> b \<noteq> a \<Longrightarrow> fs_view s' b = fs_view s b"
    and "account_ok b \<Longrightarrow> 0 < fs_quota s \<Longrightarrow> sizes (directory s b) s \<le> fs_quota s \<Longrightarrow> sizes (directory s b) s' \<le> fs_quota s"
    by blast+
qed

lemma fs_delete_spec:
  assumes "store_ok s" and "account_ok a" and "fs_delete io a n s = (r, s')"
  shows "store_ok s'" and "fs_root s' = fs_root s \<and> fs_quota s' = fs_quota s"
    and "case r of Inl _ \<Rightarrow> fs_view s' a = fs_view s a | Inr _ \<Rightarrow> fs_view s' a = tdelete n (fs_view s a)"
    and "account_ok b \<Longrightarrow> b \<noteq> a \<Longrightarrow> fs_view s' b = fs_view s b"
    and "account_ok b \<Longrightarrow> sizes (directory s b) s' \<le> sizes (directory s b) s"
proof -
  let ?u = "s\<lparr>fs_files := tdelete (directory s a @ ''/'' @ n) (fs_files s), fs_usages := (fs_usages s)(a := None)\<rparr>"
  have size: "sizes (directory s b) ?u \<le> sizes (directory s b) s" if "account_ok b"
  proof (cases "b = a")
    case True
    then show ?thesis
      using sizes_subtable [of ?u a] sizes_subtable [of s a] assms(1) subtable_tdelete [of "fs_files s" "directory s a @ ''/''" n]
        sum_tdelete_le [of "\<lambda>v. int (length (so_data v))" n "subtable (directory s a @ ''/'') (fs_files s)"]
      by (simp add: store_ok_def)
  next
    case False
    then show ?thesis using sizes_other(2) [OF assms(1,2) that, of n] by simp
  qed
  consider err where "r = Inl err" "s' = s" | "r = Inr ()" "s' = ?u"
    using fs_delete_cases [OF assms(1,2), of io n] assms(3) by (metis prod.inject)
  then show "store_ok s'" and "fs_root s' = fs_root s \<and> fs_quota s' = fs_quota s"
    and "case r of Inl _ \<Rightarrow> fs_view s' a = fs_view s a | Inr _ \<Rightarrow> fs_view s' a = tdelete n (fs_view s a)"
    and "account_ok b \<Longrightarrow> b \<noteq> a \<Longrightarrow> fs_view s' b = fs_view s b"
    and "account_ok b \<Longrightarrow> sizes (directory s b) s' \<le> sizes (directory s b) s"
    using assms(1) size store_ok_change(2) [OF assms(1,2), of n] view_tdelete [OF assms(1)] view_other(2) [OF assms(1,2)]
    by (cases; simp)+
qed

interpretation fs: blob_store store_ok fs_view account_ok fs_put fs_delete
proof (unfold_locales, goal_cases)
  case (1 s a e n d)
  then show ?case using fs_put_spec(1) [of s a e n d] by (cases "fs_put e a n d s") auto
next
  case (2 s a e n)
  then show ?case using fs_delete_spec(1) [of s a e n] by (cases "fs_delete e a n s") auto
next
  case (6 s a b e n d)
  then show ?case using fs_put_spec(4) [of s a e n d] by (cases "fs_put e a n d s") auto
next
  case (7 s a b e n)
  then show ?case using fs_delete_spec(4) [of s a e n] by (cases "fs_delete e a n s") auto
qed (erule table_ok_view, erule (2) fs_put_spec(3), erule (2) fs_delete_spec(3))

end
