(* ===== verification/Server_Api.thy ===== *)
theory Server_Api
  imports Server_Store
begin

text \<open>
  The bundled sync server over HTTP: who a request is from (\<open>server/internal/auth/auth.go\<close>) and what the
  handlers answer (\<open>server/internal/api/server.go\<close>). SHA-256, entity tags and the quoting of a character
  are parameters, and a body is its value instead of its JSON. The middleware that adds headers and the
  answers to preflights are for browsers and are not modelled. The lemmas show what every answer
  depends on, that an account's answers are those it would get if nobody else used the server, and what
  limits what it stores.
\<close>

section \<open>Accounts and tokens\<close>

datatype token_error = BadLine nat | EmptyAccountId nat | AccountIdTooLong nat | AccountIdCharacter nat char | BadTokenHash nat
  | DuplicateTokenHash nat | LineTooLong | ErrNoTokens

type_synonym registry = "(string \<times> string) list"

definition go_space :: "char \<Rightarrow> bool" where
  "go_space c \<longleftrightarrow> of_char c \<in> {9, 10, 11, 12, 13, 32 :: nat}"

definition trimSpace :: "string \<Rightarrow> string" where
  "trimSpace s = rev (dropWhile go_space (rev (dropWhile go_space s)))"

text \<open>The lines \<open>bufio.Scanner\<close> finds; it gives up on one that does not fit its buffer of 64 KiB.\<close>

definition drop_return :: "string \<Rightarrow> string" where
  "drop_return line = (if line \<noteq> [] \<and> last line = CHR 0x0D then butlast line else line)"

definition scan_lines :: "string \<Rightarrow> string list" where
  "scan_lines s = (let ls = split_on CHR 0x0A s in if last ls = [] then butlast ls else ls)"

fun account_chars_error :: "nat \<Rightarrow> string \<Rightarrow> token_error option" where
  "account_chars_error line [] = None"
| "account_chars_error line (c # cs) =
     (if is_alnum c \<or> c = CHR ''-'' \<or> c = CHR ''_'' then account_chars_error line cs else Some (AccountIdCharacter line c))"

definition validAccountID :: "nat \<Rightarrow> string \<Rightarrow> token_error option" where
  "validAccountID line aid =
     (if aid = [] then Some (EmptyAccountId line)
      else if 64 < length aid then Some (AccountIdTooLong line)
      else account_chars_error line aid)"

fun parse_lines :: "nat \<Rightarrow> string list \<Rightarrow> registry \<Rightarrow> token_error + registry" where
  "parse_lines line [] reg = (if reg = [] then Inl ErrNoTokens else Inr reg)"
| "parse_lines line (raw # ls) reg =
     (if 65536 \<le> length raw then Inl LineTooLong
      else
        let txt = trimSpace (drop_return raw)
        in if txt = [] \<or> startsWith ''#'' txt then parse_lines (Suc line) ls reg
           else if CHR '':'' \<notin> set txt then Inl (BadLine line)
           else
             let aid = trimSpace (takeWhile (\<lambda>c. c \<noteq> CHR '':'') txt);
                 hash = toLowerCase (trimSpace (tl (dropWhile (\<lambda>c. c \<noteq> CHR '':'') txt)))
             in case validAccountID line aid of
                  Some err \<Rightarrow> Inl err
                | None \<Rightarrow>
                    if length hash \<noteq> 64 \<or> \<not> list_all is_hex hash then Inl (BadTokenHash line)
                    else if map_of reg hash \<noteq> None then Inl (DuplicateTokenHash line)
                    else parse_lines (Suc line) ls ((hash, aid) # reg))"

definition parseTokens :: "string \<Rightarrow> token_error + registry" where
  "parseTokens s = parse_lines 1 (scan_lines s) []"

text \<open>Every entry is compared; the hashes differ, so at most one of them matches.\<close>

definition lookup_token :: "(string \<Rightarrow> string) \<Rightarrow> registry \<Rightarrow> string \<Rightarrow> string option" where
  "lookup_token hashToken reg token = (if token = [] then None else map_of reg (hashToken token))"

definition bearerToken :: "string \<Rightarrow> string" where
  "bearerToken header =
     (if length header \<le> 7 \<or> toLowerCase (take 7 header) \<noteq> ''bearer '' then [] else trimSpace (drop 7 header))"

section \<open>Requests and answers\<close>

datatype http_method = GET | HEAD | PUT | DELETE | OPTIONS | OtherMethod

record 'b http_request =
  rq_method :: http_method
  rq_path :: string
  rq_query :: "(string \<times> string) list"
  rq_authorization :: string
  rq_ifNoneMatch :: string
  rq_body :: "'b list option"

datatype 'b http_body = NoBody | BytesBody "'b list" | ListingBody Listing | ErrorBody string | FieldsBody "(string \<times> string) list"

record 'b http_response =
  rs_status :: nat
  rs_body :: "'b http_body"

record 'b server =
  sv_hashToken :: "string \<Rightarrow> string"
  sv_etag :: "'b list \<Rightarrow> string"
  sv_quote :: "char \<Rightarrow> string"
  sv_tokens :: registry
  sv_maxObjectSize :: int
  sv_version :: string

definition newServer :: "(string \<Rightarrow> string) \<Rightarrow> ('b list \<Rightarrow> string) \<Rightarrow> (char \<Rightarrow> string) \<Rightarrow> registry \<Rightarrow> int \<Rightarrow> string \<Rightarrow> 'b server" where
  "newServer hashToken etag quot reg limit version =
     \<lparr>sv_hashToken = hashToken, sv_etag = etag, sv_quote = quot, sv_tokens = reg,
      sv_maxObjectSize = (if limit \<le> 0 then 8388608 else limit), sv_version = version\<rparr>"

abbreviation answer :: "nat \<Rightarrow> 'b http_body \<Rightarrow> 'b http_response" where
  "answer code body \<equiv> \<lparr>rs_status = code, rs_body = body\<rparr>"

definition query_get :: "(string \<times> string) list \<Rightarrow> string \<Rightarrow> string" where
  "query_get q k = (case map_of q k of None \<Rightarrow> [] | Some v \<Rightarrow> v)"

text \<open>\<open>url.PathUnescape\<close>\<close>

fun path_unescape :: "string \<Rightarrow> string option" where
  "path_unescape [] = Some []"
| "path_unescape (c # cs) =
     (if c = CHR 0x25 then
        (case cs of
           h # l # rest \<Rightarrow>
             if is_hex (lower_char h) \<and> is_hex (lower_char l)
             then map_option ((#) (char_of (16 * char_digit (lower_char h) + char_digit (lower_char l)))) (path_unescape rest)
             else None
         | _ \<Rightarrow> None)
      else map_option ((#) c) (path_unescape cs))"

text \<open>The routes, as \<open>http.ServeMux\<close> chooses among the patterns that are registered. The pattern of the
  preflights takes every path, so that a path without a handler is answered with 405.\<close>

datatype route = HealthRoute | ListRoute | ObjectRoute string | PreflightRoute | RedirectRoute string | MethodNotAllowed | MalformedPath

definition clean_url :: "string \<Rightarrow> string" where
  "clean_url p = (let q = clean_path p in if p \<noteq> [] \<and> last p = CHR ''/'' \<and> q \<noteq> ''/'' then q @ ''/'' else q)"

definition route_of :: "http_method \<Rightarrow> string \<Rightarrow> route" where
  "route_of m p =
     (if path_unescape p = None then MalformedPath
      else if clean_url p \<noteq> p then RedirectRoute (clean_url p)
      else if m = OPTIONS then PreflightRoute
      else case map (\<lambda>part. the (path_unescape part)) (tl (split_on CHR ''/'' p)) of
        version # kind # rest \<Rightarrow>
          if version = ''v1'' \<and> kind = ''health'' \<and> rest = [] \<and> m \<in> {GET, HEAD} then HealthRoute
          else if version = ''v1'' \<and> kind = ''objects'' \<and> rest = [] then
            (if m \<in> {GET, HEAD} then ListRoute else if m \<in> {PUT, DELETE} then RedirectRoute (p @ ''/'') else MethodNotAllowed)
          else if version = ''v1'' \<and> kind = ''objects'' \<and> m \<in> {GET, HEAD, PUT, DELETE} then ObjectRoute (join ''/'' rest)
          else MethodNotAllowed
      | _ \<Rightarrow> MethodNotAllowed)"

section \<open>The handlers\<close>

definition name_error_text :: "'b server \<Rightarrow> name_error \<Rightarrow> string" where
  "name_error_text sv err = ''invalid object name: '' @
     (case err of
        TooLong \<Rightarrow> ''too long''
      | PathTraversal \<Rightarrow> ''path traversal''
      | NotAnObjectName \<Rightarrow> ''expected vaults/<vault>/ops/<stamp>.edk''
      | PrefixTooLong \<Rightarrow> ''prefix too long''
      | InvalidCharacter c \<Rightarrow> ''invalid character '' @ sv_quote sv c @ '' in prefix''
      | BadAccount \<Rightarrow> ''account''
      | EscapesRoot \<Rightarrow> ''escapes account root'')"

text \<open>A client that has hung up is sent nothing.\<close>

definition writeStoreError :: "'b server \<Rightarrow> store_error \<Rightarrow> 'b http_response" where
  "writeStoreError sv err =
     (case err of
        ErrNotFound \<Rightarrow> answer 404 (ErrorBody ''object not found'')
      | ErrInvalidName e \<Rightarrow> answer 400 (ErrorBody (name_error_text sv e))
      | ErrAlreadyExists \<Rightarrow> answer 409 (ErrorBody ''an object with different contents already exists under that name'')
      | ErrQuotaExceeded \<Rightarrow> answer 507 (ErrorBody ''storage quota exceeded'')
      | ErrContext \<Rightarrow> answer 200 NoBody
      | ErrStorage _ \<Rightarrow> answer 500 (ErrorBody ''internal error''))"

text \<open>\<open>strconv.Atoi\<close> on a 64-bit machine\<close>

definition atoi :: "string \<Rightarrow> int option" where
  "atoi s =
     (let (neg, ds) = (case s of c # cs \<Rightarrow> if c = CHR ''-'' then (True, cs) else if c = CHR ''+'' then (False, cs) else (False, s)
                        | [] \<Rightarrow> (False, []));
          n = (if neg then - 1 else 1) * int (from_base 10 ds)
      in if ds = [] \<or> \<not> list_all is_digit ds \<or> n < - (2 ^ 63) \<or> 2 ^ 63 \<le> n then None else Some n)"

definition handleHealth :: "'b server \<Rightarrow> 'b http_response" where
  "handleHealth sv = answer 200 (FieldsBody [(''status'', ''ok''), (''version'', sv_version sv)])"

definition handleList :: "'b server \<Rightarrow> io \<Rightarrow> string \<Rightarrow> 'b http_request \<Rightarrow> 'b FSStore \<Rightarrow> 'b http_response" where
  "handleList sv io account rq s =
     (let raw = query_get (rq_query rq) ''limit'';
          parsed = (if raw = [] then Some 1000 else atoi raw)
      in case parsed of
           None \<Rightarrow> answer 400 (ErrorBody ''limit must be a positive integer'')
         | Some n \<Rightarrow>
             if n \<le> 0 then answer 400 (ErrorBody ''limit must be a positive integer'')
             else case fs_list io account (query_get (rq_query rq) ''prefix'') (query_get (rq_query rq) ''cursor'') (min n 1000) s of
               Inl err \<Rightarrow> writeStoreError sv err
             | Inr listing \<Rightarrow> answer 200 (ListingBody listing))"

definition handleGet :: "'b server \<Rightarrow> io \<Rightarrow> string \<Rightarrow> string \<Rightarrow> 'b http_request \<Rightarrow> 'b FSStore \<Rightarrow> 'b http_response" where
  "handleGet sv io account name rq s =
     (case fs_get io account name s of
        Inl err \<Rightarrow> writeStoreError sv err
      | Inr data \<Rightarrow> if rq_ifNoneMatch rq = sv_etag sv data then answer 304 NoBody else answer 200 (BytesBody data))"

definition handlePut :: "'b server \<Rightarrow> io \<Rightarrow> string \<Rightarrow> string \<Rightarrow> 'b http_request \<Rightarrow> 'b FSStore \<Rightarrow> 'b http_response \<times> 'b FSStore" where
  "handlePut sv io account name rq s =
     (case rq_body rq of
        None \<Rightarrow> (answer 400 (ErrorBody ''could not read request body''), s)
      | Some data \<Rightarrow>
          if sv_maxObjectSize sv < int (length data) then (answer 413 (ErrorBody ''object exceeds the server's size limit''), s)
          else if data = [] then (answer 400 (ErrorBody ''object must not be empty''), s)
          else case fs_put io account name data s of
            (Inl err, s') \<Rightarrow> (writeStoreError sv err, s')
          | (Inr _, s') \<Rightarrow> (answer 201 (FieldsBody [(''name'', name), (''size'', String_of (length data))]), s'))"

definition handleDelete :: "'b server \<Rightarrow> io \<Rightarrow> string \<Rightarrow> string \<Rightarrow> 'b FSStore \<Rightarrow> 'b http_response \<times> 'b FSStore" where
  "handleDelete sv io account name s =
     (case fs_delete io account name s of
        (Inl err, s') \<Rightarrow> (writeStoreError sv err, s')
      | (Inr _, s') \<Rightarrow> (answer 204 NoBody, s'))"

definition account_of :: "'b server \<Rightarrow> 'b http_request \<Rightarrow> string option" where
  "account_of sv rq = lookup_token (sv_hashToken sv) (sv_tokens sv) (bearerToken (rq_authorization rq))"

definition authenticated :: "'b server \<Rightarrow> 'b http_request \<Rightarrow> (string \<Rightarrow> 'b FSStore \<Rightarrow> 'b http_response \<times> 'b FSStore) \<Rightarrow>
    'b FSStore \<Rightarrow> 'b http_response \<times> 'b FSStore" where
  "authenticated sv rq handler s =
     (case account_of sv rq of
        None \<Rightarrow> (answer 401 (ErrorBody ''invalid or missing bearer token''), s)
      | Some account \<Rightarrow> handler account s)"

definition serve :: "'b server \<Rightarrow> io \<Rightarrow> 'b http_request \<Rightarrow> 'b FSStore \<Rightarrow> 'b http_response \<times> 'b FSStore" where
  "serve sv io rq s =
     (case route_of (rq_method rq) (rq_path rq) of
        HealthRoute \<Rightarrow> (handleHealth sv, s)
      | ListRoute \<Rightarrow> authenticated sv rq (\<lambda>account s. (handleList sv io account rq s, s)) s
      | ObjectRoute name \<Rightarrow>
          authenticated sv rq (\<lambda>account.
            (case rq_method rq of
               PUT \<Rightarrow> handlePut sv io account name rq
             | DELETE \<Rightarrow> handleDelete sv io account name
             | _ \<Rightarrow> (\<lambda>s. (handleGet sv io account name rq s, s)))) s
      | PreflightRoute \<Rightarrow> (answer 200 NoBody, s)
      | RedirectRoute _ \<Rightarrow> (answer 307 NoBody, s)
      | MethodNotAllowed \<Rightarrow> (answer 405 (ErrorBody ''Method Not Allowed''), s)
      | MalformedPath \<Rightarrow> (answer 400 NoBody, s))"

section \<open>Tokens lead to valid accounts\<close>

definition registry_ok :: "registry \<Rightarrow> bool" where
  "registry_ok reg \<longleftrightarrow> reg \<noteq> [] \<and> distinct (map fst reg) \<and>
     list_all (\<lambda>(hash, account). length hash = 64 \<and> list_all is_hex hash \<and> account_ok account \<and> length account \<le> 64) reg"

lemma account_chars_ok: "account_chars_error line aid = None \<Longrightarrow> list_all (\<lambda>c. is_alnum c \<or> c = CHR ''-'' \<or> c = CHR ''_'') aid"
  by (induction aid) (auto split: if_splits)

lemma validAccountID_ok: "validAccountID line aid = None \<Longrightarrow> account_ok aid \<and> length aid \<le> 64"
proof -
  assume a: "validAccountID line aid = None"
  have "\<not> is_alnum CHR ''/''" "\<not> is_alnum CHR ''.''" "\<not> is_alnum CHR 0x5C" by code_simp+
  then show ?thesis using a account_chars_ok [of line aid]
    by (fastforce simp: validAccountID_def account_ok_def list_all_iff list_ex_iff split: if_splits)
qed

lemma parse_lines_ok:
  assumes "parse_lines line ls reg = Inr reg'" and "reg = [] \<or> registry_ok reg"
  shows "registry_ok reg'"
  using assms
proof (induction line ls reg rule: parse_lines.induct)
  case (2 line raw ls reg)
  let ?txt = "trimSpace (drop_return raw)"
  let ?aid = "trimSpace (takeWhile (\<lambda>c. c \<noteq> CHR '':'') ?txt)"
  let ?hash = "toLowerCase (trimSpace (tl (dropWhile (\<lambda>c. c \<noteq> CHR '':'') ?txt)))"
  have short: "\<not> 65536 \<le> length raw" using 2(3) by (auto split: if_splits)
  show ?case
  proof (cases "?txt = [] \<or> startsWith ''#'' ?txt")
    case True
    then show ?thesis using 2(1) [OF short refl] 2(3,4) short by (simp add: Let_def)
  next
    case False
    then have ok: "CHR '':'' \<in> set ?txt" "validAccountID line ?aid = None" "length ?hash = 64" "list_all is_hex ?hash"
      "map_of reg ?hash = None" and rest: "parse_lines (Suc line) ls ((?hash, ?aid) # reg) = Inr reg'"
      using 2(3) short by (auto simp: Let_def split: if_splits option.splits)
    have "registry_ok ((?hash, ?aid) # reg)"
      using ok(3-5) validAccountID_ok [OF ok(2)] 2(4) by (auto simp: registry_ok_def map_of_eq_None_iff)
    then show ?thesis
      using 2(2) [OF short refl False _ refl refl ok(2)] ok rest by simp
  qed
qed (simp split: if_splits)

lemma parseTokens_ok: "parseTokens s = Inr reg \<Longrightarrow> registry_ok reg"
  by (auto simp: parseTokens_def intro: parse_lines_ok)

lemma account_of_ok:
  assumes "registry_ok (sv_tokens sv)" and "account_of sv rq = Some account"
  shows "account_ok account"
proof -
  have "(sv_hashToken sv (bearerToken (rq_authorization rq)), account) \<in> set (sv_tokens sv)"
    using assms(2) by (auto simp: account_of_def lookup_token_def split: if_splits dest: map_of_SomeD)
  then show ?thesis using assms(1) by (auto simp: registry_ok_def list_all_iff)
qed

section \<open>What an answer depends on\<close>

text \<open>Two stores that are the same as far as one account goes.\<close>

definition same_account :: "string \<Rightarrow> 'b FSStore \<Rightarrow> 'b FSStore \<Rightarrow> bool" where
  "same_account a s t \<longleftrightarrow> fs_root s = fs_root t \<and> fs_quota s = fs_quota t \<and> fs_usages s a = fs_usages t a \<and>
     subtable (directory s a @ ''/'') (fs_files s) = subtable (directory t a @ ''/'') (fs_files t)"

lemma same_accountD:
  assumes "same_account a s t"
  shows "fs_path t a = fs_path s a" and "directory t a = directory s a" and "sizes (directory s a) t = sizes (directory s a) s"
    and "tget (fs_files t) (directory s a @ ''/'' @ n) = tget (fs_files s) (directory s a @ ''/'' @ n)"
    and "walked (directory s a) t = walked (directory s a) s"
proof -
  show d: "directory t a = directory s a" using assms by (simp add: same_account_def directory_def)
  show "fs_path t a = fs_path s a" using assms by (simp add: same_account_def fs_path_def fun_eq_iff)
  show "sizes (directory s a) t = sizes (directory s a) s"
    using assms sizes_subtable [of s a] sizes_subtable [of t a] d by (simp add: same_account_def)
  show "tget (fs_files t) (directory s a @ ''/'' @ n) = tget (fs_files s) (directory s a @ ''/'' @ n)"
    using assms tget_subtable [of "directory s a @ ''/''" "fs_files s" n] tget_subtable [of "directory s a @ ''/''" "fs_files t" n] d
    by (simp add: same_account_def)
  have *: "walked base s = map (\<lambda>r. (base @ ''/'' @ fst r, snd r)) (subtable (base @ ''/'') (fs_files s))" for base and s :: "'c FSStore"
  proof -
    have "map (\<lambda>r. (base @ ''/'' @ drop (length (base @ ''/'')) (fst r), snd r)) (walked base s) = walked base s"
      by (rule map_idI) (use startsWith_drop in \<open>fastforce simp: walked_def\<close>)
    then show ?thesis by (simp add: walked_def subtable_def comp_def)
  qed
  show "walked (directory s a) t = walked (directory s a) s"
    using assms d by (simp add: * same_account_def)
qed

lemma same_account_view: "same_account a s t \<Longrightarrow> fs_view t a = fs_view s a"
  by (simp add: same_account_def fs_view_def)

lemma same_account_read:
  assumes "same_account a s t" and "store_ok s" and "account_ok a"
  shows "fs_get io a n t = fs_get io a n s" and "fs_list io a p c l t = fs_list io a p c l s"
proof -
  note same = same_accountD [OF assms(1)]
  have base: "fs_path s a [] = Inr (directory s a)" using base_path [of s a] assms(2,3) by (simp add: store_ok_def)
  show "fs_list io a p c l t = fs_list io a p c l s"
    unfolding fs_list_def same(1) base sum.case same(5) ..
  show "fs_get io a n t = fs_get io a n s"
  proof (cases "validateName n")
    case (Inr u)
    then show ?thesis using valid_path(1) [OF assms(2,3), of n] same(1,4) by (simp add: fs_get_def)
  qed (simp add: fs_get_def)
qed

lemma same_account_usage:
  assumes "same_account a s t" and "store_ok s" and "account_ok a"
  shows "rel_prod (=) (same_account a) (check_quota io a d s) (check_quota io a d t)"
proof -
  note same = same_accountD [OF assms(1)]
  have base: "fs_path s a [] = Inr (directory s a)" using base_path [of s a] assms(2,3) by (simp add: store_ok_def)
  have u: "fs_usages t a = fs_usages s a" "fs_quota t = fs_quota s" using assms(1) by (simp_all add: same_account_def)
  show ?thesis using assms(1) base same(1,3) u
    by (auto simp: check_quota_def usage_def same_account_def split: option.split walk_fault.split)
qed

lemma same_account_write:
  assumes "same_account a s t" and "table_ok (fs_files s)" and "table_ok (fs_files t)"
  shows "rel_prod (=) (same_account a) (write_file io a (directory s a @ ''/'' @ n) d s) (write_file io a (directory s a @ ''/'' @ n) d t)"
proof (cases "io_write_fails io")
  case None
  let ?f = "\<lparr>so_data = d, so_modifiedAt = io_now io\<rparr>"
  show ?thesis using assms None same_accountD(2) [OF assms(1)]
      subtable_tput [OF assms(2), of "directory s a @ ''/''" n ?f] subtable_tput [OF assms(3), of "directory s a @ ''/''" n ?f]
    by (simp add: write_file_def same_account_def)
qed (use assms(1) in \<open>simp add: write_file_def\<close>)

lemma same_account_put:
  assumes "same_account a s t" and "store_ok s" and "store_ok t" and "account_ok a"
  shows "rel_prod (=) (same_account a) (fs_put io a n d s) (fs_put io a n d t)"
proof (cases "validateName n")
  case (Inr u)
  note same = same_accountD [OF assms(1)]
  have path: "fs_path s a n = Inr (directory s a @ ''/'' @ n)" "fs_path t a n = Inr (directory s a @ ''/'' @ n)"
    using valid_path(1) [OF assms(2,4), of n] Inr same(1) by simp_all
  obtain r s' t' where q: "check_quota io a d s = (r, s')" "check_quota io a d t = (r, t')" "same_account a s' t'"
    using same_account_usage [OF assms(1,2,4), of io d] by (auto simp: rel_prod_sel prod_eq_iff)
  have ok: "table_ok (fs_files s')" "table_ok (fs_files t')" "directory s' a = directory s a"
    using check_quota_spec [OF assms(2,4) q(1)] check_quota_spec [OF assms(3,4) q(2)] assms(2,3)
    by (simp_all add: store_ok_def directory_def)
  show ?thesis
    using Inr path same(4) [of n] q same_account_write [OF q(3) ok(1,2), of io n d] assms(1) ok(3)
    by (cases r) (auto simp: fs_put_def split: option.split)
qed (use assms(1) in \<open>simp add: fs_put_def\<close>)

lemma same_account_delete:
  assumes "same_account a s t" and "store_ok s" and "store_ok t" and "account_ok a"
  shows "rel_prod (=) (same_account a) (fs_delete io a n s) (fs_delete io a n t)"
proof (cases "validateName n")
  case (Inr u)
  note same = same_accountD [OF assms(1)]
  have "fs_path s a n = Inr (directory s a @ ''/'' @ n)" "fs_path t a n = Inr (directory s a @ ''/'' @ n)"
    using valid_path(1) [OF assms(2,4), of n] Inr same(1) by simp_all
  then show ?thesis
    using Inr assms(1-3) subtable_tdelete [of "fs_files s" "directory s a @ ''/''" n]
      subtable_tdelete [of "fs_files t" "directory s a @ ''/''" n] same(2)
    by (auto simp: fs_delete_def same_account_def store_ok_def split: option.split)
qed (use assms(1) in \<open>simp add: fs_delete_def\<close>)

text \<open>What one account does leaves every other account's part of the store as it was.\<close>

lemma same_account_refl [simp]: "same_account a s s"
  by (simp add: same_account_def)

lemma same_account_trans: "same_account a s t \<Longrightarrow> same_account a t u \<Longrightarrow> same_account a s u"
  by (auto simp: same_account_def directory_def)

lemma other_change:
  assumes "store_ok s" and "account_ok a" and "account_ok b" and "b \<noteq> a" and "u b = fs_usages s b"
  shows "same_account b s (s\<lparr>fs_files := tput (directory s a @ ''/'' @ n) f (fs_files s), fs_usages := u\<rparr>)"
    and "same_account b s (s\<lparr>fs_files := tdelete (directory s a @ ''/'' @ n) (fs_files s), fs_usages := u\<rparr>)"
  using assms subtable_other [of "fs_files s", OF _ directories_apart [OF _ assms(2,3) not_sym [OF assms(4)], of s n]]
  by (simp_all add: same_account_def store_ok_def)

lemma other_put:
  assumes "store_ok s" and "account_ok a" and "account_ok b" and "b \<noteq> a"
  shows "same_account b s (snd (fs_put io a n d s))"
  using assms(1,2)
proof (cases rule: fs_put_cases [where io = io and name = n and data = d])
  case (1 err t)
  then show ?thesis using assms(4) by (simp add: same_account_def directory_def)
next
  case (3 t f)
  have "same_account b s t" using 3 assms(4) by (simp add: same_account_def directory_def)
  then show ?thesis
    using same_account_trans other_change(1) [OF 3(5) assms(2-4), of "(fs_usages t)(a := None)" n f] 3(1) assms(4) by fastforce
qed simp

lemma other_delete:
  assumes "store_ok s" and "account_ok a" and "account_ok b" and "b \<noteq> a"
  shows "same_account b s (snd (fs_delete io a n s))"
  using assms(1,2)
proof (cases rule: fs_delete_cases [where io = io and name = n])
  case 2
  then show ?thesis using other_change(2) [OF assms, of "(fs_usages s)(a := None)" n] assms(4) by simp
qed simp

section \<open>Serving many requests\<close>

datatype 'b server_event = Request io "'b http_request" | Restart

text \<open>The answers with whom they went to; a restart forgets what was counted.\<close>

fun run_server :: "'b server \<Rightarrow> 'b server_event list \<Rightarrow> 'b FSStore \<Rightarrow> (string option \<times> 'b http_response) list \<times> 'b FSStore" where
  "run_server sv [] s = ([], s)"
| "run_server sv (Request io rq # es) s =
     (case serve sv io rq s of (r, s1) \<Rightarrow> (case run_server sv es s1 of (rs, s2) \<Rightarrow> ((account_of sv rq, r) # rs, s2)))"
| "run_server sv (Restart # es) s = run_server sv es (s\<lparr>fs_usages := (\<lambda>_. None)\<rparr>)"

definition concerns :: "'b server \<Rightarrow> string \<Rightarrow> 'b server_event \<Rightarrow> bool" where
  "concerns sv a e \<longleftrightarrow> (case e of Request io rq \<Rightarrow> account_of sv rq = Some a | Restart \<Rightarrow> True)"

lemma serve_cases:
  assumes "serve sv io rq s = (r, s')"
  obtains "s' = s"
  | a n d where "account_of sv rq = Some a" "s' = snd (fs_put io a n d s)" "rq_method rq = PUT" "rq_body rq = Some d"
      "d \<noteq> []" "int (length d) \<le> sv_maxObjectSize sv" "route_of (rq_method rq) (rq_path rq) = ObjectRoute n"
  | a n where "account_of sv rq = Some a" "s' = snd (fs_delete io a n s)" "rq_method rq = DELETE"
      "route_of (rq_method rq) (rq_path rq) = ObjectRoute n"
proof (cases "\<exists>n. route_of (rq_method rq) (rq_path rq) = ObjectRoute n \<and> account_of sv rq \<noteq> None")
  case True
  then obtain n a where n: "route_of (rq_method rq) (rq_path rq) = ObjectRoute n" "account_of sv rq = Some a" by auto
  show thesis
  proof (cases "rq_method rq")
    case PUT
    show thesis
    proof (cases "rq_body rq")
      case (Some d)
      have "s' = s \<or> s' = snd (fs_put io a n d s) \<and> d \<noteq> [] \<and> int (length d) \<le> sv_maxObjectSize sv"
        using assms n PUT Some
        by (cases "fs_put io a n d s") (auto simp: serve_def authenticated_def handlePut_def split: if_splits sum.splits)
      then show thesis using that(1) that(2) [OF n(2) _ PUT Some _ _ n(1)] by blast
    qed (use assms n PUT that(1) in \<open>simp add: serve_def authenticated_def handlePut_def\<close>)
  next
    case DELETE
    have "s' = snd (fs_delete io a n s)"
      using assms n DELETE
      by (cases "fs_delete io a n s") (auto simp: serve_def authenticated_def handleDelete_def split: sum.splits)
    then show thesis using that(3) [OF n(2) _ DELETE n(1)] by blast
  qed (use assms n that(1) in \<open>simp_all add: serve_def authenticated_def\<close>)
next
  case False
  then have "s' = s" using assms by (auto simp: serve_def authenticated_def split: route.splits option.splits)
  then show thesis by (rule that(1))
qed

lemma serve_ok:
  assumes "serve sv io rq s = (r, s')" and "registry_ok (sv_tokens sv)" and "store_ok s"
  shows "store_ok s'"
  using assms(1)
proof (cases rule: serve_cases)
  case (2 a n d)
  then show ?thesis using fs.put_ok [OF assms(3) account_of_ok [OF assms(2) 2(1)]] by simp
next
  case (3 a n)
  then show ?thesis using fs.delete_ok [OF assms(3) account_of_ok [OF assms(2) 3(1)]] by simp
qed (use assms(3) in simp)

text \<open>A request of somebody else changes nothing an account's later answers depend on.\<close>

lemma serve_other:
  assumes "serve sv io rq s = (r, s')" and "registry_ok (sv_tokens sv)" and "store_ok s" and "account_ok a"
    and "account_of sv rq \<noteq> Some a"
  shows "same_account a s s'"
  using assms(1)
proof (cases rule: serve_cases)
  case (2 b n d)
  then have "a \<noteq> b" using assms(5) by auto
  then show ?thesis using other_put [OF assms(3) account_of_ok [OF assms(2) 2(1)] assms(4)] 2(2) by simp
next
  case (3 b n)
  then have "a \<noteq> b" using assms(5) by auto
  then show ?thesis using other_delete [OF assms(3) account_of_ok [OF assms(2) 3(1)] assms(4)] 3(2) by simp
qed simp

text \<open>Its own requests are answered by its own part of the store.\<close>

lemma serve_same:
  assumes "same_account a s t" and "store_ok s" and "store_ok t" and "account_ok a" and "account_of sv rq = Some a"
  shows "rel_prod (=) (same_account a) (serve sv io rq s) (serve sv io rq t)"
proof -
  have read: "handleList sv io a rq t = handleList sv io a rq s" "handleGet sv io a n rq t = handleGet sv io a n rq s" for n
    unfolding handleList_def handleGet_def same_account_read [OF assms(1,2,4)] by (rule refl)+
  have put: "rel_prod (=) (same_account a) (handlePut sv io a n rq s) (handlePut sv io a n rq t)" for n
    using same_account_put [OF assms(1-4), of io n "the (rq_body rq)"] assms(1)
    by (cases "fs_put io a n (the (rq_body rq)) s"; cases "fs_put io a n (the (rq_body rq)) t")
      (auto simp: handlePut_def split: option.split sum.split)
  have delete: "rel_prod (=) (same_account a) (handleDelete sv io a n s) (handleDelete sv io a n t)" for n
    using same_account_delete [OF assms(1-4), of io n]
    by (cases "fs_delete io a n s"; cases "fs_delete io a n t") (auto simp: handleDelete_def split: sum.split)
  show ?thesis using put delete assms(1,5) read
    by (auto simp: serve_def authenticated_def split: route.split http_method.split)
qed

lemma serve_unauthenticated: "account_of sv rq = None \<Longrightarrow> serve sv io rq s = (fst (serve sv io' rq s'), s)"
  by (auto simp: serve_def authenticated_def split: route.split)

lemma server_restart_ok: "store_ok s \<Longrightarrow> store_ok (s\<lparr>fs_usages := (\<lambda>_. None)\<rparr>)"
  by (simp add: store_ok_def)

lemma run_server_isolated:
  assumes "registry_ok (sv_tokens sv)" and "account_ok a"
  shows "store_ok s \<Longrightarrow> store_ok t \<Longrightarrow> same_account a s t \<Longrightarrow>
    map snd (filter (\<lambda>p. fst p = Some a) (fst (run_server sv es s))) = map snd (fst (run_server sv (filter (concerns sv a) es) t)) \<and>
    same_account a (snd (run_server sv es s)) (snd (run_server sv (filter (concerns sv a) es) t))"
proof (induction es arbitrary: s t)
  case (Cons e es)
  show ?case
  proof (cases e)
    case (Request io rq)
    obtain r s1 where s1: "serve sv io rq s = (r, s1)" by fastforce
    have ok1: "store_ok s1" using serve_ok [OF s1 assms(1) Cons.prems(1)] .
    show ?thesis
    proof (cases "account_of sv rq = Some a")
      case True
      obtain r' t1 where t1: "serve sv io rq t = (r', t1)" by fastforce
      have "r' = r" "same_account a s1 t1"
        using serve_same [OF Cons.prems(3,1,2) assms(2) True, of io] s1 t1 by auto
      with Cons.IH [OF ok1 serve_ok [OF t1 assms(1) Cons.prems(2)]] s1 t1 True show ?thesis
        by (auto simp: Request concerns_def split: prod.split)
    next
      case False
      have "same_account a s1 s"
        using serve_other [OF s1 assms(1) Cons.prems(1) assms(2) False] by (auto simp: same_account_def directory_def)
      from Cons.IH [OF ok1 Cons.prems(2) same_account_trans [OF this Cons.prems(3)]] s1 False show ?thesis
        by (auto simp: Request concerns_def split: prod.split)
    qed
  next
    case Restart
    have "same_account a (s\<lparr>fs_usages := (\<lambda>_. None)\<rparr>) (t\<lparr>fs_usages := (\<lambda>_. None)\<rparr>)"
      using Cons.prems(3) by (simp add: same_account_def)
    from Cons.IH [OF server_restart_ok [OF Cons.prems(1)] server_restart_ok [OF Cons.prems(2)] this] show ?thesis
      by (simp add: Restart concerns_def)
  qed
qed simp

text \<open>A server with one account, its empty store and a request to put an object.\<close>

definition sample_server :: "nat server" where
  "sample_server = newServer (\<lambda>t. if t = ''secret'' then replicate 64 CHR ''a'' else []) (\<lambda>_. ''e'') (\<lambda>c. [c])
     [(replicate 64 CHR ''a'', ''alice'')] 0 ''1''"

definition sample_store :: "nat FSStore" where
  "sample_store = \<lparr>fs_root = ''/data'', fs_quota = 100, fs_usages = (\<lambda>_. None), fs_files = []\<rparr>"

definition sample_io :: io where
  "sample_io = \<lparr>io_cancelled = False, io_read_fails = False, io_walk_fails = None, io_write_fails = None, io_now = 0\<rparr>"

definition sample_name :: string where
  "sample_name = ''vaults/v/ops/1700000000000000000-0000-a.edk''"

definition sample_put :: "nat http_request" where
  "sample_put = \<lparr>rq_method = PUT, rq_path = ''/v1/objects/'' @ sample_name, rq_query = [],
     rq_authorization = ''Bearer secret'', rq_ifNoneMatch = [], rq_body = Some [1, 2, 3]\<rparr>"

definition sample_stranger :: "nat http_request" where
  "sample_stranger = sample_put\<lparr>rq_authorization := ''Bearer guess''\<rparr>"

lemma sample_tokens: "parseTokens (''alice:'' @ replicate 64 CHR ''a'') = Inr (sv_tokens sample_server)"
  by code_simp

lemma sample_new: "newFSStore ''/'' ''/data'' False 100 [] = Inr sample_store"
proof -
  have "clean_path ''/data'' = ''/data''" by code_simp
  then show ?thesis by (simp add: newFSStore_def sample_store_def)
qed

lemma sample_account: "account_ok ''alice''"
  by code_simp

lemma sample_stranger_unknown: "account_of sample_server sample_stranger = None"
  by code_simp

text \<open>C6: Accounts are kept apart on the server. Whatever requests, restarts and faults there are, the answers
  to the requests an account's token authorises, and the objects it has in the end, are those of a server
  that only ever received that account's requests. A request without a valid token changes nothing, and
  its answer is the same whatever is stored.\<close>

theorem account_isolation:
  assumes "parseTokens tokens_file = Inr (sv_tokens sv)" and "store_ok s" and "account_ok a"
  shows "map snd (filter (\<lambda>p. fst p = Some a) (fst (run_server sv es s))) = map snd (fst (run_server sv (filter (concerns sv a) es) s)) \<and>
    fs_view (snd (run_server sv es s)) a = fs_view (snd (run_server sv (filter (concerns sv a) es) s)) a \<and>
    (account_of sv rq = None \<longrightarrow> (\<exists>resp. \<forall>io t. serve sv io rq t = (resp, t)))"
proof -
  have reg: "registry_ok (sv_tokens sv)" using parseTokens_ok [OF assms(1)] .
  show ?thesis
    using run_server_isolated [OF reg assms(3,2,2) same_account_refl, of es]
      same_account_view [of a "snd (run_server sv es s)"] serve_unauthenticated [of sv rq] by metis
qed

lemma account_isolation_witness:
  "fs_view (snd (run_server sample_server [Request sample_io sample_stranger, Request sample_io sample_put, Restart] sample_store)) ''alice'' =
    fs_view (snd (run_server sample_server (filter (concerns sample_server ''alice'')
      [Request sample_io sample_stranger, Request sample_io sample_put, Restart]) sample_store)) ''alice'' \<and>
    (\<exists>resp. \<forall>io t. serve sample_server io sample_stranger t = (resp, t))"
proof -
  have "store_ok sample_store"
    using newFSStore_root [OF sample_new] by (simp add: sample_store_def store_ok_def table_ok_def primaryKeys_def)
  from account_isolation [OF sample_tokens this sample_account] sample_stranger_unknown show ?thesis by blast
qed

section \<open>What a server stores\<close>

definition storable :: "'b server \<Rightarrow> string \<Rightarrow> 'b list \<Rightarrow> bool" where
  "storable sv n d \<longleftrightarrow> validateName n = Inr () \<and> d \<noteq> [] \<and> int (length d) \<le> sv_maxObjectSize sv"

definition clean_store :: "'b server \<Rightarrow> 'b FSStore \<Rightarrow> bool" where
  "clean_store sv s \<longleftrightarrow> store_ok s \<and> (\<forall>a n d. account_ok a \<longrightarrow> tget (fs_view s a) n = Some d \<longrightarrow> storable sv n d)"

definition within_quota :: "'b FSStore \<Rightarrow> bool" where
  "within_quota s \<longleftrightarrow> 0 < fs_quota s \<and> (\<forall>a. account_ok a \<longrightarrow> sizes (directory s a) s \<le> fs_quota s)"

lemma fs_put_valid: "fs_put io a n d s = (Inr (), s') \<Longrightarrow> validateName n = Inr ()"
  by (cases "validateName n") (auto simp: fs_put_def)

lemma clean_put:
  assumes "clean_store sv s" and "account_ok a" and "d \<noteq> []" and "int (length d) \<le> sv_maxObjectSize sv"
  shows "clean_store sv (snd (fs_put io a n d s))"
proof -
  obtain r s' where p: "fs_put io a n d s = (r, s')" by fastforce
  have ok: "store_ok s" using assms(1) by (simp add: clean_store_def)
  note spec = fs_put_spec [OF ok assms(2) p]
  have "storable sv m x" if m: "account_ok b" "tget (fs_view s' b) m = Some x" for b m x
  proof (cases "tget (fs_view s b) m = Some x")
    case True
    then show ?thesis using assms(1) m(1) by (auto simp: clean_store_def)
  next
    case False
    then have "b = a" "r = Inr ()" "m = n" "x = d"
      using m spec(3) spec(4) [OF m(1)] table_ok_view [OF ok, of a] by (cases "b = a"; auto split: sum.splits if_splits)+
    then show ?thesis using p fs_put_valid assms(3,4) by (auto simp: storable_def)
  qed
  then show ?thesis using p spec(1) by (simp add: clean_store_def)
qed

lemma clean_delete:
  assumes "clean_store sv s" and "account_ok a"
  shows "clean_store sv (snd (fs_delete io a n s))"
proof -
  obtain r s' where p: "fs_delete io a n s = (r, s')" by fastforce
  have ok: "store_ok s" using assms(1) by (simp add: clean_store_def)
  note spec = fs_delete_spec [OF ok assms(2) p]
  have "tget (fs_view s b) m = Some x" if m: "account_ok b" "tget (fs_view s' b) m = Some x" for b m x
    using m spec(3) spec(4) [OF m(1)] by (cases "b = a"; auto split: sum.splits if_splits)
  then show ?thesis using assms(1) p spec(1) by (fastforce simp: clean_store_def)
qed

lemma within_quota_put:
  assumes "store_ok s" and "within_quota s" and "account_ok a"
  shows "within_quota (snd (fs_put io a n d s)) \<and> fs_quota (snd (fs_put io a n d s)) = fs_quota s"
proof -
  obtain r s' where p: "fs_put io a n d s = (r, s')" by fastforce
  note spec = fs_put_spec [OF assms(1,3) p]
  have "directory s' = directory s" using spec(2) by (simp add: directory_def fun_eq_iff)
  then show ?thesis using assms(2) spec(2,5) p by (simp add: within_quota_def)
qed

lemma within_quota_delete:
  assumes "store_ok s" and "within_quota s" and "account_ok a"
  shows "within_quota (snd (fs_delete io a n s)) \<and> fs_quota (snd (fs_delete io a n s)) = fs_quota s"
proof -
  obtain r s' where p: "fs_delete io a n s = (r, s')" by fastforce
  note spec = fs_delete_spec [OF assms(1,3) p]
  have "directory s' = directory s" using spec(2) by (simp add: directory_def fun_eq_iff)
  then show ?thesis using assms(2) spec(2) order_trans [OF spec(5)] p by (simp add: within_quota_def)
qed

lemma serve_clean:
  assumes "serve sv io rq s = (r, s')" and "registry_ok (sv_tokens sv)" and "clean_store sv s"
  shows "clean_store sv s' \<and> (within_quota s \<longrightarrow> within_quota s' \<and> fs_quota s' = fs_quota s)"
proof -
  have ok: "store_ok s" using assms(3) by (simp add: clean_store_def)
  show ?thesis using assms(1)
  proof (cases rule: serve_cases)
    case (2 a n d)
    note a = account_of_ok [OF assms(2) 2(1)]
    show ?thesis using clean_put [OF assms(3) a 2(5,6)] within_quota_put [OF ok _ a] 2(2) by simp
  next
    case (3 a n)
    note a = account_of_ok [OF assms(2) 3(1)]
    show ?thesis using clean_delete [OF assms(3) a] within_quota_delete [OF ok _ a] 3(2) by simp
  qed (use assms(3) in simp)
qed

lemma run_server_clean:
  assumes "registry_ok (sv_tokens sv)"
  shows "clean_store sv s \<Longrightarrow> clean_store sv (snd (run_server sv es s)) \<and>
    (within_quota s \<longrightarrow> within_quota (snd (run_server sv es s)) \<and> fs_quota (snd (run_server sv es s)) = fs_quota s)"
proof (induction es arbitrary: s)
  case (Cons e es)
  show ?case
  proof (cases e)
    case (Request io rq)
    obtain r s1 where s1: "serve sv io rq s = (r, s1)" by fastforce
    from serve_clean [OF s1 assms Cons.prems] Cons.IH [of s1] show ?thesis
      by (simp add: Request s1 case_prod_beta)
  next
    case Restart
    have "clean_store sv (s\<lparr>fs_usages := (\<lambda>_. None)\<rparr>)"
      using Cons.prems server_restart_ok [of s] by (simp add: clean_store_def fs_view_def)
    moreover have "within_quota (s\<lparr>fs_usages := (\<lambda>_. None)\<rparr>) = within_quota s" by (simp add: within_quota_def)
    ultimately show ?thesis using Cons.IH [of "s\<lparr>fs_usages := (\<lambda>_. None)\<rparr>"] by (simp add: Restart)
  qed
qed simp

definition deletes :: "'b server \<Rightarrow> string \<Rightarrow> string \<Rightarrow> 'b server_event \<Rightarrow> bool" where
  "deletes sv a n e \<longleftrightarrow> (case e of Restart \<Rightarrow> False | Request io rq \<Rightarrow>
     account_of sv rq = Some a \<and> rq_method rq = DELETE \<and> route_of DELETE (rq_path rq) = ObjectRoute n)"

lemma run_keeps_object:
  assumes "registry_ok (sv_tokens sv)" and "account_ok a"
  shows "store_ok s \<Longrightarrow> tget (fs_view s a) n = Some d \<Longrightarrow> list_all (\<lambda>e. \<not> deletes sv a n e) es \<Longrightarrow>
    tget (fs_view (snd (run_server sv es s)) a) n = Some d"
proof (induction es arbitrary: s)
  case (Cons e es)
  show ?case
  proof (cases e)
    case (Request io rq)
    obtain r s1 where s1: "serve sv io rq s = (r, s1)" by fastforce
    have "tget (fs_view s1 a) n = Some d"
      using s1
    proof (cases rule: serve_cases)
      case (2 b m x)
      show ?thesis unfolding 2(2)
        by (rule fs.put_keeps [OF Cons.prems(1) account_of_ok [OF assms(1) 2(1)] assms(2) Cons.prems(2)])
    next
      case (3 b m)
      have "(b, m) \<noteq> (a, n)" using 3 Cons.prems(3) by (auto simp: Request deletes_def)
      then show ?thesis unfolding 3(2)
        by (rule fs.delete_keeps [OF Cons.prems(1) account_of_ok [OF assms(1) 3(1)] assms(2) Cons.prems(2)])
    qed (use Cons.prems in simp)
    from Cons.IH [OF serve_ok [OF s1 assms(1) Cons.prems(1)] this] Cons.prems(3) show ?thesis
      by (simp add: Request s1 case_prod_beta)
  next
    case Restart
    have "tget (fs_view (s\<lparr>fs_usages := (\<lambda>_. None)\<rparr>) a) n = Some d" using Cons.prems(2) by (simp add: fs_view_def)
    from Cons.IH [OF server_restart_ok [OF Cons.prems(1)] this] Cons.prems(3) show ?thesis by (simp add: Restart)
  qed
qed simp

lemma new_store:
  assumes "newFSStore cwd dir False q [] = Inr s"
  shows "clean_store sv s" and "0 < q \<Longrightarrow> within_quota s" and "fs_quota s = q" and "fs_files s = []"
proof -
  have s: "fs_files s = []" "fs_quota s = q" "fs_usages s = (\<lambda>_. None)"
    using assms by (auto simp: newFSStore_def split: if_splits)
  then show "clean_store sv s" and "0 < q \<Longrightarrow> within_quota s" and "fs_quota s = q" and "fs_files s = []"
    using newFSStore_root [OF assms]
    by (simp_all add: clean_store_def store_ok_def within_quota_def sizes_def walked_def fs_view_def)
qed

text \<open>C9: Limits of what a server stores. From an empty data directory and with a quota, whatever it is asked,
  no account's files ever exceed the quota, every object an account has is one of the names the layout
  allows and neither empty nor too large, and it keeps its bytes until the account deletes it.\<close>

theorem server_limits:
  assumes "newFSStore cwd dir False q [] = Inr s" and "0 < q" and "parseTokens tokens_file = Inr (sv_tokens sv)"
    and "account_ok a"
  shows "sizes (directory (snd (run_server sv es s)) a) (snd (run_server sv es s)) \<le> q \<and>
    (\<forall>n d. tget (fs_view (snd (run_server sv es s)) a) n = Some d \<longrightarrow>
       validateName n = Inr () \<and> d \<noteq> [] \<and> int (length d) \<le> sv_maxObjectSize sv \<and>
       (\<forall>es'. list_all (\<lambda>e. \<not> deletes sv a n e) es' \<longrightarrow>
          tget (fs_view (snd (run_server sv es' (snd (run_server sv es s)))) a) n = Some d))"
proof -
  have reg: "registry_ok (sv_tokens sv)" using parseTokens_ok [OF assms(3)] .
  note new = new_store [OF assms(1)]
  have "clean_store sv (snd (run_server sv es s))" "within_quota (snd (run_server sv es s))"
    "fs_quota (snd (run_server sv es s)) = q"
    using run_server_clean [OF reg new(1), of es] new(2) [OF assms(2)] new(3) by simp_all
  then show ?thesis
    using assms(4) run_keeps_object [OF reg assms(4)] unfolding clean_store_def within_quota_def storable_def by blast
qed

lemma sample_run: "tget (fs_view (snd (run_server sample_server [Request sample_io sample_put] sample_store)) ''alice'') sample_name = Some [1, 2, 3]"
  by code_simp

lemma server_limits_witness:
  "sizes (directory (snd (run_server sample_server [Request sample_io sample_put] sample_store)) ''alice'')
     (snd (run_server sample_server [Request sample_io sample_put] sample_store)) \<le> 100 \<and>
   validateName sample_name = Inr () \<and>
   tget (fs_view (snd (run_server sample_server [Restart, Request sample_io sample_put]
     (snd (run_server sample_server [Request sample_io sample_put] sample_store)))) ''alice'') sample_name = Some [1, 2, 3]"
proof -
  have "\<not> deletes sample_server ''alice'' sample_name (Request sample_io sample_put)" "\<not> deletes sample_server ''alice'' sample_name Restart"
    by (simp_all add: deletes_def sample_put_def)
  then have kept: "list_all (\<lambda>e. \<not> deletes sample_server ''alice'' sample_name e) [Restart, Request sample_io sample_put]" by simp
  show ?thesis
    using server_limits [OF sample_new zero_less_numeral sample_tokens sample_account, of "[Request sample_io sample_put]"] sample_run kept
    by blast
qed

end
