(* ===== verification/Server_Adapter.thy ===== *)
theory Server_Adapter
  imports Server_Api Sync Compare
begin

text \<open>
  The adapter of the bundled sync server (\<open>core/sync/adapters/server.adapter.ts\<close>) and what it makes of the
  server over a network that loses requests and answers. \<open>fetch\<close>, the resolution of a relative address
  and the text of a status are parameters. The locale \<open>sync_destination\<close> is the contract of
  \<open>core/sync/sync-adapter.ts\<close> as the sync engine is verified against it: each call does what it does on
  the store the destination stands for, or it fails, having reached the store or not. The in-memory
  adapter satisfies it, and so does the server's, whatever the server, the network and other clients do.
\<close>

section \<open>Addresses\<close>

definition upper_hex :: "nat \<Rightarrow> char" where
  "upper_hex d = upper_char (digit_char d)"

definition percent :: "nat \<Rightarrow> string" where
  "percent n = [CHR 0x25, upper_hex (n div 16), upper_hex (n mod 16)]"

text \<open>A code unit from 128 on takes two bytes of UTF-8.\<close>

definition encode_char :: "char \<Rightarrow> string" where
  "encode_char c =
     (let n = of_char c
      in if is_alnum c \<or> c \<in> set ''-_.!~*'' \<or> n \<in> {39, 40, 41} then [c]
         else if n < 128 then percent n
         else percent (192 + n div 64) @ percent (128 + n mod 64))"

definition encodeURIComponent :: "string \<Rightarrow> string" where
  "encodeURIComponent s = concat (map encode_char s)"

section \<open>The adapter\<close>

record 'b fetch_request =
  fr_method :: http_method
  fr_url :: string
  fr_query :: "(string \<times> string) list"
  fr_authorization :: string
  fr_body :: "'b list option"

text \<open>\<open>cl_resolve path base\<close> is \<open>new URL(path, base)\<close>, which throws a \<open>TypeError\<close> on an address that is not
  one; a rejected \<open>fetch\<close> is \<open>None\<close>; \<open>cl_bytes\<close> are the bytes of an answer that is JSON.\<close>

record ('b, 's) client =
  cl_fetch :: "'b fetch_request \<Rightarrow> 's \<Rightarrow> 'b http_response option \<times> 's"
  cl_resolve :: "string \<Rightarrow> string \<Rightarrow> string option"
  cl_statusText :: "nat \<Rightarrow> string"
  cl_bytes :: "'b http_body \<Rightarrow> 'b list"

definition server_base :: "ServerTarget \<Rightarrow> string" where
  "server_base t = rev (dropWhile (\<lambda>c. c = CHR ''/'') (rev (srv_endpoint t))) @ ''/''"

definition server_url :: "('b, 's) client \<Rightarrow> ServerTarget \<Rightarrow> string \<Rightarrow> string result" where
  "server_url C t path = (case cl_resolve C path (server_base t) of None \<Rightarrow> Inl TypeError | Some url \<Rightarrow> Inr url)"

definition object_path_of :: "string \<Rightarrow> string" where
  "object_path_of name = ''v1/objects/'' @ join ''/'' (map encodeURIComponent (split_on CHR ''/'' name))"

definition objectUrl :: "('b, 's) client \<Rightarrow> ServerTarget \<Rightarrow> string \<Rightarrow> string result" where
  "objectUrl C t name = server_url C t (object_path_of name)"

definition server_request :: "('b, 's) client \<Rightarrow> ServerTarget \<Rightarrow> http_method \<Rightarrow> string \<Rightarrow> (string \<times> string) list \<Rightarrow>
    'b list option \<Rightarrow> ('s, 'b http_body) call" where
  "server_request C t m url q body s =
     (case cl_fetch C \<lparr>fr_method = m, fr_url = url, fr_query = q, fr_authorization = ''Bearer '' @ srv_token t, fr_body = body\<rparr> s of
        (None, s') \<Rightarrow> (Inl (SyncTransportError (''Cannot reach '' @ srv_endpoint t) True), s')
      | (Some r, s') \<Rightarrow>
          if rs_status r < 200 \<or> 300 \<le> rs_status r
          then (Inl (SyncTransportError (''Sync server returned '' @ String_of (rs_status r) @ '' '' @ cl_statusText C (rs_status r))
                 (500 \<le> rs_status r \<or> rs_status r = 429)), s')
          else (Inr (rs_body r), s'))"

text \<open>\<open>(await response.json()).objects\<close> spread into an array, and \<open>nextCursor\<close>\<close>

definition listing_json :: "'b http_body \<Rightarrow> Listing result" where
  "listing_json body =
     (case body of
        ListingBody listing \<Rightarrow> Inr listing
      | ErrorBody _ \<Rightarrow> Inl TypeError
      | FieldsBody _ \<Rightarrow> Inl TypeError
      | _ \<Rightarrow> Inl SyntaxError)"

definition by_name :: "Object \<Rightarrow> Object \<Rightarrow> int" where
  "by_name a b = (if ob_name a < ob_name b then - 1 else 1)"

text \<open>The loop goes on as long as there is a cursor, which is for the server to decide.\<close>

partial_function (option) list_pages :: "('b, 's) client \<Rightarrow> ServerTarget \<Rightarrow> string \<Rightarrow> string \<Rightarrow> string \<Rightarrow> Object list \<Rightarrow> 's \<Rightarrow>
    (Object list result \<times> 's) option" where
  "list_pages C t url prefix cursor acc s =
     (case server_request C t GET url ((''prefix'', prefix) # (if cursor = [] then [] else [(''cursor'', cursor)])) None s of
        (Inl err, s') \<Rightarrow> Some (Inl err, s')
      | (Inr body, s') \<Rightarrow>
          (case listing_json body of
             Inl err \<Rightarrow> Some (Inl err, s')
           | Inr listing \<Rightarrow>
               if ls_nextCursor listing = [] then Some (Inr (acc @ ls_objects listing), s')
               else list_pages C t url prefix (ls_nextCursor listing) (acc @ ls_objects listing) s'))"

declare list_pages.simps [code]

definition server_list :: "('b, 's) client \<Rightarrow> ServerTarget \<Rightarrow> string \<Rightarrow> 's \<Rightarrow> (Object list result \<times> 's) option" where
  "server_list C t prefix s =
     (case server_url C t ''v1/objects'' of
        Inl err \<Rightarrow> Some (Inl err, s)
      | Inr url \<Rightarrow>
          (case list_pages C t url prefix [] [] s of
             None \<Rightarrow> None
           | Some (Inl err, s') \<Rightarrow> Some (Inl err, s')
           | Some (Inr objects, s') \<Rightarrow> Some (Inr (sort_by by_name objects), s')))"

definition with_url :: "string result \<Rightarrow> (string \<Rightarrow> ('s, 'a) call) \<Rightarrow> ('s, 'a) call" where
  "with_url u f = (case u of Inl err \<Rightarrow> throw err | Inr url \<Rightarrow> f url)"

definition server_get :: "('b, 's) client \<Rightarrow> ServerTarget \<Rightarrow> string \<Rightarrow> ('s, 'b list) call" where
  "server_get C t name =
     with_url (objectUrl C t name) (\<lambda>url. andThen (server_request C t GET url [] None)
       (\<lambda>body. return (case body of BytesBody d \<Rightarrow> d | NoBody \<Rightarrow> [] | _ \<Rightarrow> cl_bytes C body)))"

definition server_put :: "('b, 's) client \<Rightarrow> ServerTarget \<Rightarrow> string \<Rightarrow> 'b list \<Rightarrow> ('s, unit) call" where
  "server_put C t name d = with_url (objectUrl C t name) (\<lambda>url. andThen (server_request C t PUT url [] (Some d)) (\<lambda>_. return ()))"

definition server_remove :: "('b, 's) client \<Rightarrow> ServerTarget \<Rightarrow> string \<Rightarrow> ('s, unit) call" where
  "server_remove C t name = with_url (objectUrl C t name) (\<lambda>url. andThen (server_request C t DELETE url [] None) (\<lambda>_. return ()))"

definition server_probe :: "('b, 's) client \<Rightarrow> ServerTarget \<Rightarrow> ('s, unit) call" where
  "server_probe C t =
     with_url (server_url C t ''v1/health'') (\<lambda>url. andThen (server_request C t GET url [] None) (\<lambda>_.
     with_url (server_url C t ''v1/objects'') (\<lambda>url.
       andThen (server_request C t GET url [(''prefix'', ''vaults/''), (''limit'', ''1'')] None) (\<lambda>_. return ()))))"

section \<open>The contract of a destination\<close>

datatype 'd dest_call = ListCall string | GetCall string | PutCall string 'd | RemoveCall string

datatype 'd dest_answer = NamesAnswer "string list" | DataAnswer 'd | Done

fun contract_call :: "'d dest_call \<Rightarrow> ('d tbl, 'd dest_answer) call" where
  "contract_call (ListCall p) = andThen (adapter_list p) (\<lambda>names. return (NamesAnswer names))"
| "contract_call (GetCall n) = andThen (adapter_get n) (\<lambda>d. return (DataAnswer d))"
| "contract_call (PutCall n d) = andThen (adapter_put n d) (\<lambda>_. return Done)"
| "contract_call (RemoveCall n) = andThen (adapter_remove n) (\<lambda>_. return Done)"

text \<open>What the engine sees when it makes the calls one after the other.\<close>

fun engine_calls :: "'d sync_env \<Rightarrow> 'd dest_call list \<Rightarrow> 'd world \<Rightarrow> 'd dest_answer result list \<times> 'd world" where
  "engine_calls E [] w = ([], w)"
| "engine_calls E (c # cs) w =
     (case on_remote E (contract_call c) w of (r, w1) \<Rightarrow> (case engine_calls E cs w1 of (rs, w2) \<Rightarrow> (r # rs, w2)))"

text \<open>The calls of an implementation, what others do to the store coming before each.\<close>

fun adapter_calls :: "('d dest_call \<Rightarrow> 's \<Rightarrow> ('d dest_answer result \<times> 's) option) \<Rightarrow> ('x \<Rightarrow> 's \<Rightarrow> 's) \<Rightarrow>
    ('x \<times> 'd dest_call) list \<Rightarrow> 's \<Rightarrow> ('d dest_answer result list \<times> 's) option" where
  "adapter_calls impl others [] s = Some ([], s)"
| "adapter_calls impl others ((x, c) # cs) s =
     (case impl c (others x s) of
        None \<Rightarrow> None
      | Some (r, s1) \<Rightarrow> (case adapter_calls impl others cs s1 of None \<Rightarrow> None | Some (rs, s2) \<Rightarrow> Some (r # rs, s2)))"

lemma engine_calls_cong:
  "(\<And>n. w_calls w \<le> n \<Longrightarrow> se_fault E n = se_fault E' n \<and> se_others E n = se_others E' n) \<Longrightarrow> engine_calls E cs w = engine_calls E' cs w"
proof (induction cs arbitrary: w)
  case (Cons c cs)
  obtain r w1 where w1: "on_remote E (contract_call c) w = (r, w1)" by fastforce
  have "se_fault E (w_calls w) = se_fault E' (w_calls w)" "se_others E (w_calls w) = se_others E' (w_calls w)"
    using Cons.prems [of "w_calls w"] by simp_all
  then have same: "on_remote E' (contract_call c) w = (r, w1)" using w1 by (simp add: on_remote_def)
  have "w_calls w1 = Suc (w_calls w)" using w1 by (auto simp: on_remote_def Let_def split: option.splits prod.splits if_splits)
  then show ?case using Cons.IH [of w1] Cons.prems w1 same by simp
qed simp

fun names_ok :: "(string \<Rightarrow> bool) \<Rightarrow> 'd dest_call \<Rightarrow> bool" where
  "names_ok P (ListCall _) = True"
| "names_ok P (GetCall n) = P n"
| "names_ok P (PutCall n _) = P n"
| "names_ok P (RemoveCall n) = P n"

locale sync_destination =
  fixes inv :: "'s \<Rightarrow> bool"
    and view :: "'s \<Rightarrow> 'd tbl"
    and named :: "string \<Rightarrow> bool"
    and impl :: "'d dest_call \<Rightarrow> 's \<Rightarrow> ('d dest_answer result \<times> 's) option"
    and others :: "'x \<Rightarrow> 's \<Rightarrow> 's"
  assumes others_inv: "inv s \<Longrightarrow> inv (others x s)"
    and impl_total: "inv s \<Longrightarrow> names_ok named c \<Longrightarrow> impl c s \<noteq> None"
    and impl_contract: "inv s \<Longrightarrow> names_ok named c \<Longrightarrow> impl c s = Some (r, s') \<Longrightarrow> inv s' \<and>
      ((r, view s') = contract_call c (view s) \<or> (\<exists>err. r = Inl err) \<and> view s' \<in> {view s, snd (contract_call c (view s))})"
begin

text \<open>Every exchange with the implementation is one the engine is verified for: there are faults, and
  changes by others, under which the store it stands for gives the same answers and ends the same.\<close>

lemma one_call:
  assumes "inv s" and "names_ok named c"
  shows "\<exists>r s' fault. impl c s = Some (r, s') \<and> inv s' \<and>
    (\<forall>E w. se_fault E (w_calls w) = fault \<longrightarrow> se_others E (w_calls w) (w_remote w) = view s \<longrightarrow>
      on_remote E (contract_call c) w = (r, w\<lparr>w_remote := view s', w_calls := Suc (w_calls w)\<rparr>))"
proof -
  obtain r s' where step: "impl c s = Some (r, s')" using impl_total [OF assms] by fastforce
  note spec = impl_contract [OF assms step]
  obtain r0 t0 where c: "contract_call c (view s) = (r0, t0)" by fastforce
  show ?thesis
  proof (cases "r = r0 \<and> view s' = t0")
    case True
    then show ?thesis using step spec c by (intro exI [of _ r] exI [of _ s'] exI [of _ None]) (simp add: on_remote_def Let_def)
  next
    case False
    then obtain err where err: "r = Inl err" "view s' = view s \<or> view s' = t0" using spec c by auto
    then show ?thesis using step spec c
      by (intro exI [of _ r] exI [of _ s'] exI [of _ "Some (err, view s' = t0)"]) (auto simp: on_remote_def Let_def)
  qed
qed

lemma calls_are_covered:
  "inv s \<Longrightarrow> list_all (\<lambda>p. names_ok named (snd p)) cs \<Longrightarrow>
    \<exists>rs s' fault oth. adapter_calls impl others cs s = Some (rs, s') \<and> inv s' \<and>
      (\<forall>E w. se_fault E = fault \<longrightarrow> se_others E = oth \<longrightarrow> w_remote w = view s \<longrightarrow> w_calls w = k \<longrightarrow>
        fst (engine_calls E (map snd cs) w) = rs \<and> w_remote (snd (engine_calls E (map snd cs) w)) = view s')"
proof (induction cs arbitrary: s k)
  case (Cons p cs)
  obtain x c where p: "p = (x, c)" by fastforce
  have ok: "inv (others x s)" "names_ok named c" using Cons.prems p others_inv by auto
  obtain r s1 f where one: "impl c (others x s) = Some (r, s1)" "inv s1"
    "\<And>E w. se_fault E (w_calls w) = f \<Longrightarrow> se_others E (w_calls w) (w_remote w) = view (others x s) \<Longrightarrow>
      on_remote E (contract_call c) w = (r, w\<lparr>w_remote := view s1, w_calls := Suc (w_calls w)\<rparr>)"
    using one_call [OF ok] by blast
  obtain rs s' fault oth where rest: "adapter_calls impl others cs s1 = Some (rs, s')" "inv s'"
    "\<forall>E w. se_fault E = fault \<longrightarrow> se_others E = oth \<longrightarrow> w_remote w = view s1 \<longrightarrow> w_calls w = Suc k \<longrightarrow>
      fst (engine_calls E (map snd cs) w) = rs \<and> w_remote (snd (engine_calls E (map snd cs) w)) = view s'"
    using Cons.IH [OF one(2), of "Suc k"] Cons.prems(2) unfolding list.pred_inject by blast
  have "fst (engine_calls E (map snd (p # cs)) w) = r # rs \<and> w_remote (snd (engine_calls E (map snd (p # cs)) w)) = view s'"
    if E: "se_fault E = fault(k := f)" "se_others E = oth(k := \<lambda>_. view (others x s))" "w_calls w = k" for E w
  proof -
    let ?w = "w\<lparr>w_remote := view s1, w_calls := Suc k\<rparr>" and ?E = "E\<lparr>se_fault := fault, se_others := oth\<rparr>"
    have "engine_calls E (map snd cs) ?w = engine_calls ?E (map snd cs) ?w"
      by (rule engine_calls_cong) (simp add: E)
    then show ?thesis using one(3) [of E w] rest(3) [rule_format, of ?E ?w] E by (simp add: p case_prod_beta)
  qed
  moreover have "adapter_calls impl others (p # cs) s = Some (r # rs, s')" using one(1) rest(1) by (simp add: p)
  ultimately show ?case using rest(2) by blast
qed simp

end

text \<open>The in-memory adapter, with others who write and delete objects.\<close>

fun others_write :: "string \<times> 'd option \<Rightarrow> 'd tbl \<Rightarrow> 'd tbl" where
  "others_write (k, Some v) t = tput k v t"
| "others_write (k, None) t = tdelete k t"

lemma contract_table: "table_ok t \<Longrightarrow> table_ok (snd (contract_call c t))"
  by (cases c) (auto simp: andThen_def return_def adapter_list_def adapter_get_def adapter_put_def adapter_remove_def split: option.split)

interpretation memory: sync_destination table_ok "\<lambda>t. t" "\<lambda>_. True" "\<lambda>c t. Some (contract_call c t)" others_write
proof (unfold_locales, goal_cases)
  case (1 s x)
  then show ?case by (cases "(x, s)" rule: others_write.cases) auto
next
  case (3 s c r s')
  then show ?case using contract_table [of s c] by simp
qed simp

section \<open>The server behind a network\<close>

datatype net_fault = Fine | RequestLost | AnswerLost

text \<open>A request at the address the server is installed under is served, unless it is lost on the way there;
  its answer may be lost on the way back. The \<open>n\<close>-th request meets the \<open>n\<close>-th fault and file system.\<close>

definition request_of :: "string \<Rightarrow> 'b fetch_request \<Rightarrow> 'b http_request" where
  "request_of base fr =
     \<lparr>rq_method = fr_method fr, rq_path = ''/'' @ drop (length base) (fr_url fr), rq_query = fr_query fr,
      rq_authorization = fr_authorization fr, rq_ifNoneMatch = [], rq_body = Some (case fr_body fr of None \<Rightarrow> [] | Some d \<Rightarrow> d)\<rparr>"

definition deliver :: "'b server \<Rightarrow> string \<Rightarrow> (nat \<Rightarrow> io) \<Rightarrow> (nat \<Rightarrow> net_fault) \<Rightarrow> 'b fetch_request \<Rightarrow> nat \<times> 'b FSStore \<Rightarrow>
    'b http_response option \<times> nat \<times> 'b FSStore" where
  "deliver sv base ios faults fr = (\<lambda>(n, s).
     if \<not> startsWith base (fr_url fr) \<or> faults n = RequestLost then (None, Suc n, s)
     else case serve sv (ios n) (request_of base fr) s of
            (r, s') \<Rightarrow> (if faults n = AnswerLost then None else Some r, Suc n, s'))"

record 'b installation =
  in_server :: "'b server"
  in_target :: ServerTarget
  in_account :: string
  in_ios :: "nat \<Rightarrow> io"
  in_faults :: "nat \<Rightarrow> net_fault"
  in_resolve :: "string \<Rightarrow> string \<Rightarrow> string option"
  in_statusText :: "nat \<Rightarrow> string"
  in_bytes :: "'b http_body \<Rightarrow> 'b list"

definition client_of :: "'b installation \<Rightarrow> ('b, nat \<times> 'b FSStore) client" where
  "client_of I = \<lparr>cl_fetch = deliver (in_server I) (server_base (in_target I)) (in_ios I) (in_faults I),
     cl_resolve = in_resolve I, cl_statusText = in_statusText I, cl_bytes = in_bytes I\<rparr>"

text \<open>What is relied on: a path without detours resolves to itself below the address, which is one; the token is
  one the server knows; an entity tag is never empty, and who has given up a request gets no answer to it.\<close>

definition installed :: "'b installation \<Rightarrow> bool" where
  "installed I \<longleftrightarrow>
     (\<forall>path. list_all proper (split_on CHR ''/'' path) \<longrightarrow>
        in_resolve I path (server_base (in_target I)) = Some (server_base (in_target I) @ path)) \<and>
     registry_ok (sv_tokens (in_server I)) \<and>
     lookup_token (sv_hashToken (in_server I)) (sv_tokens (in_server I)) (bearerToken (''Bearer '' @ srv_token (in_target I))) =
       Some (in_account I) \<and>
     (\<forall>d. sv_etag (in_server I) d \<noteq> []) \<and>
     (\<forall>n. io_cancelled (in_ios I n) \<or> io_walk_fails (in_ios I n) = Some GivenUp \<longrightarrow> in_faults I n \<noteq> Fine)"

text \<open>A name whose segments are proper and of ASCII reaches the server as it is.\<close>

definition plain_name :: "string \<Rightarrow> bool" where
  "plain_name name \<longleftrightarrow> list_all proper (split_on CHR ''/'' name) \<and> list_all (\<lambda>c. of_char c < (128 :: nat)) name"

lemma upper_hex_parts:
  assumes "d < 16"
  shows "lower_char (upper_hex d) = digit_char d" and "is_hex (digit_char d)" and "upper_hex d \<noteq> CHR ''/''" and "upper_hex d \<noteq> CHR ''.''"
proof -
  have "\<forall>d < 16. lower_char (upper_hex d) = digit_char d \<and> is_hex (digit_char d) \<and> upper_hex d \<noteq> CHR ''/'' \<and> upper_hex d \<noteq> CHR ''.''"
    by code_simp
  then show "lower_char (upper_hex d) = digit_char d" and "is_hex (digit_char d)" and "upper_hex d \<noteq> CHR ''/''" and "upper_hex d \<noteq> CHR ''.''"
    using assms by blast+
qed

lemma unescape_percent: "n < 256 \<Longrightarrow> path_unescape (percent n @ s) = map_option ((#) (char_of n)) (path_unescape s)"
proof -
  assume "n < 256"
  then have "n div 16 < 16" "n mod 16 < 16" by auto
  then show ?thesis by (simp add: percent_def upper_hex_parts)
qed

lemma unescape_encode_char:
  assumes "of_char c < (128 :: nat)"
  shows "path_unescape (encode_char c @ s) = map_option ((#) c) (path_unescape s)"
proof -
  have "\<not> is_alnum CHR 0x25" "CHR 0x25 \<notin> set ''-_.!~*''" "of_char (CHR 0x25) = (37 :: nat)" by code_simp+
  then show ?thesis using assms unescape_percent [of "of_char c" s] by (auto simp: encode_char_def Let_def)
qed

lemma unescape_encode:
  "list_all (\<lambda>c. of_char c < (128 :: nat)) s \<Longrightarrow> path_unescape (encodeURIComponent s @ t) = map_option ((@) s) (path_unescape t)"
proof (induction s)
  case Nil
  show ?case by (cases "path_unescape t") (simp_all add: encodeURIComponent_def)
next
  case (Cons c s)
  then show ?case
    by (cases "path_unescape t") (simp_all add: encodeURIComponent_def unescape_encode_char)
qed

lemma encode_no_slash: "CHR ''/'' \<notin> set s \<Longrightarrow> list_all (\<lambda>c. of_char c < (128 :: nat)) s \<Longrightarrow> CHR ''/'' \<notin> set (encodeURIComponent s)"
proof (induction s)
  case (Cons c s)
  let ?n = "of_char c :: nat"
  have "?n div 16 < 16" "?n mod 16 < 16" using Cons.prems(2) by auto
  then have "CHR ''/'' \<notin> set (percent ?n)" using upper_hex_parts(3) [of "?n div 16"] upper_hex_parts(3) [of "?n mod 16"]
    by (auto simp: percent_def)
  then have "CHR ''/'' \<notin> set (encode_char c)" using Cons.prems by (auto simp: encode_char_def Let_def)
  with Cons show ?case by (simp add: encodeURIComponent_def)
qed (simp add: encodeURIComponent_def)

lemma encode_proper:
  assumes "proper s" and "list_all (\<lambda>c. of_char c < (128 :: nat)) s"
  shows "proper (encodeURIComponent s)" and "path_unescape (encodeURIComponent s) = Some s"
proof -
  show u: "path_unescape (encodeURIComponent s) = Some s"
    using unescape_encode [OF assms(2), of "[]"] by simp
  have "path_unescape [] = Some []" "path_unescape ''.'' = Some ''.''" "path_unescape ''..'' = Some ''..''" by code_simp+
  with u assms(1) have "encodeURIComponent s \<noteq> []" "encodeURIComponent s \<noteq> ''.''" "encodeURIComponent s \<noteq> ''..''"
    by (auto simp: proper_def)
  then show "proper (encodeURIComponent s)" using encode_no_slash [of s] assms by (simp add: proper_def)
qed

lemma unescape_join:
  "list_all (list_all (\<lambda>c. of_char c < (128 :: nat))) parts \<Longrightarrow>
    path_unescape (join ''/'' (map encodeURIComponent parts)) = Some (join ''/'' parts)"
proof (induction "''/''" parts rule: join.induct)
  case (2 x)
  then show ?case using unescape_encode [of x "[]"] by simp
next
  case (3 x y xs)
  then show ?case using unescape_encode [of x "''/'' @ join ''/'' (map encodeURIComponent (y # xs))"] by simp
qed simp

lemma clean_proper_path:
  assumes "list_all proper parts" and "parts \<noteq> []"
  shows "clean_url (abs_path parts) = abs_path parts"
proof -
  have "clean_path (abs_path parts) = abs_path parts"
    using split_abs_path [OF assms(1)] by (simp add: clean_path_def) (simp add: abs_path_def)
  moreover have "join ''/'' ps \<noteq> [] \<and> last (join ''/'' ps) \<noteq> CHR ''/''" if "list_all proper ps" "ps \<noteq> []" for ps
    using that by (induction "''/''" ps rule: join.induct) (auto simp: proper_def dest: last_in_set)
  ultimately show ?thesis using assms by (auto simp: clean_url_def abs_path_def Let_def)
qed

lemma plain_parts:
  assumes "plain_name name"
  obtains parts where "split_on CHR ''/'' name = parts" "join ''/'' parts = name" "parts \<noteq> []" "list_all proper parts"
    "list_all (list_all (\<lambda>c. of_char c < (128 :: nat))) parts"
proof -
  have sub: "set part \<subseteq> set name" if "part \<in> set (split_on CHR ''/'' name)" for part
    using that
  proof (induction name arbitrary: part)
    case (Cons c name)
    obtain q qs where "split_on CHR ''/'' name = q # qs" using split_on_not_Nil by (cases "split_on CHR ''/'' name") auto
    with Cons.prems Cons.IH [of q] Cons.IH [of part] show ?case by (cases "c = CHR ''/''"; cases "part = []") auto
  qed simp
  show thesis
    by (rule that [OF refl join_split_on split_on_not_Nil]) (use assms sub in \<open>force simp: plain_name_def list_all_iff\<close>)+
qed

lemma object_path_parts:
  assumes "plain_name name"
  shows "list_all proper (split_on CHR ''/'' (object_path_of name))"
    and "m \<in> {GET, PUT, DELETE} \<Longrightarrow> route_of m (''/'' @ object_path_of name) = ObjectRoute name"
proof -
  obtain parts where parts: "split_on CHR ''/'' name = parts" "join ''/'' parts = name" "parts \<noteq> []" "list_all proper parts"
    "list_all (list_all (\<lambda>c. of_char c < (128 :: nat))) parts" by (rule plain_parts [OF assms])
  let ?enc = "map encodeURIComponent parts"
  have enc: "list_all proper ?enc" "map (\<lambda>part. the (path_unescape part)) ?enc = parts"
    using parts(4,5) encode_proper by (auto simp: list_all_iff intro!: map_idI)
  have v1: "proper ''v1''" "proper ''objects''" "path_unescape ''v1'' = Some ''v1''" "path_unescape ''objects'' = Some ''objects''"
    by (simp_all add: proper_def)
  have path: "object_path_of name = join ''/'' (''v1'' # ''objects'' # ?enc)"
    using parts(1,3) by (cases parts) (simp_all add: object_path_of_def)
  have split: "split_on CHR ''/'' (object_path_of name) = ''v1'' # ''objects'' # ?enc"
    unfolding path by (rule split_on_join) (use enc(1) v1 in simp_all)
  then show "list_all proper (split_on CHR ''/'' (object_path_of name))" using enc(1) v1 by simp
  have "path_unescape (''v1/objects/'' @ join ''/'' ?enc) = Some (''v1/objects/'' @ name)"
    using unescape_join [OF parts(5)] parts(2) by simp
  then have unescape: "path_unescape (''/'' @ object_path_of name) \<noteq> None"
    using parts(1) by (simp add: object_path_of_def)
  have clean: "clean_url (''/'' @ object_path_of name) = ''/'' @ object_path_of name"
    using clean_proper_path [of "''v1'' # ''objects'' # ?enc"] enc(1) v1 by (simp add: path abs_path_def)
  show "route_of m (''/'' @ object_path_of name) = ObjectRoute name" if "m \<in> {GET, PUT, DELETE}"
    using that unescape clean split enc(2) v1(3,4) parts(2,3) by (auto simp: route_of_def)
qed

section \<open>What the calls do\<close>

definition account_view :: "'b installation \<Rightarrow> nat \<times> 'b FSStore \<Rightarrow> 'b list tbl" where
  "account_view I = (\<lambda>(n, s). fs_view s (in_account I))"

definition installation_ok :: "'b installation \<Rightarrow> nat \<times> 'b FSStore \<Rightarrow> bool" where
  "installation_ok I = (\<lambda>(n, s). clean_store (in_server I) s)"

abbreviation base_url :: "'b installation \<Rightarrow> string" where
  "base_url I \<equiv> server_base (in_target I)"

definition sent :: "'b installation \<Rightarrow> http_method \<Rightarrow> string \<Rightarrow> (string \<times> string) list \<Rightarrow> 'b list option \<Rightarrow> 'b http_request" where
  "sent I m path q body = \<lparr>rq_method = m, rq_path = ''/'' @ path, rq_query = q,
     rq_authorization = ''Bearer '' @ srv_token (in_target I), rq_ifNoneMatch = [], rq_body = Some (case body of None \<Rightarrow> [] | Some d \<Rightarrow> d)\<rparr>"

lemma sent_simps [simp]:
  "rq_method (sent I m path q body) = m" "rq_path (sent I m path q body) = ''/'' @ path" "rq_query (sent I m path q body) = q"
  "rq_ifNoneMatch (sent I m path q body) = []" "rq_body (sent I m path q body) = Some (case body of None \<Rightarrow> [] | Some d \<Rightarrow> d)"
  by (simp_all add: sent_def)

definition cannot_reach :: "'b installation \<Rightarrow> error" where
  "cannot_reach I = SyncTransportError (''Cannot reach '' @ srv_endpoint (in_target I)) True"

definition refused :: "'b installation \<Rightarrow> nat \<Rightarrow> error" where
  "refused I code = SyncTransportError (''Sync server returned '' @ String_of code @ '' '' @ in_statusText I code) (500 \<le> code \<or> code = 429)"

lemma request_sent:
  "server_request (client_of I) (in_target I) m (base_url I @ path) q body (n, s) =
    (case serve (in_server I) (in_ios I n) (sent I m path q body) s of
       (r, s') \<Rightarrow>
         if in_faults I n = RequestLost then (Inl (cannot_reach I), Suc n, s)
         else if in_faults I n = AnswerLost then (Inl (cannot_reach I), Suc n, s')
         else if rs_status r < 200 \<or> 300 \<le> rs_status r then (Inl (refused I (rs_status r)), Suc n, s')
         else (Inr (rs_body r), Suc n, s'))"
  by (simp add: server_request_def client_of_def deliver_def request_of_def sent_def cannot_reach_def refused_def split: prod.split)

lemma sent_account: "installed I \<Longrightarrow> account_of (in_server I) (sent I m path q body) = Some (in_account I)"
  by (simp add: installed_def account_of_def sent_def)

lemma sent_account_ok: "installed I \<Longrightarrow> account_ok (in_account I)"
  using account_of_ok sent_account installed_def by metis

lemma object_url:
  assumes "installed I" and "plain_name name"
  shows "objectUrl (client_of I) (in_target I) name = Inr (base_url I @ object_path_of name)"
  using assms object_path_parts(1) [OF assms(2)] by (simp add: objectUrl_def server_url_def client_of_def installed_def)

lemma sent_object:
  assumes "installed I" and "plain_name name"
  shows "serve (in_server I) io (sent I PUT (object_path_of name) [] (Some d)) s =
      handlePut (in_server I) io (in_account I) name (sent I PUT (object_path_of name) [] (Some d)) s"
    and "serve (in_server I) io (sent I GET (object_path_of name) [] None) s =
      (handleGet (in_server I) io (in_account I) name (sent I GET (object_path_of name) [] None) s, s)"
    and "serve (in_server I) io (sent I DELETE (object_path_of name) [] None) s = handleDelete (in_server I) io (in_account I) name s"
  using object_path_parts(2) [OF assms(2)] sent_account [OF assms(1)]
  by (simp_all add: serve_def authenticated_def)

lemma error_status:
  "err \<noteq> ErrContext \<Longrightarrow> 300 \<le> rs_status (writeStoreError sv err)"
  by (cases err) (simp_all add: writeStoreError_def)

lemma context_errors:
  "fs_put io a n d s = (Inl ErrContext, s') \<Longrightarrow> io_cancelled io \<or> io_walk_fails io = Some GivenUp"
  "fs_get io a n s = Inl ErrContext \<Longrightarrow> io_cancelled io"
  "fs_delete io a n s = (Inl ErrContext, s') \<Longrightarrow> io_cancelled io"
  "fs_list io a p c l s = Inl ErrContext \<Longrightarrow> io_walk_fails io = Some GivenUp"
proof -
  have v: "validateName n \<noteq> Inl ErrContext" "fs_path s a n \<noteq> Inl ErrContext" for a n and s :: "'c FSStore"
    by (simp_all add: validateName_def fs_path_def Let_def)
  have q: "validatePrefix p \<noteq> Inl ErrContext"
  proof -
    have "validate_chars cs \<noteq> Inl ErrContext" for cs by (induction cs) auto
    then show ?thesis by (simp add: validatePrefix_def)
  qed
  have w: "walk_error f = ErrContext \<longleftrightarrow> f = GivenUp" for f by (cases f) simp_all
  show "fs_put io a n d s = (Inl ErrContext, s') \<Longrightarrow> io_cancelled io \<or> io_walk_fails io = Some GivenUp"
    using v by (fastforce simp: fs_put_def check_quota_def usage_def write_file_def w split: sum.splits option.splits walk_fault.splits if_splits prod.splits)
  show "fs_get io a n s = Inl ErrContext \<Longrightarrow> io_cancelled io"
    using v by (fastforce simp: fs_get_def split: sum.splits option.splits if_splits)
  show "fs_delete io a n s = (Inl ErrContext, s') \<Longrightarrow> io_cancelled io"
    using v by (fastforce simp: fs_delete_def split: sum.splits option.splits if_splits)
  show "fs_list io a p c l s = Inl ErrContext \<Longrightarrow> io_walk_fails io = Some GivenUp"
    using v q by (fastforce simp: fs_list_def Let_def w split: sum.splits option.splits if_splits)
qed

lemma fits_faults: "installed I \<Longrightarrow> io_cancelled (in_ios I n) \<or> io_walk_fails (in_ios I n) = Some GivenUp \<Longrightarrow> in_faults I n \<noteq> Fine"
  by (auto simp: installed_def)

lemma reply_cases:
  assumes "serve (in_server I) (in_ios I n) (sent I m path q body) s = (r, s1)"
    and "in_faults I n \<noteq> RequestLost \<Longrightarrow> in_faults I n \<noteq> AnswerLost \<Longrightarrow> P (if rs_status r < 200 \<or> 300 \<le> rs_status r then Inl (refused I (rs_status r)) else Inr (rs_body r), Suc n, s1)"
    and "in_faults I n = RequestLost \<Longrightarrow> P (Inl (cannot_reach I), Suc n, s)"
    and "in_faults I n = AnswerLost \<Longrightarrow> P (Inl (cannot_reach I), Suc n, s1)"
  shows "P (server_request (client_of I) (in_target I) m (base_url I @ path) q body (n, s))"
  using assms by (cases "in_faults I n") (auto simp: request_sent split: if_splits)

lemma put_reply:
  assumes "installed I" and "installation_ok I (n, s)" and "handlePut sv io a name rq s = (r, s1)"
    and "sv = in_server I" and "io = in_ios I n" and "a = in_account I" and "rq_body rq = Some d"
  shows "rs_status r = 201 \<and> fs_view s1 a = tput name d (fs_view s a) \<or> fs_view s1 a = fs_view s a \<and> (300 \<le> rs_status r \<or> in_faults I n \<noteq> Fine)"
proof (cases "sv_maxObjectSize sv < int (length d) \<or> d = []")
  case True
  then show ?thesis using assms(3,7) by (auto simp: handlePut_def split: if_splits)
next
  case False
  have ok: "store_ok s" "account_ok a" using assms(2) sent_account_ok [OF assms(1)] by (simp_all add: installation_ok_def clean_store_def assms(6))
  obtain q s2 where p: "fs_put io a name d s = (q, s2)" by fastforce
  note spec = fs_put_spec(3) [OF ok p]
  show ?thesis
  proof (cases q)
    case (Inl err)
    have "err = ErrContext \<Longrightarrow> in_faults I n \<noteq> Fine" using context_errors(1) p Inl fits_faults [OF assms(1)] assms(5) by blast
    then show ?thesis using assms(3,7) False p Inl spec error_status [of err] by (auto simp: handlePut_def)
  next
    case (Inr u)
    then show ?thesis using assms(3,7) False p spec by (auto simp: handlePut_def)
  qed
qed

lemma delete_reply:
  assumes "installed I" and "installation_ok I (n, s)" and "handleDelete sv io a name s = (r, s1)"
    and "sv = in_server I" and "io = in_ios I n" and "a = in_account I"
  shows "rs_status r = 204 \<and> fs_view s1 a = tdelete name (fs_view s a) \<or> fs_view s1 a = fs_view s a \<and> (300 \<le> rs_status r \<or> in_faults I n \<noteq> Fine)"
proof -
  have ok: "store_ok s" "account_ok a" using assms(2) sent_account_ok [OF assms(1)] by (simp_all add: installation_ok_def clean_store_def assms(6))
  obtain q s2 where p: "fs_delete io a name s = (q, s2)" by fastforce
  note spec = fs_delete_spec(3) [OF ok p]
  show ?thesis
  proof (cases q)
    case (Inl err)
    have "err = ErrContext \<Longrightarrow> in_faults I n \<noteq> Fine" using context_errors(3) p Inl fits_faults [OF assms(1)] assms(5) by blast
    then show ?thesis using assms(3) p Inl spec error_status [of err] by (auto simp: handleDelete_def)
  next
    case (Inr u)
    then show ?thesis using assms(3) p spec by (auto simp: handleDelete_def)
  qed
qed

lemma get_reply:
  fixes name path q body
  assumes "installed I" and "installation_ok I (n, s)"
  defines "r \<equiv> handleGet (in_server I) (in_ios I n) (in_account I) name (sent I GET path q body) s"
  shows "(\<exists>d. r = answer 200 (BytesBody d) \<and> tget (fs_view s (in_account I)) name = Some d) \<or> 300 \<le> rs_status r \<or> in_faults I n \<noteq> Fine"
proof -
  have ok: "store_ok s" "account_ok (in_account I)" using assms(2) sent_account_ok [OF assms(1)] by (simp_all add: installation_ok_def clean_store_def)
  show ?thesis
  proof (cases "fs_get (in_ios I n) (in_account I) name s")
    case (Inl err)
    have "err = ErrContext \<Longrightarrow> in_faults I n \<noteq> Fine" using context_errors(2) Inl fits_faults [OF assms(1)] by blast
    then show ?thesis using Inl error_status [of err] by (auto simp: r_def handleGet_def)
  next
    case (Inr d)
    have "sv_etag (in_server I) d \<noteq> []" using assms(1) by (simp add: installed_def)
    then show ?thesis using Inr fs_get_spec(1) [OF ok Inr] by (auto simp: r_def handleGet_def)
  qed
qed

lemma serve_installed:
  assumes "installed I" and "installation_ok I (n, s)" and "serve (in_server I) io rq s = (r, s1)"
  shows "installation_ok I (k, s1)"
  using serve_clean [OF assms(3)] assms(1,2) by (simp add: installation_ok_def installed_def)

section \<open>Listing\<close>

definition list_rest :: "'b installation \<Rightarrow> string \<Rightarrow> string \<Rightarrow> 'b FSStore \<Rightarrow> string list" where
  "list_rest I prefix cursor s = filter (\<lambda>k. startsWith prefix k \<and> cursor < k) (primaryKeys (fs_view s (in_account I)))"

lemma serve_list:
  assumes "installed I"
  shows "serve (in_server I) io (sent I GET ''v1/objects'' q None) s =
    (handleList (in_server I) io (in_account I) (sent I GET ''v1/objects'' q None) s, s)"
proof -
  have "route_of GET ''/v1/objects'' = ListRoute" by code_simp
  then show ?thesis using sent_account [OF assms] by (simp add: serve_def authenticated_def)
qed

lemma list_reply:
  fixes prefix cursor
  assumes "installed I" and "installation_ok I (n, s)"
  defines "q \<equiv> (''prefix'', prefix) # (if cursor = [] then [] else [(''cursor'', cursor)])"
  defines "r \<equiv> handleList (in_server I) (in_ios I n) (in_account I) (sent I GET ''v1/objects'' q None) s"
  shows "(\<exists>listing. r = answer 200 (ListingBody listing) \<and> map ob_name (ls_objects listing) = take 1000 (list_rest I prefix cursor s) \<and>
      ls_nextCursor listing = (if 1000 < length (list_rest I prefix cursor s) then list_rest I prefix cursor s ! 999 else [])) \<or>
    300 \<le> rs_status r \<or> in_faults I n \<noteq> Fine"
proof -
  have ok: "store_ok s" "account_ok (in_account I)" using assms(2) sent_account_ok [OF assms(1)] by (simp_all add: installation_ok_def clean_store_def)
  have query: "query_get q ''limit'' = []" "query_get q ''prefix'' = prefix" "query_get q ''cursor'' = cursor"
    by (simp_all add: q_def query_get_def)
  then have r: "r = (case fs_list (in_ios I n) (in_account I) prefix cursor 1000 s of
      Inl err \<Rightarrow> writeStoreError (in_server I) err | Inr listing \<Rightarrow> answer 200 (ListingBody listing))"
    by (simp add: r_def handleList_def)
  show ?thesis
  proof (cases "fs_list (in_ios I n) (in_account I) prefix cursor 1000 s")
    case (Inl err)
    have "err = ErrContext \<Longrightarrow> in_faults I n \<noteq> Fine" using context_errors(4) Inl fits_faults [OF assms(1)] by blast
    then show ?thesis using Inl r error_status [of err] by auto
  next
    case (Inr listing)
    then show ?thesis using r fs_list_spec [OF ok Inr] by (simp add: list_rest_def)
  qed
qed

lemma filter_above_nth:
  "sorted_wrt (<) xs \<Longrightarrow> k < length xs \<Longrightarrow> filter (\<lambda>x. xs ! k < x) xs = drop (Suc k) (xs :: 'a :: linorder list)"
proof (induction xs arbitrary: k)
  case (Cons x xs)
  show ?case
  proof (cases k)
    case 0
    have "filter (\<lambda>y. x < y) xs = xs" using Cons.prems(1) by (simp add: filter_id_conv)
    then show ?thesis by (simp add: 0)
  next
    case (Suc m)
    then have "m < length xs" using Cons.prems(2) by simp
    moreover have "\<not> xs ! m < x" using Cons.prems(1) nth_mem [OF calculation] by auto
    ultimately show ?thesis using Cons Suc by simp
  qed
qed simp

lemma list_rest_next:
  assumes "installation_ok I (n, s)" and "k < length (list_rest I prefix cursor s)"
  shows "list_rest I prefix (list_rest I prefix cursor s ! k) s = drop (Suc k) (list_rest I prefix cursor s)"
proof -
  let ?rest = "list_rest I prefix cursor s"
  have sorted: "sorted_wrt (<) ?rest"
    using assms(1) table_ok_view [of s "in_account I"]
    by (simp add: list_rest_def installation_ok_def clean_store_def table_ok_def sorted_wrt_filter)
  have "cursor < ?rest ! k" using nth_mem [OF assms(2)] by (auto simp: list_rest_def)
  then have "list_rest I prefix (?rest ! k) s = filter (\<lambda>x. ?rest ! k < x) ?rest"
    by (auto simp: list_rest_def intro!: filter_cong dest: less_trans)
  also have "\<dots> = drop (Suc k) ?rest" by (rule filter_above_nth [OF sorted assms(2)])
  finally show ?thesis .
qed

lemma list_rest_nonempty: "x \<in> set (list_rest I prefix cursor s) \<Longrightarrow> x \<noteq> []"
  by (auto simp: list_rest_def)

text \<open>Nothing goes wrong from the \<open>n\<close>-th request on.\<close>

definition smooth :: "'b installation \<Rightarrow> nat \<Rightarrow> bool" where
  "smooth I n \<longleftrightarrow> (\<forall>k \<ge> n. in_faults I k = Fine \<and> io_fine (in_ios I k))"

lemma list_reply_smooth:
  fixes cursor
  assumes "installed I" and "installation_ok I (n, s)" and "smooth I n" and "validatePrefix prefix = Inr ()"
  defines "q \<equiv> (''prefix'', prefix) # (if cursor = [] then [] else [(''cursor'', cursor)])"
  shows "rs_status (handleList (in_server I) (in_ios I n) (in_account I) (sent I GET ''v1/objects'' q None) s) = 200"
proof -
  have ok: "store_ok s" "account_ok (in_account I)" using assms(2) sent_account_ok [OF assms(1)] by (simp_all add: installation_ok_def clean_store_def)
  have "query_get q ''limit'' = []" "query_get q ''prefix'' = prefix" "query_get q ''cursor'' = cursor"
    by (simp_all add: q_def query_get_def)
  moreover obtain listing where "fs_list (in_ios I n) (in_account I) prefix cursor 1000 s = Inr listing"
    using fs_list_succeeds [OF ok _ assms(4), of "in_ios I n" cursor 1000] assms(3) by (auto simp: smooth_def)
  ultimately show ?thesis by (simp add: handleList_def)
qed

text \<open>The loop ends: every page that is followed by another one leaves fewer names.\<close>

lemma list_pages_spec:
  assumes "installed I"
  shows "installation_ok I (n, s) \<Longrightarrow>
    \<exists>r n'. list_pages (client_of I) (in_target I) (base_url I @ ''v1/objects'') prefix cursor acc (n, s) = Some (r, n', s) \<and>
      ((\<exists>err. r = Inl err \<and> \<not> (smooth I n \<and> validatePrefix prefix = Inr ())) \<or>
       (\<exists>obs. r = Inr (acc @ obs) \<and> map ob_name obs = list_rest I prefix cursor s))"
proof (induction "length (list_rest I prefix cursor s)" arbitrary: n cursor acc rule: less_induct)
  case less
  let ?q = "(''prefix'', prefix) # (if cursor = [] then [] else [(''cursor'', cursor)])"
  let ?r = "handleList (in_server I) (in_ios I n) (in_account I) (sent I GET ''v1/objects'' ?q None) s"
  let ?rest = "list_rest I prefix cursor s"
  have serve: "serve (in_server I) (in_ios I n) (sent I GET ''v1/objects'' ?q None) s = (?r, s)" by (rule serve_list [OF assms])
  note step = list_pages.simps [of "client_of I" "in_target I" "base_url I @ ''v1/objects''" prefix cursor acc "(n, s)"]
  show ?case
  proof (cases "in_faults I n = Fine \<and> 200 \<le> rs_status ?r \<and> rs_status ?r < 300")
    case False
    then have "\<exists>err. server_request (client_of I) (in_target I) GET (base_url I @ ''v1/objects'') ?q None (n, s) = (Inl err, Suc n, s)"
      unfolding request_sent serve by (cases "in_faults I n") auto
    then obtain err where "server_request (client_of I) (in_target I) GET (base_url I @ ''v1/objects'') ?q None (n, s) = (Inl err, Suc n, s)" ..
    moreover have "\<not> (smooth I n \<and> validatePrefix prefix = Inr ())"
      using False list_reply_smooth [OF assms less.prems, of prefix cursor] by (auto simp: smooth_def)
    ultimately show ?thesis unfolding step by simp
  next
    case True
    then obtain listing where listing: "?r = answer 200 (ListingBody listing)" "map ob_name (ls_objects listing) = take 1000 ?rest"
      "ls_nextCursor listing = (if 1000 < length ?rest then ?rest ! 999 else [])"
      using list_reply [OF assms less.prems, of prefix cursor] by auto
    have reply: "server_request (client_of I) (in_target I) GET (base_url I @ ''v1/objects'') ?q None (n, s) =
        (Inr (ListingBody listing), Suc n, s)"
      unfolding request_sent serve using True listing(1) by (simp add: listing(1))
    show ?thesis
    proof (cases "1000 < length ?rest")
      case False
      then show ?thesis unfolding step using reply listing(2,3) by (simp add: listing_json_def)
    next
      case more: True
      then have cursor: "ls_nextCursor listing = ?rest ! 999" "?rest ! 999 \<noteq> []"
        using listing(3) list_rest_nonempty [OF nth_mem, of 999 I prefix cursor s] by simp_all
      have rest: "list_rest I prefix (?rest ! 999) s = drop 1000 ?rest"
        using list_rest_next [OF less.prems, of 999 prefix cursor] more by simp
      have small: "length (list_rest I prefix (?rest ! 999) s) < length ?rest" using rest more by simp
      have ok: "installation_ok I (Suc n, s)" using less.prems by (simp add: installation_ok_def)
      obtain r n' where IH: "list_pages (client_of I) (in_target I) (base_url I @ ''v1/objects'') prefix (?rest ! 999)
            (acc @ ls_objects listing) (Suc n, s) = Some (r, n', s)"
          "(\<exists>err. r = Inl err \<and> \<not> (smooth I (Suc n) \<and> validatePrefix prefix = Inr ())) \<or>
           (\<exists>obs. r = Inr ((acc @ ls_objects listing) @ obs) \<and> map ob_name obs = drop 1000 ?rest)"
        using less.hyps [OF small ok, of "acc @ ls_objects listing"] unfolding rest by blast
      have "list_pages (client_of I) (in_target I) (base_url I @ ''v1/objects'') prefix cursor acc (n, s) = Some (r, n', s)"
        unfolding step using reply cursor IH(1) by (simp add: listing_json_def)
      moreover have "smooth I n \<Longrightarrow> smooth I (Suc n)" by (simp add: smooth_def)
      with IH(2) have "(\<exists>err. r = Inl err \<and> \<not> (smooth I n \<and> validatePrefix prefix = Inr ())) \<or>
          (\<exists>obs. r = Inr (acc @ obs) \<and> map ob_name obs = ?rest)"
        using listing(2) by (metis append.assoc append_take_drop_id map_append)
      ultimately show ?thesis by blast
    qed
  qed
qed

lemma sort_sorted_names: "sorted_wrt (<) (map ob_name obs) \<Longrightarrow> sort_by by_name obs = obs"
proof (induction obs)
  case (Cons ob obs)
  have "insert_by by_name ob obs = ob # obs" using Cons.prems by (cases obs) (auto simp: by_name_def)
  with Cons show ?case by (simp add: sort_by_def)
qed simp

lemma list_rest_all:
  assumes "installed I" and "installation_ok I (n, s)"
  shows "list_rest I prefix [] s = filter (startsWith prefix) (primaryKeys (fs_view s (in_account I)))"
proof -
  have "k \<noteq> []" if mem: "k \<in> set (primaryKeys (fs_view s (in_account I)))" for k
  proof -
    obtain d where "tget (fs_view s (in_account I)) k = Some d"
      using mem by (cases "tget (fs_view s (in_account I)) k") (auto simp: tget_key)
    then have "validateName k = Inr ()" using assms(2) sent_account_ok [OF assms(1)]
      by (auto simp: installation_ok_def clean_store_def storable_def)
    moreover have "validateName [] \<noteq> Inr ()" by (simp add: validateName_def objectNamePattern_def)
    ultimately show ?thesis by auto
  qed
  then show ?thesis by (auto simp: list_rest_def intro!: filter_cong) (metis Nil_less_Cons neq_Nil_conv)
qed

lemma server_list_spec:
  assumes "installed I" and "installation_ok I (n, s)"
  obtains r n' where "server_list (client_of I) (in_target I) prefix (n, s) = Some (r, n', s)"
    "(\<exists>err. r = Inl err \<and> \<not> (smooth I n \<and> validatePrefix prefix = Inr ())) \<or>
     (\<exists>obs. r = Inr obs \<and> map ob_name obs = filter (startsWith prefix) (primaryKeys (fs_view s (in_account I))))"
proof -
  have url: "server_url (client_of I) (in_target I) ''v1/objects'' = Inr (base_url I @ ''v1/objects'')"
    using assms(1) by (simp add: server_url_def client_of_def installed_def proper_def)
  obtain r n' where pages: "list_pages (client_of I) (in_target I) (base_url I @ ''v1/objects'') prefix [] [] (n, s) = Some (r, n', s)"
    "(\<exists>err. r = Inl err \<and> \<not> (smooth I n \<and> validatePrefix prefix = Inr ())) \<or>
     (\<exists>obs. r = Inr obs \<and> map ob_name obs = list_rest I prefix [] s)"
    using list_pages_spec [OF assms, of prefix "[]" "[]"] by auto
  have sorted: "sorted_wrt (<) (list_rest I prefix [] s)"
    using assms(2) table_ok_view [of s "in_account I"]
    by (simp add: list_rest_def installation_ok_def clean_store_def table_ok_def sorted_wrt_filter)
  show thesis
  proof (cases r)
    case (Inl err)
    have bad: "\<not> (smooth I n \<and> validatePrefix prefix = Inr ())" using pages(2) Inl by auto
    have "server_list (client_of I) (in_target I) prefix (n, s) = Some (Inl err, n', s)"
      using pages(1) url Inl by (simp add: server_list_def)
    from that [OF this] bad show thesis by blast
  next
    case (Inr obs)
    then have "sort_by by_name obs = obs" "map ob_name obs = list_rest I prefix [] s"
      using pages(2) sort_sorted_names sorted by auto
    then show thesis using that [of "Inr obs"] pages(1) url Inr list_rest_all [OF assms] by (simp add: server_list_def)
  qed
qed

fun server_impl :: "'b installation \<Rightarrow> 'b list dest_call \<Rightarrow> nat \<times> 'b FSStore \<Rightarrow> ('b list dest_answer result \<times> nat \<times> 'b FSStore) option" where
  "server_impl I (ListCall p) st =
     map_option (map_prod (map_sum id (\<lambda>objects. NamesAnswer (map ob_name objects))) id) (server_list (client_of I) (in_target I) p st)"
| "server_impl I (GetCall n) st = Some (andThen (server_get (client_of I) (in_target I) n) (\<lambda>d. return (DataAnswer d)) st)"
| "server_impl I (PutCall n d) st = Some (andThen (server_put (client_of I) (in_target I) n d) (\<lambda>_. return Done) st)"
| "server_impl I (RemoveCall n) st = Some (andThen (server_remove (client_of I) (in_target I) n) (\<lambda>_. return Done) st)"

definition server_others :: "'b installation \<Rightarrow> 'b server_event list \<Rightarrow> nat \<times> 'b FSStore \<Rightarrow> nat \<times> 'b FSStore" where
  "server_others I es = (\<lambda>(n, s). (n, snd (run_server (in_server I) es s)))"

declare contract_call.simps [simp del]

lemma contract_simps:
  "contract_call (ListCall p) t = (Inr (NamesAnswer (filter (startsWith p) (primaryKeys t))), t)"
  "contract_call (PutCall n d) t = (Inr Done, tput n d t)"
  "contract_call (RemoveCall n) t = (Inr Done, tdelete n t)"
  "tget t n = Some d \<Longrightarrow> contract_call (GetCall n) t = (Inr (DataAnswer d), t)"
  "snd (contract_call (GetCall n) t) = t"
  by (auto simp: contract_call.simps adapter_list_def adapter_get_def adapter_put_def adapter_remove_def andThen_def return_def split: option.split)

lemma server_contract:
  assumes "installed I" and "installation_ok I st" and "names_ok plain_name c" and "server_impl I c st = Some (r, st')"
  shows "installation_ok I st' \<and> ((r, account_view I st') = contract_call c (account_view I st) \<or>
    (\<exists>err. r = Inl err) \<and> account_view I st' \<in> {account_view I st, snd (contract_call c (account_view I st))})"
proof -
  obtain n s where st: "st = (n, s)" by fastforce
  have ok: "installation_ok I (n, s)" using assms(2) st by simp
  show ?thesis
  proof (cases c)
    case (ListCall p)
    obtain q n' where "server_list (client_of I) (in_target I) p (n, s) = Some (q, n', s)"
      "(\<exists>err. q = Inl err \<and> \<not> (smooth I n \<and> validatePrefix p = Inr ())) \<or> (\<exists>obs. q = Inr obs \<and> map ob_name obs = filter (startsWith p) (primaryKeys (fs_view s (in_account I))))"
      by (rule server_list_spec [OF assms(1) ok, of p])
    then show ?thesis using assms(4) ok
      by (auto simp: ListCall st contract_simps account_view_def installation_ok_def)
  next
    case (GetCall name)
    have name: "plain_name name" using assms(3) GetCall by simp
    let ?rq = "sent I GET (object_path_of name) [] None"
    have "(r, st') = andThen (andThen (server_request (client_of I) (in_target I) GET (base_url I @ object_path_of name) [] None)
       (\<lambda>body. return (case body of BytesBody d \<Rightarrow> d | NoBody \<Rightarrow> [] | _ \<Rightarrow> cl_bytes (client_of I) body))) (\<lambda>d. return (DataAnswer d)) (n, s)"
      using assms(4) object_url [OF assms(1) name] by (simp add: GetCall st server_get_def with_url_def)
    then show ?thesis
      using get_reply [OF assms(1) ok, of name "object_path_of name" "[]" None] ok
      unfolding andThen_def return_def request_sent sent_object(2) [OF assms(1) name]
      by (cases "in_faults I n") (auto simp: GetCall st contract_simps account_view_def installation_ok_def split: if_splits)
  next
    case (PutCall name d)
    have name: "plain_name name" using assms(3) PutCall by simp
    obtain q s1 where h: "handlePut (in_server I) (in_ios I n) (in_account I) name (sent I PUT (object_path_of name) [] (Some d)) s = (q, s1)"
      by fastforce
    have ok1: "installation_ok I (k, s1)" for k
      using serve_installed [OF assms(1) ok, of "in_ios I n"] sent_object(1) [OF assms(1) name] h by metis
    have "(r, st') = andThen (andThen (server_request (client_of I) (in_target I) PUT (base_url I @ object_path_of name) [] (Some d))
       (\<lambda>_. return ())) (\<lambda>_. return Done) (n, s)"
      using assms(4) object_url [OF assms(1) name] by (simp add: PutCall st server_put_def with_url_def)
    then show ?thesis
      using put_reply [OF assms(1) ok h refl refl refl, of d] ok ok1
      unfolding andThen_def return_def request_sent sent_object(1) [OF assms(1) name] h
      by (cases "in_faults I n") (auto simp: PutCall st contract_simps account_view_def installation_ok_def split: if_splits)
  next
    case (RemoveCall name)
    have name: "plain_name name" using assms(3) RemoveCall by simp
    obtain q s1 where h: "handleDelete (in_server I) (in_ios I n) (in_account I) name s = (q, s1)" by fastforce
    have ok1: "installation_ok I (k, s1)" for k
      using serve_installed [OF assms(1) ok, of "in_ios I n"] sent_object(3) [OF assms(1) name] h by metis
    have "(r, st') = andThen (andThen (server_request (client_of I) (in_target I) DELETE (base_url I @ object_path_of name) [] None)
       (\<lambda>_. return ())) (\<lambda>_. return Done) (n, s)"
      using assms(4) object_url [OF assms(1) name] by (simp add: RemoveCall st server_remove_def with_url_def)
    then show ?thesis
      using delete_reply [OF assms(1) ok h refl refl refl] ok ok1
      unfolding andThen_def return_def request_sent sent_object(3) [OF assms(1) name] h
      by (cases "in_faults I n") (auto simp: RemoveCall st contract_simps account_view_def installation_ok_def split: if_splits)
  qed
qed

lemma server_destination:
  assumes "installed I"
  shows "sync_destination (installation_ok I) (account_view I) plain_name (server_impl I) (server_others I)"
proof (unfold_locales, goal_cases)
  case (1 st es)
  then show ?case using run_server_clean [of "in_server I"] assms
    by (cases st) (auto simp: server_others_def installation_ok_def installed_def)
next
  case (2 st c)
  show ?case
  proof (cases c)
    case (ListCall p)
    obtain n s where "st = (n, s)" by fastforce
    then show ?thesis using server_list_spec [OF assms, of n s p "server_list (client_of I) (in_target I) p (n, s) \<noteq> None"] 2(1)
      by (auto simp: ListCall)
  qed simp_all
next
  case (3 st c r st')
  then show ?case using server_contract [OF assms] by blast
qed

section \<open>Answers without faults\<close>

text \<open>When nothing fails, the answers are exact.\<close>

definition ascii :: "char \<Rightarrow> bool" where
  "ascii c \<longleftrightarrow> of_char c < (128 :: nat)"

lemma ascii_chars: "is_alnum c \<Longrightarrow> ascii c" "is_hex c \<Longrightarrow> ascii c" "is_digit c \<Longrightarrow> ascii c"
  by (auto simp: ascii_def is_alnum_def is_hex_def is_digit_def less_eq_char_def)

lemma stamp_ascii:
  assumes "is_stamp s"
  shows "list_all ascii s"
proof -
  have len: "25 < length s" using assms by (simp add: is_stamp_def)
  have "s = take 19 s @ s ! 19 # drop 20 s" using len id_take_nth_drop [of 19 s] by simp
  moreover have "drop 20 s = Prelude.slice 20 24 s @ drop 24 s" using append_take_drop_id [of 4 "drop 20 s"] by (simp add: Prelude.slice_def drop_take)
  moreover have "drop 24 s = s ! 24 # drop 25 s" using len Cons_nth_drop_Suc [of 24 s] by simp
  ultimately have "s = take 19 s @ s ! 19 # Prelude.slice 20 24 s @ s ! 24 # drop 25 s" by simp
  moreover have "ascii CHR ''-''" by (simp add: ascii_def)
  moreover have "list_all ascii (take 19 s)" "list_all ascii (Prelude.slice 20 24 s)" "list_all ascii (drop 25 s)"
    using assms ascii_chars by (auto simp: is_stamp_def elim!: list.pred_mono_strong)
  ultimately show ?thesis using assms
    by (metis is_stamp_def list.pred_inject(2) list_all_append)
qed

lemma object_name_ascii:
  assumes "objectNamePattern name"
  shows "list_all (\<lambda>c. of_char c < (128 :: nat)) name"
proof -
  obtain vault leaf where s: "split_on CHR ''/'' name = [''vaults'', vault, ''ops'', leaf]"
    "list_all (\<lambda>c. is_alnum c \<or> c = CHR ''-'') vault" "is_stamp (take (length leaf - 4) leaf)" "drop (length leaf - 4) leaf = ''.edk''"
    using assms by (auto simp: objectNamePattern_def Let_def split: list.splits)
  have "leaf = take (length leaf - 4) leaf @ ''.edk''" using append_take_drop_id [of "length leaf - 4" leaf] s(4) by simp
  then have "name = ''vaults/'' @ vault @ ''/ops/'' @ take (length leaf - 4) leaf @ ''.edk''"
    using join_split_on [of "CHR ''/''" name] s(1) by simp
  moreover have "list_all ascii vault" using s(2) ascii_chars(1) by (force simp: ascii_def elim!: list.pred_mono_strong)
  ultimately have "list_all ascii name" using stamp_ascii [OF s(3)] by (simp add: ascii_def)
  then show ?thesis by (simp add: ascii_def [abs_def])
qed

lemma valid_plain: "validateName name = Inr () \<Longrightarrow> plain_name name"
proof -
  assume valid: "validateName name = Inr ()"
  then have "objectNamePattern name" by (auto simp: validateName_def split: if_splits)
  with validateName_proper(1) [OF valid] object_name_ascii show ?thesis by (simp add: plain_name_def)
qed

lemma String_400: "String_of 400 = ''400''"
  by code_simp

lemma smoothD: "smooth I n \<Longrightarrow> in_faults I n = Fine \<and> io_fine (in_ios I n)"
  by (simp add: smooth_def)

lemma get_exact:
  assumes "installed I" and "installation_ok I (n, s)" and "smooth I n" and "validateName name = Inr ()"
  shows "server_get (client_of I) (in_target I) name (n, s) =
    (case tget (fs_view s (in_account I)) name of None \<Rightarrow> Inl (refused I 404) | Some d \<Rightarrow> Inr d, Suc n, s)"
proof -
  note name = valid_plain [OF assms(4)]
  have ok: "store_ok s" "account_ok (in_account I)" using assms(2) sent_account_ok [OF assms(1)] by (simp_all add: installation_ok_def clean_store_def)
  have "sv_etag (in_server I) d \<noteq> []" "[] \<noteq> sv_etag (in_server I) d" for d
    using assms(1) by (auto simp: installed_def dest: not_sym)
  then show ?thesis
    using fs_get_spec(3) [OF ok assms(4), of "in_ios I n"] smoothD [OF assms(3)]
    by (simp add: server_get_def object_url [OF assms(1) name] with_url_def andThen_def return_def request_sent
      sent_object(2) [OF assms(1) name] handleGet_def io_fine_def writeStoreError_def split: option.split)
qed

lemma put_answer:
  assumes "installed I" and "plain_name name" and "smooth I n"
    and "handlePut (in_server I) (in_ios I n) (in_account I) name (sent I PUT (object_path_of name) [] (Some d)) s = (r, s')"
  shows "server_put (client_of I) (in_target I) name d (n, s) =
    (if rs_status r < 200 \<or> 300 \<le> rs_status r then Inl (refused I (rs_status r)) else Inr (), Suc n, s')"
  using assms(4) smoothD [OF assms(3)]
  by (simp add: server_put_def object_url [OF assms(1,2)] with_url_def andThen_def return_def request_sent sent_object(1) [OF assms(1,2)])

lemma put_exact:
  assumes "installed I" and "installation_ok I (n, s)" and "smooth I n" and "storable (in_server I) name d"
  defines "v \<equiv> fs_view s (in_account I)"
  shows "tget v name = None \<Longrightarrow> fits (in_account I) d s \<Longrightarrow>
      \<exists>s'. server_put (client_of I) (in_target I) name d (n, s) = (Inr (), Suc n, s') \<and> fs_view s' (in_account I) = tput name d v"
    and "tget v name = Some old \<Longrightarrow> server_put (client_of I) (in_target I) name d (n, s) =
      (if old = d then Inr () else Inl (refused I 409), Suc n, s)"
proof -
  have valid: "validateName name = Inr ()" "d \<noteq> []" "int (length d) \<le> sv_maxObjectSize (in_server I)"
    using assms(4) by (simp_all add: storable_def)
  have ok: "store_ok s" "account_ok (in_account I)" using assms(2) sent_account_ok [OF assms(1)] by (simp_all add: installation_ok_def clean_store_def)
  note answer = put_answer [OF assms(1) valid_plain [OF valid(1)] assms(3)]
  have io: "io_fine (in_ios I n)" using smoothD [OF assms(3)] by simp
  show "\<exists>s'. server_put (client_of I) (in_target I) name d (n, s) = (Inr (), Suc n, s') \<and> fs_view s' (in_account I) = tput name d v"
    if new: "tget v name = None" "fits (in_account I) d s"
  proof -
    obtain s' where p: "fs_put (in_ios I n) (in_account I) name d s = (Inr (), s')"
      using fs_put_succeeds [OF ok io valid(1), of d] new
      by (cases "fs_put (in_ios I n) (in_account I) name d s") (simp add: v_def)
    then show ?thesis using fs_put_spec(3) [OF ok p] valid answer [of d s] by (simp add: handlePut_def v_def)
  qed
  show "server_put (client_of I) (in_target I) name d (n, s) = (if old = d then Inr () else Inl (refused I 409), Suc n, s)"
    if "tget v name = Some old"
  proof (cases "old = d")
    case True
    then have "fs_put (in_ios I n) (in_account I) name d s = (Inr (), s)"
      using that io valid_path [OF ok valid(1)] valid by (auto simp: fs_put_def io_fine_def v_def)
    then show ?thesis using valid answer [of d s] True by (simp add: handlePut_def)
  next
    case False
    with fs_put_conflict [OF ok io valid(1)] that have "fs_put (in_ios I n) (in_account I) name d s = (Inl ErrAlreadyExists, s)"
      by (simp add: v_def)
    then show ?thesis using valid answer [of d s] False by (simp add: handlePut_def writeStoreError_def)
  qed
qed

lemma remove_exact:
  assumes "installed I" and "installation_ok I (n, s)" and "smooth I n" and "validateName name = Inr ()"
  shows "\<exists>s'. server_remove (client_of I) (in_target I) name (n, s) = (Inr (), Suc n, s') \<and>
    fs_view s' (in_account I) = tdelete name (fs_view s (in_account I))"
proof -
  note name = valid_plain [OF assms(4)]
  have ok: "store_ok s" "account_ok (in_account I)" using assms(2) sent_account_ok [OF assms(1)] by (simp_all add: installation_ok_def clean_store_def)
  obtain s' where p: "fs_delete (in_ios I n) (in_account I) name s = (Inr (), s')"
    using fs_delete_succeeds [OF ok _ assms(4), of "in_ios I n"] smoothD [OF assms(3)]
    by (cases "fs_delete (in_ios I n) (in_account I) name s") simp
  then show ?thesis using fs_delete_spec(3) [OF ok p] smoothD [OF assms(3)]
    by (simp add: server_remove_def object_url [OF assms(1) name] with_url_def andThen_def return_def request_sent
      sent_object(3) [OF assms(1) name] handleDelete_def)
qed

lemma snapshot_name_invalid: "CHR ''/'' \<notin> set vault \<Longrightarrow> \<not> objectNamePattern (snapshotObjectName vault stamp)"
proof -
  assume vault: "CHR ''/'' \<notin> set vault"
  have "split_on CHR ''/'' (snapshotObjectName vault stamp) = ''vaults'' # vault # ''snapshots'' # split_on CHR ''/'' (stamp @ ''.edk'')"
    using split_on_sep [of "CHR ''/''" vault "''snapshots/'' @ stamp @ ''.edk''"] vault split_on_sep [of "CHR ''/''" "''snapshots''" "stamp @ ''.edk''"]
      split_on_no_sep [OF vault]
    by (simp add: snapshotObjectName_def snapshotPrefix_def)
  then show ?thesis by (simp add: objectNamePattern_def split: list.split)
qed

lemma snapshot_refused:
  assumes "installed I" and "smooth I n" and "plain_name (snapshotObjectName vault stamp)" and "CHR ''/'' \<notin> set vault"
    and "d \<noteq> []" and "int (length d) \<le> sv_maxObjectSize (in_server I)"
  shows "server_put (client_of I) (in_target I) (snapshotObjectName vault stamp) d (n, s) = (Inl (refused I 400), Suc n, s)"
proof -
  obtain e where "validateName (snapshotObjectName vault stamp) = Inl (ErrInvalidName e)"
    using snapshot_name_invalid [OF assms(4), of stamp] unfolding validateName_def by (cases "256 < length (snapshotObjectName vault stamp)"; cases "includes_str ''..'' (snapshotObjectName vault stamp) \<or> startsWith ''/'' (snapshotObjectName vault stamp)") auto
  then have "fs_put (in_ios I n) (in_account I) (snapshotObjectName vault stamp) d s = (Inl (ErrInvalidName e), s)"
    by (simp add: fs_put_def)
  then show ?thesis using put_answer [OF assms(1,3,2)] assms(5,6) by (simp add: handlePut_def writeStoreError_def)
qed

text \<open>The network loses the answer to the second request.\<close>

definition sample_installation :: "nat installation" where
  "sample_installation = \<lparr>in_server = sample_server, in_target = \<lparr>srv_label = ''home'', srv_endpoint = ''http://host/'', srv_token = ''secret''\<rparr>,
     in_account = ''alice'', in_ios = (\<lambda>_. sample_io), in_faults = (\<lambda>n. if n = 1 then AnswerLost else Fine),
     in_resolve = (\<lambda>path base. Some (base @ path)), in_statusText = (\<lambda>_. []), in_bytes = (\<lambda>_. [])\<rparr>"

lemma sample_installed: "installed sample_installation"
proof -
  have "lookup_token (sv_hashToken sample_server) (sv_tokens sample_server) (bearerToken (''Bearer '' @ ''secret'')) = Some ''alice''"
    by code_simp
  moreover have "registry_ok (sv_tokens sample_server)" using sample_tokens by (rule parseTokens_ok)
  ultimately show ?thesis
    by (simp add: installed_def sample_installation_def sample_io_def) (simp add: sample_server_def newServer_def)
qed

lemma sample_clean: "clean_store (in_server sample_installation) sample_store"
  by (rule new_store(1) [OF sample_new])

lemma sample_plain: "plain_name sample_name"
proof -
  have "validateName sample_name = Inr ()" by code_simp
  then show ?thesis by (rule valid_plain)
qed

section \<open>What the engine may rely on\<close>





end
