(* ===== verification/Numerals.thy ===== *)
theory Numerals
  imports Money
begin

text \<open>
  Numbers as the forms of the screens show and read them: \<open>String(x)\<close> and \<open>Number(text)\<close> of
  JavaScript, for any text and any number, and \<open>Number.parseFloat\<close>. What a form prints of a binary64
  number it reads back as the same number.
\<close>

section \<open>Reading\<close>

definition signed :: "string \<Rightarrow> bool \<times> string" where
  "signed s = (case s of c # cs \<Rightarrow> if c = CHR ''-'' then (True, cs) else if c = CHR ''+'' then (False, cs) else (False, s)
               | [] \<Rightarrow> (False, []))"

definition exponent_part :: "string \<Rightarrow> int \<times> string" where
  "exponent_part s =
     (case s of
        c # cs \<Rightarrow>
          if c = CHR ''e'' \<or> c = CHR ''E'' then
            (case signed cs of (neg, t) \<Rightarrow>
               let ds = takeWhile is_digit t
               in if ds = [] then (0, s)
                  else ((if neg then - int (from_base 10 ds) else int (from_base 10 ds)), dropWhile is_digit t))
          else (0, s)
      | [] \<Rightarrow> (0, []))"

text \<open>The longest prefix that is a decimal literal without a sign, with its value and what follows.\<close>

definition decimal_prefix :: "string \<Rightarrow> (rat \<times> string) option" where
  "decimal_prefix s =
     (let whole = takeWhile is_digit s;
          r1 = dropWhile is_digit s;
          (part, r2) = (if startsWith ''.'' r1 then (takeWhile is_digit (drop 1 r1), dropWhile is_digit (drop 1 r1)) else ([], r1))
      in if whole = [] \<and> part = [] then None
         else case exponent_part r2 of
                (e, r3) \<Rightarrow> Some (of_nat (from_base 10 (whole @ part)) * 10 powi (e - int (length part)), r3))"

definition radix_value :: "nat \<Rightarrow> string \<Rightarrow> number" where
  "radix_value b ds =
     (let ds = map lower_char ds
      in if ds = [] \<or> \<not> list_all (\<lambda>c. (is_digit c \<or> CHR ''a'' \<le> c \<and> c \<le> CHR ''f'') \<and> char_digit c < b) ds then NaN else fl (of_nat (from_base b ds)))"

definition Number_of :: "string \<Rightarrow> number" where
  "Number_of s =
     (let t = trim s
      in if t = [] then Fin 0
         else if startsWith ''0x'' t \<or> startsWith ''0X'' t then radix_value 16 (drop 2 t)
         else if startsWith ''0o'' t \<or> startsWith ''0O'' t then radix_value 8 (drop 2 t)
         else if startsWith ''0b'' t \<or> startsWith ''0B'' t then radix_value 2 (drop 2 t)
         else case signed t of (neg, u) \<Rightarrow>
           if u = ''Infinity'' then (if neg then NegInf else PosInf)
           else (case decimal_prefix u of
                   Some (v, []) \<Rightarrow> fl (if neg then - v else v)
                 | _ \<Rightarrow> NaN))"

definition parseFloat :: "string \<Rightarrow> number" where
  "parseFloat s =
     (case signed (dropWhile is_space s) of (neg, u) \<Rightarrow>
        if startsWith ''Infinity'' u then (if neg then NegInf else PosInf)
        else (case decimal_prefix u of
                Some (v, _) \<Rightarrow> fl (if neg then - v else v)
              | None \<Rightarrow> NaN))"

section \<open>Printing\<close>

text \<open>The \<open>n\<close> with \<open>10^(n-1) \<le> x < 10^n\<close>, for positive \<open>x\<close>.\<close>

definition decimal_exponent :: "rat \<Rightarrow> int" where
  "decimal_exponent x =
     (if 1 \<le> x then int (length (String_of (nat \<lfloor>x\<rfloor>)))
      else 1 - int (length (String_of (nat (\<lceil>1 / x\<rceil> - 1)))))"

text \<open>The fewest digits that read back as the number: with \<open>k\<close> of them, the nearest such decimal. A
  binary64 number is a decimal of at most 1,400 digits itself.\<close>

definition digits_at :: "rat \<Rightarrow> nat \<Rightarrow> nat" where
  "digits_at x k = nat (round_half_even (x * 10 powi (int k - decimal_exponent x)))"

fun shortest :: "rat \<Rightarrow> nat \<Rightarrow> nat \<Rightarrow> nat" where
  "shortest x k 0 = k"
| "shortest x k (Suc fuel) =
     (if fl (of_nat (digits_at x k) * 10 powi (decimal_exponent x - int k)) = Fin x then k else shortest x (Suc k) fuel)"

definition strip_zeros :: "string \<Rightarrow> string" where
  "strip_zeros ds = rev (dropWhile (\<lambda>c. c = CHR ''0'') (rev ds))"

text \<open>\<open>Number::toString\<close>: the digits with the point after the first \<open>n\<close> of them.\<close>

definition lay_out :: "string \<Rightarrow> int \<Rightarrow> string" where
  "lay_out ds n =
     (let k = int (length ds)
      in if k \<le> n \<and> n \<le> 21 then ds @ replicate (nat (n - k)) CHR ''0''
         else if 0 < n \<and> n \<le> 21 then take (nat n) ds @ ''.'' @ drop (nat n) ds
         else if -6 < n \<and> n \<le> 0 then ''0.'' @ replicate (nat (- n)) CHR ''0'' @ ds
         else (if length ds = 1 then ds else take 1 ds @ ''.'' @ drop 1 ds) @ ''e'' @ (if n - 1 < 0 then ''-'' else ''+'') @
              String_of (nat \<bar>n - 1\<bar>))"

definition positive_text :: "rat \<Rightarrow> string" where
  "positive_text x =
     (let k = shortest x 1 1400; ds = String_of (digits_at x k)
      in lay_out (strip_zeros ds) (decimal_exponent x - int k + int (length ds)))"

fun String_of_number :: "number \<Rightarrow> string" where
  "String_of_number (Fin x) = (if x = 0 then ''0'' else if x < 0 then ''-'' @ positive_text (- x) else positive_text x)"
| "String_of_number PosInf = ''Infinity''"
| "String_of_number NegInf = ''-Infinity''"
| "String_of_number NaN = ''NaN''"

section \<open>What is printed reads back\<close>

lemma from_base_app_zeros: "from_base 10 (ds @ replicate z CHR ''0'') = from_base 10 ds * 10 ^ z"
proof (induction z)
  case (Suc z)
  have "from_base 10 (ds @ replicate (Suc z) CHR ''0'') = from_base 10 (ds @ replicate z CHR ''0'') * 10 + char_digit CHR ''0''"
    by (simp only: replicate_Suc replicate_append_same [symmetric] append_assoc [symmetric] from_base_snoc)
  then show ?case using Suc by (simp add: char_digit_def)
qed simp

definition digits :: "string \<Rightarrow> bool" where
  "digits ds \<longleftrightarrow> list_all is_digit ds"

lemma take_digits: "digits ds \<Longrightarrow> t = [] \<or> \<not> is_digit (hd t) \<Longrightarrow> takeWhile is_digit (ds @ t) = ds \<and> dropWhile is_digit (ds @ t) = t"
  by (induction ds) (cases t; auto simp: digits_def)+

lemma all_digits [simp]: "digits ds \<Longrightarrow> takeWhile is_digit ds = ds" "digits ds \<Longrightarrow> dropWhile is_digit ds = []"
  by (simp_all add: digits_def list_all_iff)

lemma digits_simps [simp]: "digits (a @ b) \<longleftrightarrow> digits a \<and> digits b" "digits (replicate n CHR ''0'')" "digits (String_of n)"
  "digits ds \<Longrightarrow> digits (take m ds)" "digits ds \<Longrightarrow> digits (drop m ds)"
  using is_digit_String_of
  by (auto simp: digits_def list_all_iff is_digit_def dest: in_set_takeD in_set_dropD)

lemma not_digits [simp]: "\<not> is_digit CHR ''.''" "\<not> is_digit CHR ''e''" "\<not> is_digit CHR ''-''" "\<not> is_digit CHR ''+''"
  by (simp_all add: is_digit_def)

lemma exponent_text: "exponent_part (''e'' @ (if n < 0 then ''-'' else ''+'') @ String_of (nat \<bar>n\<bar>)) = (n, [])"
  by (auto simp: exponent_part_def signed_def Let_def from_base_to_base)

lemma decimal_prefix_point:
  assumes "digits a" and "digits b" and "a \<noteq> [] \<or> b \<noteq> []" and "t = [] \<or> \<not> is_digit (hd t)" and "exponent_part t = (e, [])"
  shows "decimal_prefix (a @ ''.'' @ b @ t) = Some (of_nat (from_base 10 (a @ b)) * 10 powi (e - int (length b)), [])"
  using take_digits [OF assms(1), of "''.'' @ b @ t"] take_digits [OF assms(2,4)] assms
  by (cases t) (simp_all add: decimal_prefix_def Let_def)

lemma decimal_prefix_whole:
  assumes "digits a" and "a \<noteq> []" and "t = [] \<or> \<not> is_digit (hd t) \<and> hd t \<noteq> CHR ''.''" and "exponent_part t = (e, [])"
  shows "decimal_prefix (a @ t) = Some (of_nat (from_base 10 a) * 10 powi e, [])"
proof -
  have "\<not> startsWith ''.'' t" using assms(3) by (cases t) auto
  then show ?thesis using take_digits [OF assms(1), of t] assms
    by (cases t) (simp_all add: decimal_prefix_def Let_def)
qed

lemma exponent_Nil [simp]: "exponent_part [] = (0, [])"
  by (simp add: exponent_part_def)

lemma parse_lay_out:
  assumes "digits ds" and "ds \<noteq> []"
  shows "decimal_prefix (lay_out ds n) = Some (of_nat (from_base 10 ds) * 10 powi (n - int (length ds)), [])"
proof -
  let ?k = "int (length ds)"
  consider "?k \<le> n" "n \<le> 21" | "n < ?k" "0 < n" "n \<le> 21" | "-6 < n" "n \<le> 0" | "n \<le> -6 \<or> 21 < n" by linarith
  then show ?thesis
  proof cases
    case 1
    have "decimal_prefix (ds @ replicate (nat (n - ?k)) CHR ''0'') =
        Some (of_nat (from_base 10 (ds @ replicate (nat (n - ?k)) CHR ''0'')) * 10 powi 0, [])"
      using decimal_prefix_whole [of "ds @ replicate (nat (n - ?k)) CHR ''0''" "[]" 0] assms by simp
    moreover have "(10 :: rat) ^ nat (n - ?k) = 10 powi (n - ?k)" using 1 by (simp add: power_int_def)
    ultimately show ?thesis using 1 by (simp add: lay_out_def from_base_app_zeros)
  next
    case 2
    have "decimal_prefix (take (nat n) ds @ ''.'' @ drop (nat n) ds @ []) =
        Some (of_nat (from_base 10 (take (nat n) ds @ drop (nat n) ds)) * 10 powi (0 - int (length (drop (nat n) ds))), [])"
      by (rule decimal_prefix_point) (use assms in auto)
    moreover have "0 - int (length (drop (nat n) ds)) = n - ?k" using 2 by simp
    ultimately show ?thesis using 2 by (simp add: lay_out_def)
  next
    case 3
    have zero: "digits ''0''" by (simp add: digits_def is_digit_def)
    have "decimal_prefix (''0'' @ ''.'' @ (replicate (nat (- n)) CHR ''0'' @ ds) @ []) =
        Some (of_nat (from_base 10 (''0'' @ replicate (nat (- n)) CHR ''0'' @ ds)) * 10 powi (0 - int (length (replicate (nat (- n)) CHR ''0'' @ ds))), [])"
      by (rule decimal_prefix_point) (use assms zero in auto)
    moreover have "from_base 10 (''0'' @ replicate (nat (- n)) CHR ''0'' @ ds) = from_base 10 ds"
      using from_base_zeros [of "Suc (nat (- n))" ds] by simp
    moreover have "0 - int (length (replicate (nat (- n)) CHR ''0'' @ ds)) = n - ?k" using 3 by simp
    moreover have "\<not> ?k \<le> n" using 3 assms(2) by (cases ds) auto
    ultimately show ?thesis using 3 by (simp add: lay_out_def)
  next
    case 4
    let ?e = "''e'' @ (if n - 1 < 0 then ''-'' else ''+'') @ String_of (nat \<bar>n - 1\<bar>)"
    have e: "?e = [] \<or> \<not> is_digit (hd ?e) \<and> hd ?e \<noteq> CHR ''.''" by simp
    show ?thesis
    proof (cases "length ds = 1")
      case True
      then show ?thesis using 4 decimal_prefix_whole [OF assms e exponent_text] by (auto simp: lay_out_def Let_def)
    next
      case False
      have "decimal_prefix (take 1 ds @ ''.'' @ drop 1 ds @ ?e) =
          Some (of_nat (from_base 10 (take 1 ds @ drop 1 ds)) * 10 powi (n - 1 - int (length (drop 1 ds))), [])"
        by (rule decimal_prefix_point [OF _ _ _ _ exponent_text]) (use assms in auto)
      moreover have "n - 1 - int (length (drop 1 ds)) = n - ?k" using assms(2) by (cases ds) auto
      ultimately show ?thesis using 4 False by (auto simp: lay_out_def Let_def simp del: take_Suc drop_Suc)
    qed
  qed
qed


definition reads_back :: "rat \<Rightarrow> nat \<Rightarrow> bool" where
  "reads_back x k \<longleftrightarrow> fl (of_nat (digits_at x k) * 10 powi (decimal_exponent x - int k)) = Fin x"

lemma shortest_reads_back: "k \<le> k0 \<Longrightarrow> k0 \<le> k + fuel \<Longrightarrow> reads_back x k0 \<Longrightarrow> reads_back x (shortest x k fuel)"
proof (induction x k fuel rule: shortest.induct)
  case (2 x k fuel)
  show ?case
  proof (cases "reads_back x k")
    case False
    with "2.prems" have "Suc k \<le> k0" by (metis Suc_leI le_neq_implies_less)
    with 2 False show ?thesis by (simp add: reads_back_def)
  qed (simp add: reads_back_def)
qed simp

lemma length_String_of: "n < 10 ^ w \<Longrightarrow> 0 < w \<Longrightarrow> length (String_of n) \<le> w"
  using padStart_to_base [of 10 w n] length_fixed [of 10 w n] by (auto simp: padStart_def dest!: arg_cong [of _ _ length])

lemma power_length_String_of: "0 < n \<Longrightarrow> 10 ^ (length (String_of n) - 1) \<le> n"
proof (rule ccontr)
  assume n: "0 < n" "\<not> 10 ^ (length (String_of n) - 1) \<le> n"
  show False
  proof (cases "length (String_of n) - 1")
    case (Suc w)
    then show False using length_String_of [of n "length (String_of n) - 1"] n by simp
  qed (use n in simp)
qed

lemma binary64_parts:
  assumes "fl x = Fin x" and "0 < x"
  obtains R q where "x = of_int R * 2 powi q" "-1074 \<le> q" "x < 2 ^ 1024"
proof -
  define q where "q = ulp_exponent x"
  define R where "R = round_half_even (x / 2 powi q)"
  define B :: rat where "B = 2 ^ 1024"
  have "x = of_int R * 2 powi q" "x < B"
    using assms unfolding fl_def Let_def q_def [symmetric] R_def [symmetric] B_def [symmetric] by (auto split: if_splits)
  moreover have "-1074 \<le> q" by (simp add: q_def ulp_exponent_def)
  ultimately show thesis using that unfolding B_def by blast
qed

lemma decimal_exponent_bounds:
  assumes "0 < x" and "x < 2 ^ 1024"
  shows "decimal_exponent x \<le> 309" and "1 \<le> x \<Longrightarrow> 1 \<le> decimal_exponent x"
proof -
  have len: "1 \<le> length (String_of n)" for n by (cases "String_of n") auto
  show "1 \<le> x \<Longrightarrow> 1 \<le> decimal_exponent x" using len by (simp add: decimal_exponent_def)
  show "decimal_exponent x \<le> 309"
  proof (cases "1 \<le> x")
    case True
    have big: "(2 :: int) ^ 1024 \<le> 10 ^ 309" by simp
    have "\<lfloor>x\<rfloor> < 2 ^ 1024" using assms(2) by (simp add: floor_less_iff)
    then have "\<lfloor>x\<rfloor> < 10 ^ 309" using big by (rule less_le_trans)
    then have "nat \<lfloor>x\<rfloor> < nat (10 ^ 309)" by (subst nat_mono_iff) simp_all
    then have "nat \<lfloor>x\<rfloor> < 10 ^ 309" by (simp add: nat_power_eq)
    then show ?thesis using True length_String_of [of "nat \<lfloor>x\<rfloor>" 309] by (simp add: decimal_exponent_def)
  next
    case False
    then show ?thesis using len [of "nat (\<lceil>1 / x\<rceil> - 1)"] by (simp add: decimal_exponent_def)
  qed
qed

lemma exact_digits:
  assumes "fl x = Fin x" and "0 < x" and "x * 10 powi (int k - decimal_exponent x) = of_int Z"
  shows "reads_back x k"
proof -
  have "(0 :: rat) \<le> of_int Z" unfolding assms(3) [symmetric] using assms(2) by simp
  then have "0 \<le> Z" by simp
  have "digits_at x k = nat Z" unfolding digits_at_def assms(3) by simp
  then have "of_nat (digits_at x k) * 10 powi (decimal_exponent x - int k) =
      x * (10 powi (int k - decimal_exponent x) * 10 powi (decimal_exponent x - int k))"
    using \<open>0 \<le> Z\<close> assms(3) by (simp add: mult.assoc [symmetric])
  also have "\<dots> = x" by (simp add: power_int_add [symmetric])
  finally show ?thesis using assms(1) by (simp add: reads_back_def)
qed

lemma exists_digits:
  assumes "fl x = Fin x" and "0 < x"
  shows "\<exists>k. 1 \<le> k \<and> k \<le> 1401 \<and> reads_back x k"
proof -
  obtain R q where x: "x = of_int R * 2 powi q" "-1074 \<le> q" "x < 2 ^ 1024" by (rule binary64_parts [OF assms])
  define j where "j = nat (max 0 (- q))"
  have j: "j \<le> 1074" using x(2) by (simp add: j_def)
  note E = decimal_exponent_bounds [OF assms(2) x(3)]
  have whole: "\<exists>Z. x * 10 powi int (j + i) = of_int Z" for i
  proof -
    have "2 powi q * 10 powi int j = (of_int (if q < 0 then 5 ^ j else 2 ^ nat q) :: rat)"
    proof (cases "q < 0")
      case True
      then have "q = - int j" by (simp add: j_def)
      moreover have "(10 :: rat) ^ j = 2 ^ j * 5 ^ j" by (simp add: power_mult_distrib [symmetric])
      ultimately show ?thesis using True by (simp add: power_int_minus)
    qed (simp add: j_def power_int_def)
    then have "x * 10 powi int (j + i) = of_int (R * (if q < 0 then 5 ^ j else 2 ^ nat q) * 10 ^ i)"
      by (simp add: x(1) power_int_add mult.assoc [symmetric])
    then show ?thesis ..
  qed
  show ?thesis
  proof (cases "1 \<le> int j + decimal_exponent x")
    case True
    define k where "k = nat (int j + decimal_exponent x)"
    have "x * 10 powi (int k - decimal_exponent x) = x * 10 powi int (j + 0)" using True by (simp add: k_def)
    with whole [of 0] obtain Z where "x * 10 powi (int k - decimal_exponent x) = of_int Z" by auto
    from exact_digits [OF assms this] show ?thesis using True E(1) j by (intro exI [of _ k]) (auto simp: k_def nat_le_iff)
  next
    case False
    define i where "i = nat (1 - int j - decimal_exponent x)"
    have "x * 10 powi (int 1 - decimal_exponent x) = x * 10 powi int (j + i)" using False by (simp add: i_def)
    with whole [of i] obtain Z where "x * 10 powi (int 1 - decimal_exponent x) = of_int Z" by auto
    from exact_digits [OF assms this] show ?thesis by (intro exI [of _ 1]) simp
  qed
qed

lemma strip_zeros_split: obtains z where "ds = strip_zeros ds @ replicate z CHR ''0''"
proof -
  have "rev ds = takeWhile (\<lambda>c. c = CHR ''0'') (rev ds) @ dropWhile (\<lambda>c. c = CHR ''0'') (rev ds)" by simp
  moreover have "takeWhile (\<lambda>c. c = CHR ''0'') (rev ds) = replicate (length (takeWhile (\<lambda>c. c = CHR ''0'') (rev ds))) CHR ''0''"
    by (intro replicate_eqI) (auto dest: set_takeWhileD)
  ultimately have "ds = strip_zeros ds @ replicate (length (takeWhile (\<lambda>c. c = CHR ''0'') (rev ds))) CHR ''0''"
    unfolding strip_zeros_def by (metis rev_append rev_replicate rev_rev_ident)
  then show thesis by (rule that)
qed

lemma positive_text_parts:
  assumes "fl x = Fin x" and "0 < x"
  obtains ds n where "positive_text x = lay_out ds n" "digits ds" "ds \<noteq> []"
    "fl (of_nat (from_base 10 ds) * 10 powi (n - int (length ds))) = Fin x"
proof -
  define k where "k = shortest x 1 1400"
  define ds where "ds = String_of (digits_at x k)"
  define e where "e = decimal_exponent x - int k"
  obtain k0 where "1 \<le> k0" "k0 \<le> 1401" "reads_back x k0" using exists_digits [OF assms] by blast
  then have k: "reads_back x k" using shortest_reads_back [of 1 k0 1400 x] by (simp add: k_def)
  obtain z where z: "ds = strip_zeros ds @ replicate z CHR ''0''" by (rule strip_zeros_split)
  have val: "digits_at x k = from_base 10 (strip_zeros ds) * 10 ^ z"
    using from_base_app_zeros [of "strip_zeros ds" z] z from_base_to_base [of 10 "digits_at x k"] by (simp add: ds_def)
  have "digits_at x k \<noteq> 0"
  proof
    assume "digits_at x k = 0"
    then have "fl 0 = Fin x" using k by (simp add: reads_back_def)
    then show False using assms(2) by (simp add: fl_def)
  qed
  then have ne: "strip_zeros ds \<noteq> []" using val by auto
  have "digits ds" by (simp add: ds_def)
  then have dig: "digits (strip_zeros ds)" using z by (metis digits_simps(1))
  have len: "int (length ds) - int (length (strip_zeros ds)) = int z" using arg_cong [OF z, of length] by simp
  have "(of_nat (from_base 10 (strip_zeros ds)) * 10 powi (e + int (length ds) - int (length (strip_zeros ds))) :: rat) =
      of_nat (from_base 10 (strip_zeros ds)) * 10 powi (e + int z)"
    using len by (simp add: algebra_simps)
  also have "\<dots> = of_nat (digits_at x k) * 10 powi e" by (simp add: val power_int_add)
  finally have "fl (of_nat (from_base 10 (strip_zeros ds)) * 10 powi (e + int (length ds) - int (length (strip_zeros ds)))) = Fin x"
    using k by (simp add: reads_back_def e_def)
  with dig ne show thesis
    by (intro that [of "strip_zeros ds" "e + int (length ds)"]) (simp_all add: positive_text_def Let_def k_def ds_def e_def)
qed

text \<open>What a printed number starts with and is made of.\<close>

lemma lay_out_chars: "digits ds \<Longrightarrow> list_all (\<lambda>c. is_digit c \<or> c \<in> {CHR ''.'', CHR ''e'', CHR ''-'', CHR ''+''}) (lay_out ds n)"
  using is_digit_String_of [of _ "nat \<bar>n - 1\<bar>"]
  by (auto simp: lay_out_def Let_def digits_def list_all_iff is_digit_def dest: in_set_takeD in_set_dropD)


lemma lay_out_hd: "digits ds \<Longrightarrow> ds \<noteq> [] \<Longrightarrow> lay_out ds n \<noteq> [] \<and> is_digit (hd (lay_out ds n))"
  by (cases ds) (auto simp: lay_out_def Let_def digits_def take_Cons' is_digit_def)

lemma signed_digit: "t \<noteq> [] \<Longrightarrow> is_digit (hd t) \<Longrightarrow> signed t = (False, t)"
  by (cases t) (auto simp: signed_def is_digit_def)

text \<open>Reading what was printed gives the number back.\<close>

lemma positive_text_reads:
  assumes "fl r = Fin r" and "0 < r"
  shows "Number_of (positive_text r) = Fin r" and "Number_of (''-'' @ positive_text r) = Fin (- r)"
proof -
  obtain ds n where t: "positive_text r = lay_out ds n" "digits ds" "ds \<noteq> []"
    and val: "fl (of_nat (from_base 10 ds) * 10 powi (n - int (length ds))) = Fin r"
    by (rule positive_text_parts [OF assms])
  let ?t = "positive_text r"
  have chars: "list_all (\<lambda>c. is_digit c \<or> c \<in> {CHR ''.'', CHR ''e'', CHR ''-'', CHR ''+''}) ?t" using lay_out_chars [OF t(2)] t(1) by simp
  have space: "\<not> is_space c" if "c \<in> set ?t" for c
    using that chars digit_special [of c] by (auto simp: list_all_iff is_space_def)
  have trim: "trim ?t = ?t" "trim (CHR ''-'' # ?t) = CHR ''-'' # ?t"
    by (intro trim_no_space; use space in \<open>simp add: list_all_iff; simp add: is_space_def\<close>)+
  have no_letter: "c \<notin> set ?t" if "c \<in> {CHR ''x'', CHR ''X'', CHR ''o'', CHR ''O'', CHR ''b'', CHR ''B'', CHR ''I''}" for c
    using that chars by (auto simp: list_all_iff is_digit_def)
  have start: "\<not> startsWith [a, c] ?t" if "c \<in> {CHR ''x'', CHR ''X'', CHR ''o'', CHR ''O'', CHR ''b'', CHR ''B''}" for a c
  proof
    assume "startsWith [a, c] ?t"
    then have "c \<in> set ?t" by (cases ?t; cases "tl ?t") auto
    then show False using no_letter that by blast
  qed
  have hd: "?t \<noteq> []" "is_digit (hd ?t)" using lay_out_hd [OF t(2,3)] t(1) by simp_all
  have inf: "?t \<noteq> ''Infinity''" using no_letter [of "CHR ''I''"] by auto
  show "Number_of ?t = Fin r" using trim hd signed_digit [OF hd] start inf parse_lay_out [OF t(2,3), of n] t(1) val
    by (simp add: Number_of_def Let_def)
  have "signed (CHR ''-'' # ?t) = (True, ?t)" by (simp add: signed_def)
  then show "Number_of (''-'' @ ?t) = Fin (- r)" using trim(2) inf parse_lay_out [OF t(2,3), of n] t(1) fl_minus [OF val]
    by (simp add: Number_of_def Let_def)
qed

lemma Number_of_double:
  assumes "is_double x"
  shows "Number_of (String_of_number x) = x" and "trim (String_of_number x) \<noteq> []"
proof -
  have number: "Number_of (String_of_number x) = x"
  proof (cases x)
    case (Fin r)
    consider "r = 0" | "0 < r" | "r < 0" by linarith
    then show ?thesis
    proof cases
      case 1
      then show ?thesis by (simp add: Fin) code_simp
    next
      case 2
      then show ?thesis using positive_text_reads(1) [of r] assms by (simp add: Fin is_double_def)
    next
      case 3
      then show ?thesis using positive_text_reads(2) [of "- r"] fl_minus [of r r] assms by (simp add: Fin is_double_def)
    qed
  qed (simp; code_simp)+
  then show "Number_of (String_of_number x) = x" .
  have "trim (String_of_number (Fin 0)) \<noteq> []" by code_simp
  then show "trim (String_of_number x) \<noteq> []" using number by (auto simp: Number_of_def Let_def)
qed

end
