(* ===== verification/Forms.thy ===== *)
theory Forms
  imports Numerals Categories_Service Groups_Service Budgets_Service Recurring_Service
begin

text \<open>
  What the forms and screens of \<open>features/\<close> share: the values they get from their surroundings, the text
  of an error, amounts for display (\<open>formatMoney\<close> of \<open>core/util/money.ts\<close>), and the shape of a form's
  save. A component is a record of its signals; the table contents its computed values read are those
  of the database it is given. A setter, an effect and a save are functions of record and database; an
  exception out of a setter leaves what it had set.
\<close>

text \<open>\<open>toIsoDate()\<close>, \<open>crypto.randomUUID()\<close> and the message of an error of the runtime.\<close>

record surroundings =
  today :: string
  fresh_id :: string
  runtime_message :: "error \<Rightarrow> string"

definition message_of :: "surroundings \<Rightarrow> error \<Rightarrow> string" where
  "message_of S err =
     (case err of
        Error m \<Rightarrow> m
      | DecryptionError m \<Rightarrow> m
      | EnvelopeFormatError m \<Rightarrow> m
      | BackupFormatError m \<Rightarrow> m
      | SyncTransportError m _ \<Rightarrow> m
      | VaultLockedError \<Rightarrow> ''The vault is locked''
      | NoSyncTargetError \<Rightarrow> ''No sync destination is configured''
      | _ \<Rightarrow> runtime_message S err)"

text \<open>\<open>id ?? ''\<close>\<close>

definition or_empty :: "string option \<Rightarrow> string" where
  "or_empty i = (case i of None \<Rightarrow> [] | Some s \<Rightarrow> s)"

text \<open>\<open>Intl.NumberFormat\<close> is a parameter: the currency, the digits of the fraction and the value, or
  nothing when it throws. A converted amount may be infinite, and \<open>formatAmount\<close> prints it like any number.\<close>

type_synonym intl = "string \<Rightarrow> nat \<Rightarrow> number \<Rightarrow> string option"

definition formatAmount_number :: "number \<Rightarrow> string \<Rightarrow> string" where
  "formatAmount_number amount currency =
     (let exponent = minorUnitExponent currency; negative = num_less amount (Fin 0);
          digits = padStart (exponent + 1) CHR ''0'' (String_of_number (if negative then num_neg amount else amount));
          whole = slice 0 (length digits - exponent) digits;
          whole = (if whole = [] then ''0'' else whole);
          fraction = (if exponent \<noteq> 0 then ''.'' @ drop (length digits - exponent) digits else [])
      in (if negative then ''-'' else []) @ whole @ fraction)"

definition formatMoney :: "intl \<Rightarrow> number \<Rightarrow> string \<Rightarrow> string" where
  "formatMoney intl amount currency =
     (let exponent = minorUnitExponent currency
      in case intl currency exponent (num_div amount (10 ^ exponent)) of
           Some text \<Rightarrow> text
         | None \<Rightarrow> formatAmount_number amount currency @ '' '' @ currency)"

definition money_pipe :: "intl \<Rightarrow> number option \<Rightarrow> string \<Rightarrow> string" where
  "money_pipe intl amount currency = formatMoney intl (with_default (Fin 0) amount) currency"

text \<open>The characters of the texts that are beyond Latin-1, and dates as \<open>toLocaleDateString\<close> writes them: with a weekday
  and the year, with a weekday, as a day and a month, or as a month and a year.\<close>

record typography =
  en_dash :: string
  em_dash :: string
  right_arrow :: string
  chevron :: string
  minus_sign :: string
  ellipsis :: string

datatype date_style = WeekdayAndYear | Weekday | DayAndMonth | MonthAndYear

type_synonym date_text = "date_style \<Rightarrow> string \<Rightarrow> string"

definition day_pipe :: "date_text \<Rightarrow> string \<Rightarrow> string \<Rightarrow> string \<Rightarrow> string" where
  "day_pipe date_text thisDay yesterday date =
     (if date = thisDay then ''Today'' else if date = yesterday then ''Yesterday''
      else date_text (if slice 0 4 date = slice 0 4 thisDay then Weekday else WeekdayAndYear) date)"

text \<open>A number in a text.\<close>

definition count_text :: "nat \<Rightarrow> string" where
  "count_text n = String_of_int (Some (int n))"

text \<open>A question put to the user: its header and its message. The operation behind its button is run when it is
  pressed; Cancel does nothing.\<close>

record question =
  q_header :: string
  q_message :: string

text \<open>A page with a list and a sheet over it.\<close>

record 'a sheet =
  sh_open :: bool
  sh_editing :: "'a option"

definition sheet_create :: "'a sheet \<Rightarrow> 'a sheet" where
  "sheet_create s = s\<lparr>sh_editing := None, sh_open := True\<rparr>"

definition sheet_edit :: "'a \<Rightarrow> 'a sheet \<Rightarrow> 'a sheet" where
  "sheet_edit x s = s\<lparr>sh_editing := Some x, sh_open := True\<rparr>"

definition sheet_close :: "'a sheet \<Rightarrow> 'a sheet" where
  "sheet_close s = s\<lparr>sh_open := False, sh_editing := None\<rparr>"

text \<open>An operation after which the sheet is closed, unless it throws.\<close>

definition then_close :: "(ledger, unit) call \<Rightarrow> 'a sheet \<Rightarrow> (ledger, 'a sheet) call" where
  "then_close m s = andThen m (\<lambda>_. return (sheet_close s))"

lemma then_close_state: "then_close m s l = (r, l') \<Longrightarrow> \<exists>q. m l = (q, l')"
  by (auto simp: then_close_def andThen_def return_def split: prod.splits sum.splits)

text \<open>A save: what the form is afterwards and what it emitted.\<close>

type_synonym 'f form_save = "(ledger, 'f \<times> AnyEntity option) call"

definition report :: "('f \<Rightarrow> string \<Rightarrow> 'f) \<Rightarrow> surroundings \<Rightarrow> 'f \<Rightarrow> (ledger, AnyEntity) call \<Rightarrow> 'f form_save" where
  "report set_error S f m l =
     (case m l of
        (Inl err, l') \<Rightarrow> (Inr (set_error f (message_of S err), None), l')
      | (Inr saved, l') \<Rightarrow> (Inr (f, Some saved), l'))"

lemma report_state: "report set_error S f m l = (r, l') \<Longrightarrow> \<exists>q. m l = (q, l')"
  by (auto simp: report_def split: prod.splits sum.splits)

text \<open>The clock from the second reading on.\<close>

definition later :: "(nat \<Rightarrow> nat) \<Rightarrow> nat \<Rightarrow> nat" where
  "later now j = now (Suc j)"

lemma plausible_later: "\<forall>j. plausible (now j) \<Longrightarrow> \<forall>j. plausible (later now j)"
  by (simp add: later_def)

section \<open>A ledger for the witnesses\<close>

definition form_account :: Account where
  "form_account = (plain_account ''x'' 1050)\<lparr>acc_currency := ''EUR'', acc_groupId := Some ''g'', acc_creditLimit := Some 50000,
     acc_statementDay := Some 5, acc_dueDay := Some 20, acc_excludedFromTotals := Some True, acc_colour := ''#3880ff'',
     acc_icon := ''business-outline''\<rparr>"

definition form_txn :: Transaction where
  "form_txn = sample_txn\<lparr>txn_accountId := ''x'', txn_rate := Some (Fin 2), txn_rateDate := Some ''2024-03-01''\<rparr>"

definition form_budget :: Budget where
  "form_budget = \<lparr>bud_id = ''b'', bud_name = ''Food'', bud_categoryIds = [''food''], bud_period = Monthly, bud_amount = 30000,
     bud_currency = ''EUR'', bud_startDate = ''2024-01-15'', bud_rollover = True, bud_archived = False, bud_createdAt = 0, bud_updatedAt = []\<rparr>"

definition form_rule :: RecurringRule where
  "form_rule = \<lparr>rule_id = ''r'', rule_name = ''Rent'', rule_kind = Expense, rule_amount = 90000, rule_currency = ''EUR'',
     rule_accountId = ''x'', rule_counterAccountId = None, rule_categoryId = None, rule_payee = ''Landlord'', rule_note = ''flat'',
     rule_tags = [''home''], rule_interval = 1, rule_unit = Month, rule_startDate = ''2024-01-31'', rule_endDate = Some ''2024-12-31'',
     rule_maxOccurrences = None, rule_skipped = [''2024-02-29''], rule_archived = False, rule_createdAt = 0, rule_updatedAt = []\<rparr>"

definition form_category :: Category where
  "form_category = \<lparr>cat_id = ''food'', cat_name = ''Food'', cat_kind = ExpenseCategory, cat_parentId = None, cat_colour = Some ''#111111'',
     cat_icon = Some ''basket'', cat_archived = False, cat_createdAt = 0, cat_updatedAt = []\<rparr>"

definition form_group :: AccountGroup where
  "form_group = \<lparr>grp_id = ''g'', grp_name = ''Cards'', grp_type = CreditCard, grp_order = 3, grp_colour = ''#3880ff'', grp_icon = ''card-outline'',
     grp_archived = False, grp_createdAt = 0, grp_updatedAt = []\<rparr>"

definition form_rows :: "AnyEntity list" where
  "form_rows = [AccountRow form_account, AccountGroupRow form_group, CategoryRow form_category, TransactionRow form_txn,
     BudgetRow form_budget, RecurringRuleRow form_rule]"

lemmas form_row_defs = form_rows_def form_account_def form_txn_def form_budget_def form_rule_def form_category_def form_group_def
  plain_account_def sample_txn_def

definition form_ledger :: ledger where
  "form_ledger = snd (put_all (timed (\<lambda>_. 1000) 0 form_rows) (new_ledger ''a''))"

lemma form_ledger_put:
  "put_all (timed (\<lambda>_. 1000) 0 form_rows) (new_ledger ''a'') = (Inr (), form_ledger)"
  "distinct (map (\<lambda>v. (entity_of v, entity_id v)) form_rows)" "\<forall>j::nat. plausible 1000" "ledger_ok {} ''a'' (new_ledger ''a'')"
proof -
  have "fst (put_all (timed (\<lambda>_. 1000) 0 form_rows) (new_ledger ''a'')) = Inr ()" by code_simp
  then show "put_all (timed (\<lambda>_. 1000) 0 form_rows) (new_ledger ''a'') = (Inr (), form_ledger)"
    by (simp add: form_ledger_def prod_eq_iff)
  show "distinct (map (\<lambda>v. (entity_of v, entity_id v)) form_rows)" by (simp add: form_rows_def)
  show "\<forall>j::nat. plausible 1000" using plausible_small by simp
  show "ledger_ok {} ''a'' (new_ledger ''a'')" using sample_devices by (simp add: new_ledger_ok)
qed

lemma form_ledger_ok: obtains W where "ledger_ok W ''a'' form_ledger"
  using put_timed_effect(1) [OF form_ledger_put(4,3,1,2)] by blast

lemma form_ledger_row: "v \<in> set form_rows \<Longrightarrow> \<exists>s. tget (tables (led_db form_ledger) (entity_of v)) (entity_id v) = Some (with_updatedAt s v)"
  by (rule put_timed_effect(2) [OF form_ledger_put(4,3,1,2)])

lemma form_ledger_rows_valid: "rows_valid form_ledger"
proof -
  have "transaction_assertValid form_txn = Inr ()" "budget_assertValid form_budget = Inr ()" "rule_assertValid form_rule = Inr ()"
    by code_simp+
  then have valid: "list_all entity_valid form_rows" by (simp add: form_rows_def)
  have "entity_valid v" if v: "tget (tables (led_db form_ledger) e) i = Some v" for e i v
  proof (cases "(e, i) \<in> (\<lambda>v. (entity_of v, entity_id v)) ` set form_rows")
    case True
    then obtain w where w: "w \<in> set form_rows" "e = entity_of w" "i = entity_id w" by auto
    then show ?thesis using form_ledger_row [OF w(1)] v valid by (auto simp: list_all_iff)
  next
    case False
    then have "tget (tables (led_db (new_ledger ''a'')) e) i = Some v"
      using v put_timed_effect(3) [OF form_ledger_put(4,3,1,2)] by metis
    then show ?thesis using new_ledger_rows_valid [of "''a''"] by (auto simp: rows_valid_def)
  qed
  then show ?thesis by (auto simp: rows_valid_def)
qed

definition form_surroundings :: surroundings where
  "form_surroundings = \<lparr>today = ''2024-03-10'', fresh_id = ''new'', runtime_message = (\<lambda>_. [])\<rparr>"

end
