(* ===== verification/Transaction_Editor.thy ===== *)
theory Transaction_Editor
  imports Forms Transactions_Service
begin

text \<open>
  The sheet a transaction is entered in (\<open>features/transactions/transaction-editor.component.ts\<close>): its
  fields, what it is filled with when it opens, what a change of the accounts in the background and
  each edit do to it, and what a save stores. The theorems show that an untouched transaction is saved
  as it was, and that what the user has entered is never overwritten from the background.
\<close>

section \<open>The form\<close>

record transaction_form =
  tf_existing :: "Transaction option"
  tf_kind :: TransactionKind
  tf_amount :: string
  tf_accountId :: "string option"
  tf_counterAccountId :: "string option"
  tf_categoryId :: "string option"
  tf_pickerOpen :: bool
  tf_payee :: string
  tf_note :: string
  tf_date :: string
  tf_cleared :: bool
  tf_rate :: string
  tf_error :: "string option"

definition new_transaction_form :: "surroundings \<Rightarrow> transaction_form" where
  "new_transaction_form S =
     \<lparr>tf_existing = None, tf_kind = Expense, tf_amount = [], tf_accountId = None, tf_counterAccountId = None, tf_categoryId = None,
      tf_pickerOpen = False, tf_payee = [], tf_note = [], tf_date = today S, tf_cleared = True, tf_rate = [], tf_error = None\<rparr>"

section \<open>Computed values\<close>

definition tf_categoryLabel :: "string \<Rightarrow> docket_db \<Rightarrow> transaction_form \<Rightarrow> string" where
  "tf_categoryLabel arrow d f =
     (let path = pathOf arrow (all_categories d) (tf_categoryId f) in if path = [] then ''Choose a category'' else path)"

definition tf_currency :: "docket_db \<Rightarrow> transaction_form \<Rightarrow> string" where
  "tf_currency d f =
     (case account_byId d (or_empty (tf_accountId f)) of Some account \<Rightarrow> acc_currency account | None \<Rightarrow> reportingCurrency d)"

definition needsRate :: "docket_db \<Rightarrow> transaction_form \<Rightarrow> bool" where
  "needsRate d f \<longleftrightarrow> toUpperCase (tf_currency d f) \<noteq> toUpperCase (reportingCurrency d)"

definition tf_converted :: "intl \<Rightarrow> docket_db \<Rightarrow> transaction_form \<Rightarrow> string option" where
  "tf_converted intl d f =
     (let val = Number_of (tf_rate f); amount = parseFloat (replace_first CHR '','' ''.'' (tf_amount f))
      in if \<not> isFinite val \<or> num_le val (Fin 0) \<or> \<not> isFinite amount then None
         else case parseAmount (tf_amount f) (tf_currency d f) of
                Inl _ \<Rightarrow> None
              | Inr m \<Rightarrow>
                  (case convert (minor m) val (tf_currency d f) (reportingCurrency d) of
                     Inr converted \<Rightarrow> Some (formatMoney intl converted (reportingCurrency d))
                   | Inl _ \<Rightarrow> None))"

definition tf_categoryOptions :: "docket_db \<Rightarrow> transaction_form \<Rightarrow> Category list" where
  "tf_categoryOptions d f = forKind d (if tf_kind f = Income then IncomeCategory else ExpenseCategory)"

definition tf_canSave :: "transaction_form \<Rightarrow> bool" where
  "tf_canSave f \<longleftrightarrow> trim (tf_amount f) \<noteq> [] \<and> tf_accountId f \<noteq> None"

section \<open>Filling the form\<close>

text \<open>The rate offered for the currency and the date. Looking it up may throw.\<close>

definition suggestRate :: "docket_db \<Rightarrow> (transaction_form, unit) call" where
  "suggestRate d f =
     (if \<not> needsRate d f \<or> trim (tf_rate f) \<noteq> [] then (Inr (), f)
      else case rateToReporting d (tf_currency d f) (tf_date f) of
             Inl err \<Rightarrow> (Inl err, f)
           | Inr None \<Rightarrow> (Inr (), f)
           | Inr (Some suggestion) \<Rightarrow> (Inr (), f\<lparr>tf_rate := String_of_number suggestion\<rparr>))"

definition first_active :: "docket_db \<Rightarrow> string option" where
  "first_active d = (case active_accounts d of [] \<Rightarrow> None | account # _ \<Rightarrow> Some (acc_id account))"

definition load_transaction :: "surroundings \<Rightarrow> docket_db \<Rightarrow> Transaction option \<Rightarrow> (transaction_form, unit) call" where
  "load_transaction S d txn f =
     (let f = (case txn of
                 Some t \<Rightarrow>
                   f\<lparr>tf_existing := txn, tf_kind := txn_kind t, tf_amount := formatAmount (txn_amount t) (txn_currency t),
                     tf_accountId := Some (txn_accountId t), tf_counterAccountId := txn_counterAccountId t,
                     tf_categoryId := txn_categoryId t, tf_payee := txn_payee t, tf_note := txn_note t, tf_date := txn_date t,
                     tf_cleared := txn_cleared t, tf_rate := (case txn_rate t of Some r \<Rightarrow> String_of_number r | None \<Rightarrow> [])\<rparr>
               | None \<Rightarrow>
                   f\<lparr>tf_existing := None, tf_kind := Expense, tf_amount := [], tf_accountId := first_active d,
                     tf_counterAccountId := None, tf_categoryId := None, tf_payee := [], tf_note := [], tf_date := today S,
                     tf_cleared := True, tf_rate := []\<rparr>)
      in suggestRate d (f\<lparr>tf_error := None\<rparr>))"

text \<open>The second effect: the accounts have changed.\<close>

definition default_account :: "docket_db \<Rightarrow> (transaction_form, unit) call" where
  "default_account d f =
     (if tf_existing f \<noteq> None \<or> tf_accountId f \<noteq> None \<or> first_active d = None then (Inr (), f)
      else suggestRate d (f\<lparr>tf_accountId := first_active d\<rparr>))"

section \<open>Edits\<close>

definition tf_setKind :: "TransactionKind \<Rightarrow> transaction_form \<Rightarrow> transaction_form" where
  "tf_setKind kind f = f\<lparr>tf_kind := kind, tf_categoryId := None\<rparr>"

definition tf_setAccount :: "docket_db \<Rightarrow> string \<Rightarrow> (transaction_form, unit) call" where
  "tf_setAccount d i f = suggestRate d (f\<lparr>tf_accountId := Some i\<rparr>)"

definition tf_setDate :: "docket_db \<Rightarrow> string \<Rightarrow> (transaction_form, unit) call" where
  "tf_setDate d date f = suggestRate d (f\<lparr>tf_date := date\<rparr>)"

datatype transaction_edit =
    SetKind TransactionKind | TypeAmount string | ChooseAccount string | ChooseCounter string | PickCategory "string option"
  | ShowPicker bool | TypePayee string | PickDate string | TypeNote string | SetCleared bool | TypeRate string | AccountsChanged

text \<open>What the controls of the template are bound to, and the background.\<close>

fun edit_transaction :: "docket_db \<Rightarrow> transaction_edit \<Rightarrow> (transaction_form, unit) call" where
  "edit_transaction d (SetKind k) f = (Inr (), tf_setKind k f)"
| "edit_transaction d (TypeAmount s) f = (Inr (), f\<lparr>tf_amount := s\<rparr>)"
| "edit_transaction d (ChooseAccount i) f = tf_setAccount d i f"
| "edit_transaction d (ChooseCounter i) f = (Inr (), f\<lparr>tf_counterAccountId := Some i\<rparr>)"
| "edit_transaction d (PickCategory c) f = (Inr (), f\<lparr>tf_categoryId := c\<rparr>)"
| "edit_transaction d (ShowPicker b) f = (Inr (), f\<lparr>tf_pickerOpen := b\<rparr>)"
| "edit_transaction d (TypePayee s) f = (Inr (), f\<lparr>tf_payee := s\<rparr>)"
| "edit_transaction d (PickDate s) f = tf_setDate d s f"
| "edit_transaction d (TypeNote s) f = (Inr (), f\<lparr>tf_note := s\<rparr>)"
| "edit_transaction d (SetCleared b) f = (Inr (), f\<lparr>tf_cleared := b\<rparr>)"
| "edit_transaction d (TypeRate s) f = (Inr (), f\<lparr>tf_rate := s\<rparr>)"
| "edit_transaction d AccountsChanged f = default_account d f"

text \<open>Edits, each with the database it meets; an exception ends the handler it happens in and no more.\<close>

definition edits :: "(docket_db \<times> transaction_edit) list \<Rightarrow> transaction_form \<Rightarrow> transaction_form" where
  "edits es f = foldl (\<lambda>f (d, e). snd (edit_transaction d e f)) f es"

section \<open>Saving\<close>

definition form_transaction :: "surroundings \<Rightarrow> docket_db \<Rightarrow> int \<Rightarrow> Account \<Rightarrow> Minor \<Rightarrow> transaction_form \<Rightarrow> TransactionDraft" where
  "form_transaction S d now account amount f =
     (let rated = needsRate d f \<and> num_less (Fin 0) (Number_of (tf_rate f))
      in \<lparr>td_id = (case tf_existing f of Some t \<Rightarrow> txn_id t | None \<Rightarrow> fresh_id S), td_kind = tf_kind f, td_amount = amount,
          td_currency = acc_currency account, td_accountId = acc_id account, td_date = tf_date f, td_payee = trim (tf_payee f),
          td_counterAccountId = (if tf_kind f = Transfer then tf_counterAccountId f else None),
          td_categoryId = (if tf_kind f = Transfer then None else tf_categoryId f), td_note = Some (trim (tf_note f)),
          td_tags = Some (case tf_existing f of Some t \<Rightarrow> txn_tags t | None \<Rightarrow> []), td_cleared = Some (tf_cleared f),
          td_rate = (if rated then Some (Number_of (tf_rate f)) else None), td_rateDate = (if rated then Some (tf_date f) else None),
          td_createdAt = Some (case tf_existing f of Some t \<Rightarrow> txn_createdAt t | None \<Rightarrow> now)\<rparr>)"

definition tf_fail :: "transaction_form \<Rightarrow> string \<Rightarrow> transaction_form" where
  "tf_fail f message = f\<lparr>tf_error := Some message\<rparr>"

definition transaction_form_save :: "(nat \<Rightarrow> nat) \<Rightarrow> surroundings \<times> transaction_form \<Rightarrow> transaction_form form_save" where
  "transaction_form_save now arg l =
     (case arg of (S, f) \<Rightarrow>
        let f = f\<lparr>tf_error := None\<rparr>; d = led_db l
        in case account_byId d (or_empty (tf_accountId f)) of
             None \<Rightarrow> (Inr (tf_fail f ''Choose an account first'', None), l)
           | Some account \<Rightarrow>
               report tf_fail S f
                 (\<lambda>l. case parseAmount (tf_amount f) (acc_currency account) of
                        Inl err \<Rightarrow> (Inl err, l)
                      | Inr amount \<Rightarrow> transactions_save (later now) (form_transaction S d (int (now 0)) account amount f) l) l)"

text \<open>Deleting: what is emitted, if anything.\<close>

definition transaction_form_remove :: "(nat \<Rightarrow> nat) \<Rightarrow> transaction_form \<Rightarrow> (ledger, string option) call" where
  "transaction_form_remove now f =
     (case tf_existing f of
        None \<Rightarrow> return None
      | Some t \<Rightarrow> andThen (transactions_remove now (txn_id t)) (\<lambda>_. return (Some (txn_id t))))"

definition tf_id :: "surroundings \<times> transaction_form \<Rightarrow> string" where
  "tf_id arg = (case tf_existing (snd arg) of Some t \<Rightarrow> txn_id t | None \<Rightarrow> fresh_id (fst arg))"

section \<open>A save only writes a valid row\<close>

interpretation save_transaction_form: service transaction_form_save "\<lambda>arg. {(Transactions, tf_id arg)}"
proof (unfold_locales, goal_cases)
  case (1 now W dev l arg r l')
  obtain S f where arg: "arg = (S, f)" by fastforce
  let ?f = "f\<lparr>tf_error := None\<rparr>"
  show ?case
  proof (cases "account_byId (led_db l) (or_empty (tf_accountId ?f))")
    case None
    then show ?thesis using 1(4) by (auto simp: arg transaction_form_save_def Let_def)
  next
    case (Some account)
    then have "\<exists>q. (case parseAmount (tf_amount ?f) (acc_currency account) of Inl err \<Rightarrow> (Inl err, l)
        | Inr amount \<Rightarrow> transactions_save (later now) (form_transaction S (led_db l) (int (now 0)) account amount ?f) l) = (q, l')"
      using 1(4) by (intro report_state [of tf_fail S ?f]) (simp add: arg transaction_form_save_def Let_def)
    moreover have "td_id (form_transaction S (led_db l) n account amount ?f) = tf_id arg" for n amount
      by (simp add: form_transaction_def Let_def tf_id_def arg split: option.split)
    ultimately show ?thesis
      using save_transaction.only_writes [OF plausible_later [OF 1(1)] 1(2,3)]
      by (fastforce split: sum.splits)
  qed
qed

interpretation remove_transaction_form: service transaction_form_remove
  "\<lambda>f. case tf_existing f of None \<Rightarrow> {} | Some t \<Rightarrow> {(Transactions, txn_id t)}"
proof (unfold_locales, goal_cases)
  case (1 now W dev l f r l')
  show ?case
  proof (cases "tf_existing f")
    case None
    then show ?thesis using 1(4) by (auto simp: transaction_form_remove_def return_def)
  next
    case (Some t)
    then have "\<exists>q. transactions_remove now (txn_id t) l = (q, l')"
      using 1(4) by (auto simp: transaction_form_remove_def andThen_def return_def split: prod.splits sum.splits)
    then show ?thesis using remove_transaction.only_writes [OF 1(1-3)] Some by auto
  qed
qed

section \<open>What is entered stays\<close>

text \<open>The last value the edits give a field, where \<open>g\<close> says what an edit gives it.\<close>

definition entered :: "(transaction_edit \<Rightarrow> 'a option) \<Rightarrow> (docket_db \<times> transaction_edit) list \<Rightarrow> 'a option" where
  "entered g es = foldl (\<lambda>v (d, e). case g e of Some x \<Rightarrow> Some x | None \<Rightarrow> v) None es"

definition amount_of :: "transaction_edit \<Rightarrow> string option" where
  "amount_of e = (case e of TypeAmount s \<Rightarrow> Some s | _ \<Rightarrow> None)"

definition payee_of :: "transaction_edit \<Rightarrow> string option" where
  "payee_of e = (case e of TypePayee s \<Rightarrow> Some s | _ \<Rightarrow> None)"

definition note_of :: "transaction_edit \<Rightarrow> string option" where
  "note_of e = (case e of TypeNote s \<Rightarrow> Some s | _ \<Rightarrow> None)"

definition date_of :: "transaction_edit \<Rightarrow> string option" where
  "date_of e = (case e of PickDate s \<Rightarrow> Some s | _ \<Rightarrow> None)"

definition kind_of :: "transaction_edit \<Rightarrow> TransactionKind option" where
  "kind_of e = (case e of SetKind k \<Rightarrow> Some k | _ \<Rightarrow> None)"

definition category_of :: "transaction_edit \<Rightarrow> string option option" where
  "category_of e = (case e of PickCategory c \<Rightarrow> Some c | SetKind _ \<Rightarrow> Some None | _ \<Rightarrow> None)"

definition account_chosen :: "transaction_edit \<Rightarrow> string option" where
  "account_chosen e = (case e of ChooseAccount i \<Rightarrow> Some i | _ \<Rightarrow> None)"

definition counter_of :: "transaction_edit \<Rightarrow> string option option" where
  "counter_of e = (case e of ChooseCounter i \<Rightarrow> Some (Some i) | _ \<Rightarrow> None)"

definition cleared_of :: "transaction_edit \<Rightarrow> bool option" where
  "cleared_of e = (case e of SetCleared b \<Rightarrow> Some b | _ \<Rightarrow> None)"

definition rate_of :: "transaction_edit \<Rightarrow> string option" where
  "rate_of e = (case e of TypeRate s \<Rightarrow> Some s | _ \<Rightarrow> None)"

lemmas given_defs = amount_of_def payee_of_def note_of_def date_of_def kind_of_def category_of_def account_chosen_def rate_of_def
  counter_of_def cleared_of_def

lemma edits_snoc [simp]: "edits [] f = f" "edits (es @ [p]) f = snd (edit_transaction (fst p) (snd p) (edits es f))"
  by (simp_all add: edits_def case_prod_beta)

lemma entered_snoc [simp]: "entered g [] = None" "entered g (es @ [p]) = (case g (snd p) of Some x \<Rightarrow> Some x | None \<Rightarrow> entered g es)"
  unfolding entered_def by (simp_all split: prod.split option.split)

text \<open>A suggestion touches the rate alone, and only a blank one.\<close>

lemma keep_rate: "\<exists>x. f = f\<lparr>tf_rate := x\<rparr> \<and> (trim (tf_rate f) \<noteq> [] \<longrightarrow> x = tf_rate f)"
  by (rule exI [of _ "tf_rate f"]) simp

lemma suggestRate_rate: "\<exists>x. snd (suggestRate d f) = f\<lparr>tf_rate := x\<rparr> \<and> (trim (tf_rate f) \<noteq> [] \<longrightarrow> x = tf_rate f)"
proof (cases "needsRate d f \<and> trim (tf_rate f) = [] \<and> (\<exists>x. rateToReporting d (tf_currency d f) (tf_date f) = Inr (Some x))")
  case True
  then show ?thesis by (auto simp: suggestRate_def)
next
  case False
  then have "snd (suggestRate d f) = f" by (auto simp: suggestRate_def split: sum.split option.split)
  then show ?thesis using keep_rate [of f] by simp
qed

fun plain_edit :: "docket_db \<Rightarrow> transaction_edit \<Rightarrow> transaction_form \<Rightarrow> transaction_form" where
  "plain_edit d (ChooseAccount i) f = f\<lparr>tf_accountId := Some i\<rparr>"
| "plain_edit d (PickDate s) f = f\<lparr>tf_date := s\<rparr>"
| "plain_edit d AccountsChanged f =
     (if tf_existing f = None \<and> tf_accountId f = None then f\<lparr>tf_accountId := first_active d\<rparr> else f)"
| "plain_edit d e f = snd (edit_transaction d e f)"

lemma edit_plain:
  "\<exists>x. snd (edit_transaction d e f) = (plain_edit d e f)\<lparr>tf_rate := x\<rparr> \<and> (trim (tf_rate (plain_edit d e f)) \<noteq> [] \<longrightarrow> x = tf_rate (plain_edit d e f))"
proof (cases e)
  case (ChooseAccount i)
  then show ?thesis using suggestRate_rate [of d "f\<lparr>tf_accountId := Some i\<rparr>"] by (simp add: tf_setAccount_def)
next
  case (PickDate s)
  then show ?thesis using suggestRate_rate [of d "f\<lparr>tf_date := s\<rparr>"] by (simp add: tf_setDate_def)
next
  case AccountsChanged
  show ?thesis
  proof (cases "tf_existing f = None \<and> tf_accountId f = None \<and> first_active d \<noteq> None")
    case True
    then obtain y where "first_active d = Some y" by auto
    then show ?thesis using True AccountsChanged suggestRate_rate [of d "f\<lparr>tf_accountId := first_active d\<rparr>"]
      by (simp add: default_account_def)
  next
    case False
    then have "plain_edit d e f = f" by (auto simp: AccountsChanged)
    moreover have "snd (edit_transaction d e f) = f" using False by (auto simp: AccountsChanged default_account_def)
    ultimately show ?thesis using keep_rate [of f] by simp
  qed
qed (use keep_rate [of "plain_edit d e f"] in simp)+

lemma edit_fields:
  fixes d e f
  defines "f' \<equiv> snd (edit_transaction d e f)"
  shows "tf_existing f' = tf_existing f" "tf_amount f' = with_default (tf_amount f) (amount_of e)"
    "tf_payee f' = with_default (tf_payee f) (payee_of e)" "tf_note f' = with_default (tf_note f) (note_of e)"
    "tf_date f' = with_default (tf_date f) (date_of e)" "tf_kind f' = with_default (tf_kind f) (kind_of e)"
    "tf_categoryId f' = with_default (tf_categoryId f) (category_of e)"
    "tf_counterAccountId f' = with_default (tf_counterAccountId f) (counter_of e)"
    "tf_cleared f' = with_default (tf_cleared f) (cleared_of e)"
    "tf_accountId f' = (case account_chosen e of Some i \<Rightarrow> Some i
       | None \<Rightarrow> if e = AccountsChanged \<and> tf_existing f = None \<and> tf_accountId f = None then first_active d else tf_accountId f)"
    "trim (with_default (tf_rate f) (rate_of e)) \<noteq> [] \<Longrightarrow> tf_rate f' = with_default (tf_rate f) (rate_of e)"
proof -
  obtain x where x: "f' = (plain_edit d e f)\<lparr>tf_rate := x\<rparr>" "trim (tf_rate (plain_edit d e f)) \<noteq> [] \<longrightarrow> x = tf_rate (plain_edit d e f)"
    using edit_plain [of d e f] unfolding f'_def by blast
  have rate: "tf_rate (plain_edit d e f) = with_default (tf_rate f) (rate_of e)"
    by (cases e) (simp_all add: rate_of_def with_default_def tf_setKind_def)
  show "trim (with_default (tf_rate f) (rate_of e)) \<noteq> [] \<Longrightarrow> tf_rate f' = with_default (tf_rate f) (rate_of e)"
    using x rate by simp
  show "tf_existing f' = tf_existing f" "tf_amount f' = with_default (tf_amount f) (amount_of e)"
    "tf_payee f' = with_default (tf_payee f) (payee_of e)" "tf_note f' = with_default (tf_note f) (note_of e)"
    "tf_date f' = with_default (tf_date f) (date_of e)" "tf_kind f' = with_default (tf_kind f) (kind_of e)"
    "tf_categoryId f' = with_default (tf_categoryId f) (category_of e)"
    "tf_counterAccountId f' = with_default (tf_counterAccountId f) (counter_of e)"
    "tf_cleared f' = with_default (tf_cleared f) (cleared_of e)"
    "tf_accountId f' = (case account_chosen e of Some i \<Rightarrow> Some i
       | None \<Rightarrow> if e = AccountsChanged \<and> tf_existing f = None \<and> tf_accountId f = None then first_active d else tf_accountId f)"
    unfolding x(1) by (cases e; simp add: given_defs with_default_def tf_setKind_def)+
qed

text \<open>C33: What the user has entered is never overwritten. However the accounts, the rates and everything else
  change in the background while the sheet is open, each field holds what was entered into it last, and
  what it was filled with where nothing was: amount, payee, note, date, kind, category (which a change of
  the kind clears), the account on the other side and whether it is cleared; the account, once there is
  one; and a rate that is not blank. A change in the background alone leaves a form with an account as it
  is.\<close>

theorem transaction_edits_stay:
  "tf_amount (edits es f) = with_default (tf_amount f) (entered amount_of es) \<and>
   tf_payee (edits es f) = with_default (tf_payee f) (entered payee_of es) \<and>
   tf_note (edits es f) = with_default (tf_note f) (entered note_of es) \<and>
   tf_date (edits es f) = with_default (tf_date f) (entered date_of es) \<and>
   tf_kind (edits es f) = with_default (tf_kind f) (entered kind_of es) \<and>
   tf_categoryId (edits es f) = with_default (tf_categoryId f) (entered category_of es) \<and>
   tf_counterAccountId (edits es f) = with_default (tf_counterAccountId f) (entered counter_of es) \<and>
   tf_cleared (edits es f) = with_default (tf_cleared f) (entered cleared_of es) \<and>
   (entered account_chosen es = Some i \<longrightarrow> tf_accountId (edits es f) = Some i) \<and>
   (tf_accountId f = Some j \<longrightarrow> tf_accountId (edits es f) = Some (with_default j (entered account_chosen es))) \<and>
   (trim (with_default (tf_rate f) (entered rate_of es)) \<noteq> [] \<longrightarrow>
      tf_rate (edits es f) = with_default (tf_rate f) (entered rate_of es)) \<and>
   (list_all (\<lambda>p. snd p = AccountsChanged) es \<longrightarrow> tf_existing f \<noteq> None \<or> tf_accountId f \<noteq> None \<longrightarrow> edits es f = f)"
proof (intro conjI impI)
  show "tf_amount (edits es f) = with_default (tf_amount f) (entered amount_of es)"
    and "tf_payee (edits es f) = with_default (tf_payee f) (entered payee_of es)"
    and "tf_note (edits es f) = with_default (tf_note f) (entered note_of es)"
    and "tf_date (edits es f) = with_default (tf_date f) (entered date_of es)"
    and "tf_kind (edits es f) = with_default (tf_kind f) (entered kind_of es)"
    and "tf_categoryId (edits es f) = with_default (tf_categoryId f) (entered category_of es)"
    and "tf_counterAccountId (edits es f) = with_default (tf_counterAccountId f) (entered counter_of es)"
    and "tf_cleared (edits es f) = with_default (tf_cleared f) (entered cleared_of es)"
    by (induction es rule: rev_induct; simp add: edit_fields; simp add: with_default_def split: option.split)+
  show "entered account_chosen es = Some i \<Longrightarrow> tf_accountId (edits es f) = Some i"
    by (induction es rule: rev_induct) (auto simp: edit_fields(10) split: option.splits)
  show "tf_accountId f = Some j \<Longrightarrow> tf_accountId (edits es f) = Some (with_default j (entered account_chosen es))"
    by (induction es rule: rev_induct) (auto simp: edit_fields(10) with_default_def split: option.splits)
  show "trim (with_default (tf_rate f) (entered rate_of es)) \<noteq> [] \<Longrightarrow>
      tf_rate (edits es f) = with_default (tf_rate f) (entered rate_of es)"
    by (induction es rule: rev_induct) (auto simp: with_default_def edit_fields(11) split: option.splits)
  show "list_all (\<lambda>p. snd p = AccountsChanged) es \<Longrightarrow> tf_existing f \<noteq> None \<or> tf_accountId f \<noteq> None \<Longrightarrow> edits es f = f"
    by (induction es rule: rev_induct) (auto simp: default_account_def)
qed

section \<open>What is not touched stays\<close>

lemma account_byId_id: "account_byId d i = Some a \<Longrightarrow> acc_id a = i"
  by (auto simp: account_byId_def find_Some_iff)

text \<open>The row a save of an opened and untouched transaction stores, stamps apart. In the vault's currency it has
  no rate. In another one it has the rate it had or, where it had none, the one on offer for its date, as
  long as that is positive; and the rate is dated by the transaction.\<close>

definition untouched_rate :: "docket_db \<Rightarrow> Transaction \<Rightarrow> number option" where
  "untouched_rate d t =
     (if toUpperCase (txn_currency t) = toUpperCase (reportingCurrency d) then None
      else case (case txn_rate t of
                   Some r \<Rightarrow> Some r
                 | None \<Rightarrow> (case rateToReporting d (txn_currency t) (txn_date t) of Inr offered \<Rightarrow> offered | Inl _ \<Rightarrow> None)) of
             Some r \<Rightarrow> if num_less (Fin 0) r then Some r else None
           | None \<Rightarrow> None)"

definition saved_untouched :: "docket_db \<Rightarrow> Transaction \<Rightarrow> Transaction" where
  "saved_untouched d t =
     t\<lparr>txn_payee := trim (txn_payee t), txn_note := trim (txn_note t),
       txn_counterAccountId := (if txn_kind t = Transfer then txn_counterAccountId t else None),
       txn_categoryId := (if txn_kind t = Transfer then None else txn_categoryId t),
       txn_rate := untouched_rate d t, txn_rateDate := map_option (\<lambda>_. txn_date t) (untouched_rate d t), txn_updatedAt := []\<rparr>"

text \<open>The numbers of the model are rationals; those the tables hold are doubles.\<close>

definition double_rates :: "docket_db \<Rightarrow> Transaction \<Rightarrow> bool" where
  "double_rates d t \<longleftrightarrow> (case txn_rate t of Some r \<Rightarrow> is_double r | None \<Rightarrow> list_all (\<lambda>r. is_double (rate_rate r)) (all_rates d))"

lemma Number_of_Nil [simp]: "Number_of [] = Fin 0"
  by (simp add: Number_of_def trim_def)

lemma offered_double:
  assumes "list_all (\<lambda>r. is_double (rate_rate r)) (all_rates d)" and "rateToReporting d base date = Inr (Some x)"
  shows "is_double x"
proof -
  have found: "is_double (rate_rate r)" if "lookup d b q date = Some r" for b q r
    using rateFor_member [of "all_rates d" b q date r] that assms(1) by (auto simp: lookup_def list_all_iff)
  have "is_double y" if "invertRate z = Inr y" for y z
    using that fl_double by (auto simp: invertRate_def is_double_def split: number.splits if_splits)
  moreover have "is_double (Fin 1)" using fl_int [of 1] by (simp add: is_double_def)
  moreover have "map_sum id Some q = Inr (Some x) \<longleftrightarrow> q = Inr x" for q :: "number result" by (cases q) auto
  ultimately show ?thesis using assms(2) found by (auto simp: rateToReporting_def Let_def split: option.splits if_splits)
qed

definition shown_rate :: "docket_db \<Rightarrow> Transaction \<Rightarrow> string" where
  "shown_rate d t =
     (case txn_rate t of
        Some r \<Rightarrow> String_of_number r
      | None \<Rightarrow> if toUpperCase (txn_currency t) = toUpperCase (reportingCurrency d) then []
                else case rateToReporting d (txn_currency t) (txn_date t) of Inr (Some x) \<Rightarrow> String_of_number x | _ \<Rightarrow> [])"

lemma load_untouched:
  assumes "account_byId d (txn_accountId t) = Some a" and "acc_currency a = txn_currency t" and "double_rates d t"
  shows "snd (load_transaction S d (Some t) f0) =
    \<lparr>tf_existing = Some t, tf_kind = txn_kind t, tf_amount = formatAmount (txn_amount t) (txn_currency t),
      tf_accountId = Some (txn_accountId t), tf_counterAccountId = txn_counterAccountId t, tf_categoryId = txn_categoryId t,
      tf_pickerOpen = tf_pickerOpen f0, tf_payee = txn_payee t, tf_note = txn_note t, tf_date = txn_date t, tf_cleared = txn_cleared t,
      tf_rate = shown_rate d t, tf_error = None\<rparr>"
proof -
  have cur: "tf_currency d f = txn_currency t" if "tf_accountId f = Some (txn_accountId t)" for f
    using assms(1,2) that by (simp add: tf_currency_def or_empty_def)
  show ?thesis
    using assms(3) Number_of_double(2)
    by (cases f0) (auto simp: load_transaction_def Let_def suggestRate_def needsRate_def cur shown_rate_def double_rates_def trim_def
      split: option.splits sum.splits simp del: String_of_number.simps)
qed

lemma load_keeps:
  "tf_accountId (snd (load_transaction S d (Some t) f0)) = Some (txn_accountId t)"
  "(snd (load_transaction S d (Some t) f0))\<lparr>tf_error := None\<rparr> = snd (load_transaction S d (Some t) f0)"
  by (cases f0; simp add: load_transaction_def Let_def suggestRate_def split: option.split sum.split)+

lemma shown_rate_saved:
  assumes "double_rates d t"
  shows "(if toUpperCase (txn_currency t) \<noteq> toUpperCase (reportingCurrency d) \<and> num_less (Fin 0) (Number_of (shown_rate d t))
      then Some (Number_of (shown_rate d t)) else None) = untouched_rate d t"
proof -
  have "is_double x" if "txn_rate t = None" "rateToReporting d (txn_currency t) (txn_date t) = Inr (Some x)" for x
    using offered_double [OF _ that(2)] assms that(1) by (simp add: double_rates_def)
  then show ?thesis
    using assms Number_of_double(1) unfolding shown_rate_def untouched_rate_def
    by (auto simp: double_rates_def split: option.splits sum.splits simp del: String_of_number.simps)
qed

lemma save_untouched:
  fixes S f0 and t :: Transaction
  assumes "account_byId (led_db l) (txn_accountId t) = Some a" and "acc_currency a = txn_currency t" and "double_rates (led_db l) t"
    and "txn_amount t \<le> int MAX_SAFE_INTEGER" and "transaction_assertValid t = Inr ()"
  defines "f \<equiv> snd (load_transaction S (led_db l) (Some t) f0)"
  shows "transaction_form_save now (S, f) l = report tf_fail S f (put (now 2) Transactions (TransactionRow (saved_untouched (led_db l) t))) l"
proof -
  let ?d = "led_db l"
  have f: "f\<lparr>tf_error := None\<rparr> = f" "tf_accountId f = Some (txn_accountId t)" "tf_amount f = formatAmount (txn_amount t) (txn_currency t)"
    "tf_existing f = Some t" "tf_rate f = shown_rate ?d t"
    unfolding f_def load_untouched [OF assms(1-3)] by simp_all
  have amount: "0 < txn_amount t" using assms(5) by (simp add: transaction_assertValid_def split: if_splits)
  then have parse: "parseAmount (tf_amount f) (acc_currency a) = Inr (txn_amount t)"
    using parse_formatAmount assms(2,4) unfolding f by simp
  have needs: "needsRate ?d f \<longleftrightarrow> toUpperCase (txn_currency t) \<noteq> toUpperCase (reportingCurrency ?d)"
    using assms(1,2) f(2) by (simp add: needsRate_def tf_currency_def or_empty_def)
  note rate = shown_rate_saved [OF assms(3), folded f(5) needs, symmetric]
  have "draft_transaction n (form_transaction S ?d m a (txn_amount t) f) = saved_untouched ?d t" for n m
    using assms(2) account_byId_id [OF assms(1)] amount
    unfolding form_transaction_def Let_def saved_untouched_def rate unfolding f_def load_untouched [OF assms(1-3)]
    by (auto simp: draft_transaction_def with_default_def)
  moreover have "transaction_assertValid (saved_untouched ?d t) = Inr ()"
    using assms(5) by (simp add: transaction_assertValid_def saved_untouched_def split: if_splits)
  ultimately show ?thesis
    using assms(1) parse by (simp add: transaction_form_save_def Let_def f or_empty_def transactions_save_def later_def report_def numeral_2_eq_2)
qed


lemma form_txn_row: obtains s where "get_transaction (led_db form_ledger) ''t1'' = Some (form_txn\<lparr>txn_updatedAt := s\<rparr>)"
  using form_ledger_row [of "TransactionRow form_txn"] that by (auto simp: form_rows_def row_Some form_txn_def sample_txn_def)

lemma form_account_found:
  obtains a where "account_byId (led_db form_ledger) ''x'' = Some a" "acc_currency a = ''EUR''"
proof -
  have "map_option acc_currency (account_byId (led_db form_ledger) ''x'') = Some ''EUR''" by code_simp
  then show thesis using that by auto
qed


lemma transaction_edits_stay_witness:
  "tf_accountId (edits [(led_db form_ledger, ChooseAccount ''y''), (led_db form_ledger, TypeRate ''1.5''), (led_db form_ledger, AccountsChanged)]
     (new_transaction_form form_surroundings)) = Some ''y''"
  using transaction_edits_stay [of "[(led_db form_ledger, ChooseAccount ''y''), (led_db form_ledger, TypeRate ''1.5''), (led_db form_ledger, AccountsChanged)]"
    "new_transaction_form form_surroundings" "''y''"]
  by (simp add: entered_def account_chosen_def del: edit_transaction.simps)

end
