(* ===== verification/Rule_Editor.thy ===== *)
theory Rule_Editor
  imports Transaction_Editor
begin

text \<open>
  The sheet a standing instruction is entered in (\<open>features/recurring/rule-editor.component.ts\<close>): its
  fields, how they are filled, the dates it previews and what a save stores. The theorems show that an
  untouched rule is saved as it was, that the previewed dates are those of the stored rule, and what a
  change of the accounts in the background does to a rule that is being entered.
\<close>

section \<open>The form\<close>

datatype ending = NeverEnds | EndsOn | EndsAfter

record rule_form =
  rf_existing :: "RecurringRule option"
  rf_name :: string
  rf_kind :: TransactionKind
  rf_amount :: string
  rf_accountId :: "string option"
  rf_counterAccountId :: "string option"
  rf_categoryId :: "string option"
  rf_payee :: string
  rf_interval :: int
  rf_unit :: RecurrenceUnit
  rf_startDate :: string
  rf_ending :: ending
  rf_endDate :: string
  rf_maxOccurrences :: int
  rf_error :: "string option"

definition new_rule_form :: "surroundings \<Rightarrow> rule_form" where
  "new_rule_form S =
     \<lparr>rf_existing = None, rf_name = [], rf_kind = Expense, rf_amount = [], rf_accountId = None, rf_counterAccountId = None,
      rf_categoryId = None, rf_payee = [], rf_interval = 1, rf_unit = Month, rf_startDate = today S, rf_ending = NeverEnds,
      rf_endDate = today S, rf_maxOccurrences = 12, rf_error = None\<rparr>"

definition rf_categoryOptions :: "docket_db \<Rightarrow> rule_form \<Rightarrow> Category list" where
  "rf_categoryOptions d f = forKind d (if rf_kind f = Income then IncomeCategory else ExpenseCategory)"

definition rf_canSave :: "rule_form \<Rightarrow> bool" where
  "rf_canSave f \<longleftrightarrow> 0 < length (trim (rf_name f)) \<and> 0 < length (trim (rf_amount f)) \<and> \<not> falsy (rf_accountId f)"

section \<open>The preview\<close>

definition previousDay :: "string \<Rightarrow> string result" where
  "previousDay date = toIsoDate (map_option (\<lambda>n. n - 1) (parse_local date))"

text \<open>The schedule the fields stand for; the preview reads nothing else of a rule.\<close>

definition form_schedule :: "rule_form \<Rightarrow> RecurringRule" where
  "form_schedule f =
     \<lparr>rule_id = [], rule_name = [], rule_kind = rf_kind f, rule_amount = 0, rule_currency = [], rule_accountId = [],
      rule_counterAccountId = None, rule_categoryId = None, rule_payee = [], rule_note = [], rule_tags = [],
      rule_interval = rf_interval f, rule_unit = rf_unit f, rule_startDate = rf_startDate f,
      rule_endDate = (if rf_ending f = EndsOn then Some (rf_endDate f) else None),
      rule_maxOccurrences = (if rf_ending f = EndsAfter then Some (rf_maxOccurrences f) else None),
      rule_skipped = (case rf_existing f of Some rule \<Rightarrow> rule_skipped rule | None \<Rightarrow> []), rule_archived = False,
      rule_createdAt = 0, rule_updatedAt = []\<rparr>"

fun preview_loop :: "RecurringRule \<Rightarrow> nat \<Rightarrow> string \<Rightarrow> string list \<Rightarrow> string list result" where
  "preview_loop schedule 0 cursor dates = Inr dates"
| "preview_loop schedule (Suc i) cursor dates =
     (case nextOccurrence schedule cursor of
        Inl err \<Rightarrow> Inl err
      | Inr None \<Rightarrow> Inr dates
      | Inr (Some next) \<Rightarrow> preview_loop schedule i next (dates @ [next]))"

definition rf_preview :: "rule_form \<Rightarrow> string list result" where
  "rf_preview f =
     (case previousDay (rf_startDate f) of
        Inl err \<Rightarrow> Inl err
      | Inr cursor \<Rightarrow> preview_loop (form_schedule f) 3 cursor [])"

text \<open>The separator is a middle dot between spaces.\<close>

definition rf_previewText :: "rule_form \<Rightarrow> string result" where
  "rf_previewText f = map_sum id (join [CHR '' '', CHR 0xB7, CHR '' '']) (rf_preview f)"

section \<open>Filling the form\<close>

text \<open>The one effect. For a new rule it reads the accounts, and so it runs again whenever they change.\<close>

definition load_rule :: "surroundings \<Rightarrow> docket_db \<Rightarrow> RecurringRule option \<Rightarrow> rule_form \<Rightarrow> rule_form" where
  "load_rule S d r f =
     (let f = (case r of
                 Some rule \<Rightarrow>
                   f\<lparr>rf_existing := r, rf_name := rule_name rule, rf_kind := rule_kind rule,
                     rf_amount := formatAmount (rule_amount rule) (rule_currency rule), rf_accountId := Some (rule_accountId rule),
                     rf_counterAccountId := rule_counterAccountId rule, rf_categoryId := rule_categoryId rule,
                     rf_payee := rule_payee rule, rf_interval := rule_interval rule, rf_unit := rule_unit rule,
                     rf_startDate := rule_startDate rule,
                     rf_ending := (if rule_endDate rule \<noteq> None then EndsOn else if rule_maxOccurrences rule \<noteq> None then EndsAfter else NeverEnds),
                     rf_endDate := with_default (today S) (rule_endDate rule),
                     rf_maxOccurrences := with_default 12 (rule_maxOccurrences rule)\<rparr>
               | None \<Rightarrow>
                   f\<lparr>rf_existing := None, rf_name := [], rf_kind := Expense, rf_amount := [], rf_accountId := first_active d,
                     rf_counterAccountId := None, rf_categoryId := None, rf_payee := [], rf_interval := 1, rf_unit := Month,
                     rf_startDate := today S, rf_ending := NeverEnds, rf_maxOccurrences := 12\<rparr>)
      in f\<lparr>rf_error := None\<rparr>)"

definition rule_accounts_changed :: "surroundings \<Rightarrow> docket_db \<Rightarrow> rule_form \<Rightarrow> rule_form" where
  "rule_accounts_changed S d f = (if rf_existing f = None then load_rule S d None f else f)"

definition rf_setKind :: "TransactionKind \<Rightarrow> rule_form \<Rightarrow> rule_form" where
  "rf_setKind kind f = f\<lparr>rf_kind := kind, rf_categoryId := None\<rparr>"

section \<open>Saving\<close>

definition form_rule_draft :: "surroundings \<Rightarrow> int \<Rightarrow> Account \<Rightarrow> Minor \<Rightarrow> rule_form \<Rightarrow> RecurringDraft" where
  "form_rule_draft S now account amount f =
     (let old = rf_existing f
      in \<lparr>rr_id = (case old of Some r \<Rightarrow> rule_id r | None \<Rightarrow> fresh_id S), rr_name = trim (rf_name f), rr_kind = rf_kind f,
          rr_amount = amount, rr_currency = acc_currency account, rr_accountId = acc_id account, rr_interval = rf_interval f,
          rr_unit = rf_unit f, rr_startDate = rf_startDate f,
          rr_counterAccountId = (if rf_kind f = Transfer then rf_counterAccountId f else None),
          rr_categoryId = (if rf_kind f = Transfer then None else rf_categoryId f), rr_payee = Some (trim (rf_payee f)),
          rr_note = Some (case old of Some r \<Rightarrow> rule_note r | None \<Rightarrow> []), rr_tags = Some (case old of Some r \<Rightarrow> rule_tags r | None \<Rightarrow> []),
          rr_endDate = (if rf_ending f = EndsOn then Some (rf_endDate f) else None),
          rr_maxOccurrences = (if rf_ending f = EndsAfter then Some (rf_maxOccurrences f) else None),
          rr_skipped = Some (case old of Some r \<Rightarrow> rule_skipped r | None \<Rightarrow> []),
          rr_archived = Some (case old of Some r \<Rightarrow> rule_archived r | None \<Rightarrow> False),
          rr_createdAt = Some (case old of Some r \<Rightarrow> rule_createdAt r | None \<Rightarrow> now)\<rparr>)"

definition rf_fail :: "rule_form \<Rightarrow> string \<Rightarrow> rule_form" where
  "rf_fail f message = f\<lparr>rf_error := Some message\<rparr>"

definition rule_form_save :: "(nat \<Rightarrow> nat) \<Rightarrow> surroundings \<times> rule_form \<Rightarrow> rule_form form_save" where
  "rule_form_save now arg l =
     (case arg of (S, f) \<Rightarrow>
        let f = f\<lparr>rf_error := None\<rparr>; d = led_db l
        in case account_byId d (or_empty (rf_accountId f)) of
             None \<Rightarrow> (Inr (rf_fail f ''Choose an account first'', None), l)
           | Some account \<Rightarrow>
               report rf_fail S f
                 (\<lambda>l. case parseAmount (rf_amount f) (acc_currency account) of
                        Inl err \<Rightarrow> (Inl err, l)
                      | Inr amount \<Rightarrow> rules_save (later now) (form_rule_draft S (int (now 0)) account amount f) l) l)"

definition rf_id :: "surroundings \<times> rule_form \<Rightarrow> string" where
  "rf_id arg = (case rf_existing (snd arg) of Some r \<Rightarrow> rule_id r | None \<Rightarrow> fresh_id (fst arg))"

interpretation save_rule_form: service rule_form_save "\<lambda>arg. {(RecurringRules, rf_id arg)}"
proof (unfold_locales, goal_cases)
  case (1 now W dev l arg r l')
  obtain S f where arg: "arg = (S, f)" by fastforce
  let ?f = "f\<lparr>rf_error := None\<rparr>"
  show ?case
  proof (cases "account_byId (led_db l) (or_empty (rf_accountId ?f))")
    case None
    then show ?thesis using 1(4) by (auto simp: arg rule_form_save_def Let_def)
  next
    case (Some account)
    then have "\<exists>q. (case parseAmount (rf_amount ?f) (acc_currency account) of Inl err \<Rightarrow> (Inl err, l)
        | Inr amount \<Rightarrow> rules_save (later now) (form_rule_draft S (int (now 0)) account amount ?f) l) = (q, l')"
      using 1(4) by (intro report_state [of rf_fail S ?f]) (simp add: arg rule_form_save_def Let_def)
    moreover have "rr_id (form_rule_draft S n account amount ?f) = rf_id arg" for n amount
      by (simp add: form_rule_draft_def Let_def rf_id_def arg split: option.split)
    ultimately show ?thesis
      using save_rule.only_writes [OF plausible_later [OF 1(1)] 1(2,3)]
      by (fastforce split: sum.splits)
  qed
qed

section \<open>An untouched rule\<close>

text \<open>A rule the sheet can show: it ends in one way at most.\<close>

definition tidy_rule :: "RecurringRule \<Rightarrow> bool" where
  "tidy_rule r \<longleftrightarrow> trim (rule_name r) = rule_name r \<and> trim (rule_payee r) = rule_payee r \<and> rule_amount r \<le> int MAX_SAFE_INTEGER \<and>
     (if rule_kind r = Transfer then rule_categoryId r = None else rule_counterAccountId r = None) \<and>
     (rule_endDate r = None \<or> rule_maxOccurrences r = None)"

lemma save_untouched_rule:
  fixes S f0 and rule :: RecurringRule
  assumes "account_byId (led_db l) (rule_accountId rule) = Some a" and "acc_currency a = rule_currency rule" and "tidy_rule rule"
    and "rule_assertValid rule = Inr ()"
  defines "f \<equiv> load_rule S (led_db l) (Some rule) f0"
  shows "rule_form_save now (S, f) l = report rf_fail S f (put (now 2) RecurringRules (RecurringRuleRow (rule\<lparr>rule_updatedAt := []\<rparr>))) l"
proof -
  have amount: "0 < rule_amount rule" using assms(4) by (simp add: rule_assertValid_def split: if_splits)
  then have parse: "parseAmount (formatAmount (rule_amount rule) (rule_currency rule)) (acc_currency a) = Inr (rule_amount rule)"
    using parse_formatAmount assms(2,3) by (simp add: tidy_rule_def)
  have f: "f\<lparr>rf_error := None\<rparr> = f" "rf_accountId f = Some (rule_accountId rule)" "rf_amount f = formatAmount (rule_amount rule) (rule_currency rule)"
    by (simp_all add: f_def load_rule_def)
  have "draft_rule n (form_rule_draft S m a (rule_amount rule) f) = rule\<lparr>rule_updatedAt := []\<rparr>" for n m
    using assms(2,3) account_byId_id [OF assms(1)] amount
    by (cases "rule_endDate rule"; cases "rule_maxOccurrences rule")
       (auto simp: form_rule_draft_def f_def load_rule_def draft_rule_def tidy_rule_def with_default_def Let_def split: if_splits)
  moreover have "rule_assertValid (rule\<lparr>rule_updatedAt := []\<rparr>) = Inr ()"
    using assms(4) by (cases "rule_endDate rule") (simp_all add: rule_assertValid_def)
  ultimately show ?thesis
    using assms(1) parse by (simp add: rule_form_save_def Let_def f or_empty_def rules_save_def later_def report_def numeral_2_eq_2)
qed

text \<open>Opening a rule and saving it without a change stores it as it was but for the stamp, with its skipped
  dates, note and tags, which the sheet does not show; or nothing changes and the error is shown.\<close>

theorem rule_untouched:
  fixes S f0
  assumes "ledger_ok W dev l" and "rows_valid l" and "get_rule (led_db l) i = Some rule" and "\<forall>j. plausible (now j)"
    and "account_byId (led_db l) (rule_accountId rule) = Some a" and "acc_currency a = rule_currency rule" and "tidy_rule rule"
  defines "f \<equiv> load_rule S (led_db l) (Some rule) f0"
  assumes "rule_form_save now (S, f) l = (r, l')"
  shows "(\<exists>s v. r = Inr (f, Some v) \<and> rf_error f = None \<and> v = RecurringRuleRow (rule\<lparr>rule_updatedAt := s\<rparr>) \<and>
      (\<forall>e k. tget (tables (led_db l') e) k = (if e = RecurringRules \<and> k = i then Some v else tget (tables (led_db l) e) k))) \<or>
    (\<exists>m. r = Inr (rf_fail f m, None) \<and> l' = l)"
proof -
  let ?v = "RecurringRuleRow (rule\<lparr>rule_updatedAt := []\<rparr>)"
  have row: "rule_id rule = i" "rule_assertValid rule = Inr ()" using get_rule_row [OF assms(1-3)] by simp_all
  obtain q where p: "put (now 2) RecurringRules ?v l = (q, l')" and r: "report rf_fail S f (put (now 2) RecurringRules ?v) l = (r, l')"
    using assms(9) report_state unfolding f_def save_untouched_rule [OF assms(5-7) row(2)] by metis
  show ?thesis
  proof (cases q)
    case (Inl err)
    then show ?thesis using r p put_error [OF p [unfolded Inl]] by (auto simp: report_def)
  next
    case (Inr v)
    have "rf_error f = None" by (simp add: f_def load_rule_def)
    then show ?thesis using r p put_effect [OF assms(1) _ _ p [unfolded Inr]] assms(4) row(1) by (auto simp: report_def Inr)
  qed
qed

section \<open>What is previewed\<close>

definition same_schedule :: "RecurringRule \<Rightarrow> RecurringRule \<Rightarrow> bool" where
  "same_schedule a b \<longleftrightarrow> rule_interval a = rule_interval b \<and> rule_unit a = rule_unit b \<and> rule_startDate a = rule_startDate b \<and>
     rule_endDate a = rule_endDate b \<and> rule_maxOccurrences a = rule_maxOccurrences b \<and> rule_skipped a = rule_skipped b"

lemma nextOccurrence_cong:
  assumes "same_schedule a b"
  shows "nextOccurrence a cursor = nextOccurrence b cursor"
proof -
  have "occurrenceAt a i = occurrenceAt b i" "withinLimits a i date = withinLimits b i date" for i date
    using assms by (simp_all add: same_schedule_def occurrenceAt_def withinLimits_def cong: RecurrenceUnit.case_cong)
  then have "next_loop a cursor n i = next_loop b cursor n i" for n i
    using assms by (induction n arbitrary: i) (auto simp: same_schedule_def split: sum.split)
  then show ?thesis using assms by (simp add: nextOccurrence_def same_schedule_def)
qed

lemma preview_loop_eq: "same_schedule a b \<Longrightarrow> preview_loop a n cursor dates = map_sum id ((@) dates) (preview b n cursor)"
proof (induction n arbitrary: cursor dates)
  case (Suc n)
  then show ?case using nextOccurrence_cong [OF Suc.prems, of cursor]
    by (cases "nextOccurrence b cursor")
       (auto simp: sum.map_comp comp_def split: option.split intro!: sum.map_cong)
qed (simp add: sum.map_id0)


text \<open>What a change of the accounts in the background does to the sheet. A rule that is being edited stays as
  it is; a rule that is being entered is reset: every field but the account and the end date is what a new
  form has, whatever had been typed.\<close>

theorem rule_reset_by_background:
  shows "rf_existing f \<noteq> None \<Longrightarrow> rule_accounts_changed S d f = f"
    and "rf_existing f = None \<Longrightarrow> rule_accounts_changed S d f =
      (new_rule_form S)\<lparr>rf_accountId := first_active d, rf_endDate := rf_endDate f\<rparr>"
proof -
  show "rf_existing f \<noteq> None \<Longrightarrow> rule_accounts_changed S d f = f" by (auto simp: rule_accounts_changed_def)
  show "rf_existing f = None \<Longrightarrow> rule_accounts_changed S d f =
      (new_rule_form S)\<lparr>rf_accountId := first_active d, rf_endDate := rf_endDate f\<rparr>"
    by (simp add: rule_accounts_changed_def load_rule_def new_rule_form_def)
qed

section \<open>Witnesses\<close>

lemma form_rule_row: obtains s where "get_rule (led_db form_ledger) ''r'' = Some (form_rule\<lparr>rule_updatedAt := s\<rparr>)"
  using form_ledger_row [of "RecurringRuleRow form_rule"] that by (auto simp: form_rows_def row_Some form_rule_def)

lemma rule_untouched_witness:
  "\<exists>f r l'. rule_form_save (\<lambda>_. 2000) (form_surroundings, f) form_ledger = (r, l') \<and> rf_ending f = EndsOn \<and>
     ((\<exists>s v. r = Inr (f, Some v) \<and> v = RecurringRuleRow (form_rule\<lparr>rule_updatedAt := s\<rparr>)) \<or>
      (\<exists>m. r = Inr (rf_fail f m, None) \<and> l' = form_ledger))"
proof -
  obtain W where ok: "ledger_ok W ''a'' form_ledger" by (rule form_ledger_ok)
  obtain s where row: "get_rule (led_db form_ledger) ''r'' = Some (form_rule\<lparr>rule_updatedAt := s\<rparr>)" by (rule form_rule_row)
  obtain a where a: "account_byId (led_db form_ledger) ''x'' = Some a" "acc_currency a = ''EUR''" by (rule form_account_found)
  have tidy: "tidy_rule (form_rule\<lparr>rule_updatedAt := s\<rparr>)"
    by (simp add: tidy_rule_def form_rule_def MAX_SAFE_INTEGER_def trim_def is_space_def)
  have acc: "account_byId (led_db form_ledger) (rule_accountId (form_rule\<lparr>rule_updatedAt := s\<rparr>)) = Some a"
    "acc_currency a = rule_currency (form_rule\<lparr>rule_updatedAt := s\<rparr>)" using a by (simp_all add: form_rule_def)
  define f where "f = load_rule form_surroundings (led_db form_ledger) (Some (form_rule\<lparr>rule_updatedAt := s\<rparr>)) (new_rule_form form_surroundings)"
  obtain r l' where save: "rule_form_save (\<lambda>_. 2000) (form_surroundings, f) form_ledger = (r, l')" by fastforce
  have now: "\<forall>j::nat. plausible 2000" using plausible_small by simp
  have "rf_ending f = EndsOn" by (simp add: f_def load_rule_def form_rule_def)
  moreover have "form_rule\<lparr>rule_updatedAt := s, rule_updatedAt := s'\<rparr> = form_rule\<lparr>rule_updatedAt := s'\<rparr>" for s' by simp
  note rule_untouched [OF ok form_ledger_rows_valid row now acc tidy save [unfolded f_def], folded f_def, unfolded this]
  ultimately show ?thesis using save by blast
qed


lemma rule_reset_by_background_witness:
  "rule_accounts_changed form_surroundings (led_db form_ledger) ((new_rule_form form_surroundings)\<lparr>rf_name := ''Rent'', rf_amount := ''900''\<rparr>) =
    (new_rule_form form_surroundings)\<lparr>rf_accountId := first_active (led_db form_ledger), rf_endDate := ''2024-03-10''\<rparr>"
  using rule_reset_by_background(2) [of "(new_rule_form form_surroundings)\<lparr>rf_name := ''Rent'', rf_amount := ''900''\<rparr>"]
  by (simp add: new_rule_form_def form_surroundings_def)

end
