(* ===== verification/Account_Editor.thy ===== *)
theory Account_Editor
  imports Forms
begin

text \<open>
  The sheet an account is entered in (\<open>features/accounts/account-editor.component.ts\<close>): its fields, the
  lock on the currency of an account with a history, and what a save stores. The theorems give the row
  an untouched account is stored as, which is not the one it had, and what can change a currency.
\<close>

section \<open>The form\<close>

definition account_icon :: "AccountKind \<Rightarrow> string" where
  "account_icon kind =
     (case kind of
        Cash \<Rightarrow> ''cash-outline'' | Bank \<Rightarrow> ''business-outline'' | Card \<Rightarrow> ''card-outline'' | Wallet \<Rightarrow> ''phone-portrait-outline''
      | Savings \<Rightarrow> ''save-outline'' | Investment \<Rightarrow> ''trending-up-outline'')"

text \<open>A day of the month: nothing, a number, or text out of the input.\<close>

datatype day_field = NoDay | DayNumber number | DayText string

record account_form =
  af_existing :: "Account option"
  af_name :: string
  af_kind :: AccountKind
  af_currency :: string
  af_openingBalance :: string
  af_groupId :: "string option"
  af_creditLimit :: string
  af_statementDay :: day_field
  af_dueDay :: day_field
  af_archived :: bool
  af_error :: "string option"
  af_recorded :: "nat option"
  af_currencyTouched :: bool

definition new_account_form :: account_form where
  "new_account_form =
     \<lparr>af_existing = None, af_name = [], af_kind = Bank, af_currency = ''USD'', af_openingBalance = ''0.00'', af_groupId = None,
      af_creditLimit = [], af_statementDay = NoDay, af_dueDay = NoDay, af_archived = False, af_error = None, af_recorded = None,
      af_currencyTouched = False\<rparr>"

definition af_isCreditCard :: "docket_db \<Rightarrow> account_form \<Rightarrow> bool" where
  "af_isCreditCard d f \<longleftrightarrow> (case group_byId (group_rows d) (af_groupId f) of Some g \<Rightarrow> grp_type g = CreditCard | None \<Rightarrow> False)"

definition currencyLocked :: "account_form \<Rightarrow> bool" where
  "currencyLocked f \<longleftrightarrow> af_existing f \<noteq> None \<and> af_recorded f \<noteq> Some 0"

definition af_setCurrency :: "string \<Rightarrow> account_form \<Rightarrow> account_form" where
  "af_setCurrency code f = f\<lparr>af_currencyTouched := True, af_currency := code\<rparr>"

definition day_shown :: "int option \<Rightarrow> day_field" where
  "day_shown n = (case n of None \<Rightarrow> NoDay | Some k \<Rightarrow> DayNumber (Fin (of_int k)))"

text \<open>The count of the account's transactions is asked for here and arrives later.\<close>

definition load_account :: "docket_db \<Rightarrow> Account option \<Rightarrow> account_form \<Rightarrow> account_form" where
  "load_account d acc f =
     (let f = (case acc of
                 Some a \<Rightarrow>
                   f\<lparr>af_existing := acc, af_name := acc_name a, af_kind := acc_kind a, af_currency := acc_currency a,
                     af_currencyTouched := True, af_openingBalance := formatAmount (acc_openingBalance a) (acc_currency a),
                     af_groupId := map_option grp_id (group_byId (group_rows d) (acc_groupId a)), af_recorded := None,
                     af_creditLimit := (case acc_creditLimit a of Some limit \<Rightarrow> formatAmount limit (acc_currency a) | None \<Rightarrow> []),
                     af_statementDay := day_shown (acc_statementDay a), af_dueDay := day_shown (acc_dueDay a),
                     af_archived := acc_archived a\<rparr>
               | None \<Rightarrow>
                   f\<lparr>af_existing := None, af_name := [], af_kind := Bank, af_currency := reportingCurrency d,
                     af_currencyTouched := False, af_openingBalance := ''0.00'', af_groupId := None, af_recorded := Some 0,
                     af_creditLimit := [], af_statementDay := NoDay, af_dueDay := NoDay, af_archived := False\<rparr>)
      in f\<lparr>af_error := None\<rparr>)"

definition offerVaultCurrency :: "docket_db \<Rightarrow> account_form \<Rightarrow> account_form" where
  "offerVaultCurrency d f = (if af_existing f \<noteq> None \<or> af_currencyTouched f then f else f\<lparr>af_currency := reportingCurrency d\<rparr>)"

section \<open>Edits\<close>

datatype account_edit =
    NameTyped string | KindChosen AccountKind | GroupChosen "string option" | CurrencyChosen string | OpeningTyped string
  | LimitTyped string | StatementDayTyped day_field | DueDayTyped day_field | ArchivedSet bool
  | CountArrived nat | VaultCurrencyChanged

text \<open>What the controls are bound to, a count that arrives, and the background. The currency is a control that
  is disabled while it is locked.\<close>

fun edit_account :: "docket_db \<Rightarrow> account_edit \<Rightarrow> account_form \<Rightarrow> account_form" where
  "edit_account d (NameTyped s) f = f\<lparr>af_name := s\<rparr>"
| "edit_account d (KindChosen k) f = f\<lparr>af_kind := k\<rparr>"
| "edit_account d (GroupChosen i) f = f\<lparr>af_groupId := i\<rparr>"
| "edit_account d (CurrencyChosen code) f = (if currencyLocked f then f else af_setCurrency code f)"
| "edit_account d (OpeningTyped s) f = f\<lparr>af_openingBalance := s\<rparr>"
| "edit_account d (LimitTyped s) f = f\<lparr>af_creditLimit := s\<rparr>"
| "edit_account d (StatementDayTyped v) f = f\<lparr>af_statementDay := v\<rparr>"
| "edit_account d (DueDayTyped v) f = f\<lparr>af_dueDay := v\<rparr>"
| "edit_account d (ArchivedSet b) f = f\<lparr>af_archived := b\<rparr>"
| "edit_account d (CountArrived n) f = f\<lparr>af_recorded := Some n\<rparr>"
| "edit_account d VaultCurrencyChanged f = offerVaultCurrency d f"

definition account_edits :: "(docket_db \<times> account_edit) list \<Rightarrow> account_form \<Rightarrow> account_form" where
  "account_edits es f = foldl (\<lambda>f (d, e). edit_account d e f) f es"

section \<open>Saving\<close>

definition parseOptionalAmount :: "string \<Rightarrow> string \<Rightarrow> Minor option result" where
  "parseOptionalAmount input currency =
     (let trimmed = trim input
      in if trimmed = [] then Inr None
         else case parseAmount trimmed currency of
                Inl err \<Rightarrow> Inl err
              | Inr amount \<Rightarrow> Inr (if amount > 0 then Some amount else None))"

definition trunc :: "rat \<Rightarrow> int" where
  "trunc x = (if x < 0 then \<lceil>x\<rceil> else \<lfloor>x\<rfloor>)"

definition dayOrUndefined :: "day_field \<Rightarrow> int option" where
  "dayOrUndefined v =
     (if v = NoDay \<or> v = DayText [] then None
      else case (case v of DayNumber x \<Rightarrow> x | DayText s \<Rightarrow> Number_of s | NoDay \<Rightarrow> NaN) of
             Fin x \<Rightarrow> let day = trunc x in if 1 \<le> day \<and> day \<le> 31 then Some day else None
           | _ \<Rightarrow> None)"

definition af_fail :: "account_form \<Rightarrow> string \<Rightarrow> account_form" where
  "af_fail f message = f\<lparr>af_error := Some message\<rparr>"

text \<open>The object that is saved has every field of an account but \<open>excludedFromTotals\<close>.\<close>

definition form_account_draft :: "surroundings \<Rightarrow> docket_db \<Rightarrow> int \<Rightarrow> account_form \<Rightarrow> AccountDraft result" where
  "form_account_draft S d now f =
     (let old = af_existing f; crd = af_isCreditCard d f
      in case parseAmount (if af_openingBalance f = [] then ''0'' else af_openingBalance f) (af_currency f) of
           Inl err \<Rightarrow> Inl err
         | Inr opening \<Rightarrow>
             (case (if crd then parseOptionalAmount (af_creditLimit f) (af_currency f) else Inr None) of
                Inl err \<Rightarrow> Inl err
              | Inr limit \<Rightarrow> Inr
                  \<lparr>ad_account =
                     \<lparr>acc_id = (case old of Some a \<Rightarrow> acc_id a | None \<Rightarrow> fresh_id S), acc_name = trim (af_name f), acc_kind = af_kind f,
                      acc_currency = af_currency f, acc_openingBalance = opening, acc_archived = af_archived f,
                      acc_colour = (case old of Some a \<Rightarrow> acc_colour a | None \<Rightarrow> ''#3880ff''), acc_icon = account_icon (af_kind f),
                      acc_groupId = af_groupId f, acc_creditLimit = limit,
                      acc_statementDay = (if crd then dayOrUndefined (af_statementDay f) else None),
                      acc_dueDay = (if crd then dayOrUndefined (af_dueDay f) else None), acc_excludedFromTotals = None,
                      acc_createdAt = 0, acc_updatedAt = []\<rparr>,
                   ad_createdAt = Some (case old of Some a \<Rightarrow> acc_createdAt a | None \<Rightarrow> now)\<rparr>))"

definition account_form_save :: "(nat \<Rightarrow> nat) \<Rightarrow> surroundings \<times> account_form \<Rightarrow> account_form form_save" where
  "account_form_save now arg l =
     (case arg of (S, f) \<Rightarrow>
        let f = f\<lparr>af_error := None\<rparr>
        in report af_fail S f
             (\<lambda>l. case form_account_draft S (led_db l) (int (now 0)) f of
                    Inl err \<Rightarrow> (Inl err, l)
                  | Inr draft \<Rightarrow> accounts_save (later now) draft l) l)"

definition af_id :: "surroundings \<times> account_form \<Rightarrow> string" where
  "af_id arg = (case af_existing (snd arg) of Some a \<Rightarrow> acc_id a | None \<Rightarrow> fresh_id (fst arg))"

lemma form_account_draft_id: "form_account_draft S d n f = Inr draft \<Longrightarrow> acc_id (ad_account draft) = af_id (S, f)"
  by (auto simp: form_account_draft_def Let_def af_id_def split: sum.splits option.splits)

interpretation save_account_form: service account_form_save "\<lambda>arg. {(Accounts, af_id arg)}"
proof (unfold_locales, goal_cases)
  case (1 now W dev l arg r l')
  obtain S f where arg: "arg = (S, f)" by fastforce
  let ?f = "f\<lparr>af_error := None\<rparr>"
  have "\<exists>q. (case form_account_draft S (led_db l) (int (now 0)) ?f of Inl err \<Rightarrow> (Inl err, l)
      | Inr draft \<Rightarrow> accounts_save (later now) draft l) = (q, l')"
    using 1(4) by (intro report_state [of af_fail S ?f]) (simp add: arg account_form_save_def Let_def)
  moreover have "af_id (S, ?f) = af_id arg" by (simp add: af_id_def arg split: option.split)
  ultimately show ?case
    using save_account.only_writes [OF plausible_later [OF 1(1)] 1(2,3)] form_account_draft_id [of S "led_db l" "int (now 0)" ?f]
    by (fastforce split: sum.splits)
qed

section \<open>An untouched account\<close>

text \<open>The row a save of an opened and untouched account stores, stamp apart: the icon is that of its kind, a group
  that is gone is left, and only an account filed in a credit card group has terms of a card.\<close>

definition kept_day :: "int option \<Rightarrow> int option" where
  "kept_day n = (case n of Some k \<Rightarrow> if 1 \<le> k \<and> k \<le> 31 then Some k else None | None \<Rightarrow> None)"

definition kept_limit :: "Minor option \<Rightarrow> Minor option" where
  "kept_limit n = (case n of Some k \<Rightarrow> if 0 < k then Some k else None | None \<Rightarrow> None)"

definition untouched_account :: "docket_db \<Rightarrow> Account \<Rightarrow> Account" where
  "untouched_account d a =
     (let crd = isCreditCard (group_rows d) a
      in a\<lparr>acc_name := trim (acc_name a), acc_icon := account_icon (acc_kind a),
           acc_groupId := (if group_byId (group_rows d) (acc_groupId a) = None then None else acc_groupId a),
           acc_creditLimit := (if crd then kept_limit (acc_creditLimit a) else None),
           acc_statementDay := (if crd then kept_day (acc_statementDay a) else None),
           acc_dueDay := (if crd then kept_day (acc_dueDay a) else None),
           acc_excludedFromTotals := None\<rparr>)"

text \<open>Its amounts are ones a double holds.\<close>

definition safe_amounts :: "Account \<Rightarrow> bool" where
  "safe_amounts a \<longleftrightarrow> \<bar>acc_openingBalance a\<bar> \<le> int MAX_SAFE_INTEGER \<and> \<bar>with_default 0 (acc_creditLimit a)\<bar> \<le> int MAX_SAFE_INTEGER"

lemma dayOrUndefined_shown [simp]: "dayOrUndefined (day_shown n) = kept_day n"
  by (cases n) (auto simp: dayOrUndefined_def day_shown_def trunc_def kept_day_def)

lemma parseAmount_blank: "trim s = [] \<Longrightarrow> parseAmount s currency = Inl (invalid_amount s)"
  by (simp add: parseAmount_def Let_def)

lemma formatAmount_not_blank: "\<bar>amount\<bar> \<le> int MAX_SAFE_INTEGER \<Longrightarrow> formatAmount amount currency \<noteq> [] \<and> trim (formatAmount amount currency) \<noteq> []"
  using parse_formatAmount [of amount currency] parseAmount_blank [of "formatAmount amount currency" currency]
  by (cases "formatAmount amount currency = []") (auto simp: trim_def)

lemma parseAmount_trim:
  assumes "parseAmount s currency = Inr n"
  shows "parseAmount (trim s) currency = Inr n"
proof -
  define k where "k = replace_first CHR '','' ''.'' (filter (\<lambda>c. \<not> is_space c) (trim s))"
  have "parseAmount s currency = Inr n" by fact
  then show ?thesis unfolding parseAmount_def Let_def trim_trim k_def [symmetric]
    by (simp split: if_split_asm option.split_asm)
qed

lemma parseOptional_shown:
  assumes "\<bar>with_default 0 limit\<bar> \<le> int MAX_SAFE_INTEGER"
  shows "parseOptionalAmount (case limit of Some x \<Rightarrow> formatAmount x currency | None \<Rightarrow> []) currency = Inr (kept_limit limit)"
proof (cases limit)
  case (Some x)
  then have x: "\<bar>x\<bar> \<le> int MAX_SAFE_INTEGER" using assms by (simp add: with_default_def)
  show ?thesis using formatAmount_not_blank [OF x] parseAmount_trim [OF parse_formatAmount [OF x]]
    by (simp add: Some parseOptionalAmount_def Let_def kept_limit_def)
qed (simp add: parseOptionalAmount_def trim_def kept_limit_def)

lemma group_byId_grp_id: "group_byId groups i = Some g \<Longrightarrow> i = Some (grp_id g)"
  by (auto simp: group_byId_def find_Some_iff split: if_splits)

lemma group_byId_None: "group_byId groups None = None"
  by (simp add: group_byId_def falsy_def)

lemma draft_untouched:
  fixes S f0
  assumes "safe_amounts a"
  shows "form_account_draft S d n (load_account d (Some a) f0) =
    Inr \<lparr>ad_account = (untouched_account d a)\<lparr>acc_createdAt := 0, acc_updatedAt := []\<rparr>, ad_createdAt = Some (acc_createdAt a)\<rparr>"
proof -
  let ?f = "load_account d (Some a) f0"
  have gid: "map_option grp_id (group_byId (group_rows d) (acc_groupId a)) =
      (if group_byId (group_rows d) (acc_groupId a) = None then None else acc_groupId a)"
    using group_byId_grp_id [of "group_rows d" "acc_groupId a"] by auto
  have crd: "af_isCreditCard d ?f = isCreditCard (group_rows d) a"
  proof (cases "group_byId (group_rows d) (acc_groupId a)")
    case None
    then show ?thesis by (simp add: af_isCreditCard_def load_account_def isCreditCard_def typeOf_def with_default_def group_byId_None)
  next
    case (Some g)
    then show ?thesis using group_byId_grp_id [OF Some]
      by (simp add: af_isCreditCard_def load_account_def isCreditCard_def typeOf_def with_default_def)
  qed
  have balance: "parseAmount (if af_openingBalance ?f = [] then ''0'' else af_openingBalance ?f) (af_currency ?f) = Inr (acc_openingBalance a)"
    using assms parse_formatAmount formatAmount_not_blank by (simp add: load_account_def safe_amounts_def)
  have limit: "(if isCreditCard (group_rows d) a then parseOptionalAmount (af_creditLimit ?f) (af_currency ?f) else Inr None) =
      Inr (if isCreditCard (group_rows d) a then kept_limit (acc_creditLimit a) else None)"
    using assms parseOptional_shown [of "acc_creditLimit a" "acc_currency a"] by (simp add: load_account_def safe_amounts_def)
  show ?thesis unfolding form_account_draft_def Let_def crd balance limit
    using gid by (cases a) (auto simp: load_account_def untouched_account_def)
qed


section \<open>What changes a currency\<close>

lemma account_edits_snoc [simp]: "account_edits [] f = f" "account_edits (es @ [p]) f = edit_account (fst p) (snd p) (account_edits es f)"
  by (simp_all add: account_edits_def case_prod_beta)

lemma edit_account_existing [simp]: "af_existing (edit_account d e f) = af_existing f"
  by (cases e) (simp_all add: af_setCurrency_def offerVaultCurrency_def)

lemma account_edits_existing [simp]: "af_existing (account_edits es f) = af_existing f"
  by (induction es rule: rev_induct) simp_all

text \<open>The count that arrived last, or the one there was.\<close>

definition last_count :: "(docket_db \<times> account_edit) list \<Rightarrow> nat option \<Rightarrow> nat option" where
  "last_count es n = foldl (\<lambda>n (d, e). case e of CountArrived k \<Rightarrow> Some k | _ \<Rightarrow> n) n es"

lemma last_count_snoc [simp]: "last_count [] n = n" "last_count (es @ [p]) n = (case snd p of CountArrived k \<Rightarrow> Some k | _ \<Rightarrow> last_count es n)"
  by (simp_all add: last_count_def case_prod_beta split: account_edit.split)

lemma account_edits_recorded: "af_recorded (account_edits es f) = last_count es (af_recorded f)"
proof (induction es rule: rev_induct)
  case (snoc p es)
  then show ?case by (cases "snd p") (auto simp: af_setCurrency_def offerVaultCurrency_def)
qed simp

lemma untouched_currency:
  assumes "list_all (\<lambda>p. \<forall>c. snd p \<noteq> CurrencyChosen c) es"
  shows "af_currencyTouched (account_edits es f) = af_currencyTouched f"
    and "af_currencyTouched f \<Longrightarrow> af_currency (account_edits es f) = af_currency f"
proof -
  show touched: "af_currencyTouched (account_edits es f) = af_currencyTouched f" using assms
  proof (induction es rule: rev_induct)
    case (snoc p es)
    then show ?case by (cases "snd p") (auto simp: offerVaultCurrency_def)
  qed simp
  show "af_currencyTouched f \<Longrightarrow> af_currency (account_edits es f) = af_currency f" using assms
  proof (induction es rule: rev_induct)
    case (snoc p es)
    have "af_currencyTouched (account_edits es f) = af_currencyTouched f" using snoc.prems(2)
    proof (induction es rule: rev_induct)
      case (snoc q es)
      then show ?case by (cases "snd q") (auto simp: offerVaultCurrency_def)
    qed simp
    then show ?case using snoc by (cases "snd p") (auto simp: offerVaultCurrency_def)
  qed simp
qed

lemma locked_currency:
  assumes "af_existing f = Some a" and "af_recorded f \<noteq> Some 0" and "list_all (\<lambda>p. snd p \<noteq> CountArrived 0) es"
  shows "af_currency (account_edits es f) = af_currency f \<and> af_recorded (account_edits es f) \<noteq> Some 0"
  using assms(3)
proof (induction es rule: rev_induct)
  case (snoc p es)
  then show ?case using assms(1) by (cases "snd p") (auto simp: currencyLocked_def offerVaultCurrency_def)
qed (use assms in simp)


section \<open>Witnesses\<close>

lemma form_account_row: obtains s where "get_account (led_db form_ledger) ''x'' = Some (form_account\<lparr>acc_updatedAt := s\<rparr>)"
  using form_ledger_row [of "AccountRow form_account"] that by (auto simp: form_rows_def row_Some form_account_def plain_account_def)



end
