(* ===== verification/Budget_Screens.thy ===== *)
theory Budget_Screens
  imports Forms
begin

text \<open>
  The sheet a budget is entered in (\<open>features/budgets/budget-editor.component.ts\<close>), the page that lists the
  budgets (\<open>budgets.page.ts\<close>) and the bar they are drawn with (\<open>shared/budget-bar.component.ts\<close>).
\<close>

section \<open>The form\<close>

record budget_form =
  bf_existing :: "Budget option"
  bf_name :: string
  bf_amount :: string
  bf_categoryIds :: "string list"
  bf_period :: BudgetPeriod
  bf_startDate :: string
  bf_rollover :: bool
  bf_error :: "string option"

definition new_budget_form :: "surroundings \<Rightarrow> budget_form" where
  "new_budget_form S = \<lparr>bf_existing = None, bf_name = [], bf_amount = [], bf_categoryIds = [], bf_period = Monthly,
     bf_startDate = today S, bf_rollover = False, bf_error = None\<rparr>"

definition bf_canSave :: "budget_form \<Rightarrow> bool" where
  "bf_canSave f \<longleftrightarrow> 0 < length (trim (bf_name f)) \<and> 0 < length (trim (bf_amount f)) \<and> 0 < length (bf_categoryIds f)"

text \<open>A day that is not a number is \<open>None\<close>.\<close>

definition ordinal :: "int option \<Rightarrow> string" where
  "ordinal day =
     String_of_int day @
     (case day of
        None \<Rightarrow> ''th''
      | Some n \<Rightarrow>
          if 11 \<le> js_rem n 100 \<and> js_rem n 100 \<le> 13 then ''th''
          else if js_rem n 10 = 1 then ''st'' else if js_rem n 10 = 2 then ''nd'' else if js_rem n 10 = 3 then ''rd'' else ''th'')"

definition anchorHint :: "budget_form \<Rightarrow> string" where
  "anchorHint f =
     (let day = map_option int (js_Number (slice 8 10 (bf_startDate f)))
      in case bf_period f of
           Monthly \<Rightarrow>
             if day = Some 1 then ''Runs in calendar months.''
             else ''Runs from the '' @ ordinal day @ '' of one month to the '' @
               ordinal (case day of None \<Rightarrow> Some 31 | Some n \<Rightarrow> if n - 1 = 0 then Some 31 else Some (n - 1)) @ '' of the next.''
         | Weekly \<Rightarrow> ''Runs in seven-day periods from the start date.''
         | Yearly \<Rightarrow> ''Runs for a year from the start date.'')"

definition load_budget :: "surroundings \<Rightarrow> Budget option \<Rightarrow> budget_form \<Rightarrow> budget_form" where
  "load_budget S b f =
     (case b of
        Some budget \<Rightarrow>
          f\<lparr>bf_existing := b, bf_name := bud_name budget, bf_amount := formatAmount (bud_amount budget) (bud_currency budget),
            bf_categoryIds := bud_categoryIds budget, bf_period := bud_period budget, bf_startDate := bud_startDate budget,
            bf_rollover := bud_rollover budget, bf_error := None\<rparr>
      | None \<Rightarrow>
          f\<lparr>bf_existing := None, bf_name := [], bf_amount := [], bf_categoryIds := [], bf_period := Monthly, bf_startDate := today S,
            bf_rollover := False, bf_error := None\<rparr>)"

section \<open>Saving\<close>

definition bf_currency :: "docket_db \<Rightarrow> budget_form \<Rightarrow> string" where
  "bf_currency d f =
     (case bf_existing f of
        Some budget \<Rightarrow> bud_currency budget
      | None \<Rightarrow> (case active_accounts d of [] \<Rightarrow> ''USD'' | account # _ \<Rightarrow> acc_currency account))"

definition form_budget_draft :: "surroundings \<Rightarrow> docket_db \<Rightarrow> int \<Rightarrow> Minor \<Rightarrow> budget_form \<Rightarrow> BudgetDraft" where
  "form_budget_draft S d now amount f =
     (let old = bf_existing f
      in \<lparr>bd_id = (case old of Some b \<Rightarrow> bud_id b | None \<Rightarrow> fresh_id S), bd_name = trim (bf_name f), bd_categoryIds = bf_categoryIds f,
          bd_period = bf_period f, bd_amount = amount, bd_currency = bf_currency d f, bd_startDate = bf_startDate f,
          bd_rollover = Some (bf_rollover f), bd_archived = Some (case old of Some b \<Rightarrow> bud_archived b | None \<Rightarrow> False),
          bd_createdAt = Some (case old of Some b \<Rightarrow> bud_createdAt b | None \<Rightarrow> now)\<rparr>)"

definition bf_fail :: "budget_form \<Rightarrow> string \<Rightarrow> budget_form" where
  "bf_fail f message = f\<lparr>bf_error := Some message\<rparr>"

definition budget_form_save :: "(nat \<Rightarrow> nat) \<Rightarrow> surroundings \<times> budget_form \<Rightarrow> budget_form form_save" where
  "budget_form_save now arg l =
     (case arg of (S, f) \<Rightarrow>
        let f = f\<lparr>bf_error := None\<rparr>
        in report bf_fail S f
             (\<lambda>l. case parseAmount (bf_amount f) (bf_currency (led_db l) f) of
                    Inl err \<Rightarrow> (Inl err, l)
                  | Inr amount \<Rightarrow> budgets_save (later now) (form_budget_draft S (led_db l) (int (now 0)) amount f) l) l)"

definition bf_id :: "surroundings \<times> budget_form \<Rightarrow> string" where
  "bf_id arg = (case bf_existing (snd arg) of Some b \<Rightarrow> bud_id b | None \<Rightarrow> fresh_id (fst arg))"

interpretation save_budget_form: service budget_form_save "\<lambda>arg. {(Budgets, bf_id arg)}"
proof (unfold_locales, goal_cases)
  case (1 now W dev l arg r l')
  obtain S f where arg: "arg = (S, f)" by fastforce
  let ?f = "f\<lparr>bf_error := None\<rparr>"
  have "\<exists>q. (case parseAmount (bf_amount ?f) (bf_currency (led_db l) ?f) of Inl err \<Rightarrow> (Inl err, l)
      | Inr amount \<Rightarrow> budgets_save (later now) (form_budget_draft S (led_db l) (int (now 0)) amount ?f) l) = (q, l')"
    using 1(4) by (intro report_state [of bf_fail S ?f]) (simp add: arg budget_form_save_def Let_def)
  moreover have "bd_id (form_budget_draft S (led_db l) n amount ?f) = bf_id arg" for n amount
    by (simp add: form_budget_draft_def Let_def bf_id_def arg split: option.split)
  ultimately show ?case
    using save_budget.only_writes [OF plausible_later [OF 1(1)] 1(2,3)] by (fastforce split: sum.splits)
qed

section \<open>The page\<close>

definition budget_page_archived :: "Budget list \<Rightarrow> Budget list" where
  "budget_page_archived budgets = filter bud_archived budgets"

definition describe_budget :: "(BudgetPeriod \<Rightarrow> BudgetWindow \<Rightarrow> string) \<Rightarrow> BudgetStatus \<Rightarrow> string" where
  "describe_budget describeWindow s =
     (case bs_progress s of
        Some p \<Rightarrow> describeWindow (bud_period (bs_budget s)) (prog_window p)
      | None \<Rightarrow> ''Starts '' @ bud_startDate (bs_budget s))"

definition budget_toggleArchive :: "(nat \<Rightarrow> nat) \<Rightarrow> Budget \<Rightarrow> Budget sheet \<Rightarrow> (ledger, Budget sheet) call" where
  "budget_toggleArchive now b s = then_close (budgets_setArchived now (bud_id b, \<not> bud_archived b)) s"

text \<open>The repair of a budget whose categories are gone: a question when nothing is left of it.\<close>

definition budget_fix :: "(nat \<Rightarrow> nat) \<Rightarrow> surroundings \<times> BudgetStatus \<Rightarrow> (ledger, question option) call" where
  "budget_fix now arg l =
     (case arg of (S, s) \<Rightarrow>
        (case pruneStaleCategories now (bud_id (bs_budget s)) l of
           (Inr _, l') \<Rightarrow> (Inr None, l')
         | (Inl err, l') \<Rightarrow> (Inr (Some \<lparr>q_header = ''Nothing left to track'', q_message = message_of S err\<rparr>), l')))"

definition budget_delete_question :: "Budget \<Rightarrow> question" where
  "budget_delete_question b =
     \<lparr>q_header = ''Delete budget?'',
      q_message = bud_name b @ '' will be removed from every device you sync with. Your transactions are not affected.''\<rparr>"

definition budget_delete :: "(nat \<Rightarrow> nat) \<Rightarrow> Budget \<Rightarrow> Budget sheet \<Rightarrow> (ledger, Budget sheet) call" where
  "budget_delete now b s = then_close (budgets_remove now (bud_id b)) s"

definition bar_colour :: "bool \<Rightarrow> string" where
  "bar_colour over = (if over then ''var(--ion-color-danger)'' else ''var(--ion-color-success)'')"

definition bar_label :: "bool \<Rightarrow> number \<Rightarrow> string" where
  "bar_label over share =
     (if over then ''Over budget, '' @ String_of_number share @ ''% of allowance used''
      else String_of_number share @ ''% of budget used'')"

interpretation fix_budget: service budget_fix "\<lambda>arg. {(Budgets, bud_id (bs_budget (snd arg)))}"
proof (unfold_locales, goal_cases)
  case (1 now W dev l arg r l')
  then have "\<exists>q. pruneStaleCategories now (bud_id (bs_budget (snd arg))) l = (q, l')"
    by (auto simp: budget_fix_def split: prod.splits sum.splits)
  then show ?case using prune_budget.only_writes [OF 1(1-3)] by auto
qed

section \<open>An untouched budget\<close>

definition tidy_budget :: "Budget \<Rightarrow> bool" where
  "tidy_budget b \<longleftrightarrow> trim (bud_name b) = bud_name b \<and> bud_amount b \<le> int MAX_SAFE_INTEGER \<and> distinct (bud_categoryIds b)"

lemma save_untouched_budget:
  fixes S f0 and b :: Budget
  assumes "tidy_budget b" and "budget_assertValid b = Inr ()"
  defines "f \<equiv> load_budget S (Some b) f0"
  shows "budget_form_save now (S, f) l = report bf_fail S f (put (now 2) Budgets (BudgetRow (b\<lparr>bud_updatedAt := []\<rparr>))) l"
proof -
  have f: "f\<lparr>bf_error := None\<rparr> = f" "bf_existing f = Some b" by (simp_all add: f_def load_budget_def)
  have "0 < bud_amount b" using assms(2) by (simp add: budget_assertValid_def split: if_splits)
  then have amount: "parseAmount (bf_amount f) (bf_currency (led_db l) f) = Inr (bud_amount b)"
    using parse_formatAmount assms(1) by (simp add: f_def load_budget_def bf_currency_def tidy_budget_def)
  have draft: "draft_budget n (form_budget_draft S (led_db l) m (bud_amount b) f) = b\<lparr>bud_updatedAt := []\<rparr>" for n m
    using assms(1) unique_distinct [of "bud_categoryIds b"]
    by (cases b) (simp add: f_def load_budget_def draft_budget_def form_budget_draft_def bf_currency_def tidy_budget_def with_default_def)
  have "budget_assertValid (b\<lparr>bud_updatedAt := []\<rparr>) = Inr ()" using assms(2) by (simp add: budget_assertValid_def)
  then show ?thesis
    unfolding budget_form_save_def prod.case Let_def f by (simp add: report_def amount budgets_save_def draft later_def numeral_2_eq_2)
qed

text \<open>A budget that is opened and saved without a change is written as it was: no row but its own changes,
  and that one only in its timestamp. It is one whose name has no blanks at its ends, with an amount a
  double can hold and no category twice. When the write fails the form says so and the ledger is as it was.\<close>

theorem budget_untouched:
  fixes S f0
  assumes "ledger_ok W dev l" and "rows_valid l" and "get_budget (led_db l) i = Some b" and "\<forall>j. plausible (now j)" and "tidy_budget b"
  defines "f \<equiv> load_budget S (Some b) f0"
  assumes "budget_form_save now (S, f) l = (r, l')"
  shows "(\<exists>s v. r = Inr (f, Some v) \<and> bf_error f = None \<and> v = BudgetRow (b\<lparr>bud_updatedAt := s\<rparr>) \<and>
      (\<forall>e k. tget (tables (led_db l') e) k = (if e = Budgets \<and> k = i then Some v else tget (tables (led_db l) e) k))) \<or>
    (\<exists>m. r = Inr (bf_fail f m, None) \<and> l' = l)"
proof -
  let ?v = "BudgetRow (b\<lparr>bud_updatedAt := []\<rparr>)"
  have row: "bud_id b = i" "budget_assertValid b = Inr ()" using get_budget_row [OF assms(1-3)] by simp_all
  obtain q where p: "put (now 2) Budgets ?v l = (q, l')" and r: "report bf_fail S f (put (now 2) Budgets ?v) l = (r, l')"
    using assms(7) report_state unfolding f_def save_untouched_budget [OF assms(5) row(2)] by metis
  show ?thesis
  proof (cases q)
    case (Inl err)
    then show ?thesis using r p put_error [OF p [unfolded Inl]] by (auto simp: report_def)
  next
    case (Inr v)
    have "bf_error f = None" by (simp add: f_def load_budget_def)
    then show ?thesis using r p put_effect [OF assms(1) _ _ p [unfolded Inr]] assms(4) row(1) by (auto simp: report_def Inr)
  qed
qed

lemma form_budget_row: obtains s where "get_budget (led_db form_ledger) ''b'' = Some (form_budget\<lparr>bud_updatedAt := s\<rparr>)"
  using form_ledger_row [of "BudgetRow form_budget"] that by (auto simp: form_rows_def row_Some form_budget_def)

lemma budget_untouched_witness:
  "\<exists>f r l'. budget_form_save (\<lambda>_. 2000) (form_surroundings, f) form_ledger = (r, l') \<and> bf_rollover f \<and>
     ((\<exists>s v. r = Inr (f, Some v) \<and> v = BudgetRow (form_budget\<lparr>bud_updatedAt := s\<rparr>)) \<or>
      (\<exists>m. r = Inr (bf_fail f m, None) \<and> l' = form_ledger))"
proof -
  obtain W where ok: "ledger_ok W ''a'' form_ledger" by (rule form_ledger_ok)
  obtain s where row: "get_budget (led_db form_ledger) ''b'' = Some (form_budget\<lparr>bud_updatedAt := s\<rparr>)" by (rule form_budget_row)
  have tidy: "tidy_budget (form_budget\<lparr>bud_updatedAt := s\<rparr>)"
    by (simp add: tidy_budget_def form_budget_def MAX_SAFE_INTEGER_def trim_def is_space_def)
  define f where "f = load_budget form_surroundings (Some (form_budget\<lparr>bud_updatedAt := s\<rparr>)) (new_budget_form form_surroundings)"
  obtain r l' where save: "budget_form_save (\<lambda>_. 2000) (form_surroundings, f) form_ledger = (r, l')" by fastforce
  have now: "\<forall>j::nat. plausible 2000" using plausible_small by simp
  have "bf_rollover f" by (simp add: f_def load_budget_def form_budget_def)
  moreover have "form_budget\<lparr>bud_updatedAt := s, bud_updatedAt := s'\<rparr> = form_budget\<lparr>bud_updatedAt := s'\<rparr>" for s' by simp
  note budget_untouched [OF ok form_ledger_rows_valid row now tidy save [unfolded f_def], folded f_def, unfolded this]
  ultimately show ?thesis using save by blast
qed

end
