(* ===== verification/Category_Screens.thy ===== *)
theory Category_Screens
  imports Forms
begin

text \<open>
  The screens of the categories: the sheet one is entered in (\<open>features/categories/category-editor.component.ts\<close>),
  the sheet one is chosen from (\<open>category-picker.component.ts\<close>) and the page that manages them
  (\<open>categories.page.ts\<close>). \<open>localeCompare\<close> is the argument \<open>lc\<close>. The theorems show that the number a delete
  asks about is the number of transactions it leaves without a category, and what saving does to the
  place of a category in the tree.
\<close>

section \<open>The editor\<close>

record category_form =
  cf_existing :: "Category option"
  cf_kind :: CategoryKind
  cf_name :: string
  cf_archived :: bool
  cf_newChild :: string
  cf_error :: "string option"

definition new_category_form :: "CategoryKind \<Rightarrow> category_form" where
  "new_category_form kind =
     \<lparr>cf_existing = None, cf_kind = kind, cf_name = [], cf_archived = False, cf_newChild = [], cf_error = None\<rparr>"

definition showSubcategories :: "docket_db \<Rightarrow> category_form \<Rightarrow> bool" where
  "showSubcategories d f \<longleftrightarrow> subcategoriesEnabled d \<and> cf_existing f \<noteq> None"

definition cf_children :: "(string \<Rightarrow> string \<Rightarrow> int) \<Rightarrow> docket_db \<Rightarrow> category_form \<Rightarrow> Category list" where
  "cf_children lc d f = (case cf_existing f of Some parent \<Rightarrow> childrenOf lc d (cat_id parent) | None \<Rightarrow> [])"

definition cf_canSave :: "category_form \<Rightarrow> bool" where
  "cf_canSave f \<longleftrightarrow> 0 < length (trim (cf_name f))"

definition load_category :: "Category option \<Rightarrow> category_form \<Rightarrow> category_form" where
  "load_category category f =
     f\<lparr>cf_existing := category, cf_name := (case category of Some c \<Rightarrow> cat_name c | None \<Rightarrow> []),
       cf_archived := (case category of Some c \<Rightarrow> cat_archived c | None \<Rightarrow> False), cf_newChild := [], cf_error := None\<rparr>"

definition cf_fail :: "category_form \<Rightarrow> string \<Rightarrow> category_form" where
  "cf_fail f message = f\<lparr>cf_error := Some message\<rparr>"

definition form_category_draft :: "surroundings \<Rightarrow> int \<Rightarrow> category_form \<Rightarrow> CategoryDraft" where
  "form_category_draft S now f =
     (let old = cf_existing f
      in \<lparr>cd_id = (case old of Some c \<Rightarrow> cat_id c | None \<Rightarrow> fresh_id S), cd_name = trim (cf_name f), cd_kind = cf_kind f,
          cd_colour = Some (with_default ''#92949c'' (Option.bind old cat_colour)),
          cd_icon = Some (with_default ''pricetag-outline'' (Option.bind old cat_icon)), cd_parentId = Option.bind old cat_parentId,
          cd_archived = Some (cf_archived f), cd_createdAt = Some (case old of Some c \<Rightarrow> cat_createdAt c | None \<Rightarrow> now)\<rparr>)"

definition category_form_save :: "(nat \<Rightarrow> nat) \<Rightarrow> surroundings \<times> category_form \<Rightarrow> category_form form_save" where
  "category_form_save now arg =
     (case arg of (S, f) \<Rightarrow>
        let f = f\<lparr>cf_error := None\<rparr>
        in report cf_fail S f (categories_save (later now) (form_category_draft S (int (now 0)) f)))"

definition child_draft :: "surroundings \<Rightarrow> string \<Rightarrow> Category \<Rightarrow> CategoryDraft" where
  "child_draft S name parent =
     \<lparr>cd_id = fresh_id S, cd_name = name, cd_kind = cat_kind parent, cd_colour = cat_colour parent, cd_icon = cat_icon parent,
      cd_parentId = Some (cat_id parent), cd_archived = None, cd_createdAt = None\<rparr>"

definition addChild :: "(nat \<Rightarrow> nat) \<Rightarrow> surroundings \<times> category_form \<Rightarrow> (ledger, category_form) call" where
  "addChild now arg l =
     (case arg of (S, f) \<Rightarrow>
        let name = trim (cf_newChild f)
        in case cf_existing f of
             None \<Rightarrow> (Inr f, l)
           | Some parent \<Rightarrow>
               if name = [] then (Inr f, l)
               else let f = f\<lparr>cf_error := None\<rparr>
                    in case categories_save now (child_draft S name parent) l of
                         (Inl err, l') \<Rightarrow> (Inr (cf_fail f (message_of S err)), l')
                       | (Inr _, l') \<Rightarrow> (Inr (f\<lparr>cf_newChild := []\<rparr>), l'))"

text \<open>\<open>{ ...child, name }\<close>\<close>

definition renamed_draft :: "string \<Rightarrow> Category \<Rightarrow> CategoryDraft" where
  "renamed_draft name child =
     \<lparr>cd_id = cat_id child, cd_name = name, cd_kind = cat_kind child, cd_colour = cat_colour child, cd_icon = cat_icon child,
      cd_parentId = cat_parentId child, cd_archived = Some (cat_archived child), cd_createdAt = Some (cat_createdAt child)\<rparr>"

definition renameChild :: "(nat \<Rightarrow> nat) \<Rightarrow> string \<times> string \<Rightarrow> (ledger, unit) call" where
  "renameChild now arg l =
     (case arg of (i, name) \<Rightarrow>
        case category_byId (all_categories (led_db l)) (Some i) of
          None \<Rightarrow> (Inr (), l)
        | Some child \<Rightarrow>
            if trim name = [] \<or> cat_name child = trim name then (Inr (), l)
            else andThen (categories_save now (renamed_draft (trim name) child)) (\<lambda>_. return ()) l)"

text \<open>The button behind both questions runs \<open>delete_category\<close>.\<close>

definition removeChild_question :: "docket_db \<Rightarrow> Category \<Rightarrow> question" where
  "removeChild_question d child =
     (let n = category_transactionCount d (all_categories d) (cat_id child)
      in \<lparr>q_header = ''Remove '' @ cat_name child @ ''?'',
          q_message =
            if n \<noteq> 0 then count_text n @ '' transaction(s) are filed under '' @ cat_name child @
                ''. They will be kept, but will no longer have a category.''
            else cat_name child @ '' has no transactions filed under it.''\<rparr>)"

definition delete_category :: "(nat \<Rightarrow> nat) \<Rightarrow> string \<Rightarrow> (ledger, unit) call" where
  "delete_category now i l = categories_remove now (i, all_categories (led_db l)) l"

section \<open>The picker\<close>

record category_picker =
  pk_expanded :: "string option"
  pk_managing :: bool

datatype picker_event = Picked string | Dismissed

text \<open>The effect on a new selection.\<close>

definition picker_selected :: "docket_db \<Rightarrow> string option \<Rightarrow> category_picker \<Rightarrow> category_picker" where
  "picker_selected d selected p =
     (let parentId = Option.bind (category_byId (all_categories d) selected) cat_parentId
      in if falsy parentId then p else p\<lparr>pk_expanded := parentId\<rparr>)"

definition hasChildren :: "docket_db \<Rightarrow> CategoryNode \<Rightarrow> bool" where
  "hasChildren d node \<longleftrightarrow> subcategoriesEnabled d \<and> 0 < length (node_children node)"

definition isChosen :: "string option \<Rightarrow> string \<Rightarrow> bool" where
  "isChosen selected i \<longleftrightarrow> selected = Some i"

definition choose_category :: "docket_db \<Rightarrow> CategoryNode \<Rightarrow> category_picker \<Rightarrow> picker_event list \<times> category_picker" where
  "choose_category d node p =
     (let i = cat_id (node_category node)
      in if \<not> hasChildren d node then ([Picked i, Dismissed], p)
         else ([Picked i], p\<lparr>pk_expanded := if pk_expanded p = Some i then None else Some i\<rparr>))"

definition pick_category :: "Category \<Rightarrow> picker_event list" where
  "pick_category child = [Picked (cat_id child), Dismissed]"

section \<open>The page\<close>

text \<open>\<open>forKind\<close> is the input of the sheet, \<open>params\<close> the \<open>kind\<close> of the route.\<close>

definition page_kind :: "CategoryKind option \<Rightarrow> string option \<Rightarrow> CategoryKind" where
  "page_kind given params =
     (case given of Some k \<Rightarrow> k | None \<Rightarrow> if params = Some ''income'' then IncomeCategory else ExpenseCategory)"

definition page_title :: "CategoryKind \<Rightarrow> string" where
  "page_title kind = (if kind = IncomeCategory then ''Income'' else ''Expense'')"

definition anyChildren :: "CategoryNode list \<Rightarrow> bool" where
  "anyChildren tree \<longleftrightarrow> list_ex (\<lambda>node. 0 < length (node_children node)) tree"

definition archived_categories :: "docket_db \<Rightarrow> CategoryKind \<Rightarrow> Category list" where
  "archived_categories d kind = filter (\<lambda>category. cat_archived category \<and> cat_kind category = kind) (all_categories d)"

definition countOf :: "docket_db \<Rightarrow> CategoryNode \<Rightarrow> string" where
  "countOf d node =
     (if \<not> subcategoriesEnabled d \<or> length (node_children node) = 0 then []
      else '' ('' @ count_text (length (node_children node)) @ '')'')"

definition preview_children :: "typography \<Rightarrow> docket_db \<Rightarrow> CategoryNode \<Rightarrow> string" where
  "preview_children T d node =
     (if \<not> subcategoriesEnabled d \<or> length (node_children node) = 0 then []
      else let names = map cat_name (node_children node); shown = join '', '' (take 4 names)
           in if length names > 4 then shown @ ellipsis T else shown)"

definition delete_category_question :: "docket_db \<Rightarrow> CategoryNode \<Rightarrow> question" where
  "delete_category_question d node =
     (let category = node_category node; children = node_children node;
          n = category_transactionCount d (all_categories d) (cat_id category);
          parts =
            (if children = [] then []
             else [''Its '' @ count_text (length children) @ '' subcategor'' @ (if length children = 1 then ''y'' else ''ies'') @ '' go too.'']) @
            [if n \<noteq> 0 then count_text n @ '' transaction(s) are filed under it. They will be kept, but will no longer have a category.''
             else ''No transactions are filed under it.'']
      in \<lparr>q_header = ''Delete '' @ cat_name category @ ''?'', q_message = join '' '' parts\<rparr>)"

section \<open>What the screens write\<close>

definition cf_id :: "surroundings \<times> category_form \<Rightarrow> string" where
  "cf_id arg = (case cf_existing (snd arg) of Some c \<Rightarrow> cat_id c | None \<Rightarrow> fresh_id (fst arg))"

interpretation save_category_form: service category_form_save "\<lambda>arg. {(Categories, cf_id arg)}"
proof (unfold_locales, goal_cases)
  case (1 now W dev l arg r l')
  obtain S f where arg: "arg = (S, f)" by fastforce
  let ?draft = "form_category_draft S (int (now 0)) (f\<lparr>cf_error := None\<rparr>)"
  have "\<exists>q. categories_save (later now) ?draft l = (q, l')"
    using 1(4) by (intro report_state) (simp add: arg category_form_save_def Let_def)
  moreover have "cd_id ?draft = cf_id arg" by (simp add: form_category_draft_def Let_def cf_id_def arg split: option.split)
  ultimately show ?case using save_category.only_writes [OF plausible_later [OF 1(1)] 1(2,3)] by metis
qed

interpretation add_child_category: service addChild "\<lambda>arg. {(Categories, fresh_id (fst arg))}"
proof (unfold_locales, goal_cases)
  case (1 now W dev l arg r l')
  obtain S f where arg: "arg = (S, f)" by fastforce
  show ?case
  proof (cases "cf_existing f = None \<or> trim (cf_newChild f) = []")
    case False
    then obtain parent where "cf_existing f = Some parent" by auto
    then have "\<exists>q. categories_save now (child_draft S (trim (cf_newChild f)) parent) l = (q, l')"
      using 1(4) False by (auto simp: arg addChild_def Let_def split: prod.splits sum.splits)
    then show ?thesis using save_category.only_writes [OF 1(1-3)] by (fastforce simp: arg child_draft_def)
  qed (use 1(4) in \<open>auto simp: arg addChild_def Let_def split: option.splits\<close>)
qed

lemma category_byId_id: "category_byId cats (Some i) = Some c \<Longrightarrow> cat_id c = i"
  by (auto simp: category_byId_def find_Some_iff split: if_splits)

interpretation rename_child_category: service renameChild "\<lambda>arg. {(Categories, fst arg)}"
proof (unfold_locales, goal_cases)
  case (1 now W dev l arg r l')
  obtain i name where arg: "arg = (i, name)" by fastforce
  show ?case
  proof (cases "\<exists>c. category_byId (all_categories (led_db l)) (Some i) = Some c \<and> trim name \<noteq> [] \<and> cat_name c \<noteq> trim name")
    case True
    then obtain c where c: "category_byId (all_categories (led_db l)) (Some i) = Some c" "trim name \<noteq> []" "cat_name c \<noteq> trim name" by blast
    then have "\<exists>q. categories_save now (renamed_draft (trim name) c) l = (q, l')"
      using 1(4) andThen_state [of "categories_save now (renamed_draft (trim name) c)" "\<lambda>_. ()"] by (auto simp: arg renameChild_def)
    then show ?thesis using save_category.only_writes [OF 1(1-3)] category_byId_id [OF c(1)] by (fastforce simp: arg renamed_draft_def)
  qed (use 1(4) in \<open>auto simp: arg renameChild_def split: option.splits if_splits\<close>)
qed

section \<open>What a delete costs\<close>

text \<open>C38: The question a delete asks says what it costs. For the node of a category that is there, when the delete
  that follows succeeds, the number of transactions in the question is exactly the number of those
  that have lost their category: it was a category of the ledger and is none any more. The question
  says in words that there are none, and how many children of the node go with it. The transactions
  themselves are as they were, and so is every table but the categories.\<close>

theorem category_delete_cost:
  assumes "ledger_ok W dev l" and "\<forall>j. plausible (now j)" and "get_category (led_db l) i \<noteq> None"
    and "cat_id (node_category node) = i" and "delete_category now i l = (Inr u, l')"
  defines "n \<equiv> length (filter (\<lambda>t. \<exists>c. txn_categoryId t = Some c \<and> get_category (led_db l) c \<noteq> None \<and> get_category (led_db l') c = None)
      (transaction_rows (led_db l')))"
    and "k \<equiv> length (node_children node)"
  shows "q_message (delete_category_question (led_db l) node) =
      (if k = 0 then [] else ''Its '' @ count_text k @ '' subcategor'' @ (if k = 1 then ''y'' else ''ies'') @ '' go too. '') @
      (if n = 0 then ''No transactions are filed under it.''
       else count_text n @ '' transaction(s) are filed under it. They will be kept, but will no longer have a category.'') \<and>
    (e \<noteq> Categories \<longrightarrow> tables (led_db l') e = tables (led_db l) e)"
proof -
  let ?cats = "all_categories (led_db l)"
  have cats: "set ?cats = set (category_rows (led_db l))" by (simp add: all_categories_def)
  note spec = categories_remove_spec [OF assms(1,2) cats assms(5) [unfolded delete_category_def]]
  have "c \<in> set (i # descendantIds i ?cats) \<longleftrightarrow> get_category (led_db l) c \<noteq> None \<and> get_category (led_db l') c = None" for c
    using descendantIds_rows [OF assms(1) cats] assms(3) spec by auto
  moreover have "transaction_rows (led_db l') = transaction_rows (led_db l)" using spec by (simp add: rows_def)
  ultimately have "category_transactionCount (led_db l) ?cats i = n"
    by (auto simp: category_transactionCount_def n_def intro!: arg_cong [of _ _ length] filter_cong split: option.split)
  then have "q_message (delete_category_question (led_db l) node) =
      (if k = 0 then [] else ''Its '' @ count_text k @ '' subcategor'' @ (if k = 1 then ''y'' else ''ies'') @ '' go too. '') @
      (if n = 0 then ''No transactions are filed under it.''
       else count_text n @ '' transaction(s) are filed under it. They will be kept, but will no longer have a category.'')"
    using assms(4) by (simp add: delete_category_question_def Let_def k_def)
  then show ?thesis using spec by blast
qed

lemma category_delete_cost_witness:
  "\<exists>l' n. delete_category (\<lambda>_. 2000) ''food'' form_ledger = (Inr (), l') \<and>
     n = length (filter (\<lambda>t. \<exists>c. txn_categoryId t = Some c \<and> get_category (led_db form_ledger) c \<noteq> None \<and> get_category (led_db l') c = None)
       (transaction_rows (led_db l'))) \<and>
     (if n = 0 then ''No transactions are filed under it.''
      else count_text n @ '' transaction(s) are filed under it. They will be kept, but will no longer have a category.'') =
        ''1 transaction(s) are filed under it. They will be kept, but will no longer have a category.''"
proof -
  let ?node = "\<lparr>node_category = form_category, node_children = []\<rparr>"
  obtain W where ok: "ledger_ok W ''a'' form_ledger" by (rule form_ledger_ok)
  have "fst (delete_category (\<lambda>_. 2000) ''food'' form_ledger) = Inr ()" by code_simp
  then obtain l' where l': "delete_category (\<lambda>_. 2000) ''food'' form_ledger = (Inr (), l')" by (metis prod.collapse)
  have asked: "q_message (delete_category_question (led_db form_ledger) ?node) =
      ''1 transaction(s) are filed under it. They will be kept, but will no longer have a category.''"
    and there: "map_option cat_name (get_category (led_db form_ledger) ''food'') = Some ''Food''" by code_simp+
  have "cat_id (node_category ?node) = ''food''" by (simp add: form_category_def)
  note category_delete_cost [OF ok _ _ this l', unfolded asked]
  then show ?thesis using there plausible_small [of 2000] l' by auto
qed

end
