(* ===== verification/Account_Screens.thy ===== *)
theory Account_Screens
  imports Forms Category_Tree Sections Cards
begin

text \<open>
  The screens of the accounts: the list with its sections and the balance sheet
  (\<open>features/accounts/accounts.page.ts\<close>), the sheet and the page of the groups (\<open>group-editor.component.ts\<close>,
  \<open>groups.page.ts\<close>), and the page that chooses what is counted (\<open>features/settings/totals.page.ts\<close>). What
  the two halves of the balance sheet show, what a row offers, and what every button writes.
\<close>

section \<open>The list of accounts\<close>

definition page_input :: "(string \<Rightarrow> string \<Rightarrow> int) \<Rightarrow> docket_db \<Rightarrow> string \<Rightarrow> SectionInput" where
  "page_input lc d asOf =
     \<lparr>in_accounts = active_accounts d, in_groups = active_groups lc (group_rows d), in_balances = balances d,
       in_reporting = reportingCurrency d, in_rateFor = (\<lambda>currency. rateToReporting d currency asOf)\<rparr>"

definition page_sections :: "(string \<Rightarrow> string \<Rightarrow> int) \<Rightarrow> docket_db \<Rightarrow> string \<Rightarrow> AccountSection list result" where
  "page_sections lc d asOf = buildSections (page_input lc d asOf)"

record half =
  half_side :: BalanceSheetSide
  half_total :: number
  half_sections :: "AccountSection list"

definition halves :: "AccountSection list \<Rightarrow> half list" where
  "halves sections =
     (let sheet = balanceSheet sections
      in [\<lparr>half_side = Asset, half_total = sheet_assets sheet, half_sections = filter (\<lambda>s. sec_side s = Asset) sections\<rparr>,
          \<lparr>half_side = Liability, half_total = sheet_liabilities sheet, half_sections = filter (\<lambda>s. sec_side s = Liability) sections\<rparr>])"

definition archived_accounts :: "docket_db \<Rightarrow> Account list" where
  "archived_accounts d = filter acc_archived (all_accounts d)"

definition balanceOf :: "docket_db \<Rightarrow> Account \<Rightarrow> Minor" where
  "balanceOf d account = with_default (acc_openingBalance account) (balances d (acc_id account))"

text \<open>The names of the kinds, and the line under an account's name. The dot between its parts is \<open>CHR 0xB7\<close>.\<close>

definition kind_text :: "AccountKind \<Rightarrow> string" where
  "kind_text kind =
     (case kind of
        Cash \<Rightarrow> ''cash'' | Bank \<Rightarrow> ''bank'' | Card \<Rightarrow> ''card'' | Wallet \<Rightarrow> ''wallet'' | Savings \<Rightarrow> ''savings'' | Investment \<Rightarrow> ''investment'')"

definition subtitle :: "intl \<Rightarrow> date_text \<Rightarrow> docket_db \<Rightarrow> string \<Rightarrow> Account \<Rightarrow> AccountSection \<Rightarrow> string result" where
  "subtitle intl date_text d asOf account sec =
     (if \<not> sec_owed sec then Inr (kind_text (acc_kind account))
      else let available =
                 (case availableCredit (balanceOf d account) (acc_creditLimit account) of
                    Some n \<Rightarrow> [formatMoney intl (minor n) (acc_currency account) @ '' available''] | None \<Rightarrow> []);
               finish = (\<lambda>parts. if parts = [] then kind_text (acc_kind account) else join ('' '' @ [CHR 0xB7] @ '' '') parts)
           in case (acc_statementDay account, acc_dueDay account) of
                (Some statementDay, Some dueDay) \<Rightarrow>
                  (case lastStatementDate statementDay asOf of
                     Inl err \<Rightarrow> Inl err
                   | Inr closing \<Rightarrow>
                       map_sum id (\<lambda>due. finish (available @ [''due '' @ date_text DayAndMonth due])) (dueDateFor dueDay closing))
              | _ \<Rightarrow> Inr (finish available))"

definition payable :: "docket_db \<Rightarrow> Account \<Rightarrow> AccountSection \<Rightarrow> bool" where
  "payable d account sec \<longleftrightarrow> sec_owed sec \<and> balanceOf d account < 0 \<and> isCreditCard (group_rows d) account"

definition shown_balance :: "docket_db \<Rightarrow> Account \<Rightarrow> AccountSection \<Rightarrow> number" where
  "shown_balance d account sec = displayBalance (minor (balanceOf d account)) (sec_owed sec)"

definition alarming :: "docket_db \<Rightarrow> Account \<Rightarrow> AccountSection \<Rightarrow> bool" where
  "alarming d account sec \<longleftrightarrow> \<not> sec_owed sec \<and> balanceOf d account < 0"

definition converted_balance :: "intl \<Rightarrow> docket_db \<Rightarrow> string \<Rightarrow> Account \<Rightarrow> string option result" where
  "converted_balance intl d asOf account =
     (let reporting = reportingCurrency d
      in if toUpperCase (acc_currency account) = toUpperCase reporting then Inr None
         else case rateToReporting d (acc_currency account) asOf of
                Inl err \<Rightarrow> Inl err
              | Inr None \<Rightarrow> Inr None
              | Inr (Some rate) \<Rightarrow>
                  map_sum id (\<lambda>x. Some (formatMoney intl x reporting))
                    (convert (minor (balanceOf d account)) rate (acc_currency account) reporting))"

text \<open>Deleting an account: one with a history is offered to be archived instead. The second component is
  what the button does.\<close>

datatype account_offer = ArchiveInstead | DeleteAccount

definition delete_account_question :: "docket_db \<Rightarrow> Account \<Rightarrow> question \<times> account_offer" where
  "delete_account_question d account =
     (let n = account_transactionCount d (acc_id account)
      in if n > 0 then
           (\<lparr>q_header = ''Archive instead?'',
             q_message = acc_name account @ '' has '' @ count_text n @ '' transaction(s). Deleting it would leave them without an account. '' @
               ''Archive it to hide it from the lists while keeping its history.''\<rparr>, ArchiveInstead)
         else
           (\<lparr>q_header = ''Delete account?'', q_message = acc_name account @ '' will be removed from every device you sync with.''\<rparr>,
            DeleteAccount))"

definition delete_account :: "(nat \<Rightarrow> nat) \<Rightarrow> Account \<times> account_offer \<Rightarrow> Account sheet \<Rightarrow> (ledger, Account sheet) call" where
  "delete_account now arg s =
     (case snd arg of
        ArchiveInstead \<Rightarrow> then_close (accounts_setArchived now (acc_id (fst arg), True)) s
      | DeleteAccount \<Rightarrow> then_close (accounts_remove now (acc_id (fst arg))) s)"

section \<open>What is counted\<close>

record totals_row =
  row_account :: Account
  row_counted :: bool
  row_group :: string

definition totals_rows :: "docket_db \<Rightarrow> totals_row list" where
  "totals_rows d =
     map (\<lambda>account. \<lparr>row_account = account, row_counted = countsInTotals account,
       row_group = (case group_byId (group_rows d) (acc_groupId account) of Some g \<Rightarrow> grp_name g | None \<Rightarrow> ''Not in a group'')\<rparr>)
       (active_accounts d)"

definition setCounted :: "(nat \<Rightarrow> nat) \<Rightarrow> Account \<times> bool \<Rightarrow> (ledger, unit) call" where
  "setCounted now arg = setCountedInTotals now (acc_id (fst arg), snd arg)"

section \<open>The group editor\<close>

record group_type =
  gt_value :: AccountGroupType
  gt_label :: string
  gt_icon :: string
  gt_note :: string

definition GROUP_TYPES :: "typography \<Rightarrow> group_type list" where
  "GROUP_TYPES T =
     [\<lparr>gt_value = Default, gt_label = ''Default'', gt_icon = ''folder-outline'',
       gt_note = ''Ordinary accounts. Balances read as money you hold, and count as assets.''\<rparr>,
      \<lparr>gt_value = CreditCard, gt_label = ''Credit card'', gt_icon = ''card-outline'',
       gt_note = ''Balances read as money owed and count as liabilities; a bill can be paid.''\<rparr>,
      \<lparr>gt_value = DebitCard, gt_label = ''Debit card'', gt_icon = ''card-outline'',
       gt_note = ''Cards drawing on money you already hold. Balances read as normal.''\<rparr>,
      \<lparr>gt_value = Loan, gt_label = ''Loan'', gt_icon = ''trending-down-outline'',
       gt_note = ''Money borrowed '' @ em_dash T @ '' a mortgage, a car loan. Counts as a liability, like a credit card.''\<rparr>]"

record group_form =
  gf_existing :: "AccountGroup option"
  gf_name :: string
  gf_type :: AccountGroupType
  gf_archived :: bool
  gf_error :: "string option"

definition new_group_form :: group_form where
  "new_group_form = \<lparr>gf_existing = None, gf_name = [], gf_type = Default, gf_archived = False, gf_error = None\<rparr>"

definition gf_canSave :: "group_form \<Rightarrow> bool" where
  "gf_canSave f \<longleftrightarrow> 0 < length (trim (gf_name f))"

definition typeNote :: "typography \<Rightarrow> group_form \<Rightarrow> string" where
  "typeNote T f = (case List.find (\<lambda>t. gt_value t = gf_type f) (GROUP_TYPES T) of Some t \<Rightarrow> gt_note t | None \<Rightarrow> [])"

definition load_group :: "AccountGroup option \<Rightarrow> group_form \<Rightarrow> group_form" where
  "load_group grp f =
     f\<lparr>gf_existing := grp, gf_name := (case grp of Some g \<Rightarrow> grp_name g | None \<Rightarrow> []),
       gf_type := (case grp of Some g \<Rightarrow> grp_type g | None \<Rightarrow> Default),
       gf_archived := (case grp of Some g \<Rightarrow> grp_archived g | None \<Rightarrow> False), gf_error := None\<rparr>"

definition gf_fail :: "group_form \<Rightarrow> string \<Rightarrow> group_form" where
  "gf_fail f message = f\<lparr>gf_error := Some message\<rparr>"

text \<open>The icon of a type; none of the icons depends on the typography.\<close>

definition type_icon :: "AccountGroupType \<Rightarrow> string" where
  "type_icon type =
     (case List.find (\<lambda>t. gt_value t = type) (GROUP_TYPES \<lparr>en_dash = [], em_dash = [], right_arrow = [], chevron = [], minus_sign = [], ellipsis = []\<rparr>) of
        Some t \<Rightarrow> gt_icon t | None \<Rightarrow> ''folder-outline'')"

definition form_group_draft :: "surroundings \<Rightarrow> group_form \<Rightarrow> AccountGroupDraft" where
  "form_group_draft S f =
     (let old = gf_existing f
      in \<lparr>gd_id = (case old of Some g \<Rightarrow> grp_id g | None \<Rightarrow> fresh_id S), gd_name = trim (gf_name f), gd_type = gf_type f,
          gd_order = map_option grp_order old, gd_colour = Some (case old of Some g \<Rightarrow> grp_colour g | None \<Rightarrow> ''#3880ff''),
          gd_icon = Some (type_icon (gf_type f)), gd_archived = Some (gf_archived f), gd_createdAt = map_option grp_createdAt old\<rparr>)"

definition group_form_save :: "(nat \<Rightarrow> nat) \<Rightarrow> surroundings \<times> group_form \<Rightarrow> group_form form_save" where
  "group_form_save now arg =
     (case arg of (S, f) \<Rightarrow>
        let f = f\<lparr>gf_error := None\<rparr>
        in report gf_fail S f (\<lambda>l. groups_save now (form_group_draft S f, group_rows (led_db l)) l))"

section \<open>The page of the groups\<close>

definition archived_groups :: "(string \<Rightarrow> string \<Rightarrow> int) \<Rightarrow> docket_db \<Rightarrow> AccountGroup list" where
  "archived_groups lc d = filter grp_archived (ordered_groups lc (group_rows d))"

definition labelFor :: "typography \<Rightarrow> AccountGroup \<Rightarrow> string" where
  "labelFor T grp = (case List.find (\<lambda>t. gt_value t = grp_type grp) (GROUP_TYPES T) of Some t \<Rightarrow> gt_label t | None \<Rightarrow> ''Default'')"

definition countIn :: "docket_db \<Rightarrow> AccountGroup \<Rightarrow> string" where
  "countIn d grp =
     (let n = length (accountsIn (all_accounts d) (grp_id grp)) in if n = 1 then ''1 account'' else count_text n @ '' accounts'')"

text \<open>\<open>splice\<close> out of and back into the order of the ids. Ionic gives indices of rows that exist.\<close>

definition moved :: "nat \<Rightarrow> nat \<Rightarrow> 'a list \<Rightarrow> 'a list" where
  "moved from to ids =
     (case drop from ids of
        [] \<Rightarrow> ids
      | x # rest \<Rightarrow> let kept = take from ids @ rest in take to kept @ x # drop to kept)"

definition groups_reorder :: "(nat \<Rightarrow> nat) \<Rightarrow> (string \<Rightarrow> string \<Rightarrow> int) \<times> nat \<times> nat \<Rightarrow> (ledger, unit) call" where
  "groups_reorder now arg l =
     (case arg of (lc, from, to) \<Rightarrow>
        reorder now (moved from to (map grp_id (active_groups lc (group_rows (led_db l)))), group_rows (led_db l)) l)"

definition delete_group_question :: "docket_db \<Rightarrow> AccountGroup \<Rightarrow> question" where
  "delete_group_question d grp =
     (let n = length (accountsIn (all_accounts d) (grp_id grp));
          consequence = (if n \<noteq> 0 then ''Its '' @ (if n = 1 then ''account'' else count_text n @ '' accounts'') @ '' will be kept and left ungrouped.''
            else ''It has no accounts in it.'')
      in \<lparr>q_header = ''Delete group?'', q_message = grp_name grp @ '' will be removed from every device you sync with. '' @ consequence\<rparr>)"

definition delete_group :: "(nat \<Rightarrow> nat) \<Rightarrow> AccountGroup \<Rightarrow> AccountGroup sheet \<Rightarrow> (ledger, AccountGroup sheet) call" where
  "delete_group now grp s l = then_close (groups_remove now (grp_id grp, all_accounts (led_db l))) s l"

section \<open>What the screens write\<close>

definition gf_id :: "surroundings \<times> group_form \<Rightarrow> string" where
  "gf_id arg = (case gf_existing (snd arg) of Some g \<Rightarrow> grp_id g | None \<Rightarrow> fresh_id (fst arg))"

interpretation save_group_form: service group_form_save "\<lambda>arg. {(AccountGroups, gf_id arg)}"
proof (unfold_locales, goal_cases)
  case (1 now W dev l arg r l')
  obtain S f where arg: "arg = (S, f)" by fastforce
  let ?draft = "form_group_draft S (f\<lparr>gf_error := None\<rparr>)"
  have "\<exists>q. groups_save now (?draft, group_rows (led_db l)) l = (q, l')"
    using 1(4) by (intro report_state [of gf_fail S "f\<lparr>gf_error := None\<rparr>" "\<lambda>l. groups_save now (?draft, group_rows (led_db l)) l"])
      (simp add: arg group_form_save_def Let_def)
  moreover have "gd_id ?draft = gf_id arg" by (simp add: form_group_draft_def Let_def gf_id_def arg split: option.split)
  ultimately show ?case using save_group.only_writes [OF 1(1-3)] by (metis fst_conv)
qed

interpretation set_counted: service setCounted "\<lambda>arg. {(Accounts, acc_id (fst arg))}"
  using count_account.only_writes by unfold_locales (fastforce simp: setCounted_def)

section \<open>The headline and the two halves\<close>

lemma map_sum_Some: "map_sum id Some x = Inr y \<longleftrightarrow> (\<exists>z. x = Inr z \<and> y = Some z)"
  by (cases x) auto

lemma row_ids_distinct:
  assumes "distinct (map fst t)" and "\<forall>(k, v) \<in> set t. \<forall>x. as v = Some x \<longrightarrow> i x = k"
  shows "distinct (map i (List.map_filter as (map snd t))) \<and> set (map i (List.map_filter as (map snd t))) \<subseteq> fst ` set t"
  using assms
proof (induction t)
  case (Cons p t)
  let ?rest = "map i (List.map_filter as (map snd t))"
  have rest: "distinct ?rest" "set ?rest \<subseteq> fst ` set t" using Cons by auto
  show ?case
  proof (cases "as (snd p)")
    case (Some x)
    then have "i x = fst p" using Cons.prems(2) by (cases p) simp
    moreover have "fst p \<notin> set ?rest" using rest(2) Cons.prems(1) by auto
    ultimately show ?thesis using rest Some by (auto simp: map_filter_simps)
  qed (use rest in \<open>auto simp: map_filter_simps\<close>)
qed (simp add: map_filter_simps)

lemma net_loop_exact:
  assumes "exact input f accounts" and "\<forall>a \<in> set accounts. countsInTotals a \<and> in_balances input (acc_id a) \<noteq> None"
    and "\<bar>n\<bar> + gross_worth f accounts < 2 ^ 53"
  shows "\<exists>u'. net_loop (in_balances input) (in_rateFor input) (in_reporting input) accounts (minor n, u) =
    Inr (minor (n + total_worth f accounts), u')"
  using assms
proof (induction accounts arbitrary: n u)
  case (Cons a as)
  have rest: "exact input f as" using Cons.prems(1) by (simp add: exact_def)
  have c: "contribution input a = Inr (map_option minor (f a))" "worth f a = with_default 0 (f a)" "countsInTotals a"
    using Cons.prems(1,2) by (simp_all add: exact_def worth_def)
  obtain b where b: "in_balances input (acc_id a) = Some b" using Cons.prems(2) by auto
  show ?case
  proof (cases "f a")
    case None
    then show ?thesis using Cons.IH [OF rest, of n "u @ [acc_currency a]"] Cons.prems(2,3) c b
      by (auto simp: contribution_def with_default_def map_sum_Some split: if_splits sum.splits option.splits)
  next
    case (Some k)
    have bound: "\<bar>n + k\<bar> + gross_worth f as < 2 ^ 53" using Cons.prems(3) c(2) Some by (simp add: with_default_def)
    then have "num_plus (minor n) (minor k) = minor (n + k)" using gross_bound(2) [of f as] by (intro num_plus_exact) linarith
    moreover obtain u' where "net_loop (in_balances input) (in_rateFor input) (in_reporting input) as (minor (n + k), u) =
        Inr (minor (n + k + total_worth f as), u')" using Cons.IH [OF rest _ bound] Cons.prems(2) by auto
    ultimately show ?thesis using c b Some
      by (auto simp: contribution_def with_default_def convertBalance_def inReporting_def add.assoc map_sum_Some split: if_splits sum.splits option.splits)
  qed
qed simp

lemma counted_worth:
  "total_worth f (filter countsInTotals as) = total_worth f as" "gross_worth f (filter countsInTotals as) = gross_worth f as"
  by (induction as) (auto simp: worth_def)

lemma groups_distinct:
  assumes "ledger_ok W dev l"
  shows "distinct (map grp_id (group_rows (led_db l)))"
proof -
  have tab: "table_ok (tables (led_db l) AccountGroups)" using ledger_okD(1) [OF assms] by (simp add: db_ok_def)
  have "grp_id g = k" if "(k, v) \<in> set (tables (led_db l) AccountGroups)" "as_group v = Some g" for k v g
    using get_group_id [OF assms, of k g] tget_mem [OF tab] that by (auto simp: row_def bind_eq_Some_conv)
  then show ?thesis
    using row_ids_distinct [of "tables (led_db l) AccountGroups" as_group grp_id] table_distinct [OF tab]
    by (auto simp: rows_def toArray_def)
qed

lemma balances_defined: "a \<in> set (account_rows d) \<Longrightarrow> balances d (acc_id a) \<noteq> None"
proof -
  assume a: "a \<in> set (account_rows d)"
  have keep: "m i \<noteq> None \<Longrightarrow> fold add_transaction txns m i \<noteq> None" for m i txns
  proof (induction txns arbitrary: m)
    case (Cons t txns)
    have "add_transaction t m i \<noteq> None"
      using Cons.prems by (auto simp: add_transaction_def add_effect_get Let_def split: option.split if_splits)
    then show ?case using Cons.IH by simp
  qed simp
  have "opening_balances (account_rows d) (acc_id a) \<noteq> None"
    using a unfolding opening_balances_def map_of_eq_None_iff by force
  then show ?thesis using keep by (simp add: balances_def balances_of_def)
qed

text \<open>C40: The headline is the difference of the two totals under it. With contributions in the exact range the
  accounts page shows every active account in one section; net worth, which is computed on its own, is
  the balance sheet's net figure, and that is what is held less what is owed.\<close>

theorem headline_explained:
  assumes "ledger_ok W dev l" and "exact (page_input lc (led_db l) day) f (active_accounts (led_db l))"
    and "gross_worth f (active_accounts (led_db l)) < 2 ^ 53"
  shows "\<exists>ss assets liabilities. page_sections lc (led_db l) day = Inr ss \<and>
    mset (concat (map sec_accounts ss)) = mset (active_accounts (led_db l)) \<and>
    map half_total (halves ss) = [assets, liabilities] \<and>
    netWorth day (led_db l) = Inr (num_plus assets (num_neg liabilities))"
proof -
  let ?d = "led_db l" and ?input = "page_input lc (led_db l) day"
  have "distinct (map grp_id (active_groups lc (group_rows ?d)))"
    using groups_distinct [OF assms(1)] mset_sort_by [of "compareGroups lc" "group_rows ?d"]
    by (metis active_groups_def distinct_map_filter mset_eq_imp_distinct_iff mset_map ordered_groups_def)
  then obtain ss where ss: "page_sections lc ?d day = Inr ss" "mset (concat (map sec_accounts ss)) = mset (active_accounts ?d)"
      "sheet_net (balanceSheet ss) = minor (total_worth f (active_accounts ?d))"
    using sections_add_up [of ?input f] assms(2,3) by (auto simp: page_sections_def page_input_def)
  have "a \<in> set (account_rows ?d)" if "a \<in> set (counted ?d)" for a
    using that by (simp add: counted_def active_accounts_def all_accounts_def)
  then have "\<forall>a \<in> set (counted ?d). countsInTotals a \<and> in_balances ?input (acc_id a) \<noteq> None"
    using balances_defined by (auto simp: page_input_def counted_def)
  moreover have "exact ?input f (counted ?d)" "gross_worth f (counted ?d) < 2 ^ 53" "total_worth f (counted ?d) = total_worth f (active_accounts ?d)"
    using assms(2,3) by (auto simp: exact_def counted_def counted_worth)
  ultimately obtain u' where "net_loop (balances ?d) (\<lambda>c. rateToReporting ?d c day) (reportingCurrency ?d) (counted ?d) (Fin 0, []) =
      Inr (minor (total_worth f (active_accounts ?d)), u')"
    using net_loop_exact [of ?input f "counted ?d" 0 "[]"] by (auto simp: page_input_def)
  then have "netWorth day ?d = Inr (sheet_net (balanceSheet ss))" by (simp add: netWorth_def netWorthDetail_def ss(3))
  moreover have "sheet_net (balanceSheet ss) = num_plus (sheet_assets (balanceSheet ss)) (num_neg (sheet_liabilities (balanceSheet ss)))"
    by (simp add: balanceSheet_def split: prod.split)
  ultimately show ?thesis using ss(1,2) by (simp add: halves_def Let_def)
qed

definition page_rows :: "AnyEntity list" where
  "page_rows = [AccountRow (plain_account ''x'' 1000), AccountRow (sample_card\<lparr>acc_groupId := Some ''g''\<rparr>), AccountGroupRow form_group]"

definition page_ledger :: ledger where
  "page_ledger = snd (put_all (timed (\<lambda>_. 1000) 0 page_rows) (new_ledger ''a''))"

lemma page_ledger_ok: obtains W where "ledger_ok W ''a'' page_ledger"
proof -
  have "fst (put_all (timed (\<lambda>_. 1000) 0 page_rows) (new_ledger ''a'')) = Inr ()" by code_simp
  then have "put_all (timed (\<lambda>_. 1000) 0 page_rows) (new_ledger ''a'') = (Inr (), page_ledger)" by (simp add: page_ledger_def prod_eq_iff)
  moreover have "distinct (map (\<lambda>v. (entity_of v, entity_id v)) page_rows)" by (simp add: page_rows_def sample_card_def plain_account_def)
  moreover have "ledger_ok {} ''a'' (new_ledger ''a'')" using sample_devices by (simp add: new_ledger_ok)
  ultimately show ?thesis using put_timed_effect(1) [of "{}" "''a''" "new_ledger ''a''" "\<lambda>_. 1000" 0 page_rows] plausible_small [of 1000] that
    by fastforce
qed

lemma headline_explained_witness:
  "\<exists>ss assets liabilities. page_sections by_length (led_db page_ledger) ''2024-03-10'' = Inr ss \<and>
     map half_total (halves ss) = [assets, liabilities] \<and>
     netWorth ''2024-03-10'' (led_db page_ledger) = Inr (num_plus assets (num_neg liabilities)) \<and> length (concat (map sec_accounts ss)) = 2"
proof -
  let ?d = "led_db page_ledger" and ?day = "''2024-03-10''" and ?f = "\<lambda>a. Some (acc_openingBalance a)"
  obtain W where ok: "ledger_ok W ''a'' page_ledger" by (rule page_ledger_ok)
  have "map (\<lambda>a. (acc_currency a, acc_openingBalance a, balances ?d (acc_id a), countsInTotals a)) (active_accounts ?d) =
      [(''USD'', - 900, Some (- 900), True), (''USD'', 1000, Some 1000, True)]" "reportingCurrency ?d = ''USD''" by code_simp+
  then obtain a b where ab: "active_accounts ?d = [a, b]" "acc_currency a = ''USD''" "acc_currency b = ''USD''" "acc_openingBalance a = - 900"
      "acc_openingBalance b = 1000" "balances ?d (acc_id a) = Some (- 900)" "balances ?d (acc_id b) = Some 1000" "countsInTotals a" "countsInTotals b"
      "reportingCurrency ?d = ''USD''" by auto
  have "exact (page_input by_length ?d ?day) ?f (active_accounts ?d)" "gross_worth ?f (active_accounts ?d) < 2 ^ 53"
    using ab by (simp_all add: exact_def worth_def page_input_def contribution_def with_default_def sameCurrency_def)
  from headline_explained [OF ok this] obtain ss assets liabilities where ss: "page_sections by_length ?d ?day = Inr ss"
      "mset (concat (map sec_accounts ss)) = mset (active_accounts ?d)" "map half_total (halves ss) = [assets, liabilities]"
      "netWorth ?day ?d = Inr (num_plus assets (num_neg liabilities))" by auto
  have "length (concat (map sec_accounts ss)) = 2" using mset_eq_length [OF ss(2)] ab by simp
  then show ?thesis using ss(1,3,4) by (intro exI conjI)
qed

end
