(* ===== verification/Pay_Bill_Sheet.thy ===== *)
theory Pay_Bill_Sheet
  imports Account_Screens
begin

text \<open>
  The sheet a card's bill is paid in (\<open>features/accounts/pay-bill.component.ts\<close>): the amounts and the accounts
  it offers, how a change in the background fills it again, and the payment it makes. The theorem joins
  the sheet to the payment and the statement: what is offered is accepted, and paying the statement
  balance leaves nothing of the bill.
\<close>

section \<open>The sheet\<close>

datatype PayChoice = StatementBalance | FullBalance | CustomAmount

record pay_form =
  pf_card :: "Account option"
  pf_summary :: "StatementSummary option"
  pf_choice :: PayChoice
  pf_custom :: string
  pf_fromId :: "string option"
  pf_date :: string
  pf_error :: "string option"

definition new_pay_form :: "surroundings \<Rightarrow> pay_form" where
  "new_pay_form S = \<lparr>pf_card = None, pf_summary = None, pf_choice = StatementBalance, pf_custom = [], pf_fromId = None,
     pf_date = today S, pf_error = None\<rparr>"

definition currentOwed :: "docket_db \<Rightarrow> pay_form \<Rightarrow> Minor" where
  "currentOwed d f =
     (case pf_card f of
        None \<Rightarrow> 0
      | Some crd \<Rightarrow> let balance = with_default (acc_openingBalance crd) (balances d (acc_id crd)) in if balance = 0 then 0 else - balance)"

definition fundingAccounts :: "docket_db \<Rightarrow> pay_form \<Rightarrow> Account list" where
  "fundingAccounts d f =
     (case pf_card f of
        None \<Rightarrow> []
      | Some crd \<Rightarrow>
          filter (\<lambda>account. acc_id account \<noteq> acc_id crd \<and> \<not> isLiability (group_rows d) account \<and>
            toUpperCase (acc_currency account) = toUpperCase (acc_currency crd)) (active_accounts d))"

definition safeAmount :: "string \<Rightarrow> string \<Rightarrow> Minor" where
  "safeAmount input currency =
     (case parseAmount (if trim input = [] then ''0'' else trim input) currency of Inl _ \<Rightarrow> 0 | Inr amount \<Rightarrow> amount)"

definition pay_amount_of :: "docket_db \<Rightarrow> pay_form \<Rightarrow> Minor" where
  "pay_amount_of d f =
     (case pf_card f of
        None \<Rightarrow> 0
      | Some crd \<Rightarrow>
          (case pf_choice f of
             StatementBalance \<Rightarrow> (case pf_summary f of Some s \<Rightarrow> remaining s | None \<Rightarrow> 0)
           | FullBalance \<Rightarrow> currentOwed d f
           | CustomAmount \<Rightarrow> safeAmount (pf_custom f) (acc_currency crd)))"

definition canPay :: "docket_db \<Rightarrow> pay_form \<Rightarrow> bool" where
  "canPay d f \<longleftrightarrow> pay_amount_of d f > 0 \<and> pf_fromId f \<noteq> None"

definition pay_money :: "intl \<Rightarrow> pay_form \<Rightarrow> Minor \<Rightarrow> string" where
  "pay_money intl f amount = formatMoney intl (minor amount) (case pf_card f of Some crd \<Rightarrow> acc_currency crd | None \<Rightarrow> ''USD'')"

text \<open>The effect that fills the sheet, for a card and again whenever the accounts or the groups change.\<close>

definition load_pay :: "surroundings \<Rightarrow> docket_db \<Rightarrow> Account option \<Rightarrow> pay_form \<Rightarrow> pay_form" where
  "load_pay S d crd f =
     (let f = f\<lparr>pf_card := crd, pf_error := None, pf_date := today S, pf_custom := []\<rparr>
      in if crd = None then f\<lparr>pf_summary := None\<rparr>
         else let options = fundingAccounts d f
              in if list_ex (\<lambda>account. Some (acc_id account) = pf_fromId f) options then f
                 else f\<lparr>pf_fromId := (case options of [] \<Rightarrow> None | account # _ \<Rightarrow> Some (acc_id account))\<rparr>)"

text \<open>The summary it asked for arrives. The choice is never the custom amount after this.\<close>

definition summary_arrived :: "StatementSummary option \<Rightarrow> pay_form \<Rightarrow> pay_form" where
  "summary_arrived s f =
     f\<lparr>pf_summary := s, pf_choice := (case s of Some v \<Rightarrow> if remaining v > 0 then StatementBalance else FullBalance | None \<Rightarrow> FullBalance)\<rparr>"

section \<open>Paying\<close>

definition pf_fail :: "pay_form \<Rightarrow> string \<Rightarrow> pay_form" where
  "pf_fail f message = f\<lparr>pf_error := Some message\<rparr>"

definition pay_source :: "docket_db \<Rightarrow> pay_form \<Rightarrow> Account option" where
  "pay_source d f = List.find (\<lambda>a. Some (acc_id a) = pf_fromId f) (fundingAccounts d f)"

definition pay_form_pay :: "(nat \<Rightarrow> nat) \<Rightarrow> surroundings \<times> pay_form \<Rightarrow> pay_form form_save" where
  "pay_form_pay now arg l =
     (case arg of (S, f) \<Rightarrow>
        let f = f\<lparr>pf_error := None\<rparr>
        in case (pf_card f, pay_source (led_db l) f) of
             (Some crd, Some payer) \<Rightarrow>
               report pf_fail S f
                 (pay now (fresh_id S, today S, \<lparr>pay_card = crd, pay_from = payer, pay_amount = pay_amount_of (led_db l) f,
                    pay_date = Some (pf_date f), pay_note = None\<rparr>)) l
           | _ \<Rightarrow> (Inr (f, None), l))"

interpretation pay_form_pay: service pay_form_pay "\<lambda>arg. {(Transactions, fresh_id (fst arg))}"
proof (unfold_locales, goal_cases)
  case (1 now W dev l arg r l')
  obtain S f where arg: "arg = (S, f)" by fastforce
  consider (none) "l' = l" | (paid) request q where "pay now (fresh_id S, today S, request) l = (q, l')"
    using 1(4) by (auto simp: arg pay_form_pay_def Let_def split: option.splits dest!: report_state)
  then show ?case
  proof cases
    case (paid request q)
    from pay_bill.only_writes [OF 1(1-3) this] show ?thesis by (simp add: arg)
  qed simp
qed

section \<open>What is offered is accepted and settles the bill\<close>

lemma summary_paid:
  assumes "summariseStatement crd txns asOf = Inr (Some s)" and "mset txns' = add_mset p (mset txns)"
    and "txn_date p \<le> asOf" and "signedFor (acc_id crd) p = amount" and "0 < amount"
  shows "\<exists>s'. summariseStatement crd txns' asOf = Inr (Some s') \<and> remaining s' = max (remaining s - amount) 0 \<and>
    currentBalance s' = currentBalance s - amount"
proof (cases "closedOn s < txn_date p")
  case True
  then show ?thesis using summary_payment [OF assms(1,2) True assms(3-5)] by simp
next
  case False
  obtain sd dd closing due where c: "acc_statementDay crd = Some sd" "acc_dueDay crd = Some dd" "lastStatementDate sd asOf = Inr closing"
      "dueDateFor dd closing = Inr due"
    using assms(1) by (auto simp: summariseStatement_def Let_def split: option.splits sum.splits)
  have s: "s = \<lparr>closedOn = closing, dueOn = due, statementBalance = - balanceAsOf crd txns closing,
      paidSince = paid_between crd txns closing asOf,
      remaining = max (- balanceAsOf crd txns closing - paid_between crd txns closing asOf) 0,
      currentBalance = - balanceAsOf crd txns asOf\<rparr>"
    using assms(1) c by (simp add: summariseStatement_def Let_def)
  have "balanceAsOf crd txns' closing = balanceAsOf crd txns closing + amount" "balanceAsOf crd txns' asOf = balanceAsOf crd txns asOf + amount"
    "paid_between crd txns' closing asOf = paid_between crd txns closing asOf"
    using assms(2-5) s False by (simp_all add: balanceAsOf_sum paid_between_sum not_less)
  then show ?thesis using c assms(5) by (auto simp: summariseStatement_def Let_def s max_def)
qed

lemma pay_error: "pay now arg l = (Inl err, l') \<Longrightarrow> l' = l"
  by (cases arg) (auto simp: pay_def transactions_save_def Let_def split: sum.splits dest: put_error)

lemma pay_error_field [simp]:
  "pay_source d (f\<lparr>pf_error := e\<rparr>) = pay_source d f" "pay_amount_of d (f\<lparr>pf_error := e\<rparr>) = pay_amount_of d f"
  by (simp_all add: pay_source_def fundingAccounts_def pay_amount_of_def currentOwed_def cong: option.case_cong PayChoice.case_cong)

lemma pay_source_sound:
  assumes "pay_source d f = Some payer" and "pf_card f = Some crd"
  shows "acc_id payer \<noteq> acc_id crd" "toUpperCase (acc_currency payer) = toUpperCase (acc_currency crd)"
  using assms by (auto simp: pay_source_def fundingAccounts_def find_Some_iff dest: nth_mem)

text \<open>C39: What the sheet offers can be paid and settles what it says. An account it offers passes every check of
  the payment when the button is enabled. With the summary it shows, after a payment that succeeds and
  is not dated in the future, the rest of the bill is what it was less the payment, and nothing when the
  statement balance was chosen; what the card owes is less by the payment. Nothing is stored when the
  account it was to be paid from is no longer offered, or when the sheet reports an error.\<close>

theorem pay_sheet_settles:
  assumes "pf_card f = Some crd" and "canPay (led_db l) f"
  shows "(pay_source (led_db l) f = Some payer \<longrightarrow>
      pay_checks \<lparr>pay_card = crd, pay_from = payer, pay_amount = pay_amount_of (led_db l) f, pay_date = day, pay_note = note\<rparr> = Inr ()) \<and>
    (ledger_ok W dev l \<longrightarrow> (\<forall>j. plausible (now j)) \<longrightarrow> tget (tables (led_db l) Transactions) (fresh_id S) = None \<longrightarrow>
      pay_summarise (led_db l) crd asOf = Inr (Some s) \<longrightarrow> pf_summary f = Some s \<longrightarrow> pf_date f \<le> asOf \<longrightarrow>
      pay_form_pay now (S, f) l = (Inr (f', paid), l') \<longrightarrow>
      (case paid of
         Some v \<Rightarrow> \<exists>s'. pay_summarise (led_db l') crd asOf = Inr (Some s') \<and>
           remaining s' = max (remaining s - pay_amount_of (led_db l) f) 0 \<and>
           currentBalance s' = currentBalance s - pay_amount_of (led_db l) f \<and>
           (pf_choice f = StatementBalance \<longrightarrow> remaining s' = 0)
       | None \<Rightarrow> l' = l))"
proof (intro conjI impI)
  let ?request = "\<lambda>payer. \<lparr>pay_card = crd, pay_from = payer, pay_amount = pay_amount_of (led_db l) f, pay_date = Some (pf_date f), pay_note = None\<rparr>"
  show "pay_source (led_db l) f = Some payer \<Longrightarrow>
      pay_checks \<lparr>pay_card = crd, pay_from = payer, pay_amount = pay_amount_of (led_db l) f, pay_date = day, pay_note = note\<rparr> = Inr ()"
    using pay_source_sound [OF _ assms(1)] assms(2) by (simp add: pay_checks_def canPay_def)
  assume ok: "ledger_ok W dev l" "\<forall>j. plausible (now j)" "tget (tables (led_db l) Transactions) (fresh_id S) = None"
    and s: "pay_summarise (led_db l) crd asOf = Inr (Some s)" "pf_summary f = Some s" "pf_date f \<le> asOf"
    and call: "pay_form_pay now (S, f) l = (Inr (f', paid), l')"
  show "case paid of
       Some v \<Rightarrow> \<exists>s'. pay_summarise (led_db l') crd asOf = Inr (Some s') \<and> remaining s' = max (remaining s - pay_amount_of (led_db l) f) 0 \<and>
         currentBalance s' = currentBalance s - pay_amount_of (led_db l) f \<and> (pf_choice f = StatementBalance \<longrightarrow> remaining s' = 0)
     | None \<Rightarrow> l' = l"
  proof (cases "pay_source (led_db l) f")
    case None
    then show ?thesis using call assms(1) by (simp add: pay_form_pay_def Let_def split: option.splits)
  next
    case (Some payer)
    obtain q where q: "pay now (fresh_id S, today S, ?request payer) l = (q, l')" "paid = (case q of Inl _ \<Rightarrow> None | Inr v \<Rightarrow> Some v)"
      using call assms(1) Some by (auto simp: pay_form_pay_def Let_def report_def split: prod.splits sum.splits)
    show ?thesis
    proof (cases q)
      case (Inl err)
      then show ?thesis using pay_error [OF q(1) [unfolded Inl]] q(2) by simp
    next
      case (Inr v)
      obtain p where p: "txn_date p = pf_date f" "signedFor (acc_id crd) p = pay_amount_of (led_db l) f"
          "mset (filter (\<lambda>txn. txn_accountId txn = acc_id crd \<or> txn_counterAccountId txn = Some (acc_id crd)) (transaction_rows (led_db l'))) =
            add_mset p (mset (filter (\<lambda>txn. txn_accountId txn = acc_id crd \<or> txn_counterAccountId txn = Some (acc_id crd)) (transaction_rows (led_db l))))"
        using pay_adds [OF ok q(1) [unfolded Inr]] by (auto simp: with_default_def)
      obtain s' where "pay_summarise (led_db l') crd asOf = Inr (Some s')" "remaining s' = max (remaining s - pay_amount_of (led_db l) f) 0"
          "currentBalance s' = currentBalance s - pay_amount_of (led_db l) f"
        using summary_paid [OF s(1) [unfolded pay_summarise_def] p(3)] p(1,2) s(3) assms(2) by (auto simp: pay_summarise_def canPay_def)
      then show ?thesis using q(2) Inr assms(1) s(2) by (auto simp: pay_amount_of_def)
    qed
  qed
qed

definition paying :: pay_form where
  "paying = \<lparr>pf_card = Some (sample_card\<lparr>acc_groupId := Some ''g''\<rparr>),
     pf_summary = Some \<lparr>closedOn = ''2024-02-29'', dueOn = ''2024-03-15'', statementBalance = 900, paidSince = 0, remaining = 900, currentBalance = 900\<rparr>,
     pf_choice = StatementBalance, pf_custom = [], pf_fromId = Some ''x'', pf_date = ''2024-03-05'', pf_error = None\<rparr>"

lemma pay_sheet_settles_witness:
  "\<exists>f' v l' s'. pay_form_pay (\<lambda>_. 2000) (form_surroundings, paying) page_ledger = (Inr (f', Some v), l') \<and>
     pay_summarise (led_db l') (sample_card\<lparr>acc_groupId := Some ''g''\<rparr>) ''2024-03-10'' = Inr (Some s') \<and> remaining s' = 0 \<and> currentBalance s' = 0"
proof -
  let ?crd = "sample_card\<lparr>acc_groupId := Some ''g''\<rparr>" and ?call = "pay_form_pay (\<lambda>_. 2000) (form_surroundings, paying) page_ledger"
  obtain W where ok: "ledger_ok W ''a'' page_ledger" by (rule page_ledger_ok)
  have "(case fst ?call of Inr (_, Some _) \<Rightarrow> True | _ \<Rightarrow> False)" by code_simp
  then obtain f' v l' where call: "?call = (Inr (f', Some v), l')" by (cases ?call) (auto split: sum.splits option.splits prod.splits)
  have crd: "pf_card paying = Some ?crd" "pf_choice paying = StatementBalance" by (simp_all add: paying_def)
  have can: "canPay (led_db page_ledger) paying" "pay_amount_of (led_db page_ledger) paying = 900"
    by (simp_all add: canPay_def pay_amount_of_def paying_def)
  obtain s where s: "pf_summary paying = Some s" "remaining s = 900" "currentBalance s = 900" by (simp add: paying_def)
  have "pay_summarise (led_db page_ledger) ?crd ''2024-03-10'' = Inr (pf_summary paying)" by code_simp
  then have "pay_summarise (led_db page_ledger) ?crd ''2024-03-10'' = Inr (Some s)" using s(1) by simp
  moreover have "tget (tables (led_db page_ledger) Transactions) (fresh_id form_surroundings) = None" by code_simp
  moreover have "pf_date paying \<le> ''2024-03-10''" by code_simp
  ultimately show ?thesis
    using pay_sheet_settles [OF crd(1) can(1), THEN conjunct2, rule_format, OF ok _ _ _ s(1) _ call] plausible_small [of 2000] call can(2) s(2,3) by auto
qed

end
