(* ===== verification/Ledger_Pages.thy ===== *)
theory Ledger_Pages
  imports Forms Transactions_Service
begin

text \<open>
  The pages of the register (\<open>features/transactions/transactions.page.ts\<close>), of the recurring rules
  (\<open>features/recurring/rules.page.ts\<close>) and of the exchange rates (\<open>features/rates/rates.page.ts\<close>), the last
  with the sheet a rate is entered in.
\<close>

section \<open>The register\<close>

definition page_currency :: "docket_db \<Rightarrow> string" where
  "page_currency d = (case active_accounts d of [] \<Rightarrow> ''USD'' | account # _ \<Rightarrow> acc_currency account)"

definition monthLabel :: "date_text \<Rightarrow> TransactionFilter \<Rightarrow> string" where
  "monthLabel date_text flt = date_text MonthAndYear (range_from (flt_range flt))"

definition page_shift :: "int \<Rightarrow> TransactionFilter \<Rightarrow> TransactionFilter result" where
  "page_shift months flt = map_sum id (\<lambda>rng. setRange rng flt) (shiftMonth (flt_range flt) months)"

definition txn_label :: "docket_db \<Rightarrow> Transaction \<Rightarrow> string" where
  "txn_label d txn =
     (if txn_kind txn = Transfer then ''Transfer''
      else case category_byId (all_categories d) (txn_categoryId txn) of Some c \<Rightarrow> cat_name c | None \<Rightarrow> ''Untitled'')"

text \<open>The dot between the category and the account is \<open>CHR 0xB7\<close>.\<close>

definition txn_subtitle :: "typography \<Rightarrow> docket_db \<Rightarrow> Transaction \<Rightarrow> string" where
  "txn_subtitle T d txn =
     (let account = (case account_byId d (txn_accountId txn) of Some a \<Rightarrow> acc_name a | None \<Rightarrow> ''Unknown account'')
      in if txn_kind txn = Transfer then
           account @ '' '' @ right_arrow T @ '' '' @
             (case account_byId d (or_empty (txn_counterAccountId txn)) of Some a \<Rightarrow> acc_name a | None \<Rightarrow> ''Unknown'')
         else (case category_byId (all_categories d) (txn_categoryId txn) of Some c \<Rightarrow> cat_name c | None \<Rightarrow> ''Uncategorised'') @
           '' '' @ [CHR 0xB7] @ '' '' @ account)"

definition txn_sign :: "typography \<Rightarrow> Transaction \<Rightarrow> string" where
  "txn_sign T txn = (case txn_kind txn of Income \<Rightarrow> ''+'' | Expense \<Rightarrow> minus_sign T | Transfer \<Rightarrow> [])"

definition txn_colour :: "Transaction \<Rightarrow> string option" where
  "txn_colour txn = (case txn_kind txn of Income \<Rightarrow> Some ''success'' | Transfer \<Rightarrow> Some ''medium'' | Expense \<Rightarrow> None)"

section \<open>The rules\<close>

text \<open>A length is never negative: the button is always enabled.\<close>

definition accountsExist :: "docket_db \<Rightarrow> bool" where
  "accountsExist d \<longleftrightarrow> 0 \<le> int (length (rule_rows d))"

definition unit_text :: "RecurrenceUnit \<Rightarrow> string" where
  "unit_text unit = (case unit of Day \<Rightarrow> ''day'' | Week \<Rightarrow> ''week'' | Month \<Rightarrow> ''month'' | Year \<Rightarrow> ''year'')"

definition cadence :: "RecurringRule \<Rightarrow> string" where
  "cadence rule =
     (let unit = (if rule_interval rule = 1 then unit_text (rule_unit rule)
        else String_of_int (Some (rule_interval rule)) @ '' '' @ unit_text (rule_unit rule) @ ''s'')
      in ''every '' @ unit)"

definition dueText :: "RuleStatus \<Rightarrow> string" where
  "dueText status =
     (if falsy (rs_next status) then ''finished'' else ''next '' @ the (rs_next status))"

definition rules_skip :: "(nat \<Rightarrow> nat) \<Rightarrow> RuleStatus \<Rightarrow> (ledger, unit) call" where
  "rules_skip now status =
     (if falsy (rs_next status) then return () else skip_occurrence now (rule_id (rs_rule status), the (rs_next status)))"

definition rule_toggleArchive :: "(nat \<Rightarrow> nat) \<Rightarrow> RecurringRule \<Rightarrow> RecurringRule sheet \<Rightarrow> (ledger, RecurringRule sheet) call" where
  "rule_toggleArchive now rule s = then_close (rules_setArchived now (rule_id rule, \<not> rule_archived rule)) s"

definition rule_delete_question :: "RecurringRule \<Rightarrow> question" where
  "rule_delete_question rule =
     \<lparr>q_header = ''Delete rule?'',
      q_message = rule_name rule @ '' will stop recording new transactions. The ones it has already created stay in your ledger.''\<rparr>"

definition rule_delete :: "(nat \<Rightarrow> nat) \<Rightarrow> RecurringRule \<Rightarrow> RecurringRule sheet \<Rightarrow> (ledger, RecurringRule sheet) call" where
  "rule_delete now rule s = then_close (rules_remove now (rule_id rule)) s"

section \<open>The rates\<close>

text \<open>The rate is text, or a number out of a listed pair or a number input.\<close>

datatype text_or_number = Text string | Number number

fun as_number :: "text_or_number \<Rightarrow> number" where
  "as_number (Text s) = Number_of s"
| "as_number (Number x) = x"

fun as_text :: "text_or_number \<Rightarrow> string" where
  "as_text (Text s) = s"
| "as_text (Number x) = String_of_number x"

record rates_form =
  rp_open :: bool
  rp_base :: string
  rp_quote :: string
  rp_rate :: text_or_number
  rp_date :: string
  rp_error :: "string option"

definition new_rates_form :: "surroundings \<Rightarrow> rates_form" where
  "new_rates_form S = \<lparr>rp_open = False, rp_base = [], rp_quote = [], rp_rate = Text [], rp_date = today S, rp_error = None\<rparr>"

definition currencyOptions :: "docket_db \<Rightarrow> string list" where
  "currencyOptions d = sort (unique (map acc_currency (all_accounts d) @ [reportingCurrency d] @ COMMON_CURRENCIES))"

text \<open>What the two inputs for a currency are bound to.\<close>

definition rp_setBase :: "string \<Rightarrow> rates_form \<Rightarrow> rates_form" where
  "rp_setBase s f = f\<lparr>rp_base := toUpperCase s\<rparr>"

definition rp_setQuote :: "string \<Rightarrow> rates_form \<Rightarrow> rates_form" where
  "rp_setQuote s f = f\<lparr>rp_quote := toUpperCase s\<rparr>"

definition rp_canSave :: "rates_form \<Rightarrow> bool" where
  "rp_canSave f \<longleftrightarrow> length (rp_base f) = 3 \<and> length (rp_quote f) = 3 \<and> num_less (Fin 0) (as_number (rp_rate f))"

definition explanation :: "rates_form \<Rightarrow> string" where
  "explanation f =
     (if \<not> rp_canSave f then ''One unit of the first currency, in units of the second.''
      else ''1 '' @ rp_base f @ '' = '' @ as_text (rp_rate f) @ '' '' @ rp_quote f)"

definition add_rate :: "surroundings \<Rightarrow> docket_db \<Rightarrow> rates_form \<Rightarrow> rates_form" where
  "add_rate S d f =
     f\<lparr>rp_base := [], rp_quote := reportingCurrency d, rp_rate := Text [], rp_date := today S, rp_error := None, rp_open := True\<rparr>"

definition add_rate_for :: "surroundings \<Rightarrow> docket_db \<Rightarrow> PairSummary \<Rightarrow> rates_form \<Rightarrow> rates_form" where
  "add_rate_for S d p f =
     (add_rate S d f)\<lparr>rp_base := pair_base p, rp_quote := pair_quote p, rp_rate := Number (pair_rate p)\<rparr>"

definition form_rate_draft :: "rates_form \<Rightarrow> RateDraft" where
  "form_rate_draft f =
     \<lparr>rd_base = rp_base f, rd_quote = rp_quote f, rd_rate = as_number (rp_rate f), rd_date = rp_date f, rd_source = None\<rparr>"

definition rp_fail :: "rates_form \<Rightarrow> string \<Rightarrow> rates_form" where
  "rp_fail f message = f\<lparr>rp_error := Some message\<rparr>"

definition rates_form_save :: "(nat \<Rightarrow> nat) \<Rightarrow> surroundings \<times> rates_form \<Rightarrow> (ledger, rates_form) call" where
  "rates_form_save now arg l =
     (case arg of (S, f) \<Rightarrow>
        let f = f\<lparr>rp_error := None\<rparr>
        in case rates_save now (form_rate_draft f) l of
             (Inl err, l') \<Rightarrow> (Inr (rp_fail f (message_of S err)), l')
           | (Inr _, l') \<Rightarrow> (Inr (f\<lparr>rp_open := False\<rparr>), l'))"

text \<open>A question when the currency is another one; its button sets it.\<close>

definition changeReporting :: "docket_db \<Rightarrow> string \<Rightarrow> question option" where
  "changeReporting d currency =
     (if currency = reportingCurrency d then None
      else Some \<lparr>q_header = ''Report in '' @ currency @ ''?'',
        q_message = ''Transactions already recorded keep the rate they were given at the time. New ones will be converted to '' @ currency @
          ''. Figures from before the change stay quoted against the old currency.''\<rparr>)"

section \<open>What the pages write\<close>

interpretation skip_from_rules: service rules_skip
  "\<lambda>status. {(RecurringRules, rule_id (rs_rule status)),
     (Transactions, occurrenceId (rule_id (rs_rule status)) (case rs_next status of Some i \<Rightarrow> i | None \<Rightarrow> []))}"
proof (unfold_locales, goal_cases)
  case (1 now W dev l arg r l')
  show ?case
  proof (cases "falsy (rs_next arg)")
    case False
    then obtain i where i: "rs_next arg = Some i" by (auto simp: falsy_def)
    then show ?thesis using skip_rule.only_writes [OF 1(1-3), of "(rule_id (rs_rule arg), i)"] 1(4) False
      by (auto simp: rules_skip_def)
  qed (use 1(4) in \<open>simp add: rules_skip_def return_def\<close>)
qed

interpretation save_rates_form: service rates_form_save "\<lambda>arg. {(Rates, draft_rate_id (form_rate_draft (snd arg)))}"
proof (unfold_locales, goal_cases)
  case (1 now W dev l arg r l')
  obtain S f where arg: "arg = (S, f)" by fastforce
  have "form_rate_draft (f\<lparr>rp_error := None\<rparr>) = form_rate_draft f" by (simp add: form_rate_draft_def)
  then obtain q where "rates_save now (form_rate_draft f) l = (q, l')"
    using 1(4) by (auto simp: arg rates_form_save_def Let_def split: prod.splits sum.splits)
  from save_rate.only_writes [OF 1(1-3) this] show ?case by (simp add: arg)
qed

end
