(* ===== verification/Data_Screen.thy ===== *)
theory Data_Screen
  imports Forms Import_Safety Backup
begin

text \<open>
  The page that imports statements and takes and restores backups (\<open>features/data/data.page.ts\<close>): what is
  planned for a chosen file, what the import button does with it, and the questions and messages around
  a backup. The file picker, the file export and the messages themselves are the surroundings. The
  theorem takes the import through the page: a file that has been imported has nothing left to import.
\<close>

section \<open>The page\<close>

record data_page =
  dp_accountId :: "string option"
  dp_dayFirst :: bool
  dp_plan :: "ImportPlan option"
  dp_error :: "string option"
  dp_rows :: "string list list"
  dp_mapping :: "ColumnMapping option"

definition new_data_page :: data_page where
  "new_data_page = \<lparr>dp_accountId = None, dp_dayFirst = True, dp_plan = None, dp_error = None, dp_rows = [], dp_mapping = None\<rparr>"

definition problems :: "data_page \<Rightarrow> string list" where
  "problems p =
     map (\<lambda>r. ''Line '' @ count_text (pr_line r) @ '': '' @ or_empty (pr_error r))
       (take 5 (filter (\<lambda>r. \<not> falsy (pr_error r)) (case dp_plan p of Some plan \<Rightarrow> ip_rows plan | None \<Rightarrow> [])))"

definition dp_fail :: "data_page \<Rightarrow> string \<Rightarrow> data_page" where
  "dp_fail p message = p\<lparr>dp_error := Some message\<rparr>"

text \<open>\<open>[0]\<close> of the active accounts, which may be none.\<close>

definition first_account :: "docket_db \<Rightarrow> Account option" where
  "first_account d = (case active_accounts d of [] \<Rightarrow> None | account # _ \<Rightarrow> Some account)"

definition replan :: "docket_db \<Rightarrow> data_page \<Rightarrow> data_page" where
  "replan d p =
     (case dp_mapping p of
        None \<Rightarrow> p
      | Some mapping \<Rightarrow>
          (case (case account_byId d (or_empty (dp_accountId p)) of Some a \<Rightarrow> Some a | None \<Rightarrow> first_account d) of
             None \<Rightarrow> p
           | Some account \<Rightarrow>
               p\<lparr>dp_accountId := Some (acc_id account),
                 dp_plan := Some (planImport (dp_rows p) mapping
                   \<lparr>io_accountId = acc_id account, io_currency = acc_currency account, io_dayFirst = dp_dayFirst p, io_existing = existingKeys d\<rparr>)\<rparr>))"

text \<open>The file is none when the picker was cancelled; its text may fail to arrive.\<close>

definition readCsv :: "surroundings \<Rightarrow> docket_db \<Rightarrow> file_text result option \<Rightarrow> data_page \<Rightarrow> data_page" where
  "readCsv S d file p =
     (let p = p\<lparr>dp_error := None\<rparr>
      in case file of
           None \<Rightarrow> p
         | Some (Inl err) \<Rightarrow> dp_fail p (message_of S err)
         | Some (Inr text) \<Rightarrow>
             (case parseCsv text of
                headers # line # rest \<Rightarrow>
                  replan d (p\<lparr>dp_mapping := Some (detectColumns headers), dp_rows := line # rest\<rparr>)
              | _ \<Rightarrow> dp_fail p ''That file has no rows to import.''))"

definition setDayFirst :: "docket_db \<Rightarrow> bool \<Rightarrow> data_page \<Rightarrow> data_page" where
  "setDayFirst d dayFirst p =
     (let p = p\<lparr>dp_dayFirst := dayFirst\<rparr> in if dp_mapping p \<noteq> None then replan d p else p)"

definition clear_plan :: "data_page \<Rightarrow> data_page" where
  "clear_plan p = p\<lparr>dp_plan := None, dp_rows := [], dp_mapping := None\<rparr>"

text \<open>The page afterwards and the message it shows.\<close>

definition imported_message :: "ImportResult \<Rightarrow> string" where
  "imported_message res =
     ''Imported '' @ count_text (ir_imported res) @ '' transaction(s)'' @
     (if ir_categoriesCreated res = [] then [] else '', '' @ count_text (length (ir_categoriesCreated res)) @ '' new category(s)'')"

definition applyImport :: "(nat \<Rightarrow> nat) \<Rightarrow> (nat \<Rightarrow> string) \<Rightarrow> data_page \<Rightarrow> (ledger, data_page \<times> string option) call" where
  "applyImport now uuid p l =
     (case (dp_plan p, account_byId (led_db l) (or_empty (dp_accountId p))) of
        (Some plan, Some account) \<Rightarrow>
          (case apply_import now uuid plan (acc_id account) (acc_currency account) False l of
             (Inl err, l') \<Rightarrow> (Inl err, l')
           | (Inr res, l') \<Rightarrow> (Inr (clear_plan p, Some (imported_message res)), l'))
      | _ \<Rightarrow> (Inr (p, None), l))"

section \<open>Backups\<close>

text \<open>\<open>export\<close> is the backup service with the file export behind it.\<close>

definition exportBackup :: "surroundings \<Rightarrow> backup_file result \<Rightarrow> data_page \<Rightarrow> data_page \<times> string option" where
  "exportBackup S exported p =
     (case exported of
        Inl err \<Rightarrow> (dp_fail p (message_of S err), None)
      | Inr file \<Rightarrow> (p, Some (''Backed up '' @ count_text (bf_rows file) @ '' row(s)'')))"

definition restore_question :: "(int \<Rightarrow> string) \<Rightarrow> typography \<Rightarrow> BackupPayload \<Rightarrow> question" where
  "restore_question local_time T payload =
     (let taken = (if bp_takenAt payload \<noteq> 0 then local_time (bp_takenAt payload) else ''an unknown time'')
      in \<lparr>q_header = ''Restore this backup?'',
          q_message = ''It holds '' @ count_text (countRows payload) @ '' row(s) from '' @ taken @
            ''. Anything you have changed since is kept '' @ em_dash T @ '' only older or missing records are restored.''\<rparr>)"

text \<open>The payload is kept for the button of the question.\<close>

definition readBackup :: "surroundings \<Rightarrow> (int \<Rightarrow> string) \<Rightarrow> typography \<Rightarrow> (string \<Rightarrow> BackupPayload result) \<Rightarrow> string result option \<Rightarrow>
    data_page \<Rightarrow> data_page \<times> (question \<times> BackupPayload) option" where
  "readBackup S local_time T inspected file p =
     (let p = p\<lparr>dp_error := None\<rparr>
      in case file of
           None \<Rightarrow> (p, None)
         | Some (Inl err) \<Rightarrow> (dp_fail p (message_of S err), None)
         | Some (Inr text) \<Rightarrow>
             (case inspected text of
                Inl err \<Rightarrow> (dp_fail p (message_of S err), None)
              | Inr payload \<Rightarrow> (p, Some (restore_question local_time T payload, payload))))"

definition restore_chosen :: "(nat \<Rightarrow> nat) \<Rightarrow> BackupPayload \<Rightarrow> (ledger, string) call" where
  "restore_chosen now payload =
     andThen (restore_backup now payload)
       (\<lambda>res. return (''Restored '' @ count_text (rr_restored res) @ '' row(s), kept '' @ count_text (rr_skipped res)))"

section \<open>Importing through the page\<close>

lemma account_byId_get:
  assumes "ledger_ok W dev l"
  shows "account_byId (led_db l) i = get_account (led_db l) i"
proof -
  have tab: "table_ok (tables (led_db l) Accounts)" using ledger_okD(1) [OF assms] by (simp add: db_ok_def)
  have mem: "a \<in> set (all_accounts (led_db l)) \<longleftrightarrow> get_account (led_db l) (acc_id a) = Some a" for a
    using rows_mem [OF tab, of a as_account] get_account_id [OF assms] by (auto simp: all_accounts_def)
  show ?thesis
  proof (cases "account_byId (led_db l) i")
    case None
    then have "\<forall>a \<in> set (all_accounts (led_db l)). acc_id a \<noteq> i" by (auto simp: account_byId_def find_None_iff)
    then show ?thesis using mem get_account_id [OF assms, of i] None by (cases "get_account (led_db l) i") auto
  next
    case (Some a)
    then have "a \<in> set (all_accounts (led_db l))" "acc_id a = i" by (auto simp: account_byId_def find_Some_iff)
    then show ?thesis using mem Some by auto
  qed
qed

text \<open>What reading a file leaves on the page when there is an account to import into.\<close>

lemma readCsv_plan:
  assumes "parseCsv text = headers # line # rest" and "account_byId d i = Some a" and "dp_accountId p = Some i"
  shows "readCsv S d (Some (Inr text)) p =
    p\<lparr>dp_error := None, dp_mapping := Some (detectColumns headers), dp_rows := line # rest, dp_accountId := Some (acc_id a),
      dp_plan := Some (planImport (line # rest) (detectColumns headers)
        \<lparr>io_accountId = acc_id a, io_currency = acc_currency a, io_dayFirst = dp_dayFirst p, io_existing = existingKeys d\<rparr>)\<rparr>"
  using assms by (simp add: readCsv_def replan_def or_empty_def Let_def)

lemma import_keeps_account:
  assumes "ledger_ok W dev l" and "ledger_ok W' dev l'" and "tget (tables (led_db l') Accounts) i = tget (tables (led_db l) Accounts) i"
  shows "account_byId (led_db l') i = account_byId (led_db l) i"
  using assms by (simp add: account_byId_get row_def)

text \<open>C20: Importing a file through the page and choosing it again. When the page holds the plan it made for the
  file and the import succeeds, the message names as many transactions as the page had promised, the plan is
  gone, and the plan for the same file is one with nothing left to import. The account is as it was.\<close>

theorem page_import_again:
  assumes "ledger_ok W dev l" and "\<forall>j. plausible (now j)" and "inj uuid" and "\<forall>k e. tget (tables (led_db l) e) (uuid k) = None"
    and "account_byId (led_db l) i = Some a" and "i \<noteq> []" and "dp_accountId p = Some i"
    and "parseCsv text = headers # line # rest"
    and "dp_plan (readCsv S (led_db l) (Some (Inr text)) p) = Some plan"
    and "\<forall>r \<in> set (ip_rows plan). \<forall>t. pr_transaction r = Some t \<longrightarrow> isFinite (pt_amount t)"
    and "applyImport now uuid (readCsv S (led_db l) (Some (Inr text)) p) l = (Inr (q, shown), l')"
  shows "\<exists>res again. shown = Some (imported_message res) \<and> ir_imported res = ip_ready plan \<and> dp_plan q = None \<and>
    dp_plan (readCsv S (led_db l') (Some (Inr text)) q) = Some again \<and> ip_ready again = 0 \<and>
    account_byId (led_db l') i = Some a"
proof -
  have ai: "acc_id a = i" using assms(5) account_byId_get [OF assms(1)] get_account_id [OF assms(1)] by simp
  let ?options = "\<lparr>io_accountId = i, io_currency = acc_currency a, io_dayFirst = dp_dayFirst p, io_existing = []\<rparr>"
  note first = readCsv_plan [OF assms(8,5,7), of S, unfolded ai]
  have plan: "planImport (line # rest) (detectColumns headers) (?options\<lparr>io_existing := existingKeys (led_db l)\<rparr>) = plan"
    using assms(9) by (simp add: first)
  obtain res where res: "apply_import now uuid plan i (acc_currency a) False l = (Inr res, l')" "shown = Some (imported_message res)"
      "q = clear_plan (readCsv S (led_db l) (Some (Inr text)) p)"
    using assms(5,11) ai assms(9) by (auto simp: applyImport_def first or_empty_def split: prod.splits sum.splits)
  have again: "ir_imported res = ip_ready plan"
      "ip_ready (planImport (line # rest) (detectColumns headers) (?options\<lparr>io_existing := existingKeys (led_db l')\<rparr>)) = 0"
      "\<exists>W'. ledger_ok W' dev l'" "\<And>e k. k \<notin> range uuid \<Longrightarrow> tget (tables (led_db l') e) k = tget (tables (led_db l) e) k"
    using import_again [OF assms(1,2,6,3) _ plan assms(10) res(1)] assms(4) by blast+
  obtain W' where W': "ledger_ok W' dev l'" using again(3) by blast
  have "i \<notin> range uuid" using assms(4,5) account_byId_get [OF assms(1)] by (auto simp: row_def)
  then have kept: "account_byId (led_db l') i = Some a" using import_keeps_account [OF assms(1) W' again(4)] assms(5) by simp
  have "dp_accountId q = Some i" "dp_plan q = None" "dp_dayFirst q = dp_dayFirst p"
    by (simp_all add: res(3) clear_plan_def first)
  then show ?thesis using res(2) again(1,2) kept readCsv_plan [OF assms(8) kept, of q S] ai by (intro exI [of _ res]) simp
qed

section \<open>Witness\<close>

definition yen_account :: Account where
  "yen_account = (plain_account ''acc'' 0)\<lparr>acc_currency := ''JPY''\<rparr>"

definition yen_ledger :: ledger where
  "yen_ledger = snd (put_all (timed (\<lambda>_. 1000) 0 [AccountRow yen_account]) (new_ledger ''a''))"

definition yen_file :: file_text where
  "yen_file = Plain (''Date,Amount,Payee'' @ [line_feed] @ ''2024-01-02,-500, Shop'' @ [line_feed] @ ''soon,1,'')"

definition yen_page :: data_page where
  "yen_page = new_data_page\<lparr>dp_accountId := Some ''acc''\<rparr>"

lemma yen_ledger_ok: obtains W where "ledger_ok W ''a'' yen_ledger" "\<forall>k e. tget (tables (led_db yen_ledger) e) (sample_uuid k) = None"
proof -
  let ?vs = "[AccountRow yen_account]"
  have "fst (put_all (timed (\<lambda>_. 1000) 0 ?vs) (new_ledger ''a'')) = Inr ()" by code_simp
  then have put: "put_all (timed (\<lambda>_. 1000) 0 ?vs) (new_ledger ''a'') = (Inr (), yen_ledger)" by (simp add: yen_ledger_def prod_eq_iff)
  have ok: "ledger_ok {} ''a'' (new_ledger ''a'')" using sample_devices by (simp add: new_ledger_ok)
  have clock: "\<forall>j::nat. plausible 1000" using plausible_small by simp
  have keys: "distinct (map (\<lambda>v. (entity_of v, entity_id v)) ?vs)" by simp
  note eff = put_timed_effect [OF ok clock put keys]
  have "sample_uuid k \<noteq> ''acc''" for k by (cases k) (simp_all add: sample_uuid_def)
  then have "tget (tables (led_db yen_ledger) e) (sample_uuid k) = None" for k e
    using eff(3) [of e "sample_uuid k"] by (simp add: yen_account_def plain_account_def new_ledger_def initialise_def new_db_def)
  then show ?thesis using eff(1) that by blast
qed

lemma page_import_again_witness:
  "\<exists>q shown l' again. applyImport (\<lambda>_. 1000) sample_uuid (readCsv form_surroundings (led_db yen_ledger) (Some (Inr yen_file)) yen_page) yen_ledger =
       (Inr (q, Some shown), l') \<and>
     dp_plan (readCsv form_surroundings (led_db l') (Some (Inr yen_file)) q) = Some again \<and> ip_ready again = 0"
proof -
  let ?d = "led_db yen_ledger" and ?S = form_surroundings
  obtain W where ok: "ledger_ok W ''a'' yen_ledger" "\<forall>k e. tget (tables ?d e) (sample_uuid k) = None" by (rule yen_ledger_ok)
  have csv: "parseCsv yen_file = [''Date'', ''Amount'', ''Payee''] # hd sample_file # tl sample_file" by code_simp
  have "map (\<lambda>a. (acc_id a, acc_currency a)) (all_accounts ?d) = [(''acc'', ''JPY'')]" by code_simp
  then obtain a where a: "all_accounts ?d = [a]" "acc_id a = ''acc''" "acc_currency a = ''JPY''" by auto
  have acc: "account_byId ?d ''acc'' = Some a" "dp_accountId yen_page = Some ''acc''" "dp_dayFirst yen_page"
    using a by (simp_all add: account_byId_def yen_page_def new_data_page_def)
  have none: "existingKeys ?d = []" "all_categories ?d = []" by code_simp+
  have plan: "dp_plan (readCsv ?S ?d (Some (Inr yen_file)) yen_page) = Some sample_plan"
    by (simp add: readCsv_plan [OF csv acc(1,2)] a acc(3) none sample_mapping_def sample_options_def sample_file_def)
  have "isl (fst (import_planned (\<lambda>_. 1000) sample_uuid ''acc'' ''JPY'' 0 sample_planned Map.empty yen_ledger)) = False" by code_simp
  then obtain x l1 where "import_planned (\<lambda>_. 1000) sample_uuid ''acc'' ''JPY'' 0 sample_planned Map.empty yen_ledger = (Inr x, l1)"
    by (metis isl_def prod.collapse sum.exhaust)
  then obtain res l' where "apply_import (\<lambda>_. 1000) sample_uuid sample_plan ''acc'' ''JPY'' False yen_ledger = (Inr res, l')"
    using sample_plan_rows by (cases x) (auto simp: apply_import_def none shouldImport_def)
  then obtain q shown where run: "applyImport (\<lambda>_. 1000) sample_uuid (readCsv ?S ?d (Some (Inr yen_file)) yen_page) yen_ledger =
      (Inr (q, Some shown), l')"
    using acc a plan by (simp add: applyImport_def readCsv_plan [OF csv acc(1,2)] or_empty_def)
  have fin: "\<forall>r \<in> set (ip_rows sample_plan). \<forall>t. pr_transaction r = Some t \<longrightarrow> isFinite (pt_amount t)"
    using sample_plan_rows by (auto simp: sample_planned_def)
  have inj: "inj sample_uuid" by (auto simp: sample_uuid_def inj_def dest: arg_cong [of _ _ length])
  have clock: "\<forall>j::nat. plausible 1000" using plausible_small by simp
  show ?thesis using page_import_again [OF ok(1) clock inj ok(2) acc(1) _ acc(2) csv plan fin run] run by blast
qed

end
