(* ===== verification/Settings_Screens.thy ===== *)
theory Settings_Screens
  imports Forms Settings
begin

text \<open>
  The settings: the page a sync destination is configured on (\<open>features/settings/sync-settings.page.ts\<close>), the
  indicator in the toolbars (\<open>shared/sync-status.component.ts\<close>), the overview (\<open>settings.page.ts\<close>) and the
  theme (\<open>core/theme/theme.service.ts\<close>). The theorem follows what is typed into the page: each destination has
  a draft of its own, and what is saved is the draft of the chosen one.
\<close>

section \<open>The sync page\<close>

datatype SyncTargetKind = NoKind | ServerKind | S3Kind | GitKind

definition target_kind :: "SyncTarget \<Rightarrow> SyncTargetKind" where
  "target_kind t = (case t of NoneTarget _ \<Rightarrow> NoKind | Server _ \<Rightarrow> ServerKind | S3 _ \<Rightarrow> S3Kind | Git _ \<Rightarrow> GitKind)"

record sync_page =
  sp_kind :: SyncTargetKind
  sp_intervalMinutes :: int
  sp_syncOnReconnect :: bool
  sp_wifiOnly :: bool
  sp_busy :: bool
  sp_message :: "string option"
  sp_colour :: string
  sp_server :: ServerTarget
  sp_s3 :: S3Target
  sp_git :: GitTarget

definition empty_server :: ServerTarget where
  "empty_server = \<lparr>srv_label = ''Sync server'', srv_endpoint = [], srv_token = []\<rparr>"

definition empty_s3 :: S3Target where
  "empty_s3 = \<lparr>s3_label = ''S3 storage'', s3_bucket = [], s3_region = ''auto'', s3_endpoint = [], s3_accessKeyId = [],
     s3_secretAccessKey = [], s3_forcePathStyle = True, s3_prefix = []\<rparr>"

definition empty_git :: GitTarget where
  "empty_git = \<lparr>git_label = ''Git repository'', git_repoUrl = [], git_branch = ''main'', git_token = [], git_username = ''docket'',
     git_corsProxy = [], git_authorName = ''Easy Docket'', git_authorEmail = ''docket@localhost''\<rparr>"

definition open_sync_page :: "SyncSettings \<Rightarrow> sync_page" where
  "open_sync_page current =
     \<lparr>sp_kind = target_kind (ss_target current), sp_intervalMinutes = ss_intervalMinutes current,
      sp_syncOnReconnect = ss_syncOnReconnect current, sp_wifiOnly = ss_wifiOnly current, sp_busy = False, sp_message = None,
      sp_colour = ''success'',
      sp_server = (case ss_target current of Server t \<Rightarrow> t | _ \<Rightarrow> empty_server),
      sp_s3 = (case ss_target current of S3 t \<Rightarrow> t | _ \<Rightarrow> empty_s3),
      sp_git = (case ss_target current of Git t \<Rightarrow> t | _ \<Rightarrow> empty_git)\<rparr>"

definition sync_explanation :: "SyncTargetKind \<Rightarrow> string" where
  "sync_explanation kind =
     (case kind of
        ServerKind \<Rightarrow> ''The self-hosted Go server that ships with Easy Docket. It stores encrypted blobs and can read none of them.''
      | S3Kind \<Rightarrow> ''Any S3-compatible bucket: AWS, Cloudflare R2, Backblaze B2 or MinIO.''
      | GitKind \<Rightarrow> ''Each sync becomes one commit of encrypted files, giving you a versioned history you own.''
      | NoKind \<Rightarrow> ''Your ledger stays on this device. Nothing leaves it, and nothing arrives from other devices.'')"

text \<open>A patch replaces some fields of a draft.\<close>

datatype sync_edit =
    KindPicked SyncTargetKind | ServerPatched "ServerTarget \<Rightarrow> ServerTarget" | S3Patched "S3Target \<Rightarrow> S3Target"
  | GitPatched "GitTarget \<Rightarrow> GitTarget" | IntervalPicked int | ReconnectSet bool | WifiSet bool

fun edit_sync :: "sync_page \<Rightarrow> sync_edit \<Rightarrow> sync_page" where
  "edit_sync p (KindPicked kind) = p\<lparr>sp_kind := kind, sp_message := None\<rparr>"
| "edit_sync p (ServerPatched partial) = p\<lparr>sp_server := partial (sp_server p)\<rparr>"
| "edit_sync p (S3Patched partial) = p\<lparr>sp_s3 := partial (sp_s3 p)\<rparr>"
| "edit_sync p (GitPatched partial) = p\<lparr>sp_git := partial (sp_git p)\<rparr>"
| "edit_sync p (IntervalPicked n) = p\<lparr>sp_intervalMinutes := n\<rparr>"
| "edit_sync p (ReconnectSet b) = p\<lparr>sp_syncOnReconnect := b\<rparr>"
| "edit_sync p (WifiSet b) = p\<lparr>sp_wifiOnly := b\<rparr>"

definition page_target :: "sync_page \<Rightarrow> SyncTarget" where
  "page_target p =
     (case sp_kind p of
        ServerKind \<Rightarrow> Server (sp_server p) | S3Kind \<Rightarrow> S3 (sp_s3 p) | GitKind \<Rightarrow> Git (sp_git p) | NoKind \<Rightarrow> NoneTarget ''Not configured'')"

text \<open>\<open>probe\<close> is the probe of the adapter the factory makes.\<close>

definition test_connection :: "surroundings \<Rightarrow> (SyncTarget \<Rightarrow> unit result) \<Rightarrow> sync_page \<Rightarrow> sync_page" where
  "test_connection S probe p =
     (let p = p\<lparr>sp_message := None\<rparr>;
          answer = (case createAdapter (page_target p) of Inl err \<Rightarrow> Inl err | Inr _ \<Rightarrow> probe (page_target p))
      in (case answer of
            Inr _ \<Rightarrow> p\<lparr>sp_colour := ''success'', sp_message := Some ''Connected successfully.''\<rparr>
          | Inl err \<Rightarrow> p\<lparr>sp_colour := ''danger'', sp_message := Some (message_of S err)\<rparr>)\<lparr>sp_busy := False\<rparr>)"

definition page_settings :: "sync_page \<Rightarrow> SyncSettings" where
  "page_settings p =
     \<lparr>ss_target = page_target p, ss_intervalMinutes = sp_intervalMinutes p, ss_syncOnReconnect = sp_syncOnReconnect p,
      ss_wifiOnly = sp_wifiOnly p\<rparr>"

text \<open>Whether a cycle is started once the settings are saved.\<close>

definition save_sync_page :: "'k web_crypto \<Rightarrow> EnvelopeHeader json \<Rightarrow> SettingsBlob json \<Rightarrow> bytes \<Rightarrow> 'k keyring \<Rightarrow> sync_page \<Rightarrow>
    (settings_state, bool) call" where
  "save_sync_page C J V iv keys p =
     andThen (settings_save C J V iv keys (page_settings p)) (\<lambda>_. return (sp_kind p \<noteq> NoKind))"

section \<open>The indicator\<close>

definition status_icon :: "SyncSettings \<Rightarrow> SyncStatus \<Rightarrow> string" where
  "status_icon settings status =
     (if target_kind (ss_target settings) = NoKind then ''cloud-offline-outline''
      else if st_state status = ErrorState then ''warning-outline''
      else if st_pending status > 0 then ''cloud-upload-outline'' else ''cloud-done-outline'')"

definition status_colour :: "SyncSettings \<Rightarrow> SyncStatus \<Rightarrow> string" where
  "status_colour settings status =
     (if st_state status = ErrorState then ''danger''
      else if target_kind (ss_target settings) = NoKind then ''medium''
      else if st_pending status > 0 then ''warning'' else ''success'')"

definition status_label :: "typography \<Rightarrow> SyncSettings \<Rightarrow> SyncStatus \<Rightarrow> string" where
  "status_label T settings status =
     (if st_state status = Syncing then ''Syncing''
      else if st_state status = ErrorState then ''Sync failed '' @ em_dash T @ '' tap to retry''
      else if target_kind (ss_target settings) = NoKind then ''Sync not configured''
      else if st_pending status > 0 then ''Sync '' @ count_text (st_pending status) @ '' pending change(s)''
      else ''Synced '' @ em_dash T @ '' tap to sync now'')"

section \<open>The overview\<close>

definition categorySummary :: "(string \<Rightarrow> string \<Rightarrow> int) \<Rightarrow> docket_db \<Rightarrow> CategoryKind \<Rightarrow> string" where
  "categorySummary lc d kind =
     (let tree = category_tree lc d kind; children = sum_list (map (\<lambda>node. length (node_children node)) tree);
          parents = count_text (length tree) @ '' categor'' @ (if length tree = 1 then ''y'' else ''ies'')
      in if children = 0 \<or> \<not> subcategoriesEnabled d then parents
         else parents @ '', '' @ count_text children @ '' subcategor'' @ (if children = 1 then ''y'' else ''ies''))"

definition countedSummary :: "docket_db \<Rightarrow> string" where
  "countedSummary d =
     (let active = length (active_accounts d); n = length (counted d); noun = (if active = 1 then ''account'' else ''accounts'')
      in if n = active then ''All '' @ count_text active @ '' '' @ noun
         else count_text n @ '' of '' @ count_text active @ '' '' @ noun)"

definition middle_dot :: string where
  "middle_dot = '' '' @ [CHR 0xB7] @ '' ''"

definition targetLabel :: "typography \<Rightarrow> SyncTarget \<Rightarrow> string" where
  "targetLabel T target =
     (case target of
        Server t \<Rightarrow> srv_endpoint t
      | S3 t \<Rightarrow> ''S3'' @ middle_dot @ s3_bucket t
      | Git t \<Rightarrow> ''Git'' @ middle_dot @ git_repoUrl t
      | NoneTarget _ \<Rightarrow> ''Not configured '' @ em_dash T @ '' this device only'')"

definition syncSummary :: "(int \<Rightarrow> string) \<Rightarrow> SyncStatus \<Rightarrow> string" where
  "syncSummary local_time status =
     (if st_state status = ErrorState then
        ''Last attempt failed: '' @ (case st_lastError status of Some m \<Rightarrow> m | None \<Rightarrow> ''null'')
      else if st_lastSyncAt status = None \<or> st_lastSyncAt status = Some 0 then ''Never synced''
      else let shown = local_time (the (st_lastSyncAt status))
           in if st_pending status > 0 then ''Last synced '' @ shown @ middle_dot @ count_text (st_pending status) @ '' change(s) waiting''
              else ''Last synced '' @ shown @ middle_dot @ ''up to date'')"

section \<open>The theme\<close>

text \<open>A choice is \<open>'light'\<close>, \<open>'dark'\<close> or \<open>'auto'\<close>; what is stored is taken as it is. \<open>prefers_dark\<close> is what the
  media query answers.\<close>

record theme =
  th_choice :: string
  th_dark :: bool

definition THEME_KEY :: string where "THEME_KEY = ''docket.theme''"

definition apply_theme :: "bool \<Rightarrow> theme \<Rightarrow> theme" where
  "apply_theme prefers_dark t = t\<lparr>th_dark := th_choice t = ''dark'' \<or> (th_choice t = ''auto'' \<and> prefers_dark)\<rparr>"

definition theme_initialise :: "bool \<Rightarrow> string tbl \<Rightarrow> theme \<Rightarrow> theme" where
  "theme_initialise prefers_dark prefs t =
     apply_theme prefers_dark (t\<lparr>th_choice := (case tget prefs THEME_KEY of Some stored \<Rightarrow> stored | None \<Rightarrow> ''auto'')\<rparr>)"

definition theme_set :: "bool \<Rightarrow> string \<Rightarrow> string tbl \<times> theme \<Rightarrow> string tbl \<times> theme" where
  "theme_set prefers_dark choice s =
     (tput THEME_KEY choice (fst s), apply_theme prefers_dark ((snd s)\<lparr>th_choice := choice\<rparr>))"

text \<open>The system switches: only the automatic choice follows.\<close>

definition system_changed :: "bool \<Rightarrow> theme \<Rightarrow> theme" where
  "system_changed prefers_dark t = (if th_choice t = ''auto'' then apply_theme prefers_dark t else t)"

lemma theme_kept:
  "table_ok prefs \<Longrightarrow> theme_initialise p' (fst (theme_set p choice (prefs, t))) t' = apply_theme p' (t'\<lparr>th_choice := choice\<rparr>)"
  by (simp add: theme_set_def theme_initialise_def)

section \<open>What is typed is what is saved\<close>

definition server_patches :: "sync_edit list \<Rightarrow> ServerTarget \<Rightarrow> ServerTarget" where
  "server_patches es t = foldl (\<lambda>t e. case e of ServerPatched partial \<Rightarrow> partial t | _ \<Rightarrow> t) t es"

definition s3_patches :: "sync_edit list \<Rightarrow> S3Target \<Rightarrow> S3Target" where
  "s3_patches es t = foldl (\<lambda>t e. case e of S3Patched partial \<Rightarrow> partial t | _ \<Rightarrow> t) t es"

definition git_patches :: "sync_edit list \<Rightarrow> GitTarget \<Rightarrow> GitTarget" where
  "git_patches es t = foldl (\<lambda>t e. case e of GitPatched partial \<Rightarrow> partial t | _ \<Rightarrow> t) t es"

definition last_kind :: "sync_edit list \<Rightarrow> SyncTargetKind \<Rightarrow> SyncTargetKind" where
  "last_kind es k = foldl (\<lambda>k e. case e of KindPicked k' \<Rightarrow> k' | _ \<Rightarrow> k) k es"

lemma edits_drafts:
  "sp_server (foldl edit_sync p es) = server_patches es (sp_server p)" "sp_s3 (foldl edit_sync p es) = s3_patches es (sp_s3 p)"
  "sp_git (foldl edit_sync p es) = git_patches es (sp_git p)" "sp_kind (foldl edit_sync p es) = last_kind es (sp_kind p)"
proof (induction es arbitrary: p)
  case (Cons e es)
  { case 1 show ?case using Cons.IH(1) by (cases e) (simp_all add: server_patches_def) }
  { case 2 show ?case using Cons.IH(2) by (cases e) (simp_all add: s3_patches_def) }
  { case 3 show ?case using Cons.IH(3) by (cases e) (simp_all add: git_patches_def) }
  { case 4 show ?case using Cons.IH(4) by (cases e) (simp_all add: last_kind_def) }
qed (simp_all add: server_patches_def s3_patches_def git_patches_def last_kind_def)

lemma opened:
  "sp_kind (open_sync_page s) = target_kind (ss_target s)"
  "sp_server (open_sync_page s) = (case ss_target s of Server t \<Rightarrow> t | _ \<Rightarrow> empty_server)"
  "sp_s3 (open_sync_page s) = (case ss_target s of S3 t \<Rightarrow> t | _ \<Rightarrow> empty_s3)"
  "sp_git (open_sync_page s) = (case ss_target s of Git t \<Rightarrow> t | _ \<Rightarrow> empty_git)"
  by (simp_all add: open_sync_page_def)

text \<open>Each destination has a draft of its own. Whatever is picked and typed in whatever order, what the page
  saves is the chosen destination with exactly the edits made to it, on top of what was configured or of an
  empty form; going to another destination and back loses nothing. Opened and saved without an edit, the
  settings are what they were.\<close>

theorem sync_drafts_kept:
  shows "ss_target (page_settings (foldl edit_sync (open_sync_page s) es)) =
      (case last_kind es (target_kind (ss_target s)) of
         ServerKind \<Rightarrow> Server (server_patches es (case ss_target s of Server t \<Rightarrow> t | _ \<Rightarrow> empty_server))
       | S3Kind \<Rightarrow> S3 (s3_patches es (case ss_target s of S3 t \<Rightarrow> t | _ \<Rightarrow> empty_s3))
       | GitKind \<Rightarrow> Git (git_patches es (case ss_target s of Git t \<Rightarrow> t | _ \<Rightarrow> empty_git))
       | NoKind \<Rightarrow> NoneTarget ''Not configured'')"
    and "(\<And>label. ss_target s = NoneTarget label \<Longrightarrow> label = ''Not configured'') \<Longrightarrow> page_settings (open_sync_page s) = s"
proof -
  show "ss_target (page_settings (foldl edit_sync (open_sync_page s) es)) =
      (case last_kind es (target_kind (ss_target s)) of
         ServerKind \<Rightarrow> Server (server_patches es (case ss_target s of Server t \<Rightarrow> t | _ \<Rightarrow> empty_server))
       | S3Kind \<Rightarrow> S3 (s3_patches es (case ss_target s of S3 t \<Rightarrow> t | _ \<Rightarrow> empty_s3))
       | GitKind \<Rightarrow> Git (git_patches es (case ss_target s of Git t \<Rightarrow> t | _ \<Rightarrow> empty_git))
       | NoKind \<Rightarrow> NoneTarget ''Not configured'')"
    by (cases "last_kind es (target_kind (ss_target s))") (simp_all add: page_settings_def page_target_def edits_drafts opened)
  show "page_settings (open_sync_page s) = s" if "\<And>label. ss_target s = NoneTarget label \<Longrightarrow> label = ''Not configured''"
    using that by (cases s; cases "ss_target s") (simp_all add: page_settings_def open_sync_page_def page_target_def target_kind_def)
qed

lemma sync_drafts_kept_witness: "page_settings (open_sync_page DEFAULT_SYNC_SETTINGS) = DEFAULT_SYNC_SETTINGS"
  by (rule sync_drafts_kept(2)) (simp add: DEFAULT_SYNC_SETTINGS_def)

end
