(* ===== verification/Vault_Screens.thy ===== *)
theory Vault_Screens
  imports Settings_Screens Sync_Safety
begin

text \<open>
  Opening the application: the start (\<open>core/app-bootstrap.ts\<close>), the page a vault is created or unlocked on
  (\<open>features/vault/vault.page.ts\<close>) and the security page (\<open>features/settings/security.page.ts\<close>). The parts that
  the services model one by one are one state here: the keyring, the ledger, the settings, the status and
  the scheduler. The theorem follows a vault that is erased and made again: the database stays, and what
  the old key sealed keeps the new vault from opening.
\<close>

section \<open>The application\<close>

record 'k app =
  app_keys :: "'k keyring"
  app_ledger :: ledger
  app_settings :: SyncSettings
  app_status :: SyncStatus
  app_scheduler :: scheduler

record 'k platform =
  pl_env :: "'k key_env"
  pl_header :: "EnvelopeHeader json"
  pl_blob :: "SettingsBlob json"

definition on_keys :: "('k keyring, 'a) call \<Rightarrow> ('k app, 'a) call" where
  "on_keys m a = (case m (app_keys a) of (r, k) \<Rightarrow> (r, a\<lparr>app_keys := k\<rparr>))"

definition with_ledger :: "(ledger, 'a) call \<Rightarrow> ('k app, 'a) call" where
  "with_ledger m a = (case m (app_ledger a) of (r, l) \<Rightarrow> (r, a\<lparr>app_ledger := l\<rparr>))"

definition with_settings :: "('k keyring \<Rightarrow> (settings_state, 'a) call) \<Rightarrow> ('k app, 'a) call" where
  "with_settings m a =
     (case m (app_keys a) \<lparr>sst_db = led_db (app_ledger a), sst_current = app_settings a\<rparr> of
        (r, st) \<Rightarrow> (r, a\<lparr>app_ledger := (app_ledger a)\<lparr>led_db := sst_db st\<rparr>, app_settings := sst_current st\<rparr>))"

definition update_app :: "('k app \<Rightarrow> 'k app) \<Rightarrow> ('k app, unit) call" where
  "update_app f a = (Inr (), f a)"

section \<open>Starting\<close>

text \<open>What an unlock leaves to do, up to the cycle it starts in the background.\<close>

definition activateVault :: "'k platform \<Rightarrow> (nat \<Rightarrow> nat) \<Rightarrow> string \<Rightarrow> ('k app, unit) call" where
  "activateVault P now day =
     andThen (with_settings (settings_load (ke_crypto (pl_env P)) (pl_header P) (pl_blob P))) (\<lambda>_.
     andThen (update_app (\<lambda>a. a\<lparr>app_status := sync_initialise (led_db (app_ledger a)) (app_status a)\<rparr>)) (\<lambda>_.
     andThen (with_ledger (run now day (int MAX_OCCURRENCES_PER_RUN))) (\<lambda>_.
     update_app (\<lambda>a. a\<lparr>app_scheduler := scheduler_start (app_scheduler a)\<rparr>))))"

text \<open>\<open>confirmed\<close> is the answer to the presence check; \<open>inject\<close> outside an injection context throws, and
  \<open>in_context\<close> says whether the one of the start lasts.\<close>

definition bootstrapApp :: "'k platform \<Rightarrow> bytes \<Rightarrow> bool \<Rightarrow> bool \<Rightarrow> error \<Rightarrow> (nat \<Rightarrow> nat) \<Rightarrow> string \<Rightarrow> ('k app, unit) call" where
  "bootstrapApp P random confirmed in_context injection_error now day =
     andThen (on_keys (vault_initialise (pl_env P) random confirmed)) (\<lambda>state.
     andThen (\<lambda>a. (requireDeviceId (app_keys a), a)) (\<lambda>deviceId.
     andThen (update_app (\<lambda>a. a\<lparr>app_ledger := initialise deviceId (app_ledger a)\<rparr>)) (\<lambda>_.
       if state \<noteq> Unlocked then return ()
       else if \<not> in_context then throw injection_error
       else activateVault P now day)))"

section \<open>The vault page\<close>

record vault_page =
  vp_currency :: string
  vp_passphrase :: string
  vp_confirmation :: string
  vp_busy :: bool
  vp_error :: "string option"

definition new_vault_page :: "string option \<Rightarrow> vault_page" where
  "new_vault_page tag = \<lparr>vp_currency = guessCurrency tag, vp_passphrase = [], vp_confirmation = [], vp_busy = False, vp_error = None\<rparr>"

definition creating :: "'k app \<Rightarrow> bool" where
  "creating a \<longleftrightarrow> kr_state (app_keys a) = Uninitialised"

text \<open>What is drawn at random, and the clock of each step.\<close>

record 'k draws =
  dr_key :: 'k
  dr_salt :: bytes
  dr_iv :: bytes
  dr_vault :: string
  dr_ids :: "nat \<Rightarrow> nat \<Rightarrow> string"
  dr_now :: "nat \<Rightarrow> nat \<Rightarrow> nat"

definition open_vault :: "'k platform \<Rightarrow> 'k draws \<Rightarrow> vault_page \<Rightarrow> ('k app, unit) call" where
  "open_vault P R p a =
     (if creating a then
        andThen (on_keys (vault_create (pl_env P) (dr_key R) (dr_salt R) (dr_iv R) (dr_vault R) (vp_passphrase p))) (\<lambda>_.
        andThen (with_ledger (setReportingCurrency (dr_now R 0) (vp_currency p))) (\<lambda>_.
        andThen (with_ledger (categories_seedIfEmpty (dr_now R 1) (dr_ids R 0))) (\<lambda>_.
        with_ledger (groups_seedIfEmpty (dr_now R 2) (dr_ids R 1))))) a
      else on_keys (vault_unlock (pl_env P) (vp_passphrase p)) a)"

text \<open>The page, whether it went to the dashboard, and the application.\<close>

definition submit :: "'k platform \<Rightarrow> surroundings \<Rightarrow> 'k draws \<Rightarrow> vault_page \<Rightarrow> 'k app \<Rightarrow> (vault_page \<times> bool) \<times> 'k app" where
  "submit P S R p a =
     (if vp_busy p then ((p, False), a)
      else
        let p = p\<lparr>vp_error := None\<rparr>
        in if creating a \<and> vp_passphrase p \<noteq> vp_confirmation p
           then ((p\<lparr>vp_error := Some ''The two passphrases do not match''\<rparr>, False), a)
           else
             let done_page = p\<lparr>vp_busy := False, vp_passphrase := [], vp_confirmation := []\<rparr>
             in case andThen (open_vault P R p) (\<lambda>_. activateVault P (dr_now R 3) (today S)) a of
                  (Inl err, a') \<Rightarrow> ((done_page\<lparr>vp_error := Some (message_of S err)\<rparr>, False), a')
                | (Inr _, a') \<Rightarrow> ((done_page, True), a'))"

section \<open>The security page\<close>

record security_page =
  sc_biometrics :: "BiometricAvailability option"
  sc_biometricLock :: bool
  sc_current :: string
  sc_next :: string
  sc_confirmation :: string
  sc_error :: "string option"
  sc_bundle :: "string option"

text \<open>The page and the keyring together; an exception leaves what had been set.\<close>

definition on_page :: "(security_page \<Rightarrow> security_page) \<Rightarrow> (security_page \<times> 'k keyring, unit) call" where
  "on_page f s = (Inr (), (f (fst s), snd s))"

definition on_ring :: "('k keyring, 'a) call \<Rightarrow> (security_page \<times> 'k keyring, 'a) call" where
  "on_ring m s = (case m (snd s) of (r, k) \<Rightarrow> (r, (fst s, k)))"

definition loadBiometrics :: "'k key_env \<Rightarrow> BiometricAvailability \<Rightarrow> (security_page \<times> 'k keyring, unit) call" where
  "loadBiometrics E answer =
     andThen (on_page (\<lambda>p. p\<lparr>sc_biometrics := Some answer\<rparr>)) (\<lambda>_.
     andThen (on_ring (isEnabled E)) (\<lambda>enabled. on_page (\<lambda>p. p\<lparr>sc_biometricLock := enabled\<rparr>)))"

text \<open>What is returned is the message shown. \<open>confirmed\<close> is the answer to the check.\<close>

definition setBiometricLock :: "'k key_env \<Rightarrow> bool \<Rightarrow> bool \<Rightarrow> (security_page \<times> 'k keyring, string option) call" where
  "setBiometricLock E confirmed enabled =
     (if enabled \<and> \<not> verify (ke_durable E) confirmed
      then andThen (on_page (\<lambda>p. p\<lparr>sc_biometricLock := False\<rparr>)) (\<lambda>_. return (Some ''That check did not pass, so nothing has changed''))
      else andThen (on_ring (setEnabled E enabled)) (\<lambda>_.
           andThen (on_page (\<lambda>p. p\<lparr>sc_biometricLock := enabled\<rparr>)) (\<lambda>_. return None)))"

definition canChange :: "security_page \<Rightarrow> bool" where
  "canChange p \<longleftrightarrow> length (sc_current p) > 0 \<and> length (sc_next p) \<ge> 8"

definition change_passphrase :: "'k key_env \<Rightarrow> surroundings \<Rightarrow> bytes \<Rightarrow> bytes \<Rightarrow> security_page \<times> 'k keyring \<Rightarrow>
    (security_page \<times> 'k keyring) \<times> string option" where
  "change_passphrase E S salt iv s =
     (let p = (fst s)\<lparr>sc_error := None\<rparr>
      in if sc_next p \<noteq> sc_confirmation p
         then ((p\<lparr>sc_error := Some ''The two new passphrases do not match''\<rparr>, snd s), None)
         else
           let cleared = p\<lparr>sc_current := [], sc_next := [], sc_confirmation := []\<rparr>
           in case changePassphrase E salt iv (sc_current p) (sc_next p) (snd s) of
                (Inl err, keys) \<Rightarrow> ((cleared\<lparr>sc_error := Some (message_of S err)\<rparr>, keys), None)
              | (Inr _, keys) \<Rightarrow> ((cleared, keys), Some ''Passphrase changed''))"

text \<open>\<open>pretty\<close> is \<open>JSON.stringify\<close> with an indentation of two; its text is not empty.\<close>

definition reveal :: "'k key_env \<Rightarrow> (string \<times> WrappedMasterKey \<Rightarrow> string) \<Rightarrow> (security_page \<times> 'k keyring, unit) call" where
  "reveal E pretty s =
     (if \<not> falsy (sc_bundle (fst s)) then on_page (\<lambda>p. p\<lparr>sc_bundle := None\<rparr>) s
      else andThen (on_ring (exportWrappedKey E)) (\<lambda>exported. on_page (\<lambda>p. p\<lparr>sc_bundle := map_option pretty exported\<rparr>)) s)"

definition reset_question :: question where
  "reset_question =
     \<lparr>q_header = ''Erase this vault?'',
      q_message = ''The key and all local data on this device are destroyed. Anything already synced stays at your destination '' @
        ''and can be restored with your recovery bundle and passphrase. Anything not yet synced is gone.''\<rparr>"

definition erase_vault :: "'k platform \<Rightarrow> ('k app, unit) call" where
  "erase_vault P = on_keys (vault_destroy (pl_env P))"

definition lock_now :: "'k platform \<Rightarrow> 'k app \<Rightarrow> 'k app" where
  "lock_now P a = a\<lparr>app_keys := vault_lock (pl_env P) (app_keys a)\<rparr>"

section \<open>A vault that was erased\<close>

text \<open>The services write the clock to the \<open>meta\<close> table and nothing else.\<close>

lemma writes_meta:
  assumes "writes K l l'" and "table_ok (meta (led_db l))" and "k \<noteq> CLOCK_STATE_KEY"
  shows "tget (meta (led_db l')) k = tget (meta (led_db l)) k" "table_ok (meta (led_db l'))"
proof -
  have "tget (meta (led_db l')) k = tget (meta (led_db l)) k \<and> table_ok (meta (led_db l'))"
    using assms(1)
  proof (induction rule: rtranclp_induct)
    case (step m m')
    from step(2) show ?case using step(3) assms(3)
      by (cases rule: write_step.cases) (auto simp: put_def remove_def Let_def persistClock_def split: option.splits prod.splits sum.splits)
  qed (use assms(2) in simp)
  then show "tget (meta (led_db l')) k = tget (meta (led_db l)) k" "table_ok (meta (led_db l'))" by simp_all
qed

text \<open>Settings of another key: the envelope is well formed and the key at hand does not open it.\<close>

definition foreign_settings :: "'k platform \<Rightarrow> 'k \<Rightarrow> docket_db \<Rightarrow> bool" where
  "foreign_settings P key d \<longleftrightarrow>
     (\<exists>iv aad ct h. tget (meta d) SETTINGS_KEY = Some (MetaString (toBase64 (layout iv aad ct))) \<and> length iv = IV_LENGTH \<and>
        length aad \<le> 0xffff \<and> from_json (pl_header P) aad = Some h \<and> decrypt (ke_crypto (pl_env P)) key iv aad ct = None)"

lemma foreign_settings_stop:
  assumes "foreign_settings P key (led_db (app_ledger a))" and "kr_masterKey (app_keys a) = Some key"
  shows "activateVault P now day a = (Inl wrong_key, a)"
proof -
  obtain iv aad ct h where s: "tget (meta (led_db (app_ledger a))) SETTINGS_KEY = Some (MetaString (toBase64 (layout iv aad ct)))"
      "length iv = IV_LENGTH" "length aad \<le> 0xffff" "from_json (pl_header P) aad = Some h" "decrypt (ke_crypto (pl_env P)) key iv aad ct = None"
    using assms(1) by (auto simp: foreign_settings_def)
  have "openJson (ke_crypto (pl_env P)) (pl_header P) (pl_blob P) key (layout iv aad ct) = Inl wrong_key"
    by (simp add: openJson_def open_envelope_def parse_layout [OF s(2,3)] s(4,5))
  then have "open_settings (ke_crypto (pl_env P)) (pl_header P) (pl_blob P) (app_keys a) (toBase64 (layout iv aad ct)) = Inl wrong_key"
    using assms(2) by (simp add: open_settings_def requireKey_def base64_inverse)
  then show ?thesis by (simp add: activateVault_def andThen_def with_settings_def settings_load_def s(1))
qed

lemma adopt_Inr: "adopt E key s = (Inr u, s') \<Longrightarrow> kr_masterKey s' = Some key"
  by (cases "kf_secret_set (ke_faults E)")
    (auto simp: adopt_def andThen_def update_keys_def secure_set_def return_def split: prod.splits sum.splits if_splits)

lemma opened_key:
  assumes "open_vault P R p a = (Inr u, b)"
  shows "creating a \<Longrightarrow> kr_masterKey (app_keys b) = Some (dr_key R)"
    and "\<not> creating a \<Longrightarrow> \<exists>key. fst (stored_key (pl_env P) (vp_passphrase p) (app_keys a)) = Inr key \<and>
      kr_masterKey (app_keys b) = Some key \<and> app_ledger b = app_ledger a"
  using assms by (auto simp: open_vault_def andThen_def on_keys_def with_ledger_def vault_create_def vault_unlock_def Let_def
      split: prod.splits sum.splits if_splits dest!: adopt_Inr)

lemma created_meta:
  assumes "creating a" and "open_vault P R p a = (Inr u, b)" and "ledger_ok W dev (app_ledger a)" and "rows_valid (app_ledger a)"
    and "\<forall>i j. plausible (dr_now R i j)" and "k \<noteq> CLOCK_STATE_KEY"
  shows "tget (meta (led_db (app_ledger b))) k = tget (meta (led_db (app_ledger a))) k"
proof -
  obtain r1 r2 r3 l1 l2 where steps: "setReportingCurrency (dr_now R 0) (vp_currency p) (app_ledger a) = (r1, l1)"
      "categories_seedIfEmpty (dr_now R 1) (dr_ids R 0) l1 = (r2, l2)" "groups_seedIfEmpty (dr_now R 2) (dr_ids R 1) l2 = (r3, app_ledger b)"
    using assms(1,2) by (auto simp: open_vault_def andThen_def on_keys_def with_ledger_def split: prod.splits sum.splits)
  have now: "\<forall>j. plausible (dr_now R i j)" for i using assms(5) by simp
  have w1: "writes UNIV (app_ledger a) l1" by (rule set_currency.only_writes_any [OF now assms(3,4) steps(1)])
  obtain W1 where ok1: "ledger_ok W1 dev l1" "rows_valid l1" using set_currency.service_ok [OF now assms(3,4) steps(1)] by blast
  have w2: "writes UNIV l1 l2" by (rule seed_categories.only_writes_any [OF now ok1 steps(2)])
  obtain W2 where ok2: "ledger_ok W2 dev l2" "rows_valid l2" using seed_categories.service_ok [OF now ok1 steps(2)] by blast
  have w3: "writes UNIV l2 (app_ledger b)" by (rule seed_vault_groups.only_writes_any [OF now ok2 steps(3)])
  have "table_ok (meta (led_db (app_ledger a)))" using ledger_okD(1) [OF assms(3)] by (simp add: db_ok_def)
  then show ?thesis using writes_meta [OF w1 _ assms(6)] writes_meta [OF w2 _ assms(6)] writes_meta [OF w3 _ assms(6)] by simp
qed

lemma submit_fails:
  assumes "\<And>u b. open_vault P R (p\<lparr>vp_error := None\<rparr>) a = (Inr u, b) \<Longrightarrow>
      \<exists>key. kr_masterKey (app_keys b) = Some key \<and> foreign_settings P key (led_db (app_ledger b))"
    and "\<not> vp_busy p" and "submit P S R p a = ((q, went), a')"
  shows "\<not> went \<and> vp_error q \<noteq> None"
proof (cases "creating a \<and> vp_passphrase p \<noteq> vp_confirmation p")
  case False
  obtain x b where run: "open_vault P R (p\<lparr>vp_error := None\<rparr>) a = (x, b)" by fastforce
  show ?thesis
  proof (cases x)
    case (Inr u)
    then obtain key where "kr_masterKey (app_keys b) = Some key" "foreign_settings P key (led_db (app_ledger b))" using assms(1) run by blast
    from foreign_settings_stop [OF this(2,1)] show ?thesis
      using assms(2,3) False run Inr by (auto simp: submit_def Let_def andThen_def)
  qed (use assms(2,3) False run in \<open>auto simp: submit_def Let_def andThen_def\<close>)
qed (use assms(2,3) in \<open>auto simp: submit_def Let_def\<close>)

lemma erased:
  assumes "erase_vault P b = (r, e)"
  shows "app_ledger e = app_ledger b" and "kf_remove (ke_faults (pl_env P)) = (\<lambda>_. None) \<Longrightarrow> r = Inr ()"
    and "r = Inr () \<Longrightarrow> creating e \<and> kr_masterKey (app_keys e) = None \<and> kr_vaultId (app_keys e) = None"
  using assms
  by (auto simp: erase_vault_def on_keys_def vault_destroy_def andThen_def update_keys_def both_def remove_pref_def creating_def vault_lock_def
      secure_remove_def Let_def split: prod.splits sum.splits if_splits elim!: faulty.elims)

text \<open>C17: Erasing a vault leaves the database, and the settings in it lock the next vault out. Erasing changes the
  keys only: every row, the log and the sealed settings stay; it succeeds unless a preference cannot be
  removed, and then no key is held and the page offers to create a vault. When settings had been saved and
  the key of the new vault does not open what the old one sealed, creating a vault ends on the page with an
  error; and so does every later attempt to unlock it, with whatever key the passphrase gives.\<close>

theorem erased_vault_locks_out:
  assumes "\<not> vp_busy p" and "submit P S R p a = ((q, went), a')" and "erase_vault P b = (r, e)"
  shows "app_ledger e = app_ledger b \<and> (kf_remove (ke_faults (pl_env P)) = (\<lambda>_. None) \<longrightarrow> r = Inr ()) \<and>
    (r = Inr () \<longrightarrow> creating e \<and> kr_masterKey (app_keys e) = None) \<and>
    (a = e \<and> r = Inr () \<and> ledger_ok W dev (app_ledger b) \<and> rows_valid (app_ledger b) \<and> (\<forall>i j. plausible (dr_now R i j)) \<and>
      foreign_settings P (dr_key R) (led_db (app_ledger b)) \<longrightarrow> \<not> went \<and> vp_error q \<noteq> None) \<and>
    (\<not> creating a \<and> (\<forall>key. fst (stored_key (pl_env P) (vp_passphrase p) (app_keys a)) = Inr key \<longrightarrow>
      foreign_settings P key (led_db (app_ledger a))) \<longrightarrow> \<not> went \<and> vp_error q \<noteq> None)"
proof -
  note erased = erased [OF assms(3)]
  have created: "\<not> went \<and> vp_error q \<noteq> None" if "a = e" "r = Inr ()" "ledger_ok W dev (app_ledger b)" "rows_valid (app_ledger b)"
    "\<forall>i j. plausible (dr_now R i j)" "foreign_settings P (dr_key R) (led_db (app_ledger b))"
  proof (rule submit_fails [OF _ assms(1,2)])
    fix u c assume run: "open_vault P R (p\<lparr>vp_error := None\<rparr>) a = (Inr u, c)"
    have new: "creating a" "app_ledger a = app_ledger b" using erased that(1,2) by simp_all
    have "SETTINGS_KEY \<noteq> CLOCK_STATE_KEY" by (simp add: SETTINGS_KEY_def CLOCK_STATE_KEY_def)
    from created_meta [OF new(1) run _ _ that(5) this] that(3,4,6) new(2)
    have "foreign_settings P (dr_key R) (led_db (app_ledger c))" by (simp add: foreign_settings_def)
    then show "\<exists>key. kr_masterKey (app_keys c) = Some key \<and> foreign_settings P key (led_db (app_ledger c))"
      using opened_key(1) [OF run new(1)] by blast
  qed
  have unlocked: "\<not> went \<and> vp_error q \<noteq> None" if "\<not> creating a"
    "\<And>key. fst (stored_key (pl_env P) (vp_passphrase p) (app_keys a)) = Inr key \<Longrightarrow> foreign_settings P key (led_db (app_ledger a))"
    by (rule submit_fails [OF _ assms(1,2)]) (use opened_key(2) that in force)
  show ?thesis using erased created unlocked by blast
qed

section \<open>Witness\<close>

definition sample_pl :: "byte platform" where
  "sample_pl = \<lparr>pl_env = sample_platform False, pl_header = header_json,
     pl_blob = \<lparr>to_json = (\<lambda>_. [1]), from_json = (\<lambda>_. Some (blob_of sample_settings))\<rparr>\<rparr>"

definition sealed_by_9 :: bytes where
  "sealed_by_9 = layout (replicate 12 7) (ascii_bytes ''{}'') (encrypt sample_crypto 9 (replicate 12 7) (ascii_bytes ''{}'') [1])"

definition sealed_db :: docket_db where
  "sealed_db = new_db\<lparr>meta := [(SETTINGS_KEY, MetaString (toBase64 sealed_by_9))]\<rparr>"

definition sample_app :: "byte app" where
  "sample_app = \<lparr>app_keys = sample_made False, app_ledger = (new_ledger ''a'')\<lparr>led_db := sealed_db\<rparr>, app_settings = sample_settings,
     app_status = INITIAL_STATUS, app_scheduler = \<lparr>sch_timer = None, sch_started = True\<rparr>\<rparr>"

definition sample_draws :: "byte draws" where
  "sample_draws = \<lparr>dr_key = 8, dr_salt = [1, 2], dr_iv = replicate 12 5, dr_vault = ''again'', dr_ids = (\<lambda>_ j. replicate j CHR ''x''), dr_now = (\<lambda>_ _. 1000)\<rparr>"

lemma erased_vault_locks_out_witness:
  "\<exists>q a'. fst (erase_vault sample_pl sample_app) = Inr () \<and> submit sample_pl form_surroundings sample_draws
       \<lparr>vp_currency = ''EUR'', vp_passphrase = ''correct horse'', vp_confirmation = ''correct horse'', vp_busy = False, vp_error = None\<rparr>
       (snd (erase_vault sample_pl sample_app)) = ((q, False), a') \<and> vp_error q \<noteq> None"
proof -
  let ?p = "\<lparr>vp_currency = ''EUR'', vp_passphrase = ''correct horse'', vp_confirmation = ''correct horse'', vp_busy = False, vp_error = None\<rparr>"
  obtain q went a' where run: "submit sample_pl form_surroundings sample_draws ?p (snd (erase_vault sample_pl sample_app)) = ((q, went), a')"
    by (metis prod.collapse)
  have db: "led_db (new_ledger ''a'') = new_db" by (simp add: new_ledger_def initialise_def)
  have "ledger_ok {} ''a'' (new_ledger ''a'')" using sample_devices by (simp add: new_ledger_ok)
  then have ok: "ledger_ok {} ''a'' (app_ledger sample_app)" unfolding sample_app_def app.simps
    by (rule ledger_ok_cong) (simp_all add: db sealed_db_def new_db_def table_ok_def primaryKeys_def tget_def SETTINGS_KEY_def CLOCK_STATE_KEY_def)
  have valid: "rows_valid (app_ledger sample_app)"
    by (simp add: rows_valid_def sample_app_def sealed_db_def new_db_def)
  have clocks: "\<forall>i j. plausible (dr_now sample_draws i j)" using plausible_small [of 1000] by (simp add: sample_draws_def)
  have "foreign_settings sample_pl (dr_key sample_draws) (led_db (app_ledger sample_app))"
    unfolding foreign_settings_def
    by (rule exI [of _ "replicate 12 7"], rule exI [of _ "ascii_bytes ''{}''"], rule exI [of _ "encrypt sample_crypto 9 (replicate 12 7) (ascii_bytes ''{}'') [1]"])
      (simp add: sample_app_def sealed_db_def sealed_by_9_def tget_def IV_LENGTH_def sample_pl_def header_json_def sample_platform_def
        sample_crypto_def sample_draws_def ascii_bytes_def Let_def)
  with erased_vault_locks_out [OF _ run surjective_pairing, where b = sample_app and W = "{}" and dev = "''a''"] ok valid clocks show ?thesis using run
    by (auto simp: sample_pl_def no_faults_def)
qed

end
