(* ===== verification/Report_Screens.thy ===== *)
theory Report_Screens
  imports Account_Screens Reports Budgets_Service
begin

text \<open>
  The dashboard (\<open>features/dashboard/dashboard.page.ts\<close>) and the page of the reports
  (\<open>features/reports/reports.page.ts\<close>): what they pick out of what the services derive, and the table that
  is exported. The charts themselves are drawings. The lemmas show that the overview says what the rest of
  the budgets holds, and that the exported file reads back as the report that is on the screen.
\<close>

section \<open>The dashboard\<close>

definition dashboard_sheet :: "(string \<Rightarrow> string \<Rightarrow> int) \<Rightarrow> docket_db \<Rightarrow> string \<Rightarrow> BalanceSheet result" where
  "dashboard_sheet lc d asOf = map_sum id balanceSheet (buildSections (page_input lc d asOf))"

definition recent :: "TransactionFilter \<Rightarrow> docket_db \<Rightarrow> Transaction list" where
  "recent flt d = take 5 (visible flt d)"

definition dueIn :: "string \<Rightarrow> string \<Rightarrow> string" where
  "dueIn thisDay date =
     (let days = daysBetween thisDay date
      in case days of
           Some n \<Rightarrow> if n \<le> 0 then ''due today'' else if n = 1 then ''due tomorrow'' else ''due in '' @ String_of_int days @ '' days''
         | None \<Rightarrow> ''due in '' @ String_of_int days @ '' days'')"

definition headline :: "BudgetStatus list \<Rightarrow> BudgetStatus list" where
  "headline stats = take 3 (filter (\<lambda>s. bs_progress s \<noteq> None) (byUrgency stats))"

definition viewAllLabel :: "BudgetStatus list \<Rightarrow> string" where
  "viewAllLabel stats =
     (let others = int (length stats) - int (length (headline stats)); over = length (overspent stats)
      in if others > 0 then ''View all '' @ count_text (length stats) @ '' budgets''
         else if over > 0 then (if over = 1 then ''1 budget over its limit'' else count_text over @ '' budgets over their limit'')
         else ''All budgets within their limits'')"

record top_category =
  tc_categoryId :: string
  tc_amount :: number
  tc_name :: string
  tc_colour :: string
  tc_share :: number

definition topCategories :: "docket_db \<Rightarrow> (string \<times> number) list \<Rightarrow> top_category list" where
  "topCategories d spent_rows =
     (let top_rows = take 5 spent_rows;
          largest = (case top_rows of [] \<Rightarrow> Fin 1 | r # _ \<Rightarrow> snd r)
      in map (\<lambda>(i, amount).
           let category = category_byId (all_categories d) (Some i)
           in \<lparr>tc_categoryId = i, tc_amount = amount,
               tc_name = (case category of Some c \<Rightarrow> cat_name c | None \<Rightarrow> ''Uncategorised''),
               tc_colour = with_default ''var(--ion-color-medium)'' (Option.bind category cat_colour),
               tc_share = Math_round (num_times (num_quot amount largest) (Fin 100))\<rparr>) top_rows)"

section \<open>The reports\<close>

definition rangeLabel :: "RangePreset \<Rightarrow> string" where
  "rangeLabel preset = (case List.find (\<lambda>r. fst r = preset) RANGE_OPTIONS of Some r \<Rightarrow> snd r | None \<Rightarrow> ''This month'')"

text \<open>\<open>month_text\<close> is how the locale writes a month.\<close>

record 'a chart_row =
  ch_id :: string
  ch_label :: string
  ch_value :: 'a

definition categoryRows :: "docket_db \<Rightarrow> ReportData \<Rightarrow> number chart_row list" where
  "categoryRows d data =
     map (\<lambda>r. \<lparr>ch_id = with_default ''uncategorised'' (ct_categoryId r), ch_label = nameFor d (ct_categoryId r), ch_value = ct_amount r\<rparr>)
       (rd_categories data)"

definition flowGroups :: "(string \<Rightarrow> string) \<Rightarrow> ReportData \<Rightarrow> number list chart_row list" where
  "flowGroups month_text data =
     map (\<lambda>r. \<lparr>ch_id = mf_month r, ch_label = month_text (mf_month r), ch_value = [mf_income r, mf_expense r]\<rparr>) (rd_flow data)"

definition netWorthRows :: "(string \<Rightarrow> string) \<Rightarrow> ReportData \<Rightarrow> number chart_row list" where
  "netWorthRows month_text data =
     map (\<lambda>p. \<lparr>ch_id = np_date p, ch_label = month_text (slice 0 7 (np_date p)), ch_value = np_amount p\<rparr>) (rd_netWorth data)"

definition export_rows :: "(string \<Rightarrow> string) \<Rightarrow> docket_db \<Rightarrow> ReportData \<Rightarrow> CsvValue list list" where
  "export_rows month_text d data =
     (let money = (\<lambda>amount. CsvText (formatAmount_number amount (rd_currency data)))
      in map (\<lambda>r. [CsvText ''Category'', CsvText (nameFor d (ct_categoryId r)), money (ct_amount r), CsvNumber (int (ct_count r))])
           (rd_categories data) @
         concat (map (\<lambda>r. [[CsvText ''Income'', CsvText (month_text (mf_month r)), money (mf_income r), CsvText []],
                           [CsvText ''Expense'', CsvText (month_text (mf_month r)), money (mf_expense r), CsvText []]]) (rd_flow data)) @
         map (\<lambda>p. [CsvText ''Net worth'', CsvText (np_date p), money (np_amount p), CsvText []]) (rd_netWorth data) @
         map (\<lambda>p. [CsvText ''Payee'', CsvText (py_payee p), money (py_amount p), CsvNumber (int (py_count p))]) (rd_payees data))"

definition export_table :: "(string \<Rightarrow> string) \<Rightarrow> docket_db \<Rightarrow> ReportData \<Rightarrow> CsvTable" where
  "export_table month_text d data =
     \<lparr>csv_headers = [''Section'', ''Item'', ''Amount ('' @ rd_currency data @ '')'', ''Count''], csv_rows = export_rows month_text d data\<rparr>"

text \<open>The name of the file and its text. What writing the file throws becomes a message.\<close>

definition exportCsv :: "(string \<Rightarrow> string) \<Rightarrow> docket_db \<Rightarrow> ReportData \<Rightarrow> string \<times> string" where
  "exportCsv month_text d data =
     (csvFilename ''easy-docket-report'' (range_from (rd_range data)) (range_to (rd_range data)), toCsv (export_table month_text d data))"

definition export_failed :: "surroundings \<Rightarrow> unit result \<Rightarrow> string option" where
  "export_failed S answer = (case answer of Inl err \<Rightarrow> Some (''Could not export: '' @ message_of S err) | Inr _ \<Rightarrow> None)"

section \<open>What the pages tell\<close>

text \<open>Only when all budgets are shown and none is over its limit does the overview say that all are within theirs.\<close>

lemma viewAllLabel_quiet:
  assumes "viewAllLabel stats = ''All budgets within their limits''"
  shows "overspent stats = [] \<and> length stats = length (headline stats)"
proof -
  have "length (headline stats) \<le> length stats"
    using length_filter_le [of "\<lambda>s. bs_progress s \<noteq> None" "byUrgency stats"] length_filter_le [of "\<lambda>s. bs_progress s \<noteq> None" stats]
    by (simp add: headline_def byUrgency_def length_sort_by min.coboundedI1)
  moreover have "count_text n @ '' budgets over their limit'' \<noteq> ''All budgets within their limits''" for n
    by (auto dest: arg_cong [of _ _ last])
  ultimately show ?thesis using assms by (auto simp: viewAllLabel_def Let_def split: if_splits)
qed

text \<open>The exported file reads back as the report, line by line, and no line of it is lost.\<close>

lemma exported_report_reads_back:
  "parseCsv (Plain (snd (exportCsv month_text d data))) =
     map cell_text (map CsvText (csv_headers (export_table month_text d data))) # map (map cell_text) (export_rows month_text d data)"
proof -
  have "has_content (map cell_text r)" if "r \<in> set (export_rows month_text d data)" for r
    using that by (auto simp: export_rows_def Let_def has_content_def cell_text_def guarded_def formula_like_def)
  then have "filter has_content (map (map cell_text) (export_rows month_text d data)) = map (map cell_text) (export_rows month_text d data)"
    by (simp add: filter_id_conv)
  then show ?thesis
    by (simp add: exportCsv_def parse_toCsv) (simp add: export_table_def has_content_def cell_text_def guarded_def formula_like_def)
qed

end
