(* ===== verification/Spec2Isabelle.thy ===== *)
theory Spec2Isabelle
  imports Application Sync_Snapshot Reports_Exact Settings
    Server_Adapter Rule_Editor Account_Editor Budget_Screens Category_Screens Pay_Bill_Sheet Ledger_Pages Data_Screen Vault_Screens
    Report_Screens
begin

text \<open>
  Easy Docket (\<open>src/app\<close>): a personal ledger that keeps its data on the device, works offline and
  replicates, sealed, through an object store that is not trusted. This development models the
  application's core, \<open>src/app/src/app/core\<close>, its screens and the sync server that comes with it; paths
  below are relative to the core unless they start with \<open>src\<close>, \<open>features\<close> or \<open>shared\<close>.

  \<^bold>\<open>How the program is put together.\<close> Every entity is a row of a local table. A change goes through a
  service of \<open>repositories/\<close>, which checks it and calls \<open>put\<close> or \<open>remove\<close> of the ledger service. The
  ledger stamps the row with the hybrid logical clock and appends an operation to its log. The sync
  engine uploads the logged operations in sealed batches, downloads those of other devices and merges
  them, the newest stamp of a row winning. Screens read the tables through functions that derive
  balances, budgets, statements and reports. Keys, settings and backups surround this core.

  \<^bold>\<open>Theories, in the order they build on each other.\<close>
  \<^item> \<open>Prelude\<close>: errors, results, the part of the JavaScript string and array library the sources use and
    the lemmas on them. \<open>Compare\<close>: stable sorting by a comparison function. \<open>Numbers\<close>: binary64 with its
    infinities and NaN, as a rounding of exact results.
  \<^item> \<open>Clock\<close>: \<open>util/hlc.ts\<close>, the state of the clock, its ticks and observations with both errors, and
    the fixed-width text of a stamp. The lemmas show that the order of the texts is the order of the
    stamps and that stamps only grow.
  \<^item> \<open>Dates\<close>, \<open>Anchored\<close>: \<open>util/dates.ts\<close>, the calendar on \<open>YYYY-MM-DD\<close> strings, and the locale of a
    series of dates measured from an anchor, interpreted by recurring rules and by budget windows.
  \<^item> \<open>Store\<close>, \<open>Domain\<close>, \<open>Repo\<close>: \<open>models/domain.ts\<close>, \<open>models/oplog.ts\<close> and the tables of
    \<open>db/docket-db.ts\<close>. A table is a list of rows in key order, as an IndexedDB object store is.
  \<^item> \<open>Replica\<close>, \<open>Ledger\<close>, \<open>Vault\<close>: \<open>repositories/ledger.service.ts\<close>. \<open>Replica\<close> is the contract of
    a last-writer-wins replica as a locale; \<open>Ledger\<close> models every operation of the service over a record
    of the database and the clock, and \<open>Vault\<close> interprets the contract on the merge and lets the devices
    of a vault write, exchange batches, restart and mark operations as sent in any order. Its lemmas are
    the invariant of every reachable state and convergence.
  \<^item> \<open>Writes\<close>, \<open>Transactions_Service\<close>, \<open>Rates_Service\<close>, \<open>Accounts_Service\<close>, \<open>Groups_Service\<close>,
    \<open>Categories_Service\<close>, \<open>Budgets_Service\<close>, \<open>Recurring_Service\<close>: the services of \<open>repositories/\<close>. \<open>Writes\<close>
    holds what they share: what a stored row must satisfy and the step that writes it. Each service has
    its checks, its changes and what it derives, with \<open>accounts/\<close> in \<open>Groups_Service\<close> and \<open>Sections\<close>.
  \<^item> \<open>Money\<close>, \<open>Budgets\<close>, \<open>Category_Tree\<close>, \<open>Cards\<close>, \<open>Schedule\<close>, \<open>Materialiser\<close>: \<open>util/money.ts\<close> and
    \<open>money/\<close>; \<open>budgets/\<close>; \<open>categories/tree.ts\<close>; \<open>cards/\<close>; \<open>recurring/\<close>. Scans are shown to find exactly
    the dates a rule names, window searches to end in the one window around a date, and a run of the
    materialiser to be repeatable.
  \<^item> \<open>Csv\<close>, \<open>Import\<close>, \<open>Import_Safety\<close>: \<open>import/\<close> and \<open>reports/csv.ts\<close>, reading a file, planning an import
    and writing it. \<open>Reports\<close>, \<open>Reports_Exact\<close>: \<open>reports/aggregate.ts\<close> and \<open>reports.service.ts\<close>.
  \<^item> \<open>Envelope\<close>, \<open>Keys\<close>, \<open>Backup\<close>, \<open>Settings\<close>: \<open>crypto/\<close>; \<open>keys/\<close>, the vault's key as a state machine over
    the platform's two stores; \<open>backup/\<close>; \<open>sync/sync-settings.service.ts\<close> and the triggers of a cycle.
  \<^item> \<open>Sync_Target\<close>, \<open>Sync\<close>, \<open>Sync_Safety\<close>, \<open>Sync_Push\<close>, \<open>Sync_Convergence\<close>, \<open>Sync_Snapshot\<close>:
    \<open>sync/sync-target.ts\<close>, \<open>sync-adapter.ts\<close> and \<open>sync.service.ts\<close>. A cycle is a program over the device
    and the destination in which every call of the destination may fail, before or after it took
    effect, and between any two calls other devices may change the destination. The invariant relates
    the log, the record of known objects and what is stored.
  \<^item> \<open>Namespaces\<close>, \<open>Server_Store\<close>, \<open>Server_Api\<close>: the sync server that comes with the program
    (\<open>src/server/internal\<close>), a store of files per account with immutable names, a quota and pages, and the
    handlers that answer requests for it. The lemmas show what an account sees, that no other account
    can change or tell it, and what bounds it. \<open>Server_Adapter\<close>: \<open>sync/adapters/server.adapter.ts\<close>
    over a network that loses requests and answers, and the locale \<open>sync_destination\<close>, the contract of an
    adapter, interpreted on the in-memory destination and on the adapter over the server.
  \<^item> \<open>Numerals\<close>, \<open>Forms\<close>: numbers as JavaScript prints and reads them, and what the sheets and pages of
    \<open>features/\<close> and \<open>shared/\<close> have in common. A sheet is a record of its signals; a computed value is a
    function of the record and the database, an effect and a handler are steps on the record, and saving is a
    program over the ledger. \<open>Transaction_Editor\<close>, \<open>Rule_Editor\<close>, \<open>Account_Editor\<close>, \<open>Budget_Screens\<close>,
    \<open>Category_Screens\<close>, \<open>Account_Screens\<close>, \<open>Pay_Bill_Sheet\<close>, \<open>Ledger_Pages\<close>, \<open>Data_Screen\<close>, \<open>Report_Screens\<close>,
    \<open>Settings_Screens\<close>: the screens of the same names. The lemmas show that saving what was opened keeps it, that
    nothing in the background overwrites what was typed, and that what a screen tells is what its operation does.
  \<^item> \<open>Vault_Screens\<close>: \<open>app-bootstrap.ts\<close>, \<open>features/vault\<close> and the security page, the start of the
    application and the life of a vault over the keys, the ledger, the settings and the scheduler together.
  \<^item> \<open>Application\<close>: every writing operation of the services, the import and the restoring of a backup as
    one step relation; its reachable states satisfy the ledger's invariant and hold only rows the
    services accept.

  \<^bold>\<open>Conventions.\<close> A signal is a function of the rows it is computed from. \<open>Date.now\<close>, fresh identifiers,
  random bytes, \<open>localeCompare\<close>, JSON, UTF-8 and the primitives of the platform's cryptography are
  arguments of the definitions that use them; what a theorem needs of them is a hypothesis of it with
  a witness that satisfies it. A thrown error is the \<open>Inl\<close> of a result and leaves the state the code
  leaves behind. A string is a list of UTF-16 code units below 256, on which case conversion is that
  of ASCII; the byte order mark of a file is the constructor \<open>Marked\<close>. Amounts are integers in minor
  units, which binary64 holds exactly below \<open>2 ^ 53\<close>; where the code converts or averages amounts they are
  binary64 values, and theorems that need exactness state the range. A \<open>Promise\<close> that other code can
  interleave with is a step; one that cannot is a function.

  \<^bold>\<open>Bounds.\<close> The scans of \<open>recurring/schedule.ts\<close> stop after \<open>MAX_SCAN\<close> of 25,000 steps, which is more than
  the days of 68 years, and after the 500 occurrences of \<open>MAX_OCCURRENCES_PER_RUN\<close>; both are the code's own and
  the theorems say what they cut off. The window search of \<open>budgets/period.ts\<close> has no bound in the code
  and is a \<open>partial_function\<close> that is proved to return. The month loop of the reports has its own
  guard of 1,200. Rounding and digits recurse on arguments that decrease. The theorems on sync that
  rest on the whole history being present say that there are fewer operations than \<open>SNAPSHOT_AFTER_OPERATIONS\<close> of
  200, below which no device takes a snapshot; \<open>Sync_Snapshot\<close> treats what a snapshot does.

  \<^bold>\<open>Not modelled, and why.\<close> The S3 and Git adapters translate calls for third-party clients (the AWS client and
  isomorphic-git); the engine is verified against the contract they implement, with a failure at any
  call. What the platform formats, draws at random, encrypts or shows is a parameter: \<open>Intl\<close>, the dates of
  the locale, the keystore, the file picker, the share sheet. The templates of the screens, icons,
  routes and dependency injection have no model; a handler of a template is the operation it calls. The chart
  components and \<open>reports/geometry.ts\<close> scale drawings. Of the server, the headers for browsers, logging and
  reading the environment are left out. The test helpers other than the in-memory destination are
  fixtures.
\<close>

end
